(* ===== verification/Prelude.thy ===== *)
theory Prelude
  imports Main "HOL-Library.Monad_Syntax" "HOL-Library.Word"
begin

text \<open>
  Shared vocabulary of the development.

  \<^item> Exceptions.  Every throwing path of the C++ code (an \<open>FC_ASSERT\<close> that fails, a
    \<open>BOOST_THROW_EXCEPTION\<close>, an overflow of \<open>fc::safe\<close>) is the value \<open>None\<close> of an
    \<open>option\<close>; a normal return is \<open>Some\<close>.  A transaction that throws is rolled back by its
    undo session, so the state that a throwing handler leaves behind is never observed.
  \<^item> Object tables.  A chainbase index is modelled by the list of its rows in primary-key
    (\<open>id\<close>) order.  \<open>tbl_modify\<close>, \<open>tbl_remove\<close> and \<open>find\<close> act on the row a C++ reference
    denotes, which is singled out by a predicate on its unique key.
  \<^item> Machine integers.  \<open>int64\<close> is the range of \<open>int64_t\<close>; \<open>int64_of_uint64\<close> is the
    conversion the language performs when a \<open>uint64_t\<close> initialises an \<open>int64_t\<close>.
\<close>

named_theorems opt_simps \<open>inversion of option-monad computations\<close>
named_theorems tbl_simps \<open>effect of table updates on sums and lookups\<close>

subsection \<open>Assertions\<close>

definition FC_ASSERT :: "bool \<Rightarrow> unit option" where
  "FC_ASSERT b = (if b then Some () else None)"

lemma FC_ASSERT_Some [simp, opt_simps]: "FC_ASSERT b = Some u \<longleftrightarrow> b"
  by (simp add: FC_ASSERT_def)

lemma FC_ASSERT_None [simp]: "FC_ASSERT b = None \<longleftrightarrow> \<not> b"
  by (simp add: FC_ASSERT_def)

lemma FC_ASSERT_True [simp]: "FC_ASSERT True = Some ()"
  by (simp add: FC_ASSERT_def)

lemma FC_ASSERT_False [simp]: "FC_ASSERT False = None"
  by (simp add: FC_ASSERT_def)

lemma bind_Some_iff [opt_simps]:
  "(Option.bind m f = Some y) \<longleftrightarrow> (\<exists>x. m = Some x \<and> f x = Some y)"
  by (cases m) auto

lemma bind_None_iff:
  "(Option.bind m f = None) \<longleftrightarrow> (m = None \<or> (\<exists>x. m = Some x \<and> f x = None))"
  by (cases m) auto

lemma if_None_Some_iff [opt_simps]:
  "((if b then Some x else None) = Some y) \<longleftrightarrow> b \<and> x = y"
  "((if b then None else Some x) = Some y) \<longleftrightarrow> \<not> b \<and> x = y"
  by auto

lemma map_option_Some_iff [opt_simps]:
  "(map_option f m = Some y) \<longleftrightarrow> (\<exists>x. m = Some x \<and> y = f x)"
  by (cases m) auto

text \<open>Sequencing of computations that name their exception.\<close>

definition sbind :: "'e + 'a \<Rightarrow> ('a \<Rightarrow> 'e + 'b) \<Rightarrow> 'e + 'b" where
  "sbind m f = (case m of Inl e \<Rightarrow> Inl e | Inr x \<Rightarrow> f x)"

lemma sbind_simps [simp]: "sbind (Inl e) f = Inl e" "sbind (Inr x) f = f x"
  by (simp_all add: sbind_def)

lemma sbind_Inr_iff: "sbind m f = Inr y \<longleftrightarrow> (\<exists>x. m = Inr x \<and> f x = Inr y)"
  by (cases m) auto

subsection \<open>Ranges of machine integers\<close>

definition int64 :: "int \<Rightarrow> bool" where
  "int64 v \<longleftrightarrow> - (2 ^ 63) \<le> v \<and> v < 2 ^ 63"

definition int64_of_uint64 :: "int \<Rightarrow> int" where
  "int64_of_uint64 v = (if v < 2 ^ 63 then v else v - 2 ^ 64)"

lemma int64_nonneg: "0 \<le> v \<Longrightarrow> v < 2 ^ 63 \<Longrightarrow> int64 v"
  by (simp add: int64_def)

lemma int64_of_uint64_range: "0 \<le> v \<Longrightarrow> v < 2 ^ 64 \<Longrightarrow> int64 (int64_of_uint64 v)"
  by (auto simp: int64_def int64_of_uint64_def)

lemma int64_of_uint64_id [simp]: "v < 2 ^ 63 \<Longrightarrow> int64_of_uint64 v = v"
  by (simp add: int64_of_uint64_def)

lemma div_floor:
  fixes x d :: int
  assumes "0 < d"
  shows "x div d * d \<le> x \<and> x < (x div d + 1) * d"
proof -
  have dm: "x div d * d + x mod d = x" by (rule div_mult_mod_eq)
  have m: "0 \<le> x mod d" "x mod d < d" using assms by auto
  from dm m(1) have "x div d * d \<le> x" by linarith
  moreover from dm m(2) have "x < x div d * d + d" by linarith
  then have "x < (x div d + 1) * d" by (simp only: distrib_right mult_1)
  ultimately show ?thesis ..
qed

subsection \<open>Object tables\<close>

fun tbl_modify :: "('a \<Rightarrow> bool) \<Rightarrow> ('a \<Rightarrow> 'a option) \<Rightarrow> 'a list \<Rightarrow> 'a list option" where
  "tbl_modify P f [] = None"
| "tbl_modify P f (x # xs) =
     (if P x then map_option (\<lambda>y. y # xs) (f x)
      else map_option (\<lambda>ys. x # ys) (tbl_modify P f xs))"

fun tbl_remove :: "('a \<Rightarrow> bool) \<Rightarrow> 'a list \<Rightarrow> 'a list" where
  "tbl_remove P [] = []"
| "tbl_remove P (x # xs) = (if P x then xs else x # tbl_remove P xs)"

definition tbl_emplace :: "('a \<Rightarrow> 'a \<Rightarrow> bool) \<Rightarrow> 'a \<Rightarrow> 'a list \<Rightarrow> 'a list option" where
  "tbl_emplace clash x xs = (if list_ex (clash x) xs then None else Some (xs @ [x]))"

abbreviation tsum :: "('a \<Rightarrow> int) \<Rightarrow> 'a list \<Rightarrow> int" where
  "tsum g xs \<equiv> sum_list (map g xs)"

text \<open>A successful modification rewrites the row that lookup finds, and nothing else.\<close>

lemma tbl_modify_split:
  assumes "tbl_modify P f xs = Some ys"
  obtains us x y vs where "xs = us @ x # vs" "ys = us @ y # vs" "f x = Some y" "P x"
    "\<forall>u \<in> set us. \<not> P u" "List.find P xs = Some x"
proof -
  have "\<exists>us x y vs. xs = us @ x # vs \<and> ys = us @ y # vs \<and> f x = Some y \<and> P x
          \<and> (\<forall>u \<in> set us. \<not> P u) \<and> List.find P xs = Some x"
    using assms
  proof (induction xs arbitrary: ys)
    case Nil
    then show ?case by simp
  next
    case (Cons a xs)
    show ?case
    proof (cases "P a")
      case True
      with Cons.prems obtain y where "ys = y # xs" "f a = Some y"
        by (auto simp: map_option_Some_iff)
      with True show ?thesis
        by (intro exI[of _ "[]"] exI[of _ a] exI[of _ y] exI[of _ xs]) simp
    next
      case False
      with Cons.prems obtain zs where zs: "tbl_modify P f xs = Some zs" "ys = a # zs"
        by (auto simp: map_option_Some_iff)
      from Cons.IH[OF zs(1)] obtain us x y vs where
        "xs = us @ x # vs" "zs = us @ y # vs" "f x = Some y" "P x"
        "\<forall>u \<in> set us. \<not> P u" "List.find P xs = Some x"
        by blast
      with False zs(2) show ?thesis
        by (intro exI[of _ "a # us"] exI[of _ x] exI[of _ y] exI[of _ vs]) simp
    qed
  qed
  with that show thesis by blast
qed

lemma tbl_modify_Some_iff:
  "(\<exists>ys. tbl_modify P f xs = Some ys) \<longleftrightarrow>
   (\<exists>x y. List.find P xs = Some x \<and> f x = Some y)"
  by (induction xs) (auto simp: map_option_Some_iff)

lemma tsum_modify:
  assumes "tbl_modify P f xs = Some ys"
  shows "\<exists>x y. List.find P xs = Some x \<and> f x = Some y \<and> tsum g ys = tsum g xs - g x + g y"
  using assms by (elim tbl_modify_split) auto

lemma tsum_modify_find:
  assumes "tbl_modify P f xs = Some ys" and "List.find P xs = Some x" and "f x = Some y"
  shows "tsum g ys = tsum g xs - g x + g y"
  using tsum_modify[OF assms(1), of g] assms(2,3) by auto

lemma tsum_modify_same:
  assumes "tbl_modify P f xs = Some ys"
    and "\<And>x y. f x = Some y \<Longrightarrow> g y = g x"
  shows "tsum g ys = tsum g xs"
  using tsum_modify[OF assms(1), of g] assms(2) by auto

lemma map_key_modify:
  assumes "tbl_modify P f xs = Some ys"
    and "\<And>x y. f x = Some y \<Longrightarrow> k y = k x"
  shows "map k ys = map k xs"
  using assms(1) by (elim tbl_modify_split) (auto dest: assms(2))

lemma find_append:
  "List.find P (xs @ ys) = (case List.find P xs of Some x \<Rightarrow> Some x | None \<Rightarrow> List.find P ys)"
  by (induction xs) auto

lemma find_None_all: "List.find P xs = None \<longleftrightarrow> (\<forall>x \<in> set xs. \<not> P x)"
  by (induction xs) auto

lemma find_Some_P: "List.find P xs = Some x \<Longrightarrow> P x \<and> x \<in> set xs"
  by (induction xs) (auto split: if_splits)

lemma find_modify_other:
  assumes "tbl_modify P f xs = Some ys"
    and "\<And>x y. P x \<Longrightarrow> f x = Some y \<Longrightarrow> \<not> Q x \<and> \<not> Q y"
  shows "List.find Q ys = List.find Q xs"
  using assms(1)
proof (rule tbl_modify_split)
  fix us x y vs
  assume xs: "xs = us @ x # vs" "ys = us @ y # vs" "f x = Some y" "P x"
  from assms(2)[OF xs(4,3)] have "\<not> Q x" "\<not> Q y" by auto
  with xs(1,2) show ?thesis by (simp add: find_append split: option.split)
qed

lemma find_modify_same:
  assumes "tbl_modify P f xs = Some ys"
    and "\<And>x y. P x \<Longrightarrow> f x = Some y \<Longrightarrow> P y"
  shows "\<exists>x y. List.find P xs = Some x \<and> f x = Some y \<and> List.find P ys = Some y"
  using assms(1)
proof (rule tbl_modify_split)
  fix us x y vs
  assume xs: "xs = us @ x # vs" "ys = us @ y # vs" "f x = Some y" "P x"
    "\<forall>u \<in> set us. \<not> P u" "List.find P xs = Some x"
  have "List.find P us = None" using xs(5) by (simp add: find_None_all)
  moreover have "P y" using assms(2) xs(3,4) by blast
  ultimately show ?thesis using xs by (simp add: find_append)
qed

lemma tsum_remove:
  "List.find P xs = Some x \<Longrightarrow> tsum g (tbl_remove P xs) = tsum g xs - g x"
  by (induction xs) (auto split: if_splits)

lemma tsum_remove_none: "List.find P xs = None \<Longrightarrow> tbl_remove P xs = xs"
  by (induction xs) (auto split: if_splits)

lemma set_tbl_remove: "set (tbl_remove P xs) \<subseteq> set xs"
  by (induction xs) auto

lemma length_tbl_remove:
  "List.find P xs = Some x \<Longrightarrow> length xs = Suc (length (tbl_remove P xs))"
  by (induction xs) (auto split: if_splits)

lemma length_tbl_remove_less: "x \<in> set xs \<Longrightarrow> P x \<Longrightarrow> length (tbl_remove P xs) < length xs"
  by (induction xs) (auto simp: Suc_less_eq)

lemma distinct_map_tbl_remove: "distinct (map k xs) \<Longrightarrow> distinct (map k (tbl_remove P xs))"
  by (induction xs) (use set_tbl_remove in \<open>fastforce\<close>)+

lemma tbl_emplace_Some [opt_simps]:
  "tbl_emplace clash x xs = Some ys \<longleftrightarrow> ys = xs @ [x] \<and> (\<forall>r \<in> set xs. \<not> clash x r)"
  by (auto simp: tbl_emplace_def list_ex_iff)

lemma tsum_emplace:
  "tbl_emplace clash x xs = Some ys \<Longrightarrow> tsum g ys = tsum g xs + g x"
  by (simp add: tbl_emplace_Some)

text \<open>A key that no two rows share finds its row.\<close>

lemma find_unique:
  "distinct (map k xs) \<Longrightarrow> x \<in> set xs \<Longrightarrow> List.find (\<lambda>y. k y = k x) xs = Some x"
proof (induction xs)
  case (Cons a xs)
  show ?case
  proof (cases "k a = k x")
    case True
    then have "a = x" using Cons.prems by (auto simp: rev_image_eqI)
    then show ?thesis by simp
  next
    case False
    then show ?thesis using Cons by auto
  qed
qed simp

lemma distinct_emplace:
  assumes "distinct (map k xs)" "tbl_emplace clash x xs = Some ys" "\<And>r. k x = k r \<Longrightarrow> clash x r"
  shows "distinct (map k ys)"
  using assms by (auto simp: tbl_emplace_Some)

lemmas tbl_sum_rules = tsum_modify_find tsum_remove tsum_emplace

end
