(* ===== verification/Fc.thy ===== *)
theory Fc
  imports Prelude "HOL-Library.Signed_Division"
begin

text \<open>
  The interface to libfc.  The library is a git submodule whose sources are not part of the
  repository, so the operations the node calls are the fields of a record \<open>fc_lib\<close>, which every
  definition that uses them takes as its argument, and what the node relies on is stated as the
  assumptions of locales:

  \<^item> \<open>fc_safe\<close>: \<open>fc::safe<int64_t>\<close> computes exactly or throws (``automatic checks for integer
    overflow'');
  \<^item> \<open>fc_u128\<close>: \<open>fc::uint128\<close> is exact as long as the result fits 128 bits, \<open>to_uint64\<close> throws
    when the high half is not zero, division by zero throws;
  \<^item> \<open>fc_time\<close>: \<open>time_point_sec\<close> counts seconds, sums below \<open>2 ^ 32\<close> are exact;
  \<^item> \<open>fc_string\<close>: \<open>fc::to_string\<close> prints decimals, \<open>fc::to_int64\<close> reads them back, \<open>fc::trim\<close>
    strips blanks at the ends;
  \<^item> \<open>fc_bits\<close>: shifts, masks and halves of \<open>uint128\<close>, the most significant bit of a 64-bit word
    (\<open>boost::multiprecision::detail::find_msb\<close>), products and quotients of the 256- and 512-bit integers;
  \<^item> \<open>fc::is_utf8\<close>, \<open>fc::prune_invalid_utf8\<close> and \<open>fc::json::is_valid\<close> need no law, nor does
    \<open>diff_match_patch\<close>: it throws (\<open>None\<close>), finds no patch (\<open>Some None\<close>) or yields the patched text.

  Values of \<open>share_type\<close>, \<open>uint128_t\<close> and \<open>time_point_sec\<close> are represented by the integer they
  denote.  \<open>fc_exact\<close> is a concrete library that meets all the laws; witnesses use it.
\<close>

record fc_lib =
  safe_add :: "int \<Rightarrow> int \<Rightarrow> int option"
  safe_sub :: "int \<Rightarrow> int \<Rightarrow> int option"
  safe_neg :: "int \<Rightarrow> int option"
  safe_mul :: "int \<Rightarrow> int \<Rightarrow> int option"
  safe_div :: "int \<Rightarrow> int \<Rightarrow> int option"
  safe_mod :: "int \<Rightarrow> int \<Rightarrow> int option"
  u128_of :: "int \<Rightarrow> int"
  u128_add :: "int \<Rightarrow> int \<Rightarrow> int"
  u128_sub :: "int \<Rightarrow> int \<Rightarrow> int"
  u128_mul :: "int \<Rightarrow> int \<Rightarrow> int"
  u128_div :: "int \<Rightarrow> int \<Rightarrow> int option"
  u128_hi :: "int \<Rightarrow> int"
  u128_to_uint64 :: "int \<Rightarrow> int option"
  u128_max :: int
  secs_add :: "int \<Rightarrow> int \<Rightarrow> int"
  secs_diff :: "int \<Rightarrow> int \<Rightarrow> int"
  secs_max :: int
  fc_to_string :: "int \<Rightarrow> string"
  fc_to_int64 :: "string \<Rightarrow> int option"
  fc_trim :: "string \<Rightarrow> string"
  fc_is_utf8 :: "string \<Rightarrow> bool"
  fc_json_is_valid :: "string \<Rightarrow> bool"
  u128_lo :: "int \<Rightarrow> int"
  u128_shl :: "int \<Rightarrow> nat \<Rightarrow> int"
  u128_shr :: "int \<Rightarrow> nat \<Rightarrow> int"
  u128_and :: "int \<Rightarrow> int \<Rightarrow> int"
  find_msb64 :: "int \<Rightarrow> nat"
  wide_mul :: "nat \<Rightarrow> int \<Rightarrow> int \<Rightarrow> int"
  wide_div :: "int \<Rightarrow> int \<Rightarrow> int option"
  wide_to_uint64 :: "int \<Rightarrow> int"
  fc_prune_invalid_utf8 :: "string \<Rightarrow> string"
  dmp_patch :: "string \<Rightarrow> string \<Rightarrow> string option option"

definition in_u128 :: "int \<Rightarrow> bool" where
  "in_u128 v \<longleftrightarrow> 0 \<le> v \<and> v < 2 ^ 128"

text \<open>Decimal notation, most significant digit first.\<close>

fun decimal :: "nat \<Rightarrow> string" where
  "decimal n = (if n < 10 then [char_of (48 + n)]
                else decimal (n div 10) @ [char_of (48 + n mod 10)])"

declare decimal.simps [simp del]

definition decimal_int :: "int \<Rightarrow> string" where
  "decimal_int v = (if v < 0 then CHR ''-'' # decimal (nat (- v)) else decimal (nat v))"

fun read_digits :: "nat \<Rightarrow> string \<Rightarrow> nat option" where
  "read_digits acc [] = Some acc"
| "read_digits acc (c # cs) =
     (let d = of_char c :: nat in
      if 48 \<le> d \<and> d \<le> 57 then read_digits (acc * 10 + (d - 48)) cs else None)"

definition read_int :: "string \<Rightarrow> int option" where
  "read_int s =
     (case s of [] \<Rightarrow> None
      | c # cs \<Rightarrow>
          if c = CHR ''-'' then
            (if cs = [] then None else map_option (\<lambda>n. - int n) (read_digits 0 cs))
          else map_option int (read_digits 0 s))"

locale fc_safe =
  fixes F :: fc_lib
  assumes safe_add_law: "safe_add F a b = (if int64 (a + b) then Some (a + b) else None)"
    and safe_sub_law: "safe_sub F a b = (if int64 (a - b) then Some (a - b) else None)"
    and safe_neg_law: "safe_neg F a = (if int64 (- a) then Some (- a) else None)"
    and safe_mul_law: "safe_mul F a b = (if int64 (a * b) then Some (a * b) else None)"
    and safe_div_law: "safe_div F a b =
          (if b \<noteq> 0 \<and> int64 (a sdiv b) then Some (a sdiv b) else None)"
    and safe_mod_law: "safe_mod F a b = (if b \<noteq> 0 then Some (a smod b) else None)"
begin

lemma safe_add_SomeD: "safe_add F a b = Some c \<Longrightarrow> c = a + b \<and> int64 c"
  by (simp add: safe_add_law split: if_splits)

lemma safe_sub_SomeD: "safe_sub F a b = Some c \<Longrightarrow> c = a - b \<and> int64 c"
  by (simp add: safe_sub_law split: if_splits)

lemma safe_neg_SomeD: "safe_neg F a = Some c \<Longrightarrow> c = - a \<and> int64 c"
  by (simp add: safe_neg_law split: if_splits)

lemma safe_mul_SomeD: "safe_mul F a b = Some c \<Longrightarrow> c = a * b \<and> int64 c"
  by (simp add: safe_mul_law split: if_splits)

lemmas safe_SomeD = safe_add_SomeD safe_sub_SomeD safe_neg_SomeD safe_mul_SomeD

end

locale fc_u128 =
  fixes F :: fc_lib
  assumes u128_of_law: "0 \<le> v \<Longrightarrow> v < 2 ^ 64 \<Longrightarrow> u128_of F v = v"
    and u128_add_law: "in_u128 a \<Longrightarrow> in_u128 b \<Longrightarrow> in_u128 (a + b) \<Longrightarrow> u128_add F a b = a + b"
    and u128_sub_law: "in_u128 a \<Longrightarrow> in_u128 b \<Longrightarrow> b \<le> a \<Longrightarrow> u128_sub F a b = a - b"
    and u128_mul_law: "in_u128 a \<Longrightarrow> in_u128 b \<Longrightarrow> in_u128 (a * b) \<Longrightarrow> u128_mul F a b = a * b"
    and u128_div_law: "in_u128 a \<Longrightarrow> in_u128 b \<Longrightarrow>
          u128_div F a b = (if b = 0 then None else Some (a div b))"
    and u128_hi_law: "in_u128 a \<Longrightarrow> u128_hi F a = a div 2 ^ 64"
    and u128_to_uint64_law: "in_u128 a \<Longrightarrow>
          u128_to_uint64 F a = (if a < 2 ^ 64 then Some a else None)"
    and u128_max_law: "u128_max F = 2 ^ 128 - 1"

locale fc_time =
  fixes F :: fc_lib
  assumes secs_add_law: "0 \<le> t \<Longrightarrow> 0 \<le> s \<Longrightarrow> t + s < 2 ^ 32 \<Longrightarrow> secs_add F t s = t + s"
    and secs_diff_law: "0 \<le> t \<Longrightarrow> t < 2 ^ 32 \<Longrightarrow> 0 \<le> u \<Longrightarrow> u < 2 ^ 32 \<Longrightarrow>
          secs_diff F t u = t - u"
    and secs_max_law: "secs_max F = 2 ^ 32 - 1"

locale fc_string =
  fixes F :: fc_lib
  assumes fc_to_string_law: "int64 v \<Longrightarrow> fc_to_string F v = decimal_int v"
    and fc_to_int64_law: "read_int s = Some v \<Longrightarrow> int64 v \<Longrightarrow> fc_to_int64 F s = Some v"
    and fc_trim_law: "s \<noteq> [] \<Longrightarrow> hd s \<noteq> CHR '' '' \<Longrightarrow> last s \<noteq> CHR '' '' \<Longrightarrow>
          list_all (\<lambda>c. 33 \<le> (of_char c :: nat) \<and> (of_char c :: nat) < 127) (filter (\<lambda>c. c \<noteq> CHR '' '') s)
          \<Longrightarrow> fc_trim F s = s"

locale fc_bits =
  fixes F :: fc_lib
  assumes u128_lo_law: "in_u128 a \<Longrightarrow> u128_lo F a = a mod 2 ^ 64"
    and u128_shl_law: "in_u128 a \<Longrightarrow> n < 128 \<Longrightarrow> u128_shl F a n = a * 2 ^ n mod 2 ^ 128"
    and u128_shr_law: "in_u128 a \<Longrightarrow> n < 128 \<Longrightarrow> u128_shr F a n = a div 2 ^ n"
    and u128_and_law: "in_u128 a \<Longrightarrow> n < 128 \<Longrightarrow> u128_and F a (2 ^ n - 1) = a mod 2 ^ n"
    and find_msb64_law: "0 < x \<Longrightarrow> x < 2 ^ 64 \<Longrightarrow> 2 ^ find_msb64 F x \<le> x \<and> x < 2 * 2 ^ find_msb64 F x"
    and wide_mul_law: "0 \<le> a \<Longrightarrow> 0 \<le> b \<Longrightarrow> a * b < 2 ^ w \<Longrightarrow> wide_mul F w a b = a * b"
    and wide_div_law: "0 \<le> a \<Longrightarrow> 0 \<le> b \<Longrightarrow> wide_div F a b = (if b = 0 then None else Some (a div b))"
    and wide_to_uint64_law: "0 \<le> a \<Longrightarrow> a < 2 ^ 64 \<Longrightarrow> wide_to_uint64 F a = a"

locale fc_library = fc_safe F + fc_u128 F + fc_time F + fc_string F + fc_bits F for F :: fc_lib

subsection \<open>A library that meets the laws\<close>

fun msb :: "nat \<Rightarrow> nat" where
  "msb n = (if n < 2 then 0 else Suc (msb (n div 2)))"

declare msb.simps [simp del]

lemma msb_bounds: "0 < n \<Longrightarrow> 2 ^ msb n \<le> n \<and> n < 2 * 2 ^ msb n"
proof (induction n rule: msb.induct)
  case (1 n)
  show ?case
  proof (cases "n < 2")
    case False
    then have "2 ^ msb (n div 2) \<le> n div 2 \<and> n div 2 < 2 * 2 ^ msb (n div 2)" using 1(1) by simp
    then show ?thesis using False by (subst (1 2) msb.simps) (simp, linarith)
  qed (use 1(2) in \<open>simp add: msb.simps[of n]\<close>)
qed


definition fc_exact :: fc_lib where
  "fc_exact = \<lparr>
     safe_add = (\<lambda>a b. if int64 (a + b) then Some (a + b) else None),
     safe_sub = (\<lambda>a b. if int64 (a - b) then Some (a - b) else None),
     safe_neg = (\<lambda>a. if int64 (- a) then Some (- a) else None),
     safe_mul = (\<lambda>a b. if int64 (a * b) then Some (a * b) else None),
     safe_div = (\<lambda>a b. if b \<noteq> 0 \<and> int64 (a sdiv b) then Some (a sdiv b) else None),
     safe_mod = (\<lambda>a b. if b \<noteq> 0 then Some (a smod b) else None),
     u128_of = (\<lambda>v. v mod 2 ^ 128),
     u128_add = (\<lambda>a b. (a + b) mod 2 ^ 128),
     u128_sub = (\<lambda>a b. (a - b) mod 2 ^ 128),
     u128_mul = (\<lambda>a b. (a * b) mod 2 ^ 128),
     u128_div = (\<lambda>a b. if b = 0 then None else Some (a div b)),
     u128_hi = (\<lambda>a. a div 2 ^ 64),
     u128_to_uint64 = (\<lambda>a. if a < 2 ^ 64 then Some a else None),
     u128_max = 2 ^ 128 - 1,
     secs_add = (\<lambda>t s. (t + s) mod 2 ^ 32),
     secs_diff = (\<lambda>t u. t - u),
     secs_max = 2 ^ 32 - 1,
     fc_to_string = decimal_int,
     fc_to_int64 = (\<lambda>s. case read_int s of None \<Rightarrow> None | Some v \<Rightarrow> if int64 v then Some v else None),
     fc_trim = (\<lambda>s. rev (dropWhile (\<lambda>c. c = CHR '' '') (rev (dropWhile (\<lambda>c. c = CHR '' '') s)))),
     fc_is_utf8 = list_all (\<lambda>c. (of_char c :: nat) < 128),
     fc_json_is_valid = (\<lambda>s. s = ''{}''),
     u128_lo = (\<lambda>a. a mod 2 ^ 64),
     u128_shl = (\<lambda>a n. a * 2 ^ n mod 2 ^ 128),
     u128_shr = (\<lambda>a n. a div 2 ^ n),
     u128_and = (\<lambda>a b. and a b),
     find_msb64 = (\<lambda>x. msb (nat x)),
     wide_mul = (\<lambda>w a b. a * b mod 2 ^ w),
     wide_div = (\<lambda>a b. if b = 0 then None else Some (a div b)),
     wide_to_uint64 = (\<lambda>a. a mod 2 ^ 64),
     fc_prune_invalid_utf8 = filter (\<lambda>c. (of_char c :: nat) < 128),
     dmp_patch = (\<lambda>_ _. None) \<rparr>"

lemma fc_exact_sel [simp]:
  "safe_add fc_exact = (\<lambda>a b. if int64 (a + b) then Some (a + b) else None)"
  "safe_sub fc_exact = (\<lambda>a b. if int64 (a - b) then Some (a - b) else None)"
  "safe_neg fc_exact = (\<lambda>a. if int64 (- a) then Some (- a) else None)"
  "safe_mul fc_exact = (\<lambda>a b. if int64 (a * b) then Some (a * b) else None)"
  "safe_div fc_exact = (\<lambda>a b. if b \<noteq> 0 \<and> int64 (a sdiv b) then Some (a sdiv b) else None)"
  "safe_mod fc_exact = (\<lambda>a b. if b \<noteq> 0 then Some (a smod b) else None)"
  "u128_of fc_exact = (\<lambda>v. v mod 2 ^ 128)"
  "u128_add fc_exact = (\<lambda>a b. (a + b) mod 2 ^ 128)"
  "u128_sub fc_exact = (\<lambda>a b. (a - b) mod 2 ^ 128)"
  "u128_mul fc_exact = (\<lambda>a b. (a * b) mod 2 ^ 128)"
  "u128_div fc_exact = (\<lambda>a b. if b = 0 then None else Some (a div b))"
  "u128_hi fc_exact = (\<lambda>a. a div 2 ^ 64)"
  "u128_to_uint64 fc_exact = (\<lambda>a. if a < 2 ^ 64 then Some a else None)"
  "u128_max fc_exact = 2 ^ 128 - 1"
  "secs_add fc_exact = (\<lambda>t s. (t + s) mod 2 ^ 32)"
  "secs_diff fc_exact = (\<lambda>t u. t - u)"
  "secs_max fc_exact = 2 ^ 32 - 1"
  "fc_to_string fc_exact = decimal_int"
  "fc_to_int64 fc_exact =
     (\<lambda>s. case read_int s of None \<Rightarrow> None | Some v \<Rightarrow> if int64 v then Some v else None)"
  "fc_trim fc_exact =
     (\<lambda>s. rev (dropWhile (\<lambda>c. c = CHR '' '') (rev (dropWhile (\<lambda>c. c = CHR '' '') s))))"
  "fc_is_utf8 fc_exact = list_all (\<lambda>c. (of_char c :: nat) < 128)"
  "fc_json_is_valid fc_exact = (\<lambda>s. s = ''{}'')"
  "u128_lo fc_exact = (\<lambda>a. a mod 2 ^ 64)"
  "u128_shl fc_exact = (\<lambda>a n. a * 2 ^ n mod 2 ^ 128)"
  "u128_shr fc_exact = (\<lambda>a n. a div 2 ^ n)"
  "u128_and fc_exact = (\<lambda>a b. and a b)"
  "find_msb64 fc_exact = (\<lambda>x. msb (nat x))"
  "wide_mul fc_exact = (\<lambda>w a b. a * b mod 2 ^ w)"
  "wide_div fc_exact = (\<lambda>a b. if b = 0 then None else Some (a div b))"
  "wide_to_uint64 fc_exact = (\<lambda>a. a mod 2 ^ 64)"
  "fc_prune_invalid_utf8 fc_exact = filter (\<lambda>c. (of_char c :: nat) < 128)"
  "dmp_patch fc_exact = (\<lambda>_ _. None)"
  by (simp_all add: fc_exact_def)

lemma dropWhile_hd: "s \<noteq> [] \<Longrightarrow> \<not> P (hd s) \<Longrightarrow> dropWhile P s = s"
  by (cases s) auto

interpretation fc_exact: fc_library fc_exact
proof unfold_locales
  fix s :: string
  assume "s \<noteq> []" "hd s \<noteq> CHR '' ''" "last s \<noteq> CHR '' ''"
  then show "fc_trim fc_exact s = s"
    by (simp add: dropWhile_hd hd_rev)
next
  show "u128_and fc_exact a (2 ^ n - 1) = a mod 2 ^ n" for a n
    by (simp flip: mask_eq_exp_minus_1 take_bit_eq_mask take_bit_eq_mod)
next
  fix x :: int
  assume "0 < x"
  then have "0 < nat x" by simp
  from msb_bounds[OF this] have "int (2 ^ msb (nat x)) \<le> int (nat x) \<and> int (nat x) < int (2 * 2 ^ msb (nat x))"
    by (simp only: of_nat_le_iff of_nat_less_iff)
  then show "2 ^ find_msb64 fc_exact x \<le> x \<and> x < 2 * 2 ^ find_msb64 fc_exact x" using \<open>0 < x\<close> by simp
qed (auto simp: in_u128_def)

end
