(* ===== verification/Asset.thy ===== *)
theory Asset
  imports Fc
begin

text \<open>
  Assets and prices (\<open>libraries/protocol/include/node/protocol/asset.hpp\<close>,
  \<open>libraries/protocol/asset.cpp\<close>).  An asset is an amount and a 64-bit symbol that packs the
  number of decimals (byte 0) and a zero-terminated name (bytes 1 to 7, little endian).  Every
  operator that asserts equal symbols, overflows or meets an invalid symbol yields \<open>None\<close>.

  Shown here: the arithmetic of assets is exact, the price order is the order of the cross
  products, multiplication by a price never creates value, and printing followed by parsing is
  the identity on non-negative amounts.
\<close>

type_synonym asset_symbol_type = "64 word"

record asset =
  amount :: int
  symbol :: asset_symbol_type

record price =
  base :: asset
  quote :: asset

abbreviation mk_asset :: "int \<Rightarrow> asset_symbol_type \<Rightarrow> asset" where
  "mk_asset a s \<equiv> \<lparr>amount = a, symbol = s\<rparr>"

abbreviation mk_price :: "asset \<Rightarrow> asset \<Rightarrow> price" where
  "mk_price b q \<equiv> \<lparr>base = b, quote = q\<rparr>"

subsection \<open>Symbols\<close>

fun bytes_nat :: "nat list \<Rightarrow> nat" where
  "bytes_nat [] = 0"
| "bytes_nat (b # bs) = b + 256 * bytes_nat bs"

definition sym_of_bytes :: "nat list \<Rightarrow> asset_symbol_type" where
  "sym_of_bytes bs = word_of_nat (bytes_nat bs)"

definition sym_byte :: "asset_symbol_type \<Rightarrow> nat \<Rightarrow> nat" where
  "sym_byte s i = (unat s div 256 ^ i) mod 256"

text \<open>\<open>uint64_t(3) | (uint64_t('T') << 8) | ...\<close>: the bytes do not overlap.\<close>

definition SYMBOL_COIN :: asset_symbol_type where
  "SYMBOL_COIN = 3 + 84 * 2 ^ 8 + 77 * 2 ^ 16 + 69 * 2 ^ 24"

definition SYMBOL_SCORE :: asset_symbol_type where
  "SYMBOL_SCORE = 6 + 83 * 2 ^ 8 + 67 * 2 ^ 16 + 79 * 2 ^ 24 + 82 * 2 ^ 32 + 69 * 2 ^ 40"

definition SYMBOL_USD :: asset_symbol_type where
  "SYMBOL_USD = 3 + 84 * 2 ^ 8 + 83 * 2 ^ 16 + 68 * 2 ^ 24"

definition MAX_SCORE_SUPPLY :: int where
  "MAX_SCORE_SUPPLY = 1000000000000000000"

definition asset_decimals :: "asset \<Rightarrow> nat option" where
  "asset_decimals a =
     (let result = sym_byte (symbol a) 0 in do {
        FC_ASSERT (result < 15);
        Some result })"

definition asset_set_decimals :: "nat \<Rightarrow> asset \<Rightarrow> asset option" where
  "asset_set_decimals d a = do {
     FC_ASSERT (d < 15);
     Some (a\<lparr>symbol := word_of_nat (unat (symbol a) - sym_byte (symbol a) 0 + d)\<rparr>) }"

definition asset_symbol_name :: "asset_symbol_type \<Rightarrow> string option" where
  "asset_symbol_name s = do {
     FC_ASSERT (sym_byte s 7 = 0);
     Some (map char_of (takeWhile (\<lambda>b. b \<noteq> 0) (map (sym_byte s) [1..<8]))) }"

definition asset_precision :: "asset \<Rightarrow> int option" where
  "asset_precision a = do {
     d \<leftarrow> asset_decimals a;
     Some ([1, 10, 100, 1000, 10000, 100000, 1000000, 10000000, 100000000,
            1000000000, 10000000000, 100000000000, 1000000000000,
            10000000000000, 100000000000000] ! d) }"

subsection \<open>Printing and parsing\<close>

text \<open>Signed 64-bit arithmetic on the raw \<open>amount.value\<close> (two's complement wrap-around).\<close>

definition wrap64 :: "int \<Rightarrow> int" where
  "wrap64 v = (v + 2 ^ 63) mod 2 ^ 64 - 2 ^ 63"

definition str_find :: "char \<Rightarrow> string \<Rightarrow> nat option" where
  "str_find c s = (if c \<in> set s then Some (length (takeWhile (\<lambda>x. x \<noteq> c) s)) else None)"

definition substr :: "nat \<Rightarrow> nat \<Rightarrow> string \<Rightarrow> string" where
  "substr pos n s = take n (drop pos s)"

definition asset_to_string :: "fc_lib \<Rightarrow> asset \<Rightarrow> string option" where
  "asset_to_string F a = do {
     prec \<leftarrow> asset_precision a;
     let result = fc_to_string F (amount a sdiv prec);
     let fract = amount a smod prec;
     let result' = (if prec > 1 then result @ ''.'' @ drop 1 (fc_to_string F (prec + fract))
                    else result);
     name \<leftarrow> asset_symbol_name (symbol a);
     Some (result' @ '' '' @ name) }"

definition asset_from_string :: "fc_lib \<Rightarrow> string \<Rightarrow> asset option" where
  "asset_from_string F from = do {
     let s = fc_trim F from;
     space_pos \<leftarrow> str_find (CHR '' '') s;
     let result = mk_asset 0 0;
     result' \<leftarrow> (case str_find (CHR ''.'') s of
         Some dot_pos \<Rightarrow> do {
           FC_ASSERT (space_pos > dot_pos);
           let intpart = substr 0 dot_pos s;
           let fractpart = ''1'' @ substr (dot_pos + 1) (space_pos - dot_pos - 1) s;
           r \<leftarrow> asset_set_decimals ((length fractpart - 1) mod 256) result;
           i \<leftarrow> fc_to_int64 F intpart;
           prec \<leftarrow> asset_precision r;
           f \<leftarrow> fc_to_int64 F fractpart;
           Some (r\<lparr>amount := wrap64 (wrap64 (wrap64 (i * prec) + f) - prec)\<rparr>) }
       | None \<Rightarrow> do {
           let intpart = substr 0 space_pos s;
           i \<leftarrow> fc_to_int64 F intpart;
           asset_set_decimals 0 (result\<lparr>amount := i\<rparr>) });
     let sy = drop (space_pos + 1) s;
     FC_ASSERT (length sy \<le> 6);
     Some (result'\<lparr>symbol := sym_of_bytes (sym_byte (symbol result') 0 # map of_char sy)\<rparr>) }"

subsection \<open>Arithmetic and comparison of assets\<close>

definition asset_add :: "fc_lib \<Rightarrow> asset \<Rightarrow> asset \<Rightarrow> asset option" where
  "asset_add F a b = do {
     FC_ASSERT (symbol a = symbol b);
     v \<leftarrow> safe_add F (amount a) (amount b);
     Some (mk_asset v (symbol a)) }"

definition asset_sub :: "fc_lib \<Rightarrow> asset \<Rightarrow> asset \<Rightarrow> asset option" where
  "asset_sub F a b = do {
     FC_ASSERT (symbol a = symbol b);
     v \<leftarrow> safe_sub F (amount a) (amount b);
     Some (mk_asset v (symbol a)) }"

definition asset_neg :: "fc_lib \<Rightarrow> asset \<Rightarrow> asset option" where
  "asset_neg F a = do { v \<leftarrow> safe_neg F (amount a); Some (mk_asset v (symbol a)) }"

definition asset_eq :: "asset \<Rightarrow> asset \<Rightarrow> bool" where
  "asset_eq a b \<longleftrightarrow> symbol a = symbol b \<and> amount a = amount b"

definition asset_less :: "asset \<Rightarrow> asset \<Rightarrow> bool option" where
  "asset_less a b = do {
     FC_ASSERT (symbol a = symbol b);
     Some (amount a < amount b \<or> (amount a = amount b \<and> symbol a < symbol b)) }"

definition asset_le :: "asset \<Rightarrow> asset \<Rightarrow> bool option" where
  "asset_le a b = (if asset_eq a b then Some True else asset_less a b)"

definition asset_gt :: "asset \<Rightarrow> asset \<Rightarrow> bool option" where
  "asset_gt a b = map_option Not (asset_le a b)"

definition asset_ge :: "asset \<Rightarrow> asset \<Rightarrow> bool option" where
  "asset_ge a b = map_option Not (asset_less a b)"

subsection \<open>Prices\<close>

definition price_mult :: "fc_lib \<Rightarrow> price \<Rightarrow> price \<Rightarrow> int \<times> int" where
  "price_mult F a b =
     (u128_mul F (u128_of F (amount (quote b))) (u128_of F (amount (base a))),
      u128_mul F (u128_of F (amount (quote a))) (u128_of F (amount (base b))))"

definition price_eq :: "fc_lib \<Rightarrow> price \<Rightarrow> price \<Rightarrow> bool" where
  "price_eq F a b =
     (if (symbol (base a), symbol (quote a)) \<noteq> (symbol (base b), symbol (quote b)) then False
      else (let (amult, bmult) = price_mult F a b in amult = bmult))"

definition price_less :: "fc_lib \<Rightarrow> price \<Rightarrow> price \<Rightarrow> bool" where
  "price_less F a b =
     (if symbol (base a) < symbol (base b) then True
      else if symbol (base a) > symbol (base b) then False
      else if symbol (quote a) < symbol (quote b) then True
      else if symbol (quote a) > symbol (quote b) then False
      else (let (amult, bmult) = price_mult F a b in amult < bmult))"

definition price_le :: "fc_lib \<Rightarrow> price \<Rightarrow> price \<Rightarrow> bool" where
  "price_le F a b \<longleftrightarrow> price_eq F a b \<or> price_less F a b"

definition price_gt :: "fc_lib \<Rightarrow> price \<Rightarrow> price \<Rightarrow> bool" where
  "price_gt F a b \<longleftrightarrow> \<not> price_le F a b"

definition price_ge :: "fc_lib \<Rightarrow> price \<Rightarrow> price \<Rightarrow> bool" where
  "price_ge F a b \<longleftrightarrow> \<not> price_less F a b"

text \<open>One leg of \<open>operator *\<close>: \<open>(a * num) / den\<close> in 128 bits.\<close>

definition asset_mul_leg :: "fc_lib \<Rightarrow> asset \<Rightarrow> asset \<Rightarrow> asset \<Rightarrow> asset option" where
  "asset_mul_leg F a num den = do {
     FC_ASSERT (amount den > 0);
     result \<leftarrow> u128_div F (u128_mul F (u128_of F (amount a)) (u128_of F (amount num)))
                        (u128_of F (amount den));
     FC_ASSERT (u128_hi F result = 0);
     v \<leftarrow> u128_to_uint64 F result;
     Some (mk_asset (int64_of_uint64 v) (symbol num)) }"

definition asset_mul_price :: "fc_lib \<Rightarrow> asset \<Rightarrow> price \<Rightarrow> asset option" where
  "asset_mul_price F a b = do {
     na \<leftarrow> asset_symbol_name (symbol a);
     nb \<leftarrow> asset_symbol_name (symbol (base b));
     if na = nb then asset_mul_leg F a (quote b) (base b)
     else do {
       nq \<leftarrow> asset_symbol_name (symbol (quote b));
       if na = nq then asset_mul_leg F a (base b) (quote b) else None } }"

definition asset_div :: "asset \<Rightarrow> asset \<Rightarrow> price option" where
  "asset_div b q = do {
     nb \<leftarrow> asset_symbol_name (symbol b);
     nq \<leftarrow> asset_symbol_name (symbol q);
     FC_ASSERT (nb \<noteq> nq);
     Some (mk_price b q) }"

definition price_max :: "asset_symbol_type \<Rightarrow> asset_symbol_type \<Rightarrow> price option" where
  "price_max b q = asset_div (mk_asset MAX_SCORE_SUPPLY b) (mk_asset 1 q)"

definition price_min :: "asset_symbol_type \<Rightarrow> asset_symbol_type \<Rightarrow> price option" where
  "price_min b q = asset_div (mk_asset 1 b) (mk_asset MAX_SCORE_SUPPLY q)"

definition price_invert :: "price \<Rightarrow> price" where
  "price_invert p = mk_price (quote p) (base p)"

definition null_price :: price where
  "null_price = mk_price (mk_asset 0 SYMBOL_COIN) (mk_asset 0 SYMBOL_COIN)"

definition price_is_null :: "fc_lib \<Rightarrow> price \<Rightarrow> bool" where
  "price_is_null F p = price_eq F p null_price"

definition price_validate :: "price \<Rightarrow> unit option" where
  "price_validate p = do {
     FC_ASSERT (amount (base p) > 0);
     FC_ASSERT (amount (quote p) > 0);
     nb \<leftarrow> asset_symbol_name (symbol (base p));
     nq \<leftarrow> asset_symbol_name (symbol (quote p));
     FC_ASSERT (nb \<noteq> nq) }"

subsection \<open>Symbols are distinct and name themselves\<close>

lemma symbol_distinct [simp]:
  "SYMBOL_COIN \<noteq> SYMBOL_USD" "SYMBOL_USD \<noteq> SYMBOL_COIN"
  "SYMBOL_COIN \<noteq> SYMBOL_SCORE" "SYMBOL_SCORE \<noteq> SYMBOL_COIN"
  "SYMBOL_USD \<noteq> SYMBOL_SCORE" "SYMBOL_SCORE \<noteq> SYMBOL_USD"
  by (simp_all add: SYMBOL_COIN_def SYMBOL_USD_def SYMBOL_SCORE_def)

lemma symbol_name_simps [simp]:
  "asset_symbol_name SYMBOL_COIN = Some ''TME''"
  "asset_symbol_name SYMBOL_USD = Some ''TSD''"
  "asset_symbol_name SYMBOL_SCORE = Some ''SCORE''"
  by (simp_all add: asset_symbol_name_def sym_byte_def SYMBOL_COIN_def SYMBOL_USD_def
        SYMBOL_SCORE_def upt_rec char_of_def bit_iff_odd)

lemma symbol_decimals [simp]:
  "asset_decimals (mk_asset v SYMBOL_COIN) = Some 3"
  "asset_decimals (mk_asset v SYMBOL_USD) = Some 3"
  "asset_decimals (mk_asset v SYMBOL_SCORE) = Some 6"
  by (simp_all add: asset_decimals_def sym_byte_def SYMBOL_COIN_def SYMBOL_USD_def SYMBOL_SCORE_def)

subsection \<open>Exact arithmetic\<close>

context fc_safe
begin

lemma asset_add_iff [opt_simps]:
  "asset_add F a b = Some c \<longleftrightarrow>
     symbol a = symbol b \<and> c = mk_asset (amount a + amount b) (symbol a) \<and> int64 (amount c)"
  by (auto simp: asset_add_def bind_Some_iff safe_add_law)

lemma asset_sub_iff [opt_simps]:
  "asset_sub F a b = Some c \<longleftrightarrow>
     symbol a = symbol b \<and> c = mk_asset (amount a - amount b) (symbol a) \<and> int64 (amount c)"
  by (auto simp: asset_sub_def bind_Some_iff safe_sub_law)

lemma asset_neg_iff [opt_simps]:
  "asset_neg F a = Some c \<longleftrightarrow> c = mk_asset (- amount a) (symbol a) \<and> int64 (amount c)"
  by (auto simp: asset_neg_def bind_Some_iff safe_neg_law)

end

lemma asset_less_Some: "asset_less a b = Some r \<longleftrightarrow> symbol a = symbol b \<and> (r \<longleftrightarrow> amount a < amount b)"
  by (auto simp: asset_less_def bind_Some_iff)

lemma asset_ge_Some [opt_simps]:
  "asset_ge a b = Some r \<longleftrightarrow> symbol a = symbol b \<and> (r \<longleftrightarrow> amount b \<le> amount a)"
  by (auto simp: asset_ge_def asset_less_Some map_option_Some_iff)

lemma asset_le_Some [opt_simps]:
  "asset_le a b = Some r \<longleftrightarrow> symbol a = symbol b \<and> (r \<longleftrightarrow> amount a \<le> amount b)"
  by (auto simp: asset_le_def asset_eq_def asset_less_Some)

lemma asset_gt_Some [opt_simps]:
  "asset_gt a b = Some r \<longleftrightarrow> symbol a = symbol b \<and> (r \<longleftrightarrow> amount b < amount a)"
  by (auto simp: asset_gt_def asset_le_Some map_option_Some_iff)

subsection \<open>Multiplication by a price\<close>

text \<open>The amounts for which the 128-bit products cannot overflow: what \<open>int64_t\<close> holds.\<close>

abbreviation nat63 :: "int \<Rightarrow> bool" where
  "nat63 v \<equiv> 0 \<le> v \<and> v < 2 ^ 63"

lemma prod63_in_u128:
  assumes "nat63 a" "nat63 b"
  shows "in_u128 (a * b)"
proof -
  have "a * b \<le> 2 ^ 63 * 2 ^ 63"
    using assms by (intro mult_mono) auto
  with assms show ?thesis by (simp add: in_u128_def)
qed

lemma nat63_in_u128: "nat63 a \<Longrightarrow> in_u128 a"
  by (simp add: in_u128_def)

lemma in_u128_div: "in_u128 a \<Longrightarrow> 0 < b \<Longrightarrow> in_u128 (a div b)"
proof -
  assume a: "in_u128 a" "0 < b"
  then have "a div b \<le> a div 1" by (intro zdiv_mono2) (auto simp: in_u128_def)
  with a show ?thesis by (simp add: in_u128_def pos_imp_zdiv_nonneg_iff)
qed

context fc_u128
begin

lemma asset_mul_leg_eq:
  assumes "nat63 (amount a)" "nat63 (amount num)" "nat63 (amount den)"
  shows "asset_mul_leg F a num den =
     (let q = amount a * amount num div amount den in
      if 0 < amount den \<and> q < 2 ^ 64 then Some (mk_asset (int64_of_uint64 q) (symbol num)) else None)"
proof (cases "0 < amount den")
  case True
  let ?q = "amount a * amount num div amount den"
  have uq: "in_u128 ?q"
    using prod63_in_u128[OF assms(1,2)] True by (rule in_u128_div)
  have uof: "u128_of F (amount a) = amount a" "u128_of F (amount num) = amount num"
       "u128_of F (amount den) = amount den"
    using assms by (auto intro: u128_of_law)
  have um: "u128_mul F (amount a) (amount num) = amount a * amount num"
    using assms by (intro u128_mul_law prod63_in_u128 nat63_in_u128) auto
  have ud: "u128_div F (amount a * amount num) (amount den) = Some ?q"
    using True assms by (subst u128_div_law) (auto intro: prod63_in_u128 nat63_in_u128)
  have hi: "u128_hi F ?q = 0 \<longleftrightarrow> ?q < 2 ^ 64"
    using uq by (auto simp: u128_hi_law in_u128_def div_eq_0_iff zdiv_eq_0_iff)
  show ?thesis
    using True hi by (simp add: asset_mul_leg_def uof um ud u128_to_uint64_law[OF uq] Let_def)
next
  case False
  then show ?thesis by (simp add: asset_mul_leg_def Let_def)
qed

end

definition price_ok :: "price \<Rightarrow> bool" where
  "price_ok p \<longleftrightarrow> 0 < amount (base p) \<and> amount (base p) < 2 ^ 63
     \<and> 0 < amount (quote p) \<and> amount (quote p) < 2 ^ 63"

lemma asset_mul_leg_bound:
  assumes "fc_u128 F" "nat63 (amount a)" "nat63 (amount num)" "nat63 (amount den)"
    and "asset_mul_leg F a num den = Some r" and "0 \<le> amount r"
  shows "amount r * amount den \<le> amount a * amount num \<and>
    amount a * amount num < (amount r + 1) * amount den \<and> symbol r = symbol num"
proof -
  let ?q = "amount a * amount num div amount den"
  have r: "0 < amount den" "?q < 2 ^ 64" "r = mk_asset (int64_of_uint64 ?q) (symbol num)"
    using assms(5) fc_u128.asset_mul_leg_eq[OF assms(1-4)] by (auto simp: Let_def split: if_splits)
  have rq: "amount r = ?q"
    using r(2,3) assms(6) by (auto simp: int64_of_uint64_def split: if_splits)
  from div_floor[OF r(1), of "amount a * amount num"] show ?thesis using rq r(3) by simp
qed

text \<open>
  C8.  Converting an asset at a price is the exact floor of the rational product: the result
  has the symbol of the other side of the price, \<open>r * den <= a * num < (r + 1) * den\<close> for the
  numerator and denominator that the asset's own symbol selects, so that no conversion creates
  value and less than one unit is lost.  (Amounts as \<open>int64_t\<close> holds them, result non-negative.)
\<close>

theorem asset_mul_price_floor:
  assumes "fc_u128 F" and "nat63 (amount a)" and "price_ok p"
    and "asset_mul_price F a p = Some r" and "0 \<le> amount r"
  shows "(asset_symbol_name (symbol a) = asset_symbol_name (symbol (base p)) \<and>
          symbol r = symbol (quote p) \<and>
          amount r * amount (base p) \<le> amount a * amount (quote p) \<and>
          amount a * amount (quote p) < (amount r + 1) * amount (base p))
       \<or> (asset_symbol_name (symbol a) = asset_symbol_name (symbol (quote p)) \<and>
          symbol r = symbol (base p) \<and>
          amount r * amount (quote p) \<le> amount a * amount (base p) \<and>
          amount a * amount (base p) < (amount r + 1) * amount (quote p))"
proof -
  have ok: "nat63 (amount (base p))" "nat63 (amount (quote p))"
    using assms(3) by (auto simp: price_ok_def)
  from assms(4) consider
    (b) "asset_symbol_name (symbol a) = asset_symbol_name (symbol (base p))"
        "asset_mul_leg F a (quote p) (base p) = Some r"
  | (q) "asset_symbol_name (symbol a) = asset_symbol_name (symbol (quote p))"
        "asset_mul_leg F a (base p) (quote p) = Some r"
    by (auto simp: asset_mul_price_def bind_Some_iff split: if_splits)
  then show ?thesis
    using asset_mul_leg_bound[OF assms(1,2) ok(2,1) _ assms(5)]
      asset_mul_leg_bound[OF assms(1,2) ok(1,2) _ assms(5)]
    by cases auto
qed

theorem asset_mul_price_floor_witness:
  "(10::int) * 3 \<le> 11 * 3 \<and>
   asset_mul_price fc_exact (mk_asset 11 SYMBOL_USD)
     (mk_price (mk_asset 3 SYMBOL_USD) (mk_asset 3 SYMBOL_COIN)) = Some (mk_asset 11 SYMBOL_COIN)
   \<and> symbol (mk_asset 11 SYMBOL_COIN) = SYMBOL_COIN"
proof -
  let ?p = "mk_price (mk_asset 3 SYMBOL_USD) (mk_asset 3 SYMBOL_COIN)"
  have m: "asset_mul_price fc_exact (mk_asset 11 SYMBOL_USD) ?p = Some (mk_asset 11 SYMBOL_COIN)"
    by (simp add: asset_mul_price_def asset_mul_leg_def)
  show ?thesis
    using m asset_mul_price_floor[OF fc_exact.fc_u128_axioms, of "mk_asset 11 SYMBOL_USD" ?p
        "mk_asset 11 SYMBOL_COIN"]
    by (simp add: price_ok_def)
qed

lemma asset_mul_leg_sign_flip:
  assumes "fc_u128 F" "nat63 (amount a)" "nat63 (amount num)" "nat63 (amount den)" "0 < amount den"
    and "2 ^ 63 \<le> amount a * amount num div amount den" "amount a * amount num div amount den < 2 ^ 64"
  shows "asset_mul_leg F a num den
    = Some (mk_asset (amount a * amount num div amount den - 2 ^ 64) (symbol num))"
  using fc_u128.asset_mul_leg_eq[OF assms(1-4)] assms(5-7) by (simp add: int64_of_uint64_def Let_def)

text \<open>
  C14.  The range check of the conversion looks at the high 64 bits only.  For every non-negative
  amount and every price with positive amounts, of which \<open>num\<close> and \<open>den\<close> are the numerator and the
  denominator that the asset's symbol selects (the base is compared first): when the exact quotient
  lies between \<open>2 ^ 63\<close> and \<open>2 ^ 64\<close>, the conversion does not throw and returns the quotient less
  \<open>2 ^ 64\<close>, a negative amount.
\<close>

theorem asset_mul_price_sign_flip:
  assumes "fc_u128 F" and "nat63 (amount a)" and "price_ok p"
    and "asset_symbol_name (symbol a) = Some na" and "asset_symbol_name (symbol (base p)) = Some nb"
    and "asset_symbol_name (symbol (quote p)) = Some nq" and "na \<in> {nb, nq}"
    and "(num, den) = (if na = nb then (quote p, base p) else (base p, quote p))"
    and "2 ^ 63 \<le> amount a * amount num div amount den" and "amount a * amount num div amount den < 2 ^ 64"
  shows "\<exists>r. asset_mul_price F a p = Some r \<and> symbol r = symbol num \<and> amount r < 0
    \<and> amount r = amount a * amount num div amount den - 2 ^ 64"
proof -
  have ok: "nat63 (amount num)" "nat63 (amount den)" "0 < amount den"
    using assms(3,8) by (auto simp: price_ok_def split: if_splits)
  have "asset_mul_price F a p = asset_mul_leg F a num den"
    using assms(4-8) by (auto simp: asset_mul_price_def split: if_splits)
  with asset_mul_leg_sign_flip[OF assms(1,2) ok assms(9,10)] assms(10) show ?thesis by simp
qed

theorem asset_mul_price_sign_flip_witness:
  "asset_mul_price fc_exact (mk_asset (2 ^ 62) SYMBOL_USD)
     (mk_price (mk_asset 1 SYMBOL_USD) (mk_asset 2 SYMBOL_COIN))
   = Some (mk_asset (- (2 ^ 63)) SYMBOL_COIN)"
proof -
  let ?p = "mk_price (mk_asset 1 SYMBOL_USD) (mk_asset 2 SYMBOL_COIN)"
  have n: "asset_symbol_name SYMBOL_USD = Some ''TSD''" "asset_symbol_name SYMBOL_COIN = Some ''TME''"
    by simp_all
  obtain r where "asset_mul_price fc_exact (mk_asset (2 ^ 62) SYMBOL_USD) ?p = Some r"
    "symbol r = SYMBOL_COIN" "amount r = - (2 ^ 63)"
    using asset_mul_price_sign_flip[OF fc_exact.fc_u128_axioms, of "mk_asset (2 ^ 62) SYMBOL_USD" ?p
        "''TSD''" "''TSD''" "''TME''" "mk_asset 2 SYMBOL_COIN" "mk_asset 1 SYMBOL_USD"]
    by (auto simp: n price_ok_def)
  then show ?thesis by (cases r) simp
qed

subsection \<open>The price order\<close>

context fc_u128
begin

lemma price_mult_eq:
  assumes "price_ok a" "price_ok b"
  shows "price_mult F a b =
    (amount (quote b) * amount (base a), amount (quote a) * amount (base b))"
proof -
  have "u128_of F v = v" if "v \<in> {amount (base a), amount (quote a), amount (base b), amount (quote b)}" for v
    using that assms by (intro u128_of_law) (auto simp: price_ok_def)
  then show ?thesis
    using assms by (simp add: price_mult_def u128_mul_law prod63_in_u128 nat63_in_u128 price_ok_def)
qed

end

lemma cross_trans:
  fixes ab aq bb bq cb cq :: int
  assumes "0 < aq" "0 < bq" "0 < cq" and "bq * ab < aq * bb" and "cq * bb < bq * cb"
  shows "cq * ab < aq * cb"
proof -
  have "cq * (bq * ab) < cq * (aq * bb)" "aq * (cq * bb) < aq * (bq * cb)"
    using assms by (simp_all add: mult_strict_left_mono)
  then have "bq * (cq * ab) < bq * (aq * cb)" by (simp add: mult.assoc mult.left_commute)
  with assms(2) show ?thesis by simp
qed

text \<open>
  C9.  On prices with positive amounts the comparison operators are a strict total order up to
  \<open>==\<close> (what the ordered \<open>by_price\<close> index of the market relies on): exactly one of \<open>a < b\<close>,
  \<open>a == b\<close>, \<open>b < a\<close> holds, \<open><\<close> is transitive, and within one market it is the order of the
  exact ratios.
\<close>

theorem price_order_total:
  assumes "fc_u128 F" and "price_ok a" and "price_ok b" and "price_ok c"
  shows "((price_less F a b \<and> \<not> price_eq F a b \<and> \<not> price_less F b a)
          \<or> (\<not> price_less F a b \<and> price_eq F a b \<and> \<not> price_less F b a)
          \<or> (\<not> price_less F a b \<and> \<not> price_eq F a b \<and> price_less F b a))
       \<and> (price_less F a b \<and> price_less F b c \<longrightarrow> price_less F a c)
       \<and> (symbol (base a) = symbol (base b) \<and> symbol (quote a) = symbol (quote b) \<longrightarrow>
           (price_less F a b \<longleftrightarrow>
            amount (base a) * amount (quote b) < amount (base b) * amount (quote a)))"
proof -
  note m = fc_u128.price_mult_eq[OF assms(1)]
  have pos: "0 < amount (quote a)" "0 < amount (quote b)" "0 < amount (quote c)"
    using assms(2-4) by (auto simp: price_ok_def)
  have 1: "(price_less F a b \<and> \<not> price_eq F a b \<and> \<not> price_less F b a)
          \<or> (\<not> price_less F a b \<and> price_eq F a b \<and> \<not> price_less F b a)
          \<or> (\<not> price_less F a b \<and> \<not> price_eq F a b \<and> price_less F b a)"
    by (auto simp: price_less_def price_eq_def m[OF assms(2,3)] m[OF assms(3,2)])
  have 2: "price_less F a c" if "price_less F a b" "price_less F b c"
    using that cross_trans[OF pos, of "amount (base a)" "amount (base b)" "amount (base c)"]
    by (auto simp: price_less_def m[OF assms(2,3)] m[OF assms(3,4)] m[OF assms(2,4)]
             split: if_splits)
  have 3: "price_less F a b \<longleftrightarrow>
            amount (base a) * amount (quote b) < amount (base b) * amount (quote a)"
    if "symbol (base a) = symbol (base b)" "symbol (quote a) = symbol (quote b)"
    using that by (simp add: price_less_def m[OF assms(2,3)] mult.commute)
  from 1 2 3 show ?thesis by blast
qed

theorem price_order_total_witness:
  "let p = (\<lambda>b. mk_price (mk_asset b SYMBOL_USD) (mk_asset 5 SYMBOL_COIN)) in
   price_less fc_exact (p 1) (p 2) \<and> price_less fc_exact (p 2) (p 3) \<and> price_less fc_exact (p 1) (p 3)"
proof -
  let ?p = "\<lambda>b. mk_price (mk_asset b SYMBOL_USD) (mk_asset 5 SYMBOL_COIN)"
  have "price_less fc_exact (?p 1) (?p 2)" "price_less fc_exact (?p 2) (?p 3)"
    by (simp_all add: price_less_def price_mult_def)
  then show ?thesis
    using price_order_total[OF fc_exact.fc_u128_axioms, of "?p 1" "?p 2" "?p 3"]
    by (simp add: price_ok_def Let_def)
qed

subsection \<open>Printing, then parsing\<close>

lemma read_digits_append:
  "read_digits acc (xs @ ys) = Option.bind (read_digits acc xs) (\<lambda>a. read_digits a ys)"
  by (induction xs arbitrary: acc) (auto simp: Let_def)

lemma digit_char: "d < 10 \<Longrightarrow> of_char (char_of (48 + d :: nat)) = 48 + d"
  by (simp add: of_char_of take_bit_eq_mod)

lemma read_decimal: "read_digits acc (decimal n) = Some (acc * 10 ^ length (decimal n) + n)"
proof (induction n arbitrary: acc rule: decimal.induct)
  case (1 n)
  show ?case
  proof (cases "n < 10")
    case True
    then show ?thesis by (simp add: decimal.simps[of n] digit_char)
  next
    case False
    with 1 show ?thesis
      by (simp add: decimal.simps[of n] read_digits_append digit_char algebra_simps)
  qed
qed

lemma decimal_char_range: "c \<in> set (decimal n) \<Longrightarrow> 48 \<le> (of_char c :: nat) \<and> (of_char c :: nat) \<le> 57"
proof (induction n rule: decimal.induct)
  case (1 n)
  have "n mod 10 < 10" by simp
  with 1 show ?case
    by (cases "n < 10") (auto simp: decimal.simps[of n] digit_char)
qed

lemma decimal_nonempty [simp]: "decimal n \<noteq> []"
  by (subst decimal.simps) simp

lemma decimal_length: "10 ^ k \<le> n \<Longrightarrow> n < 10 ^ Suc k \<Longrightarrow> length (decimal n) = Suc k"
proof (induction k arbitrary: n)
  case 0
  then show ?case by (simp add: decimal.simps[of n])
next
  case (Suc k)
  have "1 \<le> (10::nat) ^ k" by simp
  with Suc.prems have "\<not> n < 10" unfolding power_Suc by linarith
  moreover from Suc.prems have "10 ^ k \<le> n div 10" "n div 10 < 10 ^ Suc k"
    by (auto simp: less_mult_imp_div_less mult.commute)
  ultimately show ?case using Suc.IH[of "n div 10"] by (simp add: decimal.simps[of n])
qed

lemma decimal_leading_one: "10 ^ k \<le> n \<Longrightarrow> n < 2 * 10 ^ k \<Longrightarrow> \<exists>r. decimal n = CHR ''1'' # r"
proof (induction k arbitrary: n)
  case 0
  then have "n = 1" by simp
  then show ?case by (simp add: decimal.simps char_of_def bit_iff_odd)
next
  case (Suc k)
  have "1 \<le> (10::nat) ^ k" by simp
  with Suc.prems have "\<not> n < 10" unfolding power_Suc by linarith
  moreover from Suc.prems have "10 ^ k \<le> n div 10" "n div 10 < 2 * 10 ^ k" by auto
  ultimately show ?case using Suc.IH[of "n div 10"] by (auto simp: decimal.simps[of n])
qed

lemma read_int_decimal: "read_int (decimal n) = Some (int n)"
proof (cases "decimal n")
  case (Cons c cs)
  have "c \<noteq> CHR ''-''" using decimal_char_range[of c n] Cons by auto
  then show ?thesis using Cons read_decimal[of 0 n] by (simp add: read_int_def)
qed simp

lemma sym_bytes_bound: "\<forall>b \<in> set bs. b < 256 \<Longrightarrow> bytes_nat bs < 256 ^ length bs"
proof (induction bs)
  case (Cons b bs)
  then have "b < 256" "bytes_nat bs < 256 ^ length bs" by auto
  then have "b + 256 * bytes_nat bs < 256 + 256 * (256 ^ length bs - 1)" by auto
  also have "\<dots> = 256 * 256 ^ length bs" by (simp add: algebra_simps)
  finally show ?case by simp
qed simp

lemma bytes_nat_nth:
  "\<forall>b \<in> set bs. b < 256 \<Longrightarrow>
   bytes_nat bs div 256 ^ i mod 256 = (if i < length bs then bs ! i else 0)"
proof (induction bs arbitrary: i)
  case (Cons b bs)
  show ?case
  proof (cases i)
    case 0
    with Cons.prems show ?thesis by simp
  next
    case (Suc j)
    have "(b + 256 * bytes_nat bs) div 256 ^ Suc j = bytes_nat bs div 256 ^ j"
      using Cons.prems by (simp add: div_mult2_eq)
    with Cons Suc show ?thesis by simp
  qed
qed simp

lemma sym_byte_of_bytes:
  assumes "\<forall>b \<in> set bs. b < 256" "length bs \<le> 7"
  shows "sym_byte (sym_of_bytes bs) i = (if i < length bs then bs ! i else 0)"
proof -
  have "bytes_nat bs < 256 ^ length bs" using assms(1) by (rule sym_bytes_bound)
  also have "\<dots> \<le> 256 ^ 7" using assms(2) by (intro power_increasing) auto
  finally have "unat (word_of_nat (bytes_nat bs) :: 64 word) = bytes_nat bs"
    by (simp add: unat_of_nat)
  then show ?thesis using bytes_nat_nth[OF assms(1)] by (simp add: sym_byte_def sym_of_bytes_def)
qed

definition name_ok :: "string \<Rightarrow> bool" where
  "name_ok nm \<longleftrightarrow> nm \<noteq> [] \<and> length nm \<le> 6 \<and>
     list_all (\<lambda>c. 33 \<le> (of_char c :: nat) \<and> (of_char c :: nat) < 127 \<and> c \<noteq> CHR ''.'') nm"

lemma symbol_name_of_bytes:
  assumes "d < 15" "name_ok nm"
  shows "asset_symbol_name (sym_of_bytes (d # map of_char nm)) = Some nm"
    and "sym_byte (sym_of_bytes (d # map of_char nm)) 0 = d"
proof -
  let ?bs = "d # map of_char nm :: nat list"
  have b: "\<forall>b \<in> set ?bs. b < 256" "length ?bs \<le> 7"
    using assms by (auto simp: name_ok_def)
  note byte = sym_byte_of_bytes[OF b]
  show "sym_byte (sym_of_bytes ?bs) 0 = d" using byte[of 0] by simp
  let ?f = "sym_byte (sym_of_bytes ?bs)"
  have "map ?f [1..<8] = map of_char nm @ replicate (7 - length nm) 0"
    using b(2) by (intro nth_equalityI) (auto simp: byte nth_append)
  moreover have "\<forall>c \<in> set nm. of_char c \<noteq> (0::nat)"
  proof
    fix c assume "c \<in> set nm"
    then have "33 \<le> (of_char c :: nat)"
      using assms(2) unfolding name_ok_def list_all_iff by blast
    then show "of_char c \<noteq> (0::nat)" by linarith
  qed
  ultimately have "takeWhile (\<lambda>b. b \<noteq> 0) (map ?f [1..<8]) = map of_char nm"
    by (simp only:) (subst takeWhile_append2, auto simp: takeWhile_replicate)
  moreover have "?f 7 = 0" using b(2) by (auto simp: byte)
  ultimately show "asset_symbol_name (sym_of_bytes ?bs) = Some nm"
    by (simp add: asset_symbol_name_def)
qed

lemma precision_power:
  assumes "asset_decimals a = Some d"
  shows "asset_precision a = Some (10 ^ d)"
proof -
  have "d < 15" using assms by (auto simp: asset_decimals_def bind_Some_iff Let_def)
  then have "d = 0 \<or> d = 1 \<or> d = 2 \<or> d = 3 \<or> d = 4 \<or> d = 5 \<or> d = 6 \<or> d = 7 \<or> d = 8
      \<or> d = 9 \<or> d = 10 \<or> d = 11 \<or> d = 12 \<or> d = 13 \<or> d = 14" by arith
  with assms show ?thesis by (elim disjE) (simp_all add: asset_precision_def)
qed

lemma str_find_append:
  "c \<notin> set xs \<Longrightarrow> str_find c (xs @ c # ys) = Some (length xs)"
  unfolding str_find_def by (subst takeWhile_append2) auto

lemma wrap64_id: "int64 v \<Longrightarrow> wrap64 v = v"
  by (simp add: wrap64_def int64_def)

lemma decimal_no_sep:
  assumes "c = CHR '' '' \<or> c = CHR ''.''"
  shows "c \<notin> set (decimal n)"
  using decimal_char_range[of c n] assms by auto

lemma name_ok_char:
  assumes "name_ok nm" "c \<in> set nm"
  shows "33 \<le> (of_char c :: nat) \<and> (of_char c :: nat) < 127 \<and> c \<noteq> CHR ''.'' \<and> c \<noteq> CHR '' ''"
proof -
  have "33 \<le> (of_char c :: nat) \<and> (of_char c :: nat) < 127 \<and> c \<noteq> CHR ''.''"
    using assms unfolding name_ok_def list_all_iff by blast
  then show ?thesis by auto
qed

text \<open>What the printer emits on a non-negative amount: integer part, dot, fraction, name.\<close>

definition printed :: "nat \<Rightarrow> nat \<Rightarrow> string \<Rightarrow> string" where
  "printed d v nm =
     decimal (v div 10 ^ d) @
     (if d = 0 then [] else CHR ''.'' # tl (decimal (10 ^ d + v mod 10 ^ d))) @ CHR '' '' # nm"

lemma printed_trim:
  assumes "fc_string F" "name_ok nm"
  shows "fc_trim F (printed d v nm) = printed d v nm"
proof (rule fc_string.fc_trim_law[OF assms(1)])
  let ?good = "\<lambda>c. 33 \<le> (of_char c :: nat) \<and> (of_char c :: nat) < 127"
  have dig: "?good c" if "c \<in> set (decimal n)" for c n
    using decimal_char_range[OF that] by linarith
  have tld: "?good c" if "c \<in> set (tl (decimal n))" for c n
    using that dig by (metis list.set_sel(2) tl_Nil list.set_cases empty_iff list.set(1))
  have nmg: "?good c" if "c \<in> set nm" for c
    using name_ok_char[OF assms(2) that] by blast
  show "list_all ?good (filter (\<lambda>c. c \<noteq> CHR '' '') (printed d v nm))"
    using dig tld nmg by (auto simp: list_all_iff printed_def)
  show "printed d v nm \<noteq> []" by (simp add: printed_def)
  have "hd (printed d v nm) = hd (decimal (v div 10 ^ d))" by (simp add: printed_def)
  then show "hd (printed d v nm) \<noteq> CHR '' ''"
    using decimal_no_sep[of "CHR '' ''"] hd_in_set[OF decimal_nonempty] by metis
  have "nm \<noteq> []" using assms(2) by (simp add: name_ok_def)
  then have "last (printed d v nm) \<in> set nm" by (simp add: printed_def)
  then show "last (printed d v nm) \<noteq> CHR '' ''"
    using name_ok_char[OF assms(2)] by blast
qed

lemma mod_pow10_int: "int (v mod 10 ^ d) < 10 ^ d"
proof -
  have "v mod 10 ^ d < 10 ^ d" by simp
  then have "int (v mod 10 ^ d) < int (10 ^ d)" by (simp only: of_nat_less_iff)
  then show ?thesis by (simp only: of_nat_power of_nat_numeral)
qed

lemma fract_bound:
  assumes "d < 15"
  shows "10 ^ d + int (v mod 10 ^ d) < 2 ^ 63" and "(10::int) ^ d \<le> 100000000000000"
proof -
  have "(10::int) ^ d \<le> 10 ^ 14" using assms by (intro power_increasing) auto
  then show p: "(10::int) ^ d \<le> 100000000000000" by simp
  have "10 ^ d + int (v mod 10 ^ d) < 200000000000001"
    using p mod_pow10_int[of v d] by linarith
  also have "\<dots> < 2 ^ 63" by simp
  finally show "10 ^ d + int (v mod 10 ^ d) < 2 ^ 63" .
qed

lemma asset_to_string_printed:
  assumes "fc_string F" "d < 15" "name_ok nm" "v < 2 ^ 62"
  shows "asset_to_string F (mk_asset (int v) (sym_of_bytes (d # map of_char nm))) =
     Some (printed d v nm)"
proof -
  let ?s = "sym_of_bytes (d # map of_char nm)"
  have dec: "asset_decimals (mk_asset (int v) ?s) = Some d"
    using assms(2) symbol_name_of_bytes(2)[OF assms(2,3)] by (simp add: asset_decimals_def Let_def)
  have quot: "int v sdiv 10 ^ d = int (v div 10 ^ d)"
    by (cases "v = 0") (simp_all add: signed_divide_int_def zdiv_int)
  have rem: "int v smod 10 ^ d = int (v mod 10 ^ d)"
    by (cases "v = 0") (simp_all add: signed_modulo_int_def zmod_int)
  have str: "fc_to_string F (int n) = decimal n" if "int n < 2 ^ 63" for n
    using fc_string.fc_to_string_law[OF assms(1), of "int n"] that
    by (simp add: int64_def decimal_int_def)
  have "v div 10 ^ d < 2 ^ 62" using div_le_dividend assms(4) by (rule le_less_trans)
  then have q: "fc_to_string F (int (v div 10 ^ d)) = decimal (v div 10 ^ d)"
    by (intro str) simp
  have "int (10 ^ d + v mod 10 ^ d) < 2 ^ 63"
    using fract_bound(1)[OF assms(2)] by (simp only: of_nat_add of_nat_power of_nat_numeral)
  from str[OF this] have f: "fc_to_string F (10 ^ d + int (v mod 10 ^ d)) = decimal (10 ^ d + v mod 10 ^ d)"
    by simp
  show ?thesis
    by (simp add: asset_to_string_def precision_power[OF dec] symbol_name_of_bytes(1)[OF assms(2,3)]
          quot rem q f printed_def drop_Suc)
qed

lemma printed_split:
  assumes "d < 15"
  obtains f where "length f = d" "\<forall>c \<in> set f. c \<noteq> CHR '' '' \<and> c \<noteq> CHR ''.''"
    "read_int (CHR ''1'' # f) = Some (10 ^ d + int (v mod 10 ^ d))"
    "printed d v nm = decimal (v div 10 ^ d) @ (if d = 0 then [] else CHR ''.'' # f) @ CHR '' '' # nm"
proof -
  let ?n = "10 ^ d + v mod 10 ^ d"
  have n: "10 ^ d \<le> ?n" "?n < 2 * 10 ^ d" by simp_all
  then obtain f where f: "decimal ?n = CHR ''1'' # f" using decimal_leading_one by blast
  have "?n < 10 ^ Suc d" using n(2) unfolding power_Suc by linarith
  with n(1) have "length (decimal ?n) = Suc d" by (rule decimal_length)
  with f have len: "length f = d" by simp
  have sep: "\<forall>c \<in> set f. c \<noteq> CHR '' '' \<and> c \<noteq> CHR ''.''"
    using decimal_no_sep[of _ ?n] f by auto
  have "read_int (CHR ''1'' # f) = Some (10 ^ d + int (v mod 10 ^ d))"
    using read_int_decimal[of ?n] f by simp
  with len sep f show thesis by (intro that) (simp_all add: printed_def)
qed

lemma asset_from_string_printed:
  assumes "fc_string F" "d < 15" "name_ok nm" "v < 2 ^ 62"
  shows "asset_from_string F (printed d v nm) =
     Some (mk_asset (int v) (sym_of_bytes (d # map of_char nm)))"
proof -
  obtain f where f: "length f = d" "\<forall>c \<in> set f. c \<noteq> CHR '' '' \<and> c \<noteq> CHR ''.''"
    "read_int (CHR ''1'' # f) = Some (10 ^ d + int (v mod 10 ^ d))"
    "printed d v nm = decimal (v div 10 ^ d) @ (if d = 0 then [] else CHR ''.'' # f) @ CHR '' '' # nm"
    using printed_split[OF assms(2)] by blast
  let ?q = "v div 10 ^ d" and ?p = "(10::int) ^ d"
  let ?D = "decimal ?q"
  have nosep: "CHR '' '' \<notin> set ?D" "CHR ''.'' \<notin> set ?D" by (simp_all add: decimal_no_sep)
  have nmsep: "CHR ''.'' \<notin> set nm" using name_ok_char[OF assms(3)] by blast
  have lnm: "length nm \<le> 6" using assms(3) by (simp add: name_ok_def)
  note p14 = fract_bound(2)[OF assms(2)]
  have "int v = int (?q * 10 ^ d + v mod 10 ^ d)" by (simp only: div_mult_mod_eq)
  then have qv: "int ?q * ?p + int (v mod 10 ^ d) = int v"
    by (simp only: of_nat_add of_nat_mult of_nat_power of_nat_numeral)
  have rq: "fc_to_int64 F ?D = Some (int ?q)"
  proof (rule fc_string.fc_to_int64_law[OF assms(1) read_int_decimal])
    have "?q < 2 ^ 62" using div_le_dividend assms(4) by (rule le_less_trans)
    then show "int64 (int ?q)" by (simp add: int64_def)
  qed
  have byte0: "sym_byte (word_of_nat d) 0 = d"
    using assms(2) by (simp add: sym_byte_def unat_of_nat)
  note dp = symbol_name_of_bytes(2)[OF assms(2,3)]
  show ?thesis
  proof (cases "d = 0")
    case True
    then have s: "printed d v nm = ?D @ CHR '' '' # nm" using f(4) by simp
    have sp: "str_find (CHR '' '') (printed d v nm) = Some (length ?D)"
      unfolding s using nosep(1) by (rule str_find_append)
    have dot: "str_find (CHR ''.'') (printed d v nm) = None"
      unfolding s using nosep nmsep by (simp add: str_find_def)
    show ?thesis
      using sp dot s True rq lnm printed_trim[OF assms(1,3), of d v]
      by (simp add: asset_from_string_def substr_def asset_set_decimals_def sym_byte_def Let_def)
  next
    case False
    then have s: "printed d v nm = ?D @ CHR ''.'' # f @ CHR '' '' # nm" using f(4) by simp
    have s2: "printed d v nm = (?D @ CHR ''.'' # f) @ CHR '' '' # nm" using s by simp
    have sp: "str_find (CHR '' '') (printed d v nm) = Some (length (?D @ CHR ''.'' # f))"
      unfolding s2 by (rule str_find_append) (use nosep f(2) in auto)
    have dot: "str_find (CHR ''.'') (printed d v nm) = Some (length ?D)"
      unfolding s using nosep(2) by (rule str_find_append)
    have frange: "int64 (?p + int (v mod 10 ^ d))"
      by (intro int64_nonneg fract_bound(1)[OF assms(2)]) simp
    have rf: "fc_to_int64 F (CHR ''1'' # f) = Some (?p + int (v mod 10 ^ d))"
      using f(3) frange by (rule fc_string.fc_to_int64_law[OF assms(1)])
    have dec: "asset_decimals (mk_asset 0 (word_of_nat d)) = Some d"
      using byte0 assms(2) by (simp add: asset_decimals_def Let_def)
    have v62: "int v < 2 ^ 62" using assms(4) by simp
    have nn: "0 \<le> int ?q * ?p" "0 \<le> ?p" by simp_all
    have e: "int ?q * ?p + (?p + int (v mod 10 ^ d)) = int v + ?p" using qv by linarith
    have "int ?q * ?p \<le> int v" using qv by linarith
    also have "int v < 2 ^ 63" using v62 by simp
    finally have w1: "wrap64 (int ?q * ?p) = int ?q * ?p"
      by (intro wrap64_id int64_nonneg nn(1))
    have "int v + ?p < 2 ^ 63" using v62 p14 by simp
    then have "wrap64 (int v + ?p) = int v + ?p"
      by (intro wrap64_id int64_nonneg) simp_all
    then have w2: "wrap64 (int ?q * ?p + (?p + int (v mod 10 ^ d))) = int v + ?p" by (simp only: e)
    have w3: "wrap64 (int v) = int v" using v62 by (intro wrap64_id) (simp add: int64_def)
    show ?thesis
      using f(1) assms(2) rq rf lnm w1 w2 w3 byte0 sp dot printed_trim[OF assms(1,3), of d v]
      by (simp add: asset_from_string_def s substr_def
            asset_set_decimals_def sym_byte_def[of 0] precision_power[OF dec] Let_def)
  qed
qed

text \<open>
  C10.  Printing an asset and parsing the text gives the asset back, for every non-negative
  amount below \<open>2 ^ 62\<close>, every number of decimals the format allows (0 to 14) and every name of
  1 to 6 printable characters without dot or blank.
\<close>

theorem asset_string_roundtrip:
  assumes "fc_string F" and "d < 15" and "name_ok nm" and "0 \<le> v" and "v < 2 ^ 62"
  shows "\<exists>s. asset_to_string F (mk_asset v (sym_of_bytes (d # map of_char nm))) = Some s \<and>
             asset_from_string F s = Some (mk_asset v (sym_of_bytes (d # map of_char nm)))"
proof -
  obtain n where n: "v = int n" "n < 2 ^ 62" using assms(4,5) by (metis nat_eq_iff2 nat_less_numeral_power_cancel_iff)
  show ?thesis
    using asset_to_string_printed[OF assms(1-3) n(2)] asset_from_string_printed[OF assms(1-3) n(2)] n(1)
    by blast
qed

theorem asset_string_roundtrip_witness:
  "name_ok ''TME'' \<and>
   (\<exists>s. asset_to_string fc_exact (mk_asset 7005 (sym_of_bytes (3 # map of_char ''TME''))) = Some s \<and>
        asset_from_string fc_exact s = Some (mk_asset 7005 (sym_of_bytes (3 # map of_char ''TME''))))"
proof -
  have "name_ok ''TME''" by (simp add: name_ok_def)
  then show ?thesis
    using asset_string_roundtrip[OF fc_exact.fc_string_axioms, of 3 "''TME''" 7005] by simp
qed

text \<open>
  The printer is wrong on negative amounts: the fraction of \<open>-5\<close> thousandths is computed
  as \<open>1000 + (-5) = 995\<close>, whose first digit is then dropped, so \<open>asset(-5)\<close> prints as
  \<open>0.95 TME\<close>.
\<close>

theorem asset_to_string_negative:
  "asset_to_string fc_exact (mk_asset (- 5) SYMBOL_COIN) = Some ''0.95 TME''"
  by (simp add: asset_to_string_def precision_power[of _ 3] decimal_int_def decimal.simps
        char_of_def bit_iff_odd signed_divide_int_def signed_modulo_int_def)

end
