(* ===== verification/Chainbase.thy ===== *)
theory Chainbase
  imports Prelude
begin

text \<open>
  The object database with undo history (\<open>libraries/chainbase\<close>): \<open>generic_index\<close> with its stack
  of \<open>undo_state\<close> deltas, the session objects, and the \<open>database\<close> that drives all indices at
  once.

  A row is the payload of an object; its \<open>id\<close> is the key.  \<open>clash\<close> is the template parameter
  \<open>MultiIndexType\<close> as far as it matters here: two payloads clash when a unique secondary key of
  the container forbids them to coexist.  Ordered containers (\<open>std::map\<close>, \<open>std::set\<close>, the
  primary index) are key-sorted association lists.  The head of \<open>stack\<close> is \<open>_stack.back()\<close>.

  An operation that throws returns \<open>Inl\<close> and no state.  In the code it may leave a changed index behind:
  \<open>modify\<close> has recorded the old value and Boost has erased the element that violates a key, and a
  throwing \<open>undo\<close> stops with some payloads restored.  What such an index holds is not modelled, and
  modifiers are total functions.

  Shown here: an abstract specification keeps whole snapshots instead of deltas, and every
  operation refines it, so undo restores the exact contents and next id of the moment the
  session was opened, squash forgets one level, commit forgets the oldest ones.
\<close>

type_synonym 'v omap = "(int \<times> 'v) list"

datatype cb_error = Logic_error | Out_of_range

subsection \<open>Ordered containers\<close>

abbreviation om_find :: "int \<Rightarrow> 'v omap \<Rightarrow> 'v option" where
  "om_find k m \<equiv> map_of m k"

fun om_insert :: "int \<Rightarrow> 'v \<Rightarrow> 'v omap \<Rightarrow> 'v omap" where
  "om_insert k v [] = [(k, v)]"
| "om_insert k v ((k', v') # m) = (if k < k' then (k, v) # (k', v') # m else (k', v') # om_insert k v m)"

definition om_emplace :: "int \<Rightarrow> 'v \<Rightarrow> 'v omap \<Rightarrow> 'v omap" where
  "om_emplace k v m = (if om_find k m = None then om_insert k v m else m)"

definition om_erase :: "int \<Rightarrow> 'v omap \<Rightarrow> 'v omap" where
  "om_erase k m = filter (\<lambda>p. fst p \<noteq> k) m"

definition om_set :: "int \<Rightarrow> 'v \<Rightarrow> 'v omap \<Rightarrow> 'v omap" where
  "om_set k v m = map (\<lambda>p. if fst p = k then (k, v) else p) m"

abbreviation om_wf :: "'v omap \<Rightarrow> bool" where
  "om_wf m \<equiv> distinct (map fst m)"

subsection \<open>generic_index\<close>

record 'v undo_state =
  old_values :: "'v omap"
  removed_values :: "'v omap"
  new_ids :: "unit omap"
  old_next_id :: int
  u_revision :: int

record 'v generic_index =
  stack :: "'v undo_state list"
  ix_revision :: int
  next_id :: int
  indices :: "'v omap"

definition enabled :: "'v generic_index \<Rightarrow> bool" where
  "enabled g \<longleftrightarrow> stack g \<noteq> []"

definition on_modify :: "int \<Rightarrow> 'v \<Rightarrow> 'v generic_index \<Rightarrow> 'v generic_index" where
  "on_modify k v g =
     (case stack g of
        [] \<Rightarrow> g
      | head # rest \<Rightarrow>
          if om_find k (new_ids head) \<noteq> None then g
          else if om_find k (old_values head) \<noteq> None then g
          else g\<lparr>stack := head\<lparr>old_values := om_emplace k v (old_values head)\<rparr> # rest\<rparr>)"

definition on_remove :: "int \<Rightarrow> 'v \<Rightarrow> 'v generic_index \<Rightarrow> 'v generic_index" where
  "on_remove k v g =
     (case stack g of
        [] \<Rightarrow> g
      | head # rest \<Rightarrow>
          if om_find k (new_ids head) \<noteq> None then
            g\<lparr>stack := head\<lparr>new_ids := om_erase k (new_ids head)\<rparr> # rest\<rparr>
          else (case om_find k (old_values head) of
              Some w \<Rightarrow>
                g\<lparr>stack := head\<lparr>removed_values := om_emplace k w (removed_values head),
                               old_values := om_erase k (old_values head)\<rparr> # rest\<rparr>
            | None \<Rightarrow>
                if om_find k (removed_values head) \<noteq> None then g
                else g\<lparr>stack := head\<lparr>removed_values := om_emplace k v (removed_values head)\<rparr> # rest\<rparr>))"

definition on_create :: "int \<Rightarrow> 'v generic_index \<Rightarrow> 'v generic_index" where
  "on_create k g =
     (case stack g of
        [] \<Rightarrow> g
      | head # rest \<Rightarrow> g\<lparr>stack := head\<lparr>new_ids := om_emplace k () (new_ids head)\<rparr> # rest\<rparr>)"

text \<open>Would a payload under this id violate a uniqueness constraint?\<close>

definition conflicts :: "('v \<Rightarrow> 'v \<Rightarrow> bool) \<Rightarrow> int \<Rightarrow> 'v \<Rightarrow> 'v omap \<Rightarrow> bool" where
  "conflicts clash k v m = list_ex (\<lambda>p. fst p \<noteq> k \<and> clash v (snd p)) m"

definition mi_emplace :: "('v \<Rightarrow> 'v \<Rightarrow> bool) \<Rightarrow> int \<Rightarrow> 'v \<Rightarrow> 'v omap \<Rightarrow> 'v omap option" where
  "mi_emplace clash k v m =
     (if om_find k m \<noteq> None \<or> conflicts clash k v m then None else Some (om_insert k v m))"

definition ix_emplace :: "('v \<Rightarrow> 'v \<Rightarrow> bool) \<Rightarrow> 'v \<Rightarrow> 'v generic_index \<Rightarrow> cb_error + 'v generic_index" where
  "ix_emplace clash v g =
     (let new_id = next_id g in
      case mi_emplace clash new_id v (indices g) of
        None \<Rightarrow> Inl Logic_error
      | Some m \<Rightarrow> Inr (on_create new_id (g\<lparr>indices := m, next_id := new_id + 1\<rparr>)))"

definition ix_modify ::
  "('v \<Rightarrow> 'v \<Rightarrow> bool) \<Rightarrow> int \<Rightarrow> ('v \<Rightarrow> 'v) \<Rightarrow> 'v generic_index \<Rightarrow> cb_error + 'v generic_index" where
  "ix_modify clash k f g =
     (case om_find k (indices g) of
        None \<Rightarrow> Inl Out_of_range
      | Some v \<Rightarrow>
          if conflicts clash k (f v) (indices g) then Inl Logic_error
          else Inr ((on_modify k v g)\<lparr>indices := om_set k (f v) (indices g)\<rparr>))"

definition ix_remove :: "int \<Rightarrow> 'v generic_index \<Rightarrow> cb_error + 'v generic_index" where
  "ix_remove k g =
     (case om_find k (indices g) of
        None \<Rightarrow> Inl Out_of_range
      | Some v \<Rightarrow> Inr ((on_remove k v g)\<lparr>indices := om_erase k (indices g)\<rparr>))"

definition ix_find :: "int \<Rightarrow> 'v generic_index \<Rightarrow> 'v option" where
  "ix_find k g = om_find k (indices g)"

definition ix_get :: "int \<Rightarrow> 'v generic_index \<Rightarrow> cb_error + 'v" where
  "ix_get k g = (case ix_find k g of None \<Rightarrow> Inl Out_of_range | Some v \<Rightarrow> Inr v)"

definition ix_start_undo_session :: "bool \<Rightarrow> 'v generic_index \<Rightarrow> 'v generic_index" where
  "ix_start_undo_session enable g =
     (if enable then
        g\<lparr>stack := \<lparr>old_values = [], removed_values = [], new_ids = [],
                     old_next_id = next_id g, u_revision = ix_revision g + 1\<rparr> # stack g,
          ix_revision := ix_revision g + 1\<rparr>
      else g)"

fun undo_old :: "('v \<Rightarrow> 'v \<Rightarrow> bool) \<Rightarrow> 'v omap \<Rightarrow> 'v omap \<Rightarrow> cb_error + 'v omap" where
  "undo_old clash [] m = Inr m"
| "undo_old clash ((k, v) # items) m =
     (if conflicts clash k v m then Inl Logic_error
      else undo_old clash items (om_set k v m))"

fun undo_new :: "unit omap \<Rightarrow> 'v omap \<Rightarrow> 'v omap" where
  "undo_new [] m = m"
| "undo_new ((k, u) # ids) m = undo_new ids (om_erase k m)"

fun undo_removed :: "('v \<Rightarrow> 'v \<Rightarrow> bool) \<Rightarrow> 'v omap \<Rightarrow> 'v omap \<Rightarrow> cb_error + 'v omap" where
  "undo_removed clash [] m = Inr m"
| "undo_removed clash ((k, v) # items) m =
     (case mi_emplace clash k v m of
        None \<Rightarrow> Inl Logic_error
      | Some m' \<Rightarrow> undo_removed clash items m')"

definition ix_undo :: "('v \<Rightarrow> 'v \<Rightarrow> bool) \<Rightarrow> 'v generic_index \<Rightarrow> cb_error + 'v generic_index" where
  "ix_undo clash g =
     (case stack g of
        [] \<Rightarrow> Inr g
      | head # rest \<Rightarrow>
          sbind (undo_old clash (old_values head) (indices g)) (\<lambda>m.
          sbind (undo_removed clash (removed_values head) (undo_new (new_ids head) m)) (\<lambda>m'.
          Inr (g\<lparr>indices := m', next_id := old_next_id head, stack := rest,
                 ix_revision := ix_revision g - 1\<rparr>))))"

fun squash_old :: "'v omap \<Rightarrow> 'v undo_state \<Rightarrow> 'v undo_state" where
  "squash_old [] p = p"
| "squash_old ((k, v) # items) p =
     squash_old items
       (if om_find k (new_ids p) \<noteq> None then p
        else if om_find k (old_values p) \<noteq> None then p
        else p\<lparr>old_values := om_emplace k v (old_values p)\<rparr>)"

fun squash_new :: "unit omap \<Rightarrow> 'v undo_state \<Rightarrow> 'v undo_state" where
  "squash_new [] p = p"
| "squash_new ((k, u) # ids) p = squash_new ids (p\<lparr>new_ids := om_emplace k () (new_ids p)\<rparr>)"

fun squash_removed :: "'v omap \<Rightarrow> 'v undo_state \<Rightarrow> 'v undo_state" where
  "squash_removed [] p = p"
| "squash_removed ((k, v) # items) p =
     squash_removed items
       (if om_find k (new_ids p) \<noteq> None then p\<lparr>new_ids := om_erase k (new_ids p)\<rparr>
        else (case om_find k (old_values p) of
            Some w \<Rightarrow> p\<lparr>removed_values := om_emplace k w (removed_values p),
                        old_values := om_erase k (old_values p)\<rparr>
          | None \<Rightarrow> p\<lparr>removed_values := om_emplace k v (removed_values p)\<rparr>))"

definition ix_squash :: "'v generic_index \<Rightarrow> 'v generic_index" where
  "ix_squash g =
     (case stack g of
        [] \<Rightarrow> g
      | [s] \<Rightarrow> g\<lparr>stack := []\<rparr>
      | s # p # rest \<Rightarrow>
          g\<lparr>stack := squash_removed (removed_values s)
                      (squash_new (new_ids s) (squash_old (old_values s) p)) # rest,
            ix_revision := ix_revision g - 1\<rparr>)"

text \<open>\<open>_stack[0]\<close> is the oldest state: the last of the model's list.\<close>

definition ix_commit :: "int \<Rightarrow> 'v generic_index \<Rightarrow> 'v generic_index" where
  "ix_commit r g = g\<lparr>stack := rev (dropWhile (\<lambda>u. u_revision u \<le> r) (rev (stack g)))\<rparr>"

fun undo_n :: "nat \<Rightarrow> ('v \<Rightarrow> 'v \<Rightarrow> bool) \<Rightarrow> 'v generic_index \<Rightarrow> cb_error + 'v generic_index" where
  "undo_n 0 clash g = Inr g"
| "undo_n (Suc n) clash g = sbind (ix_undo clash g) (undo_n n clash)"

text \<open>\<open>while( enabled() ) undo();\<close>: each round pops one state, so the stack's height bounds it.\<close>

definition ix_undo_all :: "('v \<Rightarrow> 'v \<Rightarrow> bool) \<Rightarrow> 'v generic_index \<Rightarrow> cb_error + 'v generic_index" where
  "ix_undo_all clash g = undo_n (length (stack g)) clash g"

definition ix_set_revision :: "int \<Rightarrow> 'v generic_index \<Rightarrow> cb_error + 'v generic_index" where
  "ix_set_revision r g = (if stack g \<noteq> [] then Inl Logic_error else Inr (g\<lparr>ix_revision := r\<rparr>))"

definition ix_remove_object :: "int \<Rightarrow> 'v generic_index \<Rightarrow> cb_error + 'v generic_index" where
  "ix_remove_object k g =
     (case ix_find k g of None \<Rightarrow> Inl Out_of_range | Some v \<Rightarrow> ix_remove k g)"

subsection \<open>Session objects and the database\<close>

text \<open>
  \<open>generic_index::session\<close>: the flag that makes its destructor undo, and the revision.  The move
  constructor copies the flag and clears the source's, and leaves \<open>_revision\<close> at its default 0.
\<close>

record session =
  s_apply :: bool
  s_revision :: int

definition session_make :: "int \<Rightarrow> session" where
  "session_make r = \<lparr>s_apply = (r \<noteq> -1), s_revision = r\<rparr>"

definition session_move :: "session \<Rightarrow> session" where
  "session_move mv = \<lparr>s_apply = s_apply mv, s_revision = 0\<rparr>"

definition session_push :: "session \<Rightarrow> session" where
  "session_push s = s\<lparr>s_apply := False\<rparr>"

definition session_squash :: "session \<Rightarrow> 'v generic_index \<Rightarrow> session \<times> 'v generic_index" where
  "session_squash s g = (s\<lparr>s_apply := False\<rparr>, if s_apply s then ix_squash g else g)"

definition session_undo ::
  "('v \<Rightarrow> 'v \<Rightarrow> bool) \<Rightarrow> session \<Rightarrow> 'v generic_index \<Rightarrow> cb_error + (session \<times> 'v generic_index)" where
  "session_undo clash s g =
     (if s_apply s then sbind (ix_undo clash g) (\<lambda>g'. Inr (s\<lparr>s_apply := False\<rparr>, g'))
      else Inr (s\<lparr>s_apply := False\<rparr>, g))"

definition session_destroy ::
  "('v \<Rightarrow> 'v \<Rightarrow> bool) \<Rightarrow> session \<Rightarrow> 'v generic_index \<Rightarrow> cb_error + 'v generic_index" where
  "session_destroy clash s g = (if s_apply s then ix_undo clash g else Inr g)"

text \<open>\<open>generic_index::start_undo_session\<close> as \<open>index_impl\<close> wraps it: the session is moved into a
  \<open>session_impl\<close>.\<close>

definition impl_start_undo_session :: "bool \<Rightarrow> 'v generic_index \<Rightarrow> session \<times> 'v generic_index" where
  "impl_start_undo_session enable g =
     (session_move (session_make (if enable then ix_revision g + 1 else -1)),
      ix_start_undo_session enable g)"

text \<open>The database holds its indices in \<open>_index_list\<close>; each comes with its uniqueness rule.\<close>

type_synonym 'v index_list = "(('v \<Rightarrow> 'v \<Rightarrow> bool) \<times> 'v generic_index) list"

record db_session =
  index_sessions :: "session list"
  d_revision :: int

definition db_start_undo_session :: "bool \<Rightarrow> 'v index_list \<Rightarrow> db_session \<times> 'v index_list" where
  "db_start_undo_session enable xs =
     (if enable then
        (let ss = map (\<lambda>(c, g). fst (impl_start_undo_session enable g)) xs in
         (\<lparr>index_sessions = ss, d_revision = (case ss of [] \<Rightarrow> -1 | s # _ \<Rightarrow> s_revision s)\<rparr>,
          map (\<lambda>(c, g). (c, snd (impl_start_undo_session enable g))) xs))
      else (\<lparr>index_sessions = [], d_revision = -1\<rparr>, xs))"

definition db_revision :: "'v index_list \<Rightarrow> int" where
  "db_revision xs = (case xs of [] \<Rightarrow> -1 | (c, g) # _ \<Rightarrow> ix_revision g)"

fun db_undo :: "'v index_list \<Rightarrow> cb_error + 'v index_list" where
  "db_undo [] = Inr []"
| "db_undo ((c, g) # xs) =
     sbind (ix_undo c g) (\<lambda>g'. sbind (db_undo xs) (\<lambda>xs'. Inr ((c, g') # xs')))"

definition db_squash :: "'v index_list \<Rightarrow> 'v index_list" where
  "db_squash xs = map (\<lambda>(c, g). (c, ix_squash g)) xs"

definition db_commit :: "int \<Rightarrow> 'v index_list \<Rightarrow> 'v index_list" where
  "db_commit r xs = map (\<lambda>(c, g). (c, ix_commit r g)) xs"

fun db_undo_all :: "'v index_list \<Rightarrow> cb_error + 'v index_list" where
  "db_undo_all [] = Inr []"
| "db_undo_all ((c, g) # xs) =
     sbind (ix_undo_all c g) (\<lambda>g'. sbind (db_undo_all xs) (\<lambda>xs'. Inr ((c, g') # xs')))"

fun db_set_revision :: "int \<Rightarrow> 'v index_list \<Rightarrow> cb_error + 'v index_list" where
  "db_set_revision r [] = Inr []"
| "db_set_revision r ((c, g) # xs) =
     sbind (ix_set_revision r g) (\<lambda>g'. sbind (db_set_revision r xs) (\<lambda>xs'. Inr ((c, g') # xs')))"

subsection \<open>Ordered containers as maps\<close>

lemma map_of_om_insert: "om_find k m = None \<Longrightarrow> map_of (om_insert k v m) = (map_of m)(k \<mapsto> v)"
  by (induction k v m rule: om_insert.induct) (auto split: if_splits)

lemma map_of_om_emplace [simp]:
  "map_of (om_emplace k v m) = (if map_of m k = None then (map_of m)(k \<mapsto> v) else map_of m)"
  by (simp add: om_emplace_def map_of_om_insert)

lemma map_of_om_erase [simp]: "map_of (om_erase k m) = (map_of m)(k := None)"
  by (induction m) (auto simp: om_erase_def)

lemma map_of_om_set [simp]:
  "map_of (om_set k v m) = (if map_of m k = None then map_of m else (map_of m)(k \<mapsto> v))"
  by (induction m) (auto simp: om_set_def fun_eq_iff)

lemma set_om_insert: "set (om_insert k v m) = insert (k, v) (set m)"
  by (induction k v m rule: om_insert.induct) auto

lemma om_wf_insert: "om_wf m \<Longrightarrow> om_find k m = None \<Longrightarrow> om_wf (om_insert k v m)"
  by (induction k v m rule: om_insert.induct)
     (auto simp: set_om_insert map_of_eq_None_iff split: if_splits)

lemma om_wf_emplace [simp]: "om_wf m \<Longrightarrow> om_wf (om_emplace k v m)"
  by (simp add: om_emplace_def om_wf_insert)

lemma om_wf_erase [simp]: "om_wf m \<Longrightarrow> om_wf (om_erase k m)"
  by (simp add: om_erase_def distinct_map_filter)

lemma om_wf_set [simp]: "om_wf (om_set k v m) \<longleftrightarrow> om_wf m"
proof -
  have "map fst (om_set k v m) = map fst m" by (induction m) (auto simp: om_set_def)
  then show ?thesis by simp
qed

subsection \<open>Snapshots\<close>

fun restore_cell :: "'v option \<Rightarrow> 'v option \<Rightarrow> unit option \<Rightarrow> 'v option \<Rightarrow> 'v option" where
  "restore_cell ov (Some v) nw c = Some v"
| "restore_cell ov None (Some u) c = None"
| "restore_cell (Some v) None None c = Some v"
| "restore_cell None None None c = c"

definition restore :: "'v undo_state \<Rightarrow> (int \<rightharpoonup> 'v) \<Rightarrow> (int \<rightharpoonup> 'v)" where
  "restore u m = (\<lambda>k. restore_cell (om_find k (old_values u)) (om_find k (removed_values u))
                                    (om_find k (new_ids u)) (m k))"

text \<open>
  The relationship of one id to an undo state: \<open>nop\<close>, \<open>upd\<close>, \<open>del\<close> or \<open>new\<close>, as the comment
  in \<open>squash\<close> calls them; \<open>on\<close> and \<open>n\<close> are the next ids when the session opened and now.
\<close>

fun cell_ok :: "'v option \<Rightarrow> 'v option \<Rightarrow> unit option \<Rightarrow> 'v option \<Rightarrow> int \<Rightarrow> int \<Rightarrow> int \<Rightarrow> bool" where
  "cell_ok None None None c k on n = (c \<noteq> None \<longrightarrow> k < on)"
| "cell_ok (Some v) None None c k on n = (c \<noteq> None \<and> k < on)"
| "cell_ok None (Some v) None c k on n = (c = None \<and> k < on)"
| "cell_ok None None (Some u) c k on n = (c \<noteq> None \<and> on \<le> k \<and> k < n)"
| "cell_ok _ _ _ c k on n = False"

definition undo_wf :: "'v undo_state \<Rightarrow> (int \<rightharpoonup> 'v) \<Rightarrow> int \<Rightarrow> bool" where
  "undo_wf u m n \<longleftrightarrow>
     om_wf (old_values u) \<and> om_wf (removed_values u) \<and> om_wf (new_ids u) \<and> old_next_id u \<le> n \<and>
     (\<forall>k. cell_ok (om_find k (old_values u)) (om_find k (removed_values u))
            (om_find k (new_ids u)) (m k) k (old_next_id u) n)"

fun stack_wf :: "'v undo_state list \<Rightarrow> (int \<rightharpoonup> 'v) \<Rightarrow> int \<Rightarrow> bool" where
  "stack_wf [] m n = (\<forall>k. m k \<noteq> None \<longrightarrow> k < n)"
| "stack_wf (u # us) m n = (undo_wf u m n \<and> stack_wf us (restore u m) (old_next_id u))"

definition ix_wf :: "'v generic_index \<Rightarrow> bool" where
  "ix_wf g \<longleftrightarrow> om_wf (indices g) \<and> stack_wf (stack g) (map_of (indices g)) (next_id g)"

text \<open>
  The specification: current rows, next id, and for every open session the rows, next id and
  revision at the time it was opened (most recent first).
\<close>

type_synonym 'v spec_state = "(int \<rightharpoonup> 'v) \<times> int \<times> ((int \<rightharpoonup> 'v) \<times> int \<times> int) list"

fun snapshots :: "'v undo_state list \<Rightarrow> (int \<rightharpoonup> 'v) \<Rightarrow> ((int \<rightharpoonup> 'v) \<times> int \<times> int) list" where
  "snapshots [] m = []"
| "snapshots (u # us) m = (restore u m, old_next_id u, u_revision u) # snapshots us (restore u m)"

definition ix_abs :: "'v generic_index \<Rightarrow> 'v spec_state" where
  "ix_abs g = (map_of (indices g), next_id g, snapshots (stack g) (map_of (indices g)))"

fun spec_emplace :: "'v \<Rightarrow> 'v spec_state \<Rightarrow> 'v spec_state" where
  "spec_emplace v (m, n, ss) = (m(n \<mapsto> v), n + 1, ss)"

fun spec_modify :: "int \<Rightarrow> ('v \<Rightarrow> 'v) \<Rightarrow> 'v spec_state \<Rightarrow> 'v spec_state" where
  "spec_modify k f (m, n, ss) = (m(k := map_option f (m k)), n, ss)"

fun spec_remove :: "int \<Rightarrow> 'v spec_state \<Rightarrow> 'v spec_state" where
  "spec_remove k (m, n, ss) = (m(k := None), n, ss)"

fun spec_start :: "int \<Rightarrow> 'v spec_state \<Rightarrow> 'v spec_state" where
  "spec_start r (m, n, ss) = (m, n, (m, n, r) # ss)"

fun spec_undo :: "'v spec_state \<Rightarrow> 'v spec_state" where
  "spec_undo (m, n, []) = (m, n, [])"
| "spec_undo (m, n, (m', n', r) # ss) = (m', n', ss)"

fun spec_squash :: "'v spec_state \<Rightarrow> 'v spec_state" where
  "spec_squash (m, n, ss) = (m, n, tl ss)"

fun spec_commit :: "int \<Rightarrow> 'v spec_state \<Rightarrow> 'v spec_state" where
  "spec_commit r (m, n, ss) = (m, n, rev (dropWhile (\<lambda>s. snd (snd s) \<le> r) (rev ss)))"

lemma cell_ok_restore:
  "cell_ok ov rv nw c k on n \<Longrightarrow> restore_cell ov rv nw c \<noteq> None \<Longrightarrow> k < on"
  by (cases "(ov, rv, nw, c, k, on, n)" rule: cell_ok.cases) auto

lemma cell_ok_bound: "cell_ok ov rv nw c k on n \<Longrightarrow> on \<le> n \<Longrightarrow> c \<noteq> None \<Longrightarrow> k < n"
  by (cases "(ov, rv, nw, c, k, on, n)" rule: cell_ok.cases) auto

lemma stack_wf_bound:
  assumes "stack_wf us m n" and "m k \<noteq> None"
  shows "k < n"
proof (cases us)
  case Nil
  with assms show ?thesis by simp
next
  case (Cons u vs)
  with assms(1) have "cell_ok (om_find k (old_values u)) (om_find k (removed_values u))
      (om_find k (new_ids u)) (m k) k (old_next_id u) n" "old_next_id u \<le> n"
    by (auto simp: undo_wf_def)
  then show ?thesis using assms(2) by (rule cell_ok_bound)
qed

lemma bound_upd:
  fixes m :: "int \<rightharpoonup> 'v"
  assumes "\<forall>k. m k \<noteq> None \<longrightarrow> k < n"
  shows "\<forall>k. (m(n \<mapsto> v)) k \<noteq> None \<longrightarrow> k < n + 1"
  using assms by fastforce

text \<open>Every row operation changes the bookkeeping of one id only.\<close>

lemma undo_wf_at:
  assumes "undo_wf u m n" and "n \<le> n'" and "old_next_id u' = old_next_id u"
    and "om_wf (old_values u')" "om_wf (removed_values u')" "om_wf (new_ids u')"
    and "\<And>j. j \<noteq> k \<Longrightarrow> om_find j (old_values u') = om_find j (old_values u)"
    and "\<And>j. j \<noteq> k \<Longrightarrow> om_find j (removed_values u') = om_find j (removed_values u)"
    and "\<And>j. j \<noteq> k \<Longrightarrow> om_find j (new_ids u') = om_find j (new_ids u)"
    and "\<And>j. j \<noteq> k \<Longrightarrow> m' j = m j"
    and "cell_ok (om_find k (old_values u')) (om_find k (removed_values u'))
           (om_find k (new_ids u')) (m' k) k (old_next_id u) n'"
    and "restore_cell (om_find k (old_values u')) (om_find k (removed_values u'))
           (om_find k (new_ids u')) (m' k)
         = restore_cell (om_find k (old_values u)) (om_find k (removed_values u))
           (om_find k (new_ids u)) (m k)"
  shows "undo_wf u' m' n' \<and> restore u' m' = restore u m"
proof
  have mono: "cell_ok ov rv nw c j on n \<Longrightarrow> cell_ok ov rv nw c j on n'" for ov rv nw c j on
    using assms(2) by (cases "(ov, rv, nw, c, j, on, n)" rule: cell_ok.cases) auto
  have old: "cell_ok (om_find j (old_values u)) (om_find j (removed_values u))
      (om_find j (new_ids u)) (m j) j (old_next_id u) n" for j
    using assms(1) by (simp add: undo_wf_def)
  have "cell_ok (om_find j (old_values u')) (om_find j (removed_values u'))
      (om_find j (new_ids u')) (m' j) j (old_next_id u) n'" for j
    using mono[OF old[of j]] assms(7-11) by (cases "j = k") auto
  then show "undo_wf u' m' n'"
    using assms(1-6) by (simp add: undo_wf_def)
  show "restore u' m' = restore u m"
  proof
    fix j
    show "restore u' m' j = restore u m j"
      unfolding restore_def using assms(7-10,12) by (cases "j = k") auto
  qed
qed

lemma undo_wf_cell:
  "undo_wf u m n \<Longrightarrow> cell_ok (om_find k (old_values u)) (om_find k (removed_values u))
      (om_find k (new_ids u)) (m k) k (old_next_id u) n"
  by (simp add: undo_wf_def)

lemma undo_wf_create:
  assumes "undo_wf u m n" and "m n = None"
  shows "undo_wf (u\<lparr>new_ids := om_emplace n () (new_ids u)\<rparr>) (m(n \<mapsto> v)) (n + 1) \<and>
    restore (u\<lparr>new_ids := om_emplace n () (new_ids u)\<rparr>) (m(n \<mapsto> v)) = restore u m"
proof (rule undo_wf_at[OF assms(1), where k = n])
  have on: "old_next_id u \<le> n" using assms(1) by (simp add: undo_wf_def)
  have c: "om_find n (old_values u) = None" "om_find n (removed_values u) = None"
    "om_find n (new_ids u) = None"
    using undo_wf_cell[OF assms(1), of n] on assms(2)
    by (cases "om_find n (old_values u)"; cases "om_find n (removed_values u)";
        cases "om_find n (new_ids u)"; simp)+
  show "cell_ok (om_find n (old_values (u\<lparr>new_ids := om_emplace n () (new_ids u)\<rparr>)))
     (om_find n (removed_values (u\<lparr>new_ids := om_emplace n () (new_ids u)\<rparr>)))
     (om_find n (new_ids (u\<lparr>new_ids := om_emplace n () (new_ids u)\<rparr>)))
     ((m(n \<mapsto> v)) n) n (old_next_id u) (n + 1)"
    using c on by simp
  show "restore_cell (om_find n (old_values (u\<lparr>new_ids := om_emplace n () (new_ids u)\<rparr>)))
     (om_find n (removed_values (u\<lparr>new_ids := om_emplace n () (new_ids u)\<rparr>)))
     (om_find n (new_ids (u\<lparr>new_ids := om_emplace n () (new_ids u)\<rparr>))) ((m(n \<mapsto> v)) n) =
    restore_cell (om_find n (old_values u)) (om_find n (removed_values u)) (om_find n (new_ids u)) (m n)"
    using c assms(2) by simp
qed (use assms(1) in \<open>auto simp: undo_wf_def\<close>)

subsection \<open>Row operations\<close>

lemma ix_emplace_refines:
  assumes "ix_wf g" and "ix_emplace clash v g = Inr g'"
  shows "ix_wf g' \<and> ix_abs g' = spec_emplace v (ix_abs g)"
proof -
  let ?n = "next_id g" and ?m = "map_of (indices g)"
  have fresh: "?m ?n = None"
    using assms(1) stack_wf_bound[of "stack g" ?m ?n ?n] unfolding ix_wf_def by blast
  have g': "g' = on_create ?n (g\<lparr>indices := om_insert ?n v (indices g), next_id := ?n + 1\<rparr>)"
    using assms(2) by (auto simp: ix_emplace_def mi_emplace_def Let_def split: if_splits)
  have wf: "om_wf (om_insert ?n v (indices g))"
    using assms(1) fresh by (simp add: ix_wf_def om_wf_insert)
  show ?thesis
  proof (cases "stack g")
    case Nil
    have "\<forall>k. ?m k \<noteq> None \<longrightarrow> k < ?n"
      using assms(1) unfolding ix_wf_def Nil stack_wf.simps by blast
    from bound_upd[OF this] have "stack_wf [] (?m(?n \<mapsto> v)) (?n + 1)" by (simp only: stack_wf.simps)
    moreover have "g' = g\<lparr>indices := om_insert ?n v (indices g), next_id := ?n + 1\<rparr>"
      using g' Nil by (simp add: on_create_def)
    ultimately show ?thesis
      using wf Nil by (simp add: ix_wf_def ix_abs_def map_of_om_insert[OF fresh] del: stack_wf.simps)
  next
    case (Cons u us)
    have uw: "undo_wf u ?m ?n" and sw: "stack_wf us (restore u ?m) (old_next_id u)"
      using assms(1) Cons by (auto simp: ix_wf_def)
    show ?thesis
      using undo_wf_create[OF uw fresh, of v] sw wf fresh Cons g'
      by (simp add: on_create_def ix_wf_def ix_abs_def map_of_om_insert)
  qed
qed

text \<open>Modification and removal are handled cell by cell.\<close>

definition touch :: "int \<Rightarrow> 'v \<Rightarrow> 'v undo_state \<Rightarrow> 'v undo_state" where
  "touch k v u =
     (if om_find k (new_ids u) \<noteq> None then u
      else if om_find k (old_values u) \<noteq> None then u
      else u\<lparr>old_values := om_emplace k v (old_values u)\<rparr>)"

definition untrack :: "int \<Rightarrow> 'v \<Rightarrow> 'v undo_state \<Rightarrow> 'v undo_state" where
  "untrack k v u =
     (if om_find k (new_ids u) \<noteq> None then u\<lparr>new_ids := om_erase k (new_ids u)\<rparr>
      else (case om_find k (old_values u) of
          Some w \<Rightarrow> u\<lparr>removed_values := om_emplace k w (removed_values u),
                      old_values := om_erase k (old_values u)\<rparr>
        | None \<Rightarrow> if om_find k (removed_values u) \<noteq> None then u
                  else u\<lparr>removed_values := om_emplace k v (removed_values u)\<rparr>))"

lemma on_modify_touch:
  "on_modify k v g = (case stack g of [] \<Rightarrow> g | u # us \<Rightarrow> g\<lparr>stack := touch k v u # us\<rparr>)"
  by (auto simp: on_modify_def touch_def split: list.splits)

lemma on_remove_untrack:
  "on_remove k v g = (case stack g of [] \<Rightarrow> g | u # us \<Rightarrow> g\<lparr>stack := untrack k v u # us\<rparr>)"
  by (auto simp: on_remove_def untrack_def split: list.splits option.splits)

lemma touch_untrack_frame [simp]:
  "old_next_id (touch k v u) = old_next_id u" "u_revision (touch k v u) = u_revision u"
  "old_next_id (untrack k v u) = old_next_id u" "u_revision (untrack k v u) = u_revision u"
  by (simp_all add: touch_def untrack_def split: option.split)

lemma cell_cases:
  assumes "cell_ok ov rv nw c k on n"
  obtains (nop) "ov = None" "rv = None" "nw = None" "c \<noteq> None \<longrightarrow> k < on"
    | (upd) v where "ov = Some v" "rv = None" "nw = None" "c \<noteq> None" "k < on"
    | (del) v where "ov = None" "rv = Some v" "nw = None" "c = None" "k < on"
    | (new) "ov = None" "rv = None" "nw = Some ()" "c \<noteq> None" "on \<le> k" "k < n"
  using assms by (cases "(ov, rv, nw, c, k, on, n)" rule: cell_ok.cases) auto

lemma undo_wf_touch:
  assumes "undo_wf u m n" and "m k = Some v"
  shows "undo_wf (touch k v u) (m(k \<mapsto> w)) n \<and> restore (touch k v u) (m(k \<mapsto> w)) = restore u m"
proof (rule undo_wf_at[OF assms(1) order_refl, where k = k])
  from undo_wf_cell[OF assms(1), of k] show
    "cell_ok (om_find k (old_values (touch k v u))) (om_find k (removed_values (touch k v u)))
       (om_find k (new_ids (touch k v u))) ((m(k \<mapsto> w)) k) k (old_next_id u) n"
    "restore_cell (om_find k (old_values (touch k v u))) (om_find k (removed_values (touch k v u)))
       (om_find k (new_ids (touch k v u))) ((m(k \<mapsto> w)) k) =
     restore_cell (om_find k (old_values u)) (om_find k (removed_values u)) (om_find k (new_ids u)) (m k)"
    by (cases rule: cell_cases; use assms(2) in \<open>simp add: touch_def\<close>)+
qed (use assms(1) in \<open>auto simp: undo_wf_def touch_def\<close>)

lemma undo_wf_untrack:
  assumes "undo_wf u m n" and "m k = Some v"
  shows "undo_wf (untrack k v u) (m(k := None)) n \<and> restore (untrack k v u) (m(k := None)) = restore u m"
proof (rule undo_wf_at[OF assms(1) order_refl, where k = k])
  from undo_wf_cell[OF assms(1), of k] show
    "cell_ok (om_find k (old_values (untrack k v u))) (om_find k (removed_values (untrack k v u)))
       (om_find k (new_ids (untrack k v u))) ((m(k := None)) k) k (old_next_id u) n"
    "restore_cell (om_find k (old_values (untrack k v u))) (om_find k (removed_values (untrack k v u)))
       (om_find k (new_ids (untrack k v u))) ((m(k := None)) k) =
     restore_cell (om_find k (old_values u)) (om_find k (removed_values u)) (om_find k (new_ids u)) (m k)"
    by (cases rule: cell_cases; use assms(2) in \<open>simp add: untrack_def\<close>)+
qed (use assms(1) in \<open>auto simp: undo_wf_def untrack_def split: option.splits\<close>)

lemma stack_nil_mono:
  assumes "stack_wf [] m n" and "\<And>k. m' k \<noteq> None \<Longrightarrow> m k \<noteq> None"
  shows "stack_wf [] m' n"
  using assms by (auto simp del: not_None_eq)

lemma ix_modify_refines:
  assumes "ix_wf g" and "ix_modify clash k f g = Inr g'"
  shows "ix_wf g' \<and> ix_abs g' = spec_modify k f (ix_abs g)"
proof -
  let ?m = "map_of (indices g)"
  obtain v where v: "?m k = Some v"
    and g': "g' = (on_modify k v g)\<lparr>indices := om_set k (f v) (indices g)\<rparr>"
    using assms(2) by (auto simp: ix_modify_def split: option.splits if_splits)
  have m': "map_of (om_set k (f v) (indices g)) = ?m(k \<mapsto> f v)" using v by simp
  have wf: "om_wf (indices g)" and sw: "stack_wf (stack g) ?m (next_id g)"
    using assms(1) by (simp_all add: ix_wf_def)
  show ?thesis
  proof (cases "stack g")
    case Nil
    have "stack_wf [] (?m(k \<mapsto> f v)) (next_id g)"
      using sw unfolding Nil by (rule stack_nil_mono) (use v in \<open>auto split: if_splits\<close>)
    then show ?thesis
      using Nil g' wf v m' by (simp add: ix_wf_def ix_abs_def on_modify_touch del: stack_wf.simps)
  next
    case (Cons u us)
    have "undo_wf u ?m (next_id g)" using sw Cons by simp
    from undo_wf_touch[OF this v, of "f v"] show ?thesis
      using Cons g' wf sw v m' by (simp add: ix_wf_def ix_abs_def on_modify_touch)
  qed
qed

lemma ix_remove_refines:
  assumes "ix_wf g" and "ix_remove k g = Inr g'"
  shows "ix_wf g' \<and> ix_abs g' = spec_remove k (ix_abs g)"
proof -
  let ?m = "map_of (indices g)"
  obtain v where v: "?m k = Some v"
    and g': "g' = (on_remove k v g)\<lparr>indices := om_erase k (indices g)\<rparr>"
    using assms(2) by (auto simp: ix_remove_def split: option.splits)
  have wf: "om_wf (indices g)" and sw: "stack_wf (stack g) ?m (next_id g)"
    using assms(1) by (simp_all add: ix_wf_def)
  show ?thesis
  proof (cases "stack g")
    case Nil
    have "stack_wf [] (?m(k := None)) (next_id g)"
      using sw unfolding Nil by (rule stack_nil_mono) (auto split: if_splits)
    then show ?thesis
      using Nil g' wf by (simp add: ix_wf_def ix_abs_def on_remove_untrack del: stack_wf.simps)
  next
    case (Cons u us)
    have "undo_wf u ?m (next_id g)" using sw Cons by simp
    from undo_wf_untrack[OF this v] show ?thesis
      using Cons g' wf sw by (simp add: ix_wf_def ix_abs_def on_remove_untrack)
  qed
qed

subsection \<open>Sessions\<close>

lemma ix_start_refines:
  assumes "ix_wf g"
  shows "ix_wf (ix_start_undo_session True g) \<and>
    ix_abs (ix_start_undo_session True g) = spec_start (ix_revision g + 1) (ix_abs g)"
proof -
  let ?m = "map_of (indices g)"
  let ?u = "\<lparr>old_values = [], removed_values = [], new_ids = [],
     old_next_id = next_id g, u_revision = ix_revision g + 1\<rparr> :: 'a undo_state"
  have sw: "stack_wf (stack g) ?m (next_id g)" using assms by (simp add: ix_wf_def)
  have r: "restore ?u ?m = ?m" by (simp add: restore_def)
  have "undo_wf ?u ?m (next_id g)"
    using stack_wf_bound[OF sw] by (auto simp: undo_wf_def simp del: not_None_eq)
  then show ?thesis
    using assms sw r by (simp add: ix_wf_def ix_abs_def ix_start_undo_session_def)
qed

lemma undo_old_map:
  assumes "undo_old clash xs m = Inr m'" and "om_wf xs"
    and "\<And>k. map_of xs k \<noteq> None \<Longrightarrow> map_of m k \<noteq> None"
  shows "map_of m' = map_of m ++ map_of xs \<and> om_wf m' = om_wf m"
  using assms
proof (induction clash xs m rule: undo_old.induct)
  case (1 clash m)
  then show ?case by simp
next
  case (2 clash k v items m)
  from "2.prems"(1) have nc: "\<not> conflicts clash k v m"
    and rec: "undo_old clash items (om_set k v m) = Inr m'" by (auto split: if_splits)
  have mk: "map_of m k \<noteq> None" using "2.prems"(3)[of k] by simp
  have "map_of m' = map_of (om_set k v m) ++ map_of items \<and> om_wf m' = om_wf (om_set k v m)"
  proof (rule "2.IH"[OF nc rec])
    show "om_wf items" using "2.prems"(2) by simp
    fix j assume "map_of items j \<noteq> None"
    then show "map_of (om_set k v m) j \<noteq> None"
      using "2.prems"(3)[of j] mk by (auto split: if_splits)
  qed
  moreover have "map_of items k = None"
    using "2.prems"(2) by (simp add: map_of_eq_None_iff)
  ultimately show ?case using mk by (auto simp: map_add_def fun_eq_iff split: option.splits)
qed

lemma undo_new_map:
  "map_of (undo_new ids m) = (\<lambda>k. if map_of ids k \<noteq> None then None else map_of m k)
   \<and> (om_wf m \<longrightarrow> om_wf (undo_new ids m))"
  by (induction ids m rule: undo_new.induct) (auto simp: fun_eq_iff)

lemma undo_removed_map:
  assumes "undo_removed clash xs m = Inr m'" and "om_wf xs" and "om_wf m"
  shows "map_of m' = map_of m ++ map_of xs \<and> om_wf m'"
  using assms
proof (induction clash xs m rule: undo_removed.induct)
  case (1 clash m)
  then show ?case by simp
next
  case (2 clash k v items m)
  then obtain m1 where m1: "mi_emplace clash k v m = Some m1"
    and rec: "undo_removed clash items m1 = Inr m'" by (auto split: option.splits)
  from m1 have k: "map_of m k = None" and m1': "m1 = om_insert k v m"
    by (auto simp: mi_emplace_def split: if_splits)
  have "om_wf items" "om_wf m1" using "2.prems" k m1' by (simp_all add: om_wf_insert)
  from "2.IH"[OF m1 rec this] have "map_of m' = map_of m1 ++ map_of items \<and> om_wf m'" .
  moreover have "map_of items k = None" using "2.prems"(2) by (simp add: map_of_eq_None_iff)
  ultimately show ?case using k m1'
    by (auto simp: map_of_om_insert map_add_def fun_eq_iff split: option.splits)
qed

lemma ix_undo_refines:
  assumes "ix_wf g" and "ix_undo clash g = Inr g'"
  shows "ix_wf g' \<and> ix_abs g' = spec_undo (ix_abs g)"
proof (cases "stack g")
  case Nil
  with assms show ?thesis by (simp add: ix_undo_def ix_abs_def)
next
  case (Cons u us)
  let ?m = "map_of (indices g)"
  have wf: "om_wf (indices g)" and uw: "undo_wf u ?m (next_id g)"
    and sw: "stack_wf us (restore u ?m) (old_next_id u)"
    using assms(1) Cons by (auto simp: ix_wf_def)
  have uwf: "om_wf (old_values u)" "om_wf (removed_values u)" using uw by (simp_all add: undo_wf_def)
  obtain m1 m2 where m1: "undo_old clash (old_values u) (indices g) = Inr m1"
    and m2: "undo_removed clash (removed_values u) (undo_new (new_ids u) m1) = Inr m2"
    and g': "g' = g\<lparr>indices := m2, next_id := old_next_id u, stack := us,
                 ix_revision := ix_revision g - 1\<rparr>"
    using assms(2) Cons by (auto simp: ix_undo_def sbind_Inr_iff)
  have "?m k \<noteq> None" if "map_of (old_values u) k \<noteq> None" for k
    using undo_wf_cell[OF uw, of k] that by (cases rule: cell_cases) auto
  from undo_old_map[OF m1 uwf(1) this]
  have e1: "map_of m1 = ?m ++ map_of (old_values u)" and w1: "om_wf m1" using wf by auto
  from undo_removed_map[OF m2 uwf(2)] undo_new_map[of "new_ids u" m1] w1
  have e2: "map_of m2 = (\<lambda>k. if map_of (new_ids u) k \<noteq> None then None else map_of m1 k)
      ++ map_of (removed_values u)" and w2: "om_wf m2" by auto
  have "map_of m2 = restore u ?m"
  proof
    fix k
    from undo_wf_cell[OF uw, of k] show "map_of m2 k = restore u ?m k"
      by (cases rule: cell_cases) (simp_all add: e1 e2 restore_def map_add_def)
  qed
  then show ?thesis using g' w2 sw Cons by (simp add: ix_wf_def ix_abs_def)
qed

subsection \<open>Squash: the four-by-four matrix\<close>

type_synonym 'v cell = "'v option \<times> 'v option \<times> unit option"

definition cell_of :: "'v undo_state \<Rightarrow> int \<Rightarrow> 'v cell" where
  "cell_of p k = (om_find k (old_values p), om_find k (removed_values p), om_find k (new_ids p))"

fun cell_upd :: "'v \<Rightarrow> 'v cell \<Rightarrow> 'v cell" where
  "cell_upd v (ov, rv, nw) = (if nw \<noteq> None \<or> ov \<noteq> None then (ov, rv, nw) else (Some v, rv, nw))"

fun cell_new :: "'v cell \<Rightarrow> 'v cell" where
  "cell_new (ov, rv, nw) = (ov, rv, Some ())"

fun cell_del :: "'v \<Rightarrow> 'v cell \<Rightarrow> 'v cell" where
  "cell_del v (ov, rv, nw) =
     (if nw \<noteq> None then (ov, rv, None)
      else (None, (if rv \<noteq> None then rv else case ov of Some x \<Rightarrow> Some x | None \<Rightarrow> Some v), nw))"

lemma cell_squash_old:
  "om_wf xs \<Longrightarrow> cell_of (squash_old xs p) k =
     (case map_of xs k of None \<Rightarrow> cell_of p k | Some v \<Rightarrow> cell_upd v (cell_of p k))"
proof (induction xs p rule: squash_old.induct)
  case (2 j v items p)
  let ?p = "if om_find j (new_ids p) \<noteq> None then p
     else if om_find j (old_values p) \<noteq> None then p
     else p\<lparr>old_values := om_emplace j v (old_values p)\<rparr>"
  have st: "cell_of ?p k = (if j = k then cell_upd v (cell_of p k) else cell_of p k)"
    by (auto simp: cell_of_def split: option.splits)
  have wf: "om_wf items" and nj: "map_of items j = None"
    using "2.prems" by (auto simp: map_of_eq_None_iff)
  have "cell_of (squash_old ((j, v) # items) p) k = cell_of (squash_old items ?p) k"
    by (simp only: squash_old.simps)
  also have "\<dots> = (case map_of items k of None \<Rightarrow> cell_of ?p k | Some w \<Rightarrow> cell_upd w (cell_of ?p k))"
    by (rule "2.IH"[OF wf])
  also have "\<dots> = (case map_of ((j, v) # items) k of None \<Rightarrow> cell_of p k
      | Some w \<Rightarrow> cell_upd w (cell_of p k))"
    unfolding st using nj by (cases "j = k") (auto split: option.split)
  finally show ?case .
qed simp

lemma cell_squash_new:
  "om_wf xs \<Longrightarrow> cell_of (squash_new xs p) k =
     (case map_of xs k of None \<Rightarrow> cell_of p k | Some v \<Rightarrow> cell_new (cell_of p k))"
proof (induction xs p rule: squash_new.induct)
  case (2 j v items p)
  let ?p = "p\<lparr>new_ids := om_emplace j () (new_ids p)\<rparr>"
  have st: "cell_of ?p k = (if j = k then cell_new (cell_of p k) else cell_of p k)"
    by (auto simp: cell_of_def split: option.splits)
  have wf: "om_wf items" and nj: "map_of items j = None"
    using "2.prems" by (auto simp: map_of_eq_None_iff)
  have "cell_of (squash_new ((j, v) # items) p) k = cell_of (squash_new items ?p) k"
    by (simp only: squash_new.simps)
  also have "\<dots> = (case map_of items k of None \<Rightarrow> cell_of ?p k | Some w \<Rightarrow> cell_new (cell_of ?p k))"
    by (rule "2.IH"[OF wf])
  also have "\<dots> = (case map_of ((j, v) # items) k of None \<Rightarrow> cell_of p k
      | Some w \<Rightarrow> cell_new (cell_of p k))"
    unfolding st using nj by (cases "j = k") (auto split: option.split)
  finally show ?case .
qed simp

lemma cell_squash_removed:
  "om_wf xs \<Longrightarrow> cell_of (squash_removed xs p) k =
     (case map_of xs k of None \<Rightarrow> cell_of p k | Some v \<Rightarrow> cell_del v (cell_of p k))"
proof (induction xs p rule: squash_removed.induct)
  case (2 j v items p)
  let ?p = "if om_find j (new_ids p) \<noteq> None then p\<lparr>new_ids := om_erase j (new_ids p)\<rparr>
     else (case om_find j (old_values p) of
         Some w \<Rightarrow> p\<lparr>removed_values := om_emplace j w (removed_values p),
                     old_values := om_erase j (old_values p)\<rparr>
       | None \<Rightarrow> p\<lparr>removed_values := om_emplace j v (removed_values p)\<rparr>)"
  have st: "cell_of ?p k = (if j = k then cell_del v (cell_of p k) else cell_of p k)"
    by (auto simp: cell_of_def split: option.splits)
  have wf: "om_wf items" and nj: "map_of items j = None"
    using "2.prems" by (auto simp: map_of_eq_None_iff)
  have "cell_of (squash_removed ((j, v) # items) p) k = cell_of (squash_removed items ?p) k"
    by (simp only: squash_removed.simps)
  also have "\<dots> = (case map_of items k of None \<Rightarrow> cell_of ?p k | Some w \<Rightarrow> cell_del w (cell_of ?p k))"
    by (rule "2.IH"[OF wf])
  also have "\<dots> = (case map_of ((j, v) # items) k of None \<Rightarrow> cell_of p k
      | Some w \<Rightarrow> cell_del w (cell_of p k))"
    unfolding st using nj by (cases "j = k") (auto split: option.split)
  finally show ?case .
qed simp

abbreviation undo_maps_wf :: "'v undo_state \<Rightarrow> bool" where
  "undo_maps_wf p \<equiv> om_wf (old_values p) \<and> om_wf (removed_values p) \<and> om_wf (new_ids p)"

lemma squash_old_frame:
  "undo_maps_wf p \<Longrightarrow> undo_maps_wf (squash_old xs p) \<and>
     old_next_id (squash_old xs p) = old_next_id p \<and> u_revision (squash_old xs p) = u_revision p"
  by (induction xs p rule: squash_old.induct) simp_all

lemma squash_new_frame:
  "undo_maps_wf p \<Longrightarrow> undo_maps_wf (squash_new xs p) \<and>
     old_next_id (squash_new xs p) = old_next_id p \<and> u_revision (squash_new xs p) = u_revision p"
  by (induction xs p rule: squash_new.induct) simp_all

lemma squash_removed_frame:
  "undo_maps_wf p \<Longrightarrow> undo_maps_wf (squash_removed xs p) \<and>
     old_next_id (squash_removed xs p) = old_next_id p \<and> u_revision (squash_removed xs p) = u_revision p"
proof (induction xs p rule: squash_removed.induct)
  case (2 k v items p)
  then show ?case by (cases "om_find k (new_ids p)"; cases "om_find k (old_values p)") simp_all
qed simp

lemmas squash_frame = squash_old_frame squash_new_frame squash_removed_frame

definition squash_state :: "'v undo_state \<Rightarrow> 'v undo_state \<Rightarrow> 'v undo_state" where
  "squash_state s p =
     squash_removed (removed_values s) (squash_new (new_ids s) (squash_old (old_values s) p))"

lemma squash_state_cell:
  assumes "undo_wf s m n" and "undo_wf p (restore s m) (old_next_id s)"
  obtains ov rv nw where "cell_of (squash_state s p) k = (ov, rv, nw)"
    "cell_ok ov rv nw (m k) k (old_next_id p) n"
    "restore_cell ov rv nw (m k) = restore p (restore s m) k"
proof -
  have w: "om_wf (old_values s)" "om_wf (removed_values s)" "om_wf (new_ids s)"
    using assms(1) by (simp_all add: undo_wf_def)
  have mono: "old_next_id s \<le> n" "old_next_id p \<le> old_next_id s"
    using assms by (simp_all add: undo_wf_def)
  note cell = cell_squash_removed[OF w(2)] cell_squash_new[OF w(3)] cell_squash_old[OF w(1)]
  have r: "restore p (restore s m) k = restore_cell (om_find k (old_values p))
     (om_find k (removed_values p)) (om_find k (new_ids p)) (restore s m k)"
    by (simp add: restore_def)
  have rs: "restore s m k = restore_cell (om_find k (old_values s))
     (om_find k (removed_values s)) (om_find k (new_ids s)) (m k)"
    by (simp add: restore_def)
  from undo_wf_cell[OF assms(1), of k] undo_wf_cell[OF assms(2), of k]
  have "\<exists>ov rv nw. cell_of (squash_state s p) k = (ov, rv, nw) \<and>
     cell_ok ov rv nw (m k) k (old_next_id p) n \<and>
     restore_cell ov rv nw (m k) = restore p (restore s m) k"
    unfolding squash_state_def r rs
    by (elim cell_cases; use mono in \<open>simp add: cell cell_of_def[of p]\<close>)
  with that show thesis by blast
qed

lemma squash_state_refines:
  assumes "undo_wf s m n" and "undo_wf p (restore s m) (old_next_id s)"
  shows "undo_wf (squash_state s p) m n \<and> restore (squash_state s p) m = restore p (restore s m)
     \<and> old_next_id (squash_state s p) = old_next_id p \<and> u_revision (squash_state s p) = u_revision p"
proof -
  have pw: "undo_maps_wf p" and mono: "old_next_id p \<le> n" using assms by (auto simp: undo_wf_def)
  have f: "old_next_id (squash_state s p) = old_next_id p" "u_revision (squash_state s p) = u_revision p"
    "undo_maps_wf (squash_state s p)"
    using pw unfolding squash_state_def by (simp_all add: squash_frame)
  have "cell_ok (om_find k (old_values (squash_state s p))) (om_find k (removed_values (squash_state s p)))
     (om_find k (new_ids (squash_state s p))) (m k) k (old_next_id p) n" for k
    by (rule squash_state_cell[OF assms, of k]) (simp add: cell_of_def)
  then have "undo_wf (squash_state s p) m n"
    using f mono unfolding undo_wf_def by simp
  moreover have "restore (squash_state s p) m = restore p (restore s m)"
  proof
    fix k
    show "restore (squash_state s p) m k = restore p (restore s m) k"
      by (rule squash_state_cell[OF assms, of k])
         (simp add: cell_of_def restore_def[of "squash_state s p"])
  qed
  ultimately show ?thesis using f by simp
qed

lemma ix_squash_refines:
  assumes "ix_wf g"
  shows "ix_wf (ix_squash g) \<and> ix_abs (ix_squash g) = spec_squash (ix_abs g)"
proof -
  let ?m = "map_of (indices g)"
  consider (none) "stack g = []" | (one) s where "stack g = [s]"
    | (more) s p rest where "stack g = s # p # rest"
    by (cases "stack g" rule: remdups_adj.cases) auto
  then show ?thesis
  proof cases
    case none
    with assms show ?thesis by (simp add: ix_squash_def ix_abs_def)
  next
    case one
    then have "stack_wf [s] ?m (next_id g)" using assms by (simp add: ix_wf_def)
    then have "stack_wf [] ?m (next_id g)"
      unfolding stack_wf.simps(1) using stack_wf_bound by blast
    with one assms show ?thesis
      by (simp add: ix_squash_def ix_abs_def ix_wf_def del: stack_wf.simps)
  next
    case more
    then have "undo_wf s ?m (next_id g)" "undo_wf p (restore s ?m) (old_next_id s)"
      using assms by (auto simp: ix_wf_def)
    from squash_state_refines[OF this] show ?thesis
      using assms more
      by (simp add: ix_squash_def ix_abs_def ix_wf_def squash_state_def[symmetric])
  qed
qed

lemma stack_wf_append: "stack_wf (us @ vs) m n \<Longrightarrow> stack_wf us m n"
proof (induction us arbitrary: m n)
  case Nil
  then show ?case unfolding stack_wf.simps(1) using stack_wf_bound by (metis append_Nil)
next
  case (Cons u us)
  then show ?case by auto
qed

lemma rev_dropWhile_rev:
  obtains ys where "xs = rev (dropWhile P (rev xs)) @ ys" "\<forall>y \<in> set ys. P y"
proof (rule that)
  have "rev xs = takeWhile P (rev xs) @ dropWhile P (rev xs)" by simp
  then have "rev (rev xs) = rev (dropWhile P (rev xs)) @ rev (takeWhile P (rev xs))"
    by (metis rev_append)
  then show "xs = rev (dropWhile P (rev xs)) @ rev (takeWhile P (rev xs))" by simp
  show "\<forall>y \<in> set (rev (takeWhile P (rev xs))). P y" using set_takeWhileD by fastforce
qed

lemma snapshots_append:
  "\<exists>m'. snapshots (us @ vs) m = snapshots us m @ snapshots vs m'"
  by (induction us arbitrary: m) auto

lemma snapshots_rev: "map (\<lambda>s. snd (snd s)) (snapshots us m) = map u_revision us"
  by (induction us arbitrary: m) auto

lemma snapshots_Nil_iff: "snapshots us m = [] \<longleftrightarrow> us = []"
  by (cases us) simp_all

lemma snapshots_last: "us \<noteq> [] \<Longrightarrow> snd (snd (last (snapshots us m))) = u_revision (last us)"
proof (induction us arbitrary: m)
  case (Cons u us)
  then show ?case by (cases us) (simp_all add: snapshots_Nil_iff)
qed simp

lemma dropWhile_rev_split:
  assumes "\<forall>y \<in> set ys. P y" and "xs = [] \<or> \<not> P (last xs)"
  shows "rev (dropWhile P (rev (xs @ ys))) = xs"
proof -
  have "dropWhile P (rev ys @ rev xs) = dropWhile P (rev xs)"
    by (subst dropWhile_append2) (use assms(1) in auto)
  also have "\<dots> = rev xs"
    using assms(2) by (cases xs rule: rev_cases) auto
  finally show ?thesis by simp
qed

lemma ix_commit_refines:
  assumes "ix_wf g"
  shows "ix_wf (ix_commit r g) \<and> ix_abs (ix_commit r g) = spec_commit r (ix_abs g)"
proof -
  let ?m = "map_of (indices g)"
  let ?us = "rev (dropWhile (\<lambda>u. u_revision u \<le> r) (rev (stack g)))"
  obtain vs where vs: "stack g = ?us @ vs" "\<forall>u \<in> set vs. u_revision u \<le> r"
    by (rule rev_dropWhile_rev)
  have "stack_wf ?us ?m (next_id g)"
    using assms stack_wf_append[of ?us vs] vs(1) by (simp add: ix_wf_def)
  moreover obtain m' where sn: "snapshots (stack g) ?m = snapshots ?us ?m @ snapshots vs m'"
    using snapshots_append[of ?us vs ?m] vs(1) by auto
  have last: "?us = [] \<or> \<not> u_revision (last ?us) \<le> r"
    using hd_dropWhile[of "\<lambda>u. u_revision u \<le> r" "rev (stack g)"] by (auto simp: last_rev)
  have "rev (dropWhile (\<lambda>s. snd (snd s) \<le> r) (rev (snapshots (stack g) ?m))) = snapshots ?us ?m"
    unfolding sn
  proof (rule dropWhile_rev_split)
    have "snd (snd s) \<in> u_revision ` set vs" if "s \<in> set (snapshots vs m')" for s
      using that snapshots_rev[of vs m'] by (metis image_eqI list.set_map)
    then show "\<forall>s \<in> set (snapshots vs m'). snd (snd s) \<le> r" using vs(2) by (metis imageE)
    show "snapshots ?us ?m = [] \<or> \<not> snd (snd (last (snapshots ?us ?m))) \<le> r"
      using last snapshots_last[of ?us ?m] snapshots_Nil_iff[of ?us ?m] by argo
  qed
  ultimately show ?thesis using assms by (simp add: ix_wf_def ix_abs_def ix_commit_def)
qed

subsection \<open>The contract of an undoable index\<close>

datatype 'v row_cmd = C_emplace 'v | C_modify int "'v \<Rightarrow> 'v" | C_remove int

fun run_rows ::
  "('v \<Rightarrow> 'g \<Rightarrow> 'e + 'g) \<Rightarrow> (int \<Rightarrow> ('v \<Rightarrow> 'v) \<Rightarrow> 'g \<Rightarrow> 'e + 'g) \<Rightarrow> (int \<Rightarrow> 'g \<Rightarrow> 'e + 'g)
   \<Rightarrow> 'v row_cmd list \<Rightarrow> 'g \<Rightarrow> 'e + 'g" where
  "run_rows em mo re [] g = Inr g"
| "run_rows em mo re (C_emplace v # cs) g = sbind (em v g) (run_rows em mo re cs)"
| "run_rows em mo re (C_modify k f # cs) g = sbind (mo k f g) (run_rows em mo re cs)"
| "run_rows em mo re (C_remove k # cs) g = sbind (re k g) (run_rows em mo re cs)"

locale undo_index =
  fixes inv :: "'g \<Rightarrow> bool"
    and abs_of :: "'g \<Rightarrow> 'v spec_state"
    and emplace :: "'v \<Rightarrow> 'g \<Rightarrow> 'e + 'g"
    and modify :: "int \<Rightarrow> ('v \<Rightarrow> 'v) \<Rightarrow> 'g \<Rightarrow> 'e + 'g"
    and remove :: "int \<Rightarrow> 'g \<Rightarrow> 'e + 'g"
    and start :: "'g \<Rightarrow> 'g"
    and undo :: "'g \<Rightarrow> 'e + 'g"
    and squash :: "'g \<Rightarrow> 'g"
  assumes emplace_ok: "inv g \<Longrightarrow> emplace v g = Inr g' \<Longrightarrow> inv g' \<and> abs_of g' = spec_emplace v (abs_of g)"
    and modify_ok: "inv g \<Longrightarrow> modify k f g = Inr g' \<Longrightarrow> inv g' \<and> abs_of g' = spec_modify k f (abs_of g)"
    and remove_ok: "inv g \<Longrightarrow> remove k g = Inr g' \<Longrightarrow> inv g' \<and> abs_of g' = spec_remove k (abs_of g)"
    and start_ok: "inv g \<Longrightarrow> inv (start g) \<and> (\<exists>r. abs_of (start g) = spec_start r (abs_of g))"
    and undo_ok: "inv g \<Longrightarrow> undo g = Inr g' \<Longrightarrow> inv g' \<and> abs_of g' = spec_undo (abs_of g)"
    and squash_ok: "inv g \<Longrightarrow> inv (squash g) \<and> abs_of (squash g) = spec_squash (abs_of g)"
begin

abbreviation run :: "'v row_cmd list \<Rightarrow> 'g \<Rightarrow> 'e + 'g" where
  "run \<equiv> run_rows emplace modify remove"

lemma run_saved:
  "inv g \<Longrightarrow> run cs g = Inr g' \<Longrightarrow> inv g' \<and> snd (snd (abs_of g')) = snd (snd (abs_of g))"
proof (induction cs arbitrary: g)
  case Nil
  then show ?case by simp
next
  case (Cons c cs)
  show ?case
  proof (cases c)
    case (C_emplace v)
    with Cons.prems obtain h where h: "emplace v g = Inr h" "run cs h = Inr g'"
      by (auto simp: sbind_Inr_iff)
    with emplace_ok[OF Cons.prems(1) h(1)] Cons.IH[of h] show ?thesis
      by (cases "abs_of g") auto
  next
    case (C_modify k f)
    with Cons.prems obtain h where h: "modify k f g = Inr h" "run cs h = Inr g'"
      by (auto simp: sbind_Inr_iff)
    with modify_ok[OF Cons.prems(1) h(1)] Cons.IH[of h] show ?thesis
      by (cases "abs_of g") auto
  next
    case (C_remove k)
    with Cons.prems obtain h where h: "remove k g = Inr h" "run cs h = Inr g'"
      by (auto simp: sbind_Inr_iff)
    with remove_ok[OF Cons.prems(1) h(1)] Cons.IH[of h] show ?thesis
      by (cases "abs_of g") auto
  qed
qed

lemma undo_session:
  assumes "inv g" and "run cs (start g) = Inr g1" and "undo g1 = Inr g2"
  shows "inv g2 \<and> abs_of g2 = abs_of g"
proof -
  obtain r where s: "inv (start g)" "abs_of (start g) = spec_start r (abs_of g)"
    using start_ok[OF assms(1)] by blast
  have 1: "inv g1" "snd (snd (abs_of g1)) = snd (snd (abs_of (start g)))"
    using run_saved[OF s(1) assms(2)] by auto
  have 2: "inv g2" "abs_of g2 = spec_undo (abs_of g1)" using undo_ok[OF 1(1) assms(3)] by auto
  obtain m n ss where g: "abs_of g = (m, n, ss)" by (cases "abs_of g") auto
  have "snd (snd (abs_of g1)) = (m, n, r) # ss" using 1(2) s(2) g by simp
  then show ?thesis using 2 g by (cases "abs_of g1") simp
qed

lemma squashed_session:
  assumes "inv g" and "run cs (start g) = Inr g1" and "run ds (start g1) = Inr g2"
    and "undo (squash g2) = Inr g3"
  shows "inv g3 \<and> abs_of g3 = abs_of g"
proof -
  obtain r where s: "inv (start g)" "abs_of (start g) = spec_start r (abs_of g)"
    using start_ok[OF assms(1)] by blast
  have 1: "inv g1" "snd (snd (abs_of g1)) = snd (snd (abs_of (start g)))"
    using run_saved[OF s(1) assms(2)] by auto
  obtain r' where s': "inv (start g1)" "abs_of (start g1) = spec_start r' (abs_of g1)"
    using start_ok[OF 1(1)] by blast
  have 2: "inv g2" "snd (snd (abs_of g2)) = snd (snd (abs_of (start g1)))"
    using run_saved[OF s'(1) assms(3)] by auto
  have 3: "inv (squash g2)" "abs_of (squash g2) = spec_squash (abs_of g2)" using squash_ok[OF 2(1)] by auto
  have 4: "inv g3" "abs_of g3 = spec_undo (abs_of (squash g2))" using undo_ok[OF 3(1) assms(4)] by auto
  obtain m n ss where g: "abs_of g = (m, n, ss)" by (cases "abs_of g") auto
  have "snd (snd (abs_of g1)) = (m, n, r) # ss" using 1(2) s(2) g by simp
  then have "tl (snd (snd (abs_of g2))) = (m, n, r) # ss" using 2(2) s'(2) by (cases "abs_of g1") simp
  then show ?thesis using 3 4 g by (cases "abs_of g2") simp
qed

end

interpretation ix: undo_index ix_wf ix_abs "ix_emplace clash" "ix_modify clash" ix_remove
  "ix_start_undo_session True" "ix_undo clash" ix_squash for clash
proof unfold_locales
  fix g :: "'a generic_index"
  assume "ix_wf g"
  then show "ix_wf (ix_start_undo_session True g) \<and>
      (\<exists>r. ix_abs (ix_start_undo_session True g) = spec_start r (ix_abs g))"
    using ix_start_refines by blast
qed (erule (1) ix_emplace_refines ix_modify_refines ix_remove_refines ix_undo_refines
    | erule ix_squash_refines)+

subsection \<open>Undo never throws when no keys are handed over\<close>

text \<open>All payloads an id has now or had when the session opened.\<close>

definition versions :: "'v undo_state \<Rightarrow> 'v omap \<Rightarrow> int \<Rightarrow> 'v set" where
  "versions u m k = {v. (k, v) \<in> set m \<or> (k, v) \<in> set (old_values u) \<or> (k, v) \<in> set (removed_values u)}"

definition clash_free :: "('v \<Rightarrow> 'v \<Rightarrow> bool) \<Rightarrow> (int \<Rightarrow> 'v set) \<Rightarrow> bool" where
  "clash_free clash V \<longleftrightarrow> (\<forall>k k' v v'. k \<noteq> k' \<and> v \<in> V k \<and> v' \<in> V k' \<longrightarrow> \<not> clash v v')"

lemma no_conflict:
  assumes "clash_free clash V" and "v \<in> V k" and "\<forall>p \<in> set m. snd p \<in> V (fst p)"
  shows "\<not> conflicts clash k v m"
  using assms unfolding clash_free_def conflicts_def list_ex_iff by metis

lemma undo_old_total:
  assumes "clash_free clash V" and "\<forall>p \<in> set xs. snd p \<in> V (fst p)" and "\<forall>p \<in> set m. snd p \<in> V (fst p)"
  shows "\<exists>m'. undo_old clash xs m = Inr m' \<and> (\<forall>p \<in> set m'. snd p \<in> V (fst p))"
  using assms
proof (induction clash xs m rule: undo_old.induct)
  case (2 clash k v items m)
  have nc: "\<not> conflicts clash k v m" by (rule no_conflict[OF "2.prems"(1) _ "2.prems"(3)]) (use "2.prems"(2) in simp)
  have "\<forall>p \<in> set (om_set k v m). snd p \<in> V (fst p)"
    using "2.prems"(2,3) by (auto simp: om_set_def)
  with "2.IH"[OF nc "2.prems"(1)] "2.prems"(2) nc show ?case by simp
qed simp

lemma undo_removed_total:
  assumes "clash_free clash V" and "\<forall>p \<in> set xs. snd p \<in> V (fst p)" and "\<forall>p \<in> set m. snd p \<in> V (fst p)"
    and "om_wf xs" and "\<And>k. map_of xs k \<noteq> None \<Longrightarrow> map_of m k = None"
  shows "\<exists>m'. undo_removed clash xs m = Inr m'"
  using assms
proof (induction clash xs m rule: undo_removed.induct)
  case (2 clash k v items m)
  have nc: "\<not> conflicts clash k v m" by (rule no_conflict[OF "2.prems"(1) _ "2.prems"(3)]) (use "2.prems"(2) in simp)
  have k: "map_of m k = None" using "2.prems"(5)[of k] by simp
  let ?m = "om_insert k v m"
  have em: "mi_emplace clash k v m = Some ?m" using nc k by (simp add: mi_emplace_def)
  have ik: "map_of items k = None" using "2.prems"(4) by (simp add: map_of_eq_None_iff)
  have "\<exists>m'. undo_removed clash items ?m = Inr m'"
  proof (rule "2.IH"[OF em "2.prems"(1)])
    show "\<forall>p \<in> set items. snd p \<in> V (fst p)" "\<forall>p \<in> set ?m. snd p \<in> V (fst p)" "om_wf items"
      using "2.prems"(2,3,4) by (auto simp: set_om_insert)
    fix j assume j: "map_of items j \<noteq> None"
    then have "j \<noteq> k" using ik by auto
    with j "2.prems"(5)[of j] show "map_of ?m j = None" by (simp add: map_of_om_insert[OF k])
  qed
  with em show ?case by simp
qed simp

lemma set_undo_new: "set (undo_new ids m) \<subseteq> set m"
  by (induction ids m rule: undo_new.induct) (auto simp: om_erase_def)

lemma ix_undo_total:
  assumes "ix_wf g" and "stack g = u # us" and "clash_free clash (versions u (indices g))"
  shows "\<exists>g'. ix_undo clash g = Inr g'"
proof -
  let ?V = "versions u (indices g)" and ?m = "map_of (indices g)"
  have uw: "undo_wf u ?m (next_id g)" using assms(1,2) by (simp add: ix_wf_def)
  have v: "\<forall>p \<in> set (old_values u). snd p \<in> ?V (fst p)" "\<forall>p \<in> set (removed_values u). snd p \<in> ?V (fst p)"
     "\<forall>p \<in> set (indices g). snd p \<in> ?V (fst p)"
    by (auto simp: versions_def)
  obtain m1 where m1: "undo_old clash (old_values u) (indices g) = Inr m1" "\<forall>p \<in> set m1. snd p \<in> ?V (fst p)"
    using undo_old_total[OF assms(3) v(1,3)] by blast
  have "?m k \<noteq> None" if "map_of (old_values u) k \<noteq> None" for k
    using undo_wf_cell[OF uw, of k] that by (cases rule: cell_cases) auto
  from undo_old_map[OF m1(1) _ this] have e1: "map_of m1 = ?m ++ map_of (old_values u)"
    using uw by (simp add: undo_wf_def)
  let ?m2 = "undo_new (new_ids u) m1"
  have "\<exists>m'. undo_removed clash (removed_values u) ?m2 = Inr m'"
  proof (rule undo_removed_total[OF assms(3) v(2)])
    show "\<forall>p \<in> set ?m2. snd p \<in> ?V (fst p)" using m1(2) set_undo_new by blast
    show "om_wf (removed_values u)" using uw by (simp add: undo_wf_def)
    fix k assume "map_of (removed_values u) k \<noteq> None"
    with undo_wf_cell[OF uw, of k] have "map_of m1 k = None"
      by (cases rule: cell_cases) (auto simp: e1 map_add_def)
    then show "map_of ?m2 k = None" using undo_new_map[of "new_ids u" m1] by simp
  qed
  with m1(1) assms(2) show ?thesis by (auto simp: ix_undo_def)
qed

text \<open>Restoring the old payloads throws while a foreign row still holds one of their keys.\<close>

lemma undo_old_throws:
  "(i, v) \<in> set xs \<Longrightarrow> j \<notin> fst ` set xs \<Longrightarrow> (j, w) \<in> set m \<Longrightarrow> clash v w \<Longrightarrow>
   undo_old clash xs m = Inl Logic_error"
proof (induction clash xs m rule: undo_old.induct)
  case (2 clash k x items m)
  show ?case
  proof (cases "conflicts clash k x m")
    case False
    then have "(k, x) \<noteq> (i, v)" using "2.prems" by (force simp: conflicts_def list_ex_iff)
    moreover have "(j, w) \<in> set (om_set k x m)" using "2.prems"(2,3) by (force simp: om_set_def)
    ultimately show ?thesis using "2.IH"[OF False] "2.prems" False by auto
  qed simp
qed simp

text \<open>What the session has recorded about a row that was modified and about one that is new.\<close>

lemma session_modified:
  assumes "undo_wf u m n" and "restore u m k = Some v" and "m k = Some v'" and "v' \<noteq> v"
  shows "om_find k (old_values u) = Some v"
  using undo_wf_cell[OF assms(1), of k] assms(2-4) by (cases rule: cell_cases) (auto simp: restore_def)

lemma session_created:
  assumes "undo_wf u m n" and "restore u m k = None" and "m k = Some w"
  shows "om_find k (old_values u) = None"
  using undo_wf_cell[OF assms(1), of k] assms(2,3) by (cases rule: cell_cases) (auto simp: restore_def)

subsection \<open>Properties\<close>

definition ix_run :: "('v \<Rightarrow> 'v \<Rightarrow> bool) \<Rightarrow> 'v row_cmd list \<Rightarrow> 'v generic_index \<Rightarrow> cb_error + 'v generic_index" where
  "ix_run clash = run_rows (ix_emplace clash) (ix_modify clash) ix_remove"

definition no_keys :: "'v \<Rightarrow> 'v \<Rightarrow> bool" where
  "no_keys v w = False"

text \<open>An index with two rows and no open session, for the witnesses.\<close>

definition ix_sample :: "int generic_index" where
  "ix_sample = \<lparr>stack = [], ix_revision = 7, next_id = 2, indices = [(0, 10), (1, 20)]\<rparr>"

lemma ix_sample_wf: "ix_wf ix_sample"
  by (auto simp: ix_wf_def ix_sample_def split: if_splits)

lemmas ix_eval = ix_run_def ix_emplace_def ix_modify_def ix_remove_def ix_undo_def ix_squash_def
  ix_start_undo_session_def on_create_def on_modify_def on_remove_def mi_emplace_def conflicts_def
  om_emplace_def om_erase_def om_set_def ix_sample_def no_keys_def

text \<open>
  C5.  \<open>generic_index\<close> refines the snapshot specification: each operation keeps the internal
  invariant of the undo deltas and acts on current rows, next id and saved snapshots as the
  specification says (emplace, modify and remove touch current rows only; starting a session
  saves a snapshot; undo goes back to it; squash forgets the newest snapshot; commit forgets the
  oldest ones up to a revision).
\<close>

theorem generic_index_refines:
  assumes "ix_wf g"
  shows "(\<forall>v g'. ix_emplace clash v g = Inr g' \<longrightarrow> ix_wf g' \<and> ix_abs g' = spec_emplace v (ix_abs g))
    \<and> (\<forall>k f g'. ix_modify clash k f g = Inr g' \<longrightarrow> ix_wf g' \<and> ix_abs g' = spec_modify k f (ix_abs g))
    \<and> (\<forall>k g'. ix_remove k g = Inr g' \<longrightarrow> ix_wf g' \<and> ix_abs g' = spec_remove k (ix_abs g))
    \<and> ix_wf (ix_start_undo_session True g)
    \<and> ix_abs (ix_start_undo_session True g) = spec_start (ix_revision g + 1) (ix_abs g)
    \<and> (\<forall>g'. ix_undo clash g = Inr g' \<longrightarrow> ix_wf g' \<and> ix_abs g' = spec_undo (ix_abs g))
    \<and> ix_wf (ix_squash g) \<and> ix_abs (ix_squash g) = spec_squash (ix_abs g)
    \<and> ix_wf (ix_commit r g) \<and> ix_abs (ix_commit r g) = spec_commit r (ix_abs g)"
  using ix_start_refines[OF assms] ix_squash_refines[OF assms] ix_commit_refines[OF assms]
    ix_emplace_refines[OF assms] ix_modify_refines[OF assms] ix_remove_refines[OF assms]
    ix_undo_refines[OF assms]
  by blast

theorem generic_index_refines_witness:
  "ix_wf ix_sample \<and> ix_wf (ix_squash ix_sample) \<and> ix_wf (ix_commit 3 ix_sample)
   \<and> ix_abs (ix_start_undo_session True ix_sample) = spec_start 8 (ix_abs ix_sample)"
  using generic_index_refines[OF ix_sample_wf, of no_keys 3] ix_sample_wf
  by (simp add: ix_sample_def)

text \<open>
  C6.  Undo is exact: open a session, apply any sequence of creations, modifications and
  removals, then undo.  Contents, next id and the saved snapshots of the enclosing sessions are
  those before the session.
\<close>

theorem undo_restores_session:
  assumes "ix_wf g" and "ix_run clash cs (ix_start_undo_session True g) = Inr g1"
    and "ix_undo clash g1 = Inr g2"
  shows "map_of (indices g2) = map_of (indices g) \<and> next_id g2 = next_id g
    \<and> snapshots (stack g2) (map_of (indices g2)) = snapshots (stack g) (map_of (indices g))"
  using ix.undo_session[OF assms(1) assms(2)[unfolded ix_run_def] assms(3)]
  unfolding ix_abs_def by (elim conjE Pair_inject) simp

theorem undo_restores_session_witness:
  "\<exists>g1 g2. ix_run no_keys [C_emplace 30, C_modify 0 (\<lambda>v. v + 1), C_remove 1]
       (ix_start_undo_session True ix_sample) = Inr g1
     \<and> map_of (indices g1) 0 = Some 11 \<and> map_of (indices g1) 1 = None
     \<and> ix_undo no_keys g1 = Inr g2 \<and> map_of (indices g2) = map_of (indices ix_sample)"
proof -
  let ?cs = "[C_emplace 30, C_modify 0 (\<lambda>v. v + 1), C_remove 1] :: int row_cmd list"
  obtain g1 where g1: "ix_run no_keys ?cs (ix_start_undo_session True ix_sample) = Inr g1"
    "map_of (indices g1) 0 = Some 11" "map_of (indices g1) 1 = None"
    and "\<exists>g2. ix_undo no_keys g1 = Inr g2"
    by (simp add: ix_eval)
  then obtain g2 where g2: "ix_undo no_keys g1 = Inr g2" by blast
  from g1 g2 undo_restores_session[OF ix_sample_wf g1(1) g2] show ?thesis by blast
qed

text \<open>
  C7.  Squashing an inner session into the enclosing one and undoing the enclosing one is the
  same as undoing both: the contents go back to the moment the outer session was opened, whatever
  both sessions did (all sixteen combinations of new, updated, deleted and untouched rows).
\<close>

theorem undo_after_squash:
  assumes "ix_wf g" and "ix_run clash cs (ix_start_undo_session True g) = Inr g1"
    and "ix_run clash ds (ix_start_undo_session True g1) = Inr g2"
    and "ix_undo clash (ix_squash g2) = Inr g3"
  shows "map_of (indices g3) = map_of (indices g) \<and> next_id g3 = next_id g
    \<and> snapshots (stack g3) (map_of (indices g3)) = snapshots (stack g) (map_of (indices g))"
  using ix.squashed_session[OF assms(1) assms(2)[unfolded ix_run_def] assms(3)[unfolded ix_run_def] assms(4)]
  unfolding ix_abs_def by (elim conjE Pair_inject) simp

theorem undo_after_squash_witness:
  "\<exists>g1 g2 g3. ix_run no_keys [C_emplace 30, C_modify 0 (\<lambda>v. v + 1)]
       (ix_start_undo_session True ix_sample) = Inr g1
     \<and> ix_run no_keys [C_remove 0, C_remove 2] (ix_start_undo_session True g1) = Inr g2
     \<and> ix_undo no_keys (ix_squash g2) = Inr g3 \<and> map_of (indices g3) = map_of (indices ix_sample)"
proof -
  let ?cs = "[C_emplace 30, C_modify 0 (\<lambda>v. v + 1)] :: int row_cmd list"
  let ?ds = "[C_remove 0, C_remove 2] :: int row_cmd list"
  obtain g1 g2 g3 where g: "ix_run no_keys ?cs (ix_start_undo_session True ix_sample) = Inr g1"
    "ix_run no_keys ?ds (ix_start_undo_session True g1) = Inr g2"
    "ix_undo no_keys (ix_squash g2) = Inr g3"
    by (simp add: ix_eval)
  from g undo_after_squash[OF ix_sample_wf g] show ?thesis by blast
qed

text \<open>
  C11.  Undo does not throw as long as no unique key was handed from one object to another
  during the session: no two different ids have, now or at the start of the session, payloads
  that clash.
\<close>

theorem undo_returns:
  assumes "ix_wf g" and "stack g = u # us" and "clash_free clash (versions u (indices g))"
  shows "\<exists>g'. ix_undo clash g = Inr g' \<and> ix_wf g' \<and> stack g' = us
     \<and> map_of (indices g') = restore u (map_of (indices g))"
proof -
  obtain g' where g': "ix_undo clash g = Inr g'" using ix_undo_total[OF assms] by blast
  have "stack g' = us" using g' assms(2) by (auto simp: ix_undo_def sbind_Inr_iff)
  with g' ix_undo_refines[OF assms(1) g'] assms(2) show ?thesis by (auto simp: ix_abs_def)
qed

theorem undo_returns_witness:
  "\<exists>g'. ix_undo (=) (ix_start_undo_session True ix_sample) = Inr g' \<and> ix_wf g'"
proof -
  let ?g = "ix_start_undo_session True ix_sample"
  have wf: "ix_wf ?g" using ix_start_refines[OF ix_sample_wf] by blast
  have st: "stack ?g = [hd (stack ?g)]" by (simp add: ix_start_undo_session_def ix_sample_def)
  have "clash_free (=) (versions (hd (stack ?g)) (indices ?g))"
    unfolding clash_free_def versions_def ix_start_undo_session_def ix_sample_def by auto
  from undo_returns[OF wf st this] show ?thesis by blast
qed

text \<open>
  C13.  Undo restores the old payloads before it erases the new objects.  So it throws whenever a
  unique key was handed over during the session, whatever else the session did: an older object
  was changed and is still there, and an object created since holds a key of its former payload.
\<close>

theorem undo_key_handover_throws:
  assumes "ix_wf g" and "ix_run clash cs (ix_start_undo_session True g) = Inr g1"
    and "map_of (indices g) i = Some v" and "map_of (indices g1) i = Some v'" and "v' \<noteq> v"
    and "map_of (indices g) j = None" and "map_of (indices g1) j = Some w" and "clash v w"
  shows "ix_undo clash g1 = Inl Logic_error"
proof -
  let ?s = "ix_start_undo_session True g" and ?m = "map_of (indices g1)"
  have s: "ix_wf ?s" "ix_abs ?s = spec_start (ix_revision g + 1) (ix_abs g)"
    using ix_start_refines[OF assms(1)] by blast+
  from ix.run_saved[OF s(1) assms(2)[unfolded ix_run_def]] s(2)
  have g1: "ix_wf g1" "snapshots (stack g1) ?m = (map_of (indices g), next_id g, ix_revision g + 1)
      # snapshots (stack g) (map_of (indices g))"
    by (auto simp: ix_abs_def)
  then obtain u us where u: "stack g1 = u # us" "restore u ?m = map_of (indices g)"
    by (cases "stack g1") auto
  have uw: "undo_wf u ?m (next_id g1)" using g1(1) u(1) by (simp add: ix_wf_def)
  have "(i, v) \<in> set (old_values u)"
    using session_modified[OF uw _ assms(4,5)] u(2) assms(3) by (auto dest: map_of_SomeD)
  moreover have "j \<notin> fst ` set (old_values u)"
    using session_created[OF uw _ assms(7)] u(2) assms(6) by (simp add: map_of_eq_None_iff)
  moreover have "(j, w) \<in> set (indices g1)" using assms(7) by (rule map_of_SomeD)
  ultimately show ?thesis using undo_old_throws[of i v _ j w] assms(8) u(1) by (simp add: ix_undo_def)
qed

theorem undo_key_handover_throws_witness:
  "\<exists>g1. ix_run (=) [C_modify 0 (\<lambda>v. 11), C_emplace 10] (ix_start_undo_session True ix_sample) = Inr g1
     \<and> map_of (indices g1) 0 = Some 11 \<and> map_of (indices g1) 2 = Some 10 \<and> ix_undo (=) g1 = Inl Logic_error"
proof -
  obtain g1 where g1: "ix_run (=) [C_modify 0 (\<lambda>v. 11), C_emplace 10] (ix_start_undo_session True ix_sample) = Inr g1"
    "map_of (indices g1) 0 = Some 11" "map_of (indices g1) 2 = Some 10"
    by (simp add: ix_eval)
  have "map_of (indices ix_sample) 0 = Some 10" "map_of (indices ix_sample) 2 = None"
    by (simp_all add: ix_sample_def)
  from undo_key_handover_throws[OF ix_sample_wf g1(1) this(1) g1(2) _ this(2) g1(3)] g1 show ?thesis by auto
qed

text \<open>
  The revision a database session reports is 0 for every non-empty set of indices: each
  index session is moved into its wrapper and the move constructor drops the revision, while the
  database itself is at the incremented revision.
\<close>

theorem db_session_revision_lost:
  assumes "xs = (c, g) # ys" and "db_start_undo_session True xs = (s, xs')"
  shows "d_revision s = 0 \<and> db_revision xs' = ix_revision g + 1"
  using assms
  by (auto simp: db_start_undo_session_def impl_start_undo_session_def session_move_def
        db_revision_def ix_start_undo_session_def Let_def)

theorem db_session_revision_lost_witness:
  "d_revision (fst (db_start_undo_session True [(no_keys, ix_sample)])) = 0
   \<and> db_revision (snd (db_start_undo_session True [(no_keys, ix_sample)])) = 8"
  using db_session_revision_lost[of "[(no_keys, ix_sample)]" no_keys ix_sample "[]"
      "fst (db_start_undo_session True [(no_keys, ix_sample)])"
      "snd (db_start_undo_session True [(no_keys, ix_sample)])"]
  by (simp add: ix_sample_def)

text \<open>
  C12.  The database undoes all of its indices: when every index has run its own row operations
  since the session was opened, \<open>database::undo\<close> brings each back to its contents before.
\<close>

theorem db_undo_restores:
  assumes "list_all2 (\<lambda>x y. fst x = fst y \<and> ix_wf (snd x) \<and>
      (\<exists>cs. ix_run (fst x) cs (ix_start_undo_session True (snd x)) = Inr (snd y))) xs ys"
    and "db_undo ys = Inr zs"
  shows "list_all2 (\<lambda>x z. map_of (indices (snd z)) = map_of (indices (snd x))
      \<and> next_id (snd z) = next_id (snd x)) xs zs"
  using assms
proof (induction xs ys arbitrary: zs rule: list_all2_induct)
  case Nil
  then show ?case by simp
next
  case (Cons x xs y ys)
  obtain c g h where x: "x = (c, g)" and y: "y = (c, h)" using Cons.hyps(1) by (cases x; cases y) auto
  obtain h' zs' where h: "ix_undo c h = Inr h'" "db_undo ys = Inr zs'" "zs = (c, h') # zs'"
    using Cons.prems y by (auto simp: sbind_Inr_iff)
  obtain cs where "ix_wf g" "ix_run c cs (ix_start_undo_session True g) = Inr h"
    using Cons.hyps(1) x y by auto
  from ix.undo_session[OF this(1) this(2)[unfolded ix_run_def] h(1)]
  have "map_of (indices h') = map_of (indices g) \<and> next_id h' = next_id g" by (simp add: ix_abs_def)
  with Cons.IH[OF h(2)] h(3) x show ?case by simp
qed

theorem db_undo_restores_witness:
  "\<exists>h zs. ix_run no_keys [C_remove 1] (ix_start_undo_session True ix_sample) = Inr h
     \<and> db_undo [(no_keys, h)] = Inr zs
     \<and> list_all2 (\<lambda>x z. map_of (indices (snd z)) = map_of (indices (snd x))
          \<and> next_id (snd z) = next_id (snd x)) [(no_keys :: int \<Rightarrow> int \<Rightarrow> bool, ix_sample)] zs"
proof -
  obtain h where h: "ix_run no_keys [C_remove 1] (ix_start_undo_session True ix_sample) = Inr h"
    and "\<exists>zs. db_undo [(no_keys, h)] = Inr zs"
    by (simp add: ix_eval)
  then obtain zs where zs: "db_undo [(no_keys, h)] = Inr zs" by blast
  have "list_all2 (\<lambda>x y. fst x = fst y \<and> ix_wf (snd x) \<and>
      (\<exists>cs. ix_run (fst x) cs (ix_start_undo_session True (snd x)) = Inr (snd y)))
      [(no_keys, ix_sample)] [(no_keys, h)]"
    using h ix_sample_wf by auto
  from db_undo_restores[OF this zs] h zs show ?thesis by blast
qed

end
