(* ===== verification/Authority.thy ===== *)
theory Authority
  imports Fc "HOL-Library.AList" "HOL-Library.Sublist"
begin

text \<open>
  Account names, authorities and signature checking
  (\<open>libraries/protocol/authority.cpp\<close>, \<open>libraries/protocol/sign_state.cpp\<close>).

  A \<open>flat_map\<close> is the list of its entries.  An \<open>authority_getter\<close> may throw (the account does not
  exist), so it returns an option.  A public key is an opaque number.

  Shown here: the name checker accepts exactly the documented grammar, and \<open>check_authority\<close>
  accepts only authorities that are backed, through any chain of accounts, by signatures and
  prior approvals whose weights reach the threshold.
\<close>

type_synonym account_name_type = string
type_synonym public_key_type = nat
type_synonym weight_type = nat

record authority =
  weight_threshold :: nat
  account_auths :: "(account_name_type \<times> weight_type) list"
  key_auths :: "(public_key_type \<times> weight_type) list"

definition MIN_ACCOUNT_NAME_LENGTH :: nat where "MIN_ACCOUNT_NAME_LENGTH = 3"
definition MAX_ACCOUNT_NAME_LENGTH :: nat where "MAX_ACCOUNT_NAME_LENGTH = 16"
definition MAX_SIG_CHECK_DEPTH :: nat where "MAX_SIG_CHECK_DEPTH = 2"

subsection \<open>Account names\<close>

definition is_lower_letter :: "char \<Rightarrow> bool" where
  "is_lower_letter c \<longleftrightarrow> 97 \<le> (of_char c :: nat) \<and> (of_char c :: nat) \<le> 122"

definition is_digit :: "char \<Rightarrow> bool" where
  "is_digit c \<longleftrightarrow> 48 \<le> (of_char c :: nat) \<and> (of_char c :: nat) \<le> 57"

text \<open>One round of the loop on the text from \<open>begin\<close> to the next dot, then the rest.\<close>

definition label_ok :: "string \<Rightarrow> bool" where
  "label_ok l \<longleftrightarrow>
     \<not> length l < MIN_ACCOUNT_NAME_LENGTH \<and>
     is_lower_letter (l ! 0) \<and>
     (is_lower_letter (l ! (length l - 1)) \<or> is_digit (l ! (length l - 1))) \<and>
     list_all (\<lambda>c. is_lower_letter c \<or> is_digit c \<or> c = CHR ''-'') (butlast (tl l))"

function label_loop :: "string \<Rightarrow> bool" where
  "label_loop rest =
     (let l = takeWhile (\<lambda>c. c \<noteq> CHR ''.'') rest in
      if \<not> label_ok l then False
      else if length l = length rest then True
      else label_loop (drop (length l + 1) rest))"
  by auto

termination
  by (relation "measure length")
     (auto, metis length_takeWhile_le le_neq_implies_less diff_less gr0I less_zeroE zero_less_Suc)

declare label_loop.simps [simp del]

definition is_valid_account_name :: "string \<Rightarrow> bool" where
  "is_valid_account_name name =
     (if length name < MIN_ACCOUNT_NAME_LENGTH then False
      else if length name > MAX_ACCOUNT_NAME_LENGTH then False
      else label_loop name)"

text \<open>The documented grammar: labels separated by dots, each a letter, then letters, digits and
  hyphens, then a letter or digit, three characters at least.\<close>

definition name_label :: "string \<Rightarrow> bool" where
  "name_label l \<longleftrightarrow> (\<exists>a m z. l = a # m @ [z] \<and> m \<noteq> [] \<and> is_lower_letter a \<and>
     (is_lower_letter z \<or> is_digit z) \<and>
     (\<forall>c \<in> set m. is_lower_letter c \<or> is_digit c \<or> c = CHR ''-''))"

fun join_dots :: "string list \<Rightarrow> string" where
  "join_dots [] = []"
| "join_dots [l] = l"
| "join_dots (l # ls) = l @ CHR ''.'' # join_dots ls"

definition name_grammar :: "string \<Rightarrow> bool" where
  "name_grammar s \<longleftrightarrow> (\<exists>ls. ls \<noteq> [] \<and> (\<forall>l \<in> set ls. name_label l) \<and> s = join_dots ls)"

lemma label_ok_iff: "label_ok l \<longleftrightarrow> name_label l"
proof
  assume ok: "label_ok l"
  then have len: "3 \<le> length l" by (simp add: label_ok_def MIN_ACCOUNT_NAME_LENGTH_def)
  then obtain a t where l1: "l = a # t" "t \<noteq> []" by (cases l) fastforce+
  then obtain m z where l2: "t = m @ [z]" by (cases t rule: rev_cases) auto
  have "m \<noteq> []" using len l1 l2 by auto
  then show "name_label l"
    using ok l1 l2 unfolding name_label_def label_ok_def
    by (intro exI[of _ a] exI[of _ m] exI[of _ z]) (auto simp: list_all_iff nth_append)
next
  assume "name_label l"
  then obtain a m z where "l = a # m @ [z]" "m \<noteq> []" "is_lower_letter a"
    "is_lower_letter z \<or> is_digit z" "\<forall>c \<in> set m. is_lower_letter c \<or> is_digit c \<or> c = CHR ''-''"
    unfolding name_label_def by (elim exE conjE)
  moreover have "length l = Suc (Suc (length m))" "l ! 0 = a" "l ! (length l - 1) = z"
    "butlast (tl l) = m" "0 < length m"
    using calculation(1,2) by (simp_all add: nth_append)
  ultimately show "label_ok l"
    by (simp add: label_ok_def MIN_ACCOUNT_NAME_LENGTH_def list_all_iff)
qed

lemma name_label_no_dot: "name_label l \<Longrightarrow> CHR ''.'' \<notin> set l"
proof
  have nd: "\<not> is_lower_letter (CHR ''.'')" "\<not> is_digit (CHR ''.'')" "CHR ''.'' \<noteq> CHR ''-''"
    by (auto simp: is_lower_letter_def is_digit_def)
  assume "name_label l" "CHR ''.'' \<in> set l"
  then show False using nd unfolding name_label_def by auto
qed

lemma takeWhile_label:
  "CHR ''.'' \<notin> set l \<Longrightarrow> takeWhile (\<lambda>c. c \<noteq> CHR ''.'') (l @ CHR ''.'' # r) = l"
  "CHR ''.'' \<notin> set l \<Longrightarrow> takeWhile (\<lambda>c. c \<noteq> CHR ''.'') l = l"
  by (induction l) auto

lemma label_loop_join:
  "ls \<noteq> [] \<Longrightarrow> (\<forall>l \<in> set ls. name_label l) \<Longrightarrow> label_loop (join_dots ls)"
proof (induction ls rule: join_dots.induct)
  case (2 l)
  then show ?case
    by (subst label_loop.simps) (simp add: takeWhile_label name_label_no_dot label_ok_iff)
next
  case (3 l k ls)
  then have nd: "CHR ''.'' \<notin> set l" by (simp add: name_label_no_dot)
  with 3 show ?case
    by (subst label_loop.simps) (simp add: takeWhile_label label_ok_iff Let_def)
qed simp

lemma label_loop_grammar: "label_loop s \<Longrightarrow> name_grammar s"
proof (induction s rule: label_loop.induct)
  case (1 s)
  define l where "l = takeWhile (\<lambda>c. c \<noteq> CHR ''.'') s"
  have s: "s = l @ dropWhile (\<lambda>c. c \<noteq> CHR ''.'') s" by (simp add: l_def)
  from 1(2) have ok: "name_label l" and
    rest: "length l = length s \<or> label_loop (drop (length l + 1) s)"
    by (subst (asm) label_loop.simps; auto simp: Let_def l_def label_ok_iff split: if_splits)+
  show ?case
  proof (cases "length l = length s")
    case True
    then have "s = l" using s by (metis append_eq_conv_conj append_Nil2 take_all order_refl)
    then show ?thesis using ok unfolding name_grammar_def by (intro exI[of _ "[l]"]) simp
  next
    case False
    with rest have r: "label_loop (drop (length l + 1) s)" by simp
    from False s obtain d r' where d: "dropWhile (\<lambda>c. c \<noteq> CHR ''.'') s = d # r'"
      by (cases "dropWhile (\<lambda>c. c \<noteq> CHR ''.'') s") auto
    then have "d = CHR ''.''" by (metis (full_types) hd_dropWhile list.sel(1) list.discI)
    then have s': "s = l @ CHR ''.'' # r'" using s d by simp
    then have "drop (length l + 1) s = r'" by simp
    with 1(1)[of l] ok False r have "name_grammar r'" by (simp add: l_def label_ok_iff)
    then obtain ls where ls: "ls \<noteq> []" "\<forall>l \<in> set ls. name_label l" "r' = join_dots ls"
      unfolding name_grammar_def by blast
    then have "join_dots (l # ls) = s" using s' by (cases ls) auto
    with ls ok show ?thesis unfolding name_grammar_def by (intro exI[of _ "l # ls"]) auto
  qed
qed

text \<open>
  C15. The name checker accepts a string exactly when its length is between 3 and 16 and it is a
  dot-separated sequence of labels of the documented grammar.
\<close>

theorem is_valid_account_name_grammar:
  "is_valid_account_name s \<longleftrightarrow> 3 \<le> length s \<and> length s \<le> 16 \<and> name_grammar s"
proof -
  have "label_loop s \<longleftrightarrow> name_grammar s"
    using label_loop_grammar label_loop_join unfolding name_grammar_def by blast
  then show ?thesis
    by (auto simp: is_valid_account_name_def MIN_ACCOUNT_NAME_LENGTH_def MAX_ACCOUNT_NAME_LENGTH_def)
qed


subsection \<open>Authorities\<close>

definition add_key_authority :: "public_key_type \<Rightarrow> weight_type \<Rightarrow> authority \<Rightarrow> authority" where
  "add_key_authority k w a = a\<lparr>key_auths := AList.update k w (key_auths a)\<rparr>"

definition add_account_authority :: "account_name_type \<Rightarrow> weight_type \<Rightarrow> authority \<Rightarrow> authority" where
  "add_account_authority k w a = a\<lparr>account_auths := AList.update k w (account_auths a)\<rparr>"

definition get_keys :: "authority \<Rightarrow> public_key_type list" where
  "get_keys a = map fst (key_auths a)"

definition is_impossible :: "authority \<Rightarrow> bool" where
  "is_impossible a \<longleftrightarrow>
     (foldl (\<lambda>acc x. (acc + snd x) mod 2 ^ 64)
        (foldl (\<lambda>acc x. (acc + snd x) mod 2 ^ 64) 0 (account_auths a)) (key_auths a))
     < weight_threshold a"

definition num_auths :: "authority \<Rightarrow> nat" where
  "num_auths a = (length (account_auths a) + length (key_auths a)) mod 2 ^ 32"

definition authority_clear :: "authority \<Rightarrow> authority" where
  "authority_clear a = a\<lparr>account_auths := [], key_auths := []\<rparr>"

definition authority_validate :: "authority \<Rightarrow> unit option" where
  "authority_validate a =
     FC_ASSERT (list_all (\<lambda>item. is_valid_account_name (fst item)) (account_auths a))"

definition authority_eq :: "authority \<Rightarrow> authority \<Rightarrow> bool" where
  "authority_eq a b \<longleftrightarrow> weight_threshold a = weight_threshold b \<and>
     account_auths a = account_auths b \<and> key_auths a = key_auths b"

definition add_authority_accounts :: "account_name_type set \<Rightarrow> authority \<Rightarrow> account_name_type set" where
  "add_authority_accounts result a = result \<union> set (map fst (account_auths a))"

subsection \<open>Checking signatures\<close>

record sign_state =
  get_active :: "account_name_type \<Rightarrow> authority option"
  available_keys :: "public_key_type list"
  provided_signatures :: "(public_key_type \<times> bool) list"
  approved_by :: "account_name_type list"
  max_recursion :: nat

definition sign_state_make ::
  "public_key_type list \<Rightarrow> (account_name_type \<Rightarrow> authority option) \<Rightarrow> public_key_type list \<Rightarrow> sign_state" where
  "sign_state_make sigs a keys =
     \<lparr>get_active = a, available_keys = keys, provided_signatures = map (\<lambda>k. (k, False)) sigs,
      approved_by = [''temp''], max_recursion = MAX_SIG_CHECK_DEPTH\<rparr>"

definition signed_by :: "public_key_type \<Rightarrow> sign_state \<Rightarrow> sign_state \<times> bool" where
  "signed_by k s =
     (case map_of (provided_signatures s) k of
        None \<Rightarrow>
          if k \<in> set (available_keys s)
          then (s\<lparr>provided_signatures := AList.update k True (provided_signatures s)\<rparr>, True)
          else (s, False)
      | Some _ \<Rightarrow> (s\<lparr>provided_signatures := AList.update k True (provided_signatures s)\<rparr>, True))"

text \<open>The two loops of \<open>check_authority\<close>.  The third component of the result says that the
  function returned from inside the loop; \<open>total_weight\<close> is a \<open>uint32_t\<close>.\<close>

fun check_keys ::
  "nat \<Rightarrow> (public_key_type \<times> weight_type) list \<Rightarrow> nat \<Rightarrow> sign_state \<Rightarrow> sign_state \<times> nat \<times> bool" where
  "check_keys thr [] tw s = (s, tw, False)"
| "check_keys thr ((k, w) # ks) tw s =
     (let (s', b) = signed_by k s in
      if b then
        let tw' = (tw + w) mod 2 ^ 32 in
        if tw' \<ge> thr then (s', tw', True) else check_keys thr ks tw' s'
      else check_keys thr ks tw s')"

fun check_accounts ::
  "(authority \<Rightarrow> sign_state \<Rightarrow> (sign_state \<times> bool) option) option \<Rightarrow> nat \<Rightarrow>
   (account_name_type \<times> weight_type) list \<Rightarrow> nat \<Rightarrow> sign_state \<Rightarrow> (sign_state \<times> nat \<times> bool) option" where
  "check_accounts rec thr [] tw s = Some (s, tw, False)"
| "check_accounts rec thr ((a, w) # as) tw s =
     (if a \<notin> set (approved_by s) then
        case rec of
          None \<Rightarrow> check_accounts rec thr as tw s
        | Some check \<Rightarrow> do {
            auth \<leftarrow> get_active s a;
            (s', b) \<leftarrow> check auth s;
            if b then
              let s'' = s'\<lparr>approved_by := List.insert a (approved_by s')\<rparr>;
                  tw' = (tw + w) mod 2 ^ 32 in
              if tw' \<ge> thr then Some (s'', tw', True)
              else check_accounts rec thr as tw' s''
            else check_accounts rec thr as tw s' }
      else
        let tw' = (tw + w) mod 2 ^ 32 in
        if tw' \<ge> thr then Some (s, tw', True)
        else check_accounts rec thr as tw' s)"

definition check_authority_body ::
  "(authority \<Rightarrow> sign_state \<Rightarrow> (sign_state \<times> bool) option) option \<Rightarrow>
   authority \<Rightarrow> sign_state \<Rightarrow> (sign_state \<times> bool) option" where
  "check_authority_body rec auth s =
     (let (s1, tw, done) = check_keys (weight_threshold auth) (key_auths auth) 0 s in
      if done then Some (s1, True)
      else do {
        (s2, tw', done') \<leftarrow> check_accounts rec (weight_threshold auth) (account_auths auth) tw s1;
        if done' then Some (s2, True) else Some (s2, tw' \<ge> weight_threshold auth) })"

text \<open>\<open>check_authority_at n\<close> is \<open>check_authority\<close> at \<open>depth = max_recursion - n\<close>: the recursion
  stops where the depth reaches \<open>max_recursion\<close>.\<close>

primrec check_authority_at :: "nat \<Rightarrow> authority \<Rightarrow> sign_state \<Rightarrow> (sign_state \<times> bool) option" where
  "check_authority_at 0 = check_authority_body None"
| "check_authority_at (Suc n) = check_authority_body (Some (check_authority_at n))"

definition check_authority :: "authority \<Rightarrow> sign_state \<Rightarrow> (sign_state \<times> bool) option" where
  "check_authority auth s = check_authority_at (max_recursion s) auth s"

definition check_authority_id :: "account_name_type \<Rightarrow> sign_state \<Rightarrow> (sign_state \<times> bool) option" where
  "check_authority_id i s =
     (if i \<in> set (approved_by s) then Some (s, True)
      else do { a \<leftarrow> get_active s i; check_authority a s })"

definition remove_unused_signatures :: "sign_state \<Rightarrow> sign_state \<times> bool" where
  "remove_unused_signatures s =
     (let remove_sigs = filter (\<lambda>x. \<not> snd x) (provided_signatures s) in
      (s\<lparr>provided_signatures := filter snd (provided_signatures s)\<rparr>, remove_sigs \<noteq> []))"

text \<open>What a satisfied authority means, without depth, order or caching: some of its keys signed,
  some of its accounts are approved or have a satisfied authority, and the weights suffice.\<close>

inductive authorised ::
  "(account_name_type \<Rightarrow> authority option) \<Rightarrow> public_key_type set \<Rightarrow> account_name_type set \<Rightarrow>
   authority \<Rightarrow> bool" for get keys appr where
  authorisedI: "\<lbrakk> subseq ks (key_auths a); \<forall>k \<in> set ks. fst k \<in> keys;
      subseq as (account_auths a);
      \<forall>x \<in> set as. fst x \<in> appr \<or> (\<exists>au. get (fst x) = Some au \<and> authorised get keys appr au);
      weight_threshold a \<le> sum_list (map snd ks) + sum_list (map snd as) \<rbrakk>
    \<Longrightarrow> authorised get keys appr a"

definition approved :: "(account_name_type \<Rightarrow> authority option) \<Rightarrow> public_key_type set \<Rightarrow>
  account_name_type set \<Rightarrow> account_name_type \<Rightarrow> bool" where
  "approved get keys appr x \<longleftrightarrow>
     x \<in> appr \<or> (\<exists>au. get x = Some au \<and> authorised get keys appr au)"

definition sign_inv :: "(account_name_type \<Rightarrow> authority option) \<Rightarrow> public_key_type set \<Rightarrow>
  account_name_type set \<Rightarrow> sign_state \<Rightarrow> bool" where
  "sign_inv get keys appr s \<longleftrightarrow>
     get_active s = get \<and> set (available_keys s) \<subseteq> keys \<and>
     fst ` set (provided_signatures s) \<subseteq> keys \<and>
     (\<forall>x \<in> set (approved_by s). approved get keys appr x)"

lemma sign_inv_provide:
  assumes "sign_inv get keys appr s" "k \<in> keys"
  shows "sign_inv get keys appr (s\<lparr>provided_signatures := AList.update k v (provided_signatures s)\<rparr>)"
proof -
  have "fst ` set (AList.update k v (provided_signatures s)) \<subseteq> keys"
    using assms unfolding dom_update sign_inv_def by (simp add: insert_subset)
  with assms(1) show ?thesis by (simp add: sign_inv_def del: image_subset_iff)
qed

lemma signed_by_sound:
  assumes "sign_inv get keys appr s" "signed_by k s = (s', b)"
  shows "sign_inv get keys appr s' \<and> (b \<longrightarrow> k \<in> keys)"
proof (cases "map_of (provided_signatures s) k")
  case None
  have "k \<in> keys" if "k \<in> set (available_keys s)" using assms(1) that by (auto simp: sign_inv_def)
  with None assms sign_inv_provide[OF assms(1)] show ?thesis
    by (auto simp: signed_by_def split: if_splits)
next
  case (Some v)
  then have "k \<in> fst ` set (provided_signatures s)" by (force dest: map_of_SomeD)
  then have "k \<in> keys" using assms(1) by (auto simp: sign_inv_def)
  with Some assms sign_inv_provide[OF assms(1)] show ?thesis by (auto simp: signed_by_def)
qed

lemma check_keys_sound:
  assumes "sign_inv get keys appr s" "check_keys thr ks tw s = (s', t, d)"
  shows "sign_inv get keys appr s' \<and> (d \<longrightarrow> thr \<le> t) \<and>
    (\<exists>js. subseq js ks \<and> (\<forall>k \<in> set js. fst k \<in> keys) \<and> t \<le> tw + sum_list (map snd js))"
  using assms
proof (induction ks arbitrary: tw s)
  case Nil
  then show ?case by auto
next
  case (Cons x ks)
  obtain k w where x: "x = (k, w)" by (cases x)
  obtain s1 b where sb: "signed_by k s = (s1, b)" by (cases "signed_by k s") auto
  from signed_by_sound[OF Cons(2) sb] have inv: "sign_inv get keys appr s1" and k: "b \<Longrightarrow> k \<in> keys"
    by auto
  define u where "u = (tw + w) mod 2 ^ 32"
  have u: "u \<le> tw + w" by (simp add: u_def mod_less_eq_dividend)
  consider (hit) "b" "thr \<le> u" "(s', t, d) = (s1, u, True)"
    | (more) "b" "\<not> thr \<le> u" "check_keys thr ks u s1 = (s', t, d)"
    | (skip) "\<not> b" "check_keys thr ks tw s1 = (s', t, d)"
    using Cons(3) sb x by (auto simp: Let_def u_def split: if_splits)
  then show ?case
  proof cases
    case hit
    then show ?thesis using inv k u x by (intro conjI exI[of _ "[(k, w)]"]) auto
  next
    case more
    from Cons(1)[OF inv more(3)] obtain js where
      "subseq js ks" "\<forall>k \<in> set js. fst k \<in> keys" "t \<le> u + sum_list (map snd js)"
      "sign_inv get keys appr s'" "d \<longrightarrow> thr \<le> t"
      by auto
    then show ?thesis using k[OF more(1)] u x by (intro conjI exI[of _ "(k, w) # js"]) auto
  next
    case skip
    from Cons(1)[OF inv skip(2)] x show ?thesis by (meson list_emb_Cons)
  qed
qed

text \<open>The contract of the recursive call, and the account loop under it.\<close>

definition check_sound :: "(account_name_type \<Rightarrow> authority option) \<Rightarrow> public_key_type set \<Rightarrow>
  account_name_type set \<Rightarrow> (authority \<Rightarrow> sign_state \<Rightarrow> (sign_state \<times> bool) option) \<Rightarrow> bool" where
  "check_sound get keys appr check \<longleftrightarrow>
     (\<forall>auth s s' b. sign_inv get keys appr s \<longrightarrow> check auth s = Some (s', b) \<longrightarrow>
        sign_inv get keys appr s' \<and> (b \<longrightarrow> authorised get keys appr auth))"

lemma check_accounts_sound:
  assumes "sign_inv get keys appr s" "check_accounts rec thr as tw s = Some (s', t, d)"
    and "\<And>check. rec = Some check \<Longrightarrow> check_sound get keys appr check"
  shows "sign_inv get keys appr s' \<and> (d \<longrightarrow> thr \<le> t) \<and>
    (\<exists>bs. subseq bs as \<and> (\<forall>x \<in> set bs. approved get keys appr (fst x)) \<and>
          t \<le> tw + sum_list (map snd bs))"
  using assms(1,2)
proof (induction as arbitrary: tw s)
  case Nil
  then show ?case by auto
next
  case (Cons x as)
  obtain a w where x: "x = (a, w)" by (cases x)
  define u where "u = (tw + w) mod 2 ^ 32"
  have u: "u \<le> tw + w" by (simp add: u_def mod_less_eq_dividend)
  have take: ?case
    if inv: "sign_inv get keys appr s1" and ap: "approved get keys appr a"
      and res: "(if u \<ge> thr then Some (s1, u, True) else check_accounts rec thr as u s1)
                  = Some (s', t, d)" for s1
  proof (cases "u \<ge> thr")
    case True
    with res inv ap u x show ?thesis by (intro conjI exI[of _ "[(a, w)]"]) auto
  next
    case False
    with res have "check_accounts rec thr as u s1 = Some (s', t, d)" by simp
    from Cons(1)[OF inv this] obtain bs where "subseq bs as" "t \<le> u + sum_list (map snd bs)"
      "\<forall>x \<in> set bs. approved get keys appr (fst x)" "sign_inv get keys appr s'" "d \<longrightarrow> thr \<le> t"
      by auto
    then show ?thesis using ap u x by (intro conjI exI[of _ "(a, w) # bs"]) auto
  qed
  have skip: ?case if "sign_inv get keys appr s1" "check_accounts rec thr as tw s1 = Some (s', t, d)"
    for s1
    using Cons(1)[OF that] by (meson list_emb_Cons)
  show ?case
  proof (cases "a \<in> set (approved_by s)")
    case True
    then have "approved get keys appr a" using Cons(2) by (auto simp: sign_inv_def)
    moreover from Cons(3) True x
    have "(if u \<ge> thr then Some (s, u, True) else check_accounts rec thr as u s) = Some (s', t, d)"
      by (auto simp: u_def Let_def)
    ultimately show ?thesis by (rule take[OF Cons(2)])
  next
    case False
    show ?thesis
    proof (cases rec)
      case None
      then show ?thesis using skip[OF Cons(2)] Cons(3) False x by simp
    next
      case (Some check)
      with Cons(3) False x obtain auth s1 b where
        g: "get_active s a = Some auth" and c: "check auth s = Some (s1, b)" and
        r: "(if b then
               (let s'' = s1\<lparr>approved_by := List.insert a (approved_by s1)\<rparr>;
                    tw' = (tw + w) mod 2 ^ 32 in
                if tw' \<ge> thr then Some (s'', tw', True) else check_accounts rec thr as tw' s'')
             else check_accounts rec thr as tw s1) = Some (s', t, d)"
        by (auto simp: bind_Some_iff)
      from assms(3)[OF Some] Cons(2) c have inv1: "sign_inv get keys appr s1"
        and au: "b \<Longrightarrow> authorised get keys appr auth"
        by (auto simp: check_sound_def)
      show ?thesis
      proof (cases b)
        case True
        have ap: "approved get keys appr a"
          using au[OF True] g Cons(2) by (auto simp: approved_def sign_inv_def)
        then have "sign_inv get keys appr (s1\<lparr>approved_by := List.insert a (approved_by s1)\<rparr>)"
          using inv1 by (auto simp: sign_inv_def)
        moreover note ap
        moreover from r True have "(if u \<ge> thr
            then Some (s1\<lparr>approved_by := List.insert a (approved_by s1)\<rparr>, u, True)
            else check_accounts rec thr as u (s1\<lparr>approved_by := List.insert a (approved_by s1)\<rparr>))
              = Some (s', t, d)"
          by (simp only: Let_def u_def if_True)
        ultimately show ?thesis by (rule take)
      next
        case False
        then show ?thesis using skip[OF inv1] r by simp
      qed
    qed
  qed
qed

lemma check_body_sound:
  assumes "\<And>check. rec = Some check \<Longrightarrow> check_sound get keys appr check"
  shows "check_sound get keys appr (check_authority_body rec)"
  unfolding check_sound_def
proof (intro allI impI)
  fix auth s s' b
  assume inv: "sign_inv get keys appr s"
    and res: "check_authority_body rec auth s = Some (s', b)"
  let ?thr = "weight_threshold auth"
  obtain s1 t d where ck: "check_keys ?thr (key_auths auth) 0 s = (s1, t, d)"
    by (cases "check_keys ?thr (key_auths auth) 0 s") auto
  from check_keys_sound[OF inv ck] obtain js where
    inv1: "sign_inv get keys appr s1" and d: "d \<longrightarrow> ?thr \<le> t" and
    js: "subseq js (key_auths auth)" "\<forall>k \<in> set js. fst k \<in> keys" "t \<le> sum_list (map snd js)"
    by auto
  show "sign_inv get keys appr s' \<and> (b \<longrightarrow> authorised get keys appr auth)"
  proof (cases d)
    case True
    have "authorised get keys appr auth"
      using js d True by (intro authorisedI[of js _ keys "[]"]) auto
    then show ?thesis using res ck True inv1 by (simp add: check_authority_body_def)
  next
    case False
    with res ck obtain s2 t2 d2 where
      ca: "check_accounts rec ?thr (account_auths auth) t s1 = Some (s2, t2, d2)"
      and s': "s' = s2" and b: "b = (d2 \<or> ?thr \<le> t2)"
      by (auto simp: check_authority_body_def bind_Some_iff split: if_splits)
    from check_accounts_sound[OF inv1 ca assms] obtain bs where
      "sign_inv get keys appr s2" "d2 \<longrightarrow> ?thr \<le> t2" "subseq bs (account_auths auth)"
      "\<forall>x \<in> set bs. approved get keys appr (fst x)" "t2 \<le> t + sum_list (map snd bs)"
      by blast
    then show ?thesis using js s' b
      by (auto intro!: authorisedI[of js _ keys bs] simp: approved_def)
  qed
qed

lemma check_authority_at_sound: "check_sound get keys appr (check_authority_at n)"
  by (induction n) (auto intro: check_body_sound)

text \<open>
  C4. \<open>check_authority\<close> is sound: when it accepts, the authority is satisfied by the provided and
  available keys and the names approved beforehand, through nested authorities of whatever depth.
  The depth limit, the caching of approved accounts and the wrap-around of the 32-bit weight counter
  never make it accept more; how deep it looks is not part of the claim.
\<close>

theorem check_authority_sound:
  assumes "check_authority auth s = Some (s', True)"
  shows "authorised (get_active s)
           (fst ` set (provided_signatures s) \<union> set (available_keys s)) (set (approved_by s)) auth"
proof -
  let ?K = "fst ` set (provided_signatures s) \<union> set (available_keys s)"
  have "sign_inv (get_active s) ?K (set (approved_by s)) s"
    by (auto simp: sign_inv_def approved_def)
  with check_authority_at_sound[of "get_active s" ?K "set (approved_by s)" "max_recursion s"] assms
  show ?thesis by (auto simp: check_authority_def check_sound_def)
qed

text \<open>Example: an account whose active authority names another account, one level deep.\<close>

definition example_auth :: "account_name_type \<Rightarrow> authority option" where
  "example_auth n =
     (if n = ''alice'' then Some \<lparr>weight_threshold = 2, account_auths = [(''bob'', 1)], key_auths = [(7, 1)]\<rparr>
      else if n = ''bob'' then Some \<lparr>weight_threshold = 1, account_auths = [], key_auths = [(9, 1)]\<rparr>
      else None)"

theorem check_authority_sound_witness:
  "authorised example_auth {7, 9} {''temp''}
     \<lparr>weight_threshold = 2, account_auths = [(''bob'', 1)], key_auths = [(7, 1)]\<rparr>"
proof -
  let ?s = "sign_state_make [7, 9] example_auth []"
  have [simp]: "MAX_SIG_CHECK_DEPTH = Suc (Suc 0)" by (simp add: MAX_SIG_CHECK_DEPTH_def)
  have "\<exists>s'. check_authority \<lparr>weight_threshold = 2, account_auths = [(''bob'', 1)], key_auths = [(7, 1)]\<rparr>
          ?s = Some (s', True)"
    by (simp add: check_authority_def sign_state_make_def
        check_authority_body_def signed_by_def example_auth_def Let_def)
  then obtain s' where "check_authority
      \<lparr>weight_threshold = 2, account_auths = [(''bob'', 1)], key_auths = [(7, 1)]\<rparr> ?s = Some (s', True)"
    by blast
  from check_authority_sound[OF this] show ?thesis by (simp add: sign_state_make_def)
qed

end
