(* ===== verification/Operations.thy ===== *)
theory Operations
  imports Authority Asset "HOL-Library.List_Lexorder" "HOL-Library.Char_ord"
begin

text \<open>
  Operations of the protocol (\<open>libraries/protocol/include/node/protocol/node_operations.hpp\<close>,
  \<open>libraries/protocol/node_operations.cpp\<close>, \<open>operations.hpp\<close>): one record per operation, its
  \<open>validate\<close>, the authorities it requires, and the variant type of all of them.

  Every \<open>validate\<close> is a sequence of assertions, so it returns \<open>unit option\<close>.  The \<open>extensions\<close>
  fields (a set of \<open>void_t\<close>, always empty) are left out, as are the proof-of-work operations
  \<open>pow\<close> and \<open>pow2\<close>, whose validation rests on hashing and signature recovery, and
  \<open>report_over_production\<close>, which carries two signed headers.
\<close>

definition PERCENT_100 :: int where "PERCENT_100 = 10000"
definition MAX_PERMLINK_LENGTH :: nat where "MAX_PERMLINK_LENGTH = 2048"
definition MAX_MEMO_SIZE :: nat where "MAX_MEMO_SIZE = 2048"
definition MIN_ACCOUNT_CREATION_FEE :: int where "MIN_ACCOUNT_CREATION_FEE = 1000"
definition MIN_BLOCK_SIZE_LIMIT :: int where "MIN_BLOCK_SIZE_LIMIT = 1024 * 64"

definition validate_account_name :: "string \<Rightarrow> unit option" where
  "validate_account_name name = FC_ASSERT (is_valid_account_name name)"

definition validate_permlink :: "fc_lib \<Rightarrow> string \<Rightarrow> unit option" where
  "validate_permlink F permlink = do {
     FC_ASSERT (length permlink < MAX_PERMLINK_LENGTH);
     FC_ASSERT (fc_is_utf8 F permlink) }"

definition validate_json :: "fc_lib \<Rightarrow> string \<Rightarrow> unit option" where
  "validate_json F json =
     (if length json > 0 then do {
        FC_ASSERT (fc_is_utf8 F json);
        FC_ASSERT (fc_json_is_valid F json) }
      else Some ())"

definition is_asset_type :: "asset \<Rightarrow> asset_symbol_type \<Rightarrow> bool" where
  "is_asset_type a s \<longleftrightarrow> symbol a = s"

text \<open>\<open>FC_ASSERT( a >= b )\<close> on assets: the comparison itself throws on different symbols.\<close>

definition FC_ASSERT_opt :: "bool option \<Rightarrow> unit option" where
  "FC_ASSERT_opt b = Option.bind b FC_ASSERT"

lemma FC_ASSERT_opt_Some [simp, opt_simps]: "FC_ASSERT_opt b = Some u \<longleftrightarrow> b = Some True"
  by (cases b) (auto simp: FC_ASSERT_opt_def)

subsection \<open>Accounts\<close>

record accountCreate_operation =
  ac_fee :: asset
  ac_creator :: account_name_type
  ac_newAccountName :: account_name_type
  ac_owner :: authority
  ac_active :: authority
  ac_posting :: authority
  ac_memoKey :: public_key_type
  ac_json :: string

definition accountCreate_validate :: "fc_lib \<Rightarrow> accountCreate_operation \<Rightarrow> unit option" where
  "accountCreate_validate F o' = do {
     validate_account_name (ac_newAccountName o');
     FC_ASSERT (is_asset_type (ac_fee o') SYMBOL_COIN);
     authority_validate (ac_owner o');
     authority_validate (ac_active o');
     validate_json F (ac_json o');
     FC_ASSERT_opt (asset_ge (ac_fee o') (mk_asset 0 SYMBOL_COIN)) }"

record accountCreateWithDelegation_operation =
  acd_fee :: asset
  acd_delegation :: asset
  acd_creator :: account_name_type
  acd_newAccountName :: account_name_type
  acd_owner :: authority
  acd_active :: authority
  acd_posting :: authority
  acd_memoKey :: public_key_type
  acd_json :: string

definition accountCreateWithDelegation_validate ::
  "fc_lib \<Rightarrow> accountCreateWithDelegation_operation \<Rightarrow> unit option" where
  "accountCreateWithDelegation_validate F o' = do {
     validate_account_name (acd_newAccountName o');
     validate_account_name (acd_creator o');
     FC_ASSERT (is_asset_type (acd_fee o') SYMBOL_COIN);
     FC_ASSERT (is_asset_type (acd_delegation o') SYMBOL_SCORE);
     authority_validate (acd_owner o');
     authority_validate (acd_active o');
     authority_validate (acd_posting o');
     validate_json F (acd_json o');
     FC_ASSERT_opt (asset_ge (acd_fee o') (mk_asset 0 SYMBOL_COIN));
     FC_ASSERT_opt (asset_ge (acd_delegation o') (mk_asset 0 SYMBOL_SCORE)) }"

record accountUpdate_operation =
  au_account :: account_name_type
  au_owner :: "authority option"
  au_active :: "authority option"
  au_posting :: "authority option"
  au_memoKey :: public_key_type
  au_json :: string

definition accountUpdate_validate :: "fc_lib \<Rightarrow> accountUpdate_operation \<Rightarrow> unit option" where
  "accountUpdate_validate F o' = do {
     validate_account_name (au_account o');
     validate_json F (au_json o') }"

record challenge_authority_operation =
  ch_challenger :: account_name_type
  ch_challenged :: account_name_type
  ch_require_owner :: bool

definition challenge_authority_validate :: "challenge_authority_operation \<Rightarrow> unit option" where
  "challenge_authority_validate o' = do {
     validate_account_name (ch_challenger o');
     validate_account_name (ch_challenged o');
     FC_ASSERT (ch_challenged o' \<noteq> ch_challenger o') }"

record prove_authority_operation =
  pv_challenged :: account_name_type
  pv_require_owner :: bool

definition prove_authority_validate :: "prove_authority_operation \<Rightarrow> unit option" where
  "prove_authority_validate o' = validate_account_name (pv_challenged o')"

record request_account_recovery_operation =
  rr_recoveryAccount :: account_name_type
  rr_accountToRecover :: account_name_type
  rr_new_owner_authority :: authority

definition request_account_recovery_validate :: "request_account_recovery_operation \<Rightarrow> unit option" where
  "request_account_recovery_validate o' = do {
     validate_account_name (rr_recoveryAccount o');
     validate_account_name (rr_accountToRecover o');
     authority_validate (rr_new_owner_authority o') }"

record recover_account_operation =
  ra_accountToRecover :: account_name_type
  ra_new_owner_authority :: authority
  ra_recent_owner_authority :: authority

definition recover_account_validate :: "recover_account_operation \<Rightarrow> unit option" where
  "recover_account_validate o' = do {
     validate_account_name (ra_accountToRecover o');
     FC_ASSERT (\<not> authority_eq (ra_new_owner_authority o') (ra_recent_owner_authority o'));
     FC_ASSERT (\<not> is_impossible (ra_new_owner_authority o'));
     FC_ASSERT (\<not> is_impossible (ra_recent_owner_authority o'));
     FC_ASSERT (weight_threshold (ra_new_owner_authority o') \<noteq> 0);
     authority_validate (ra_new_owner_authority o');
     authority_validate (ra_recent_owner_authority o') }"

record reset_account_operation =
  rs_reset_account :: account_name_type
  rs_account_to_reset :: account_name_type
  rs_new_owner_authority :: authority

definition reset_account_validate :: "reset_account_operation \<Rightarrow> unit option" where
  "reset_account_validate o' = do {
     validate_account_name (rs_reset_account o');
     validate_account_name (rs_account_to_reset o');
     FC_ASSERT (\<not> is_impossible (rs_new_owner_authority o'));
     FC_ASSERT (weight_threshold (rs_new_owner_authority o') \<noteq> 0);
     authority_validate (rs_new_owner_authority o') }"

record set_reset_account_operation =
  sr_account :: account_name_type
  sr_current_reset_account :: account_name_type
  sr_reset_account :: account_name_type

definition set_reset_account_validate :: "set_reset_account_operation \<Rightarrow> unit option" where
  "set_reset_account_validate o' = do {
     validate_account_name (sr_account o');
     (if length (sr_current_reset_account o') \<noteq> 0
      then validate_account_name (sr_current_reset_account o') else Some ());
     validate_account_name (sr_reset_account o');
     FC_ASSERT (sr_current_reset_account o' \<noteq> sr_reset_account o') }"

record change_recoveryAccount_operation =
  cr_accountToRecover :: account_name_type
  cr_new_recoveryAccount :: account_name_type

definition change_recoveryAccount_validate :: "change_recoveryAccount_operation \<Rightarrow> unit option" where
  "change_recoveryAccount_validate o' = do {
     validate_account_name (cr_accountToRecover o');
     validate_account_name (cr_new_recoveryAccount o') }"

record decline_voting_rights_operation =
  dv_account :: account_name_type
  dv_decline :: bool

definition decline_voting_rights_validate :: "decline_voting_rights_operation \<Rightarrow> unit option" where
  "decline_voting_rights_validate o' = validate_account_name (dv_account o')"

subsection \<open>Content\<close>

record comment_operation =
  cm_parent_author :: account_name_type
  cm_parent_permlink :: string
  cm_author :: account_name_type
  cm_permlink :: string
  cm_title :: string
  cm_body :: string
  cm_json :: string

definition comment_validate :: "fc_lib \<Rightarrow> comment_operation \<Rightarrow> unit option" where
  "comment_validate F o' = do {
     FC_ASSERT (length (cm_title o') < 256);
     FC_ASSERT (fc_is_utf8 F (cm_title o'));
     FC_ASSERT (length (cm_body o') > 0);
     FC_ASSERT (fc_is_utf8 F (cm_body o'));
     (if length (cm_parent_author o') \<noteq> 0 then validate_account_name (cm_parent_author o') else Some ());
     validate_account_name (cm_author o');
     validate_permlink F (cm_parent_permlink o');
     validate_permlink F (cm_permlink o');
     (if length (cm_json o') > 0 then FC_ASSERT (fc_json_is_valid F (cm_json o')) else Some ()) }"

record beneficiary_route_type =
  br_account :: account_name_type
  br_weight :: int

text \<open>The loop from index 1 on; the previous entry and the running 32-bit sum are its state.\<close>

fun beneficiaries_loop ::
  "beneficiary_route_type \<Rightarrow> int \<Rightarrow> beneficiary_route_type list \<Rightarrow> unit option" where
  "beneficiaries_loop prev acc [] = Some ()"
| "beneficiaries_loop prev acc (b # bs) = do {
     validate_account_name (br_account b);
     FC_ASSERT (br_weight b \<le> PERCENT_100);
     let acc' = (acc + br_weight b) mod 2 ^ 32;
     FC_ASSERT (acc' \<le> PERCENT_100);
     FC_ASSERT (br_account prev < br_account b);
     beneficiaries_loop b acc' bs }"

definition comment_payout_beneficiaries_validate :: "beneficiary_route_type list \<Rightarrow> unit option" where
  "comment_payout_beneficiaries_validate bs = do {
     FC_ASSERT (length bs \<noteq> 0);
     FC_ASSERT (length bs < 128);
     validate_account_name (br_account (bs ! 0));
     FC_ASSERT (br_weight (bs ! 0) \<le> PERCENT_100);
     let acc = (0 + br_weight (bs ! 0)) mod 2 ^ 32;
     FC_ASSERT (acc \<le> PERCENT_100);
     beneficiaries_loop (bs ! 0) acc (tl bs) }"

record comment_options_operation =
  co_author :: account_name_type
  co_permlink :: string
  co_max_accepted_payout :: asset
  co_percent_TSD :: int
  co_allow_votes :: bool
  co_allow_curationRewards :: bool
  co_extensions :: "beneficiary_route_type list list"

fun for_all_opt :: "('a \<Rightarrow> unit option) \<Rightarrow> 'a list \<Rightarrow> unit option" where
  "for_all_opt f [] = Some ()"
| "for_all_opt f (x # xs) = do { f x; for_all_opt f xs }"

definition comment_options_validate :: "fc_lib \<Rightarrow> comment_options_operation \<Rightarrow> unit option" where
  "comment_options_validate F o' = do {
     validate_account_name (co_author o');
     FC_ASSERT (co_percent_TSD o' \<le> PERCENT_100);
     FC_ASSERT (symbol (co_max_accepted_payout o') = SYMBOL_USD);
     FC_ASSERT (amount (co_max_accepted_payout o') \<ge> 0);
     validate_permlink F (co_permlink o');
     for_all_opt comment_payout_beneficiaries_validate (co_extensions o') }"

record deleteComment_operation =
  dc_author :: account_name_type
  dc_permlink :: string

definition deleteComment_validate :: "fc_lib \<Rightarrow> deleteComment_operation \<Rightarrow> unit option" where
  "deleteComment_validate F o' = do {
     validate_permlink F (dc_permlink o');
     validate_account_name (dc_author o') }"

record vote_operation =
  vt_voter :: account_name_type
  vt_author :: account_name_type
  vt_permlink :: string
  vt_weight :: int

definition vote_validate :: "fc_lib \<Rightarrow> vote_operation \<Rightarrow> unit option" where
  "vote_validate F o' = do {
     validate_account_name (vt_voter o');
     validate_account_name (vt_author o');
     FC_ASSERT (\<bar>vt_weight o'\<bar> \<le> PERCENT_100);
     validate_permlink F (vt_permlink o') }"

subsection \<open>Transfers and escrow\<close>

record transfer_operation =
  tr_from :: account_name_type
  tr_to :: account_name_type
  tr_amount :: asset
  tr_memo :: string

definition transfer_validate :: "fc_lib \<Rightarrow> transfer_operation \<Rightarrow> unit option" where
  "transfer_validate F o' = do {
     validate_account_name (tr_from o');
     validate_account_name (tr_to o');
     FC_ASSERT (symbol (tr_amount o') \<noteq> SYMBOL_SCORE);
     FC_ASSERT (amount (tr_amount o') > 0);
     FC_ASSERT (length (tr_memo o') < MAX_MEMO_SIZE);
     FC_ASSERT (fc_is_utf8 F (tr_memo o')) }"

record escrow_transfer_operation =
  et_from :: account_name_type
  et_to :: account_name_type
  et_agent :: account_name_type
  et_escrow_id :: nat
  et_TSDamount :: asset
  et_TMEamount :: asset
  et_fee :: asset
  et_ratification_deadline :: int
  et_escrow_expiration :: int
  et_json :: string

definition escrow_transfer_validate :: "fc_lib \<Rightarrow> escrow_transfer_operation \<Rightarrow> unit option" where
  "escrow_transfer_validate F o' = do {
     validate_account_name (et_from o');
     validate_account_name (et_to o');
     validate_account_name (et_agent o');
     FC_ASSERT (amount (et_fee o') \<ge> 0);
     FC_ASSERT (amount (et_TSDamount o') \<ge> 0);
     FC_ASSERT (amount (et_TMEamount o') \<ge> 0);
     FC_ASSERT (amount (et_TSDamount o') > 0 \<or> amount (et_TMEamount o') > 0);
     FC_ASSERT (et_from o' \<noteq> et_agent o' \<and> et_to o' \<noteq> et_agent o');
     FC_ASSERT (symbol (et_fee o') = SYMBOL_COIN \<or> symbol (et_fee o') = SYMBOL_USD);
     FC_ASSERT (symbol (et_TSDamount o') = SYMBOL_USD);
     FC_ASSERT (symbol (et_TMEamount o') = SYMBOL_COIN);
     FC_ASSERT (et_ratification_deadline o' < et_escrow_expiration o');
     validate_json F (et_json o') }"

record escrow_approve_operation =
  ea_from :: account_name_type
  ea_to :: account_name_type
  ea_agent :: account_name_type
  ea_who :: account_name_type
  ea_escrow_id :: nat
  ea_approve :: bool

definition escrow_approve_validate :: "escrow_approve_operation \<Rightarrow> unit option" where
  "escrow_approve_validate o' = do {
     validate_account_name (ea_from o');
     validate_account_name (ea_to o');
     validate_account_name (ea_agent o');
     validate_account_name (ea_who o');
     FC_ASSERT (ea_who o' = ea_to o' \<or> ea_who o' = ea_agent o') }"

record escrow_dispute_operation =
  ed_from :: account_name_type
  ed_to :: account_name_type
  ed_agent :: account_name_type
  ed_who :: account_name_type
  ed_escrow_id :: nat

definition escrow_dispute_validate :: "escrow_dispute_operation \<Rightarrow> unit option" where
  "escrow_dispute_validate o' = do {
     validate_account_name (ed_from o');
     validate_account_name (ed_to o');
     validate_account_name (ed_agent o');
     validate_account_name (ed_who o');
     FC_ASSERT (ed_who o' = ed_from o' \<or> ed_who o' = ed_to o') }"

record escrow_release_operation =
  er_from :: account_name_type
  er_to :: account_name_type
  er_agent :: account_name_type
  er_who :: account_name_type
  er_receiver :: account_name_type
  er_escrow_id :: nat
  er_TSDamount :: asset
  er_TMEamount :: asset

definition escrow_release_validate :: "escrow_release_operation \<Rightarrow> unit option" where
  "escrow_release_validate o' = do {
     validate_account_name (er_from o');
     validate_account_name (er_to o');
     validate_account_name (er_agent o');
     validate_account_name (er_who o');
     validate_account_name (er_receiver o');
     FC_ASSERT (er_who o' = er_from o' \<or> er_who o' = er_to o' \<or> er_who o' = er_agent o');
     FC_ASSERT (er_receiver o' = er_from o' \<or> er_receiver o' = er_to o');
     FC_ASSERT (amount (er_TSDamount o') \<ge> 0);
     FC_ASSERT (amount (er_TMEamount o') \<ge> 0);
     FC_ASSERT (amount (er_TSDamount o') > 0 \<or> amount (er_TMEamount o') > 0);
     FC_ASSERT (symbol (er_TSDamount o') = SYMBOL_USD);
     FC_ASSERT (symbol (er_TMEamount o') = SYMBOL_COIN) }"

subsection \<open>SCORE\<close>

record transferTMEtoSCOREfund_operation =
  tf_from :: account_name_type
  tf_to :: account_name_type
  tf_amount :: asset

definition transferTMEtoSCOREfund_validate :: "transferTMEtoSCOREfund_operation \<Rightarrow> unit option" where
  "transferTMEtoSCOREfund_validate o' = do {
     validate_account_name (tf_from o');
     FC_ASSERT (is_asset_type (tf_amount o') SYMBOL_COIN);
     (if tf_to o' \<noteq> [] then validate_account_name (tf_to o') else Some ());
     FC_ASSERT_opt (asset_gt (tf_amount o') (mk_asset 0 SYMBOL_COIN)) }"

record withdrawSCORE_operation =
  ws_account :: account_name_type
  ws_SCORE :: asset

definition withdrawSCORE_validate :: "withdrawSCORE_operation \<Rightarrow> unit option" where
  "withdrawSCORE_validate o' = do {
     validate_account_name (ws_account o');
     FC_ASSERT (is_asset_type (ws_SCORE o') SYMBOL_SCORE) }"

record setWithdrawSCOREasTMEroute_operation =
  wr_from_account :: account_name_type
  wr_to_account :: account_name_type
  wr_percent :: int
  wr_autoSCORE :: bool

definition setWithdrawSCOREasTMEroute_validate :: "setWithdrawSCOREasTMEroute_operation \<Rightarrow> unit option" where
  "setWithdrawSCOREasTMEroute_validate o' = do {
     validate_account_name (wr_from_account o');
     validate_account_name (wr_to_account o');
     FC_ASSERT (0 \<le> wr_percent o' \<and> wr_percent o' \<le> PERCENT_100) }"

record claimRewardBalance_operation =
  cl_account :: account_name_type
  cl_TMEreward :: asset
  cl_TSDreward :: asset
  cl_SCOREreward :: asset

definition claimRewardBalance_validate :: "claimRewardBalance_operation \<Rightarrow> unit option" where
  "claimRewardBalance_validate o' = do {
     validate_account_name (cl_account o');
     FC_ASSERT (is_asset_type (cl_TMEreward o') SYMBOL_COIN);
     FC_ASSERT (is_asset_type (cl_TSDreward o') SYMBOL_USD);
     FC_ASSERT (is_asset_type (cl_SCOREreward o') SYMBOL_SCORE);
     FC_ASSERT (amount (cl_TMEreward o') \<ge> 0);
     FC_ASSERT (amount (cl_TSDreward o') \<ge> 0);
     FC_ASSERT (amount (cl_SCOREreward o') \<ge> 0);
     FC_ASSERT (amount (cl_TMEreward o') > 0 \<or> amount (cl_TSDreward o') > 0 \<or>
                amount (cl_SCOREreward o') > 0) }"

record delegateSCORE_operation =
  dg_delegator :: account_name_type
  dg_delegatee :: account_name_type
  dg_SCORE :: asset

definition delegateSCORE_validate :: "delegateSCORE_operation \<Rightarrow> unit option" where
  "delegateSCORE_validate o' = do {
     validate_account_name (dg_delegator o');
     validate_account_name (dg_delegatee o');
     FC_ASSERT (dg_delegator o' \<noteq> dg_delegatee o');
     FC_ASSERT (is_asset_type (dg_SCORE o') SYMBOL_SCORE);
     FC_ASSERT_opt (asset_ge (dg_SCORE o') (mk_asset 0 SYMBOL_SCORE)) }"

subsection \<open>Witnesses\<close>

record chain_properties =
  cp_account_creation_fee :: asset
  cp_maximum_block_size :: int
  cp_TSD_interest_rate :: int

definition chain_properties_validate :: "chain_properties \<Rightarrow> unit option" where
  "chain_properties_validate p = do {
     FC_ASSERT (amount (cp_account_creation_fee p) \<ge> MIN_ACCOUNT_CREATION_FEE);
     FC_ASSERT (cp_maximum_block_size p \<ge> MIN_BLOCK_SIZE_LIMIT);
     FC_ASSERT (cp_TSD_interest_rate p \<ge> 0);
     FC_ASSERT (cp_TSD_interest_rate p \<le> PERCENT_100) }"

record witness_update_operation =
  wu_owner :: account_name_type
  wu_url :: string
  wu_block_signing_key :: public_key_type
  wu_props :: chain_properties
  wu_fee :: asset

definition witness_update_validate :: "fc_lib \<Rightarrow> witness_update_operation \<Rightarrow> unit option" where
  "witness_update_validate F o' = do {
     validate_account_name (wu_owner o');
     FC_ASSERT (length (wu_url o') > 0);
     FC_ASSERT (fc_is_utf8 F (wu_url o'));
     FC_ASSERT_opt (asset_ge (wu_fee o') (mk_asset 0 SYMBOL_COIN));
     chain_properties_validate (wu_props o') }"

record accountWitnessVote_operation =
  wv_account :: account_name_type
  wv_witness :: account_name_type
  wv_approve :: bool

definition accountWitnessVote_validate :: "accountWitnessVote_operation \<Rightarrow> unit option" where
  "accountWitnessVote_validate o' = do {
     validate_account_name (wv_account o');
     validate_account_name (wv_witness o') }"

record account_witness_proxy_operation =
  wp_account :: account_name_type
  wp_proxy :: account_name_type

definition account_witness_proxy_validate :: "account_witness_proxy_operation \<Rightarrow> unit option" where
  "account_witness_proxy_validate o' = do {
     validate_account_name (wp_account o');
     (if length (wp_proxy o') \<noteq> 0 then validate_account_name (wp_proxy o') else Some ());
     FC_ASSERT (wp_proxy o' \<noteq> wp_account o') }"

record feed_publish_operation =
  fp_publisher :: account_name_type
  fp_exchange_rate :: price

definition feed_publish_validate :: "feed_publish_operation \<Rightarrow> unit option" where
  "feed_publish_validate o' = do {
     validate_account_name (fp_publisher o');
     FC_ASSERT ((is_asset_type (base (fp_exchange_rate o')) SYMBOL_COIN \<and>
                 is_asset_type (quote (fp_exchange_rate o')) SYMBOL_USD) \<or>
                (is_asset_type (base (fp_exchange_rate o')) SYMBOL_USD \<and>
                 is_asset_type (quote (fp_exchange_rate o')) SYMBOL_COIN));
     price_validate (fp_exchange_rate o') }"

subsection \<open>Custom operations\<close>

record custom_operation =
  cu_required_auths :: "account_name_type list"
  cu_id :: nat
  cu_data :: string

definition custom_validate :: "custom_operation \<Rightarrow> unit option" where
  "custom_validate o' = FC_ASSERT (length (cu_required_auths o') > 0)"

record customJson_operation =
  cj_required_auths :: "account_name_type list"
  cj_required_posting_auths :: "account_name_type list"
  cj_id :: string
  cj_json :: string

definition customJson_validate :: "fc_lib \<Rightarrow> customJson_operation \<Rightarrow> unit option" where
  "customJson_validate F o' = do {
     FC_ASSERT (length (cj_required_auths o') + length (cj_required_posting_auths o') > 0);
     FC_ASSERT (length (cj_id o') \<le> 32);
     FC_ASSERT (fc_is_utf8 F (cj_json o'));
     FC_ASSERT (fc_json_is_valid F (cj_json o')) }"

record custom_binary_operation =
  cb_required_owner_auths :: "account_name_type list"
  cb_required_active_auths :: "account_name_type list"
  cb_required_posting_auths :: "account_name_type list"
  cb_required_auths :: "authority list"
  cb_id :: string
  cb_data :: string

definition custom_binary_validate :: "custom_binary_operation \<Rightarrow> unit option" where
  "custom_binary_validate o' = do {
     FC_ASSERT (length (cb_required_owner_auths o') + length (cb_required_active_auths o') +
                length (cb_required_posting_auths o') > 0);
     FC_ASSERT (length (cb_id o') \<le> 32);
     for_all_opt authority_validate (cb_required_auths o') }"

subsection \<open>Market\<close>

record convert_operation =
  cv_owner :: account_name_type
  cv_requestid :: nat
  cv_amount :: asset

definition convert_validate :: "convert_operation \<Rightarrow> unit option" where
  "convert_validate o' = do {
     validate_account_name (cv_owner o');
     FC_ASSERT (is_asset_type (cv_amount o') SYMBOL_USD);
     FC_ASSERT (amount (cv_amount o') > 0) }"

record limit_order_create_operation =
  lo_owner :: account_name_type
  lo_orderid :: nat
  lo_amount_to_sell :: asset
  lo_min_to_receive :: asset
  lo_fill_or_kill :: bool
  lo_expiration :: int

definition limit_order_create_get_price :: "limit_order_create_operation \<Rightarrow> price option" where
  "limit_order_create_get_price o' = asset_div (lo_amount_to_sell o') (lo_min_to_receive o')"

definition limit_order_create_validate :: "limit_order_create_operation \<Rightarrow> unit option" where
  "limit_order_create_validate o' = do {
     validate_account_name (lo_owner o');
     FC_ASSERT ((is_asset_type (lo_amount_to_sell o') SYMBOL_COIN \<and>
                 is_asset_type (lo_min_to_receive o') SYMBOL_USD) \<or>
                (is_asset_type (lo_amount_to_sell o') SYMBOL_USD \<and>
                 is_asset_type (lo_min_to_receive o') SYMBOL_COIN));
     p \<leftarrow> asset_div (lo_amount_to_sell o') (lo_min_to_receive o');
     price_validate p }"

record limit_order_create2_operation =
  lo2_owner :: account_name_type
  lo2_orderid :: nat
  lo2_amount_to_sell :: asset
  lo2_fill_or_kill :: bool
  lo2_exchange_rate :: price
  lo2_expiration :: int

definition limit_order_create2_validate :: "fc_lib \<Rightarrow> limit_order_create2_operation \<Rightarrow> unit option" where
  "limit_order_create2_validate F o' = do {
     validate_account_name (lo2_owner o');
     FC_ASSERT (symbol (lo2_amount_to_sell o') = symbol (base (lo2_exchange_rate o')));
     price_validate (lo2_exchange_rate o');
     FC_ASSERT ((is_asset_type (lo2_amount_to_sell o') SYMBOL_COIN \<and>
                 is_asset_type (quote (lo2_exchange_rate o')) SYMBOL_USD) \<or>
                (is_asset_type (lo2_amount_to_sell o') SYMBOL_USD \<and>
                 is_asset_type (quote (lo2_exchange_rate o')) SYMBOL_COIN));
     r \<leftarrow> asset_mul_price F (lo2_amount_to_sell o') (lo2_exchange_rate o');
     FC_ASSERT (amount r > 0) }"

record limit_order_cancel_operation =
  lc_owner :: account_name_type
  lc_orderid :: nat

definition limit_order_cancel_validate :: "limit_order_cancel_operation \<Rightarrow> unit option" where
  "limit_order_cancel_validate o' = validate_account_name (lc_owner o')"

subsection \<open>Savings\<close>

record transferToSavings_operation =
  ts_from :: account_name_type
  ts_to :: account_name_type
  ts_amount :: asset
  ts_memo :: string

definition transferToSavings_validate :: "fc_lib \<Rightarrow> transferToSavings_operation \<Rightarrow> unit option" where
  "transferToSavings_validate F o' = do {
     validate_account_name (ts_from o');
     validate_account_name (ts_to o');
     FC_ASSERT (amount (ts_amount o') > 0);
     FC_ASSERT (symbol (ts_amount o') = SYMBOL_COIN \<or> symbol (ts_amount o') = SYMBOL_USD);
     FC_ASSERT (length (ts_memo o') < MAX_MEMO_SIZE);
     FC_ASSERT (fc_is_utf8 F (ts_memo o')) }"

record transferFromSavings_operation =
  fs_from :: account_name_type
  fs_request_id :: nat
  fs_to :: account_name_type
  fs_amount :: asset
  fs_memo :: string

definition transferFromSavings_validate :: "fc_lib \<Rightarrow> transferFromSavings_operation \<Rightarrow> unit option" where
  "transferFromSavings_validate F o' = do {
     validate_account_name (fs_from o');
     validate_account_name (fs_to o');
     FC_ASSERT (amount (fs_amount o') > 0);
     FC_ASSERT (symbol (fs_amount o') = SYMBOL_COIN \<or> symbol (fs_amount o') = SYMBOL_USD);
     FC_ASSERT (length (fs_memo o') < MAX_MEMO_SIZE);
     FC_ASSERT (fc_is_utf8 F (fs_memo o')) }"

record cancelTransferFromSavings_operation =
  cs_from :: account_name_type
  cs_request_id :: nat

definition cancelTransferFromSavings_validate :: "cancelTransferFromSavings_operation \<Rightarrow> unit option" where
  "cancelTransferFromSavings_validate o' = validate_account_name (cs_from o')"

subsection \<open>Virtual operations\<close>

text \<open>Generated by the chain itself; their fields are in the order of the C++ constructors.\<close>

datatype virtual_operation =
    AuthorReward account_name_type string asset asset asset
  | CurationReward account_name_type asset account_name_type string
  | CommentReward account_name_type string asset
  | LiquidityReward account_name_type asset
  | Interest account_name_type asset
  | FillConvertRequest account_name_type nat asset asset
  | FillSCOREWithdraw account_name_type account_name_type asset asset
  | ShutdownWitness account_name_type
  | FillOrder account_name_type nat asset account_name_type nat asset
  | FillTransferFromSavings account_name_type account_name_type asset nat string
  | Hardfork nat
  | CommentPayoutUpdate account_name_type string
  | ReturnSCOREDelegation account_name_type asset
  | CommentBenefactorReward account_name_type account_name_type string asset
  | ProducerReward account_name_type asset

subsection \<open>The variant\<close>

datatype operation =
    Vote vote_operation
  | Comment comment_operation
  | Transfer transfer_operation
  | TransferTMEtoSCOREfund transferTMEtoSCOREfund_operation
  | WithdrawSCORE withdrawSCORE_operation
  | LimitOrderCreate limit_order_create_operation
  | LimitOrderCancel limit_order_cancel_operation
  | FeedPublish feed_publish_operation
  | Convert convert_operation
  | AccountCreate accountCreate_operation
  | AccountUpdate accountUpdate_operation
  | WitnessUpdate witness_update_operation
  | AccountWitnessVote accountWitnessVote_operation
  | AccountWitnessProxy account_witness_proxy_operation
  | Custom custom_operation
  | DeleteComment deleteComment_operation
  | CustomJson customJson_operation
  | CommentOptions comment_options_operation
  | SetWithdrawRoute setWithdrawSCOREasTMEroute_operation
  | LimitOrderCreate2 limit_order_create2_operation
  | ChallengeAuthority challenge_authority_operation
  | ProveAuthority prove_authority_operation
  | RequestAccountRecovery request_account_recovery_operation
  | RecoverAccount recover_account_operation
  | ChangeRecoveryAccount change_recoveryAccount_operation
  | EscrowTransfer escrow_transfer_operation
  | EscrowDispute escrow_dispute_operation
  | EscrowRelease escrow_release_operation
  | EscrowApprove escrow_approve_operation
  | TransferToSavings transferToSavings_operation
  | TransferFromSavings transferFromSavings_operation
  | CancelTransferFromSavings cancelTransferFromSavings_operation
  | CustomBinary custom_binary_operation
  | DeclineVotingRights decline_voting_rights_operation
  | ResetAccount reset_account_operation
  | SetResetAccount set_reset_account_operation
  | ClaimRewardBalance claimRewardBalance_operation
  | DelegateSCORE delegateSCORE_operation
  | AccountCreateWithDelegation accountCreateWithDelegation_operation
  | Virtual virtual_operation

fun operation_validate :: "fc_lib \<Rightarrow> operation \<Rightarrow> unit option" where
  "operation_validate F (Vote v) = vote_validate F v"
| "operation_validate F (Comment v) = comment_validate F v"
| "operation_validate F (Transfer v) = transfer_validate F v"
| "operation_validate F (TransferTMEtoSCOREfund v) = transferTMEtoSCOREfund_validate v"
| "operation_validate F (WithdrawSCORE v) = withdrawSCORE_validate v"
| "operation_validate F (LimitOrderCreate v) = limit_order_create_validate v"
| "operation_validate F (LimitOrderCancel v) = limit_order_cancel_validate v"
| "operation_validate F (FeedPublish v) = feed_publish_validate v"
| "operation_validate F (Convert v) = convert_validate v"
| "operation_validate F (AccountCreate v) = accountCreate_validate F v"
| "operation_validate F (AccountUpdate v) = accountUpdate_validate F v"
| "operation_validate F (WitnessUpdate v) = witness_update_validate F v"
| "operation_validate F (AccountWitnessVote v) = accountWitnessVote_validate v"
| "operation_validate F (AccountWitnessProxy v) = account_witness_proxy_validate v"
| "operation_validate F (Custom v) = custom_validate v"
| "operation_validate F (DeleteComment v) = deleteComment_validate F v"
| "operation_validate F (CustomJson v) = customJson_validate F v"
| "operation_validate F (CommentOptions v) = comment_options_validate F v"
| "operation_validate F (SetWithdrawRoute v) = setWithdrawSCOREasTMEroute_validate v"
| "operation_validate F (LimitOrderCreate2 v) = limit_order_create2_validate F v"
| "operation_validate F (ChallengeAuthority v) = challenge_authority_validate v"
| "operation_validate F (ProveAuthority v) = prove_authority_validate v"
| "operation_validate F (RequestAccountRecovery v) = request_account_recovery_validate v"
| "operation_validate F (RecoverAccount v) = recover_account_validate v"
| "operation_validate F (ChangeRecoveryAccount v) = change_recoveryAccount_validate v"
| "operation_validate F (EscrowTransfer v) = escrow_transfer_validate F v"
| "operation_validate F (EscrowDispute v) = escrow_dispute_validate v"
| "operation_validate F (EscrowRelease v) = escrow_release_validate v"
| "operation_validate F (EscrowApprove v) = escrow_approve_validate v"
| "operation_validate F (TransferToSavings v) = transferToSavings_validate F v"
| "operation_validate F (TransferFromSavings v) = transferFromSavings_validate F v"
| "operation_validate F (CancelTransferFromSavings v) = cancelTransferFromSavings_validate v"
| "operation_validate F (CustomBinary v) = custom_binary_validate v"
| "operation_validate F (DeclineVotingRights v) = decline_voting_rights_validate v"
| "operation_validate F (ResetAccount v) = reset_account_validate v"
| "operation_validate F (SetResetAccount v) = set_reset_account_validate v"
| "operation_validate F (ClaimRewardBalance v) = claimRewardBalance_validate v"
| "operation_validate F (DelegateSCORE v) = delegateSCORE_validate v"
| "operation_validate F (AccountCreateWithDelegation v) = accountCreateWithDelegation_validate F v"
| "operation_validate F (Virtual v) = FC_ASSERT False"

fun is_virtual_operation :: "operation \<Rightarrow> bool" where
  "is_virtual_operation (Virtual v) = True"
| "is_virtual_operation _ = False"

fun is_market_operation :: "operation \<Rightarrow> bool" where
  "is_market_operation (LimitOrderCreate v) = True"
| "is_market_operation (LimitOrderCancel v) = True"
| "is_market_operation (Transfer v) = True"
| "is_market_operation (TransferTMEtoSCOREfund v) = True"
| "is_market_operation _ = False"

subsection \<open>Required authorities\<close>

fun required_active :: "operation \<Rightarrow> account_name_type list" where
  "required_active (Transfer v) = (if symbol (tr_amount v) \<noteq> SYMBOL_SCORE then [tr_from v] else [])"
| "required_active (TransferTMEtoSCOREfund v) = [tf_from v]"
| "required_active (WithdrawSCORE v) = [ws_account v]"
| "required_active (LimitOrderCreate v) = [lo_owner v]"
| "required_active (LimitOrderCancel v) = [lc_owner v]"
| "required_active (FeedPublish v) = [fp_publisher v]"
| "required_active (Convert v) = [cv_owner v]"
| "required_active (AccountCreate v) = [ac_creator v]"
| "required_active (AccountUpdate v) = (if au_owner v = None then [au_account v] else [])"
| "required_active (WitnessUpdate v) = [wu_owner v]"
| "required_active (AccountWitnessVote v) = [wv_account v]"
| "required_active (AccountWitnessProxy v) = [wp_account v]"
| "required_active (Custom v) = cu_required_auths v"
| "required_active (CustomJson v) = cj_required_auths v"
| "required_active (SetWithdrawRoute v) = [wr_from_account v]"
| "required_active (LimitOrderCreate2 v) = [lo2_owner v]"
| "required_active (ChallengeAuthority v) = [ch_challenger v]"
| "required_active (ProveAuthority v) = (if \<not> pv_require_owner v then [pv_challenged v] else [])"
| "required_active (RequestAccountRecovery v) = [rr_recoveryAccount v]"
| "required_active (EscrowTransfer v) = [et_from v]"
| "required_active (EscrowDispute v) = [ed_who v]"
| "required_active (EscrowRelease v) = [er_who v]"
| "required_active (EscrowApprove v) = [ea_who v]"
| "required_active (TransferToSavings v) = [ts_from v]"
| "required_active (TransferFromSavings v) = [fs_from v]"
| "required_active (CancelTransferFromSavings v) = [cs_from v]"
| "required_active (CustomBinary v) = cb_required_active_auths v"
| "required_active (ResetAccount v) = [rs_reset_account v]"
| "required_active (DelegateSCORE v) = [dg_delegator v]"
| "required_active (AccountCreateWithDelegation v) = [acd_creator v]"
| "required_active _ = []"

fun required_owner :: "operation \<Rightarrow> account_name_type list" where
  "required_owner (Transfer v) = (if symbol (tr_amount v) = SYMBOL_SCORE then [tr_from v] else [])"
| "required_owner (AccountUpdate v) = (if au_owner v \<noteq> None then [au_account v] else [])"
| "required_owner (ProveAuthority v) = (if pv_require_owner v then [pv_challenged v] else [])"
| "required_owner (CustomBinary v) = cb_required_owner_auths v"
| "required_owner (SetResetAccount v) =
     (if length (sr_current_reset_account v) \<noteq> 0 then [sr_account v] else [])"
| "required_owner (ChangeRecoveryAccount v) = [cr_accountToRecover v]"
| "required_owner (DeclineVotingRights v) = [dv_account v]"
| "required_owner _ = []"

fun required_posting :: "operation \<Rightarrow> account_name_type list" where
  "required_posting (Vote v) = [vt_voter v]"
| "required_posting (Comment v) = [cm_author v]"
| "required_posting (DeleteComment v) = [dc_author v]"
| "required_posting (CommentOptions v) = [co_author v]"
| "required_posting (CustomJson v) = cj_required_posting_auths v"
| "required_posting (CustomBinary v) = cb_required_posting_auths v"
| "required_posting (SetResetAccount v) =
     (if length (sr_current_reset_account v) = 0 then [sr_account v] else [])"
| "required_posting (ClaimRewardBalance v) = [cl_account v]"
| "required_posting _ = []"

fun required_other :: "operation \<Rightarrow> authority list" where
  "required_other (RecoverAccount v) = [ra_new_owner_authority v, ra_recent_owner_authority v]"
| "required_other (CustomBinary v) = cb_required_auths v"
| "required_other _ = []"

text \<open>The three \<open>flat_set\<close>s are kept as strictly sorted lists.\<close>

record required_authorities =
  req_active :: "account_name_type list"
  req_owner :: "account_name_type list"
  req_posting :: "account_name_type list"
  req_other :: "authority list"

definition flat_insert_all :: "account_name_type list \<Rightarrow> account_name_type list \<Rightarrow> account_name_type list" where
  "flat_insert_all xs S = fold insort_insert xs S"

definition operation_get_required_authorities ::
  "operation \<Rightarrow> required_authorities \<Rightarrow> required_authorities" where
  "operation_get_required_authorities op r =
     r\<lparr>req_active := flat_insert_all (required_active op) (req_active r),
       req_owner := flat_insert_all (required_owner op) (req_owner r),
       req_posting := flat_insert_all (required_posting op) (req_posting r),
       req_other := req_other r @ required_other op\<rparr>"

lemma set_flat_insert_all [simp]: "set (flat_insert_all xs S) = set xs \<union> set S"
  unfolding flat_insert_all_def by (induction xs arbitrary: S) (auto simp: set_insort_insert)

subsection \<open>Impacted accounts\<close>

text \<open>\<open>libraries/app/impacted.cpp\<close>: the accounts whose history an operation is filed under.\<close>

fun virtual_impacted :: "virtual_operation \<Rightarrow> account_name_type list" where
  "virtual_impacted (AuthorReward a p s t v) = [a]"
| "virtual_impacted (CurationReward c r a p) = [c]"
| "virtual_impacted (LiquidityReward ow p) = [ow]"
| "virtual_impacted (Interest ow i) = [ow]"
| "virtual_impacted (FillConvertRequest ow i a b) = [ow]"
| "virtual_impacted (FillSCOREWithdraw f t w d) = [f, t]"
| "virtual_impacted (ShutdownWitness ow) = [ow]"
| "virtual_impacted (FillOrder c ci cp ow oi pa) = [c, ow]"
| "virtual_impacted (FillTransferFromSavings f t a r m) = [f, t]"
| "virtual_impacted (ReturnSCOREDelegation a v) = [a]"
| "virtual_impacted (CommentBenefactorReward b a p r) = [b, a]"
| "virtual_impacted (ProducerReward p v) = [p]"
| "virtual_impacted _ = []"

fun impacted_accounts :: "operation \<Rightarrow> account_name_type list" where
  "impacted_accounts (AccountCreate v) = [ac_newAccountName v, ac_creator v]"
| "impacted_accounts (AccountCreateWithDelegation v) = [acd_newAccountName v, acd_creator v]"
| "impacted_accounts (Comment v) =
     cm_author v # (if length (cm_parent_author v) \<noteq> 0 then [cm_parent_author v] else [])"
| "impacted_accounts (ChallengeAuthority v) = [ch_challenger v, ch_challenged v]"
| "impacted_accounts (Vote v) = [vt_voter v, vt_author v]"
| "impacted_accounts (Transfer v) = [tr_from v, tr_to v]"
| "impacted_accounts (EscrowTransfer v) = [et_from v, et_to v, et_agent v]"
| "impacted_accounts (EscrowApprove v) = [ea_from v, ea_to v, ea_agent v]"
| "impacted_accounts (EscrowDispute v) = [ed_from v, ed_to v, ed_agent v]"
| "impacted_accounts (EscrowRelease v) = [er_from v, er_to v, er_agent v]"
| "impacted_accounts (TransferTMEtoSCOREfund v) =
     tf_from v # (if tf_to v \<noteq> [] \<and> tf_to v \<noteq> tf_from v then [tf_to v] else [])"
| "impacted_accounts (SetWithdrawRoute v) = [wr_from_account v, wr_to_account v]"
| "impacted_accounts (AccountWitnessVote v) = [wv_account v, wv_witness v]"
| "impacted_accounts (AccountWitnessProxy v) = [wp_account v, wp_proxy v]"
| "impacted_accounts (FeedPublish v) = [fp_publisher v]"
| "impacted_accounts (RequestAccountRecovery v) = [rr_accountToRecover v, rr_recoveryAccount v]"
| "impacted_accounts (RecoverAccount v) = [ra_accountToRecover v]"
| "impacted_accounts (ChangeRecoveryAccount v) = [cr_accountToRecover v]"
| "impacted_accounts (TransferToSavings v) = [ts_from v, ts_to v]"
| "impacted_accounts (TransferFromSavings v) = [fs_from v, fs_to v]"
| "impacted_accounts (DelegateSCORE v) = [dg_delegator v, dg_delegatee v]"
| "impacted_accounts (Virtual v) = virtual_impacted v"
| "impacted_accounts op = required_posting op @ required_active op @ required_owner op"

definition operation_get_impacted_accounts ::
  "operation \<Rightarrow> account_name_type list \<Rightarrow> account_name_type list" where
  "operation_get_impacted_accounts op result = flat_insert_all (impacted_accounts op) result"

definition transaction_get_impacted_accounts ::
  "operation list \<Rightarrow> account_name_type list \<Rightarrow> account_name_type list" where
  "transaction_get_impacted_accounts ops result = fold operation_get_impacted_accounts ops result"

subsection \<open>Properties\<close>

lemma set_operation_impacted:
  "set (operation_get_impacted_accounts op S) = set (impacted_accounts op) \<union> set S"
  by (simp add: operation_get_impacted_accounts_def)

lemma set_transaction_impacted:
  "set (transaction_get_impacted_accounts ops S) = (\<Union>op \<in> set ops. set (impacted_accounts op)) \<union> set S"
  unfolding transaction_get_impacted_accounts_def
  by (induction ops arbitrary: S) (auto simp: set_operation_impacted)

lemma escrow_validate_who:
  "escrow_approve_validate a = Some u \<Longrightarrow> ea_who a = ea_to a \<or> ea_who a = ea_agent a"
  "escrow_dispute_validate d = Some u \<Longrightarrow> ed_who d = ed_from d \<or> ed_who d = ed_to d"
  "escrow_release_validate r = Some u \<Longrightarrow>
     er_who r = er_from r \<or> er_who r = er_to r \<or> er_who r = er_agent r"
  by (auto simp: escrow_approve_validate_def escrow_dispute_validate_def escrow_release_validate_def
                 bind_Some_iff)

lemma required_subset_impacted:
  assumes "operation_validate F op = Some u"
  shows "set (required_active op) \<union> set (required_owner op) \<union> set (required_posting op)
           \<subseteq> set (impacted_accounts op)"
  using assms by (cases op) (auto dest: escrow_validate_who)

text \<open>
  C17. In a transaction whose operations all pass \<open>validate\<close>, every account whose signature is
  required by one of the operations is among the accounts the transaction is filed under.
\<close>

theorem transaction_impacted_covers_signers:
  assumes "\<forall>op \<in> set ops. operation_validate F op = Some ()"
    and "op \<in> set ops"
    and "n \<in> set (required_active op) \<union> set (required_owner op) \<union> set (required_posting op)"
  shows "n \<in> set (transaction_get_impacted_accounts ops S)"
proof -
  have "operation_validate F op = Some ()" using assms(1,2) by blast
  from required_subset_impacted[OF this] assms(2,3) show ?thesis
    by (auto simp: set_transaction_impacted)
qed

lemma valid_names: "is_valid_account_name ''alice''" "is_valid_account_name ''bob''"
  "is_valid_account_name ''carol''"
  by (simp_all add: is_valid_account_name_def MIN_ACCOUNT_NAME_LENGTH_def MAX_ACCOUNT_NAME_LENGTH_def
      label_loop.simps label_ok_def is_lower_letter_def)

theorem transaction_impacted_covers_signers_witness:
  "''bob'' \<in> set (transaction_get_impacted_accounts
      [EscrowApprove \<lparr>ea_from = ''alice'', ea_to = ''bob'', ea_agent = ''carol'', ea_who = ''bob'',
                      ea_escrow_id = 0, ea_approve = True\<rparr>] [])"
  by (rule transaction_impacted_covers_signers[where F = fc_exact and op =
        "EscrowApprove \<lparr>ea_from = ''alice'', ea_to = ''bob'', ea_agent = ''carol'', ea_who = ''bob'',
                      ea_escrow_id = 0, ea_approve = True\<rparr>"])
     (simp_all add: escrow_approve_validate_def validate_account_name_def valid_names)

lemma beneficiaries_loop_iff:
  assumes "\<forall>b \<in> set bs. 0 \<le> br_weight b" "0 \<le> acc" "acc \<le> PERCENT_100"
  shows "beneficiaries_loop prev acc bs = Some () \<longleftrightarrow>
    (\<forall>b \<in> set bs. is_valid_account_name (br_account b)) \<and>
    acc + sum_list (map br_weight bs) \<le> PERCENT_100 \<and>
    sorted_wrt (<) (map br_account (prev # bs))"
  using assms
proof (induction bs arbitrary: prev acc)
  case Nil
  then show ?case by simp
next
  case (Cons b bs)
  have nn: "0 \<le> sum_list (map br_weight bs)" using Cons.prems(1) by (intro sum_list_nonneg) auto
  have P: "PERCENT_100 = 10000" by (simp add: PERCENT_100_def)
  show ?case
  proof (cases "br_weight b \<le> PERCENT_100 \<and> acc + br_weight b \<le> PERCENT_100")
    case True
    then have m: "(acc + br_weight b) mod 2 ^ 32 = acc + br_weight b"
      using Cons.prems P by (intro mod_pos_pos_trivial) auto
    have IH: "beneficiaries_loop b (acc + br_weight b) bs = Some () \<longleftrightarrow>
        (\<forall>b \<in> set bs. is_valid_account_name (br_account b)) \<and>
        acc + br_weight b + sum_list (map br_weight bs) \<le> PERCENT_100 \<and>
        sorted_wrt (<) (map br_account (b # bs))"
      using Cons.prems True by (intro Cons.IH) auto
    have ss: "sorted_wrt (<) (map br_account (prev # b # bs)) \<longleftrightarrow>
        br_account prev < br_account b \<and> sorted_wrt (<) (map br_account (b # bs))"
      by (auto intro: less_trans)
    have "beneficiaries_loop prev acc (b # bs) = Some () \<longleftrightarrow>
        is_valid_account_name (br_account b) \<and> br_account prev < br_account b \<and>
        beneficiaries_loop b (acc + br_weight b) bs = Some ()"
      using True m by (auto simp: bind_Some_iff validate_account_name_def Let_def)
    then show ?thesis unfolding IH ss by auto
  next
    case False
    have "\<not> acc + sum_list (map br_weight (b # bs)) \<le> PERCENT_100"
      using False nn Cons.prems by auto
    moreover have "beneficiaries_loop prev acc (b # bs) \<noteq> Some ()"
    proof
      assume "beneficiaries_loop prev acc (b # bs) = Some ()"
      then have "br_weight b \<le> PERCENT_100" "(acc + br_weight b) mod 2 ^ 32 \<le> PERCENT_100"
        by (auto simp: bind_Some_iff Let_def)
      moreover have "(acc + br_weight b) mod 2 ^ 32 = acc + br_weight b"
        using calculation(1) Cons.prems P by (intro mod_pos_pos_trivial) auto
      ultimately show False using False by simp
    qed
    ultimately show ?thesis by blast
  qed
qed

text \<open>
  C18. \<open>comment_payout_beneficiaries::validate\<close> accepts exactly the lists of 1 to 127 valid accounts,
  strictly sorted (hence distinct), whose weights add up to at most 100 percent; the incremental
  32-bit sum never wraps around.
\<close>

theorem comment_payout_beneficiaries_validate_iff:
  assumes "\<forall>b \<in> set bs. 0 \<le> br_weight b"
  shows "comment_payout_beneficiaries_validate bs = Some () \<longleftrightarrow>
    1 \<le> length bs \<and> length bs \<le> 127 \<and> (\<forall>b \<in> set bs. is_valid_account_name (br_account b)) \<and>
    sum_list (map br_weight bs) \<le> PERCENT_100 \<and> sorted_wrt (<) (map br_account bs)"
proof (cases bs)
  case Nil
  then show ?thesis by (simp add: comment_payout_beneficiaries_validate_def)
next
  case (Cons b bs')
  have P: "PERCENT_100 = 10000" by (simp add: PERCENT_100_def)
  have nn: "0 \<le> sum_list (map br_weight bs')" using assms Cons by (intro sum_list_nonneg) auto
  show ?thesis
  proof (cases "br_weight b \<le> PERCENT_100")
    case True
    have m: "(0 + br_weight b) mod 2 ^ 32 = br_weight b"
      using assms Cons True P by (simp add: mod_pos_pos_trivial)
    have "comment_payout_beneficiaries_validate bs = Some () \<longleftrightarrow>
        length bs \<le> 127 \<and> is_valid_account_name (br_account b) \<and>
        beneficiaries_loop b (br_weight b) bs' = Some ()"
      using True m Cons
      by (auto simp: comment_payout_beneficiaries_validate_def bind_Some_iff validate_account_name_def)
    also have "beneficiaries_loop b (br_weight b) bs' = Some () \<longleftrightarrow>
        (\<forall>b \<in> set bs'. is_valid_account_name (br_account b)) \<and>
        br_weight b + sum_list (map br_weight bs') \<le> PERCENT_100 \<and>
        sorted_wrt (<) (map br_account (b # bs'))"
      using assms Cons True by (intro beneficiaries_loop_iff) auto
    finally show ?thesis using Cons by auto
  next
    case False
    then show ?thesis using Cons nn
      by (auto simp: comment_payout_beneficiaries_validate_def bind_Some_iff)
  qed
qed

theorem comment_payout_beneficiaries_validate_iff_witness:
  "comment_payout_beneficiaries_validate
     [\<lparr>br_account = ''alice'', br_weight = 7000\<rparr>, \<lparr>br_account = ''bob'', br_weight = 4000\<rparr>] \<noteq> Some ()"
proof -
  let ?bs = "[\<lparr>br_account = ''alice'', br_weight = 7000\<rparr>, \<lparr>br_account = ''bob'', br_weight = 4000\<rparr>]"
  have "\<forall>b \<in> set ?bs. 0 \<le> br_weight b" by simp
  from comment_payout_beneficiaries_validate_iff[OF this] show ?thesis
    by (simp add: PERCENT_100_def)
qed

end
