(* ===== verification/Transaction.thy ===== *)
theory Transaction
  imports Operations
begin

text \<open>
  Transactions and their authority checks (\<open>libraries/protocol/transaction.cpp\<close>).

  The exceptions that \<open>minimize_required_signatures\<close> tells apart are values of \<open>auth_error\<close>.
  Signature recovery is cryptography of libfc, so the functions take the keys that
  \<open>get_signature_keys\<close> computes as an argument; a \<open>flat_set\<close> of keys is a sorted list.

  Shown here: \<open>verify_authority\<close> only accepts when every authority that an operation of the
  transaction requires is satisfied by the signatures, and minimising a sufficient set of
  signatures keeps it sufficient.
\<close>

datatype auth_error =
    Assert_exception
  | Tx_missing_posting_auth
  | Tx_missing_active_auth
  | Tx_missing_owner_auth
  | Tx_missing_other_auth
  | Tx_irrelevant_sig

type_synonym authority_getter = "account_name_type \<Rightarrow> authority option"

record transaction =
  trx_ref_block_num :: nat
  trx_ref_block_prefix :: nat
  trx_expiration :: int
  trx_operations :: "operation list"

definition transaction_validate :: "fc_lib \<Rightarrow> transaction \<Rightarrow> unit option" where
  "transaction_validate F t = do {
     FC_ASSERT (length (trx_operations t) > 0);
     for_all_opt (operation_validate F) (trx_operations t) }"

definition no_required :: required_authorities where
  "no_required = \<lparr>req_active = [], req_owner = [], req_posting = [], req_other = []\<rparr>"

definition get_required_authorities :: "operation list \<Rightarrow> required_authorities" where
  "get_required_authorities ops = fold operation_get_required_authorities ops no_required"

type_synonym check_fun = "sign_state \<Rightarrow> (sign_state \<times> bool) option"

text \<open>\<open>a || b\<close> over checks that update the signature state.\<close>

definition or_check :: "check_fun \<Rightarrow> check_fun \<Rightarrow> check_fun" where
  "or_check f g s = do { (s', b) \<leftarrow> f s; if b then Some (s', True) else g s' }"

definition check_via :: "authority_getter \<Rightarrow> account_name_type \<Rightarrow> check_fun" where
  "check_via get i s = do { a \<leftarrow> get i; check_authority a s }"

fun check_each :: "('a \<Rightarrow> check_fun) \<Rightarrow> auth_error \<Rightarrow> 'a list \<Rightarrow> sign_state \<Rightarrow> auth_error + sign_state" where
  "check_each f e [] s = Inr s"
| "check_each f e (x # xs) s =
     (case f x s of
        None \<Rightarrow> Inl Assert_exception
      | Some (s', b) \<Rightarrow> if b then check_each f e xs s' else Inl e)"

definition ASSERT :: "bool \<Rightarrow> auth_error \<Rightarrow> auth_error + unit" where
  "ASSERT b e = (if b then Inr () else Inl e)"

definition start_state ::
  "public_key_type list \<Rightarrow> authority_getter \<Rightarrow> public_key_type list \<Rightarrow> nat \<Rightarrow> account_name_type list \<Rightarrow> sign_state" where
  "start_state sigs get avail depth approvals =
     (let s = (sign_state_make sigs get avail)\<lparr>max_recursion := depth\<rparr> in
      s\<lparr>approved_by := fold List.insert approvals (approved_by s)\<rparr>)"

definition verify_posting ::
  "required_authorities \<Rightarrow> public_key_type list \<Rightarrow> authority_getter \<Rightarrow> authority_getter \<Rightarrow> authority_getter \<Rightarrow>
   nat \<Rightarrow> account_name_type list \<Rightarrow> auth_error + unit" where
  "verify_posting r sigs get_act get_own get_post depth posting_approvals =
     sbind (ASSERT (length (req_active r) = 0) Assert_exception) (\<lambda>_.
     sbind (ASSERT (length (req_owner r) = 0) Assert_exception) (\<lambda>_.
     sbind (ASSERT (length (req_other r) = 0) Assert_exception) (\<lambda>_.
     sbind (check_each (\<lambda>i. or_check (check_authority_id i) (or_check (check_via get_act i) (check_via get_own i)))
              Tx_missing_posting_auth (req_posting r)
              (start_state sigs get_post [] depth posting_approvals)) (\<lambda>s.
     ASSERT (\<not> snd (remove_unused_signatures s)) Tx_irrelevant_sig))))"

definition verify_authority ::
  "operation list \<Rightarrow> public_key_type list \<Rightarrow> authority_getter \<Rightarrow> authority_getter \<Rightarrow> authority_getter \<Rightarrow>
   nat \<Rightarrow> account_name_type list \<Rightarrow> account_name_type list \<Rightarrow> account_name_type list \<Rightarrow> auth_error + unit" where
  "verify_authority ops sigs get_act get_own get_post depth
     active_approvals owner_approvals posting_approvals =
     (let r = get_required_authorities ops in
      if length (req_posting r) \<noteq> 0
      then verify_posting r sigs get_act get_own get_post depth posting_approvals
      else
        sbind (check_each check_authority Tx_missing_other_auth (req_other r)
                 (start_state sigs get_act [] depth (active_approvals @ owner_approvals))) (\<lambda>s1.
        sbind (check_each (\<lambda>i. or_check (check_authority_id i) (check_via get_own i))
                 Tx_missing_active_auth (req_active r) s1) (\<lambda>s2.
        sbind (check_each (\<lambda>i. or_check (\<lambda>s. Some (s, i \<in> set owner_approvals)) (check_via get_own i))
                 Tx_missing_owner_auth (req_owner r) s2) (\<lambda>s3.
        ASSERT (\<not> snd (remove_unused_signatures s3)) Tx_irrelevant_sig))))"

text \<open>Checks whose verdict is ignored, as in \<open>get_required_signatures\<close>.\<close>

fun run_each :: "('a \<Rightarrow> check_fun) \<Rightarrow> 'a list \<Rightarrow> sign_state \<Rightarrow> sign_state option" where
  "run_each f [] s = Some s"
| "run_each f (x # xs) s = do { (s', b) \<leftarrow> f x s; run_each f xs s' }"

definition available_provided :: "public_key_type list \<Rightarrow> sign_state \<Rightarrow> public_key_type list" where
  "available_provided avail s =
     fold insort_insert (filter (\<lambda>k. k \<in> set avail) (map fst (provided_signatures s))) []"

definition get_required_signatures ::
  "operation list \<Rightarrow> public_key_type list \<Rightarrow> public_key_type list \<Rightarrow>
   authority_getter \<Rightarrow> authority_getter \<Rightarrow> authority_getter \<Rightarrow> nat \<Rightarrow> public_key_type list option" where
  "get_required_signatures ops sigkeys avail get_act get_own get_post depth =
     (let r = get_required_authorities ops in
      if length (req_posting r) \<noteq> 0 then do {
        FC_ASSERT (length (req_owner r) = 0);
        FC_ASSERT (length (req_active r) = 0);
        s \<leftarrow> run_each check_authority_id (req_posting r)
               ((sign_state_make sigkeys get_post avail)\<lparr>max_recursion := depth\<rparr>);
        Some (available_provided avail (fst (remove_unused_signatures s))) }
      else do {
        s1 \<leftarrow> run_each check_authority (req_other r)
               ((sign_state_make sigkeys get_act avail)\<lparr>max_recursion := depth\<rparr>);
        s2 \<leftarrow> run_each (check_via get_own) (req_owner r) s1;
        s3 \<leftarrow> run_each check_authority_id (req_active r) s2;
        Some (available_provided avail (fst (remove_unused_signatures s3))) })"

fun minimize_loop ::
  "(public_key_type list \<Rightarrow> auth_error + unit) \<Rightarrow> public_key_type list \<Rightarrow> public_key_type list \<Rightarrow>
   auth_error + public_key_type list" where
  "minimize_loop verify [] result = Inr result"
| "minimize_loop verify (k # ks) result =
     (let erased = remove1 k result in
      case verify erased of
        Inr _ \<Rightarrow> minimize_loop verify ks erased
      | Inl e \<Rightarrow>
          if e \<in> {Tx_missing_owner_auth, Tx_missing_active_auth, Tx_missing_posting_auth,
                  Tx_missing_other_auth}
          then minimize_loop verify ks (insort_insert k erased)
          else Inl e)"

definition minimize_required_signatures ::
  "operation list \<Rightarrow> public_key_type list \<Rightarrow> public_key_type list \<Rightarrow>
   authority_getter \<Rightarrow> authority_getter \<Rightarrow> authority_getter \<Rightarrow> nat \<Rightarrow> auth_error + public_key_type list" where
  "minimize_required_signatures ops sigkeys avail get_act get_own get_post depth =
     (case get_required_signatures ops sigkeys avail get_act get_own get_post depth of
        None \<Rightarrow> Inl Assert_exception
      | Some s \<Rightarrow>
          minimize_loop (\<lambda>sigs. verify_authority ops sigs get_act get_own get_post depth [] [] []) s s)"

subsection \<open>Soundness of the checks\<close>

definition step_sound :: "(account_name_type \<Rightarrow> authority option) \<Rightarrow> public_key_type set \<Rightarrow>
  account_name_type set \<Rightarrow> check_fun \<Rightarrow> bool \<Rightarrow> bool" where
  "step_sound get keys appr f P \<longleftrightarrow>
     (\<forall>s s' b. sign_inv get keys appr s \<longrightarrow> f s = Some (s', b) \<longrightarrow>
        sign_inv get keys appr s' \<and> (b \<longrightarrow> P))"

lemma check_authority_step:
  "step_sound get keys appr (check_authority a) (authorised get keys appr a)"
  using check_authority_at_sound[of get keys appr]
  unfolding step_sound_def check_authority_def check_sound_def by blast

lemma check_via_step:
  "step_sound get keys appr (check_via g i) (\<exists>a. g i = Some a \<and> authorised get keys appr a)"
  using check_authority_step[of get keys appr]
  unfolding step_sound_def check_via_def by (fastforce simp: bind_Some_iff)

lemma check_authority_id_step:
  "step_sound get keys appr (check_authority_id i) (approved get keys appr i)"
  unfolding step_sound_def
proof (intro allI impI)
  fix s s' b
  assume inv: "sign_inv get keys appr s" and c: "check_authority_id i s = Some (s', b)"
  show "sign_inv get keys appr s' \<and> (b \<longrightarrow> approved get keys appr i)"
  proof (cases "i \<in> set (approved_by s)")
    case True
    then show ?thesis using inv c by (auto simp: check_authority_id_def sign_inv_def)
  next
    case False
    with c obtain a where "get_active s i = Some a" "check_authority a s = Some (s', b)"
      by (auto simp: check_authority_id_def bind_Some_iff)
    moreover have "get_active s = get" using inv by (simp add: sign_inv_def)
    ultimately show ?thesis using inv check_authority_step[of get keys appr a]
      unfolding step_sound_def approved_def by blast
  qed
qed

lemma or_check_step:
  assumes "step_sound get keys appr f P" "step_sound get keys appr g Q"
  shows "step_sound get keys appr (or_check f g) (P \<or> Q)"
  unfolding step_sound_def
proof (intro allI impI)
  fix s s' b
  assume inv: "sign_inv get keys appr s" and "or_check f g s = Some (s', b)"
  then obtain s1 c where f: "f s = Some (s1, c)" and
    r: "(if c then Some (s1, True) else g s1) = Some (s', b)"
    by (auto simp: or_check_def bind_Some_iff)
  from assms(1) inv f have f1: "sign_inv get keys appr s1" "c \<Longrightarrow> P"
    unfolding step_sound_def by blast+
  show "sign_inv get keys appr s' \<and> (b \<longrightarrow> P \<or> Q)"
  proof (cases c)
    case True
    then show ?thesis using r f1 by simp
  next
    case False
    then have "g s1 = Some (s', b)" using r by simp
    with assms(2) f1(1) show ?thesis unfolding step_sound_def by blast
  qed
qed

lemma check_each_sound:
  assumes "\<And>x. step_sound get keys appr (f x) (P x)"
    and "sign_inv get keys appr s" "check_each f e xs s = Inr s'"
  shows "sign_inv get keys appr s' \<and> (\<forall>x \<in> set xs. P x)"
  using assms(2,3)
proof (induction xs arbitrary: s)
  case Nil
  then show ?case by simp
next
  case (Cons x xs)
  then obtain s1 where s1: "f x s = Some (s1, True)" "check_each f e xs s1 = Inr s'"
    by (auto split: option.splits if_splits)
  with assms(1)[of x] Cons.prems(1) have "sign_inv get keys appr s1" "P x"
    unfolding step_sound_def by blast+
  with Cons.IH[OF _ s1(2)] show ?case by simp
qed

lemma set_fold_insert: "set (fold List.insert xs ys) = set xs \<union> set ys"
  by (induction xs arbitrary: ys) auto

lemma start_state_inv:
  "sign_inv get (set sigs \<union> set avail) (insert ''temp'' (set approvals))
     (start_state sigs get avail depth approvals)"
  by (auto simp: start_state_def sign_state_make_def sign_inv_def approved_def Let_def set_fold_insert)

lemma required_fold:
  "set (req_active (fold operation_get_required_authorities ops r)) =
     set (req_active r) \<union> (\<Union>op \<in> set ops. set (required_active op))"
  "set (req_owner (fold operation_get_required_authorities ops r)) =
     set (req_owner r) \<union> (\<Union>op \<in> set ops. set (required_owner op))"
  "set (req_posting (fold operation_get_required_authorities ops r)) =
     set (req_posting r) \<union> (\<Union>op \<in> set ops. set (required_posting op))"
  "set (req_other (fold operation_get_required_authorities ops r)) =
     set (req_other r) \<union> (\<Union>op \<in> set ops. set (required_other op))"
  by (induction ops arbitrary: r) (auto simp: operation_get_required_authorities_def)

lemma required_sets:
  "set (req_active (get_required_authorities ops)) = (\<Union>op \<in> set ops. set (required_active op))"
  "set (req_owner (get_required_authorities ops)) = (\<Union>op \<in> set ops. set (required_owner op))"
  "set (req_posting (get_required_authorities ops)) = (\<Union>op \<in> set ops. set (required_posting op))"
  "set (req_other (get_required_authorities ops)) = (\<Union>op \<in> set ops. set (required_other op))"
  by (simp_all add: get_required_authorities_def required_fold no_required_def)

text \<open>What a signed transaction has to establish for one operation.\<close>

definition signed_for ::
  "authority_getter \<Rightarrow> authority_getter \<Rightarrow> authority_getter \<Rightarrow> public_key_type set \<Rightarrow>
   account_name_type set \<Rightarrow> account_name_type set \<Rightarrow> account_name_type set \<Rightarrow> operation \<Rightarrow> bool" where
  "signed_for get_act get_own get_post K AA OA PA op \<longleftrightarrow>
     (\<forall>n \<in> set (required_posting op).
        approved get_post K (insert ''temp'' PA) n \<or>
        (\<exists>a. get_act n = Some a \<and> authorised get_post K (insert ''temp'' PA) a) \<or>
        (\<exists>a. get_own n = Some a \<and> authorised get_post K (insert ''temp'' PA) a)) \<and>
     (\<forall>n \<in> set (required_active op).
        approved get_act K (insert ''temp'' (AA \<union> OA)) n \<or>
        (\<exists>a. get_own n = Some a \<and> authorised get_act K (insert ''temp'' (AA \<union> OA)) a)) \<and>
     (\<forall>n \<in> set (required_owner op).
        n \<in> OA \<or> (\<exists>a. get_own n = Some a \<and> authorised get_act K (insert ''temp'' (AA \<union> OA)) a)) \<and>
     (\<forall>a \<in> set (required_other op). authorised get_act K (insert ''temp'' (AA \<union> OA)) a)"

lemma verify_posting_sound:
  assumes "verify_posting r sigs get_act get_own get_post depth PA = Inr ()"
  shows "req_active r = [] \<and> req_owner r = [] \<and> req_other r = [] \<and>
    (\<forall>n \<in> set (req_posting r).
        approved get_post (set sigs) (insert ''temp'' (set PA)) n \<or>
        (\<exists>a. get_act n = Some a \<and> authorised get_post (set sigs) (insert ''temp'' (set PA)) a) \<or>
        (\<exists>a. get_own n = Some a \<and> authorised get_post (set sigs) (insert ''temp'' (set PA)) a))"
proof -
  from assms obtain s where e: "req_active r = []" "req_owner r = []" "req_other r = []" and
    c: "check_each (\<lambda>i. or_check (check_authority_id i) (or_check (check_via get_act i) (check_via get_own i)))
          Tx_missing_posting_auth (req_posting r) (start_state sigs get_post [] depth PA) = Inr s"
    by (auto simp: verify_posting_def sbind_Inr_iff ASSERT_def split: if_splits)
  from check_each_sound[OF or_check_step[OF check_authority_id_step or_check_step[OF check_via_step check_via_step]]
        start_state_inv c]
  show ?thesis using e by simp
qed

lemma verify_active_sound:
  assumes "verify_authority ops sigs get_act get_own get_post depth AA OA PA = Inr ()"
    and "req_posting (get_required_authorities ops) = []"
  defines "A \<equiv> insert ''temp'' (set AA \<union> set OA)" and "r \<equiv> get_required_authorities ops"
  shows "(\<forall>n \<in> set (req_active r). approved get_act (set sigs) A n \<or>
            (\<exists>a. get_own n = Some a \<and> authorised get_act (set sigs) A a)) \<and>
    (\<forall>n \<in> set (req_owner r). n \<in> set OA \<or>
            (\<exists>a. get_own n = Some a \<and> authorised get_act (set sigs) A a)) \<and>
    (\<forall>a \<in> set (req_other r). authorised get_act (set sigs) A a)"
proof -
  from assms(1,2) obtain s1 s2 s3 where
    c1: "check_each check_authority Tx_missing_other_auth (req_other r)
           (start_state sigs get_act [] depth (AA @ OA)) = Inr s1" and
    c2: "check_each (\<lambda>i. or_check (check_authority_id i) (check_via get_own i))
           Tx_missing_active_auth (req_active r) s1 = Inr s2" and
    c3: "check_each (\<lambda>i. or_check (\<lambda>s. Some (s, i \<in> set OA)) (check_via get_own i))
           Tx_missing_owner_auth (req_owner r) s2 = Inr s3"
    by (auto simp: verify_authority_def r_def sbind_Inr_iff Let_def)
  have inv0: "sign_inv get_act (set sigs) A (start_state sigs get_act [] depth (AA @ OA))"
    using start_state_inv[of get_act sigs "[]" "AA @ OA" depth] by (simp add: A_def)
  note r1 = check_each_sound[OF check_authority_step inv0 c1]
  note r2 = check_each_sound[OF or_check_step[OF check_authority_id_step check_via_step] conjunct1[OF r1] c2]
  have own: "step_sound get_act (set sigs) A (\<lambda>s. Some (s, i \<in> set OA)) (i \<in> set OA)" for i
    by (simp add: step_sound_def)
  note r3 = check_each_sound[OF or_check_step[OF own check_via_step] conjunct1[OF r2] c3]
  from r1 r2 r3 show ?thesis by simp
qed

text \<open>
  C3. \<open>verify_authority\<close> is sound: if it accepts a transaction, then every posting, active and
  owner authority and every explicit authority that an operation of the transaction requires is
  satisfied by the given signatures and approvals, an active authority possibly through the owner
  authority and a posting authority possibly through the active or owner authority; and a
  transaction that needs posting authority needs nothing else.
\<close>

theorem verify_authority_sound:
  assumes "verify_authority ops sigs get_act get_own get_post depth AA OA PA = Inr ()"
  shows "(\<forall>op \<in> set ops. signed_for get_act get_own get_post (set sigs) (set AA) (set OA) (set PA) op) \<and>
    ((\<exists>op \<in> set ops. required_posting op \<noteq> []) \<longrightarrow>
       (\<forall>op \<in> set ops. required_active op = [] \<and> required_owner op = [] \<and> required_other op = []))"
proof (cases "req_posting (get_required_authorities ops) = []")
  case True
  then have np: "\<forall>op \<in> set ops. required_posting op = []" using required_sets(3)[of ops] by auto
  from verify_active_sound[OF assms True] show ?thesis
    unfolding required_sets signed_for_def using np by auto
next
  case False
  then have "verify_posting (get_required_authorities ops) sigs get_act get_own get_post depth PA = Inr ()"
    using assms by (simp add: verify_authority_def Let_def)
  note v = verify_posting_sound[OF this]
  then have e: "\<forall>op \<in> set ops. required_active op = [] \<and> required_owner op = [] \<and> required_other op = []"
    using required_sets(1,2,4)[of ops] by auto
  with v show ?thesis unfolding required_sets signed_for_def by auto
qed


definition example_transfer :: operation where
  "example_transfer = Transfer \<lparr>tr_from = ''alice'', tr_to = ''bob'',
     tr_amount = mk_asset 5 SYMBOL_COIN, tr_memo = []\<rparr>"

lemma example_required:
  "get_required_authorities [example_transfer] = no_required\<lparr>req_active := [''alice'']\<rparr>"
  by (simp add: get_required_authorities_def operation_get_required_authorities_def no_required_def
      example_transfer_def flat_insert_all_def insort_insert_key_def symbol_distinct)

lemma example_verifies:
  "verify_authority [example_transfer] [7, 9] example_auth example_auth example_auth (Suc (Suc 0)) [] [] []
     = Inr ()"
  by (simp add: verify_authority_def example_required no_required_def start_state_def
      sign_state_make_def or_check_def check_authority_id_def check_authority_def example_auth_def
      check_authority_body_def signed_by_def remove_unused_signatures_def ASSERT_def Let_def)

theorem verify_authority_sound_witness:
  "signed_for example_auth example_auth example_auth {7, 9} {} {} {} example_transfer"
  using verify_authority_sound[OF example_verifies] by simp

subsection \<open>Minimising signatures\<close>

lemma minimize_loop_ok:
  assumes "sorted R" "distinct R" "distinct ks" "set ks \<subseteq> set R" "verify R = Inr ()"
    and "minimize_loop verify ks R = Inr S"
  shows "verify S = Inr () \<and> set S \<subseteq> set R"
  using assms
proof (induction ks arbitrary: R)
  case Nil
  then show ?case by simp
next
  case (Cons k ks)
  let ?E = "remove1 k R"
  show ?case
  proof (cases "verify ?E")
    case (Inr u)
    have "verify S = Inr () \<and> set S \<subseteq> set ?E"
      using Cons.prems Inr by (intro Cons.IH) (auto simp: sorted_remove1)
    then show ?thesis using set_remove1_subset[of k R] by auto
  next
    case (Inl e)
    have "insort_insert k ?E = R"
      using Cons.prems by (simp add: insort_insert_key_def insort_remove1)
    then have "minimize_loop verify ks R = Inr S"
      using Cons.prems(6) Inl by (simp add: Let_def split: if_splits)
    then show ?thesis using Cons.prems by (intro Cons.IH) auto
  qed
qed

lemma sorted_fold_insort_insert:
  "sorted ys \<Longrightarrow> distinct ys \<Longrightarrow>
   sorted (fold insort_insert xs ys) \<and> distinct (fold insort_insert xs (ys :: 'a :: linorder list))"
  by (induction xs arbitrary: ys) (auto simp: sorted_insort_insert distinct_insort_insert)

lemma get_required_signatures_sorted:
  "get_required_signatures ops sigkeys avail get_act get_own get_post depth = Some R \<Longrightarrow>
   sorted R \<and> distinct R"
  by (auto simp: get_required_signatures_def available_provided_def Let_def bind_Some_iff
      sorted_fold_insort_insert split: if_splits)

text \<open>
  C16. Minimising is safe: if the set of keys that \<open>get_required_signatures\<close> proposes passes
  \<open>verify_authority\<close> and \<open>minimize_required_signatures\<close> returns, then the keys it returns are a
  subset of that set and pass \<open>verify_authority\<close> too.
\<close>

theorem minimize_keeps_sufficient:
  assumes "get_required_signatures ops sigkeys avail get_act get_own get_post depth = Some R"
    and "verify_authority ops R get_act get_own get_post depth [] [] [] = Inr ()"
    and "minimize_required_signatures ops sigkeys avail get_act get_own get_post depth = Inr S"
  shows "verify_authority ops S get_act get_own get_post depth [] [] [] = Inr () \<and> set S \<subseteq> set R"
proof -
  have sd: "sorted R" "distinct R" using get_required_signatures_sorted[OF assms(1)] by auto
  have "minimize_loop (\<lambda>sigs. verify_authority ops sigs get_act get_own get_post depth [] [] []) R R = Inr S"
    using assms(1,3) by (simp add: minimize_required_signatures_def)
  from minimize_loop_ok[OF sd sd(2) order_refl assms(2) this] show ?thesis .
qed

definition example_auth2 :: authority_getter where
  "example_auth2 n =
     (if n = ''alice'' then Some \<lparr>weight_threshold = 1, account_auths = [], key_auths = [(7, 1)]\<rparr>
      else None)"

lemma example2_facts:
  "get_required_signatures [example_transfer] [] [7] example_auth2 example_auth2 example_auth2 0 = Some [7]"
  "verify_authority [example_transfer] [7] example_auth2 example_auth2 example_auth2 0 [] [] [] = Inr ()"
  "minimize_required_signatures [example_transfer] [] [7] example_auth2 example_auth2 example_auth2 0 = Inr [7]"
proof -
  note ev = example_required no_required_def start_state_def
        sign_state_make_def or_check_def check_authority_id_def check_authority_def example_auth2_def
        check_authority_body_def signed_by_def remove_unused_signatures_def ASSERT_def Let_def
  show g: "get_required_signatures [example_transfer] [] [7] example_auth2 example_auth2 example_auth2 0 = Some [7]"
    by (simp add: get_required_signatures_def ev available_provided_def insort_insert_key_def)
  show v: "verify_authority [example_transfer] [7] example_auth2 example_auth2 example_auth2 0 [] [] [] = Inr ()"
    by (simp add: verify_authority_def ev)
  have "verify_authority [example_transfer] [] example_auth2 example_auth2 example_auth2 0 [] [] []
          = Inl Tx_missing_active_auth"
    by (simp add: verify_authority_def ev check_via_def)
  then show "minimize_required_signatures [example_transfer] [] [7] example_auth2 example_auth2 example_auth2 0 = Inr [7]"
    by (simp add: minimize_required_signatures_def g Let_def insort_insert_key_def)
qed

theorem minimize_keeps_sufficient_witness:
  "verify_authority [example_transfer] [7] example_auth2 example_auth2 example_auth2 0 [] [] [] = Inr ()
   \<and> set [7] \<subseteq> set [7 :: public_key_type]"
  by (rule minimize_keeps_sufficient[OF example2_facts])

end
