(* ===== verification/Objects.thy ===== *)
theory Objects
  imports Operations
begin

text \<open>
  The chain state (\<open>libraries/chain/include/node/chain/account_object.hpp\<close>, \<open>node_objects.hpp\<close>,
  \<open>global_property_object.hpp\<close>, \<open>witness_objects.hpp\<close>) and the lookups of
  \<open>libraries/chain/database.cpp\<close>.

  A chainbase index is the list of its rows in creation (\<open>id\<close>) order.  A C++ reference to a row is
  modelled by the unique key of the row, so that a read through a reference after a \<open>modify\<close> sees
  the modified row, as in the C++ code.  A secondary index of \<open>boost::multi_index\<close> is traversed by
  the order of its key (\<open>idx_sorted\<close>).  \<open>create\<close> takes the next id of the table and throws
  when a unique key is already present; only the unique keys that do not contain the id can clash.
  Virtual operations (\<open>push_virtual_operation\<close>) only notify plugins and are left out.
\<close>

type_synonym time = int

datatype object_type =
    account_object_type
  | account_authority_object_type
  | witness_object_type
  | witness_vote_object_type
  | limit_order_object_type
  | convert_request_object_type
  | liquidity_reward_balance_object_type
  | withdrawSCORE_route_object_type
  | owner_authority_history_object_type
  | account_recovery_request_object_type
  | change_recoveryAccount_request_object_type
  | escrow_object_type
  | savings_withdraw_object_type
  | decline_voting_rights_request_object_type
  | TME_fund_for_SCORE_delegation_object_type
  | TME_fund_for_SCORE_delegation_expiration_object_type
  | comment_object_type
  | comment_vote_object_type

definition MAX_PROXY_RECURSION_DEPTH :: nat where "MAX_PROXY_RECURSION_DEPTH = 4"

subsection \<open>Accounts\<close>

record account_object =
  acc_id :: nat
  acc_name :: account_name_type
  acc_memoKey :: public_key_type
  acc_json :: string
  acc_proxy :: account_name_type
  acc_last_accountUpdate :: time
  acc_created :: time
  acc_mined :: bool
  acc_owner_challenged :: bool
  acc_active_challenged :: bool
  acc_last_owner_proved :: time
  acc_last_active_proved :: time
  acc_recoveryAccount :: account_name_type
  acc_reset_account :: account_name_type
  acc_last_account_recovery :: time
  acc_comment_count :: int
  acc_lifetime_vote_count :: int
  acc_post_count :: int
  acc_can_vote :: bool
  acc_voting_power :: int
  acc_last_vote_time :: time
  acc_balance :: asset
  acc_TMEsavingsBalance :: asset
  acc_TSDbalance :: asset
  acc_TSD_seconds :: int
  acc_TSD_seconds_last_update :: time
  acc_TSD_last_interest_payment :: time
  acc_TSDsavingsBalance :: asset
  acc_savings_TSD_seconds :: int
  acc_savings_TSD_seconds_last_update :: time
  acc_savings_TSD_last_interest_payment :: time
  acc_savings_withdraw_requests :: int
  acc_SCORErewardBalanceInTME :: asset
  acc_TMErewardBalance :: asset
  acc_SCORErewardBalance :: asset
  acc_TSDrewardBalance :: asset
  acc_curationRewards :: int
  acc_posting_rewards :: int
  acc_SCORE :: asset
  acc_SCOREDelegated :: asset
  acc_SCOREreceived :: asset
  acc_SCOREwithdrawRateInTME :: asset
  acc_nextSCOREwithdrawalTime :: time
  acc_withdrawn :: int
  acc_to_withdraw :: int
  acc_withdraw_routes :: int
  acc_proxied_votes :: "int list"
  acc_witnesses_voted_for :: int
  acc_last_post :: time
  acc_last_root_post :: time
  acc_post_bandwidth :: int

fun safe_accumulate :: "fc_lib \<Rightarrow> int list \<Rightarrow> int \<Rightarrow> int option" where
  "safe_accumulate F [] s = Some s"
| "safe_accumulate F (x # xs) s = do { s' \<leftarrow> safe_add F s x; safe_accumulate F xs s' }"

definition witness_vote_weight :: "fc_lib \<Rightarrow> account_object \<Rightarrow> int option" where
  "witness_vote_weight F a = safe_accumulate F (acc_proxied_votes a) (amount (acc_SCORE a))"

definition proxied_votes_total :: "fc_lib \<Rightarrow> account_object \<Rightarrow> int option" where
  "proxied_votes_total F a = safe_accumulate F (acc_proxied_votes a) 0"

definition effective_SCORE :: "fc_lib \<Rightarrow> account_object \<Rightarrow> asset option" where
  "effective_SCORE F a = do {
     x \<leftarrow> asset_sub F (acc_SCORE a) (acc_SCOREDelegated a);
     asset_add F x (acc_SCOREreceived a) }"

record account_authority_object =
  aa_id :: nat
  aa_account :: account_name_type
  aa_owner :: authority
  aa_active :: authority
  aa_posting :: authority
  aa_last_owner_update :: time

record delegation_object =
  del_id :: nat
  del_delegator :: account_name_type
  del_delegatee :: account_name_type
  del_SCORE :: asset
  del_min_delegation_time :: time

record delegation_expiration_object =
  dex_id :: nat
  dex_delegator :: account_name_type
  dex_SCORE :: asset
  dex_expiration :: time

record owner_authority_history_object =
  oah_id :: nat
  oah_account :: account_name_type
  oah_previous_owner_authority :: authority
  oah_last_valid_time :: time

record account_recovery_request_object =
  arr_id :: nat
  arr_accountToRecover :: account_name_type
  arr_new_owner_authority :: authority
  arr_expires :: time

record change_recoveryAccount_request_object =
  crr_id :: nat
  crr_accountToRecover :: account_name_type
  crr_recoveryAccount :: account_name_type
  crr_effective_on :: time

subsection \<open>Pending requests, orders and funds\<close>

record convert_request_object =
  cvr_id :: nat
  cvr_owner :: account_name_type
  cvr_requestid :: nat
  cvr_amount :: asset
  cvr_conversion_date :: time

record escrow_object =
  esc_id :: nat
  esc_escrow_id :: nat
  esc_from :: account_name_type
  esc_to :: account_name_type
  esc_agent :: account_name_type
  esc_ratification_deadline :: time
  esc_escrow_expiration :: time
  esc_TSDbalance :: asset
  esc_TMEbalance :: asset
  esc_pending_fee :: asset
  esc_to_approved :: bool
  esc_agent_approved :: bool
  esc_disputed :: bool

definition is_approved :: "escrow_object \<Rightarrow> bool" where
  "is_approved e \<longleftrightarrow> esc_to_approved e \<and> esc_agent_approved e"

record savings_withdraw_object =
  svw_id :: nat
  svw_from :: account_name_type
  svw_to :: account_name_type
  svw_memo :: string
  svw_request_id :: nat
  svw_amount :: asset
  svw_complete :: time

record liquidity_reward_balance_object =
  liq_id :: nat
  liq_owner :: nat
  liq_TME_volume :: int
  liq_TSD_volume :: int
  liq_weight :: int
  liq_last_update :: time

definition liq_is_positive :: "liquidity_reward_balance_object \<Rightarrow> int" where
  "liq_is_positive r = (if liq_TME_volume r > 0 \<and> liq_TSD_volume r > 0 then 1 else 0)"

text \<open>\<open>TME_volume * TSD_volume\<close> is a product of two \<open>int64_t\<close> (two's complement wrap-around).\<close>

definition volume_weight :: "fc_lib \<Rightarrow> liquidity_reward_balance_object \<Rightarrow> int" where
  "volume_weight F r =
     u128_of F (wrap64 (wrap64 (liq_TME_volume r * liq_TSD_volume r) * liq_is_positive r))"

definition min_volume_weight :: "fc_lib \<Rightarrow> liquidity_reward_balance_object \<Rightarrow> int" where
  "min_volume_weight F r =
     u128_of F (min (liq_TME_volume r) (liq_TSD_volume r) * liq_is_positive r)"

definition update_weight ::
  "fc_lib \<Rightarrow> bool \<Rightarrow> liquidity_reward_balance_object \<Rightarrow> liquidity_reward_balance_object" where
  "update_weight F hf9 r = r\<lparr>liq_weight := (if hf9 then min_volume_weight F r else volume_weight F r)\<rparr>"

record feed_history_object =
  current_median_history :: price
  price_history :: "price list"

record limit_order_object =
  ord_id :: nat
  ord_created :: time
  ord_expiration :: time
  ord_seller :: account_name_type
  ord_orderid :: nat
  ord_for_sale :: int
  ord_sell_price :: price

definition get_market :: "limit_order_object \<Rightarrow> asset_symbol_type \<times> asset_symbol_type" where
  "get_market x =
     (let b = symbol (base (ord_sell_price x)); q = symbol (quote (ord_sell_price x)) in
      if b < q then (b, q) else (q, b))"

definition amount_for_sale :: "limit_order_object \<Rightarrow> asset" where
  "amount_for_sale x = mk_asset (ord_for_sale x) (symbol (base (ord_sell_price x)))"

definition amount_to_receive :: "fc_lib \<Rightarrow> limit_order_object \<Rightarrow> asset option" where
  "amount_to_receive F x = asset_mul_price F (amount_for_sale x) (ord_sell_price x)"

record withdrawSCORE_route_object =
  wro_id :: nat
  wro_from_account :: nat
  wro_to_account :: nat
  wro_percent :: int
  wro_autoSCORE :: bool

record decline_voting_rights_request_object =
  dvr_id :: nat
  dvr_account :: nat
  dvr_effective_date :: time

datatype curve_id = quadratic | quadratic_curation | linear | square_root

record reward_fund_object =
  rf_id :: nat
  rf_name :: string
  rf_reward_balance :: asset
  rf_recent_claims :: int
  rf_last_update :: time
  rf_content_constant :: int
  rf_percent_curationRewards :: int
  rf_percent_content_rewards :: int
  rf_authorReward_curve :: curve_id
  rf_curationReward_curve :: curve_id

subsection \<open>Global properties\<close>

record dynamic_global_property_object =
  gpo_head_block_number :: int
  gpo_time :: time
  gpo_current_witness :: account_name_type
  gpo_total_pow :: int
  gpo_num_pow_witnesses :: int
  gpo_virtual_supply :: asset
  gpo_current_supply :: asset
  gpo_confidential_supply :: asset
  gpo_current_TSD_supply :: asset
  gpo_confidential_TSD_supply :: asset
  gpo_totalTMEfundForSCORE :: asset
  gpo_totalSCORE :: asset
  gpo_total_reward_fund_TME :: asset
  gpo_totalSCOREreward2 :: int
  gpo_pending_rewarded_SCORE :: asset
  gpo_pending_rewarded_SCOREvalueInTME :: asset
  gpo_TSD_interest_rate :: int
  gpo_TSD_print_rate :: int
  gpo_maximum_block_size :: int
  gpo_current_aslot :: int
  gpo_recent_slots_filled :: int
  gpo_participation_count :: int
  gpo_last_irreversible_block_num :: int
  gpo_vote_power_reserve_rate :: int

definition get_SCORE_price :: "dynamic_global_property_object \<Rightarrow> price" where
  "get_SCORE_price g =
     (if amount (gpo_totalTMEfundForSCORE g) = 0 \<or> amount (gpo_totalSCORE g) = 0
      then mk_price (mk_asset 1000 SYMBOL_COIN) (mk_asset 1000000 SYMBOL_SCORE)
      else mk_price (gpo_totalSCORE g) (gpo_totalTMEfundForSCORE g))"

definition get_SCOREreward_price :: "fc_lib \<Rightarrow> dynamic_global_property_object \<Rightarrow> price option" where
  "get_SCOREreward_price F g = do {
     b \<leftarrow> asset_add F (gpo_totalSCORE g) (gpo_pending_rewarded_SCORE g);
     q \<leftarrow> asset_add F (gpo_totalTMEfundForSCORE g) (gpo_pending_rewarded_SCOREvalueInTME g);
     Some (mk_price b q) }"

subsection \<open>Comments\<close>

record comment_object =
  cmt_id :: nat
  cmt_category :: string
  cmt_parent_author :: account_name_type
  cmt_parent_permlink :: string
  cmt_author :: account_name_type
  cmt_permlink :: string
  cmt_title :: string
  cmt_body :: string
  cmt_json :: string
  cmt_last_update :: time
  cmt_created :: time
  cmt_active :: time
  cmt_last_payout :: time
  cmt_depth :: int
  cmt_children :: int
  cmt_net_SCOREreward :: int
  cmt_abs_SCOREreward :: int
  cmt_vote_SCOREreward :: int
  cmt_children_abs_SCOREreward :: int
  cmt_cashout_time :: time
  cmt_max_cashout_time :: time
  cmt_total_vote_weight :: int
  cmt_reward_weight :: int
  cmt_total_payout_value :: asset
  cmt_curator_payout_value :: asset
  cmt_beneficiary_payout_value :: asset
  cmt_authorRewards :: int
  cmt_net_votes :: int
  cmt_root_comment :: nat
  cmt_max_accepted_payout :: asset
  cmt_percent_TSD :: int
  cmt_allow_replies :: bool
  cmt_allow_votes :: bool
  cmt_allow_curationRewards :: bool
  cmt_beneficiaries :: "beneficiary_route_type list"

record comment_vote_object =
  cvo_id :: nat
  cvo_voter :: nat
  cvo_comment :: nat
  cvo_weight :: int
  cvo_SCOREreward :: int
  cvo_vote_percent :: int
  cvo_last_update :: time
  cvo_num_changes :: int

subsection \<open>Witnesses\<close>

datatype witness_schedule_type = top19 | timeshare | miner | none

record witness_object =
  wit_id :: nat
  wit_owner :: account_name_type
  wit_created :: time
  wit_url :: string
  wit_total_missed :: int
  wit_last_aslot :: int
  wit_last_confirmed_block_num :: int
  wit_pow_worker :: int
  wit_signing_key :: public_key_type
  wit_props :: chain_properties
  wit_TSD_exchange_rate :: price
  wit_last_TSD_exchange_update :: time
  wit_votes :: int
  wit_schedule :: witness_schedule_type
  wit_virtual_last_update :: int
  wit_virtual_position :: int
  wit_virtual_scheduled_time :: int
  wit_last_work :: int
  wit_running_version :: nat
  wit_hardfork_version_vote :: nat
  wit_hardfork_time_vote :: time

record witness_vote_object =
  wvo_id :: nat
  wvo_witness :: nat
  wvo_account :: nat

record witness_schedule_object =
  wso_current_virtual_time :: int
  wso_next_shuffle_block_num :: int
  wso_current_shuffled_witnesses :: "account_name_type list"
  wso_num_scheduled_witnesses :: nat
  wso_top19_weight :: int
  wso_timeshare_weight :: int
  wso_miner_weight :: int
  wso_witness_pay_normalization_factor :: int
  wso_median_props :: chain_properties
  wso_majority_version :: nat
  wso_max_voted_witnesses :: nat
  wso_max_miner_witnesses :: nat
  wso_max_runner_witnesses :: nat
  wso_hardfork_required_witnesses :: nat

end
