(* ===== verification/Database.thy ===== *)
theory Database
  imports Objects "HOL-Library.Product_Lexorder"
begin

text \<open>
  The state of \<open>node::chain::database\<close>, its lookups and the elementary row operations the
  evaluators are built from.  \<open>find_x\<close> and \<open>get_x\<close> differ, as in the code, in that \<open>get_x\<close> throws
  when there is no such row.
\<close>

record chain_db =
  db_accounts :: "account_object list"
  db_authorities :: "account_authority_object list"
  db_gpo :: dynamic_global_property_object
  db_feed :: feed_history_object
  db_wso :: witness_schedule_object
  db_processed_hardforks :: nat
  db_witnesses :: "witness_object list"
  db_witness_votes :: "witness_vote_object list"
  db_orders :: "limit_order_object list"
  db_converts :: "convert_request_object list"
  db_liquidity :: "liquidity_reward_balance_object list"
  db_routes :: "withdrawSCORE_route_object list"
  db_owner_history :: "owner_authority_history_object list"
  db_recovery_requests :: "account_recovery_request_object list"
  db_change_recovery :: "change_recoveryAccount_request_object list"
  db_escrows :: "escrow_object list"
  db_savings :: "savings_withdraw_object list"
  db_declines :: "decline_voting_rights_request_object list"
  db_reward_funds :: "reward_fund_object list"
  db_delegations :: "delegation_object list"
  db_delegation_exps :: "delegation_expiration_object list"
  db_next_id :: "object_type \<Rightarrow> nat"
  db_comments :: "comment_object list"
  db_comment_votes :: "comment_vote_object list"

definition head_block_time :: "chain_db \<Rightarrow> time" where
  "head_block_time d = gpo_time (db_gpo d)"

definition head_block_num :: "chain_db \<Rightarrow> int" where
  "head_block_num d = gpo_head_block_number (db_gpo d)"

text \<open>The constant \<open>HARDFORK_0_n\<close> and its aliases \<open>HARDFORK_0_n__issue\<close> are the number \<open>n\<close>.\<close>

definition has_hardfork :: "nat \<Rightarrow> chain_db \<Rightarrow> bool" where
  "has_hardfork hf d \<longleftrightarrow> db_processed_hardforks d > hf"

subsection \<open>Lookups\<close>

definition find_account :: "account_name_type \<Rightarrow> chain_db \<Rightarrow> account_object option" where
  "find_account n d = List.find (\<lambda>a. acc_name a = n) (db_accounts d)"

definition get_account :: "account_name_type \<Rightarrow> chain_db \<Rightarrow> account_object option" where
  "get_account n d = find_account n d"

definition get_account_id :: "nat \<Rightarrow> chain_db \<Rightarrow> account_object option" where
  "get_account_id i d = List.find (\<lambda>a. acc_id a = i) (db_accounts d)"

definition find_witness :: "account_name_type \<Rightarrow> chain_db \<Rightarrow> witness_object option" where
  "find_witness n d = List.find (\<lambda>w. wit_owner w = n) (db_witnesses d)"

definition get_witness :: "account_name_type \<Rightarrow> chain_db \<Rightarrow> witness_object option" where
  "get_witness n d = find_witness n d"

definition get_witness_id :: "nat \<Rightarrow> chain_db \<Rightarrow> witness_object option" where
  "get_witness_id i d = List.find (\<lambda>w. wit_id w = i) (db_witnesses d)"

definition find_escrow :: "account_name_type \<Rightarrow> nat \<Rightarrow> chain_db \<Rightarrow> escrow_object option" where
  "find_escrow n i d = List.find (\<lambda>e. esc_from e = n \<and> esc_escrow_id e = i) (db_escrows d)"

definition get_escrow :: "account_name_type \<Rightarrow> nat \<Rightarrow> chain_db \<Rightarrow> escrow_object option" where
  "get_escrow n i d = find_escrow n i d"

definition find_limit_order :: "account_name_type \<Rightarrow> nat \<Rightarrow> chain_db \<Rightarrow> limit_order_object option" where
  "find_limit_order n i d =
     (let i' = (if \<not> has_hardfork 6 d then i mod 2 ^ 16 else i) in
      List.find (\<lambda>x. ord_seller x = n \<and> ord_orderid x = i') (db_orders d))"

definition get_limit_order :: "account_name_type \<Rightarrow> nat \<Rightarrow> chain_db \<Rightarrow> limit_order_object option" where
  "get_limit_order n i d = find_limit_order n i d"

text \<open>A reference to an order is the pair of its seller and its order id, the unique key of the
  index \<open>by_account\<close>.\<close>

definition deref_order :: "account_name_type \<times> nat \<Rightarrow> chain_db \<Rightarrow> limit_order_object option" where
  "deref_order r d = List.find (\<lambda>x. (ord_seller x, ord_orderid x) = r) (db_orders d)"

definition find_savings_withdraw :: "account_name_type \<Rightarrow> nat \<Rightarrow> chain_db \<Rightarrow> savings_withdraw_object option" where
  "find_savings_withdraw n i d = List.find (\<lambda>s. svw_from s = n \<and> svw_request_id s = i) (db_savings d)"

definition get_savings_withdraw :: "account_name_type \<Rightarrow> nat \<Rightarrow> chain_db \<Rightarrow> savings_withdraw_object option" where
  "get_savings_withdraw n i d = find_savings_withdraw n i d"

definition find_delegation :: "account_name_type \<Rightarrow> account_name_type \<Rightarrow> chain_db \<Rightarrow> delegation_object option" where
  "find_delegation a b d = List.find (\<lambda>x. del_delegator x = a \<and> del_delegatee x = b) (db_delegations d)"

definition median_price :: "chain_db \<Rightarrow> price" where
  "median_price d = current_median_history (db_feed d)"

subsection \<open>Traversal of an ordered index\<close>

text \<open>The rows in the order of the key of a secondary index; rows with equal keys (a non-unique
  index) stay in insertion order.\<close>

definition idx_sorted :: "('a \<Rightarrow> 'k :: linorder) \<Rightarrow> 'a list \<Rightarrow> 'a list" where
  "idx_sorted key xs = sort_key key xs"

definition idx_begin :: "('a \<Rightarrow> 'k :: linorder) \<Rightarrow> 'a list \<Rightarrow> 'a option" where
  "idx_begin key xs = (case idx_sorted key xs of [] \<Rightarrow> None | x # _ \<Rightarrow> Some x)"

lemma set_idx_sorted [simp]: "set (idx_sorted key xs) = set xs"
  by (simp add: idx_sorted_def)

lemma idx_begin_None: "idx_begin key xs = None \<longleftrightarrow> xs = []"
proof -
  have "idx_sorted key xs = [] \<longleftrightarrow> xs = []"
    by (metis length_0_conv length_sort idx_sorted_def)
  then show ?thesis by (cases "idx_sorted key xs") (auto simp: idx_begin_def)
qed

lemma idx_begin_Some:
  "idx_begin key xs = Some x \<Longrightarrow> x \<in> set xs \<and> (\<forall>y \<in> set xs. key x \<le> key y)"
proof -
  assume "idx_begin key xs = Some x"
  then obtain r where r: "idx_sorted key xs = x # r"
    by (auto simp: idx_begin_def split: list.splits)
  have "sorted (map key (x # r))" using r[symmetric] by (simp add: idx_sorted_def)
  moreover have "set (x # r) = set xs" using r[symmetric] set_idx_sorted[of key xs] by simp
  ultimately show ?thesis by auto
qed

text \<open>The periodic clean-ups share one loop: while the first row of an index is due, it is handled and
  leaves the table.  The rows bound the number of rounds, so a loop with that much fuel ends with
  nothing due.\<close>

locale due_queue =
  fixes loop :: "nat \<Rightarrow> 's \<Rightarrow> 's option"
    and rows :: "'s \<Rightarrow> 'r list"
    and key :: "'r \<Rightarrow> 'k :: linorder"
    and due :: "'s \<Rightarrow> 'r \<Rightarrow> bool"
    and body :: "'r \<Rightarrow> 's \<Rightarrow> 's option"
  assumes loop_0: "loop 0 s = Some s"
    and loop_Suc: "loop (Suc n) s = (case idx_begin key (rows s) of
          None \<Rightarrow> Some s
        | Some r \<Rightarrow> if due s r then Option.bind (body r s) (loop n) else Some s)"
    and due_first: "key r \<le> key r' \<Longrightarrow> due s r' \<Longrightarrow> due s r"
    and body_shrinks: "r \<in> set (rows s) \<Longrightarrow> body r s = Some s' \<Longrightarrow> length (rows s') < length (rows s)"
begin

lemma loop_cases:
  assumes "loop (Suc n) s = Some s'"
  obtains (stop) "s' = s" "\<forall>r \<in> set (rows s). \<not> due s r"
    | (round) r s1 where "r \<in> set (rows s)" "idx_begin key (rows s) = Some r" "due s r" "body r s = Some s1"
        "loop n s1 = Some s'"
proof (cases "idx_begin key (rows s)")
  case None
  then have "s' = s" using assms by (simp add: loop_Suc)
  moreover have "rows s = []" using None by (simp add: idx_begin_None)
  ultimately show ?thesis by (intro stop) simp_all
next
  case (Some r)
  note r = idx_begin_Some[OF Some]
  show ?thesis
  proof (cases "due s r")
    case True
    then show ?thesis using assms Some r round by (auto simp: loop_Suc bind_Some_iff)
  next
    case False
    then have "\<forall>r' \<in> set (rows s). \<not> due s r'" using r due_first by blast
    then show ?thesis using assms Some False stop by (auto simp: loop_Suc)
  qed
qed

lemma loop_done: "loop n s = Some s' \<Longrightarrow> length (rows s) \<le> n \<Longrightarrow> \<forall>r \<in> set (rows s'). \<not> due s' r"
proof (induction n arbitrary: s)
  case 0
  then show ?case by (simp add: loop_0)
next
  case (Suc n)
  from Suc.prems(1) show ?case
  proof (cases rule: loop_cases)
    case (round r s1)
    with Suc.IH[OF round(5)] body_shrinks[OF round(1,4)] Suc.prems(2) show ?thesis by simp
  qed simp
qed

lemma loop_inv:
  assumes "\<And>r s s'. I s \<Longrightarrow> r \<in> set (rows s) \<Longrightarrow> due s r \<Longrightarrow> body r s = Some s' \<Longrightarrow> I s'"
  shows "loop n s = Some s' \<Longrightarrow> I s \<Longrightarrow> I s'"
proof (induction n arbitrary: s)
  case 0
  then show ?case by (simp add: loop_0)
next
  case (Suc n)
  from Suc.prems(1) show ?case
    by (cases rule: loop_cases) (use Suc.IH Suc.prems(2) assms in blast)+
qed

end

subsection \<open>Row operations\<close>

definition modify_account ::
  "account_name_type \<Rightarrow> (account_object \<Rightarrow> account_object option) \<Rightarrow> chain_db \<Rightarrow> chain_db option" where
  "modify_account n f d = do {
     xs \<leftarrow> tbl_modify (\<lambda>a. acc_name a = n) f (db_accounts d);
     Some (d\<lparr>db_accounts := xs\<rparr>) }"

definition modify_gpo ::
  "(dynamic_global_property_object \<Rightarrow> dynamic_global_property_object option) \<Rightarrow> chain_db \<Rightarrow> chain_db option" where
  "modify_gpo f d = do { g \<leftarrow> f (db_gpo d); Some (d\<lparr>db_gpo := g\<rparr>) }"

definition modify_witness_id ::
  "nat \<Rightarrow> (witness_object \<Rightarrow> witness_object option) \<Rightarrow> chain_db \<Rightarrow> chain_db option" where
  "modify_witness_id i f d = do {
     xs \<leftarrow> tbl_modify (\<lambda>w. wit_id w = i) f (db_witnesses d);
     Some (d\<lparr>db_witnesses := xs\<rparr>) }"

definition modify_escrow ::
  "account_name_type \<Rightarrow> nat \<Rightarrow> (escrow_object \<Rightarrow> escrow_object option) \<Rightarrow> chain_db \<Rightarrow> chain_db option" where
  "modify_escrow n i f d = do {
     xs \<leftarrow> tbl_modify (\<lambda>e. esc_from e = n \<and> esc_escrow_id e = i) f (db_escrows d);
     Some (d\<lparr>db_escrows := xs\<rparr>) }"

definition remove_escrow :: "account_name_type \<Rightarrow> nat \<Rightarrow> chain_db \<Rightarrow> chain_db" where
  "remove_escrow n i d =
     d\<lparr>db_escrows := tbl_remove (\<lambda>e. esc_from e = n \<and> esc_escrow_id e = i) (db_escrows d)\<rparr>"

definition take_id :: "object_type \<Rightarrow> chain_db \<Rightarrow> chain_db" where
  "take_id t d = d\<lparr>db_next_id := (db_next_id d)(t := Suc (db_next_id d t))\<rparr>"

definition create_escrow :: "escrow_object \<Rightarrow> chain_db \<Rightarrow> chain_db option" where
  "create_escrow e d = do {
     xs \<leftarrow> tbl_emplace (\<lambda>x y. esc_from x = esc_from y \<and> esc_escrow_id x = esc_escrow_id y)
            (e\<lparr>esc_id := db_next_id d escrow_object_type\<rparr>) (db_escrows d);
     Some ((take_id escrow_object_type d)\<lparr>db_escrows := xs\<rparr>) }"

definition create_convert :: "convert_request_object \<Rightarrow> chain_db \<Rightarrow> chain_db option" where
  "create_convert e d = do {
     xs \<leftarrow> tbl_emplace (\<lambda>x y. cvr_owner x = cvr_owner y \<and> cvr_requestid x = cvr_requestid y)
            (e\<lparr>cvr_id := db_next_id d convert_request_object_type\<rparr>) (db_converts d);
     Some ((take_id convert_request_object_type d)\<lparr>db_converts := xs\<rparr>) }"

definition find_convert :: "account_name_type \<Rightarrow> nat \<Rightarrow> chain_db \<Rightarrow> convert_request_object option" where
  "find_convert n i d = List.find (\<lambda>x. cvr_owner x = n \<and> cvr_requestid x = i) (db_converts d)"

definition remove_convert :: "account_name_type \<Rightarrow> nat \<Rightarrow> chain_db \<Rightarrow> chain_db" where
  "remove_convert n i d =
     d\<lparr>db_converts := tbl_remove (\<lambda>x. cvr_owner x = n \<and> cvr_requestid x = i) (db_converts d)\<rparr>"

definition create_savings :: "savings_withdraw_object \<Rightarrow> chain_db \<Rightarrow> chain_db option" where
  "create_savings e d = do {
     xs \<leftarrow> tbl_emplace (\<lambda>x y. svw_from x = svw_from y \<and> svw_request_id x = svw_request_id y)
            (e\<lparr>svw_id := db_next_id d savings_withdraw_object_type\<rparr>) (db_savings d);
     Some ((take_id savings_withdraw_object_type d)\<lparr>db_savings := xs\<rparr>) }"

definition remove_savings :: "account_name_type \<Rightarrow> nat \<Rightarrow> chain_db \<Rightarrow> chain_db" where
  "remove_savings n i d =
     d\<lparr>db_savings := tbl_remove (\<lambda>s. svw_from s = n \<and> svw_request_id s = i) (db_savings d)\<rparr>"

definition create_order :: "limit_order_object \<Rightarrow> chain_db \<Rightarrow> chain_db option" where
  "create_order e d = do {
     xs \<leftarrow> tbl_emplace (\<lambda>x y. ord_seller x = ord_seller y \<and> ord_orderid x = ord_orderid y)
            (e\<lparr>ord_id := db_next_id d limit_order_object_type\<rparr>) (db_orders d);
     Some ((take_id limit_order_object_type d)\<lparr>db_orders := xs\<rparr>) }"

definition modify_order ::
  "account_name_type \<times> nat \<Rightarrow> (limit_order_object \<Rightarrow> limit_order_object option) \<Rightarrow> chain_db \<Rightarrow> chain_db option" where
  "modify_order r f d = do {
     xs \<leftarrow> tbl_modify (\<lambda>x. (ord_seller x, ord_orderid x) = r) f (db_orders d);
     Some (d\<lparr>db_orders := xs\<rparr>) }"

definition remove_order :: "account_name_type \<times> nat \<Rightarrow> chain_db \<Rightarrow> chain_db" where
  "remove_order r d = d\<lparr>db_orders := tbl_remove (\<lambda>x. (ord_seller x, ord_orderid x) = r) (db_orders d)\<rparr>"

definition create_witness_vote :: "witness_vote_object \<Rightarrow> chain_db \<Rightarrow> chain_db option" where
  "create_witness_vote v d = do {
     xs \<leftarrow> tbl_emplace (\<lambda>x y. wvo_account x = wvo_account y \<and> wvo_witness x = wvo_witness y)
            (v\<lparr>wvo_id := db_next_id d witness_vote_object_type\<rparr>) (db_witness_votes d);
     Some ((take_id witness_vote_object_type d)\<lparr>db_witness_votes := xs\<rparr>) }"

definition create_route :: "withdrawSCORE_route_object \<Rightarrow> chain_db \<Rightarrow> chain_db option" where
  "create_route v d = do {
     xs \<leftarrow> tbl_emplace (\<lambda>x y. wro_from_account x = wro_from_account y \<and> wro_to_account x = wro_to_account y)
            (v\<lparr>wro_id := db_next_id d withdrawSCORE_route_object_type\<rparr>) (db_routes d);
     Some ((take_id withdrawSCORE_route_object_type d)\<lparr>db_routes := xs\<rparr>) }"

definition create_decline :: "decline_voting_rights_request_object \<Rightarrow> chain_db \<Rightarrow> chain_db option" where
  "create_decline v d = do {
     xs \<leftarrow> tbl_emplace (\<lambda>x y. dvr_account x = dvr_account y)
            (v\<lparr>dvr_id := db_next_id d decline_voting_rights_request_object_type\<rparr>) (db_declines d);
     Some ((take_id decline_voting_rights_request_object_type d)\<lparr>db_declines := xs\<rparr>) }"

definition create_delegation :: "delegation_object \<Rightarrow> chain_db \<Rightarrow> chain_db option" where
  "create_delegation v d = do {
     xs \<leftarrow> tbl_emplace (\<lambda>x y. del_delegator x = del_delegator y \<and> del_delegatee x = del_delegatee y)
            (v\<lparr>del_id := db_next_id d TME_fund_for_SCORE_delegation_object_type\<rparr>) (db_delegations d);
     Some ((take_id TME_fund_for_SCORE_delegation_object_type d)\<lparr>db_delegations := xs\<rparr>) }"

definition create_delegation_exp :: "delegation_expiration_object \<Rightarrow> chain_db \<Rightarrow> chain_db option" where
  "create_delegation_exp v d = do {
     xs \<leftarrow> tbl_emplace (\<lambda>x y. False)
            (v\<lparr>dex_id := db_next_id d TME_fund_for_SCORE_delegation_expiration_object_type\<rparr>)
            (db_delegation_exps d);
     Some ((take_id TME_fund_for_SCORE_delegation_expiration_object_type d)\<lparr>db_delegation_exps := xs\<rparr>) }"

subsection \<open>What row operations leave alone\<close>

text \<open>Reading an account after a modification of the same or another account.\<close>

lemma find_account_modify_same:
  assumes "modify_account n f d = Some d'" "\<And>a b. f a = Some b \<Longrightarrow> acc_name b = acc_name a"
  shows "\<exists>a b. find_account n d = Some a \<and> f a = Some b \<and> find_account n d' = Some b"
proof -
  from assms(1) obtain xs where xs: "tbl_modify (\<lambda>a. acc_name a = n) f (db_accounts d) = Some xs"
    "d' = d\<lparr>db_accounts := xs\<rparr>"
    by (auto simp: modify_account_def bind_Some_iff)
  from find_modify_same[OF xs(1)] assms(2) show ?thesis by (auto simp: find_account_def xs(2))
qed

lemma find_account_modify_other:
  assumes "modify_account n f d = Some d'" "\<And>a b. f a = Some b \<Longrightarrow> acc_name b = acc_name a" "m \<noteq> n"
  shows "find_account m d' = find_account m d"
proof -
  from assms(1) obtain xs where xs: "tbl_modify (\<lambda>a. acc_name a = n) f (db_accounts d) = Some xs"
    "d' = d\<lparr>db_accounts := xs\<rparr>"
    by (auto simp: modify_account_def bind_Some_iff)
  have "List.find (\<lambda>a. acc_name a = m) xs = List.find (\<lambda>a. acc_name a = m) (db_accounts d)"
    by (rule find_modify_other[OF xs(1)]) (use assms(2,3) in auto)
  then show ?thesis by (simp add: find_account_def xs(2))
qed

lemma modify_account_fields:
  assumes "modify_account n f d = Some d'"
  shows "d' = d\<lparr>db_accounts := db_accounts d'\<rparr>"
  using assms by (auto simp: modify_account_def bind_Some_iff)

end
