(* ===== verification/Ledger.thy ===== *)
theory Ledger
  imports Database "HOL-Library.Multiset"
begin

text \<open>
  Balances, supply and the supply invariants of \<open>libraries/chain/database.cpp\<close>:
  \<open>adjust_balance\<close>, \<open>adjust_TMEsavingsBalance\<close>, \<open>adjust_reward_balance\<close>, \<open>adjust_supply\<close>,
  \<open>get_balance\<close>, \<open>get_TMEsavingsBalance\<close>, \<open>update_virtual_supply\<close> and \<open>validate_invariants\<close>.

  The invariants are turned into four gaps, the recorded supply minus what accounts, orders,
  escrows, requests and funds hold: \<open>gap_TME\<close>, \<open>gap_TSD\<close>, \<open>gap_SCORE\<close> and \<open>gap_PEND\<close>.  Every
  elementary operation has a lemma that says by how much it moves each gap.  The C \<open>assert\<close>s of
  the code are off in release builds and are not modelled.
\<close>

definition SECONDS_PER_YEAR :: int where "SECONDS_PER_YEAR = 60 * 60 * 24 * 365"
definition TSD_INTEREST_COMPOUND_INTERVAL_SEC :: int where
  "TSD_INTEREST_COMPOUND_INTERVAL_SEC = 60 * 60 * 24 * 30"
definition BLOCKS_PER_DAY :: int where "BLOCKS_PER_DAY = 24 * 60 * 60"
definition TSD_START_PERCENT :: int where "TSD_START_PERCENT = 100"
definition TSD_STOP_PERCENT :: int where "TSD_STOP_PERCENT = 200"

subsection \<open>Adjusting balances\<close>

text \<open>The interest block shared by the liquid and the savings balance: new balance, accumulated
  seconds, time of the last update, time of the last payment and the interest paid, if any.\<close>

definition accrue_interest ::
  "fc_lib \<Rightarrow> chain_db \<Rightarrow> asset \<Rightarrow> int \<Rightarrow> time \<Rightarrow> time \<Rightarrow> (asset \<times> int \<times> time \<times> time \<times> asset option) option" where
  "accrue_interest F d bal seconds last_update last_payment =
     (let now = head_block_time d in
      if last_update \<noteq> now then
        let seconds' = u128_add F seconds
              (u128_mul F (u128_of F (amount bal)) (u128_of F (secs_diff F now last_update))) in
        if seconds' > 0 \<and> secs_diff F now last_payment > TSD_INTEREST_COMPOUND_INTERVAL_SEC then do {
          i1 \<leftarrow> u128_div F seconds' (u128_of F SECONDS_PER_YEAR);
          i2 \<leftarrow> u128_div F (u128_mul F i1 (u128_of F (gpo_TSD_interest_rate (db_gpo d))))
                         (u128_of F PERCENT_100);
          v \<leftarrow> u128_to_uint64 F i2;
          let interest_paid = mk_asset (int64_of_uint64 v) SYMBOL_USD;
          bal' \<leftarrow> asset_add F bal interest_paid;
          Some (bal', 0, now, now, Some interest_paid) }
        else Some (bal, seconds', now, last_payment, None)
      else Some (bal, seconds, last_update, last_payment, None))"

definition issue_interest :: "fc_lib \<Rightarrow> asset option \<Rightarrow> chain_db \<Rightarrow> chain_db option" where
  "issue_interest F paid d =
     (case paid of None \<Rightarrow> Some d
      | Some i \<Rightarrow> modify_gpo (\<lambda>g. do {
          s \<leftarrow> asset_add F (gpo_current_TSD_supply g) i;
          w \<leftarrow> asset_mul_price F i (median_price d);
          v \<leftarrow> asset_add F (gpo_virtual_supply g) w;
          Some (g\<lparr>gpo_current_TSD_supply := s, gpo_virtual_supply := v\<rparr>) }) d)"

definition adjust_balance :: "fc_lib \<Rightarrow> account_name_type \<Rightarrow> asset \<Rightarrow> chain_db \<Rightarrow> chain_db option" where
  "adjust_balance F n delta d =
     (if symbol delta = SYMBOL_COIN then
        modify_account n (\<lambda>a. do {
          b \<leftarrow> asset_add F (acc_balance a) delta;
          Some (a\<lparr>acc_balance := b\<rparr>) }) d
      else if symbol delta = SYMBOL_USD then do {
        a \<leftarrow> get_account n d;
        (bal, secs, upd, paid_at, paid) \<leftarrow> accrue_interest F d (acc_TSDbalance a) (acc_TSD_seconds a)
             (acc_TSD_seconds_last_update a) (acc_TSD_last_interest_payment a);
        b \<leftarrow> asset_add F bal delta;
        d' \<leftarrow> modify_account n (\<lambda>a. Some (a\<lparr>acc_TSDbalance := b, acc_TSD_seconds := secs,
             acc_TSD_seconds_last_update := upd, acc_TSD_last_interest_payment := paid_at\<rparr>)) d;
        issue_interest F paid d' }
      else None)"

definition adjust_TMEsavingsBalance :: "fc_lib \<Rightarrow> account_name_type \<Rightarrow> asset \<Rightarrow> chain_db \<Rightarrow> chain_db option" where
  "adjust_TMEsavingsBalance F n delta d =
     (if symbol delta = SYMBOL_COIN then
        modify_account n (\<lambda>a. do {
          b \<leftarrow> asset_add F (acc_TMEsavingsBalance a) delta;
          Some (a\<lparr>acc_TMEsavingsBalance := b\<rparr>) }) d
      else if symbol delta = SYMBOL_USD then do {
        a \<leftarrow> get_account n d;
        (bal, secs, upd, paid_at, paid) \<leftarrow> accrue_interest F d (acc_TSDsavingsBalance a)
             (acc_savings_TSD_seconds a) (acc_savings_TSD_seconds_last_update a)
             (acc_savings_TSD_last_interest_payment a);
        b \<leftarrow> asset_add F bal delta;
        d' \<leftarrow> modify_account n (\<lambda>a. Some (a\<lparr>acc_TSDsavingsBalance := b, acc_savings_TSD_seconds := secs,
             acc_savings_TSD_seconds_last_update := upd, acc_savings_TSD_last_interest_payment := paid_at\<rparr>)) d;
        issue_interest F paid d' }
      else None)"

definition adjust_reward_balance :: "fc_lib \<Rightarrow> account_name_type \<Rightarrow> asset \<Rightarrow> chain_db \<Rightarrow> chain_db option" where
  "adjust_reward_balance F n delta d =
     (if symbol delta = SYMBOL_COIN then
        modify_account n (\<lambda>a. do {
          b \<leftarrow> asset_add F (acc_TMErewardBalance a) delta;
          Some (a\<lparr>acc_TMErewardBalance := b\<rparr>) }) d
      else if symbol delta = SYMBOL_USD then
        modify_account n (\<lambda>a. do {
          b \<leftarrow> asset_add F (acc_TSDrewardBalance a) delta;
          Some (a\<lparr>acc_TSDrewardBalance := b\<rparr>) }) d
      else None)"

definition adjust_supply :: "fc_lib \<Rightarrow> asset \<Rightarrow> bool \<Rightarrow> chain_db \<Rightarrow> chain_db option" where
  "adjust_supply F delta adjust_TME_fund_for_SCORE d =
     (let adj = (if head_block_num d < BLOCKS_PER_DAY * 7 then False else adjust_TME_fund_for_SCORE) in
      modify_gpo (\<lambda>g.
        if symbol delta = SYMBOL_COIN then do {
          n \<leftarrow> (if adj \<and> amount delta > 0 then safe_mul F (amount delta) 9 else Some 0);
          let newSCORE = mk_asset n SYMBOL_COIN;
          t \<leftarrow> asset_add F delta newSCORE;
          s \<leftarrow> asset_add F (gpo_current_supply g) t;
          v \<leftarrow> asset_add F (gpo_virtual_supply g) t;
          f \<leftarrow> asset_add F (gpo_totalTMEfundForSCORE g) newSCORE;
          Some (g\<lparr>gpo_current_supply := s, gpo_virtual_supply := v, gpo_totalTMEfundForSCORE := f\<rparr>) }
        else if symbol delta = SYMBOL_USD then do {
          s \<leftarrow> asset_add F (gpo_current_TSD_supply g) delta;
          w \<leftarrow> asset_mul_price F s (median_price d);
          v \<leftarrow> asset_add F w (gpo_current_supply g);
          Some (g\<lparr>gpo_current_TSD_supply := s, gpo_virtual_supply := v\<rparr>) }
        else None) d)"

definition get_balance :: "account_object \<Rightarrow> asset_symbol_type \<Rightarrow> asset option" where
  "get_balance a s =
     (if s = SYMBOL_COIN then Some (acc_balance a)
      else if s = SYMBOL_USD then Some (acc_TSDbalance a)
      else None)"

definition get_TMEsavingsBalance :: "account_object \<Rightarrow> asset_symbol_type \<Rightarrow> asset option" where
  "get_TMEsavingsBalance a s =
     (if s = SYMBOL_COIN then Some (acc_TMEsavingsBalance a)
      else if s = SYMBOL_USD then Some (acc_TSDsavingsBalance a)
      else None)"

definition update_virtual_supply :: "fc_lib \<Rightarrow> chain_db \<Rightarrow> chain_db option" where
  "update_virtual_supply F d = modify_gpo (\<lambda>g. do {
     w \<leftarrow> (if price_is_null F (median_price d) then Some (mk_asset 0 SYMBOL_COIN)
          else asset_mul_price F (gpo_current_TSD_supply g) (median_price d));
     v \<leftarrow> asset_add F (gpo_current_supply g) w;
     let g1 = g\<lparr>gpo_virtual_supply := v\<rparr>;
     if \<not> price_is_null F (median_price d) \<and> has_hardfork 14 d then do {
       x \<leftarrow> asset_mul_price F (gpo_current_TSD_supply g1) (median_price d);
       q \<leftarrow> u128_div F (u128_mul F (u128_of F (amount x)) (u128_of F PERCENT_100))
                     (u128_of F (amount (gpo_virtual_supply g1)));
       p \<leftarrow> u128_to_uint64 F q;
       let percent_TSD = p mod 2 ^ 16;
       Some (g1\<lparr>gpo_TSD_print_rate :=
               (if percent_TSD \<le> TSD_START_PERCENT then PERCENT_100
                else if percent_TSD \<ge> TSD_STOP_PERCENT then 0
                else (TSD_STOP_PERCENT - percent_TSD) * PERCENT_100 div
                     (TSD_STOP_PERCENT - TSD_START_PERCENT))\<rparr>) }
     else Some g1 }) d"

subsection \<open>The gaps\<close>

definition tme :: "asset \<Rightarrow> int" where
  "tme x = (if symbol x = SYMBOL_COIN then amount x else 0)"

definition tsd :: "asset \<Rightarrow> int" where
  "tsd x = (if symbol x = SYMBOL_USD then amount x else 0)"

definition acct_TME :: "account_object \<Rightarrow> int" where
  "acct_TME a = amount (acc_balance a) + amount (acc_TMEsavingsBalance a) + amount (acc_TMErewardBalance a)"

definition acct_TSD :: "account_object \<Rightarrow> int" where
  "acct_TSD a = amount (acc_TSDbalance a) + amount (acc_TSDsavingsBalance a) + amount (acc_TSDrewardBalance a)"

definition acct_SCORE :: "account_object \<Rightarrow> int" where
  "acct_SCORE a = amount (acc_SCORE a) + amount (acc_SCORErewardBalance a)"

definition acct_PEND :: "account_object \<Rightarrow> int" where
  "acct_PEND a = amount (acc_SCORErewardBalanceInTME a)"

definition gap_TME :: "chain_db \<Rightarrow> int" where
  "gap_TME d = amount (gpo_current_supply (db_gpo d)) -
     (tsum acct_TME (db_accounts d) + tsum (\<lambda>c. tme (cvr_amount c)) (db_converts d)
      + tsum (\<lambda>x. tme (amount_for_sale x)) (db_orders d)
      + tsum (\<lambda>e. amount (esc_TMEbalance e) + tme (esc_pending_fee e)) (db_escrows d)
      + tsum (\<lambda>s. tme (svw_amount s)) (db_savings d)
      + tsum (\<lambda>r. amount (rf_reward_balance r)) (db_reward_funds d)
      + amount (gpo_totalTMEfundForSCORE (db_gpo d)) + amount (gpo_total_reward_fund_TME (db_gpo d))
      + amount (gpo_pending_rewarded_SCOREvalueInTME (db_gpo d)))"

definition gap_TSD :: "chain_db \<Rightarrow> int" where
  "gap_TSD d = amount (gpo_current_TSD_supply (db_gpo d)) -
     (tsum acct_TSD (db_accounts d) + tsum (\<lambda>c. tsd (cvr_amount c)) (db_converts d)
      + tsum (\<lambda>x. tsd (amount_for_sale x)) (db_orders d)
      + tsum (\<lambda>e. amount (esc_TSDbalance e) + tsd (esc_pending_fee e)) (db_escrows d)
      + tsum (\<lambda>s. tsd (svw_amount s)) (db_savings d))"

definition gap_SCORE :: "chain_db \<Rightarrow> int" where
  "gap_SCORE d = amount (gpo_totalSCORE (db_gpo d)) + amount (gpo_pending_rewarded_SCORE (db_gpo d))
     - tsum acct_SCORE (db_accounts d)"

definition gap_PEND :: "chain_db \<Rightarrow> int" where
  "gap_PEND d = amount (gpo_pending_rewarded_SCOREvalueInTME (db_gpo d)) - tsum acct_PEND (db_accounts d)"

definition gaps :: "chain_db \<Rightarrow> int \<times> int \<times> int \<times> int" where
  "gaps d = (gap_TME d, gap_TSD d, gap_SCORE d, gap_PEND d)"

lemmas gap_defs = gap_TME_def gap_TSD_def gap_SCORE_def gap_PEND_def
lemmas acct_defs = acct_TME_def acct_TSD_def acct_SCORE_def acct_PEND_def

text \<open>\<open>moves d d' t s v p\<close>: the step from \<open>d\<close> to \<open>d'\<close> adds the four amounts to what is held beyond
  the recorded supply.\<close>

definition moves :: "chain_db \<Rightarrow> chain_db \<Rightarrow> int \<Rightarrow> int \<Rightarrow> int \<Rightarrow> int \<Rightarrow> bool" where
  "moves d d' t s v p \<longleftrightarrow> gap_TME d' = gap_TME d - t \<and> gap_TSD d' = gap_TSD d - s \<and>
     gap_SCORE d' = gap_SCORE d - v \<and> gap_PEND d' = gap_PEND d - p"

lemma moves_refl: "moves d d 0 0 0 0"
  by (simp add: moves_def)

lemma moves_trans:
  "moves d d1 t s v p \<Longrightarrow> moves d1 d2 t' s' v' p' \<Longrightarrow> moves d d2 (t + t') (s + s') (v + v') (p + p')"
  by (simp add: moves_def)

lemma moves_gaps: "moves d d' 0 0 0 0 \<longleftrightarrow> gaps d' = gaps d"
  by (auto simp: moves_def gaps_def)

lemma modify_account_moves:
  assumes "modify_account n f d = Some d'"
  shows "\<exists>a b. find_account n d = Some a \<and> f a = Some b \<and>
    moves d d' (acct_TME b - acct_TME a) (acct_TSD b - acct_TSD a) (acct_SCORE b - acct_SCORE a)
      (acct_PEND b - acct_PEND a)"
proof -
  from assms obtain xs where xs: "tbl_modify (\<lambda>a. acc_name a = n) f (db_accounts d) = Some xs"
    and d': "d' = d\<lparr>db_accounts := xs\<rparr>"
    by (auto simp: modify_account_def bind_Some_iff)
  from tsum_modify[OF xs, of "\<lambda>_. 0"] obtain a b where ab: "find_account n d = Some a" "f a = Some b"
    by (auto simp: find_account_def)
  have "tsum g xs = tsum g (db_accounts d) - g a + g b" for g
    using tsum_modify_find[OF xs] ab by (simp add: find_account_def)
  then have "moves d d' (acct_TME b - acct_TME a) (acct_TSD b - acct_TSD a) (acct_SCORE b - acct_SCORE a)
      (acct_PEND b - acct_PEND a)"
    by (simp add: moves_def gap_defs d')
  with ab show ?thesis by blast
qed

lemma modify_account_same:
  assumes "modify_account n f d = Some d'"
    and "\<And>a b. f a = Some b \<Longrightarrow> acct_TME b = acct_TME a \<and> acct_TSD b = acct_TSD a \<and>
           acct_SCORE b = acct_SCORE a \<and> acct_PEND b = acct_PEND a"
  shows "moves d d' 0 0 0 0"
  using modify_account_moves[OF assms(1)] assms(2) by fastforce

lemma modify_gpo_moves:
  assumes "modify_gpo f d = Some d'"
  shows "\<exists>g. f (db_gpo d) = Some g \<and> d' = d\<lparr>db_gpo := g\<rparr>"
  using assms by (auto simp: modify_gpo_def bind_Some_iff)

context fc_safe
begin

lemma asset_add_SomeD:
  "asset_add F a b = Some c \<Longrightarrow> symbol a = symbol b \<and> symbol c = symbol a \<and> amount c = amount a + amount b"
  by (auto simp: asset_add_def bind_Some_iff safe_add_law split: if_splits)

lemma asset_sub_SomeD:
  "asset_sub F a b = Some c \<Longrightarrow> symbol a = symbol b \<and> symbol c = symbol a \<and> amount c = amount a - amount b"
  by (auto simp: asset_sub_def bind_Some_iff safe_sub_law split: if_splits)

lemma asset_neg_SomeD:
  "asset_neg F a = Some c \<Longrightarrow> symbol c = symbol a \<and> amount c = - amount a"
  by (auto simp: asset_neg_def bind_Some_iff safe_neg_law split: if_splits)

lemma accrue_interest_SomeD:
  assumes "accrue_interest F d bal secs upd pay = Some (bal', secs', upd', pay', paid)"
  shows "symbol bal' = symbol bal \<and>
    amount bal' = amount bal + (case paid of None \<Rightarrow> 0 | Some i \<Rightarrow> amount i)"
  using assms
  by (auto simp: accrue_interest_def Let_def bind_Some_iff dest!: asset_add_SomeD split: if_splits)

lemma issue_interest_SomeD:
  assumes "issue_interest F paid d = Some d'"
  shows "moves d d' 0 (- (case paid of None \<Rightarrow> 0 | Some i \<Rightarrow> amount i)) 0 0 \<and>
    (\<exists>g. d' = d\<lparr>db_gpo := g\<rparr> \<and> gpo_time g = gpo_time (db_gpo d))"
proof (cases paid)
  case None
  then show ?thesis using assms
    by (auto simp: issue_interest_def moves_def intro!: exI[of _ "db_gpo d"])
next
  case (Some i)
  with assms obtain g where "d' = d\<lparr>db_gpo := g\<rparr>"
    and "\<exists>s v. amount s = amount (gpo_current_TSD_supply (db_gpo d)) + amount i \<and>
           g = (db_gpo d)\<lparr>gpo_current_TSD_supply := s, gpo_virtual_supply := v\<rparr>"
    by (auto simp: issue_interest_def bind_Some_iff dest!: modify_gpo_moves asset_add_SomeD) blast
  then show ?thesis using Some by (auto simp: moves_def gap_defs)
qed

text \<open>\<open>adjust_balance\<close> moves exactly \<open>delta\<close> into the account; interest is issued and paid alike.\<close>

lemma adjust_balance_moves:
  assumes "adjust_balance F n delta d = Some d'"
  shows "moves d d' (tme delta) (tsd delta) 0 0"
proof (cases "symbol delta = SYMBOL_COIN")
  case True
  with assms have "modify_account n (\<lambda>a. do {
          b \<leftarrow> asset_add F (acc_balance a) delta;
          Some (a\<lparr>acc_balance := b\<rparr>) }) d = Some d'"
    by (simp add: adjust_balance_def)
  from modify_account_moves[OF this] True show ?thesis
    by (auto simp: bind_Some_iff acct_defs tme_def tsd_def symbol_distinct dest!: asset_add_SomeD)
next
  case False
  with assms obtain a bal secs upd pay paid b d1 where
    usd: "symbol delta = SYMBOL_USD" and
    a: "find_account n d = Some a" and
    acc: "accrue_interest F d (acc_TSDbalance a) (acc_TSD_seconds a)
             (acc_TSD_seconds_last_update a) (acc_TSD_last_interest_payment a)
          = Some (bal, secs, upd, pay, paid)" and
    b: "asset_add F bal delta = Some b" and
    m: "modify_account n (\<lambda>a. Some (a\<lparr>acc_TSDbalance := b, acc_TSD_seconds := secs,
             acc_TSD_seconds_last_update := upd, acc_TSD_last_interest_payment := pay\<rparr>)) d = Some d1" and
    i: "issue_interest F paid d1 = Some d'"
    by (auto simp: adjust_balance_def get_account_def bind_Some_iff split: if_splits)
  let ?i = "case paid of None \<Rightarrow> 0 | Some i \<Rightarrow> amount i"
  from modify_account_moves[OF m] a have "moves d d1 0 (amount b - amount (acc_TSDbalance a)) 0 0"
    by (auto simp: acct_defs)
  from moves_trans[OF this conjunct1[OF issue_interest_SomeD[OF i]]]
  have "moves d d' 0 (amount b - amount (acc_TSDbalance a) - ?i) 0 0" by simp
  moreover have "amount b - amount (acc_TSDbalance a) - ?i = amount delta"
    using accrue_interest_SomeD[OF acc] asset_add_SomeD[OF b] by simp
  ultimately show ?thesis using False usd by (simp add: tme_def tsd_def)
qed

lemma adjust_TMEsavingsBalance_moves:
  assumes "adjust_TMEsavingsBalance F n delta d = Some d'"
  shows "moves d d' (tme delta) (tsd delta) 0 0"
proof (cases "symbol delta = SYMBOL_COIN")
  case True
  with assms have "modify_account n (\<lambda>a. do {
          b \<leftarrow> asset_add F (acc_TMEsavingsBalance a) delta;
          Some (a\<lparr>acc_TMEsavingsBalance := b\<rparr>) }) d = Some d'"
    by (simp add: adjust_TMEsavingsBalance_def)
  from modify_account_moves[OF this] True show ?thesis
    by (auto simp: bind_Some_iff acct_defs tme_def tsd_def symbol_distinct dest!: asset_add_SomeD)
next
  case False
  with assms obtain a bal secs upd pay paid b d1 where
    usd: "symbol delta = SYMBOL_USD" and
    a: "find_account n d = Some a" and
    acc: "accrue_interest F d (acc_TSDsavingsBalance a) (acc_savings_TSD_seconds a)
             (acc_savings_TSD_seconds_last_update a) (acc_savings_TSD_last_interest_payment a)
          = Some (bal, secs, upd, pay, paid)" and
    b: "asset_add F bal delta = Some b" and
    m: "modify_account n (\<lambda>a. Some (a\<lparr>acc_TSDsavingsBalance := b, acc_savings_TSD_seconds := secs,
             acc_savings_TSD_seconds_last_update := upd, acc_savings_TSD_last_interest_payment := pay\<rparr>)) d
          = Some d1" and
    i: "issue_interest F paid d1 = Some d'"
    by (auto simp: adjust_TMEsavingsBalance_def get_account_def bind_Some_iff split: if_splits)
  let ?i = "case paid of None \<Rightarrow> 0 | Some i \<Rightarrow> amount i"
  from modify_account_moves[OF m] a have "moves d d1 0 (amount b - amount (acc_TSDsavingsBalance a)) 0 0"
    by (auto simp: acct_defs)
  from moves_trans[OF this conjunct1[OF issue_interest_SomeD[OF i]]]
  have "moves d d' 0 (amount b - amount (acc_TSDsavingsBalance a) - ?i) 0 0" by simp
  moreover have "amount b - amount (acc_TSDsavingsBalance a) - ?i = amount delta"
    using accrue_interest_SomeD[OF acc] asset_add_SomeD[OF b] by simp
  ultimately show ?thesis using False usd by (simp add: tme_def tsd_def)
qed

lemma adjust_reward_balance_moves:
  assumes "adjust_reward_balance F n delta d = Some d'"
  shows "moves d d' (tme delta) (tsd delta) 0 0"
proof (cases "symbol delta = SYMBOL_COIN")
  case True
  with assms have "modify_account n (\<lambda>a. do {
          b \<leftarrow> asset_add F (acc_TMErewardBalance a) delta;
          Some (a\<lparr>acc_TMErewardBalance := b\<rparr>) }) d = Some d'"
    by (simp add: adjust_reward_balance_def)
  from modify_account_moves[OF this] True show ?thesis
    by (auto simp: bind_Some_iff acct_defs tme_def tsd_def symbol_distinct dest!: asset_add_SomeD)
next
  case False
  with assms have u: "symbol delta = SYMBOL_USD" and "modify_account n (\<lambda>a. do {
          b \<leftarrow> asset_add F (acc_TSDrewardBalance a) delta;
          Some (a\<lparr>acc_TSDrewardBalance := b\<rparr>) }) d = Some d'"
    by (auto simp: adjust_reward_balance_def split: if_splits)
  from modify_account_moves[OF this(2)] u False show ?thesis
    by (auto simp: bind_Some_iff acct_defs tme_def tsd_def dest!: asset_add_SomeD)
qed

text \<open>\<open>adjust_supply\<close> records \<open>delta\<close> as issued without giving it to anybody.\<close>

lemma adjust_supply_moves:
  assumes "adjust_supply F delta adj d = Some d'"
  shows "moves d d' (- tme delta) (- tsd delta) 0 0"
  using assms
  by (auto simp: adjust_supply_def Let_def bind_Some_iff moves_def gap_defs tme_def tsd_def symbol_distinct
           dest!: modify_gpo_moves asset_add_SomeD split: if_splits)

end

subsection \<open>Row operations and the gaps\<close>

lemma create_escrow_moves:
  assumes "create_escrow e d = Some d'"
  shows "moves d d' (amount (esc_TMEbalance e) + tme (esc_pending_fee e))
           (amount (esc_TSDbalance e) + tsd (esc_pending_fee e)) 0 0"
  using assms
  by (auto simp: create_escrow_def take_id_def bind_Some_iff moves_def gap_defs tbl_emplace_Some)

lemma remove_escrow_moves:
  assumes "get_escrow n i d = Some e"
  shows "moves d (remove_escrow n i d) (- (amount (esc_TMEbalance e) + tme (esc_pending_fee e)))
           (- (amount (esc_TSDbalance e) + tsd (esc_pending_fee e))) 0 0"
  using tsum_remove[of _ "db_escrows d" e] assms
  by (simp add: get_escrow_def find_escrow_def remove_escrow_def moves_def gap_defs)

lemma modify_escrow_moves:
  assumes "modify_escrow n i f d = Some d'"
  shows "\<exists>e e'. get_escrow n i d = Some e \<and> f e = Some e' \<and>
    moves d d' (amount (esc_TMEbalance e') + tme (esc_pending_fee e') - amount (esc_TMEbalance e) - tme (esc_pending_fee e))
      (amount (esc_TSDbalance e') + tsd (esc_pending_fee e') - amount (esc_TSDbalance e) - tsd (esc_pending_fee e)) 0 0"
proof -
  from assms obtain xs where
    xs: "tbl_modify (\<lambda>e. esc_from e = n \<and> esc_escrow_id e = i) f (db_escrows d) = Some xs"
    and d': "d' = d\<lparr>db_escrows := xs\<rparr>"
    by (auto simp: modify_escrow_def bind_Some_iff)
  from tsum_modify[OF xs, of "\<lambda>_. 0"] obtain a b where ab: "get_escrow n i d = Some a" "f a = Some b"
    by (auto simp: get_escrow_def find_escrow_def)
  have t: "tsum g xs = tsum g (db_escrows d) - g a + g b" for g
    using tsum_modify_find[OF xs] ab by (simp add: get_escrow_def find_escrow_def)
  show ?thesis by (intro exI[of _ a] exI[of _ b]) (simp add: ab moves_def gap_defs d' t)
qed

lemma create_convert_moves:
  assumes "create_convert e d = Some d'"
  shows "moves d d' (tme (cvr_amount e)) (tsd (cvr_amount e)) 0 0"
  using assms
  by (auto simp: create_convert_def take_id_def bind_Some_iff moves_def gap_defs tbl_emplace_Some)

lemma remove_convert_moves:
  assumes "find_convert n i d = Some e"
  shows "moves d (remove_convert n i d) (- tme (cvr_amount e)) (- tsd (cvr_amount e)) 0 0"
  using tsum_remove[of _ "db_converts d" e] assms
  by (simp add: find_convert_def remove_convert_def moves_def gap_defs)

lemma create_savings_moves:
  assumes "create_savings e d = Some d'"
  shows "moves d d' (tme (svw_amount e)) (tsd (svw_amount e)) 0 0"
  using assms
  by (auto simp: create_savings_def take_id_def bind_Some_iff moves_def gap_defs tbl_emplace_Some)

lemma remove_savings_moves:
  assumes "get_savings_withdraw n i d = Some e"
  shows "moves d (remove_savings n i d) (- tme (svw_amount e)) (- tsd (svw_amount e)) 0 0"
  using tsum_remove[of _ "db_savings d" e] assms
  by (simp add: get_savings_withdraw_def find_savings_withdraw_def remove_savings_def moves_def gap_defs)

lemma create_order_moves:
  assumes "create_order e d = Some d'"
  shows "moves d d' (tme (amount_for_sale e)) (tsd (amount_for_sale e)) 0 0"
  using assms
  by (auto simp: create_order_def take_id_def bind_Some_iff moves_def gap_defs tbl_emplace_Some amount_for_sale_def)

lemma remove_order_moves:
  assumes "deref_order i d = Some e"
  shows "moves d (remove_order i d) (- tme (amount_for_sale e)) (- tsd (amount_for_sale e)) 0 0"
  using tsum_remove[of _ "db_orders d" e] assms
  by (simp add: deref_order_def remove_order_def moves_def gap_defs)

lemma modify_order_moves:
  assumes "modify_order i f d = Some d'"
  shows "\<exists>e e'. deref_order i d = Some e \<and> f e = Some e' \<and>
    moves d d' (tme (amount_for_sale e') - tme (amount_for_sale e))
               (tsd (amount_for_sale e') - tsd (amount_for_sale e)) 0 0"
proof -
  from assms obtain xs where xs: "tbl_modify (\<lambda>x. (ord_seller x, ord_orderid x) = i) f (db_orders d) = Some xs"
    and d': "d' = d\<lparr>db_orders := xs\<rparr>"
    by (auto simp: modify_order_def bind_Some_iff)
  from tsum_modify[OF xs, of "\<lambda>_. 0"] obtain a b where ab: "deref_order i d = Some a" "f a = Some b"
    by (auto simp: deref_order_def)
  have t: "tsum g xs = tsum g (db_orders d) - g a + g b" for g
    using tsum_modify_find[OF xs] ab by (simp add: deref_order_def)
  show ?thesis by (intro exI[of _ a] exI[of _ b]) (simp add: ab moves_def gap_defs d' t)
qed

subsection \<open>Frames\<close>

text \<open>Balance operations change rows of the account table and the global properties only; names
  and ids of accounts, the clock, the block number and the interest rate stay.\<close>

definition money_frame :: "chain_db \<Rightarrow> chain_db \<Rightarrow> bool" where
  "money_frame d d' \<longleftrightarrow> (\<exists>as g. d' = d\<lparr>db_accounts := as, db_gpo := g\<rparr> \<and>
     map acc_name as = map acc_name (db_accounts d) \<and> map acc_id as = map acc_id (db_accounts d) \<and>
     gpo_time g = gpo_time (db_gpo d) \<and> gpo_head_block_number g = gpo_head_block_number (db_gpo d))"

lemma money_frame_refl: "money_frame d d"
  by (auto simp: money_frame_def intro!: exI[of _ "db_accounts d"] exI[of _ "db_gpo d"])

lemma money_frame_trans: "money_frame d d1 \<Longrightarrow> money_frame d1 d2 \<Longrightarrow> money_frame d d2"
  unfolding money_frame_def
proof (elim exE conjE)
  fix as g bs h
  assume "d1 = d\<lparr>db_accounts := as, db_gpo := g\<rparr>" "d2 = d1\<lparr>db_accounts := bs, db_gpo := h\<rparr>"
    "map acc_name as = map acc_name (db_accounts d)" "map acc_id as = map acc_id (db_accounts d)"
    "gpo_time g = gpo_time (db_gpo d)" "gpo_head_block_number g = gpo_head_block_number (db_gpo d)"
    "map acc_name bs = map acc_name (db_accounts d1)" "map acc_id bs = map acc_id (db_accounts d1)"
    "gpo_time h = gpo_time (db_gpo d1)" "gpo_head_block_number h = gpo_head_block_number (db_gpo d1)"
  then show "\<exists>as g. d2 = d\<lparr>db_accounts := as, db_gpo := g\<rparr> \<and>
     map acc_name as = map acc_name (db_accounts d) \<and> map acc_id as = map acc_id (db_accounts d) \<and>
     gpo_time g = gpo_time (db_gpo d) \<and> gpo_head_block_number g = gpo_head_block_number (db_gpo d)"
    by (intro exI[of _ bs] exI[of _ h]) simp
qed

lemma money_frameD:
  assumes "money_frame d d'"
  shows "db_escrows d' = db_escrows d" "db_orders d' = db_orders d" "db_converts d' = db_converts d"
    "db_savings d' = db_savings d" "db_witnesses d' = db_witnesses d" "db_routes d' = db_routes d"
    "db_witness_votes d' = db_witness_votes d" "db_feed d' = db_feed d" "db_wso d' = db_wso d"
    "db_processed_hardforks d' = db_processed_hardforks d" "db_next_id d' = db_next_id d"
    "db_delegations d' = db_delegations d" "db_delegation_exps d' = db_delegation_exps d"
    "db_reward_funds d' = db_reward_funds d" "db_liquidity d' = db_liquidity d"
    "db_declines d' = db_declines d" "median_price d' = median_price d"
    "head_block_time d' = head_block_time d" "head_block_num d' = head_block_num d"
    "map acc_name (db_accounts d') = map acc_name (db_accounts d)"
    "map acc_id (db_accounts d') = map acc_id (db_accounts d)"
  using assms by (auto simp: money_frame_def median_price_def head_block_time_def head_block_num_def)

lemma modify_account_frame:
  assumes "modify_account n f d = Some d'"
    and "\<And>a b. f a = Some b \<Longrightarrow> acc_name b = acc_name a \<and> acc_id b = acc_id a"
  shows "money_frame d d'"
proof -
  from assms(1) obtain xs where xs: "tbl_modify (\<lambda>a. acc_name a = n) f (db_accounts d) = Some xs"
    and d': "d' = d\<lparr>db_accounts := xs\<rparr>"
    by (auto simp: modify_account_def bind_Some_iff)
  have "map acc_name xs = map acc_name (db_accounts d)" "map acc_id xs = map acc_id (db_accounts d)"
    using map_key_modify[OF xs] assms(2) by blast+
  then show ?thesis using d'
    by (auto simp: money_frame_def intro!: exI[of _ xs] exI[of _ "db_gpo d"])
qed

lemma modify_gpo_frame:
  assumes "modify_gpo f d = Some d'"
    and "\<And>g h. f g = Some h \<Longrightarrow> gpo_time h = gpo_time g \<and> gpo_head_block_number h = gpo_head_block_number g"
  shows "money_frame d d'"
  using modify_gpo_moves[OF assms(1)] assms(2)
  by (auto simp: money_frame_def intro!: exI[of _ "db_accounts d"])

lemma issue_interest_frame:
  assumes "issue_interest F paid d = Some d'"
  shows "money_frame d d'"
  using assms
  by (cases paid) (auto simp: issue_interest_def money_frame_refl bind_Some_iff elim!: modify_gpo_frame)

lemma adjust_balance_frame:
  assumes "adjust_balance F n delta d = Some d'"
  shows "money_frame d d'"
  using assms
  by (auto simp: adjust_balance_def bind_Some_iff split: if_splits
      elim!: modify_account_frame dest!: issue_interest_frame intro: money_frame_trans[rotated])

lemma adjust_TMEsavingsBalance_frame:
  assumes "adjust_TMEsavingsBalance F n delta d = Some d'"
  shows "money_frame d d'"
  using assms
  by (auto simp: adjust_TMEsavingsBalance_def bind_Some_iff split: if_splits
      elim!: modify_account_frame dest!: issue_interest_frame intro: money_frame_trans[rotated])

lemma adjust_reward_balance_frame:
  assumes "adjust_reward_balance F n delta d = Some d'"
  shows "money_frame d d'"
  using assms
  by (auto simp: adjust_reward_balance_def bind_Some_iff split: if_splits elim!: modify_account_frame)

lemma adjust_supply_frame:
  assumes "adjust_supply F delta adj d = Some d'"
  shows "money_frame d d'"
  using assms
  by (auto simp: adjust_supply_def Let_def bind_Some_iff elim!: modify_gpo_frame split: if_splits)

subsection \<open>The contract of an operation on the ledger\<close>

text \<open>Escrows hold TME, TSD and a fee in one of them; the fee of an approved escrow is paid.\<close>

definition escrow_symbols :: "escrow_object \<Rightarrow> bool" where
  "escrow_symbols e \<longleftrightarrow> symbol (esc_TMEbalance e) = SYMBOL_COIN \<and> symbol (esc_TSDbalance e) = SYMBOL_USD \<and>
     (symbol (esc_pending_fee e) = SYMBOL_COIN \<or> symbol (esc_pending_fee e) = SYMBOL_USD)"

definition escrow_ok :: "escrow_object \<Rightarrow> bool" where
  "escrow_ok e \<longleftrightarrow> escrow_symbols e \<and> (is_approved e \<longrightarrow> amount (esc_pending_fee e) = 0)"

definition esc_key :: "escrow_object \<Rightarrow> account_name_type \<times> nat" where
  "esc_key e = (esc_from e, esc_escrow_id e)"

definition svw_key :: "savings_withdraw_object \<Rightarrow> account_name_type \<times> nat" where
  "svw_key s = (svw_from s, svw_request_id s)"

definition cvr_key :: "convert_request_object \<Rightarrow> account_name_type \<times> nat" where
  "cvr_key c = (cvr_owner c, cvr_requestid c)"

definition ord_key :: "limit_order_object \<Rightarrow> account_name_type \<times> nat" where
  "ord_key x = (ord_seller x, ord_orderid x)"

lemmas key_defs = esc_key_def svw_key_def cvr_key_def ord_key_def

text \<open>The unique indices have no duplicates, account ids are given out in order and escrows are
  well-formed (\<open>P\<close>).\<close>

definition ids_below :: "nat \<Rightarrow> nat list \<Rightarrow> bool" where
  "ids_below n is \<longleftrightarrow> list_all (\<lambda>i. i < n) is"

lemma ids_below_simps [simp]: "ids_below n []" "ids_below n (i # is) \<longleftrightarrow> i < n \<and> ids_below n is"
  by (simp_all add: ids_below_def)

lemma ids_below_append [simp]: "ids_below n (is @ js) \<longleftrightarrow> ids_below n is \<and> ids_below n js"
  by (simp add: ids_below_def)

lemma ids_below_mono: "ids_below n is \<Longrightarrow> n \<le> m \<Longrightarrow> ids_below m is"
  by (auto simp: ids_below_def list_all_iff)

definition ledger_ok_with :: "(escrow_object \<Rightarrow> bool) \<Rightarrow> chain_db \<Rightarrow> bool" where
  "ledger_ok_with P d \<longleftrightarrow> (\<forall>e \<in> set (db_escrows d). P e) \<and>
     distinct (map esc_key (db_escrows d)) \<and> distinct (map svw_key (db_savings d)) \<and>
     distinct (map cvr_key (db_converts d)) \<and> distinct (map ord_key (db_orders d)) \<and>
     distinct (map acc_name (db_accounts d)) \<and> distinct (map acc_id (db_accounts d)) \<and>
     ids_below (db_next_id d account_object_type) (map acc_id (db_accounts d))"

abbreviation ledger_ok :: "chain_db \<Rightarrow> bool" where
  "ledger_ok \<equiv> ledger_ok_with escrow_ok"

lemmas ledger_ok_def = ledger_ok_with_def

definition balanced :: "chain_db \<Rightarrow> bool" where
  "balanced d \<longleftrightarrow> ledger_ok d \<and> gaps d = (0, 0, 0, 0)"

lemma ledger_ok_frame: "money_frame d d' \<Longrightarrow> ledger_ok_with P d' = ledger_ok_with P d"
  by (simp add: ledger_ok_def money_frameD)

lemma ledger_ok_create:
  "ledger_ok_with P d \<Longrightarrow> create_escrow e d = Some d' \<Longrightarrow> P (e\<lparr>esc_id := db_next_id d escrow_object_type\<rparr>) \<Longrightarrow>
     ledger_ok_with P d'"
  "ledger_ok_with P d \<Longrightarrow> create_savings s d = Some d' \<Longrightarrow> ledger_ok_with P d'"
  "ledger_ok_with P d \<Longrightarrow> create_convert c d = Some d' \<Longrightarrow> ledger_ok_with P d'"
  "ledger_ok_with P d \<Longrightarrow> create_order x d = Some d' \<Longrightarrow> ledger_ok_with P d'"
  by (auto simp: ledger_ok_def create_escrow_def create_savings_def create_convert_def create_order_def
      take_id_def bind_Some_iff tbl_emplace_Some key_defs)

lemma ledger_ok_remove:
  assumes "ledger_ok_with P d"
  shows "ledger_ok_with P (remove_escrow n i d)" "ledger_ok_with P (remove_savings n i d)"
    "ledger_ok_with P (remove_convert n i d)" "ledger_ok_with P (remove_order r d)"
  using assms set_tbl_remove[of _ "db_escrows d"]
  by (auto simp: ledger_ok_def remove_escrow_def remove_savings_def remove_convert_def remove_order_def
      intro: distinct_map_tbl_remove)

lemma ledger_ok_modify_escrow:
  assumes "ledger_ok_with P d" "modify_escrow n i f d = Some d'"
    and "\<And>e e'. f e = Some e' \<Longrightarrow> esc_key e' = esc_key e"
    and "\<And>e e'. f e = Some e' \<Longrightarrow> P e \<Longrightarrow> esc_key e = (n, i) \<Longrightarrow> Q e'"
    and "\<And>e. P e \<Longrightarrow> esc_key e \<noteq> (n, i) \<Longrightarrow> Q e"
  shows "ledger_ok_with Q d'"
proof -
  from assms(2) obtain xs where
    xs: "tbl_modify (\<lambda>e. esc_from e = n \<and> esc_escrow_id e = i) f (db_escrows d) = Some xs"
    and d': "d' = d\<lparr>db_escrows := xs\<rparr>"
    by (auto simp: modify_escrow_def bind_Some_iff)
  have k: "map esc_key xs = map esc_key (db_escrows d)" by (rule map_key_modify[OF xs assms(3)])
  have "\<forall>e \<in> set xs. Q e"
  proof (rule tbl_modify_split[OF xs])
    fix us x y vs
    assume s: "db_escrows d = us @ x # vs" "xs = us @ y # vs" "f x = Some y"
      "esc_from x = n \<and> esc_escrow_id x = i"
    have ok: "\<forall>e \<in> set (us @ x # vs). P e" and di: "distinct (map esc_key (us @ x # vs))"
      using assms(1) by (simp_all add: ledger_ok_def s(1))
    have kx: "esc_key x = (n, i)" using s(4) by (simp add: esc_key_def)
    have "Q y" using assms(4)[OF s(3) _ kx] ok by simp
    moreover have "Q e" if "e \<in> set us \<union> set vs" for e
      using that ok di kx by (intro assms(5)) (auto simp: rev_image_eqI)
    ultimately show ?thesis by (auto simp: s(2))
  qed
  then show ?thesis using assms(1) d' k by (simp add: ledger_ok_def)
qed

lemma ledger_ok_modify_order:
  assumes "ledger_ok_with P d" "modify_order r f d = Some d'" "\<And>x y. f x = Some y \<Longrightarrow> ord_key y = ord_key x"
  shows "ledger_ok_with P d'"
proof -
  from assms(2) obtain xs where
    xs: "tbl_modify (\<lambda>x. (ord_seller x, ord_orderid x) = r) f (db_orders d) = Some xs"
    and d': "d' = d\<lparr>db_orders := xs\<rparr>"
    by (auto simp: modify_order_def bind_Some_iff)
  have "map ord_key xs = map ord_key (db_orders d)" by (rule map_key_modify[OF xs assms(3)])
  then show ?thesis using assms(1) d' by (simp add: ledger_ok_def)
qed

lemma ledger_ok_escrow: "ledger_ok_with P d \<Longrightarrow> get_escrow n i d = Some e \<Longrightarrow> P e"
  by (auto simp: ledger_ok_def get_escrow_def find_escrow_def dest: find_Some_P)

text \<open>An operation of the chain as the ledger sees it: a step that may throw, guarded by what
  \<open>validate\<close> has established before.  A block applies its operations one after the other; one
  that throws is rolled back.\<close>

fun run_steps :: "('op \<Rightarrow> bool) \<Rightarrow> ('op \<Rightarrow> chain_db \<Rightarrow> chain_db option) \<Rightarrow> 'op list \<Rightarrow> chain_db \<Rightarrow> chain_db" where
  "run_steps valid step [] d = d"
| "run_steps valid step (op # ops) d =
     (if valid op
      then case step op d of None \<Rightarrow> run_steps valid step ops d | Some d' \<Rightarrow> run_steps valid step ops d'
      else run_steps valid step ops d)"

locale ledger_operation =
  fixes valid :: "'op \<Rightarrow> bool"
    and step :: "'op \<Rightarrow> chain_db \<Rightarrow> chain_db option"
  assumes step_ok: "valid op \<Longrightarrow> ledger_ok d \<Longrightarrow> step op d = Some d' \<Longrightarrow> ledger_ok d'"
    and step_conserves: "valid op \<Longrightarrow> ledger_ok d \<Longrightarrow> step op d = Some d' \<Longrightarrow> gaps d' = gaps d"
begin

lemma step_balanced: "valid op \<Longrightarrow> balanced d \<Longrightarrow> step op d = Some d' \<Longrightarrow> balanced d'"
  using step_ok[of op d d'] step_conserves[of op d d'] by (auto simp: balanced_def)

lemma run_conserves:
  "ledger_ok d \<Longrightarrow> ledger_ok (run_steps valid step ops d) \<and> gaps (run_steps valid step ops d) = gaps d"
proof (induction ops arbitrary: d)
  case (Cons op ops)
  show ?case
  proof (cases "valid op \<and> step op d \<noteq> None")
    case True
    then obtain d' where d': "valid op" "step op d = Some d'" by auto
    from step_ok[OF d'(1) Cons.prems d'(2)] step_conserves[OF d'(1) Cons.prems d'(2)] Cons.IH d'
    show ?thesis by simp
  next
    case False
    then show ?thesis using Cons by (auto split: option.splits)
  qed
qed simp

lemma run_balanced: "balanced d \<Longrightarrow> balanced (run_steps valid step ops d)"
  using run_conserves[of d ops] by (auto simp: balanced_def)

end

subsection \<open>\<open>validate_invariants\<close>\<close>

type_synonym totals = "asset \<times> asset \<times> asset \<times> asset \<times> int"

fun sum_accounts :: "fc_lib \<Rightarrow> account_object list \<Rightarrow> totals \<Rightarrow> totals option" where
  "sum_accounts F [] t = Some t"
| "sum_accounts F (a # as) (supply, TSDtotal, totalSCORE, pending, votes) = do {
     t1 \<leftarrow> asset_add F supply (acc_balance a);
     t2 \<leftarrow> asset_add F t1 (acc_TMEsavingsBalance a);
     t3 \<leftarrow> asset_add F t2 (acc_TMErewardBalance a);
     s1 \<leftarrow> asset_add F TSDtotal (acc_TSDbalance a);
     s2 \<leftarrow> asset_add F s1 (acc_TSDsavingsBalance a);
     s3 \<leftarrow> asset_add F s2 (acc_TSDrewardBalance a);
     v1 \<leftarrow> asset_add F totalSCORE (acc_SCORE a);
     v2 \<leftarrow> asset_add F v1 (acc_SCORErewardBalance a);
     p \<leftarrow> asset_add F pending (acc_SCORErewardBalanceInTME a);
     w \<leftarrow> (if acc_proxy a = [] then witness_vote_weight F a
          else Some (acc_proxied_votes a ! (MAX_PROXY_RECURSION_DEPTH - 1)));
     n \<leftarrow> safe_add F votes w;
     sum_accounts F as (t3, s3, v2, p, n) }"

text \<open>The loops over converts, orders, escrows and savings add to the two running totals; an
  illegal symbol throws (\<open>strict\<close>) except for orders.\<close>

definition add_by_symbol :: "fc_lib \<Rightarrow> bool \<Rightarrow> asset \<Rightarrow> asset \<times> asset \<Rightarrow> (asset \<times> asset) option" where
  "add_by_symbol F strict x t =
     (if symbol x = SYMBOL_COIN then do { y \<leftarrow> asset_add F (fst t) x; Some (y, snd t) }
      else if symbol x = SYMBOL_USD then do { y \<leftarrow> asset_add F (snd t) x; Some (fst t, y) }
      else if strict then None else Some t)"

fun sum_by_symbol :: "fc_lib \<Rightarrow> bool \<Rightarrow> asset list \<Rightarrow> asset \<times> asset \<Rightarrow> (asset \<times> asset) option" where
  "sum_by_symbol F strict [] t = Some t"
| "sum_by_symbol F strict (x # xs) t = do { t' \<leftarrow> add_by_symbol F strict x t; sum_by_symbol F strict xs t' }"

fun sum_escrows :: "fc_lib \<Rightarrow> escrow_object list \<Rightarrow> asset \<times> asset \<Rightarrow> (asset \<times> asset) option" where
  "sum_escrows F [] t = Some t"
| "sum_escrows F (e # es) t = do {
     x \<leftarrow> asset_add F (fst t) (esc_TMEbalance e);
     y \<leftarrow> asset_add F (snd t) (esc_TSDbalance e);
     t' \<leftarrow> add_by_symbol F True (esc_pending_fee e) (x, y);
     sum_escrows F es t' }"

fun sum_funds :: "fc_lib \<Rightarrow> reward_fund_object list \<Rightarrow> asset \<Rightarrow> asset option" where
  "sum_funds F [] t = Some t"
| "sum_funds F (r # rs) t = do { t' \<leftarrow> asset_add F t (rf_reward_balance r); sum_funds F rs t' }"

text \<open>The loop over all comments that sums \<open>totalSCOREreward2\<close> is left out: nothing reads its result.\<close>

definition validate_invariants :: "fc_lib \<Rightarrow> chain_db \<Rightarrow> unit option" where
  "validate_invariants F d = do {
     let g = db_gpo d;
     FC_ASSERT (list_all (\<lambda>w. wit_votes w \<le> amount (gpo_totalSCORE g)) (db_witnesses d));
     (t1, s1, totalSCORE, pending, votes) \<leftarrow>
        sum_accounts F (idx_sorted acc_name (db_accounts d))
          (mk_asset 0 SYMBOL_COIN, mk_asset 0 SYMBOL_USD, mk_asset 0 SYMBOL_SCORE, mk_asset 0 SYMBOL_COIN, 0);
     t2 \<leftarrow> sum_by_symbol F True (map cvr_amount (db_converts d)) (t1, s1);
     t3 \<leftarrow> sum_by_symbol F False (map amount_for_sale (db_orders d)) t2;
     t4 \<leftarrow> sum_escrows F (db_escrows d) t3;
     (t5, TSDtotal) \<leftarrow> sum_by_symbol F True (map svw_amount (db_savings d)) t4;
     t6 \<leftarrow> sum_funds F (db_reward_funds d) t5;
     x1 \<leftarrow> asset_add F (gpo_totalTMEfundForSCORE g) (gpo_total_reward_fund_TME g);
     x2 \<leftarrow> asset_add F x1 (gpo_pending_rewarded_SCOREvalueInTME g);
     total_supply \<leftarrow> asset_add F t6 x2;
     FC_ASSERT (asset_eq (gpo_current_supply g) total_supply);
     FC_ASSERT (asset_eq (gpo_current_TSD_supply g) TSDtotal);
     y \<leftarrow> asset_add F (gpo_totalSCORE g) (gpo_pending_rewarded_SCORE g);
     FC_ASSERT (asset_eq y totalSCORE);
     FC_ASSERT (amount (gpo_totalSCORE g) = votes);
     FC_ASSERT (asset_eq (gpo_pending_rewarded_SCOREvalueInTME g) pending);
     FC_ASSERT_opt (asset_ge (gpo_virtual_supply g) (gpo_current_supply g));
     (if \<not> price_is_null F (median_price d) then do {
        w \<leftarrow> asset_mul_price F (gpo_current_TSD_supply g) (median_price d);
        v \<leftarrow> asset_add F w (gpo_current_supply g);
        FC_ASSERT (asset_eq v (gpo_virtual_supply g)) }
      else Some ()) }"

definition acct_votes :: "account_object \<Rightarrow> int" where
  "acct_votes a = (if acc_proxy a = [] then amount (acc_SCORE a) + sum_list (acc_proxied_votes a)
                   else acc_proxied_votes a ! 3)"

definition gap_VOTES :: "chain_db \<Rightarrow> int" where
  "gap_VOTES d = amount (gpo_totalSCORE (db_gpo d)) - tsum acct_votes (db_accounts d)"

lemma tsum_idx_sorted: "tsum g (idx_sorted key xs) = tsum g xs"
  unfolding idx_sorted_def by (metis mset_map mset_sort sum_mset_sum_list)

context fc_safe
begin

lemma safe_accumulate_SomeD: "safe_accumulate F xs s = Some t \<Longrightarrow> t = s + sum_list xs"
  by (induction xs arbitrary: s) (fastforce simp: bind_Some_iff dest!: safe_add_SomeD)+

lemma sum_accounts_SomeD:
  "sum_accounts F as (x, y, z, p, v) = Some (x', y', z', p', v') \<Longrightarrow>
   amount x' = amount x + tsum acct_TME as \<and> amount y' = amount y + tsum acct_TSD as \<and>
   amount z' = amount z + tsum acct_SCORE as \<and> amount p' = amount p + tsum acct_PEND as \<and>
   v' = v + tsum acct_votes as"
proof (induction as arbitrary: x y z p v)
  case (Cons a as)
  from Cons.prems obtain x3 y3 z2 q w n where
    r: "sum_accounts F as (x3, y3, z2, q, n) = Some (x', y', z', p', v')" and
    "amount x3 = amount x + acct_TME a" "amount y3 = amount y + acct_TSD a"
    "amount z2 = amount z + acct_SCORE a" "amount q = amount p + acct_PEND a" and
    w: "(if acc_proxy a = [] then witness_vote_weight F a
         else Some (acc_proxied_votes a ! (MAX_PROXY_RECURSION_DEPTH - 1))) = Some w"
    "safe_add F v w = Some n"
    by (auto simp: bind_Some_iff acct_defs dest!: asset_add_SomeD)
  moreover from w have "n = v + acct_votes a"
    by (auto simp: acct_votes_def witness_vote_weight_def MAX_PROXY_RECURSION_DEPTH_def
        dest!: safe_accumulate_SomeD safe_add_SomeD split: if_splits)
  ultimately show ?case using Cons.IH[OF r] by simp
qed simp

lemma add_by_symbol_SomeD:
  "add_by_symbol F b x t = Some t' \<Longrightarrow>
   amount (fst t') = amount (fst t) + tme x \<and> amount (snd t') = amount (snd t) + tsd x"
  by (auto simp: add_by_symbol_def bind_Some_iff tme_def tsd_def symbol_distinct
      dest!: asset_add_SomeD split: if_splits)

lemma sum_by_symbol_SomeD:
  "sum_by_symbol F b xs t = Some t' \<Longrightarrow>
   amount (fst t') = amount (fst t) + tsum tme xs \<and> amount (snd t') = amount (snd t) + tsum tsd xs"
  by (induction xs arbitrary: t) (auto simp: bind_Some_iff dest!: add_by_symbol_SomeD)

lemma sum_escrows_SomeD:
  "sum_escrows F es t = Some t' \<Longrightarrow>
   amount (fst t') = amount (fst t) + tsum (\<lambda>e. amount (esc_TMEbalance e) + tme (esc_pending_fee e)) es \<and>
   amount (snd t') = amount (snd t) + tsum (\<lambda>e. amount (esc_TSDbalance e) + tsd (esc_pending_fee e)) es"
  by (induction es arbitrary: t)
     (auto simp: bind_Some_iff dest!: add_by_symbol_SomeD asset_add_SomeD)

lemma sum_funds_SomeD:
  "sum_funds F rs t = Some t' \<Longrightarrow> amount t' = amount t + tsum (\<lambda>r. amount (rf_reward_balance r)) rs"
  by (induction rs arbitrary: t) (auto simp: bind_Some_iff dest!: asset_add_SomeD)

lemma validate_invariants_gaps:
  assumes "validate_invariants F d = Some ()"
  shows "gaps d = (0, 0, 0, 0) \<and> gap_VOTES d = 0"
proof -
  let ?g = "db_gpo d"
  from assms obtain t1 s1 sc pe vo t2 t3 t4 t5 s5 t6 x1 x2 t7 y where
    acc: "sum_accounts F (idx_sorted acc_name (db_accounts d))
          (mk_asset 0 SYMBOL_COIN, mk_asset 0 SYMBOL_USD, mk_asset 0 SYMBOL_SCORE, mk_asset 0 SYMBOL_COIN, 0)
          = Some (t1, s1, sc, pe, vo)" and
    cv: "sum_by_symbol F True (map cvr_amount (db_converts d)) (t1, s1) = Some t2" and
    od: "sum_by_symbol F False (map amount_for_sale (db_orders d)) t2 = Some t3" and
    es: "sum_escrows F (db_escrows d) t3 = Some t4" and
    sv: "sum_by_symbol F True (map svw_amount (db_savings d)) t4 = Some (t5, s5)" and
    rf: "sum_funds F (db_reward_funds d) t5 = Some t6" and
    x: "asset_add F (gpo_totalTMEfundForSCORE ?g) (gpo_total_reward_fund_TME ?g) = Some x1"
       "asset_add F x1 (gpo_pending_rewarded_SCOREvalueInTME ?g) = Some x2"
       "asset_add F t6 x2 = Some t7"
       "asset_add F (gpo_totalSCORE ?g) (gpo_pending_rewarded_SCORE ?g) = Some y" and
    eq: "asset_eq (gpo_current_supply ?g) t7" "asset_eq (gpo_current_TSD_supply ?g) s5"
      "asset_eq y sc" "amount (gpo_totalSCORE ?g) = vo" "asset_eq (gpo_pending_rewarded_SCOREvalueInTME ?g) pe"
    unfolding validate_invariants_def Let_def bind_Some_iff FC_ASSERT_Some
    by (auto simp: bind_Some_iff)
  note f = sum_accounts_SomeD[OF acc, unfolded tsum_idx_sorted] sum_by_symbol_SomeD[OF cv]
    sum_by_symbol_SomeD[OF od] sum_escrows_SomeD[OF es] sum_by_symbol_SomeD[OF sv] sum_funds_SomeD[OF rf]
    asset_add_SomeD[OF x(1)] asset_add_SomeD[OF x(2)] asset_add_SomeD[OF x(3)] asset_add_SomeD[OF x(4)]
  show ?thesis using f eq
    by (simp add: gaps_def gap_defs gap_VOTES_def asset_eq_def comp_def)
qed

end

end
