(* ===== verification/Transfers.thy ===== *)
theory Transfers
  imports Ledger
begin

text \<open>
  Evaluators that move liquid funds (\<open>libraries/chain/node_evaluator.cpp\<close>) and the block-level
  processing of the requests they leave behind (\<open>libraries/chain/database.cpp\<close>): transfers,
  savings, conversions, feeds and escrow.

  A loop \<open>while( itr is due ) \<dots> itr = idx.begin()\<close> removes one row per round, so it runs on as much
  fuel as the table has rows; the theorems show that no due row is left.
\<close>

definition SAVINGS_WITHDRAW_TIME :: int where "SAVINGS_WITHDRAW_TIME = 3 * 24 * 60 * 60"
definition SAVINGS_WITHDRAW_REQUEST_LIMIT :: int where "SAVINGS_WITHDRAW_REQUEST_LIMIT = 100"
definition CONVERSION_DELAY_PRE_HF_16 :: int where "CONVERSION_DELAY_PRE_HF_16 = 7 * 24 * 60 * 60"
definition CONVERSION_DELAY :: int where "CONVERSION_DELAY = 12 * 7 * 60 * 60"

subsection \<open>Transfers\<close>

definition transfer_do_apply :: "fc_lib \<Rightarrow> transfer_operation \<Rightarrow> chain_db \<Rightarrow> chain_db option" where
  "transfer_do_apply F op d = do {
     from_account \<leftarrow> get_account (tr_from op) d;
     to_account \<leftarrow> get_account (tr_to op) d;
     d1 \<leftarrow> (if acc_active_challenged from_account
           then modify_account (tr_from op) (\<lambda>a. Some (a\<lparr>acc_active_challenged := False,
                  acc_last_active_proved := head_block_time d\<rparr>)) d
           else Some d);
     from1 \<leftarrow> get_account (tr_from op) d1;
     bal \<leftarrow> get_balance from1 (symbol (tr_amount op));
     FC_ASSERT_opt (asset_ge bal (tr_amount op));
     neg \<leftarrow> asset_neg F (tr_amount op);
     d2 \<leftarrow> adjust_balance F (tr_from op) neg d1;
     adjust_balance F (tr_to op) (tr_amount op) d2 }"

subsection \<open>Savings\<close>

definition transferToSavings_do_apply :: "fc_lib \<Rightarrow> transferToSavings_operation \<Rightarrow> chain_db \<Rightarrow> chain_db option" where
  "transferToSavings_do_apply F op d = do {
     from \<leftarrow> get_account (ts_from op) d;
     to \<leftarrow> get_account (ts_to op) d;
     bal \<leftarrow> get_balance from (symbol (ts_amount op));
     FC_ASSERT_opt (asset_ge bal (ts_amount op));
     neg \<leftarrow> asset_neg F (ts_amount op);
     d1 \<leftarrow> adjust_balance F (ts_from op) neg d;
     adjust_TMEsavingsBalance F (ts_to op) (ts_amount op) d1 }"

definition transferFromSavings_do_apply :: "fc_lib \<Rightarrow> transferFromSavings_operation \<Rightarrow> chain_db \<Rightarrow> chain_db option" where
  "transferFromSavings_do_apply F op d = do {
     from \<leftarrow> get_account (fs_from op) d;
     to \<leftarrow> get_account (fs_to op) d;
     FC_ASSERT (acc_savings_withdraw_requests from < SAVINGS_WITHDRAW_REQUEST_LIMIT);
     bal \<leftarrow> get_TMEsavingsBalance from (symbol (fs_amount op));
     FC_ASSERT_opt (asset_ge bal (fs_amount op));
     neg \<leftarrow> asset_neg F (fs_amount op);
     d1 \<leftarrow> adjust_TMEsavingsBalance F (fs_from op) neg d;
     d2 \<leftarrow> create_savings \<lparr>svw_id = 0, svw_from = fs_from op, svw_to = fs_to op, svw_memo = fs_memo op,
              svw_request_id = fs_request_id op, svw_amount = fs_amount op,
              svw_complete = secs_add F (head_block_time d1) SAVINGS_WITHDRAW_TIME\<rparr> d1;
     modify_account (fs_from op) (\<lambda>a. Some (a\<lparr>acc_savings_withdraw_requests :=
        (acc_savings_withdraw_requests a + 1) mod 256\<rparr>)) d2 }"

definition cancelTransferFromSavings_do_apply ::
  "fc_lib \<Rightarrow> cancelTransferFromSavings_operation \<Rightarrow> chain_db \<Rightarrow> chain_db option" where
  "cancelTransferFromSavings_do_apply F op d = do {
     swo \<leftarrow> get_savings_withdraw (cs_from op) (cs_request_id op) d;
     d1 \<leftarrow> adjust_TMEsavingsBalance F (svw_from swo) (svw_amount swo) d;
     let d2 = remove_savings (cs_from op) (cs_request_id op) d1;
     modify_account (cs_from op) (\<lambda>a. Some (a\<lparr>acc_savings_withdraw_requests :=
        (acc_savings_withdraw_requests a - 1) mod 256\<rparr>)) d2 }"

definition svw_order :: "savings_withdraw_object \<Rightarrow> time \<times> account_name_type \<times> nat" where
  "svw_order s = (svw_complete s, svw_from s, svw_request_id s)"

fun savings_loop :: "fc_lib \<Rightarrow> nat \<Rightarrow> chain_db \<Rightarrow> chain_db option" where
  "savings_loop F 0 d = Some d"
| "savings_loop F (Suc n) d =
     (case idx_begin svw_order (db_savings d) of
        None \<Rightarrow> Some d
      | Some s \<Rightarrow>
          if svw_complete s > head_block_time d then Some d
          else do {
            d1 \<leftarrow> adjust_balance F (svw_to s) (svw_amount s) d;
            d2 \<leftarrow> modify_account (svw_from s) (\<lambda>a. Some (a\<lparr>acc_savings_withdraw_requests :=
                    (acc_savings_withdraw_requests a - 1) mod 256\<rparr>)) d1;
            savings_loop F n (remove_savings (svw_from s) (svw_request_id s) d2) })"

definition process_savings_withdraws :: "fc_lib \<Rightarrow> chain_db \<Rightarrow> chain_db option" where
  "process_savings_withdraws F d = savings_loop F (length (db_savings d)) d"

subsection \<open>Price feeds and conversions\<close>

definition feed_publish_do_apply :: "feed_publish_operation \<Rightarrow> chain_db \<Rightarrow> chain_db option" where
  "feed_publish_do_apply op d = do {
     w \<leftarrow> get_witness (fp_publisher op) d;
     modify_witness_id (wit_id w) (\<lambda>w. Some (w\<lparr>wit_TSD_exchange_rate := fp_exchange_rate op,
        wit_last_TSD_exchange_update := head_block_time d\<rparr>)) d }"

definition convert_do_apply :: "fc_lib \<Rightarrow> convert_operation \<Rightarrow> chain_db \<Rightarrow> chain_db option" where
  "convert_do_apply F op d = do {
     owner \<leftarrow> get_account (cv_owner op) d;
     bal \<leftarrow> get_balance owner (symbol (cv_amount op));
     FC_ASSERT_opt (asset_ge bal (cv_amount op));
     neg \<leftarrow> asset_neg F (cv_amount op);
     d1 \<leftarrow> adjust_balance F (cv_owner op) neg d;
     FC_ASSERT (\<not> price_is_null F (median_price d1));
     let delay = (if has_hardfork 16 d1 then CONVERSION_DELAY else CONVERSION_DELAY_PRE_HF_16);
     create_convert \<lparr>cvr_id = 0, cvr_owner = cv_owner op, cvr_requestid = cv_requestid op,
        cvr_amount = cv_amount op, cvr_conversion_date = secs_add F (head_block_time d1) delay\<rparr> d1 }"

definition cvr_order :: "convert_request_object \<Rightarrow> time \<times> nat" where
  "cvr_order c = (cvr_conversion_date c, cvr_id c)"

fun conversions_loop :: "fc_lib \<Rightarrow> nat \<Rightarrow> asset \<Rightarrow> asset \<Rightarrow> chain_db \<Rightarrow> (chain_db \<times> asset \<times> asset) option" where
  "conversions_loop F 0 net_TSD net_TME d = Some (d, net_TSD, net_TME)"
| "conversions_loop F (Suc n) net_TSD net_TME d =
     (case idx_begin cvr_order (db_converts d) of
        None \<Rightarrow> Some (d, net_TSD, net_TME)
      | Some c \<Rightarrow>
          if cvr_conversion_date c \<le> head_block_time d then do {
            amount_to_issue \<leftarrow> asset_mul_price F (cvr_amount c) (median_price d);
            d1 \<leftarrow> adjust_balance F (cvr_owner c) amount_to_issue d;
            net_TSD' \<leftarrow> asset_add F net_TSD (cvr_amount c);
            net_TME' \<leftarrow> asset_add F net_TME amount_to_issue;
            conversions_loop F n net_TSD' net_TME' (remove_convert (cvr_owner c) (cvr_requestid c) d1) }
          else Some (d, net_TSD, net_TME))"

definition process_conversions :: "fc_lib \<Rightarrow> chain_db \<Rightarrow> chain_db option" where
  "process_conversions F d =
     (if price_is_null F (median_price d) then Some d
      else do {
        (d1, net_TSD, net_TME) \<leftarrow> conversions_loop F (length (db_converts d))
             (mk_asset 0 SYMBOL_USD) (mk_asset 0 SYMBOL_COIN) d;
        modify_gpo (\<lambda>g. do {
          s \<leftarrow> asset_add F (gpo_current_supply g) net_TME;
          t \<leftarrow> asset_sub F (gpo_current_TSD_supply g) net_TSD;
          v \<leftarrow> asset_add F (gpo_virtual_supply g) net_TME;
          w \<leftarrow> asset_mul_price F net_TSD (median_price d1);
          v' \<leftarrow> asset_sub F v w;
          Some (g\<lparr>gpo_current_supply := s, gpo_current_TSD_supply := t, gpo_virtual_supply := v'\<rparr>) }) d1 })"

subsection \<open>Conservation\<close>

definition keeps :: "chain_db \<Rightarrow> chain_db \<Rightarrow> bool" where
  "keeps d d' \<longleftrightarrow> ledger_ok d' \<and> gaps d' = gaps d"

lemma ledger_ok_modify_account:
  assumes "ledger_ok d" "modify_account n f d = Some d'"
    and "\<And>a b. f a = Some b \<Longrightarrow> acc_name b = acc_name a \<and> acc_id b = acc_id a"
  shows "ledger_ok d'"
  using ledger_ok_frame[OF modify_account_frame[OF assms(2,3)]] assms(1) by blast

lemma tme_tsd_neg:
  "symbol n = symbol a \<Longrightarrow> amount n = - amount a \<Longrightarrow> tme n = - tme a \<and> tsd n = - tsd a"
  by (simp add: tme_def tsd_def)

context fc_safe
begin

lemma transfer_keeps:
  assumes "ledger_ok d" "transfer_do_apply F op d = Some d'"
  shows "keeps d d'"
proof -
  from assms(2) obtain d1 d2 neg where
    d1: "d1 = d \<or> modify_account (tr_from op) (\<lambda>a. Some (a\<lparr>acc_active_challenged := False,
                  acc_last_active_proved := head_block_time d\<rparr>)) d = Some d1" and
    neg: "asset_neg F (tr_amount op) = Some neg" and
    d2: "adjust_balance F (tr_from op) neg d1 = Some d2" and
    d': "adjust_balance F (tr_to op) (tr_amount op) d2 = Some d'"
    by (auto simp: transfer_do_apply_def bind_Some_iff split: if_splits)
  have m1: "moves d d1 0 0 0 0"
    using d1 by (elim disjE modify_account_same) (auto simp: moves_refl acct_defs)
  have f1: "money_frame d d1"
    using d1 by (elim disjE modify_account_frame) (auto simp: money_frame_refl)
  have n: "tme neg = - tme (tr_amount op) \<and> tsd neg = - tsd (tr_amount op)"
    using asset_neg_SomeD[OF neg] by (intro tme_tsd_neg) auto
  have "moves d d' 0 0 0 0"
    using moves_trans[OF moves_trans[OF m1 adjust_balance_moves[OF d2]] adjust_balance_moves[OF d']] n
    by simp
  moreover have "ledger_ok d'"
    using ledger_ok_frame[OF money_frame_trans[OF money_frame_trans[OF f1 adjust_balance_frame[OF d2]]
          adjust_balance_frame[OF d']]] assms(1) by simp
  ultimately show ?thesis by (simp add: keeps_def moves_gaps)
qed

lemma transferToSavings_keeps:
  assumes "ledger_ok d" "transferToSavings_do_apply F op d = Some d'"
  shows "keeps d d'"
proof -
  from assms(2) obtain d1 neg where
    neg: "asset_neg F (ts_amount op) = Some neg" and
    d1: "adjust_balance F (ts_from op) neg d = Some d1" and
    d': "adjust_TMEsavingsBalance F (ts_to op) (ts_amount op) d1 = Some d'"
    by (auto simp: transferToSavings_do_apply_def bind_Some_iff)
  have n: "tme neg = - tme (ts_amount op) \<and> tsd neg = - tsd (ts_amount op)"
    using asset_neg_SomeD[OF neg] by (intro tme_tsd_neg) auto
  have "moves d d' 0 0 0 0"
    using moves_trans[OF adjust_balance_moves[OF d1] adjust_TMEsavingsBalance_moves[OF d']] n by simp
  moreover have "ledger_ok d'"
    using ledger_ok_frame[OF money_frame_trans[OF adjust_balance_frame[OF d1]
          adjust_TMEsavingsBalance_frame[OF d']]] assms(1) by simp
  ultimately show ?thesis by (simp add: keeps_def moves_gaps)
qed

lemma transferFromSavings_keeps:
  assumes "ledger_ok d" "transferFromSavings_do_apply F op d = Some d'"
  shows "keeps d d'"
proof -
  from assms(2) obtain d1 d2 neg t where
    neg: "asset_neg F (fs_amount op) = Some neg" and
    d1: "adjust_TMEsavingsBalance F (fs_from op) neg d = Some d1" and
    d2: "create_savings \<lparr>svw_id = 0, svw_from = fs_from op, svw_to = fs_to op, svw_memo = fs_memo op,
              svw_request_id = fs_request_id op, svw_amount = fs_amount op, svw_complete = t\<rparr> d1 = Some d2" and
    d': "modify_account (fs_from op) (\<lambda>a. Some (a\<lparr>acc_savings_withdraw_requests :=
        (acc_savings_withdraw_requests a + 1) mod 256\<rparr>)) d2 = Some d'"
    by (auto simp: transferFromSavings_do_apply_def bind_Some_iff)
  have n: "tme neg = - tme (fs_amount op) \<and> tsd neg = - tsd (fs_amount op)"
    using asset_neg_SomeD[OF neg] by (intro tme_tsd_neg) auto
  have "moves d2 d' 0 0 0 0" by (rule modify_account_same[OF d']) (auto simp: acct_defs)
  with moves_trans[OF adjust_TMEsavingsBalance_moves[OF d1] create_savings_moves[OF d2]] n
  have "moves d d' 0 0 0 0" by (auto simp: moves_def)
  moreover have "ledger_ok d1"
    using ledger_ok_frame[OF adjust_TMEsavingsBalance_frame[OF d1]] assms(1) by simp
  then have "ledger_ok d'"
    using ledger_ok_create(2)[OF _ d2] ledger_ok_modify_account[OF _ d'] by auto
  ultimately show ?thesis by (simp add: keeps_def moves_gaps)
qed

lemma cancelTransferFromSavings_keeps:
  assumes "ledger_ok d" "cancelTransferFromSavings_do_apply F op d = Some d'"
  shows "keeps d d'"
proof -
  from assms(2) obtain d1 swo where
    swo: "get_savings_withdraw (cs_from op) (cs_request_id op) d = Some swo" and
    d1: "adjust_TMEsavingsBalance F (svw_from swo) (svw_amount swo) d = Some d1" and
    d': "modify_account (cs_from op) (\<lambda>a. Some (a\<lparr>acc_savings_withdraw_requests :=
        (acc_savings_withdraw_requests a - 1) mod 256\<rparr>))
          (remove_savings (cs_from op) (cs_request_id op) d1) = Some d'"
    by (auto simp: cancelTransferFromSavings_do_apply_def bind_Some_iff Let_def)
  note f1 = adjust_TMEsavingsBalance_frame[OF d1]
  have s1: "get_savings_withdraw (cs_from op) (cs_request_id op) d1 = Some swo"
    using swo money_frameD(4)[OF f1] by (simp add: get_savings_withdraw_def find_savings_withdraw_def)
  have "moves (remove_savings (cs_from op) (cs_request_id op) d1) d' 0 0 0 0"
    by (rule modify_account_same[OF d']) (auto simp: acct_defs)
  with moves_trans[OF adjust_TMEsavingsBalance_moves[OF d1] remove_savings_moves[OF s1]]
  have "moves d d' 0 0 0 0" by (auto simp: moves_def)
  moreover have "ledger_ok d1" using ledger_ok_frame[OF f1] assms(1) by simp
  then have "ledger_ok d'" using ledger_ok_remove(2) ledger_ok_modify_account[OF _ d'] by auto
  ultimately show ?thesis by (simp add: keeps_def moves_gaps)
qed

lemma convert_keeps:
  assumes "ledger_ok d" "convert_do_apply F op d = Some d'"
  shows "keeps d d'"
proof -
  from assms(2) obtain d1 neg t where
    neg: "asset_neg F (cv_amount op) = Some neg" and
    d1: "adjust_balance F (cv_owner op) neg d = Some d1" and
    d': "create_convert \<lparr>cvr_id = 0, cvr_owner = cv_owner op, cvr_requestid = cv_requestid op,
        cvr_amount = cv_amount op, cvr_conversion_date = t\<rparr> d1 = Some d'"
    by (auto simp: convert_do_apply_def bind_Some_iff Let_def)
  have n: "tme neg = - tme (cv_amount op) \<and> tsd neg = - tsd (cv_amount op)"
    using asset_neg_SomeD[OF neg] by (intro tme_tsd_neg) auto
  have "moves d d' 0 0 0 0"
    using moves_trans[OF adjust_balance_moves[OF d1] create_convert_moves[OF d']] n by simp
  moreover have "ledger_ok d1" using ledger_ok_frame[OF adjust_balance_frame[OF d1]] assms(1) by simp
  then have "ledger_ok d'" using ledger_ok_create(3)[OF _ d'] by simp
  ultimately show ?thesis by (simp add: keeps_def moves_gaps)
qed

lemma savings_loop_keeps:
  "ledger_ok d \<Longrightarrow> savings_loop F n d = Some d' \<Longrightarrow> keeps d d'"
proof (induction n arbitrary: d)
  case 0
  then show ?case by (simp add: keeps_def)
next
  case (Suc n)
  show ?case
  proof (cases "\<exists>s. idx_begin svw_order (db_savings d) = Some s \<and> \<not> svw_complete s > head_block_time d")
    case False
    then have "d' = d" using Suc.prems(2) by (auto split: option.splits if_splits)
    then show ?thesis using Suc.prems(1) by (simp add: keeps_def)
  next
    case True
    with Suc.prems(2) obtain s d1 d2 where
      b: "idx_begin svw_order (db_savings d) = Some s" and
      d1: "adjust_balance F (svw_to s) (svw_amount s) d = Some d1" and
      d2: "modify_account (svw_from s) (\<lambda>a. Some (a\<lparr>acc_savings_withdraw_requests :=
                    (acc_savings_withdraw_requests a - 1) mod 256\<rparr>)) d1 = Some d2" and
      r: "savings_loop F n (remove_savings (svw_from s) (svw_request_id s) d2) = Some d'"
      by (auto simp: bind_Some_iff split: option.splits if_splits)
    have f2: "money_frame d d2"
      using money_frame_trans[OF adjust_balance_frame[OF d1] modify_account_frame[OF d2]] by simp
    have "s \<in> set (db_savings d)" using idx_begin_Some[OF b] by simp
    then have "get_savings_withdraw (svw_from s) (svw_request_id s) d2 = Some s"
      using find_unique[of svw_key "db_savings d" s] Suc.prems(1) money_frameD(4)[OF f2]
      by (simp add: ledger_ok_def get_savings_withdraw_def find_savings_withdraw_def svw_key_def)
    note rm = remove_savings_moves[OF this]
    have "moves d1 d2 0 0 0 0" by (rule modify_account_same[OF d2]) (auto simp: acct_defs)
    with adjust_balance_moves[OF d1] rm
    have m: "moves d (remove_savings (svw_from s) (svw_request_id s) d2) 0 0 0 0"
      by (auto simp: moves_def)
    have "ledger_ok d2" using ledger_ok_frame[OF f2] Suc.prems(1) by simp
    then have "ledger_ok (remove_savings (svw_from s) (svw_request_id s) d2)"
      by (rule ledger_ok_remove(2))
    from Suc.IH[OF this r] m show ?thesis by (simp add: keeps_def moves_gaps)
  qed
qed

lemma process_savings_withdraws_keeps:
  "ledger_ok d \<Longrightarrow> process_savings_withdraws F d = Some d' \<Longrightarrow> keeps d d'"
  unfolding process_savings_withdraws_def by (rule savings_loop_keeps)

text \<open>A round of the conversion loop takes TSD out of the requests and puts the issued TME into the
  account; the totals of both are handed to the supply at the end.\<close>

lemma conversions_loop_moves:
  "ledger_ok d \<Longrightarrow> conversions_loop F n s t d = Some (d', s', t') \<Longrightarrow>
   symbol s = SYMBOL_USD \<Longrightarrow> symbol t = SYMBOL_COIN \<Longrightarrow>
   ledger_ok d' \<and> moves d d' (amount t' - amount t) (- (amount s' - amount s)) 0 0 \<and>
   symbol s' = SYMBOL_USD \<and> symbol t' = SYMBOL_COIN"
proof (induction n arbitrary: s t d)
  case 0
  then show ?case by (simp add: moves_refl)
next
  case (Suc n)
  show ?case
  proof (cases "\<exists>c. idx_begin cvr_order (db_converts d) = Some c \<and> cvr_conversion_date c \<le> head_block_time d")
    case False
    then have "d' = d \<and> s' = s \<and> t' = t" using Suc.prems(2) by (auto split: option.splits if_splits)
    then show ?thesis using Suc.prems by (simp add: moves_refl)
  next
    case True
    with Suc.prems(2) obtain c am d1 s1 t1 where
      b: "idx_begin cvr_order (db_converts d) = Some c" and
      d1: "adjust_balance F (cvr_owner c) am d = Some d1" and
      s1: "asset_add F s (cvr_amount c) = Some s1" and t1: "asset_add F t am = Some t1" and
      r: "conversions_loop F n s1 t1 (remove_convert (cvr_owner c) (cvr_requestid c) d1) = Some (d', s', t')"
      by (auto simp: bind_Some_iff split: option.splits if_splits)
    note f1 = adjust_balance_frame[OF d1]
    have "c \<in> set (db_converts d)" using idx_begin_Some[OF b] by simp
    then have "find_convert (cvr_owner c) (cvr_requestid c) d1 = Some c"
      using find_unique[of cvr_key "db_converts d" c] Suc.prems(1) money_frameD(3)[OF f1]
      by (simp add: ledger_ok_def find_convert_def cvr_key_def)
    note m1 = moves_trans[OF adjust_balance_moves[OF d1] remove_convert_moves[OF this]]
    have sy: "symbol s1 = SYMBOL_USD" "symbol t1 = SYMBOL_COIN" "symbol (cvr_amount c) = SYMBOL_USD"
      "symbol am = SYMBOL_COIN" "amount s1 = amount s + amount (cvr_amount c)" "amount t1 = amount t + amount am"
      using asset_add_SomeD[OF s1] asset_add_SomeD[OF t1] Suc.prems(3,4) by auto
    have "ledger_ok d1" using ledger_ok_frame[OF f1] Suc.prems(1) by simp
    then have "ledger_ok (remove_convert (cvr_owner c) (cvr_requestid c) d1)" by (rule ledger_ok_remove(3))
    from Suc.IH[OF this r sy(1,2)] m1 sy show ?thesis
      by (auto simp: moves_def tme_def tsd_def symbol_distinct)
  qed
qed

lemma process_conversions_keeps:
  assumes "ledger_ok d" "process_conversions F d = Some d'"
  shows "keeps d d'"
proof (cases "price_is_null F (median_price d)")
  case True
  then show ?thesis using assms by (simp add: process_conversions_def keeps_def)
next
  case False
  with assms(2) obtain d1 s t where
    l: "conversions_loop F (length (db_converts d)) (mk_asset 0 SYMBOL_USD) (mk_asset 0 SYMBOL_COIN) d
         = Some (d1, s, t)" and
    g: "modify_gpo (\<lambda>g. do {
          s' \<leftarrow> asset_add F (gpo_current_supply g) t;
          t' \<leftarrow> asset_sub F (gpo_current_TSD_supply g) s;
          v \<leftarrow> asset_add F (gpo_virtual_supply g) t;
          w \<leftarrow> asset_mul_price F s (median_price d1);
          v' \<leftarrow> asset_sub F v w;
          Some (g\<lparr>gpo_current_supply := s', gpo_current_TSD_supply := t', gpo_virtual_supply := v'\<rparr>) }) d1
         = Some d'"
    by (auto simp: process_conversions_def bind_Some_iff)
  from conversions_loop_moves[OF assms(1) l] have ok: "ledger_ok d1"
    and m: "moves d d1 (amount t) (- amount s) 0 0" by auto
  have "money_frame d1 d'" by (rule modify_gpo_frame[OF g]) (auto simp: bind_Some_iff)
  from ledger_ok_frame[OF this] ok have "ledger_ok d'" by simp
  moreover from modify_gpo_moves[OF g] have "moves d1 d' (- amount t) (amount s) 0 0"
    by (auto simp: bind_Some_iff moves_def gap_defs dest!: asset_add_SomeD asset_sub_SomeD)
  from moves_trans[OF m this] have "moves d d' 0 0 0 0" by simp
  ultimately show ?thesis by (simp add: keeps_def moves_gaps)
qed

end

subsection \<open>The loops finish\<close>

lemma modify_account_savings: "modify_account n f d = Some d' \<Longrightarrow> db_savings d' = db_savings d"
  by (auto simp: modify_account_def bind_Some_iff)

interpretation savings_queue: due_queue "savings_loop F" db_savings svw_order
  "\<lambda>d s. svw_complete s \<le> head_block_time d"
  "\<lambda>s d. do {
     d1 \<leftarrow> adjust_balance F (svw_to s) (svw_amount s) d;
     d2 \<leftarrow> modify_account (svw_from s) (\<lambda>a. Some (a\<lparr>acc_savings_withdraw_requests :=
             (acc_savings_withdraw_requests a - 1) mod 256\<rparr>)) d1;
     Some (remove_savings (svw_from s) (svw_request_id s) d2) }" for F
proof (unfold_locales, goal_cases)
  case (2 n d)
  then show ?case by (auto split: option.splits)
next
  case (4 s d d')
  then obtain d1 d2 where d1: "adjust_balance F (svw_to s) (svw_amount s) d = Some d1" and
    d2: "modify_account (svw_from s) (\<lambda>a. Some (a\<lparr>acc_savings_withdraw_requests :=
             (acc_savings_withdraw_requests a - 1) mod 256\<rparr>)) d1 = Some d2" and
    d': "d' = remove_savings (svw_from s) (svw_request_id s) d2" by (auto simp: bind_Some_iff)
  have "db_savings d2 = db_savings d"
    using money_frameD(4)[OF adjust_balance_frame[OF d1]] modify_account_savings[OF d2] by simp
  then show ?case using 4(1) by (simp add: d' remove_savings_def length_tbl_remove_less)
qed (auto simp: svw_order_def)

interpretation conversion_queue: due_queue "\<lambda>n (d, s, t). conversions_loop F n s t d"
  "\<lambda>(d, s, t). db_converts d" cvr_order "\<lambda>(d, s, t) c. cvr_conversion_date c \<le> head_block_time d"
  "\<lambda>c (d, s, t). do {
     amount_to_issue \<leftarrow> asset_mul_price F (cvr_amount c) (median_price d);
     d1 \<leftarrow> adjust_balance F (cvr_owner c) amount_to_issue d;
     s' \<leftarrow> asset_add F s (cvr_amount c);
     t' \<leftarrow> asset_add F t amount_to_issue;
     Some (remove_convert (cvr_owner c) (cvr_requestid c) d1, s', t') }" for F
proof (unfold_locales, goal_cases)
  case (2 n x)
  then show ?case by (cases x) (auto split: option.splits)
next
  case (4 c x x')
  obtain d s t where x: "x = (d, s, t)" by (cases x)
  with 4 obtain am d1 s1 t1 where d1: "adjust_balance F (cvr_owner c) am d = Some d1" and
    x': "x' = (remove_convert (cvr_owner c) (cvr_requestid c) d1, s1, t1)" by (auto simp: bind_Some_iff)
  show ?case using 4(1) money_frameD(3)[OF adjust_balance_frame[OF d1]]
    by (simp add: x x' remove_convert_def length_tbl_remove_less)
qed (auto simp: cvr_order_def)

end
