(* ===== verification/Example.thy ===== *)
theory Example
  imports Database
begin

text \<open>
  A small chain state on which the theorems about the database are exercised: three accounts,
  TME and TSD in circulation, a price feed of two TME per TSD.  The values of the accounts follow
  the member initialisers of \<open>account_object\<close>.
\<close>

abbreviation TME :: "int \<Rightarrow> asset" where "TME v \<equiv> mk_asset v SYMBOL_COIN"
abbreviation TSD :: "int \<Rightarrow> asset" where "TSD v \<equiv> mk_asset v SYMBOL_USD"
abbreviation SCORE :: "int \<Rightarrow> asset" where "SCORE v \<equiv> mk_asset v SYMBOL_SCORE"

definition example_account :: "nat \<Rightarrow> account_name_type \<Rightarrow> int \<Rightarrow> int \<Rightarrow> int \<Rightarrow> account_object" where
  "example_account i n x y v = \<lparr>acc_id = i, acc_name = n, acc_memoKey = 0, acc_json = [], acc_proxy = [],
     acc_last_accountUpdate = 0, acc_created = 0, acc_mined = False, acc_owner_challenged = False,
     acc_active_challenged = False, acc_last_owner_proved = 0, acc_last_active_proved = 0,
     acc_recoveryAccount = [], acc_reset_account = [], acc_last_account_recovery = 0, acc_comment_count = 0,
     acc_lifetime_vote_count = 0, acc_post_count = 0, acc_can_vote = True, acc_voting_power = PERCENT_100,
     acc_last_vote_time = 0, acc_balance = TME x, acc_TMEsavingsBalance = TME 0, acc_TSDbalance = TSD y,
     acc_TSD_seconds = 0, acc_TSD_seconds_last_update = 0, acc_TSD_last_interest_payment = 0,
     acc_TSDsavingsBalance = TSD 0, acc_savings_TSD_seconds = 0, acc_savings_TSD_seconds_last_update = 0,
     acc_savings_TSD_last_interest_payment = 0, acc_savings_withdraw_requests = 0,
     acc_SCORErewardBalanceInTME = TME 0, acc_TMErewardBalance = TME 0, acc_SCORErewardBalance = SCORE 0,
     acc_TSDrewardBalance = TSD 0, acc_curationRewards = 0, acc_posting_rewards = 0, acc_SCORE = SCORE v,
     acc_SCOREDelegated = SCORE 0, acc_SCOREreceived = SCORE 0, acc_SCOREwithdrawRateInTME = SCORE 0,
     acc_nextSCOREwithdrawalTime = 4294967295, acc_withdrawn = 0, acc_to_withdraw = 0, acc_withdraw_routes = 0,
     acc_proxied_votes = [0, 0, 0, 0], acc_witnesses_voted_for = 0, acc_last_post = 0,
     acc_last_root_post = 0, acc_post_bandwidth = 0\<rparr>"

definition example_gpo :: dynamic_global_property_object where
  "example_gpo = \<lparr>gpo_head_block_number = 1000, gpo_time = 1000, gpo_current_witness = ''alice'',
     gpo_total_pow = 0, gpo_num_pow_witnesses = 0, gpo_virtual_supply = TME 9000,
     gpo_current_supply = TME 8000, gpo_confidential_supply = TME 0, gpo_current_TSD_supply = TSD 500,
     gpo_confidential_TSD_supply = TSD 0, gpo_totalTMEfundForSCORE = TME 6000, gpo_totalSCORE = SCORE 6000000,
     gpo_total_reward_fund_TME = TME 0, gpo_totalSCOREreward2 = 0, gpo_pending_rewarded_SCORE = SCORE 0,
     gpo_pending_rewarded_SCOREvalueInTME = TME 0, gpo_TSD_interest_rate = 0, gpo_TSD_print_rate = PERCENT_100,
     gpo_maximum_block_size = 131072, gpo_current_aslot = 1000, gpo_recent_slots_filled = 0,
     gpo_participation_count = 128, gpo_last_irreversible_block_num = 985, gpo_vote_power_reserve_rate = 40\<rparr>"

definition example_props :: chain_properties where
  "example_props = \<lparr>cp_account_creation_fee = TME 1000, cp_maximum_block_size = 131072, cp_TSD_interest_rate = 0\<rparr>"

definition example_witness :: "nat \<Rightarrow> account_name_type \<Rightarrow> int \<Rightarrow> witness_object" where
  "example_witness i n v = \<lparr>wit_id = i, wit_owner = n, wit_created = 0, wit_url = ''u'', wit_total_missed = 0,
     wit_last_aslot = 0, wit_last_confirmed_block_num = 0, wit_pow_worker = 0, wit_signing_key = 1,
     wit_props = example_props, wit_TSD_exchange_rate = mk_price (TSD 1000) (TME 2000),
     wit_last_TSD_exchange_update = 0, wit_votes = v, wit_schedule = none, wit_virtual_last_update = 0,
     wit_virtual_position = 0, wit_virtual_scheduled_time = 0, wit_last_work = 0, wit_running_version = 0,
     wit_hardfork_version_vote = 0, wit_hardfork_time_vote = 0\<rparr>"

definition example_wso :: witness_schedule_object where
  "example_wso = \<lparr>wso_current_virtual_time = 0, wso_next_shuffle_block_num = 1,
     wso_current_shuffled_witnesses = [''alice''], wso_num_scheduled_witnesses = 1, wso_top19_weight = 1,
     wso_timeshare_weight = 5, wso_miner_weight = 1, wso_witness_pay_normalization_factor = 25,
     wso_median_props = example_props, wso_majority_version = 0, wso_max_voted_witnesses = 19,
     wso_max_miner_witnesses = 1, wso_max_runner_witnesses = 1, wso_hardfork_required_witnesses = 17\<rparr>"

definition example_db :: chain_db where
  "example_db = \<lparr>
     db_accounts = [example_account 0 ''alice'' 1000 500 1000000, example_account 1 ''bob'' 1000 0 2000000,
                    example_account 2 ''carol'' 0 0 3000000],
     db_authorities = [], db_gpo = example_gpo,
     db_feed = \<lparr>current_median_history = mk_price (TSD 1000) (TME 2000), price_history = []\<rparr>,
     db_wso = example_wso, db_processed_hardforks = 20,
     db_witnesses = [example_witness 0 ''alice'' 0], db_witness_votes = [], db_orders = [], db_converts = [],
     db_liquidity = [], db_routes = [], db_owner_history = [], db_recovery_requests = [], db_change_recovery = [],
     db_escrows = [], db_savings = [], db_declines = [], db_reward_funds = [], db_delegations = [],
     db_delegation_exps = [], db_next_id = (\<lambda>_. 10), db_comments = [], db_comment_votes = []\<rparr>"

lemmas example_defs = example_db_def example_account_def example_gpo_def example_witness_def example_wso_def
  example_props_def

text \<open>A computation that succeeds, for the evaluation of witnesses.\<close>

lemma some_the: "\<not> Option.is_none x \<Longrightarrow> x = Some (the x)"
  by (cases x) simp_all

end
