(* ===== verification/Escrow.thy ===== *)
theory Escrow
  imports Transfers Example
begin

text \<open>
  Escrow (\<open>libraries/chain/node_evaluator.cpp\<close>, \<open>expire_escrow_ratification\<close> of
  \<open>libraries/chain/database.cpp\<close>).  The evaluators work on a reference to the escrow row, which is
  its key \<open>(from, escrow_id)\<close>; after a \<open>modify\<close> the row is read again.

  Shown here: the life cycle of an escrow (proposed, approved by one party, approved, disputed,
  gone), that no operation can leave it, and that escrows neither create nor destroy funds.
\<close>

definition escrow_transfer_do_apply :: "fc_lib \<Rightarrow> escrow_transfer_operation \<Rightarrow> chain_db \<Rightarrow> chain_db option" where
  "escrow_transfer_do_apply F op d = do {
     from_account \<leftarrow> get_account (et_from op) d;
     _ \<leftarrow> get_account (et_to op) d;
     _ \<leftarrow> get_account (et_agent op) d;
     FC_ASSERT (et_ratification_deadline op > head_block_time d);
     FC_ASSERT (et_escrow_expiration op > head_block_time d);
     (TME_spent, TSD_spent) \<leftarrow>
        (if symbol (et_fee op) = SYMBOL_COIN
         then do { x \<leftarrow> asset_add F (et_TMEamount op) (et_fee op); Some (x, et_TSDamount op) }
         else do { y \<leftarrow> asset_add F (et_TSDamount op) (et_fee op); Some (et_TMEamount op, y) });
     FC_ASSERT_opt (asset_ge (acc_balance from_account) TME_spent);
     FC_ASSERT_opt (asset_ge (acc_TSDbalance from_account) TSD_spent);
     n1 \<leftarrow> asset_neg F TME_spent;
     d1 \<leftarrow> adjust_balance F (et_from op) n1 d;
     n2 \<leftarrow> asset_neg F TSD_spent;
     d2 \<leftarrow> adjust_balance F (et_from op) n2 d1;
     create_escrow \<lparr>esc_id = 0, esc_escrow_id = et_escrow_id op, esc_from = et_from op, esc_to = et_to op,
        esc_agent = et_agent op, esc_ratification_deadline = et_ratification_deadline op,
        esc_escrow_expiration = et_escrow_expiration op, esc_TSDbalance = et_TSDamount op,
        esc_TMEbalance = et_TMEamount op, esc_pending_fee = et_fee op,
        esc_to_approved = False, esc_agent_approved = False, esc_disputed = False\<rparr> d2 }"

text \<open>The three payments that return an escrow to its sender.\<close>

definition refund_escrow :: "fc_lib \<Rightarrow> account_name_type \<Rightarrow> escrow_object \<Rightarrow> chain_db \<Rightarrow> chain_db option" where
  "refund_escrow F n e d = do {
     d1 \<leftarrow> adjust_balance F n (esc_TMEbalance e) d;
     d2 \<leftarrow> adjust_balance F n (esc_TSDbalance e) d1;
     adjust_balance F n (esc_pending_fee e) d2 }"

definition escrow_approve_do_apply :: "fc_lib \<Rightarrow> escrow_approve_operation \<Rightarrow> chain_db \<Rightarrow> chain_db option" where
  "escrow_approve_do_apply F op d = do {
     let n = ea_from op; let i = ea_escrow_id op;
     e0 \<leftarrow> get_escrow n i d;
     FC_ASSERT (esc_to e0 = ea_to op);
     FC_ASSERT (esc_agent e0 = ea_agent op);
     FC_ASSERT (esc_ratification_deadline e0 \<ge> head_block_time d);
     let reject_escrow = (\<not> ea_approve op);
     d1 \<leftarrow> (if ea_who op = ea_to op then do {
              FC_ASSERT (\<not> esc_to_approved e0);
              if \<not> reject_escrow then modify_escrow n i (\<lambda>e. Some (e\<lparr>esc_to_approved := True\<rparr>)) d
              else Some d }
            else Some d);
     e1 \<leftarrow> get_escrow n i d1;
     d2 \<leftarrow> (if ea_who op = ea_agent op then do {
              FC_ASSERT (\<not> esc_agent_approved e1);
              if \<not> reject_escrow then modify_escrow n i (\<lambda>e. Some (e\<lparr>esc_agent_approved := True\<rparr>)) d1
              else Some d1 }
            else Some d1);
     e2 \<leftarrow> get_escrow n i d2;
     if reject_escrow then do {
       d3 \<leftarrow> refund_escrow F n e2 d2;
       Some (remove_escrow n i d3) }
     else if esc_to_approved e2 \<and> esc_agent_approved e2 then do {
       d3 \<leftarrow> adjust_balance F (ea_agent op) (esc_pending_fee e2) d2;
       modify_escrow n i (\<lambda>e. Some (e\<lparr>esc_pending_fee := (esc_pending_fee e)\<lparr>amount := 0\<rparr>\<rparr>)) d3 }
     else Some d2 }"

definition escrow_dispute_do_apply :: "escrow_dispute_operation \<Rightarrow> chain_db \<Rightarrow> chain_db option" where
  "escrow_dispute_do_apply op d = do {
     _ \<leftarrow> get_account (ed_from op) d;
     e \<leftarrow> get_escrow (ed_from op) (ed_escrow_id op) d;
     FC_ASSERT (head_block_time d < esc_escrow_expiration e);
     FC_ASSERT (esc_to_approved e \<and> esc_agent_approved e);
     FC_ASSERT (\<not> esc_disputed e);
     FC_ASSERT (esc_to e = ed_to op);
     FC_ASSERT (esc_agent e = ed_agent op);
     modify_escrow (ed_from op) (ed_escrow_id op) (\<lambda>e. Some (e\<lparr>esc_disputed := True\<rparr>)) d }"

definition escrow_release_do_apply :: "fc_lib \<Rightarrow> escrow_release_operation \<Rightarrow> chain_db \<Rightarrow> chain_db option" where
  "escrow_release_do_apply F op d = do {
     _ \<leftarrow> get_account (er_from op) d;
     _ \<leftarrow> get_account (er_receiver op) d;
     e \<leftarrow> get_escrow (er_from op) (er_escrow_id op) d;
     FC_ASSERT_opt (asset_ge (esc_TMEbalance e) (er_TMEamount op));
     FC_ASSERT_opt (asset_ge (esc_TSDbalance e) (er_TSDamount op));
     FC_ASSERT (esc_to e = er_to op);
     FC_ASSERT (esc_agent e = er_agent op);
     FC_ASSERT (er_receiver op = esc_from e \<or> er_receiver op = esc_to e);
     FC_ASSERT (esc_to_approved e \<and> esc_agent_approved e);
     (if esc_disputed e then FC_ASSERT (er_who op = esc_agent e)
      else do {
        FC_ASSERT (er_who op = esc_from e \<or> er_who op = esc_to e);
        if esc_escrow_expiration e > head_block_time d then
          if er_who op = esc_from e then FC_ASSERT (er_receiver op = esc_to e)
          else if er_who op = esc_to e then FC_ASSERT (er_receiver op = esc_from e)
          else Some ()
        else Some () });
     d1 \<leftarrow> adjust_balance F (er_receiver op) (er_TMEamount op) d;
     d2 \<leftarrow> adjust_balance F (er_receiver op) (er_TSDamount op) d1;
     d3 \<leftarrow> modify_escrow (er_from op) (er_escrow_id op) (\<lambda>e. do {
             x \<leftarrow> asset_sub F (esc_TMEbalance e) (er_TMEamount op);
             y \<leftarrow> asset_sub F (esc_TSDbalance e) (er_TSDamount op);
             Some (e\<lparr>esc_TMEbalance := x, esc_TSDbalance := y\<rparr>) }) d2;
     e3 \<leftarrow> get_escrow (er_from op) (er_escrow_id op) d3;
     if amount (esc_TMEbalance e3) = 0 \<and> amount (esc_TSDbalance e3) = 0
     then Some (remove_escrow (er_from op) (er_escrow_id op) d3)
     else Some d3 }"

definition esc_order :: "escrow_object \<Rightarrow> bool \<times> time \<times> nat" where
  "esc_order e = (is_approved e, esc_ratification_deadline e, esc_id e)"

fun expire_escrow_loop :: "fc_lib \<Rightarrow> escrow_object list \<Rightarrow> chain_db \<Rightarrow> chain_db option" where
  "expire_escrow_loop F [] d = Some d"
| "expire_escrow_loop F (e # es) d =
     (if \<not> is_approved e \<and> esc_ratification_deadline e \<le> head_block_time d then do {
        _ \<leftarrow> get_account (esc_from e) d;
        d1 \<leftarrow> refund_escrow F (esc_from e) e d;
        expire_escrow_loop F es (remove_escrow (esc_from e) (esc_escrow_id e) d1) }
      else Some d)"

definition expire_escrow_ratification :: "fc_lib \<Rightarrow> chain_db \<Rightarrow> chain_db option" where
  "expire_escrow_ratification F d = expire_escrow_loop F (idx_sorted esc_order (db_escrows d)) d"

subsection \<open>Conservation\<close>

text \<open>While one escrow is being approved its fee may be unpaid; the others are well-formed.\<close>

definition except_key :: "account_name_type \<times> nat \<Rightarrow> escrow_object \<Rightarrow> bool" where
  "except_key k e \<longleftrightarrow> escrow_symbols e \<and> (esc_key e \<noteq> k \<longrightarrow> escrow_ok e)"

lemma get_escrow_frame: "money_frame d d' \<Longrightarrow> get_escrow n i d' = get_escrow n i d"
  by (simp add: get_escrow_def find_escrow_def money_frameD)

lemma get_escrow_modify:
  assumes "modify_escrow n i f d = Some d'" "\<And>e e'. f e = Some e' \<Longrightarrow> esc_key e' = esc_key e"
  shows "\<exists>e e'. get_escrow n i d = Some e \<and> f e = Some e' \<and> get_escrow n i d' = Some e'"
proof -
  from assms(1) obtain xs where
    xs: "tbl_modify (\<lambda>e. esc_from e = n \<and> esc_escrow_id e = i) f (db_escrows d) = Some xs"
    and d': "d' = d\<lparr>db_escrows := xs\<rparr>"
    by (auto simp: modify_escrow_def bind_Some_iff)
  have "\<exists>x y. List.find (\<lambda>e. esc_from e = n \<and> esc_escrow_id e = i) (db_escrows d) = Some x \<and> f x = Some y \<and>
          List.find (\<lambda>e. esc_from e = n \<and> esc_escrow_id e = i) xs = Some y"
    by (rule find_modify_same[OF xs]) (use assms(2) in \<open>auto simp: esc_key_def\<close>)
  then show ?thesis by (simp add: get_escrow_def find_escrow_def d')
qed

lemma tbl_remove_other: "x \<in> set xs \<Longrightarrow> \<not> P x \<Longrightarrow> x \<in> set (tbl_remove P xs)"
  by (induction xs) auto

lemma distinct_map_idx_sorted: "distinct (map k (idx_sorted key xs)) = distinct (map k xs)"
proof -
  have "mset (map k (idx_sorted key xs)) = mset (map k xs)" by (simp add: idx_sorted_def)
  then show ?thesis by (metis distinct_count_atmost_1 set_mset_mset)
qed

context fc_safe
begin

lemma refund_escrow_moves:
  assumes "refund_escrow F n e d = Some d'" "escrow_symbols e"
  shows "moves d d' (amount (esc_TMEbalance e) + tme (esc_pending_fee e))
           (amount (esc_TSDbalance e) + tsd (esc_pending_fee e)) 0 0 \<and> money_frame d d'"
proof -
  from assms(1) obtain d1 d2 where
    a: "adjust_balance F n (esc_TMEbalance e) d = Some d1"
    and b: "adjust_balance F n (esc_TSDbalance e) d1 = Some d2"
    and c: "adjust_balance F n (esc_pending_fee e) d2 = Some d'"
    by (auto simp: refund_escrow_def bind_Some_iff)
  from moves_trans[OF moves_trans[OF adjust_balance_moves[OF a] adjust_balance_moves[OF b]]
      adjust_balance_moves[OF c]] assms(2)
  have "moves d d' (amount (esc_TMEbalance e) + tme (esc_pending_fee e))
           (amount (esc_TSDbalance e) + tsd (esc_pending_fee e)) 0 0"
    by (simp add: escrow_symbols_def tme_def tsd_def symbol_distinct)
  then show ?thesis
    using money_frame_trans[OF money_frame_trans[OF adjust_balance_frame[OF a] adjust_balance_frame[OF b]]
        adjust_balance_frame[OF c]] by simp
qed

lemma escrow_transfer_keeps:
  assumes "escrow_transfer_validate F op = Some ()" "ledger_ok d"
    "escrow_transfer_do_apply F op d = Some d'"
  shows "keeps d d'"
proof -
  from assms(1) have sy: "symbol (et_fee op) = SYMBOL_COIN \<or> symbol (et_fee op) = SYMBOL_USD"
    "symbol (et_TSDamount op) = SYMBOL_USD" "symbol (et_TMEamount op) = SYMBOL_COIN"
    by (auto simp: escrow_transfer_validate_def bind_Some_iff)
  from assms(3) obtain x y n1 n2 d1 d2 e where
    sp: "(if symbol (et_fee op) = SYMBOL_COIN
         then do { x \<leftarrow> asset_add F (et_TMEamount op) (et_fee op); Some (x, et_TSDamount op) }
         else do { y \<leftarrow> asset_add F (et_TSDamount op) (et_fee op); Some (et_TMEamount op, y) }) = Some (x, y)" and
    n1: "asset_neg F x = Some n1" and d1: "adjust_balance F (et_from op) n1 d = Some d1" and
    n2: "asset_neg F y = Some n2" and d2: "adjust_balance F (et_from op) n2 d1 = Some d2" and
    c: "create_escrow e d2 = Some d'" and
    e: "esc_TMEbalance e = et_TMEamount op" "esc_TSDbalance e = et_TSDamount op" "esc_pending_fee e = et_fee op"
      "\<not> esc_to_approved e"
    by (auto simp: escrow_transfer_do_apply_def bind_Some_iff)
  have ee: "escrow_ok (e\<lparr>esc_id := j\<rparr>)" for j
    using sy e by (simp add: escrow_ok_def escrow_symbols_def is_approved_def)
  have xy: "symbol x = SYMBOL_COIN" "symbol y = SYMBOL_USD"
    "amount x = amount (et_TMEamount op) + tme (et_fee op)"
    "amount y = amount (et_TSDamount op) + tsd (et_fee op)"
    using sp sy
    by (auto simp: bind_Some_iff tme_def tsd_def symbol_distinct split: if_splits dest!: asset_add_SomeD)
  have "moves d d' 0 0 0 0"
    using moves_trans[OF moves_trans[OF adjust_balance_moves[OF d1] adjust_balance_moves[OF d2]]
        create_escrow_moves[OF c]] asset_neg_SomeD[OF n1] asset_neg_SomeD[OF n2] xy e
    by (simp add: tme_def tsd_def symbol_distinct)
  moreover have "ledger_ok d2"
    using ledger_ok_frame[OF money_frame_trans[OF adjust_balance_frame[OF d1] adjust_balance_frame[OF d2]]]
      assms(2) by simp
  then have "ledger_ok d'" by (rule ledger_ok_create(1)[OF _ c]) (rule ee)
  ultimately show ?thesis by (simp add: keeps_def moves_gaps)
qed

lemma except_key_weaken: "ledger_ok d \<Longrightarrow> ledger_ok_with (except_key k) d"
  by (auto simp: ledger_ok_def except_key_def escrow_ok_def)

lemma except_key_restore:
  assumes "ledger_ok_with (except_key (n, i)) d" "get_escrow n i d = Some e" "escrow_ok e"
  shows "ledger_ok d"
proof -
  have "escrow_ok x" if x: "x \<in> set (db_escrows d)" for x
  proof (cases "esc_key x = (n, i)")
    case True
    have "List.find (\<lambda>y. esc_key y = esc_key x) (db_escrows d) = Some x"
      by (rule find_unique) (use assms(1) x in \<open>auto simp: ledger_ok_def\<close>)
    then have "get_escrow n i d = Some x" using True
      by (simp add: get_escrow_def find_escrow_def esc_key_def)
    then show ?thesis using assms(2,3) by simp
  next
    case False
    then show ?thesis using assms(1) x by (auto simp: ledger_ok_def except_key_def)
  qed
  then show ?thesis using assms(1) by (simp add: ledger_ok_def)
qed

lemma escrow_flag_moves:
  assumes "ledger_ok_with (except_key (n, i)) d" "modify_escrow n i (\<lambda>e. Some (f e)) d = Some d'"
    and "\<And>e. esc_key (f e) = esc_key e" "\<And>e. esc_TMEbalance (f e) = esc_TMEbalance e"
    "\<And>e. esc_TSDbalance (f e) = esc_TSDbalance e" "\<And>e. esc_pending_fee (f e) = esc_pending_fee e"
  shows "ledger_ok_with (except_key (n, i)) d' \<and> moves d d' 0 0 0 0"
proof
  show "moves d d' 0 0 0 0" using modify_escrow_moves[OF assms(2)] assms(4-6) by auto
  show "ledger_ok_with (except_key (n, i)) d'"
    by (rule ledger_ok_modify_escrow[OF assms(1,2)])
       (auto simp: assms except_key_def escrow_symbols_def)
qed

lemma escrow_dispute_keeps:
  assumes "ledger_ok d" "escrow_dispute_do_apply op d = Some d'"
  shows "keeps d d'"
proof -
  from assms(2) have m: "modify_escrow (ed_from op) (ed_escrow_id op) (\<lambda>e. Some (e\<lparr>esc_disputed := True\<rparr>)) d = Some d'"
    by (auto simp: escrow_dispute_do_apply_def bind_Some_iff)
  have "moves d d' 0 0 0 0" using modify_escrow_moves[OF m] by auto
  moreover have "ledger_ok d'"
    by (rule ledger_ok_modify_escrow[OF assms(1) m])
       (auto simp: esc_key_def escrow_ok_def escrow_symbols_def is_approved_def)
  ultimately show ?thesis by (simp add: keeps_def moves_gaps)
qed

lemma keeps_trans: "keeps d d1 \<Longrightarrow> keeps d1 d2 \<Longrightarrow> keeps d d2"
  by (simp add: keeps_def)

lemma keeps_refl: "ledger_ok d \<Longrightarrow> keeps d d"
  by (simp add: keeps_def)

lemma escrow_refund_remove_keeps:
  assumes "ledger_ok d" "get_escrow n i d = Some e" "refund_escrow F m e d = Some d1"
  shows "keeps d (remove_escrow n i d1)"
proof -
  have "escrow_symbols e" using ledger_ok_escrow[OF assms(1,2)] by (simp add: escrow_ok_def)
  note r = refund_escrow_moves[OF assms(3) this]
  have "get_escrow n i d1 = Some e" using assms(2) get_escrow_frame[of d d1 n i] r by simp
  from moves_trans[OF conjunct1[OF r] remove_escrow_moves[OF this]]
  have "moves d (remove_escrow n i d1) 0 0 0 0" by simp
  moreover have "ledger_ok d1" using ledger_ok_frame[of d d1] r assms(1) by blast
  then have "ledger_ok (remove_escrow n i d1)" by (rule ledger_ok_remove(1))
  ultimately show ?thesis by (simp add: keeps_def moves_gaps)
qed

lemma escrow_pay_fee:
  assumes "ledger_ok_with (except_key (n, i)) d" "get_escrow n i d = Some e"
    "adjust_balance F m (esc_pending_fee e) d = Some d1"
    "modify_escrow n i (\<lambda>e. Some (e\<lparr>esc_pending_fee := (esc_pending_fee e)\<lparr>amount := 0\<rparr>\<rparr>)) d1 = Some d'"
  shows "ledger_ok d' \<and> moves d d' 0 0 0 0"
proof
  note f = adjust_balance_frame[OF assms(3)]
  have g: "get_escrow n i d1 = Some e" using assms(2) get_escrow_frame[OF f] by simp
  from modify_escrow_moves[OF assms(4)] g
  have "moves d1 d' (- tme (esc_pending_fee e)) (- tsd (esc_pending_fee e)) 0 0"
    by (auto simp: tme_def tsd_def)
  from moves_trans[OF adjust_balance_moves[OF assms(3)] this] show "moves d d' 0 0 0 0" by simp
  show "ledger_ok d'"
    by (rule ledger_ok_modify_escrow[where P = "except_key (n, i)", OF _ assms(4)])
       (use ledger_ok_frame[OF f] assms(1) in
        \<open>auto simp: esc_key_def escrow_ok_def escrow_symbols_def except_key_def\<close>)
qed

text \<open>The two approval blocks of the handler.\<close>

lemma escrow_approve_split:
  assumes "escrow_approve_do_apply F op d = Some d'"
  obtains (reject) e d1 where "\<not> ea_approve op" "get_escrow (ea_from op) (ea_escrow_id op) d = Some e"
      "ea_who op = ea_to op \<longrightarrow> \<not> esc_to_approved e" "ea_who op = ea_agent op \<longrightarrow> \<not> esc_agent_approved e"
      "refund_escrow F (ea_from op) e d = Some d1" "d' = remove_escrow (ea_from op) (ea_escrow_id op) d1"
    | (accept) e0 d1 e1 d2 e2 where "ea_approve op"
      "get_escrow (ea_from op) (ea_escrow_id op) d = Some e0" "esc_to e0 = ea_to op" "esc_agent e0 = ea_agent op"
      "if ea_who op = ea_to op then \<not> esc_to_approved e0 \<and>
         modify_escrow (ea_from op) (ea_escrow_id op) (\<lambda>e. Some (e\<lparr>esc_to_approved := True\<rparr>)) d = Some d1
       else d1 = d"
      "get_escrow (ea_from op) (ea_escrow_id op) d1 = Some e1"
      "if ea_who op = ea_agent op then \<not> esc_agent_approved e1 \<and>
         modify_escrow (ea_from op) (ea_escrow_id op) (\<lambda>e. Some (e\<lparr>esc_agent_approved := True\<rparr>)) d1 = Some d2
       else d2 = d1"
      "get_escrow (ea_from op) (ea_escrow_id op) d2 = Some e2"
      "if is_approved e2 then \<exists>d3. adjust_balance F (ea_agent op) (esc_pending_fee e2) d2 = Some d3 \<and>
           modify_escrow (ea_from op) (ea_escrow_id op)
             (\<lambda>e. Some (e\<lparr>esc_pending_fee := (esc_pending_fee e)\<lparr>amount := 0\<rparr>\<rparr>)) d3 = Some d'
       else d' = d2"
proof (cases "ea_approve op")
  case False
  with assms that(1) show thesis
    by (auto simp: escrow_approve_do_apply_def bind_Some_iff Let_def split: if_splits)
next
  case True
  let ?n = "ea_from op" and ?i = "ea_escrow_id op"
  from assms True obtain e0 e1 e2 :: escrow_object and d1 d2 where
    e0: "get_escrow ?n ?i d = Some e0" "esc_to e0 = ea_to op" "esc_agent e0 = ea_agent op" and
    a1: "(if ea_who op = ea_to op then do {
              FC_ASSERT (\<not> esc_to_approved e0);
              modify_escrow ?n ?i (\<lambda>e. Some (e\<lparr>esc_to_approved := True\<rparr>)) d }
            else Some d) = Some d1" and
    e1: "get_escrow ?n ?i d1 = Some e1" and
    a2: "(if ea_who op = ea_agent op then do {
              FC_ASSERT (\<not> esc_agent_approved e1);
              modify_escrow ?n ?i (\<lambda>e. Some (e\<lparr>esc_agent_approved := True\<rparr>)) d1 }
            else Some d1) = Some d2" and
    a3: "get_escrow ?n ?i d2 = Some e2" and
    a4: "(if esc_to_approved e2 \<and> esc_agent_approved e2 then do {
       d3 \<leftarrow> adjust_balance F (ea_agent op) (esc_pending_fee e2) d2;
       modify_escrow ?n ?i (\<lambda>e. Some (e\<lparr>esc_pending_fee := (esc_pending_fee e)\<lparr>amount := 0\<rparr>\<rparr>)) d3 }
     else Some d2) = Some d'"
    unfolding escrow_approve_do_apply_def Let_def bind_Some_iff FC_ASSERT_Some
    by (simp only: not_not not_True_eq_False if_True if_False simp_thms) (elim exE conjE, rule that, assumption+)
  show thesis
  proof (rule that(2)[OF True e0 _ e1 _ a3])
    show "if ea_who op = ea_to op then \<not> esc_to_approved e0 \<and>
         modify_escrow ?n ?i (\<lambda>e. Some (e\<lparr>esc_to_approved := True\<rparr>)) d = Some d1 else d1 = d"
      using a1 by (auto simp: bind_Some_iff split: if_splits)
    show "if ea_who op = ea_agent op then \<not> esc_agent_approved e1 \<and>
         modify_escrow ?n ?i (\<lambda>e. Some (e\<lparr>esc_agent_approved := True\<rparr>)) d1 = Some d2 else d2 = d1"
      using a2 by (auto simp: bind_Some_iff split: if_splits)
    show "if is_approved e2 then \<exists>d3. adjust_balance F (ea_agent op) (esc_pending_fee e2) d2 = Some d3 \<and>
           modify_escrow ?n ?i (\<lambda>e. Some (e\<lparr>esc_pending_fee := (esc_pending_fee e)\<lparr>amount := 0\<rparr>\<rparr>)) d3 = Some d'
       else d' = d2"
      using a4 by (auto simp: is_approved_def bind_Some_iff split: if_splits)
  qed
qed

lemma escrow_approve_keeps:
  assumes "ledger_ok d" "escrow_approve_do_apply F op d = Some d'"
  shows "keeps d d'"
  using assms(2)
proof (cases rule: escrow_approve_split)
  case (reject e d1)
  from escrow_refund_remove_keeps[OF assms(1) reject(2,5)] reject(6) show ?thesis by simp
next
  case (accept e0 d1 e1 d2 e2)
  let ?k = "(ea_from op, ea_escrow_id op)"
  have s1: "ledger_ok_with (except_key ?k) d1 \<and> moves d d1 0 0 0 0"
    using accept(5) except_key_weaken[OF assms(1), of ?k]
      escrow_flag_moves[of "ea_from op" "ea_escrow_id op" d "\<lambda>e. e\<lparr>esc_to_approved := True\<rparr>" d1]
    by (auto simp: moves_refl esc_key_def split: if_splits)
  have "ledger_ok_with (except_key ?k) d2 \<and> moves d1 d2 0 0 0 0"
    using accept(7) conjunct1[OF s1]
      escrow_flag_moves[of "ea_from op" "ea_escrow_id op" d1 "\<lambda>e. e\<lparr>esc_agent_approved := True\<rparr>" d2]
    by (auto simp: moves_refl esc_key_def split: if_splits)
  with s1 have ok2: "ledger_ok_with (except_key ?k) d2" and m2: "moves d d2 0 0 0 0"
    by (auto simp: moves_def)
  show ?thesis
  proof (cases "is_approved e2")
    case True
    with accept(9) escrow_pay_fee[OF ok2 accept(8)] have "ledger_ok d'" "moves d2 d' 0 0 0 0" by auto
    with m2 show ?thesis by (auto simp: keeps_def moves_gaps[symmetric] moves_def)
  next
    case False
    have "escrow_ok e2" using ledger_ok_escrow[OF ok2 accept(8)] False
      by (simp add: except_key_def escrow_ok_def)
    from except_key_restore[OF ok2 accept(8) this] m2 accept(9) False show ?thesis
      by (simp add: keeps_def moves_gaps)
  qed
qed

lemma escrow_release_keeps:
  assumes "escrow_release_validate op = Some ()" "ledger_ok d" "escrow_release_do_apply F op d = Some d'"
  shows "keeps d d'"
proof -
  let ?n = "er_from op" and ?i = "er_escrow_id op"
  let ?f = "\<lambda>e. do { x \<leftarrow> asset_sub F (esc_TMEbalance e) (er_TMEamount op);
                      y \<leftarrow> asset_sub F (esc_TSDbalance e) (er_TSDamount op);
                      Some (e\<lparr>esc_TMEbalance := x, esc_TSDbalance := y\<rparr>) }"
  from assms(1) have sy: "symbol (er_TSDamount op) = SYMBOL_USD" "symbol (er_TMEamount op) = SYMBOL_COIN"
    by (auto simp: escrow_release_validate_def bind_Some_iff)
  from assms(3) obtain e d1 d2 d3 e3 where
    e: "get_escrow ?n ?i d = Some e" and ap: "esc_to_approved e \<and> esc_agent_approved e" and
    d1: "adjust_balance F (er_receiver op) (er_TMEamount op) d = Some d1" and
    d2: "adjust_balance F (er_receiver op) (er_TSDamount op) d1 = Some d2" and
    d3: "modify_escrow ?n ?i ?f d2 = Some d3" and
    e3: "get_escrow ?n ?i d3 = Some e3" and
    r: "(if amount (esc_TMEbalance e3) = 0 \<and> amount (esc_TSDbalance e3) = 0
         then Some (remove_escrow ?n ?i d3) else Some d3) = Some d'"
    unfolding escrow_release_do_apply_def bind_Some_iff FC_ASSERT_Some by (elim exE conjE) auto
  have f2: "money_frame d d2"
    using money_frame_trans[OF adjust_balance_frame[OF d1] adjust_balance_frame[OF d2]] .
  have fk: "esc_key b = esc_key a" if "?f a = Some b" for a b
    using that by (auto simp: bind_Some_iff esc_key_def)
  from get_escrow_modify[OF d3 fk] obtain x y where
    x: "asset_sub F (esc_TMEbalance e) (er_TMEamount op) = Some x"
       "asset_sub F (esc_TSDbalance e) (er_TSDamount op) = Some y"
       "e3 = e\<lparr>esc_TMEbalance := x, esc_TSDbalance := y\<rparr>"
    using get_escrow_frame[OF f2] e e3 by (auto simp: bind_Some_iff)
  have "moves d2 d3 (- amount (er_TMEamount op)) (- amount (er_TSDamount op)) 0 0"
    using modify_escrow_moves[OF d3]
    by (auto simp: bind_Some_iff dest!: asset_sub_SomeD)
  with moves_trans[OF adjust_balance_moves[OF d1] adjust_balance_moves[OF d2]] sy
  have m3: "moves d d3 0 0 0 0" by (simp add: moves_def tme_def tsd_def symbol_distinct)
  have ok2: "ledger_ok d2" using ledger_ok_frame[OF f2] assms(2) by blast
  have fo: "escrow_ok b" if "?f a = Some b" "escrow_ok a" for a b
    using that by (auto simp: bind_Some_iff escrow_ok_def escrow_symbols_def is_approved_def dest!: asset_sub_SomeD)
  have ok3: "ledger_ok d3"
    by (rule ledger_ok_modify_escrow[OF ok2 d3 fk]) (use fo in blast)+
  show ?thesis
  proof (cases "d' = d3")
    case True
    then show ?thesis using ok3 m3 by (simp add: keeps_def moves_gaps)
  next
    case False
    with r have z: "amount (esc_TMEbalance e3) = 0" "amount (esc_TSDbalance e3) = 0"
      and d': "d' = remove_escrow ?n ?i d3" by (auto split: if_splits)
    have "escrow_ok e3" by (rule ledger_ok_escrow[OF ok3 e3])
    then have "amount (esc_pending_fee e3) = 0" using ap x(3) by (simp add: escrow_ok_def is_approved_def)
    then have "tme (esc_pending_fee e3) = 0" "tsd (esc_pending_fee e3) = 0" by (simp_all add: tme_def tsd_def)
    with remove_escrow_moves[OF e3] z have "moves d3 d' 0 0 0 0" by (simp add: d')
    with m3 ledger_ok_remove(1)[OF ok3] d' show ?thesis
      by (auto simp: keeps_def moves_gaps[symmetric] moves_def)
  qed
qed

text \<open>One round of the expiry loop; the rows still to be visited stay rows of the table.\<close>

lemma expire_round:
  assumes "ledger_ok d" "set (e # es) \<subseteq> set (db_escrows d)" "distinct (map esc_key (e # es))"
    "refund_escrow F (esc_from e) e d = Some d1"
  shows "keeps d (remove_escrow (esc_from e) (esc_escrow_id e) d1) \<and>
    set es \<subseteq> set (db_escrows (remove_escrow (esc_from e) (esc_escrow_id e) d1)) \<and>
    (\<forall>m j. get_escrow m j d1 = get_escrow m j d) \<and> ledger_ok d1 \<and> head_block_time d1 = head_block_time d"
proof -
  let ?d2 = "remove_escrow (esc_from e) (esc_escrow_id e) d1"
  have "List.find (\<lambda>y. esc_key y = esc_key e) (db_escrows d) = Some e"
    by (rule find_unique) (use assms in \<open>auto simp: ledger_ok_def\<close>)
  then have ge: "get_escrow (esc_from e) (esc_escrow_id e) d = Some e"
    by (simp add: get_escrow_def find_escrow_def esc_key_def)
  have "escrow_symbols e" using ledger_ok_escrow[OF assms(1) ge] by (simp add: escrow_ok_def)
  note f = conjunct2[OF refund_escrow_moves[OF assms(4) this]]
  have esc1: "db_escrows d1 = db_escrows d" using f by (simp add: money_frameD)
  have "x \<in> set (db_escrows ?d2)" if "x \<in> set es" for x
  proof -
    have "x \<in> set (db_escrows d)" "esc_key x \<in> esc_key ` set es" using that assms(2) by auto
    then have "x \<in> set (db_escrows d)" "esc_key x \<noteq> esc_key e" using assms(3) by auto
    then have "x \<in> set (tbl_remove (\<lambda>y. esc_from y = esc_from e \<and> esc_escrow_id y = esc_escrow_id e) (db_escrows d))"
      by (intro tbl_remove_other) (auto simp: esc_key_def)
    then show ?thesis by (simp add: remove_escrow_def esc1)
  qed
  moreover have "keeps d ?d2" by (rule escrow_refund_remove_keeps[OF assms(1) ge assms(4)])
  moreover have "ledger_ok d1" using ledger_ok_frame[OF f] assms(1) by blast
  ultimately show ?thesis using get_escrow_frame[OF f] money_frameD(18)[OF f] by blast
qed

lemma expire_escrow_loop_keeps:
  "ledger_ok d \<Longrightarrow> set es \<subseteq> set (db_escrows d) \<Longrightarrow> distinct (map esc_key es) \<Longrightarrow>
   expire_escrow_loop F es d = Some d' \<Longrightarrow> keeps d d'"
proof (induction es arbitrary: d)
  case Nil
  then show ?case by (simp add: keeps_def)
next
  case (Cons e es)
  show ?case
  proof (cases "\<not> is_approved e \<and> esc_ratification_deadline e \<le> head_block_time d")
    case False
    then show ?thesis using Cons.prems by (auto simp: keeps_def split: if_splits)
  next
    case True
    with Cons.prems(4) obtain d1 where
      d1: "refund_escrow F (esc_from e) e d = Some d1" and
      r: "expire_escrow_loop F es (remove_escrow (esc_from e) (esc_escrow_id e) d1) = Some d'"
      by (auto simp: bind_Some_iff)
    note k = expire_round[OF Cons.prems(1-3) d1]
    with Cons.IH[OF _ _ _ r] Cons.prems(3)
    have "keeps (remove_escrow (esc_from e) (esc_escrow_id e) d1) d'" by (simp add: keeps_def)
    with k show ?thesis using keeps_trans by blast
  qed
qed

lemma expire_escrow_ratification_keeps:
  assumes "ledger_ok d" "expire_escrow_ratification F d = Some d'"
  shows "keeps d d'"
proof (rule expire_escrow_loop_keeps[OF assms(1)])
  show "expire_escrow_loop F (idx_sorted esc_order (db_escrows d)) d = Some d'"
    using assms(2) by (simp add: expire_escrow_ratification_def)
  show "set (idx_sorted esc_order (db_escrows d)) \<subseteq> set (db_escrows d)" by simp
  show "distinct (map esc_key (idx_sorted esc_order (db_escrows d)))"
    using assms(1) by (simp add: ledger_ok_def distinct_map_idx_sorted)
qed

end

subsection \<open>Reading an escrow after a row operation\<close>

lemma get_escrow_create:
  assumes "create_escrow e d = Some d'"
  shows "get_escrow n i d' =
    (if (n, i) = esc_key e then Some (e\<lparr>esc_id := db_next_id d escrow_object_type\<rparr>) else get_escrow n i d)"
    and "get_escrow (esc_from e) (esc_escrow_id e) d = None"
proof -
  from assms have xs: "db_escrows d' = db_escrows d @ [e\<lparr>esc_id := db_next_id d escrow_object_type\<rparr>]"
    and nc: "\<forall>r \<in> set (db_escrows d). \<not> (esc_from e = esc_from r \<and> esc_escrow_id e = esc_escrow_id r)"
    by (auto simp: create_escrow_def bind_Some_iff tbl_emplace_Some)
  from nc show none: "get_escrow (esc_from e) (esc_escrow_id e) d = None"
    unfolding get_escrow_def find_escrow_def find_None_all by auto
  show "get_escrow n i d' =
    (if (n, i) = esc_key e then Some (e\<lparr>esc_id := db_next_id d escrow_object_type\<rparr>) else get_escrow n i d)"
  proof (cases "(n, i) = esc_key e")
    case True
    then show ?thesis using none
      by (auto simp: get_escrow_def find_escrow_def xs find_append esc_key_def)
  next
    case False
    then show ?thesis
      by (auto simp: get_escrow_def find_escrow_def xs find_append esc_key_def split: option.split)
  qed
qed

lemma get_escrow_modify_other:
  assumes "modify_escrow n i f d = Some d'" "\<And>e e'. f e = Some e' \<Longrightarrow> esc_key e' = esc_key e" "(m, j) \<noteq> (n, i)"
  shows "get_escrow m j d' = get_escrow m j d"
proof -
  from assms(1) obtain xs where
    xs: "tbl_modify (\<lambda>e. esc_from e = n \<and> esc_escrow_id e = i) f (db_escrows d) = Some xs"
    and d': "d' = d\<lparr>db_escrows := xs\<rparr>"
    by (auto simp: modify_escrow_def bind_Some_iff)
  have "List.find (\<lambda>e. esc_from e = m \<and> esc_escrow_id e = j) xs
      = List.find (\<lambda>e. esc_from e = m \<and> esc_escrow_id e = j) (db_escrows d)"
    by (rule find_modify_other[OF xs]) (use assms(2,3) in \<open>auto simp: esc_key_def\<close>)
  then show ?thesis by (simp add: get_escrow_def find_escrow_def d')
qed

lemma find_tbl_remove:
  assumes "distinct (map k xs)"
  shows "List.find (\<lambda>x. k x = b) (tbl_remove (\<lambda>x. k x = a) xs)
       = (if a = b then None else List.find (\<lambda>x. k x = b) xs)"
  using assms
proof (induction xs)
  case (Cons x xs)
  show ?case
  proof (cases "k x = a")
    case True
    then have "a \<notin> k ` set xs" using Cons.prems by simp
    then have "\<forall>y \<in> set xs. k y \<noteq> a" by blast
    then show ?thesis using True by (auto simp: find_None_all)
  next
    case False
    then show ?thesis using Cons by auto
  qed
qed simp

lemma get_escrow_remove:
  assumes "ledger_ok_with P d"
  shows "get_escrow m j (remove_escrow n i d) = (if (n, i) = (m, j) then None else get_escrow m j d)"
  unfolding get_escrow_def find_escrow_def remove_escrow_def
  using assms find_tbl_remove[of esc_key "db_escrows d" "(m, j)" "(n, i)"]
  by (simp add: ledger_ok_def esc_key_def)

subsection \<open>Life cycle\<close>

datatype escrow_phase = Absent | Proposed bool bool | Ratified | Disputed

definition phase_of :: "escrow_object option \<Rightarrow> escrow_phase" where
  "phase_of r = (case r of None \<Rightarrow> Absent
     | Some e \<Rightarrow> if is_approved e then if esc_disputed e then Disputed else Ratified
                else Proposed (esc_to_approved e) (esc_agent_approved e))"

definition phase :: "account_name_type \<Rightarrow> nat \<Rightarrow> chain_db \<Rightarrow> escrow_phase" where
  "phase n i d = phase_of (get_escrow n i d)"

text \<open>What an escrow promises its parties: approvals accumulate one by one and are never taken
  back, a dispute needs both approvals and is never withdrawn, and a proposal that is rejected or
  expires disappears.\<close>

inductive phase_step :: "escrow_phase \<Rightarrow> escrow_phase \<Rightarrow> bool" where
  propose: "phase_step Absent (Proposed False False)"
| to_first: "phase_step (Proposed False False) (Proposed True False)"
| agent_first: "phase_step (Proposed False False) (Proposed False True)"
| agent_second: "phase_step (Proposed True False) Ratified"
| to_second: "phase_step (Proposed False True) Ratified"
| reject: "phase_step (Proposed a b) Absent"
| dispute: "phase_step Ratified Disputed"
| settle: "phase_step Ratified Absent"
| arbitrate: "phase_step Disputed Absent"

inductive_simps phase_step_simps [simp]:
  "phase_step Absent p" "phase_step (Proposed a b) p" "phase_step Ratified p" "phase_step Disputed p"

datatype escrow_command =
    Esc_transfer escrow_transfer_operation
  | Esc_approve escrow_approve_operation
  | Esc_dispute escrow_dispute_operation
  | Esc_release escrow_release_operation
  | Esc_expire

fun escrow_valid :: "fc_lib \<Rightarrow> escrow_command \<Rightarrow> bool" where
  "escrow_valid F (Esc_transfer op) = (escrow_transfer_validate F op = Some ())"
| "escrow_valid F (Esc_approve op) = (escrow_approve_validate op = Some ())"
| "escrow_valid F (Esc_dispute op) = (escrow_dispute_validate op = Some ())"
| "escrow_valid F (Esc_release op) = (escrow_release_validate op = Some ())"
| "escrow_valid F Esc_expire = True"

fun escrow_apply :: "fc_lib \<Rightarrow> escrow_command \<Rightarrow> chain_db \<Rightarrow> chain_db option" where
  "escrow_apply F (Esc_transfer op) d = escrow_transfer_do_apply F op d"
| "escrow_apply F (Esc_approve op) d = escrow_approve_do_apply F op d"
| "escrow_apply F (Esc_dispute op) d = escrow_dispute_do_apply op d"
| "escrow_apply F (Esc_release op) d = escrow_release_do_apply F op d"
| "escrow_apply F Esc_expire d = expire_escrow_ratification F d"

definition esc_expired :: "time \<Rightarrow> escrow_object \<Rightarrow> bool" where
  "esc_expired t e \<longleftrightarrow> \<not> is_approved e \<and> esc_ratification_deadline e \<le> t"

text \<open>The agent of an escrow is not its receiver; only approved escrows are disputed.\<close>

definition escrow_party :: "escrow_object \<Rightarrow> bool" where
  "escrow_party e \<longleftrightarrow> esc_to e \<noteq> esc_agent e \<and> (esc_disputed e \<longrightarrow> is_approved e)"

definition escrow_parties :: "chain_db \<Rightarrow> bool" where
  "escrow_parties d \<longleftrightarrow> (\<forall>n i e. get_escrow n i d = Some e \<longrightarrow> escrow_party e)"

text \<open>The escrows a command may touch: the one an operation names, and for the processing of the
  deadline all that are overdue and not ratified.\<close>

fun concerns :: "escrow_command \<Rightarrow> chain_db \<Rightarrow> account_name_type \<Rightarrow> nat \<Rightarrow> bool" where
  "concerns (Esc_transfer op) d n i = (n = et_from op \<and> i = et_escrow_id op)"
| "concerns (Esc_approve op) d n i = (n = ea_from op \<and> i = ea_escrow_id op)"
| "concerns (Esc_dispute op) d n i = (n = ed_from op \<and> i = ed_escrow_id op)"
| "concerns (Esc_release op) d n i = (n = er_from op \<and> i = er_escrow_id op)"
| "concerns Esc_expire d n i = (case get_escrow n i d of None \<Rightarrow> False | Some e \<Rightarrow> esc_expired (head_block_time d) e)"

lemma concerns_named:
  "concerns (Esc_transfer t) d = (\<lambda>n i. n = et_from t \<and> i = et_escrow_id t)"
  "concerns (Esc_approve a) d = (\<lambda>n i. n = ea_from a \<and> i = ea_escrow_id a)"
  "concerns (Esc_dispute p) d = (\<lambda>n i. n = ed_from p \<and> i = ed_escrow_id p)"
  "concerns (Esc_release r) d = (\<lambda>n i. n = er_from r \<and> i = er_escrow_id r)"
  by (simp_all add: fun_eq_iff)

definition phases_follow :: "(account_name_type \<Rightarrow> nat \<Rightarrow> bool) \<Rightarrow> chain_db \<Rightarrow> chain_db \<Rightarrow> bool" where
  "phases_follow K d d' \<longleftrightarrow> escrow_parties d' \<and>
     (\<forall>n i. if K n i then phase n i d' = phase n i d \<or> phase_step (phase n i d) (phase n i d')
            else get_escrow n i d' = get_escrow n i d)"

lemma phases_followI:
  assumes "escrow_parties d" "\<And>m j. (m, j) \<noteq> (n, i) \<Longrightarrow> get_escrow m j d' = get_escrow m j d"
    "get_escrow n i d' = r" "\<And>e. r = Some e \<Longrightarrow> escrow_party e"
    "phase_of r = phase n i d \<or> phase_step (phase n i d) (phase_of r)"
  shows "phases_follow (\<lambda>m j. m = n \<and> j = i) d d'"
proof -
  have "escrow_party e" if "get_escrow m j d' = Some e" for m j e
  proof (cases "(m, j) = (n, i)")
    case True
    then show ?thesis using that assms(3,4) by auto
  next
    case False
    then show ?thesis using that assms(1) assms(2)[OF False] unfolding escrow_parties_def by metis
  qed
  then have "escrow_parties d'" by (simp add: escrow_parties_def)
  then show ?thesis using assms(2,3,5) by (simp add: phases_follow_def phase_def)
qed

context fc_safe
begin

lemma escrow_transfer_phases:
  assumes "escrow_transfer_validate F op = Some ()" "escrow_parties d" "escrow_transfer_do_apply F op d = Some d'"
  shows "phases_follow (\<lambda>m j. m = et_from op \<and> j = et_escrow_id op) d d'"
proof -
  from assms(3) obtain x y n1 n2 d1 d2 e where
    d1: "adjust_balance F (et_from op) n1 d = Some d1" and
    d2: "adjust_balance F (et_from op) n2 d1 = Some d2" and
    c: "create_escrow e d2 = Some d'" and
    e: "esc_key e = (et_from op, et_escrow_id op)" "esc_to e = et_to op" "esc_agent e = et_agent op"
      "\<not> esc_to_approved e" "\<not> esc_agent_approved e" "\<not> esc_disputed e"
    by (auto simp: escrow_transfer_do_apply_def bind_Some_iff esc_key_def)
  note f = get_escrow_frame[OF money_frame_trans[OF adjust_balance_frame[OF d1] adjust_balance_frame[OF d2]]]
  from assms(1) have v: "et_to op \<noteq> et_agent op" by (auto simp: escrow_transfer_validate_def bind_Some_iff)
  have old: "phase (et_from op) (et_escrow_id op) d = Absent"
    using get_escrow_create(2)[OF c] f e(1) by (simp add: phase_def phase_of_def esc_key_def)
  show ?thesis
  proof (rule phases_followI[OF assms(2)])
    show "get_escrow m j d' = get_escrow m j d" if "(m, j) \<noteq> (et_from op, et_escrow_id op)" for m j
      using get_escrow_create(1)[OF c, of m j] f that e(1) by auto
    show "get_escrow (et_from op) (et_escrow_id op) d'
        = Some (e\<lparr>esc_id := db_next_id d2 escrow_object_type\<rparr>)"
      using get_escrow_create(1)[OF c] e(1) by simp
  qed (use old e v in \<open>auto simp: phase_of_def is_approved_def escrow_party_def\<close>)
qed

lemma escrow_remove_phases:
  assumes "ledger_ok_with P d1" "escrow_parties d" "\<And>m j. get_escrow m j d1 = get_escrow m j d"
    "phase n i d \<noteq> Absent"
  shows "phases_follow (\<lambda>m j. m = n \<and> j = i) d (remove_escrow n i d1)"
  by (rule phases_followI[OF assms(2), where n = n and i = i and r = None])
     (use assms(4) in \<open>auto simp: get_escrow_remove[OF assms(1)] assms(3) phase_of_def elim: phase_step.cases\<close>,
      cases "phase n i d", auto)

lemma escrow_dispute_phases:
  assumes "escrow_parties d" "escrow_dispute_do_apply op d = Some d'"
  shows "phases_follow (\<lambda>m j. m = ed_from op \<and> j = ed_escrow_id op) d d'"
proof -
  let ?n = "ed_from op" and ?i = "ed_escrow_id op"
  from assms(2) obtain e where e: "get_escrow ?n ?i d = Some e" "is_approved e" "\<not> esc_disputed e" and
    m: "modify_escrow ?n ?i (\<lambda>e. Some (e\<lparr>esc_disputed := True\<rparr>)) d = Some d'"
    by (auto simp: escrow_dispute_do_apply_def bind_Some_iff is_approved_def)
  have "get_escrow ?n ?i d' = Some (e\<lparr>esc_disputed := True\<rparr>)"
    using get_escrow_modify[OF m] e(1) by (auto simp: esc_key_def)
  moreover have "escrow_party e" using assms(1) e(1) by (simp add: escrow_parties_def)
  ultimately show ?thesis
    using e get_escrow_modify_other[OF m]
    by (intro phases_followI[OF assms(1), where n = "?n" and i = "?i"])
       (auto simp: esc_key_def phase_def phase_of_def is_approved_def escrow_party_def)
qed

lemma escrow_release_phases:
  assumes "escrow_release_validate op = Some ()" "ledger_ok d" "escrow_parties d"
    "escrow_release_do_apply F op d = Some d'"
  shows "phases_follow (\<lambda>m j. m = er_from op \<and> j = er_escrow_id op) d d'"
proof -
  let ?n = "er_from op" and ?i = "er_escrow_id op"
  let ?f = "\<lambda>e. do { x \<leftarrow> asset_sub F (esc_TMEbalance e) (er_TMEamount op);
                      y \<leftarrow> asset_sub F (esc_TSDbalance e) (er_TSDamount op);
                      Some (e\<lparr>esc_TMEbalance := x, esc_TSDbalance := y\<rparr>) }"
  from assms(4) obtain e d1 d2 d3 e3 where
    e: "get_escrow ?n ?i d = Some e" and ap: "esc_to_approved e \<and> esc_agent_approved e" and
    d1: "adjust_balance F (er_receiver op) (er_TMEamount op) d = Some d1" and
    d2: "adjust_balance F (er_receiver op) (er_TSDamount op) d1 = Some d2" and
    d3: "modify_escrow ?n ?i ?f d2 = Some d3" and
    e3: "get_escrow ?n ?i d3 = Some e3" and
    r: "(if amount (esc_TMEbalance e3) = 0 \<and> amount (esc_TSDbalance e3) = 0
         then Some (remove_escrow ?n ?i d3) else Some d3) = Some d'"
    unfolding escrow_release_do_apply_def bind_Some_iff FC_ASSERT_Some by (elim exE conjE) auto
  note f2 = money_frame_trans[OF adjust_balance_frame[OF d1] adjust_balance_frame[OF d2]]
  have fk: "esc_key b = esc_key a" if "?f a = Some b" for a b
    using that by (auto simp: bind_Some_iff esc_key_def)
  from get_escrow_modify[OF d3 fk] obtain x y where
    x: "get_escrow ?n ?i d3 = Some (e\<lparr>esc_TMEbalance := x, esc_TSDbalance := y\<rparr>)"
    using get_escrow_frame[OF f2] e by (auto simp: bind_Some_iff)
  have oth: "get_escrow m j d3 = get_escrow m j d" if "(m, j) \<noteq> (?n, ?i)" for m j
    using get_escrow_modify_other[OF d3 fk that] get_escrow_frame[OF f2] by simp
  have "ledger_ok d2" using ledger_ok_frame[OF f2] assms(2) by blast
  then have ok3: "ledger_ok_with (\<lambda>_. True) d3"
    by (intro ledger_ok_modify_escrow[OF _ d3 fk, where P = "\<lambda>_. True"]) (auto simp: ledger_ok_def)
  have p: "escrow_party e" using assms(3) e by (simp add: escrow_parties_def)
  show ?thesis
  proof (cases "d' = d3")
    case True
    show ?thesis
      by (rule phases_followI[OF assms(3) oth[folded True] x[folded True]])
         (use e p in \<open>auto simp: phase_def phase_of_def is_approved_def escrow_party_def\<close>)
  next
    case False
    then have "d' = remove_escrow ?n ?i d3" using r by (auto split: if_splits)
    then show ?thesis using oth e ap
      by (intro phases_followI[OF assms(3), where n = "?n" and i = "?i" and r = None])
         (auto simp: get_escrow_remove[OF ok3] phase_def phase_of_def is_approved_def)
  qed
qed

lemma escrow_approve_phases:
  assumes "escrow_approve_validate op = Some ()" "ledger_ok d" "escrow_parties d"
    "escrow_approve_do_apply F op d = Some d'"
  shows "phases_follow (\<lambda>m j. m = ea_from op \<and> j = ea_escrow_id op) d d'"
  using assms(4)
proof (cases rule: escrow_approve_split)
  case (reject e d1)
  have who: "ea_who op = ea_to op \<or> ea_who op = ea_agent op"
    using assms(1) by (auto simp: escrow_approve_validate_def bind_Some_iff)
  have "escrow_symbols e" using ledger_ok_escrow[OF assms(2) reject(2)] by (simp add: escrow_ok_def)
  note f = conjunct2[OF refund_escrow_moves[OF reject(5) this]]
  have "ledger_ok d1" using ledger_ok_frame[OF f] assms(2) by blast
  from escrow_remove_phases[OF this assms(3) get_escrow_frame[OF f]] reject who show ?thesis
    by (auto simp: phase_def phase_of_def is_approved_def)
next
  case (accept e0 d1 e1 d2 e2)
  let ?n = "ea_from op" and ?i = "ea_escrow_id op"
  have who: "ea_who op = ea_to op \<or> ea_who op = ea_agent op"
    using assms(1) by (auto simp: escrow_approve_validate_def bind_Some_iff)
  have p: "escrow_party e0" using assms(3) accept(2) by (simp add: escrow_parties_def)
  have e1: "e1 = (if ea_who op = ea_to op then e0\<lparr>esc_to_approved := True\<rparr> else e0)"
    using accept(2,5,6) get_escrow_modify[of ?n ?i "\<lambda>e. Some (e\<lparr>esc_to_approved := True\<rparr>)" d d1] by (auto simp: esc_key_def split: if_splits)
  have e2: "e2 = (if ea_who op = ea_agent op then e1\<lparr>esc_agent_approved := True\<rparr> else e1)"
    using accept(6,7,8) get_escrow_modify[of ?n ?i "\<lambda>e. Some (e\<lparr>esc_agent_approved := True\<rparr>)" d1 d2] by (auto simp: esc_key_def split: if_splits)
  have o1: "get_escrow m j d1 = get_escrow m j d" if "(m, j) \<noteq> (?n, ?i)" for m j
    using accept(5) get_escrow_modify_other[of ?n ?i "\<lambda>e. Some (e\<lparr>esc_to_approved := True\<rparr>)" d d1 m j] that by (auto simp: esc_key_def split: if_splits)
  have o2: "get_escrow m j d2 = get_escrow m j d1" if "(m, j) \<noteq> (?n, ?i)" for m j
    using accept(7) get_escrow_modify_other[of ?n ?i "\<lambda>e. Some (e\<lparr>esc_agent_approved := True\<rparr>)" d1 d2 m j] that by (auto simp: esc_key_def split: if_splits)
  have na: "ea_who op = ea_agent op \<Longrightarrow> \<not> esc_agent_approved e0"
    using accept(7) e1 by (auto split: if_splits)
  have nt: "ea_who op = ea_to op \<Longrightarrow> \<not> esc_to_approved e0" using accept(5) by auto
  have ne: "ea_to op \<noteq> ea_agent op" using p accept(3,4) by (simp add: escrow_party_def)
  have st: "phase_of (Some e2) = phase ?n ?i d \<or> phase_step (phase ?n ?i d) (phase_of (Some e2))"
    and p2: "escrow_party e2"
    using who ne na nt p e1 e2 accept(2)
    by (auto simp: phase_def phase_of_def is_approved_def escrow_party_def split: if_splits)
  have "\<exists>x. get_escrow ?n ?i d' = Some (e2\<lparr>esc_pending_fee := x\<rparr>) \<and>
      (\<forall>m j. (m, j) \<noteq> (?n, ?i) \<longrightarrow> get_escrow m j d' = get_escrow m j d)"
  proof (cases "is_approved e2")
    case False
    then have "d' = d2" using accept(9) by simp
    then show ?thesis using accept(8) o1 o2 by (auto intro!: exI[of _ "esc_pending_fee e2"])
  next
    case True
    with accept(9) obtain d3 where d3: "adjust_balance F (ea_agent op) (esc_pending_fee e2) d2 = Some d3"
      and m: "modify_escrow ?n ?i (\<lambda>e. Some (e\<lparr>esc_pending_fee := (esc_pending_fee e)\<lparr>amount := 0\<rparr>\<rparr>)) d3 = Some d'"
      by auto
    note f = get_escrow_frame[OF adjust_balance_frame[OF d3]]
    from get_escrow_modify[OF m] f accept(8)
    have "get_escrow ?n ?i d' = Some (e2\<lparr>esc_pending_fee := (esc_pending_fee e2)\<lparr>amount := 0\<rparr>\<rparr>)"
      by (auto simp: esc_key_def)
    moreover have "get_escrow m j d' = get_escrow m j d" if "(m, j) \<noteq> (?n, ?i)" for m j
      using get_escrow_modify_other[OF m _ that] f o1[OF that] o2[OF that] by (auto simp: esc_key_def)
    ultimately show ?thesis by blast
  qed
  then obtain x where x: "get_escrow ?n ?i d' = Some (e2\<lparr>esc_pending_fee := x\<rparr>)"
    "\<And>m j. (m, j) \<noteq> (?n, ?i) \<Longrightarrow> get_escrow m j d' = get_escrow m j d" by blast
  show ?thesis
    by (rule phases_followI[OF assms(3) x(2) x(1)])
       (use st p2 in \<open>auto simp: phase_of_def is_approved_def escrow_party_def\<close>)
qed

text \<open>The expiry loop stops at the first row that is not due; the order of the index puts the due
  rows in front, so it misses none.\<close>

lemma expire_escrow_loop_exact:
  "ledger_ok d \<Longrightarrow> distinct (map esc_key es) \<Longrightarrow> set es \<subseteq> set (db_escrows d) \<Longrightarrow> sorted (map esc_order es) \<Longrightarrow>
   expire_escrow_loop F es d = Some d' \<Longrightarrow>
   get_escrow m j d' = (case get_escrow m j d of None \<Rightarrow> None
     | Some e \<Rightarrow> if e \<in> set es \<and> esc_expired (head_block_time d) e then None else Some e)"
proof (induction es arbitrary: d)
  case Nil
  then show ?case by (simp split: option.split)
next
  case (Cons e es)
  show ?case
  proof (cases "esc_expired (head_block_time d) e")
    case False
    then have d': "d' = d" using Cons.prems(5) by (simp add: esc_expired_def split: if_splits)
    have "\<not> esc_expired (head_block_time d) x" if "x \<in> set (e # es)" for x
    proof -
      have "esc_order e \<le> esc_order x" using Cons.prems(4) that by auto
      then show ?thesis using False by (auto simp: esc_expired_def esc_order_def)
    qed
    then show ?thesis by (auto simp: d' split: option.split)
  next
    case True
    with Cons.prems(5) obtain d1 where
      d1: "refund_escrow F (esc_from e) e d = Some d1" and
      r: "expire_escrow_loop F es (remove_escrow (esc_from e) (esc_escrow_id e) d1) = Some d'"
      by (auto simp: bind_Some_iff esc_expired_def)
    let ?d2 = "remove_escrow (esc_from e) (esc_escrow_id e) d1"
    from expire_round[OF Cons.prems(1,3,2) d1]
    have k: "ledger_ok ?d2" "set es \<subseteq> set (db_escrows ?d2)"
      "\<And>m j. get_escrow m j d1 = get_escrow m j d" "ledger_ok d1" "head_block_time d1 = head_block_time d"
      by (auto simp: keeps_def)
    have t: "head_block_time ?d2 = head_block_time d" using k(5) by (simp add: remove_escrow_def head_block_time_def)
    have g: "get_escrow m j ?d2 = (if esc_key e = (m, j) then None else get_escrow m j d)"
      using get_escrow_remove[OF k(4)] k(3) by (simp add: esc_key_def)
    have ge: "esc_key x = (m, j)" if "get_escrow m j d = Some x" for x
      using find_Some_P[OF that[unfolded get_escrow_def find_escrow_def]] by (simp add: esc_key_def)
    have "get_escrow m j d = Some e \<or> get_escrow m j d = None" if "esc_key e = (m, j)"
      using find_unique[of esc_key "db_escrows d" e] Cons.prems(1,3) that
      by (simp add: ledger_ok_def get_escrow_def find_escrow_def esc_key_def)
    with Cons.IH[OF k(1) _ k(2) _ r] Cons.prems(2,4) g t True show ?thesis
      by (auto split: option.split dest: ge)
  qed
qed

lemma expire_escrow_ratification_exact:
  assumes "ledger_ok d" "expire_escrow_ratification F d = Some d'"
  shows "get_escrow m j d' = (case get_escrow m j d of None \<Rightarrow> None
     | Some e \<Rightarrow> if esc_expired (head_block_time d) e then None else Some e)"
proof -
  have so: "sorted (map esc_order (idx_sorted esc_order (db_escrows d)))" by (simp add: idx_sorted_def)
  have di: "distinct (map esc_key (idx_sorted esc_order (db_escrows d)))"
    using assms(1) by (simp add: ledger_ok_def distinct_map_idx_sorted)
  have "e \<in> set (db_escrows d)" if "get_escrow m j d = Some e" for e
    using find_Some_P[OF that[unfolded get_escrow_def find_escrow_def]] by simp
  with expire_escrow_loop_exact[OF assms(1) di _ so assms(2)[unfolded expire_escrow_ratification_def], of m j]
  show ?thesis by (auto split: option.splits)
qed

lemma expire_escrow_ratification_phases:
  assumes "ledger_ok d" "escrow_parties d" "expire_escrow_ratification F d = Some d'"
  shows "phases_follow (concerns Esc_expire d) d d'"
proof -
  note x = expire_escrow_ratification_exact[OF assms(1,3)]
  have "escrow_parties d'" using assms(2) x by (auto simp: escrow_parties_def split: option.splits if_splits)
  moreover have "if concerns Esc_expire d n i then phase n i d' = phase n i d \<or> phase_step (phase n i d) (phase n i d')
      else get_escrow n i d' = get_escrow n i d" for n i
    using x[of n i] by (auto simp: phase_def phase_of_def esc_expired_def split: option.splits if_splits)
  ultimately show ?thesis by (simp add: phases_follow_def del: concerns.simps)
qed

lemma escrow_apply_keeps:
  assumes "escrow_valid F c" "ledger_ok d" "escrow_apply F c d = Some d'"
  shows "keeps d d'"
  using assms
  by (cases c) (auto intro: escrow_transfer_keeps escrow_approve_keeps escrow_dispute_keeps
      escrow_release_keeps expire_escrow_ratification_keeps)

lemma escrow_apply_phases:
  assumes "escrow_valid F c" "ledger_ok d" "escrow_parties d" "escrow_apply F c d = Some d'"
  shows "phases_follow (concerns c d) d d'"
proof (cases c)
  case (Esc_transfer op)
  then show ?thesis using escrow_transfer_phases assms by (simp add: concerns_named)
next
  case (Esc_approve op)
  then show ?thesis using escrow_approve_phases assms by (simp add: concerns_named)
next
  case (Esc_dispute op)
  then show ?thesis using escrow_dispute_phases assms by (simp add: concerns_named)
next
  case (Esc_release op)
  then show ?thesis using escrow_release_phases assms by (simp add: concerns_named)
next
  case Esc_expire
  then show ?thesis using expire_escrow_ratification_phases assms by simp
qed

end

subsection \<open>Properties\<close>

text \<open>
  C19. Escrows follow their life cycle: every escrow operation that succeeds takes the escrow it
  names along a step of \<open>phase_step\<close> or leaves its phase alone, and the processing of the
  ratification deadline does so for the escrows that are overdue and not ratified (\<open>concerns\<close>).
  Every other escrow is the same object afterwards, in all its fields; the tables stay well-formed
  and no funds are created or destroyed.
\<close>

theorem escrow_life_cycle:
  assumes "fc_safe F" "escrow_valid F c" "ledger_ok d" "escrow_parties d" "escrow_apply F c d = Some d'"
  shows "ledger_ok d' \<and> escrow_parties d' \<and> gaps d' = gaps d \<and>
    (\<forall>n i. phase n i d' = phase n i d \<or> phase_step (phase n i d) (phase n i d')) \<and>
    (\<forall>n i. \<not> concerns c d n i \<longrightarrow> get_escrow n i d' = get_escrow n i d)"
  using fc_safe.escrow_apply_keeps[OF assms(1,2,3,5)] fc_safe.escrow_apply_phases[OF assms]
  unfolding keeps_def phases_follow_def phase_def by metis

definition example_proposal :: escrow_transfer_operation where
  "example_proposal = \<lparr>et_from = ''alice'', et_to = ''bob'', et_agent = ''carol'', et_escrow_id = 7,
     et_TSDamount = TSD 100, et_TMEamount = TME 50, et_fee = TME 5, et_ratification_deadline = 2000,
     et_escrow_expiration = 3000, et_json = []\<rparr>"

lemmas escrow_eval = escrow_transfer_do_apply_def get_account_def find_account_def head_block_time_def
  asset_add_def asset_neg_def adjust_balance_def modify_account_def FC_ASSERT_opt_def asset_ge_def
  asset_less_def accrue_interest_def issue_interest_def int64_def symbol_distinct create_escrow_def
  tbl_emplace_def take_id_def phase_def phase_of_def get_escrow_def find_escrow_def is_approved_def
  Let_def TSD_INTEREST_COMPOUND_INTERVAL_SEC_def

lemma example_db_ok: "ledger_ok example_db" "escrow_parties example_db"
  by (simp_all add: ledger_ok_def escrow_parties_def get_escrow_def find_escrow_def example_defs)

lemma example_proposal_valid: "escrow_valid fc_exact (Esc_transfer example_proposal)"
  by (simp add: example_proposal_def escrow_transfer_validate_def symbol_distinct validate_json_def
      validate_account_name_def valid_names)

theorem escrow_life_cycle_witness:
  "\<exists>d'. escrow_apply fc_exact (Esc_transfer example_proposal) example_db = Some d' \<and> ledger_ok d' \<and>
     gaps d' = gaps example_db \<and> phase ''alice'' 7 d' = Proposed False False"
proof -
  have "\<exists>d'. escrow_apply fc_exact (Esc_transfer example_proposal) example_db = Some d' \<and>
     phase ''alice'' 7 d' = Proposed False False"
    by (simp add: example_proposal_def example_defs escrow_eval)
  then show ?thesis
    using escrow_life_cycle[OF fc_exact.fc_safe_axioms example_proposal_valid example_db_ok] by blast
qed

text \<open>
  C20. When a block processes ratification deadlines, exactly the escrows that are not approved and
  whose deadline has passed are refunded and removed; every other escrow is untouched.
\<close>

theorem escrow_expiry_exact:
  assumes "fc_safe F" "ledger_ok d" "expire_escrow_ratification F d = Some d'"
  shows "get_escrow n i d' = (case get_escrow n i d of None \<Rightarrow> None
    | Some e \<Rightarrow> if \<not> is_approved e \<and> esc_ratification_deadline e \<le> head_block_time d then None else Some e)"
  using fc_safe.expire_escrow_ratification_exact[OF assms] by (auto simp: esc_expired_def split: option.split)

definition example_escrow :: "nat \<Rightarrow> time \<Rightarrow> escrow_object" where
  "example_escrow i t = \<lparr>esc_id = i, esc_escrow_id = i, esc_from = ''alice'', esc_to = ''bob'', esc_agent = ''carol'',
     esc_ratification_deadline = t, esc_escrow_expiration = 5000, esc_TSDbalance = TSD 0, esc_TMEbalance = TME 30,
     esc_pending_fee = TME 1, esc_to_approved = True, esc_agent_approved = False, esc_disputed = False\<rparr>"

lemma example_expiry:
  "\<exists>d'. expire_escrow_ratification fc_exact
     (example_db\<lparr>db_escrows := [example_escrow 1 4000, example_escrow 2 900]\<rparr>) = Some d'"
  by (simp add: expire_escrow_ratification_def refund_escrow_def idx_sorted_def esc_order_def
      example_escrow_def example_defs escrow_eval remove_escrow_def)

theorem escrow_expiry_exact_witness:
  "\<exists>d'. expire_escrow_ratification fc_exact
     (example_db\<lparr>db_escrows := [example_escrow 1 4000, example_escrow 2 900]\<rparr>) = Some d' \<and>
     get_escrow ''alice'' 2 d' = None \<and> get_escrow ''alice'' 1 d' = Some (example_escrow 1 4000)"
proof -
  let ?d = "example_db\<lparr>db_escrows := [example_escrow 1 4000, example_escrow 2 900]\<rparr>"
  obtain d' where d': "expire_escrow_ratification fc_exact ?d = Some d'" using example_expiry by blast
  have ok: "ledger_ok ?d"
    by (simp add: ledger_ok_def example_defs example_escrow_def escrow_ok_def escrow_symbols_def
        is_approved_def esc_key_def)
  note x = escrow_expiry_exact[OF fc_exact.fc_safe_axioms ok d']
  have "get_escrow ''alice'' 2 d' = None" "get_escrow ''alice'' 1 d' = Some (example_escrow 1 4000)"
    unfolding x by (simp_all add: get_escrow_def find_escrow_def example_escrow_def is_approved_def
        head_block_time_def example_defs)
  with d' show ?thesis by blast
qed

end
