(* ===== verification/Market.thy ===== *)
theory Market
  imports Transfers Example
begin

text \<open>
  The internal market between TME and TSD (\<open>libraries/chain/database.cpp\<close>: \<open>apply_order\<close>,
  \<open>match\<close>, \<open>fill_order\<close>, \<open>cancel_order\<close>, \<open>adjust_liquidity_reward\<close>, \<open>clear_expired_orders\<close>;
  \<open>libraries/chain/node_evaluator.cpp\<close>: the \<open>limit_order\<close> evaluators).

  A reference to an order is its key \<open>(seller, orderid)\<close>.  \<open>apply_order\<close> walks the index
  \<open>by_price\<close> from the best price down to the limit of the new order; matching neither inserts
  rows nor changes a price, so the rows it visits are those that were in the range when it
  started, in that order.
\<close>

definition LIQUIDITY_TIMEOUT_SEC :: int where "LIQUIDITY_TIMEOUT_SEC = 60 * 60 * 24 * 7"
definition MIN_LIQUIDITY_REWARD_PERIOD_SEC :: int where "MIN_LIQUIDITY_REWARD_PERIOD_SEC = 60"
definition MIN_LIQUIDITY_REWARD_PERIOD_SEC_HF10 :: int where "MIN_LIQUIDITY_REWARD_PERIOD_SEC_HF10 = 60 * 30"

subsection \<open>Liquidity rewards\<close>

definition adjust_liquidity_reward ::
  "fc_lib \<Rightarrow> account_object \<Rightarrow> asset \<Rightarrow> bool \<Rightarrow> chain_db \<Rightarrow> chain_db option" where
  "adjust_liquidity_reward F owner volume is_sdb d =
     (case List.find (\<lambda>r. liq_owner r = acc_id owner) (db_liquidity d) of
        Some _ \<Rightarrow> do {
          xs \<leftarrow> tbl_modify (\<lambda>r. liq_owner r = acc_id owner) (\<lambda>r.
             let r1 = (if secs_diff F (head_block_time d) (liq_last_update r) \<ge> LIQUIDITY_TIMEOUT_SEC
                       then r\<lparr>liq_TSD_volume := 0, liq_TME_volume := 0, liq_weight := 0\<rparr> else r);
                 r2 = (if is_sdb then r1\<lparr>liq_TSD_volume := wrap64 (liq_TSD_volume r1 + amount volume)\<rparr>
                       else r1\<lparr>liq_TME_volume := wrap64 (liq_TME_volume r1 + amount volume)\<rparr>);
                 r3 = update_weight F (has_hardfork 10 d) r2
             in Some (r3\<lparr>liq_last_update := head_block_time d\<rparr>)) (db_liquidity d);
          Some (d\<lparr>db_liquidity := xs\<rparr>) }
      | None \<Rightarrow>
          let r = \<lparr>liq_id = db_next_id d liquidity_reward_balance_object_type, liq_owner = acc_id owner,
                   liq_TME_volume = (if is_sdb then 0 else amount volume),
                   liq_TSD_volume = (if is_sdb then amount volume else 0),
                   liq_weight = 0, liq_last_update = 0\<rparr>;
              r' = (update_weight F (has_hardfork 9 d) r)\<lparr>liq_last_update := head_block_time d\<rparr>
          in Some ((take_id liquidity_reward_balance_object_type d)\<lparr>db_liquidity := db_liquidity d @ [r']\<rparr>))"

subsection \<open>Filling and matching\<close>

definition cancel_order :: "fc_lib \<Rightarrow> account_name_type \<times> nat \<Rightarrow> chain_db \<Rightarrow> chain_db option" where
  "cancel_order F r d = do {
     order \<leftarrow> deref_order r d;
     d1 \<leftarrow> adjust_balance F (ord_seller order) (amount_for_sale order) d;
     Some (remove_order r d1) }"

definition fill_order ::
  "fc_lib \<Rightarrow> account_name_type \<times> nat \<Rightarrow> asset \<Rightarrow> asset \<Rightarrow> chain_db \<Rightarrow> (bool \<times> chain_db) option" where
  "fill_order F r pays receives d = do {
     order \<leftarrow> deref_order r d;
     FC_ASSERT (symbol (amount_for_sale order) = symbol pays);
     FC_ASSERT (symbol pays \<noteq> symbol receives);
     d1 \<leftarrow> adjust_balance F (ord_seller order) receives d;
     if asset_eq pays (amount_for_sale order) then Some (True, remove_order r d1)
     else do {
       d2 \<leftarrow> modify_order r (\<lambda>b. do {
               v \<leftarrow> safe_sub F (ord_for_sale b) (amount pays);
               Some (b\<lparr>ord_for_sale := v\<rparr>) }) d1;
       order2 \<leftarrow> deref_order r d2;
       rest \<leftarrow> amount_to_receive F order2;
       if amount rest = 0 then do { d3 \<leftarrow> cancel_order F r d2; Some (True, d3) }
       else Some (False, d2) } }"

text \<open>What the two sides exchange: (the new order pays, the new order receives).\<close>

definition match_amounts :: "fc_lib \<Rightarrow> asset \<Rightarrow> asset \<Rightarrow> price \<Rightarrow> (asset \<times> asset) option" where
  "match_amounts F new_for_sale old_for_sale match_price = do {
     x \<leftarrow> asset_mul_price F old_for_sale match_price;
     le \<leftarrow> asset_le new_for_sale x;
     if le then do {
       new_order_receives \<leftarrow> asset_mul_price F new_for_sale match_price;
       Some (new_for_sale, new_order_receives) }
     else do {
       old_order_receives \<leftarrow> asset_mul_price F old_for_sale match_price;
       Some (old_order_receives, old_for_sale) } }"

definition reward_liquidity ::
  "fc_lib \<Rightarrow> limit_order_object \<Rightarrow> limit_order_object \<Rightarrow> asset \<Rightarrow> asset \<Rightarrow> chain_db \<Rightarrow> chain_db option" where
  "reward_liquidity F new_order old_order old_order_receives new_order_receives d =
     (let age = secs_diff F (head_block_time d) (ord_created old_order) in
      if \<not> has_hardfork 12 d \<and>
         ((age \<ge> MIN_LIQUIDITY_REWARD_PERIOD_SEC \<and> \<not> has_hardfork 10 d) \<or>
          (age \<ge> MIN_LIQUIDITY_REWARD_PERIOD_SEC_HF10 \<and> has_hardfork 10 d)) then do {
        let (volume, is_sdb) = (if symbol old_order_receives = SYMBOL_COIN then (old_order_receives, False)
                                else (new_order_receives, True));
        a \<leftarrow> get_account (ord_seller old_order) d;
        d1 \<leftarrow> adjust_liquidity_reward F a volume is_sdb d;
        b \<leftarrow> get_account (ord_seller new_order) d1;
        neg \<leftarrow> asset_neg F volume;
        adjust_liquidity_reward F b neg is_sdb d1 }
      else Some d)"

definition match ::
  "fc_lib \<Rightarrow> account_name_type \<times> nat \<Rightarrow> account_name_type \<times> nat \<Rightarrow> price \<Rightarrow> chain_db \<Rightarrow> (nat \<times> chain_db) option" where
  "match F new old match_price d = do {
     new_order \<leftarrow> deref_order new d;
     old_order \<leftarrow> deref_order old d;
     (new_order_pays, new_order_receives) \<leftarrow>
        match_amounts F (amount_for_sale new_order) (amount_for_sale old_order) match_price;
     let old_order_pays = new_order_receives;
     let old_order_receives = new_order_pays;
     d1 \<leftarrow> reward_liquidity F new_order old_order old_order_receives new_order_receives d;
     (new_filled, d2) \<leftarrow> fill_order F new new_order_pays new_order_receives d1;
     (old_filled, d3) \<leftarrow> fill_order F old old_order_pays old_order_receives d2;
     Some ((if new_filled then 1 else 0) + (if old_filled then 2 else 0), d3) }"

subsection \<open>Walking the book\<close>

definition by_price :: "fc_lib \<Rightarrow> limit_order_object \<Rightarrow> limit_order_object \<Rightarrow> bool" where
  "by_price F x y \<longleftrightarrow> price_gt F (ord_sell_price x) (ord_sell_price y) \<or>
     (\<not> price_gt F (ord_sell_price y) (ord_sell_price x) \<and> ord_id x < ord_id y)"

fun by_price_insert :: "fc_lib \<Rightarrow> limit_order_object \<Rightarrow> limit_order_object list \<Rightarrow> limit_order_object list" where
  "by_price_insert F x [] = [x]"
| "by_price_insert F x (y # ys) = (if by_price F y x then y # by_price_insert F x ys else x # y # ys)"

definition price_index :: "fc_lib \<Rightarrow> limit_order_object list \<Rightarrow> limit_order_object list" where
  "price_index F xs = foldr (by_price_insert F) xs []"

definition in_range :: "fc_lib \<Rightarrow> price \<Rightarrow> price \<Rightarrow> limit_order_object \<Rightarrow> bool" where
  "in_range F hi lo x \<longleftrightarrow> \<not> price_gt F (ord_sell_price x) hi \<and> \<not> price_gt F lo (ord_sell_price x)"

fun apply_order_loop ::
  "fc_lib \<Rightarrow> account_name_type \<times> nat \<Rightarrow> (account_name_type \<times> nat) list \<Rightarrow> chain_db \<Rightarrow> chain_db option" where
  "apply_order_loop F new [] d = Some d"
| "apply_order_loop F new (r # rs) d = do {
     old \<leftarrow> deref_order r d;
     (result, d1) \<leftarrow> match F new r (ord_sell_price old) d;
     if odd result then Some d1 else apply_order_loop F new rs d1 }"

definition apply_order :: "fc_lib \<Rightarrow> account_name_type \<times> nat \<Rightarrow> chain_db \<Rightarrow> (bool \<times> chain_db) option" where
  "apply_order F new d = do {
     new_order \<leftarrow> deref_order new d;
     let order_id = ord_id new_order;
     let max_price = price_invert (ord_sell_price new_order);
     hi \<leftarrow> price_max (symbol (base max_price)) (symbol (quote max_price));
     d1 \<leftarrow> apply_order_loop F new
            (map ord_key (filter (in_range F hi max_price) (price_index F (db_orders d)))) d;
     Some (List.find (\<lambda>x. ord_id x = order_id) (db_orders d1) = None, d1) }"

subsection \<open>Evaluators\<close>

definition limit_order_create_do_apply :: "fc_lib \<Rightarrow> limit_order_create_operation \<Rightarrow> chain_db \<Rightarrow> chain_db option" where
  "limit_order_create_do_apply F op d = do {
     FC_ASSERT (lo_expiration op > head_block_time d);
     owner \<leftarrow> get_account (lo_owner op) d;
     bal \<leftarrow> get_balance owner (symbol (lo_amount_to_sell op));
     FC_ASSERT_opt (asset_ge bal (lo_amount_to_sell op));
     neg \<leftarrow> asset_neg F (lo_amount_to_sell op);
     d1 \<leftarrow> adjust_balance F (lo_owner op) neg d;
     p \<leftarrow> limit_order_create_get_price op;
     d2 \<leftarrow> create_order \<lparr>ord_id = 0, ord_created = head_block_time d1, ord_expiration = lo_expiration op,
             ord_seller = lo_owner op, ord_orderid = lo_orderid op,
             ord_for_sale = amount (lo_amount_to_sell op), ord_sell_price = p\<rparr> d1;
     (filled, d3) \<leftarrow> apply_order F (lo_owner op, lo_orderid op) d2;
     (if lo_fill_or_kill op then FC_ASSERT filled else Some ());
     Some d3 }"

definition limit_order_create2_do_apply :: "fc_lib \<Rightarrow> limit_order_create2_operation \<Rightarrow> chain_db \<Rightarrow> chain_db option" where
  "limit_order_create2_do_apply F op d = do {
     FC_ASSERT (lo2_expiration op > head_block_time d);
     owner \<leftarrow> get_account (lo2_owner op) d;
     bal \<leftarrow> get_balance owner (symbol (lo2_amount_to_sell op));
     FC_ASSERT_opt (asset_ge bal (lo2_amount_to_sell op));
     neg \<leftarrow> asset_neg F (lo2_amount_to_sell op);
     d1 \<leftarrow> adjust_balance F (lo2_owner op) neg d;
     d2 \<leftarrow> create_order \<lparr>ord_id = 0, ord_created = head_block_time d1, ord_expiration = lo2_expiration op,
             ord_seller = lo2_owner op, ord_orderid = lo2_orderid op,
             ord_for_sale = amount (lo2_amount_to_sell op), ord_sell_price = lo2_exchange_rate op\<rparr> d1;
     (filled, d3) \<leftarrow> apply_order F (lo2_owner op, lo2_orderid op) d2;
     (if lo2_fill_or_kill op then FC_ASSERT filled else Some ());
     Some d3 }"

definition limit_order_cancel_do_apply :: "fc_lib \<Rightarrow> limit_order_cancel_operation \<Rightarrow> chain_db \<Rightarrow> chain_db option" where
  "limit_order_cancel_do_apply F op d = do {
     order \<leftarrow> get_limit_order (lc_owner op) (lc_orderid op) d;
     cancel_order F (ord_key order) d }"

subsection \<open>Expiration\<close>

fun expired_orders_loop :: "fc_lib \<Rightarrow> nat \<Rightarrow> chain_db \<Rightarrow> chain_db option" where
  "expired_orders_loop F 0 d = Some d"
| "expired_orders_loop F (Suc n) d =
     (case idx_begin ord_expiration (db_orders d) of
        None \<Rightarrow> Some d
      | Some x \<Rightarrow>
          if ord_expiration x < head_block_time d then do {
            d1 \<leftarrow> cancel_order F (ord_key x) d;
            expired_orders_loop F n d1 }
          else Some d)"

definition clear_expired_orders :: "fc_lib \<Rightarrow> chain_db \<Rightarrow> chain_db option" where
  "clear_expired_orders F d = expired_orders_loop F (length (db_orders d)) d"

subsection \<open>Conservation\<close>

lemma deref_order_frame: "money_frame d d' \<Longrightarrow> deref_order r d' = deref_order r d"
  by (simp add: deref_order_def money_frameD)

lemma deref_order_modify:
  assumes "modify_order r f d = Some d'" "\<And>x y. f x = Some y \<Longrightarrow> ord_key y = ord_key x"
  shows "\<exists>x y. deref_order r d = Some x \<and> f x = Some y \<and> deref_order r d' = Some y"
proof -
  from assms(1) obtain xs where
    xs: "tbl_modify (\<lambda>x. (ord_seller x, ord_orderid x) = r) f (db_orders d) = Some xs"
    and d': "d' = d\<lparr>db_orders := xs\<rparr>"
    by (auto simp: modify_order_def bind_Some_iff)
  have "\<exists>x y. List.find (\<lambda>x. (ord_seller x, ord_orderid x) = r) (db_orders d) = Some x \<and> f x = Some y \<and>
          List.find (\<lambda>x. (ord_seller x, ord_orderid x) = r) xs = Some y"
    by (rule find_modify_same[OF xs]) (use assms(2) in \<open>auto simp: ord_key_def\<close>)
  then show ?thesis by (simp add: deref_order_def d')
qed

definition liquidity_only :: "chain_db \<Rightarrow> chain_db \<Rightarrow> bool" where
  "liquidity_only d d' \<longleftrightarrow> (\<exists>xs i. d' = d\<lparr>db_liquidity := xs,
     db_next_id := (db_next_id d)(liquidity_reward_balance_object_type := i)\<rparr>)"

lemma liquidity_onlyD:
  assumes "liquidity_only d d'"
  shows "ledger_ok_with P d' = ledger_ok_with P d" "moves d d' 0 0 0 0" "db_orders d' = db_orders d"
    "deref_order r d' = deref_order r d" "head_block_time d' = head_block_time d"
  using assms by (auto simp: liquidity_only_def ledger_ok_def moves_def gap_defs deref_order_def head_block_time_def)

lemma adjust_liquidity_reward_only:
  assumes "adjust_liquidity_reward F owner volume b d = Some d'"
  shows "liquidity_only d d'"
proof (cases "List.find (\<lambda>r. liq_owner r = acc_id owner) (db_liquidity d)")
  case None
  then obtain r where "d' = (take_id liquidity_reward_balance_object_type d)\<lparr>db_liquidity := db_liquidity d @ [r]\<rparr>"
    using assms by (auto simp: adjust_liquidity_reward_def Let_def)
  then have "d' = d\<lparr>db_liquidity := db_liquidity d @ [r], db_next_id := (db_next_id d)
      (liquidity_reward_balance_object_type := Suc (db_next_id d liquidity_reward_balance_object_type))\<rparr>"
    by (simp add: take_id_def)
  then show ?thesis unfolding liquidity_only_def by blast
next
  case (Some r)
  then obtain xs where "d' = d\<lparr>db_liquidity := xs\<rparr>" using assms
    by (auto simp: adjust_liquidity_reward_def bind_Some_iff)
  then have "d' = d\<lparr>db_liquidity := xs, db_next_id := (db_next_id d)
      (liquidity_reward_balance_object_type := db_next_id d liquidity_reward_balance_object_type)\<rparr>" by simp
  then show ?thesis unfolding liquidity_only_def by blast
qed

lemma liquidity_only_trans: "liquidity_only d d1 \<Longrightarrow> liquidity_only d1 d2 \<Longrightarrow> liquidity_only d d2"
  unfolding liquidity_only_def
proof (elim exE)
  fix xs ys i j
  assume "d1 = d\<lparr>db_liquidity := xs, db_next_id := (db_next_id d)(liquidity_reward_balance_object_type := i)\<rparr>"
    "d2 = d1\<lparr>db_liquidity := ys, db_next_id := (db_next_id d1)(liquidity_reward_balance_object_type := j)\<rparr>"
  then have "d2 = d\<lparr>db_liquidity := ys, db_next_id := (db_next_id d)(liquidity_reward_balance_object_type := j)\<rparr>"
    by simp
  then show "\<exists>xs i. d2 = d\<lparr>db_liquidity := xs, db_next_id := (db_next_id d)(liquidity_reward_balance_object_type := i)\<rparr>"
    by blast
qed

lemma liquidity_only_refl: "liquidity_only d d"
proof -
  have "d = d\<lparr>db_liquidity := db_liquidity d, db_next_id := (db_next_id d)
    (liquidity_reward_balance_object_type := db_next_id d liquidity_reward_balance_object_type)\<rparr>" by simp
  then show ?thesis unfolding liquidity_only_def by blast
qed

lemma reward_liquidity_only:
  assumes "reward_liquidity F n old x y d = Some d'"
  shows "liquidity_only d d'"
  using assms
  by (auto simp: reward_liquidity_def Let_def bind_Some_iff liquidity_only_refl split: if_splits prod.splits
      dest!: adjust_liquidity_reward_only intro: liquidity_only_trans)

context fc_safe
begin

lemma cancel_order_keeps:
  assumes "ledger_ok d" "cancel_order F r d = Some d'"
  shows "ledger_ok d' \<and> moves d d' 0 0 0 0"
proof -
  from assms(2) obtain x d1 where x: "deref_order r d = Some x" and
    d1: "adjust_balance F (ord_seller x) (amount_for_sale x) d = Some d1" and d': "d' = remove_order r d1"
    by (auto simp: cancel_order_def bind_Some_iff)
  note f = adjust_balance_frame[OF d1]
  have "deref_order r d1 = Some x" using x deref_order_frame[OF f] by simp
  from moves_trans[OF adjust_balance_moves[OF d1] remove_order_moves[OF this]] d'
  have "moves d d' 0 0 0 0" by simp
  moreover have "ledger_ok d1" using ledger_ok_frame[OF f] assms(1) by blast
  ultimately show ?thesis using ledger_ok_remove(4) d' by blast
qed

lemma fill_order_moves:
  assumes "ledger_ok d" "fill_order F r pays receives d = Some (b, d')"
  shows "ledger_ok d' \<and> moves d d' (tme receives - tme pays) (tsd receives - tsd pays) 0 0"
proof -
  from assms(2) obtain x d1 where x: "deref_order r d = Some x" "symbol (amount_for_sale x) = symbol pays" and
    d1: "adjust_balance F (ord_seller x) receives d = Some d1" and
    rest: "(if asset_eq pays (amount_for_sale x) then Some (True, remove_order r d1)
     else do {
       d2 \<leftarrow> modify_order r (\<lambda>b. do {
               v \<leftarrow> safe_sub F (ord_for_sale b) (amount pays);
               Some (b\<lparr>ord_for_sale := v\<rparr>) }) d1;
       order2 \<leftarrow> deref_order r d2;
       rest \<leftarrow> amount_to_receive F order2;
       if amount rest = 0 then do { d3 \<leftarrow> cancel_order F r d2; Some (True, d3) }
       else Some (False, d2) }) = Some (b, d')"
    unfolding fill_order_def bind_Some_iff FC_ASSERT_Some by (elim exE conjE) (rule that)
  note f = adjust_balance_frame[OF d1]
  have x1: "deref_order r d1 = Some x" using x deref_order_frame[OF f] by simp
  have ok1: "ledger_ok d1" using ledger_ok_frame[OF f] assms(1) by blast
  note m1 = adjust_balance_moves[OF d1]
  show ?thesis
  proof (cases "asset_eq pays (amount_for_sale x)")
    case True
    then have "d' = remove_order r d1" "pays = amount_for_sale x"
      using rest by (auto simp: asset_eq_def)
    then show ?thesis
      using moves_trans[OF m1 remove_order_moves[OF x1]] ledger_ok_remove(4)[OF ok1] by simp
  next
    case False
    with rest obtain d2 where
      d2: "modify_order r (\<lambda>b. do { v \<leftarrow> safe_sub F (ord_for_sale b) (amount pays);
               Some (b\<lparr>ord_for_sale := v\<rparr>) }) d1 = Some d2" and
      c: "d' = d2 \<or> cancel_order F r d2 = Some d'"
      by (auto simp: bind_Some_iff split: if_splits)
    have ok2: "ledger_ok d2"
      by (rule ledger_ok_modify_order[OF ok1 d2]) (auto simp: bind_Some_iff ord_key_def)
    from modify_order_moves[OF d2] x1 obtain v where
      v: "safe_sub F (ord_for_sale x) (amount pays) = Some v" and
      m: "moves d1 d2 (tme (amount_for_sale (x\<lparr>ord_for_sale := v\<rparr>)) - tme (amount_for_sale x))
               (tsd (amount_for_sale (x\<lparr>ord_for_sale := v\<rparr>)) - tsd (amount_for_sale x)) 0 0"
      by (auto simp: bind_Some_iff)
    have "moves d1 d2 (- tme pays) (- tsd pays) 0 0"
      using m safe_sub_SomeD[OF v] x(2) by (auto simp: amount_for_sale_def tme_def tsd_def split: if_splits)
    from moves_trans[OF m1 this] have m2: "moves d d2 (tme receives - tme pays) (tsd receives - tsd pays) 0 0"
      by simp
    then show ?thesis using c ok2 cancel_order_keeps[OF ok2, of r] by (auto simp: moves_def)
  qed
qed

lemma match_keeps:
  assumes "ledger_ok d" "match F new old p d = Some (k, d')"
  shows "keeps d d'"
proof -
  from assms(2) obtain n x y d1 b2 d2 b3 where
    d1: "reward_liquidity F n y (fst x) (snd x) d = Some d1" and
    d2: "fill_order F new (fst x) (snd x) d1 = Some (b2, d2)" and
    d3: "fill_order F old (snd x) (fst x) d2 = Some (b3, d')"
    by (auto simp: match_def bind_Some_iff Let_def)
  note l = liquidity_onlyD[OF reward_liquidity_only[OF d1]]
  from fill_order_moves[OF _ d2] l(1) assms(1)
  have s2: "ledger_ok d2" "moves d1 d2 (tme (snd x) - tme (fst x)) (tsd (snd x) - tsd (fst x)) 0 0" by auto
  from fill_order_moves[OF s2(1) d3] s2(2) l(2) show ?thesis
    by (auto simp: keeps_def moves_gaps[symmetric] moves_def)
qed

lemma apply_order_loop_keeps:
  "ledger_ok d \<Longrightarrow> apply_order_loop F new rs d = Some d' \<Longrightarrow> keeps d d'"
proof (induction rs arbitrary: d)
  case (Cons r rs)
  from Cons.prems(2) obtain p k d1 where m: "match F new r p d = Some (k, d1)" and
    r: "d' = d1 \<or> apply_order_loop F new rs d1 = Some d'"
    by (auto simp: bind_Some_iff split: if_splits)
  note k = match_keeps[OF Cons.prems(1) m]
  then have "ledger_ok d1" by (simp add: keeps_def)
  with Cons.IH[of d1] r k show ?case by (auto simp: keeps_def)
qed (simp add: keeps_def)

lemma apply_order_keeps:
  assumes "ledger_ok d" "apply_order F new d = Some (b, d')"
  shows "keeps d d'"
proof -
  from assms(2) obtain rs where "apply_order_loop F new rs d = Some d'"
    by (auto simp: apply_order_def bind_Some_iff Let_def)
  then show ?thesis by (rule apply_order_loop_keeps[OF assms(1)])
qed

lemma place_order_keeps:
  assumes "ledger_ok d" "asset_neg F sell = Some neg" "adjust_balance F n neg d = Some d1"
    "create_order x d1 = Some d2" "apply_order F r d2 = Some (b, d')" "amount_for_sale x = sell"
  shows "keeps d d'"
proof -
  have n: "tme neg = - tme sell \<and> tsd neg = - tsd sell"
    using asset_neg_SomeD[OF assms(2)] by (intro tme_tsd_neg) auto
  have "ledger_ok d1" using ledger_ok_frame[OF adjust_balance_frame[OF assms(3)]] assms(1) by blast
  then have ok2: "ledger_ok d2" by (rule ledger_ok_create(4)[OF _ assms(4)])
  have "moves d d2 0 0 0 0"
    using moves_trans[OF adjust_balance_moves[OF assms(3)] create_order_moves[OF assms(4)]] n assms(6) by simp
  with apply_order_keeps[OF ok2 assms(5)] show ?thesis by (simp add: keeps_def moves_gaps)
qed

lemma asset_div_Some: "asset_div b q = Some p \<Longrightarrow> p = mk_price b q"
  by (auto simp: asset_div_def bind_Some_iff)

lemma limit_order_create_keeps:
  assumes "ledger_ok d" "limit_order_create_do_apply F op d = Some d'"
  shows "keeps d d'"
proof -
  from assms(2) obtain neg d1 d2 p b t where
    neg: "asset_neg F (lo_amount_to_sell op) = Some neg" and
    d1: "adjust_balance F (lo_owner op) neg d = Some d1" and
    p: "limit_order_create_get_price op = Some p" and
    d2: "create_order \<lparr>ord_id = 0, ord_created = t, ord_expiration = lo_expiration op,
             ord_seller = lo_owner op, ord_orderid = lo_orderid op,
             ord_for_sale = amount (lo_amount_to_sell op), ord_sell_price = p\<rparr> d1 = Some d2" and
    a: "apply_order F (lo_owner op, lo_orderid op) d2 = Some (b, d')"
    by (auto simp: limit_order_create_do_apply_def bind_Some_iff)
  show ?thesis
    by (rule place_order_keeps[OF assms(1) neg d1 d2 a])
       (use asset_div_Some[OF p[unfolded limit_order_create_get_price_def]] in
        \<open>auto simp: amount_for_sale_def\<close>)
qed

lemma limit_order_create2_keeps:
  assumes "limit_order_create2_validate F op = Some ()" "ledger_ok d" "limit_order_create2_do_apply F op d = Some d'"
  shows "keeps d d'"
proof -
  from assms(3) obtain neg d1 d2 b t where
    neg: "asset_neg F (lo2_amount_to_sell op) = Some neg" and
    d1: "adjust_balance F (lo2_owner op) neg d = Some d1" and
    d2: "create_order \<lparr>ord_id = 0, ord_created = t, ord_expiration = lo2_expiration op,
             ord_seller = lo2_owner op, ord_orderid = lo2_orderid op,
             ord_for_sale = amount (lo2_amount_to_sell op), ord_sell_price = lo2_exchange_rate op\<rparr> d1 = Some d2" and
    a: "apply_order F (lo2_owner op, lo2_orderid op) d2 = Some (b, d')"
    by (auto simp: limit_order_create2_do_apply_def bind_Some_iff)
  show ?thesis
    by (rule place_order_keeps[OF assms(2) neg d1 d2 a])
       (use assms(1) in \<open>auto simp: amount_for_sale_def limit_order_create2_validate_def bind_Some_iff\<close>)
qed

lemma limit_order_cancel_keeps:
  assumes "ledger_ok d" "limit_order_cancel_do_apply F op d = Some d'"
  shows "keeps d d'"
proof -
  from assms(2) obtain x where "cancel_order F (ord_key x) d = Some d'"
    by (auto simp: limit_order_cancel_do_apply_def bind_Some_iff)
  from cancel_order_keeps[OF assms(1) this] show ?thesis by (simp add: keeps_def moves_gaps)
qed

lemma expired_orders_loop_keeps:
  "ledger_ok d \<Longrightarrow> expired_orders_loop F n d = Some d' \<Longrightarrow> keeps d d'"
proof (induction n arbitrary: d)
  case (Suc n)
  show ?case
  proof (cases "\<exists>x. idx_begin ord_expiration (db_orders d) = Some x \<and> ord_expiration x < head_block_time d")
    case False
    then have "d' = d" using Suc.prems(2) by (auto split: option.splits if_splits)
    then show ?thesis using Suc.prems(1) by (simp add: keeps_def)
  next
    case True
    with Suc.prems(2) obtain x d1 where c: "cancel_order F (ord_key x) d = Some d1" and
      r: "expired_orders_loop F n d1 = Some d'"
      by (auto simp: bind_Some_iff)
    note k = cancel_order_keeps[OF Suc.prems(1) c]
    from Suc.IH[OF conjunct1[OF k] r] k show ?thesis by (simp add: keeps_def moves_gaps)
  qed
qed (simp add: keeps_def)

lemma clear_expired_orders_keeps:
  "ledger_ok d \<Longrightarrow> clear_expired_orders F d = Some d' \<Longrightarrow> keeps d d'"
  unfolding clear_expired_orders_def by (rule expired_orders_loop_keeps)

end

subsection \<open>Expired orders do not stay\<close>

lemma cancel_order_orders:
  assumes "cancel_order F r d = Some d'"
  shows "db_orders d' = tbl_remove (\<lambda>x. (ord_seller x, ord_orderid x) = r) (db_orders d)"
    "head_block_time d' = head_block_time d" "deref_order r d \<noteq> None"
proof -
  from assms obtain x d1 where x: "deref_order r d = Some x" and
    d1: "adjust_balance F (ord_seller x) (amount_for_sale x) d = Some d1" and d': "d' = remove_order r d1"
    by (auto simp: cancel_order_def bind_Some_iff)
  show "db_orders d' = tbl_remove (\<lambda>x. (ord_seller x, ord_orderid x) = r) (db_orders d)"
    "head_block_time d' = head_block_time d" "deref_order r d \<noteq> None"
    using x d' money_frameD(2,18)[OF adjust_balance_frame[OF d1]]
    by (simp_all add: remove_order_def head_block_time_def)
qed

interpretation expiration_queue: due_queue "expired_orders_loop F" db_orders ord_expiration
  "\<lambda>d x. ord_expiration x < head_block_time d" "\<lambda>x d. cancel_order F (ord_key x) d" for F
proof (unfold_locales, goal_cases)
  case (4 x d d')
  then show ?case
    using cancel_order_orders(1)[OF 4(2)] by (simp add: length_tbl_remove_less ord_key_def)
qed (auto split: option.splits)

subsection \<open>The book is not left crossed\<close>

text \<open>The orders of the book, each with its key and its price.\<close>

definition book :: "chain_db \<Rightarrow> ((account_name_type \<times> nat) \<times> price) set" where
  "book d = (\<lambda>x. (ord_key x, ord_sell_price x)) ` set (db_orders d)"

lemma deref_book: "deref_order r d = None \<longleftrightarrow> r \<notin> fst ` book d"
  by (auto simp: deref_order_def book_def find_None_all ord_key_def image_image image_iff)

lemma tbl_remove_key:
  assumes "distinct (map k xs)"
  shows "set (tbl_remove (\<lambda>x. k x = a) xs) = {x \<in> set xs. k x \<noteq> a}"
  using assms
proof (induction xs)
  case (Cons x xs)
  show ?case
  proof (cases "k x = a")
    case True
    then have "a \<notin> k ` set xs" using Cons.prems by simp
    then have "\<forall>y \<in> set xs. k y \<noteq> a" by blast
    then show ?thesis using True by auto
  next
    case False
    then show ?thesis using Cons by auto
  qed
qed simp

lemma book_remove:
  assumes "distinct (map ord_key (db_orders d))"
  shows "book (remove_order r d) = {y \<in> book d. fst y \<noteq> r}"
proof -
  have "set (db_orders (remove_order r d)) = {x \<in> set (db_orders d). ord_key x \<noteq> r}"
    using tbl_remove_key[OF assms, of r] by (simp add: remove_order_def ord_key_def)
  then show ?thesis by (auto simp: book_def)
qed

lemma book_modify:
  assumes "modify_order r f d = Some d'"
    "\<And>x y. f x = Some y \<Longrightarrow> ord_key y = ord_key x \<and> ord_sell_price y = ord_sell_price x"
  shows "book d' = book d"
proof -
  from assms(1) obtain xs where
    xs: "tbl_modify (\<lambda>x. (ord_seller x, ord_orderid x) = r) f (db_orders d) = Some xs"
    and d': "d' = d\<lparr>db_orders := xs\<rparr>"
    by (auto simp: modify_order_def bind_Some_iff)
  have "map (\<lambda>x. (ord_key x, ord_sell_price x)) xs = map (\<lambda>x. (ord_key x, ord_sell_price x)) (db_orders d)"
    by (rule map_key_modify[OF xs]) (use assms(2) in auto)
  then have "set (map (\<lambda>x. (ord_key x, ord_sell_price x)) xs)
      = set (map (\<lambda>x. (ord_key x, ord_sell_price x)) (db_orders d))" by (rule arg_cong)
  then show ?thesis by (simp add: book_def d')
qed

lemma deref_modify_other:
  assumes "modify_order r f d = Some d'" "\<And>x y. f x = Some y \<Longrightarrow> ord_key y = ord_key x" "q \<noteq> r"
  shows "deref_order q d' = deref_order q d"
proof -
  from assms(1) obtain xs where
    xs: "tbl_modify (\<lambda>x. (ord_seller x, ord_orderid x) = r) f (db_orders d) = Some xs"
    and d': "d' = d\<lparr>db_orders := xs\<rparr>"
    by (auto simp: modify_order_def bind_Some_iff)
  have "List.find (\<lambda>x. (ord_seller x, ord_orderid x) = q) xs
      = List.find (\<lambda>x. (ord_seller x, ord_orderid x) = q) (db_orders d)"
    by (rule find_modify_other[OF xs]) (use assms(2,3) in \<open>auto simp: ord_key_def\<close>)
  then show ?thesis by (simp add: deref_order_def d')
qed

lemma find_remove_other: "(\<And>x. Q x \<Longrightarrow> \<not> P x) \<Longrightarrow> List.find Q (tbl_remove P xs) = List.find Q xs"
  by (induction xs) auto

lemma deref_remove_other: "q \<noteq> r \<Longrightarrow> deref_order q (remove_order r d) = deref_order q d"
  by (auto simp: deref_order_def remove_order_def intro!: find_remove_other)

lemma book_frame: "db_orders d' = db_orders d \<Longrightarrow> book d' = book d"
  by (simp add: book_def)

text \<open>An order that is fully filled leaves the book, all others stay as they are.\<close>

lemma fill_order_book:
  assumes "distinct (map ord_key (db_orders d))" "fill_order F r pays receives d = Some (b, d')"
  shows "book d' = (if b then {y \<in> book d. fst y \<noteq> r} else book d)"
    "q \<noteq> r \<Longrightarrow> deref_order q d' = deref_order q d"
    "deref_order r d = Some x \<Longrightarrow> asset_eq pays (amount_for_sale x) \<Longrightarrow> b"
proof -
  from assms(2) obtain x d1 where x: "deref_order r d = Some x" and
    d1: "adjust_balance F (ord_seller x) receives d = Some d1" and
    rest: "(if asset_eq pays (amount_for_sale x) then Some (True, remove_order r d1)
     else do {
       d2 \<leftarrow> modify_order r (\<lambda>b. do {
               v \<leftarrow> safe_sub F (ord_for_sale b) (amount pays);
               Some (b\<lparr>ord_for_sale := v\<rparr>) }) d1;
       order2 \<leftarrow> deref_order r d2;
       rest \<leftarrow> amount_to_receive F order2;
       if amount rest = 0 then do { d3 \<leftarrow> cancel_order F r d2; Some (True, d3) }
       else Some (False, d2) }) = Some (b, d')"
    unfolding fill_order_def bind_Some_iff FC_ASSERT_Some by (elim exE conjE) (rule that)
  note o1 = money_frameD(2)[OF adjust_balance_frame[OF d1]]
  have bk1: "book d1 = book d" using o1 by (rule book_frame)
  have de1: "deref_order q d1 = deref_order q d" for q using o1 by (simp add: deref_order_def)
  show "deref_order r d = Some y \<Longrightarrow> asset_eq pays (amount_for_sale y) \<Longrightarrow> b" for y
    using rest x by auto
  have "book d' = (if b then {y \<in> book d. fst y \<noteq> r} else book d) \<and>
     (\<forall>q. q \<noteq> r \<longrightarrow> deref_order q d' = deref_order q d)"
  proof (cases "asset_eq pays (amount_for_sale x)")
    case True
    then have "d' = remove_order r d1" b using rest by auto
    then show ?thesis using book_remove[of d1 r] assms(1) o1 bk1 deref_remove_other de1 by auto
  next
    case False
    with rest obtain d2 where
      d2: "modify_order r (\<lambda>b. do { v \<leftarrow> safe_sub F (ord_for_sale b) (amount pays);
               Some (b\<lparr>ord_for_sale := v\<rparr>) }) d1 = Some d2" and
      c: "\<not> b \<and> d' = d2 \<or> b \<and> cancel_order F r d2 = Some d'"
      by (auto simp: bind_Some_iff split: if_splits)
    have bk2: "book d2 = book d1" by (rule book_modify[OF d2]) (auto simp: bind_Some_iff ord_key_def)
    have de2: "deref_order q d2 = deref_order q d1" if "q \<noteq> r" for q
      by (rule deref_modify_other[OF d2 _ that]) (auto simp: bind_Some_iff ord_key_def)
    from d2 obtain ys where ys: "tbl_modify (\<lambda>x. (ord_seller x, ord_orderid x) = r) (\<lambda>b. do {
         v \<leftarrow> safe_sub F (ord_for_sale b) (amount pays); Some (b\<lparr>ord_for_sale := v\<rparr>) }) (db_orders d1) = Some ys"
      and ds2: "db_orders d2 = ys"
      by (auto simp: modify_order_def bind_Some_iff)
    have "map ord_key ys = map ord_key (db_orders d1)"
      by (rule map_key_modify[OF ys]) (auto simp: bind_Some_iff ord_key_def)
    then have di2: "distinct (map ord_key (db_orders d2))" using assms(1) o1 ds2 by simp
    from c show ?thesis
    proof
      assume "\<not> b \<and> d' = d2"
      then show ?thesis using bk1 bk2 de1 de2 by simp
    next
      assume b: "b \<and> cancel_order F r d2 = Some d'"
      have o3: "db_orders d' = db_orders (remove_order r d2)"
        using cancel_order_orders(1)[of F r d2 d'] b by (simp add: remove_order_def)
      have "deref_order q d' = deref_order q d2" if "q \<noteq> r" for q
        using deref_remove_other[OF that, of d2] o3 by (simp add: deref_order_def)
      with book_remove[OF di2] book_frame[OF o3] b bk1 bk2 de1 de2 show ?thesis by simp
    qed
  qed
  then show "book d' = (if b then {y \<in> book d. fst y \<noteq> r} else book d)"
    "q \<noteq> r \<Longrightarrow> deref_order q d' = deref_order q d" by blast+
qed

lemma distinct_fill:
  assumes "fc_safe F" "ledger_ok d" "fill_order F r pays receives d = Some (b, d')"
  shows "ledger_ok d'"
  using fc_safe.fill_order_moves[OF assms] by simp

lemma match_book:
  assumes "fc_safe F" "ledger_ok d" "match F new old p d = Some (k, d')" "new \<noteq> old"
  shows "book d' \<subseteq> book d" "odd k \<Longrightarrow> new \<notin> fst ` book d'" "even k \<Longrightarrow> old \<notin> fst ` book d'"
proof -
  from assms(3) obtain n m pays rec d1 b2 d2 b3 where
    n: "deref_order new d = Some n" and m: "deref_order old d = Some m" and
    am: "match_amounts F (amount_for_sale n) (amount_for_sale m) p = Some (pays, rec)" and
    d1: "reward_liquidity F n m pays rec d = Some d1" and
    d2: "fill_order F new pays rec d1 = Some (b2, d2)" and
    d3: "fill_order F old rec pays d2 = Some (b3, d')" and
    k: "k = (if b2 then 1 else 0) + (if b3 then 2 else 0)"
    by (auto simp: match_def bind_Some_iff Let_def)
  note l = liquidity_onlyD[OF reward_liquidity_only[OF d1]]
  have ok1: "ledger_ok d1" using l(1) assms(2) by blast
  have ok2: "ledger_ok d2" by (rule distinct_fill[OF assms(1) ok1 d2])
  have di: "distinct (map ord_key (db_orders d1))" "distinct (map ord_key (db_orders d2))"
    using ok1 ok2 by (simp_all add: ledger_ok_def)
  note f2 = fill_order_book[OF di(1) d2] and f3 = fill_order_book[OF di(2) d3]
  have bk1: "book d1 = book d" using l(3) by (rule book_frame)
  show "book d' \<subseteq> book d" using f2(1) f3(1) bk1 by (auto split: if_splits)
  have m2: "deref_order old d2 = Some m" using f2(2)[of old] assms(4) l(4)[of old] m by simp
  have n1: "deref_order new d1 = Some n" using l(4)[of new] n by simp
  have "b2 \<or> b3"
  proof (cases "pays = amount_for_sale n")
    case True
    then show ?thesis using f2(3)[OF n1] by (simp add: asset_eq_def)
  next
    case False
    then have "rec = amount_for_sale m"
      using am by (auto simp: match_amounts_def bind_Some_iff split: if_splits)
    then show ?thesis using f3(3)[OF m2] by (simp add: asset_eq_def)
  qed
  then have kk: "odd k \<longleftrightarrow> b2" "even k \<Longrightarrow> b3" using k by (auto split: if_splits)
  show "odd k \<Longrightarrow> new \<notin> fst ` book d'" using kk(1) f2(1) f3(1) by (auto split: if_splits)
  show "even k \<Longrightarrow> old \<notin> fst ` book d'" using kk(2) f3(1) by (auto split: if_splits)
qed

lemma apply_order_loop_book:
  "fc_safe F \<Longrightarrow> ledger_ok d \<Longrightarrow> new \<notin> set rs \<Longrightarrow> apply_order_loop F new rs d = Some d' \<Longrightarrow>
   book d' \<subseteq> book d \<and> (new \<notin> fst ` book d' \<or> set rs \<inter> fst ` book d' = {})"
proof (induction rs arbitrary: d)
  case (Cons r rs)
  from Cons.prems(4) obtain p k d1 where m: "match F new r p d = Some (k, d1)" and
    r: "if odd k then d' = d1 else apply_order_loop F new rs d1 = Some d'"
    by (auto simp: bind_Some_iff split: if_splits)
  have ne: "new \<noteq> r" "new \<notin> set rs" using Cons.prems(3) by auto
  note mb = match_book[OF Cons.prems(1,2) m ne(1)]
  have ok1: "ledger_ok d1" using fc_safe.match_keeps[OF Cons.prems(1,2) m] by (simp add: keeps_def)
  show ?case
  proof (cases "odd k")
    case True
    then show ?thesis using mb r by simp
  next
    case False
    then have l: "apply_order_loop F new rs d1 = Some d'" and g: "r \<notin> fst ` book d1" using r mb by auto
    from Cons.IH[OF Cons.prems(1) ok1 ne(2) l] mb(1) g show ?thesis by auto
  qed
qed simp

lemma set_by_price_insert: "set (by_price_insert F x xs) = insert x (set xs)"
  by (induction xs) auto

lemma set_price_index: "set (price_index F xs) = set xs"
  unfolding price_index_def by (induction xs) (auto simp: set_by_price_insert)

lemma price_le_symbols:
  assumes "price_le F a b"
  shows "symbol (base a) \<le> symbol (base b)"
  using assms by (auto simp: price_le_def price_eq_def price_less_def split: if_splits)

text \<open>An order is never in its own range: the range lies in the opposite market.\<close>

lemma in_range_other:
  assumes "price_max (symbol (quote (ord_sell_price x))) (symbol (base (ord_sell_price x))) = Some hi"
    "in_range F hi (price_invert (ord_sell_price x)) x"
  shows False
proof -
  have hi: "symbol (base hi) = symbol (quote (ord_sell_price x))"
    "symbol (quote (ord_sell_price x)) \<noteq> symbol (base (ord_sell_price x))"
    using assms(1) by (auto simp: price_max_def asset_div_def bind_Some_iff)
  from assms(2) have "symbol (base (ord_sell_price x)) \<le> symbol (base hi)"
    "symbol (quote (ord_sell_price x)) \<le> symbol (base (ord_sell_price x))"
    using price_le_symbols[of F "ord_sell_price x" hi]
      price_le_symbols[of F "price_invert (ord_sell_price x)" "ord_sell_price x"]
    by (auto simp: in_range_def price_gt_def price_invert_def)
  with hi show False by simp
qed

lemma in_range_book: "in_range F hi lo x = in_range F hi lo y" if "ord_sell_price x = ord_sell_price y"
  using that by (simp add: in_range_def)

lemma apply_order_uncrossed:
  assumes "fc_safe F" "ledger_ok d" "apply_order F new d = Some (b, d')" "deref_order new d = Some x"
    "price_max (symbol (quote (ord_sell_price x))) (symbol (base (ord_sell_price x))) = Some hi"
  shows "deref_order new d' = None \<or>
    (\<forall>y \<in> set (db_orders d'). \<not> in_range F hi (price_invert (ord_sell_price x)) y)"
proof -
  let ?R = "in_range F hi (price_invert (ord_sell_price x))"
  let ?rs = "map ord_key (filter ?R (price_index F (db_orders d)))"
  from assms(3,4,5) have l: "apply_order_loop F new ?rs d = Some d'"
    by (auto simp: apply_order_def bind_Some_iff Let_def price_invert_def)
  have x: "x \<in> set (db_orders d)" "ord_key x = new"
    using assms(4) find_Some_P[of _ "db_orders d" x] by (auto simp: deref_order_def ord_key_def)
  have "new \<notin> set ?rs"
  proof
    assume "new \<in> set ?rs"
    then obtain y where y: "y \<in> set (db_orders d)" "?R y" "ord_key y = new" by (auto simp: set_price_index)
    have di: "distinct (map ord_key (db_orders d))" using assms(2) by (simp add: ledger_ok_def)
    have "y = x" using find_unique[OF di x(1)] find_unique[OF di y(1)] x(2) y(3) by simp
    then show False using in_range_other[OF assms(5)] y(2) by blast
  qed
  from apply_order_loop_book[OF assms(1,2) this l]
  have bk: "book d' \<subseteq> book d" and e: "new \<notin> fst ` book d' \<or> set ?rs \<inter> fst ` book d' = {}" by auto
  show ?thesis
  proof (cases "new \<in> fst ` book d'")
    case False
    then show ?thesis by (simp add: deref_book)
  next
    case True
    with e have em: "set ?rs \<inter> fst ` book d' = {}" by simp
    have "\<not> ?R y" if y: "y \<in> set (db_orders d')" for y
    proof
      assume r: "?R y"
      have yb: "(ord_key y, ord_sell_price y) \<in> book d'" using y by (auto simp: book_def)
      then have "(ord_key y, ord_sell_price y) \<in> book d" using bk by blast
      then obtain z where z: "z \<in> set (db_orders d)" "ord_key z = ord_key y" "ord_sell_price z = ord_sell_price y"
        by (auto simp: book_def)
      then have "?R z" using r in_range_book[of z y] by simp
      with z(1) have "z \<in> set (filter ?R (price_index F (db_orders d)))" by (simp add: set_price_index)
      then have "ord_key z \<in> set ?rs" by (simp only: set_map imageI)
      moreover have "ord_key y \<in> fst ` book d'" using yb by force
      ultimately show False using em z(2) by auto
    qed
    then show ?thesis by blast
  qed
qed

subsection \<open>Properties\<close>

text \<open>
  C21. Placing an order never leaves the book crossed: after \<open>apply_order\<close> either the new order has
  been filled (or its unsellable rest refunded) and is gone, or no order is left on the other side
  whose price meets the limit of the new one.
\<close>

theorem book_uncrossed:
  assumes "fc_safe F" "ledger_ok d" "apply_order F new d = Some (filled, d')" "deref_order new d = Some x"
    "price_max (symbol (quote (ord_sell_price x))) (symbol (base (ord_sell_price x))) = Some hi"
  shows "deref_order new d' = None \<or>
    (\<forall>y \<in> set (db_orders d'). \<not> in_range F hi (price_invert (ord_sell_price x)) y)"
  by (rule apply_order_uncrossed[OF assms])

definition example_order :: "nat \<Rightarrow> account_name_type \<Rightarrow> int \<Rightarrow> asset \<Rightarrow> asset \<Rightarrow> limit_order_object" where
  "example_order i n v b q = \<lparr>ord_id = i, ord_created = 900, ord_expiration = 9000, ord_seller = n, ord_orderid = i,
     ord_for_sale = v, ord_sell_price = mk_price b q\<rparr>"

text \<open>Bob sells 60 TSD at two TME each; Alice, the newcomer, buys for 100 TME and offers 2.5 TME per TSD.\<close>

definition example_book :: chain_db where
  "example_book = example_db\<lparr>db_orders := [example_order 1 ''bob'' 60 (TSD 10) (TME 20),
     example_order 2 ''alice'' 200 (TME 25) (TSD 10)]\<rparr>"

lemmas market_eval = apply_order_def deref_order_def price_invert_def price_max_def asset_div_def Let_def
  price_index_def by_price_def price_gt_def price_le_def price_eq_def price_less_def price_mult_def
  in_range_def ord_key_def match_def match_amounts_def amount_for_sale_def asset_mul_price_def
  asset_mul_leg_def asset_le_def asset_eq_def asset_less_def reward_liquidity_def has_hardfork_def
  fill_order_def adjust_balance_def modify_account_def asset_add_def int64_def get_account_def
  find_account_def head_block_time_def accrue_interest_def TSD_INTEREST_COMPOUND_INTERVAL_SEC_def
  issue_interest_def modify_order_def remove_order_def amount_to_receive_def cancel_order_def

lemma symbol_order: "SYMBOL_USD < SYMBOL_COIN" "\<not> SYMBOL_COIN < SYMBOL_USD"
  by (simp_all add: SYMBOL_COIN_def SYMBOL_USD_def)

lemma example_match:
  "\<exists>d'. apply_order fc_exact (''alice'', 2) example_book = Some (False, d') \<and>
     map (\<lambda>x. (ord_orderid x, ord_for_sale x)) (db_orders d') = [(2, 80)]"
  by (simp add: example_book_def example_order_def example_defs market_eval MAX_SCORE_SUPPLY_def symbol_order)

theorem book_uncrossed_witness:
  "\<exists>d' hi. apply_order fc_exact (''alice'', 2) example_book = Some (False, d') \<and>
     map (\<lambda>x. (ord_orderid x, ord_for_sale x)) (db_orders d') = [(2, 80)] \<and>
     (deref_order (''alice'', 2) d' = None \<or>
      (\<forall>y \<in> set (db_orders d'). \<not> in_range fc_exact hi (mk_price (TSD 10) (TME 25)) y))"
proof -
  from example_match obtain d' where d': "apply_order fc_exact (''alice'', 2) example_book = Some (False, d')"
    "map (\<lambda>x. (ord_orderid x, ord_for_sale x)) (db_orders d') = [(2, 80)]"
    by (elim exE conjE)
  let ?x = "example_order 2 ''alice'' 200 (TME 25) (TSD 10)"
  have ok: "ledger_ok example_book"
    by (simp add: ledger_ok_def example_book_def example_order_def example_defs ord_key_def)
  have x: "deref_order (''alice'', 2) example_book = Some ?x"
    by (simp add: deref_order_def example_book_def example_order_def)
  have hi: "price_max (symbol (quote (ord_sell_price ?x))) (symbol (base (ord_sell_price ?x)))
      = Some (mk_price (TSD MAX_SCORE_SUPPLY) (TME 1))"
    by (simp add: price_max_def asset_div_def example_order_def)
  have p: "price_invert (ord_sell_price ?x) = mk_price (TSD 10) (TME 25)"
    by (simp add: example_order_def price_invert_def)
  show ?thesis
    by (intro exI conjI, rule d'(1), rule d'(2), rule book_uncrossed[OF fc_exact.fc_safe_axioms ok d'(1) x hi, unfolded p])
qed

text \<open>
  C22. What a match exchanges.  The new order pays in what it sells and receives what the old order
  sells, neither side gives more than it offers, at least one side is exhausted, and the exchange is
  at the match price up to less than one unit, on either side.  When the match price meets the limit
  \<open>q\<close> of the new order, the new order gets its limit, again up to less than one unit.  (Amounts and
  price as \<open>int64_t\<close> holds them; amounts computed without the sign change of \<open>asset * price\<close>.)
\<close>

theorem match_exchange:
  assumes "fc_u128 F" "nat63 (amount n)" "nat63 (amount m)" "price_ok p"
    "symbol n = symbol (quote p)" "symbol m = symbol (base p)"
    "asset_symbol_name (symbol n) \<noteq> asset_symbol_name (symbol m)"
    "match_amounts F n m p = Some (pays, receives)" "0 \<le> amount pays" "0 \<le> amount receives"
  shows "symbol pays = symbol n \<and> symbol receives = symbol m \<and>
    amount pays \<le> amount n \<and> amount receives \<le> amount m \<and> (pays = n \<or> receives = m) \<and>
    amount pays * amount (base p) < (amount receives + 1) * amount (quote p) \<and>
    amount receives * amount (quote p) < (amount pays + 1) * amount (base p) \<and>
    (0 < amount (base q) \<and> amount (quote q) * amount (quote p) \<le> amount (base q) * amount (base p) \<longrightarrow>
     amount pays * amount (quote q) < (amount receives + 1) * amount (base q))"
proof -
  have bq: "nat63 (amount (base p))" "nat63 (amount (quote p))" "0 < amount (base p)" "0 < amount (quote p)"
    using assms(4) by (auto simp: price_ok_def)
  have legs: "asset_mul_price F m p = Some r \<Longrightarrow> asset_mul_leg F m (quote p) (base p) = Some r"
    "asset_mul_price F n p = Some r \<Longrightarrow> asset_mul_leg F n (base p) (quote p) = Some r" for r
    using assms(5-7) by (auto simp: asset_mul_price_def bind_Some_iff split: if_splits)
  note bm = asset_mul_leg_bound[OF assms(1,3) bq(2,1)] and bn = asset_mul_leg_bound[OF assms(1,2) bq(1,2)]
  from assms(8) obtain x le where x: "asset_mul_price F m p = Some x" "asset_le n x = Some le" and
    r: "if le then pays = n \<and> asset_mul_price F n p = Some receives else pays = x \<and> receives = m"
    by (auto simp: match_amounts_def bind_Some_iff split: if_splits)
  have le: "le \<longleftrightarrow> amount n \<le> amount x" using x(2) by (simp add: asset_le_Some)
  have core: "symbol pays = symbol n \<and> symbol receives = symbol m \<and>
    amount pays \<le> amount n \<and> amount receives \<le> amount m \<and> (pays = n \<or> receives = m) \<and>
    amount pays * amount (base p) < (amount receives + 1) * amount (quote p) \<and>
    amount receives * amount (quote p) \<le> amount pays * amount (base p) + amount (base p) - 1"
  proof (cases le)
    case True
    with r have pr: "pays = n" "asset_mul_price F n p = Some receives" by auto
    note b = bn[OF legs(2)[OF pr(2)] assms(10)]
    have "0 \<le> amount x" using True le assms(2) by simp
    note c = bm[OF legs(1)[OF x(1)] this]
    have "amount n * amount (base p) \<le> amount x * amount (base p)"
      using True le bq(3) by (intro mult_right_mono) auto
    with b c have "amount receives * amount (quote p) \<le> amount m * amount (quote p)" by linarith
    then have "amount receives \<le> amount m" using bq(4) by simp
    with b pr(1) bq(3) assms(6) show ?thesis by auto
  next
    case False
    with r have pr: "pays = x" "receives = m" by auto
    note c = bm[OF legs(1)[OF x(1)] assms(9)[unfolded pr(1)]]
    then have "amount m * amount (quote p) < amount x * amount (base p) + amount (base p)"
      "amount x * amount (base p) < amount m * amount (quote p) + amount (quote p)"
      using bq(4) by (simp_all add: algebra_simps)
    then show ?thesis using c pr False le assms(5) by (auto simp: algebra_simps)
  qed
  have "amount pays * amount (quote q) < (amount receives + 1) * amount (base q)"
    if q: "0 < amount (base q)" "amount (quote q) * amount (quote p) \<le> amount (base q) * amount (base p)"
  proof -
    have "amount pays * amount (quote q) * amount (quote p) \<le> amount pays * (amount (base q) * amount (base p))"
      using mult_left_mono[OF q(2) assms(9)] by (simp add: mult.assoc)
    also have "\<dots> = amount (base q) * (amount pays * amount (base p))" by simp
    also have "\<dots> < amount (base q) * ((amount receives + 1) * amount (quote p))"
      using core q(1) by (intro mult_strict_left_mono) auto
    also have "\<dots> = (amount receives + 1) * amount (base q) * amount (quote p)" by simp
    finally show ?thesis using bq(4) by (simp add: mult_less_cancel_right)
  qed
  with core show ?thesis by (auto simp: algebra_simps)
qed

theorem match_exchange_witness:
  "match_amounts fc_exact (TME 101) (TSD 60) (mk_price (TSD 10) (TME 25)) = Some (TME 101, TSD 40) \<and>
   (101 :: int) * 10 < (40 + 1) * 25"
proof -
  have m: "match_amounts fc_exact (TME 101) (TSD 60) (mk_price (TSD 10) (TME 25)) = Some (TME 101, TSD 40)"
    by (simp add: market_eval)
  from match_exchange[OF fc_exact.fc_u128_axioms _ _ _ _ _ _ m] show ?thesis
    using m by (simp add: price_ok_def)
qed

end
