(* ===== verification/Votes.thy ===== *)
theory Votes
  imports Ledger Example
begin

text \<open>
  Voting for witnesses (\<open>libraries/chain/database.cpp\<close>: \<open>adjust_proxied_witness_votes\<close>,
  \<open>adjust_witness_votes\<close>, \<open>adjust_witness_vote\<close>, \<open>clear_witness_votes\<close>,
  \<open>process_decline_voting_rights\<close>; \<open>libraries/chain/node_evaluator.cpp\<close>: the proxy, vote and
  decline evaluators).

  An account votes itself or lets a proxy vote for it; the stake of an account reaches proxies up to
  four steps away, each of which keeps an array with what it received from which distance.  Shown
  here: the tally of every witness is the stake that stands behind it, the stake of all accounts
  together is the total of the chain, and proxies never form a loop.
\<close>

definition MAX_accountWitnessVoteS :: int where "MAX_accountWitnessVoteS = 1000"
definition OWNER_AUTH_RECOVERY_PERIOD :: int where "OWNER_AUTH_RECOVERY_PERIOD = 30 * 24 * 60 * 60"

definition VIRTUAL_SCHEDULE_LAP_LENGTH :: "fc_lib \<Rightarrow> int" where
  "VIRTUAL_SCHEDULE_LAP_LENGTH F = u128_of F (2 ^ 64 - 1)"

definition VIRTUAL_SCHEDULE_LAP_LENGTH2 :: "fc_lib \<Rightarrow> int" where
  "VIRTUAL_SCHEDULE_LAP_LENGTH2 F = u128_max F"

subsection \<open>Adjusting the votes of witnesses\<close>

definition adjust_witness_vote :: "fc_lib \<Rightarrow> nat \<Rightarrow> int \<Rightarrow> chain_db \<Rightarrow> chain_db option" where
  "adjust_witness_vote F i delta d =
     (let now = wso_current_virtual_time (db_wso d) in
      modify_witness_id i (\<lambda>w. do {
        let delta_pos = u128_mul F (u128_of F (wit_votes w)) (u128_sub F now (wit_virtual_last_update w));
        let position = u128_add F (wit_virtual_position w) delta_pos;
        votes \<leftarrow> safe_add F (wit_votes w) delta;
        FC_ASSERT (votes \<le> amount (gpo_totalSCORE (db_gpo d)));
        let lap = (if has_hardfork 2 d then VIRTUAL_SCHEDULE_LAP_LENGTH2 F else VIRTUAL_SCHEDULE_LAP_LENGTH F);
        q \<leftarrow> u128_div F (u128_sub F lap position) (u128_of F (wrap64 (votes + 1)));
        let scheduled = u128_add F now q;
        let scheduled' = (if has_hardfork 4 d \<and> scheduled < now then u128_max F else scheduled);
        Some (w\<lparr>wit_virtual_position := position, wit_virtual_last_update := now, wit_votes := votes,
               wit_virtual_scheduled_time := scheduled'\<rparr>) }) d)"

text \<open>The index \<open>by_account_witness\<close>, from the first vote of an account on.\<close>

definition votes_of :: "nat \<Rightarrow> chain_db \<Rightarrow> witness_vote_object list" where
  "votes_of i d = filter (\<lambda>v. wvo_account v = i)
     (idx_sorted (\<lambda>v. (wvo_account v, wvo_witness v)) (db_witness_votes d))"

fun adjust_each :: "fc_lib \<Rightarrow> witness_vote_object list \<Rightarrow> int \<Rightarrow> chain_db \<Rightarrow> chain_db option" where
  "adjust_each F [] delta d = Some d"
| "adjust_each F (v # vs) delta d = do {
     _ \<leftarrow> get_witness_id (wvo_witness v) d;
     d1 \<leftarrow> adjust_witness_vote F (wvo_witness v) delta d;
     adjust_each F vs delta d1 }"

definition adjust_witness_votes :: "fc_lib \<Rightarrow> nat \<Rightarrow> int \<Rightarrow> chain_db \<Rightarrow> chain_db option" where
  "adjust_witness_votes F i delta d = adjust_each F (votes_of i d) delta d"

subsection \<open>Proxies\<close>

function adjust_proxied_witness_vote :: "fc_lib \<Rightarrow> account_name_type \<Rightarrow> int \<Rightarrow> nat \<Rightarrow> chain_db \<Rightarrow> chain_db option" where
  "adjust_proxied_witness_vote F n delta depth d = do {
     a \<leftarrow> get_account n d;
     if acc_proxy a \<noteq> [] then
       if depth \<ge> MAX_PROXY_RECURSION_DEPTH then Some d
       else do {
         d1 \<leftarrow> modify_account (acc_proxy a) (\<lambda>p. do {
                 v \<leftarrow> safe_add F (acc_proxied_votes p ! depth) delta;
                 Some (p\<lparr>acc_proxied_votes := (acc_proxied_votes p)[depth := v]\<rparr>) }) d;
         adjust_proxied_witness_vote F (acc_proxy a) delta (depth + 1) d1 }
     else adjust_witness_votes F (acc_id a) delta d }"
  by pat_completeness auto
termination
  by (relation "measure (\<lambda>(F, n, delta, depth, d). Suc MAX_PROXY_RECURSION_DEPTH - depth)") auto

text \<open>The loop over the array: position \<open>i + depth\<close> of the proxy gets element \<open>i\<close> of the delta.\<close>

fun add_deltas :: "fc_lib \<Rightarrow> int list \<Rightarrow> nat \<Rightarrow> nat list \<Rightarrow> int list \<Rightarrow> int list option" where
  "add_deltas F delta depth [] xs = Some xs"
| "add_deltas F delta depth (i # is) xs = do {
     v \<leftarrow> safe_add F (xs ! (i + depth)) (delta ! i);
     add_deltas F delta depth is (xs[i + depth := v]) }"

function adjust_proxied_witness_votes :: "fc_lib \<Rightarrow> account_name_type \<Rightarrow> int list \<Rightarrow> nat \<Rightarrow> chain_db \<Rightarrow> chain_db option" where
  "adjust_proxied_witness_votes F n delta depth d = do {
     a \<leftarrow> get_account n d;
     if acc_proxy a \<noteq> [] then
       if depth \<ge> MAX_PROXY_RECURSION_DEPTH then Some d
       else do {
         d1 \<leftarrow> modify_account (acc_proxy a) (\<lambda>p. do {
                 xs \<leftarrow> add_deltas F delta depth (rev [0..<MAX_PROXY_RECURSION_DEPTH - depth]) (acc_proxied_votes p);
                 Some (p\<lparr>acc_proxied_votes := xs\<rparr>) }) d;
         adjust_proxied_witness_votes F (acc_proxy a) delta (depth + 1) d1 }
     else do {
       total_delta \<leftarrow> safe_accumulate F (map (\<lambda>i. delta ! i) (rev [0..<Suc MAX_PROXY_RECURSION_DEPTH - depth])) 0;
       adjust_witness_votes F (acc_id a) total_delta d } }"
  by pat_completeness auto
termination
  by (relation "measure (\<lambda>(F, n, delta, depth, d). Suc MAX_PROXY_RECURSION_DEPTH - depth)") auto

declare adjust_proxied_witness_vote.simps [simp del] adjust_proxied_witness_votes.simps [simp del]

definition clear_witness_votes :: "account_name_type \<Rightarrow> chain_db \<Rightarrow> chain_db option" where
  "clear_witness_votes n d = do {
     a \<leftarrow> get_account n d;
     let d1 = d\<lparr>db_witness_votes := filter (\<lambda>v. wvo_account v \<noteq> acc_id a) (db_witness_votes d)\<rparr>;
     if has_hardfork 6 d then modify_account n (\<lambda>a. Some (a\<lparr>acc_witnesses_voted_for := 0\<rparr>)) d1
     else Some d1 }"

text \<open>The negated stake of an account and of what is proxied to it.\<close>

definition removed_votes :: "fc_lib \<Rightarrow> account_object \<Rightarrow> int list option" where
  "removed_votes F a = do {
     s \<leftarrow> safe_neg F (amount (acc_SCORE a));
     xs \<leftarrow> those (map (safe_neg F) (acc_proxied_votes a));
     Some (s # xs) }"

text \<open>The walk along the chain of proxies; it ends because the chain may not get longer than the
  recursion depth.\<close>

fun proxy_chain_ok :: "nat \<Rightarrow> nat list \<Rightarrow> account_object \<Rightarrow> chain_db \<Rightarrow> unit option" where
  "proxy_chain_ok fuel chain cprox d =
     (if acc_proxy cprox = [] then Some ()
      else case fuel of 0 \<Rightarrow> None
       | Suc fuel' \<Rightarrow> do {
           next_proxy \<leftarrow> get_account (acc_proxy cprox) d;
           FC_ASSERT (acc_id next_proxy \<notin> set chain);
           FC_ASSERT (length (acc_id next_proxy # chain) \<le> MAX_PROXY_RECURSION_DEPTH);
           proxy_chain_ok fuel' (acc_id next_proxy # chain) next_proxy d })"

definition account_witness_proxy_do_apply ::
  "fc_lib \<Rightarrow> account_witness_proxy_operation \<Rightarrow> chain_db \<Rightarrow> chain_db option" where
  "account_witness_proxy_do_apply F op d = do {
     account \<leftarrow> get_account (wp_account op) d;
     FC_ASSERT (acc_proxy account \<noteq> wp_proxy op);
     FC_ASSERT (acc_can_vote account);
     delta \<leftarrow> removed_votes F account;
     d1 \<leftarrow> adjust_proxied_witness_votes F (wp_account op) delta 0 d;
     if wp_proxy op \<noteq> [] then do {
       account1 \<leftarrow> get_account (wp_account op) d1;
       new_proxy \<leftarrow> get_account (wp_proxy op) d1;
       let chain = remdups [acc_id new_proxy, acc_id account1];
       proxy_chain_ok MAX_PROXY_RECURSION_DEPTH chain new_proxy d1;
       d2 \<leftarrow> clear_witness_votes (wp_account op) d1;
       d3 \<leftarrow> modify_account (wp_account op) (\<lambda>a. Some (a\<lparr>acc_proxy := wp_proxy op\<rparr>)) d2;
       delta' \<leftarrow> those (map (safe_neg F) delta);
       adjust_proxied_witness_votes F (wp_account op) delta' 0 d3 }
     else modify_account (wp_account op) (\<lambda>a. Some (a\<lparr>acc_proxy := wp_proxy op\<rparr>)) d1 }"

subsection \<open>Votes\<close>

definition remove_witness_vote :: "nat \<Rightarrow> nat \<Rightarrow> chain_db \<Rightarrow> chain_db" where
  "remove_witness_vote i j d =
     d\<lparr>db_witness_votes := tbl_remove (\<lambda>v. wvo_account v = i \<and> wvo_witness v = j) (db_witness_votes d)\<rparr>"

definition accountWitnessVote_do_apply :: "fc_lib \<Rightarrow> accountWitnessVote_operation \<Rightarrow> chain_db \<Rightarrow> chain_db option" where
  "accountWitnessVote_do_apply F op d = do {
     voter \<leftarrow> get_account (wv_account op) d;
     FC_ASSERT (acc_proxy voter = []);
     (if wv_approve op then FC_ASSERT (acc_can_vote voter) else Some ());
     witness \<leftarrow> get_witness (wv_witness op) d;
     case List.find (\<lambda>v. wvo_account v = acc_id voter \<and> wvo_witness v = wit_id witness) (db_witness_votes d) of
       None \<Rightarrow> do {
         FC_ASSERT (wv_approve op);
         (if has_hardfork 2 d then FC_ASSERT (acc_witnesses_voted_for voter < MAX_accountWitnessVoteS) else Some ());
         d1 \<leftarrow> create_witness_vote \<lparr>wvo_id = 0, wvo_witness = wit_id witness, wvo_account = acc_id voter\<rparr> d;
         weight \<leftarrow> witness_vote_weight F voter;
         d2 \<leftarrow> (if has_hardfork 2 d then
                 if has_hardfork 3 d then adjust_witness_vote F (wit_id witness) weight d1
                 else adjust_proxied_witness_vote F (wv_account op) weight 0 d1
               else modify_witness_id (wit_id witness) (\<lambda>w. do {
                      v \<leftarrow> safe_add F (wit_votes w) weight; Some (w\<lparr>wit_votes := v\<rparr>) }) d1);
         modify_account (wv_account op) (\<lambda>a. Some (a\<lparr>acc_witnesses_voted_for :=
            (acc_witnesses_voted_for a + 1) mod 2 ^ 16\<rparr>)) d2 }
     | Some _ \<Rightarrow> do {
         FC_ASSERT (\<not> wv_approve op);
         weight \<leftarrow> witness_vote_weight F voter;
         d1 \<leftarrow> (if has_hardfork 2 d then do {
                 neg \<leftarrow> safe_neg F weight;
                 if has_hardfork 3 d then adjust_witness_vote F (wit_id witness) neg d
                 else adjust_proxied_witness_vote F (wv_account op) neg 0 d }
               else modify_witness_id (wit_id witness) (\<lambda>w. do {
                      v \<leftarrow> safe_sub F (wit_votes w) weight; Some (w\<lparr>wit_votes := v\<rparr>) }) d);
         d2 \<leftarrow> modify_account (wv_account op) (\<lambda>a. Some (a\<lparr>acc_witnesses_voted_for :=
            (acc_witnesses_voted_for a - 1) mod 2 ^ 16\<rparr>)) d1;
         Some (remove_witness_vote (acc_id voter) (wit_id witness) d2) } }"

subsection \<open>Declining the right to vote\<close>

definition decline_voting_rights_do_apply :: "fc_lib \<Rightarrow> decline_voting_rights_operation \<Rightarrow> chain_db \<Rightarrow> chain_db option" where
  "decline_voting_rights_do_apply F op d = do {
     FC_ASSERT (has_hardfork 14 d);
     account \<leftarrow> get_account (dv_account op) d;
     let itr = List.find (\<lambda>r. dvr_account r = acc_id account) (db_declines d);
     if dv_decline op then do {
       FC_ASSERT (itr = None);
       create_decline \<lparr>dvr_id = 0, dvr_account = acc_id account,
          dvr_effective_date = secs_add F (head_block_time d) OWNER_AUTH_RECOVERY_PERIOD\<rparr> d }
     else do {
       FC_ASSERT (itr \<noteq> None);
       Some (d\<lparr>db_declines := tbl_remove (\<lambda>r. dvr_account r = acc_id account) (db_declines d)\<rparr>) } }"

definition dvr_order :: "decline_voting_rights_request_object \<Rightarrow> time \<times> nat" where
  "dvr_order r = (dvr_effective_date r, dvr_account r)"

fun declines_loop :: "fc_lib \<Rightarrow> nat \<Rightarrow> chain_db \<Rightarrow> chain_db option" where
  "declines_loop F 0 d = Some d"
| "declines_loop F (Suc n) d =
     (case idx_begin dvr_order (db_declines d) of
        None \<Rightarrow> Some d
      | Some r \<Rightarrow>
          if dvr_effective_date r \<le> head_block_time d then do {
            account \<leftarrow> get_account_id (dvr_account r) d;
            delta \<leftarrow> removed_votes F account;
            d1 \<leftarrow> adjust_proxied_witness_votes F (acc_name account) delta 0 d;
            d2 \<leftarrow> clear_witness_votes (acc_name account) d1;
            d3 \<leftarrow> modify_account (acc_name account) (\<lambda>a. Some (a\<lparr>acc_can_vote := False, acc_proxy := []\<rparr>)) d2;
            declines_loop F n (d3\<lparr>db_declines := tbl_remove (\<lambda>x. dvr_account x = dvr_account r) (db_declines d3)\<rparr>) }
          else Some d)"

definition process_decline_voting_rights :: "fc_lib \<Rightarrow> chain_db \<Rightarrow> chain_db option" where
  "process_decline_voting_rights F d = declines_loop F (length (db_declines d)) d"

subsection \<open>Stake and tallies\<close>

text \<open>The stake an account votes with when it votes itself, how often it votes for a witness, and
  the stake that stands behind a witness.\<close>

definition stake :: "account_object \<Rightarrow> int" where
  "stake a = amount (acc_SCORE a) + sum_list (acc_proxied_votes a)"

definition voted :: "chain_db \<Rightarrow> nat \<Rightarrow> nat \<Rightarrow> int" where
  "voted d i j = int (length (filter (\<lambda>v. wvo_account v = i \<and> wvo_witness v = j) (db_witness_votes d)))"

definition tally :: "chain_db \<Rightarrow> nat \<Rightarrow> int" where
  "tally d j = tsum (\<lambda>a. voted d (acc_id a) j * stake a) (db_accounts d)"

definition recorded :: "chain_db \<Rightarrow> nat \<Rightarrow> int" where
  "recorded d j = (case get_witness_id j d of None \<Rightarrow> 0 | Some w \<Rightarrow> wit_votes w)"

definition excess :: "chain_db \<Rightarrow> nat \<Rightarrow> int" where
  "excess d j = recorded d j - tally d j"

definition total_votes :: "chain_db \<Rightarrow> int" where
  "total_votes d = tsum acct_votes (db_accounts d)"

text \<open>Unique names and ids, arrays of the right length, and no votes by accounts with a proxy.\<close>

definition voters_ok :: "chain_db \<Rightarrow> bool" where
  "voters_ok d \<longleftrightarrow> distinct (map acc_name (db_accounts d)) \<and> distinct (map acc_id (db_accounts d)) \<and>
     distinct (map wit_id (db_witnesses d)) \<and>
     (\<forall>a \<in> set (db_accounts d). length (acc_proxied_votes a) = 4 \<and>
        (acc_proxy a \<noteq> [] \<longrightarrow> (\<forall>j. voted d (acc_id a) j = 0)))"

definition strip_votes :: "account_object \<Rightarrow> account_object" where
  "strip_votes a = a\<lparr>acc_proxied_votes := []\<rparr>"

text \<open>What moving votes leaves alone: everything but the arrays and the witnesses.\<close>

definition vote_frame :: "chain_db \<Rightarrow> chain_db \<Rightarrow> bool" where
  "vote_frame d d' \<longleftrightarrow> (\<exists>as ws. d' = d\<lparr>db_accounts := as, db_witnesses := ws\<rparr> \<and>
     map strip_votes as = map strip_votes (db_accounts d) \<and> map wit_id ws = map wit_id (db_witnesses d) \<and>
     map wit_owner ws = map wit_owner (db_witnesses d))"

lemma vote_frame_refl: "vote_frame d d"
  by (auto simp: vote_frame_def intro!: exI[of _ "db_accounts d"] exI[of _ "db_witnesses d"])

lemma vote_frame_trans: "vote_frame d d1 \<Longrightarrow> vote_frame d1 d2 \<Longrightarrow> vote_frame d d2"
  unfolding vote_frame_def
proof (elim exE conjE)
  fix as ws bs vs
  assume "d1 = d\<lparr>db_accounts := as, db_witnesses := ws\<rparr>" "d2 = d1\<lparr>db_accounts := bs, db_witnesses := vs\<rparr>"
    "map strip_votes as = map strip_votes (db_accounts d)" "map wit_id ws = map wit_id (db_witnesses d)"
    "map wit_owner ws = map wit_owner (db_witnesses d)" "map strip_votes bs = map strip_votes (db_accounts d1)"
    "map wit_id vs = map wit_id (db_witnesses d1)" "map wit_owner vs = map wit_owner (db_witnesses d1)"
  then show "\<exists>as ws. d2 = d\<lparr>db_accounts := as, db_witnesses := ws\<rparr> \<and>
     map strip_votes as = map strip_votes (db_accounts d) \<and> map wit_id ws = map wit_id (db_witnesses d) \<and>
     map wit_owner ws = map wit_owner (db_witnesses d)"
    by (intro exI[of _ bs] exI[of _ vs]) simp
qed

lemma vote_frameD:
  assumes "vote_frame d d'"
  shows "db_witness_votes d' = db_witness_votes d" "db_gpo d' = db_gpo d" "db_wso d' = db_wso d"
    "db_processed_hardforks d' = db_processed_hardforks d" "voted d' = voted d"
    "map strip_votes (db_accounts d') = map strip_votes (db_accounts d)"
    "map wit_id (db_witnesses d') = map wit_id (db_witnesses d)" "db_declines d' = db_declines d"
    "head_block_time d' = head_block_time d" "has_hardfork h d' = has_hardfork h d"
  using assms by (auto simp: vote_frame_def voted_def fun_eq_iff head_block_time_def has_hardfork_def)

lemma strip_field:
  assumes "map strip_votes as = map strip_votes bs" "\<And>a. g (strip_votes a) = g a"
  shows "map g as = map g bs"
proof -
  have "map g as = map g (map strip_votes as)" using assms(2) by simp
  also have "\<dots> = map g (map strip_votes bs)" using assms(1) by simp
  also have "\<dots> = map g bs" using assms(2) by simp
  finally show ?thesis .
qed

lemma strip_find:
  assumes "map strip_votes as = map strip_votes bs"
  shows "map_option strip_votes (List.find (\<lambda>a. acc_name a = n) as)
       = map_option strip_votes (List.find (\<lambda>a. acc_name a = n) bs)"
  using assms
proof (induction as arbitrary: bs)
  case (Cons a as)
  then obtain b bs' where bs: "bs = b # bs'" "strip_votes a = strip_votes b"
    "map strip_votes as = map strip_votes bs'" by (cases bs) auto
  have "acc_name (strip_votes a) = acc_name (strip_votes b)" using bs(2) by (rule arg_cong)
  then have "acc_name a = acc_name b" by (simp add: strip_votes_def)
  then show ?case using Cons.IH[OF bs(3)] bs by simp
qed simp

subsection \<open>The elementary steps\<close>

lemma modify_witness_recorded:
  assumes "modify_witness_id i f d = Some d'" "\<And>w w'. f w = Some w' \<Longrightarrow> wit_id w' = wit_id w \<and>
      wit_owner w' = wit_owner w \<and> wit_votes w' = wit_votes w + delta"
  shows "vote_frame d d' \<and> (\<forall>j. recorded d' j = recorded d j + (if j = i then delta else 0))"
proof -
  from assms(1) obtain ws where ws: "tbl_modify (\<lambda>w. wit_id w = i) f (db_witnesses d) = Some ws"
    and d': "d' = d\<lparr>db_witnesses := ws\<rparr>"
    by (auto simp: modify_witness_id_def bind_Some_iff)
  have "map wit_id ws = map wit_id (db_witnesses d)" "map wit_owner ws = map wit_owner (db_witnesses d)"
    using map_key_modify[OF ws] assms(2) by blast+
  then have "vote_frame d d'" using d'
    by (auto simp: vote_frame_def intro!: exI[of _ "db_accounts d"] exI[of _ ws])
  moreover have "recorded d' j = recorded d j + (if j = i then delta else 0)" for j
  proof (cases "j = i")
    case True
    from find_modify_same[OF ws] assms(2) show ?thesis
      using True by (auto simp: recorded_def get_witness_id_def d')
  next
    case False
    have "List.find (\<lambda>w. wit_id w = j) ws = List.find (\<lambda>w. wit_id w = j) (db_witnesses d)"
      by (rule find_modify_other[OF ws]) (use False assms(2) in auto)
    then show ?thesis using False by (simp add: recorded_def get_witness_id_def d')
  qed
  ultimately show ?thesis by blast
qed

lemma modify_account_vote_frame:
  assumes "modify_account n f d = Some d'" "\<And>a b. f a = Some b \<Longrightarrow> strip_votes b = strip_votes a"
  shows "vote_frame d d'"
proof -
  from assms(1) obtain as where as: "tbl_modify (\<lambda>a. acc_name a = n) f (db_accounts d) = Some as"
    and d': "d' = d\<lparr>db_accounts := as\<rparr>"
    by (auto simp: modify_account_def bind_Some_iff)
  from map_key_modify[OF as assms(2)] d' show ?thesis
    by (auto simp: vote_frame_def intro!: exI[of _ as] exI[of _ "db_witnesses d"])
qed

lemma frame_tally:
  assumes "vote_frame d d'" "db_accounts d' = db_accounts d"
  shows "tally d' = tally d" "total_votes d' = total_votes d"
  using vote_frameD(5)[OF assms(1)] assms(2) by (simp_all add: tally_def total_votes_def fun_eq_iff)

lemma voters_ok_frame:
  assumes "vote_frame d d'" "voters_ok d" "\<And>a. a \<in> set (db_accounts d') \<Longrightarrow> length (acc_proxied_votes a) = 4"
  shows "voters_ok d'"
proof -
  note f = vote_frameD[OF assms(1)]
  have m: "map acc_name (db_accounts d') = map acc_name (db_accounts d)"
    "map acc_id (db_accounts d') = map acc_id (db_accounts d)"
    "map (\<lambda>a. (acc_id a, acc_proxy a)) (db_accounts d') = map (\<lambda>a. (acc_id a, acc_proxy a)) (db_accounts d)"
    by (rule strip_field[OF f(6)], simp add: strip_votes_def)+
  have "(acc_proxy a \<noteq> [] \<longrightarrow> (\<forall>j. voted d' (acc_id a) j = 0))" if "a \<in> set (db_accounts d')" for a
  proof -
    have "(acc_id a, acc_proxy a) \<in> set (map (\<lambda>a. (acc_id a, acc_proxy a)) (db_accounts d))"
      using that m(3)[symmetric] by (simp add: rev_image_eqI)
    then show ?thesis using assms(2) f(5) by (auto simp: voters_ok_def)
  qed
  then show ?thesis using assms(2,3) m(1,2) f(7) by (simp add: voters_ok_def)
qed

lemma length_filter_sorted: "length (filter P (idx_sorted k xs)) = length (filter P xs)"
proof -
  have "mset (filter P (idx_sorted k xs)) = mset (filter P xs)" by (simp add: idx_sorted_def)
  then show ?thesis by (rule mset_eq_length)
qed

context fc_safe
begin

lemma adjust_witness_vote_recorded:
  assumes "adjust_witness_vote F i delta d = Some d'"
  shows "vote_frame d d' \<and> db_accounts d' = db_accounts d \<and>
    (\<forall>j. recorded d' j = recorded d j + (if j = i then delta else 0))"
proof -
  have "db_accounts d' = db_accounts d"
    using assms by (auto simp: adjust_witness_vote_def Let_def modify_witness_id_def bind_Some_iff)
  moreover have "vote_frame d d' \<and> (\<forall>j. recorded d' j = recorded d j + (if j = i then delta else 0))"
    by (rule modify_witness_recorded[OF assms[unfolded adjust_witness_vote_def Let_def]])
       (auto simp: bind_Some_iff dest!: safe_add_SomeD)
  ultimately show ?thesis by blast
qed

lemma adjust_each_recorded:
  "adjust_each F vs delta d = Some d' \<Longrightarrow>
   vote_frame d d' \<and> db_accounts d' = db_accounts d \<and>
   (\<forall>j. recorded d' j = recorded d j + delta * int (length (filter (\<lambda>v. wvo_witness v = j) vs)))"
proof (induction vs arbitrary: d)
  case Nil
  then show ?case by (simp add: vote_frame_refl)
next
  case (Cons v vs)
  then obtain d1 where d1: "adjust_witness_vote F (wvo_witness v) delta d = Some d1"
    and r: "adjust_each F vs delta d1 = Some d'" by (auto simp: bind_Some_iff)
  from adjust_witness_vote_recorded[OF d1] Cons.IH[OF r] show ?case
    by (auto simp: algebra_simps intro: vote_frame_trans)
qed

lemma adjust_witness_votes_excess:
  assumes "adjust_witness_votes F i delta d = Some d'" "voters_ok d"
  shows "voters_ok d' \<and> vote_frame d d' \<and> total_votes d' = total_votes d \<and>
    (\<forall>j. excess d' j = excess d j + voted d i j * delta) \<and> (\<forall>n. find_account n d' = find_account n d)"
proof -
  note r = adjust_each_recorded[OF assms(1)[unfolded adjust_witness_votes_def]]
  have c: "int (length (filter (\<lambda>v. wvo_witness v = j) (votes_of i d))) = voted d i j" for j
  proof -
    have "filter (\<lambda>v. wvo_witness v = j) (votes_of i d)
        = filter (\<lambda>v. wvo_account v = i \<and> wvo_witness v = j)
            (idx_sorted (\<lambda>v. (wvo_account v, wvo_witness v)) (db_witness_votes d))"
      by (auto simp: votes_of_def conj_commute intro: filter_cong)
    then show ?thesis by (simp add: voted_def length_filter_sorted)
  qed
  have "voters_ok d'" by (rule voters_ok_frame[OF _ assms(2)]) (use r assms(2) in \<open>auto simp: voters_ok_def\<close>)
  moreover have "excess d' j = excess d j + voted d i j * delta" for j
    using r c frame_tally(1)[of d d'] by (simp add: excess_def algebra_simps)
  ultimately show ?thesis using r frame_tally(2)[of d d'] by (auto simp: find_account_def)
qed

end

subsection \<open>Walking along the proxies\<close>

text \<open>The two walks, for one amount and for an array of amounts, share their shape.  At depth \<open>k\<close>
  the proxy gets \<open>upd k\<close>, which adds \<open>T (Suc k)\<close> to the sum of its array and \<open>L k\<close> to the last
  element; the account that ends the chain at depth \<open>k\<close> hands \<open>T k\<close> to its witnesses.\<close>

locale proxy_walk = fc_safe F for F +
  fixes walk :: "account_name_type \<Rightarrow> nat \<Rightarrow> chain_db \<Rightarrow> chain_db option"
    and upd :: "nat \<Rightarrow> int list \<Rightarrow> int list option"
    and tot :: "nat \<Rightarrow> int option"
    and T L :: "nat \<Rightarrow> int"
  assumes walk_eq: "walk n k d = do {
       a \<leftarrow> get_account n d;
       if acc_proxy a \<noteq> [] then
         if k \<ge> MAX_PROXY_RECURSION_DEPTH then Some d
         else do {
           d1 \<leftarrow> modify_account (acc_proxy a) (\<lambda>p. do {
                   xs \<leftarrow> upd k (acc_proxied_votes p);
                   Some (p\<lparr>acc_proxied_votes := xs\<rparr>) }) d;
           walk (acc_proxy a) (k + 1) d1 }
       else do { t \<leftarrow> tot k; adjust_witness_votes F (acc_id a) t d } }"
    and upd_law: "upd k xs = Some ys \<Longrightarrow> length xs = 4 \<Longrightarrow> k < 4 \<Longrightarrow>
       length ys = 4 \<and> sum_list ys = sum_list xs + T (Suc k) \<and> ys ! 3 = xs ! 3 + L k"
    and tot_law: "tot k = Some t \<Longrightarrow> k \<le> 4 \<Longrightarrow> t = T k"
    and last_law: "k < 4 \<Longrightarrow> T (Suc k) = L k + (if Suc k < 4 then T (Suc (Suc k)) else 0)"
begin

lemma proxy_step:
  assumes "voters_ok d" "k < 4"
    "modify_account m (\<lambda>p. do { xs \<leftarrow> upd k (acc_proxied_votes p); Some (p\<lparr>acc_proxied_votes := xs\<rparr>) }) d = Some d1"
  shows "\<exists>p p1. find_account m d = Some p \<and> find_account m d1 = Some p1 \<and> strip_votes p1 = strip_votes p \<and>
    voters_ok d1 \<and> vote_frame d d1 \<and>
    (\<forall>j. excess d1 j = excess d j - voted d (acc_id p) j * T (Suc k)) \<and>
    total_votes d1 = total_votes d + (if acc_proxy p = [] then T (Suc k) else L k) \<and>
    (\<forall>n. n \<noteq> m \<longrightarrow> find_account n d1 = find_account n d)"
proof -
  let ?f = "\<lambda>p. do { xs \<leftarrow> upd k (acc_proxied_votes p); Some (p\<lparr>acc_proxied_votes := xs\<rparr>) }"
  have fn: "acc_name b = acc_name a" if "?f a = Some b" for a b using that by (auto simp: bind_Some_iff)
  have fs: "strip_votes b = strip_votes a" if "?f a = Some b" for a b
    using that by (auto simp: bind_Some_iff strip_votes_def)
  from assms(3) obtain as where as: "tbl_modify (\<lambda>a. acc_name a = m) ?f (db_accounts d) = Some as"
    and d1: "d1 = d\<lparr>db_accounts := as\<rparr>"
    by (auto simp: modify_account_def bind_Some_iff)
  from find_account_modify_same[OF assms(3) fn] obtain p p1 where
    p: "find_account m d = Some p" "?f p = Some p1" "find_account m d1 = Some p1" by blast
  from p(2) obtain xs where xs: "upd k (acc_proxied_votes p) = Some xs" "p1 = p\<lparr>acc_proxied_votes := xs\<rparr>"
    by (auto simp: bind_Some_iff)
  have pin: "p \<in> set (db_accounts d)" using p(1) find_Some_P by (fastforce simp: find_account_def)
  then have l: "length (acc_proxied_votes p) = 4" using assms(1) by (simp add: voters_ok_def)
  note u = upd_law[OF xs(1) l assms(2)]
  have fr: "vote_frame d d1" by (rule modify_account_vote_frame[OF assms(3) fs])
  have len: "length (acc_proxied_votes a) = 4" if a: "a \<in> set (db_accounts d1)" for a
  proof (rule tbl_modify_split[OF as])
    fix us x y vs
    assume s: "db_accounts d = us @ x # vs" "as = us @ y # vs" "?f x = Some y"
    have lx: "\<forall>a \<in> set (us @ x # vs). length (acc_proxied_votes a) = 4"
      using assms(1) by (simp add: voters_ok_def s(1)[symmetric])
    then have "length (acc_proxied_votes y) = 4"
      using s(3) upd_law[OF _ _ assms(2)] by (auto simp: bind_Some_iff)
    with lx a show ?thesis by (auto simp: d1 s(2))
  qed
  have sums: "tsum g as = tsum g (db_accounts d) - g p + g p1" for g
    using tsum_modify_find[OF as] p(1,2) by (simp add: find_account_def)
  have vd: "voted d1 = voted d" by (rule vote_frameD(5)[OF fr])
  have st: "stake p1 = stake p + T (Suc k)" using u by (simp add: stake_def xs(2))
  have ex: "excess d1 j = excess d j - voted d (acc_id p) j * T (Suc k)" for j
  proof -
    have "tally d1 j = tally d j - voted d (acc_id p) j * stake p + voted d (acc_id p1) j * stake p1"
      using sums[of "\<lambda>a. voted d (acc_id a) j * stake a"] by (simp add: tally_def vd) (simp add: d1)
    moreover have "recorded d1 j = recorded d j" by (simp add: recorded_def get_witness_id_def d1)
    ultimately show ?thesis using st by (simp add: excess_def xs(2) algebra_simps)
  qed
  have tv: "total_votes d1 = total_votes d + (if acc_proxy p = [] then T (Suc k) else L k)"
  proof -
    have "total_votes d1 = total_votes d - acct_votes p + acct_votes p1"
      using sums[of acct_votes] by (simp add: total_votes_def d1)
    then show ?thesis using u by (simp add: acct_votes_def xs(2))
  qed
  have "voters_ok d1" by (rule voters_ok_frame[OF fr assms(1) len])
  moreover have "find_account n d1 = find_account n d" if "n \<noteq> m" for n
    by (rule find_account_modify_other[OF assms(3) fn that])
  moreover have "strip_votes p1 = strip_votes p" using fs p(2) by blast
  ultimately show ?thesis using p(1,3) fr ex tv by blast
qed

text \<open>The effect of a whole walk on the tallies and on the stake of all accounts.\<close>

lemma walk_spec:
  "voters_ok d \<Longrightarrow> k \<le> 4 \<Longrightarrow> walk n k d = Some d' \<Longrightarrow>
   \<exists>a. find_account n d = Some a \<and> voters_ok d' \<and> vote_frame d d' \<and>
    (\<forall>j. excess d' j = excess d j + (if acc_proxy a = [] then voted d (acc_id a) j * T k else 0)) \<and>
    total_votes d' = total_votes d + (if acc_proxy a = [] \<or> k \<ge> 4 then 0 else T (Suc k))"
proof (induction "4 - k" arbitrary: k n d)
  case 0
  then have k: "k = 4" by simp
  from 0(4) obtain a where a: "find_account n d = Some a" and
    r: "if acc_proxy a \<noteq> [] then d' = d else \<exists>t. tot k = Some t \<and> adjust_witness_votes F (acc_id a) t d = Some d'"
    unfolding walk_eq[of n k d] by (auto simp: bind_Some_iff get_account_def MAX_PROXY_RECURSION_DEPTH_def k split: if_splits)
  show ?case
  proof (cases "acc_proxy a = []")
    case False
    then show ?thesis using a r 0(2) k by (auto simp: vote_frame_refl)
  next
    case True
    with r obtain t where t: "tot k = Some t" "adjust_witness_votes F (acc_id a) t d = Some d'" by auto
    from adjust_witness_votes_excess[OF t(2) 0(2)] tot_law[OF t(1) 0(3)] a True show ?thesis by auto
  qed
next
  case (Suc x)
  then have k: "k < 4" by simp
  from Suc(5) obtain a where a: "find_account n d = Some a" and
    r: "if acc_proxy a \<noteq> [] then \<exists>d1. modify_account (acc_proxy a) (\<lambda>p. do {
           xs \<leftarrow> upd k (acc_proxied_votes p); Some (p\<lparr>acc_proxied_votes := xs\<rparr>) }) d = Some d1 \<and>
           walk (acc_proxy a) (k + 1) d1 = Some d'
        else \<exists>t. tot k = Some t \<and> adjust_witness_votes F (acc_id a) t d = Some d'"
    unfolding walk_eq[of n k d] using k
    by (auto simp: bind_Some_iff get_account_def MAX_PROXY_RECURSION_DEPTH_def split: if_splits)
  show ?case
  proof (cases "acc_proxy a = []")
    case True
    with r obtain t where t: "tot k = Some t" "adjust_witness_votes F (acc_id a) t d = Some d'" by auto
    from adjust_witness_votes_excess[OF t(2) Suc(3)] tot_law[OF t(1) Suc(4)] a True show ?thesis by auto
  next
    case False
    with r obtain d1 where m: "modify_account (acc_proxy a) (\<lambda>p. do {
           xs \<leftarrow> upd k (acc_proxied_votes p); Some (p\<lparr>acc_proxied_votes := xs\<rparr>) }) d = Some d1"
      and w: "walk (acc_proxy a) (k + 1) d1 = Some d'" by auto
    from proxy_step[OF Suc(3) k m] obtain p p1 where
      p: "find_account (acc_proxy a) d = Some p" "find_account (acc_proxy a) d1 = Some p1"
        "strip_votes p1 = strip_votes p" and
      s: "voters_ok d1" "vote_frame d d1" "\<And>j. excess d1 j = excess d j - voted d (acc_id p) j * T (Suc k)"
        "total_votes d1 = total_votes d + (if acc_proxy p = [] then T (Suc k) else L k)" by blast
    have pp: "acc_proxy p1 = acc_proxy p" "acc_id p1 = acc_id p"
      using arg_cong[OF p(3), of acc_proxy] arg_cong[OF p(3), of acc_id] by (simp_all add: strip_votes_def)
    have "x = 4 - (k + 1)" "k + 1 \<le> 4" using Suc(2) k by auto
    from Suc(1)[OF this(1) s(1) this(2) w] p(2) have
      i: "voters_ok d'" "vote_frame d1 d'"
        "\<And>j. excess d' j = excess d1 j + (if acc_proxy p = [] then voted d1 (acc_id p) j * T (k + 1) else 0)"
        "total_votes d' = total_votes d1 + (if acc_proxy p = [] \<or> k + 1 \<ge> 4 then 0 else T (Suc (k + 1)))"
      using pp by auto
    have pin: "p \<in> set (db_accounts d)" using p(1) find_Some_P by (fastforce simp: find_account_def)
    have "excess d' j = excess d j" for j
      using i(3)[of j] s(3)[of j] vote_frameD(5)[OF s(2)] Suc(3) pin by (auto simp: voters_ok_def)
    moreover have "total_votes d' = total_votes d + T (Suc k)"
      using i(4) s(4) last_law[OF k] k by (auto split: if_splits)
    ultimately show ?thesis using a False i(1) vote_frame_trans[OF s(2) i(2)] k by auto
  qed
qed

end

subsection \<open>Who lets whom vote\<close>

definition proxy_rel :: "chain_db \<Rightarrow> (account_name_type \<times> account_name_type) set" where
  "proxy_rel d = {(n, m). m \<noteq> [] \<and> (\<exists>a. find_account n d = Some a \<and> acc_proxy a = m)}"

lemma find_account_strip:
  assumes "vote_frame d d'"
  shows "map_option strip_votes (find_account n d') = map_option strip_votes (find_account n d)"
  unfolding find_account_def by (rule strip_find[OF vote_frameD(6)[OF assms]])

lemma strip_votes_eq:
  assumes "strip_votes a = strip_votes b"
  shows "acc_proxy a = acc_proxy b" "acc_id a = acc_id b" "acc_SCORE a = acc_SCORE b" "acc_name a = acc_name b"
    "acc_can_vote a = acc_can_vote b"
  using arg_cong[OF assms, of acc_proxy] arg_cong[OF assms, of acc_id] arg_cong[OF assms, of acc_SCORE]
    arg_cong[OF assms, of acc_name] arg_cong[OF assms, of acc_can_vote] by (simp_all add: strip_votes_def)

lemma proxy_rel_frame:
  assumes "vote_frame d d'"
  shows "proxy_rel d' = proxy_rel d"
proof -
  have "(\<exists>a. find_account n d' = Some a \<and> acc_proxy a = m) \<longleftrightarrow> (\<exists>a. find_account n d = Some a \<and> acc_proxy a = m)" for n m
    using find_account_strip[OF assms, of n]
    by (cases "find_account n d"; cases "find_account n d'") (auto dest: strip_votes_eq(1))
  then show ?thesis by (simp add: proxy_rel_def)
qed

context proxy_walk
begin

lemma walk_frame: "walk n k d = Some d' \<Longrightarrow> vote_frame d d'"
proof (induction "5 - k" arbitrary: k n d)
  case 0
  then show ?case
    unfolding walk_eq[of n k d]
    by (auto simp: bind_Some_iff MAX_PROXY_RECURSION_DEPTH_def adjust_witness_votes_def vote_frame_refl split: if_splits
        dest!: adjust_each_recorded)
next
  case (Suc x)
  have "vote_frame d d'" if m: "modify_account m (\<lambda>p. do {
      xs \<leftarrow> upd k (acc_proxied_votes p); Some (p\<lparr>acc_proxied_votes := xs\<rparr>) }) d = Some d1"
    and w: "walk m (Suc k) d1 = Some d'" for m d1
  proof (rule vote_frame_trans)
    show "vote_frame d d1" by (rule modify_account_vote_frame[OF m]) (auto simp: bind_Some_iff strip_votes_def)
    show "vote_frame d1 d'" using Suc(1)[OF _ w] Suc(2) by simp
  qed
  then show ?case
    using Suc(3)[unfolded walk_eq[of n k d]]
    by (auto simp: bind_Some_iff adjust_witness_votes_def vote_frame_refl split: if_splits dest!: adjust_each_recorded)
qed

text \<open>Only accounts further along the chain are touched.\<close>

lemma walk_other:
  "voters_ok d \<Longrightarrow> k \<le> 4 \<Longrightarrow> walk n k d = Some d' \<Longrightarrow> (n, q) \<notin> (proxy_rel d)\<^sup>+ \<Longrightarrow>
   find_account q d' = find_account q d"
proof (induction "4 - k" arbitrary: k n d)
  case 0
  then have "k = 4" by simp
  with 0 show ?case
    unfolding walk_eq[of n k d]
    by (auto simp: bind_Some_iff MAX_PROXY_RECURSION_DEPTH_def split: if_splits dest!: adjust_witness_votes_excess)
next
  case (Suc x)
  then have k: "k < 4" by simp
  from Suc(5) obtain a where a: "find_account n d = Some a" and
    r: "if acc_proxy a \<noteq> [] then \<exists>d1. modify_account (acc_proxy a) (\<lambda>p. do {
           xs \<leftarrow> upd k (acc_proxied_votes p); Some (p\<lparr>acc_proxied_votes := xs\<rparr>) }) d = Some d1 \<and>
           walk (acc_proxy a) (k + 1) d1 = Some d'
        else \<exists>t. tot k = Some t \<and> adjust_witness_votes F (acc_id a) t d = Some d'"
    unfolding walk_eq[of n k d] using k
    by (auto simp: bind_Some_iff get_account_def MAX_PROXY_RECURSION_DEPTH_def split: if_splits)
  show ?case
  proof (cases "acc_proxy a = []")
    case True
    then show ?thesis using r Suc(3) by (auto dest!: adjust_witness_votes_excess)
  next
    case False
    with r obtain d1 where m: "modify_account (acc_proxy a) (\<lambda>p. do {
           xs \<leftarrow> upd k (acc_proxied_votes p); Some (p\<lparr>acc_proxied_votes := xs\<rparr>) }) d = Some d1"
      and w: "walk (acc_proxy a) (k + 1) d1 = Some d'" by auto
    have e: "(n, acc_proxy a) \<in> proxy_rel d" using a False by (simp add: proxy_rel_def)
    from proxy_step[OF Suc(3) k m] have s: "voters_ok d1" "vote_frame d d1"
      "\<And>n. n \<noteq> acc_proxy a \<Longrightarrow> find_account n d1 = find_account n d" by blast+
    have "q \<noteq> acc_proxy a" using e Suc(6) by blast
    moreover have "(acc_proxy a, q) \<notin> (proxy_rel d1)\<^sup>+"
      using Suc(6) trancl_into_trancl2[OF e] proxy_rel_frame[OF s(2)] by auto
    ultimately show ?thesis using Suc(1)[OF _ s(1) _ w] Suc(2) k s(3) by simp
  qed
qed

end

subsection \<open>The two walks\<close>

lemma list4: "length xs = 4 \<longleftrightarrow> (\<exists>a b c e. xs = [a, b, c, e])"
  by (auto simp: length_Suc_conv numeral_eq_Suc)

definition delta_sum :: "int list \<Rightarrow> nat \<Rightarrow> int" where
  "delta_sum delta k = (\<Sum>i\<leftarrow>[0..<k]. delta ! i)"

lemma depth_cases: "k < (4 :: nat) \<Longrightarrow> k = 0 \<or> k = 1 \<or> k = 2 \<or> k = 3"
  by auto

context fc_safe
begin

lemma add_deltas_4:
  assumes "add_deltas F delta k (rev [0..<4 - k]) xs = Some ys" "length xs = 4" "k < 4"
  shows "length ys = 4 \<and> sum_list ys = sum_list xs + delta_sum delta (4 - k) \<and> ys ! 3 = xs ! 3 + delta ! (3 - k)"
proof -
  from assms(2) obtain a b c e where "xs = [a, b, c, e]" by (auto simp: list4)
  with assms(1) depth_cases[OF assms(3)] show ?thesis
    by (auto simp: upt_rec bind_Some_iff delta_sum_def numeral_2_eq_2 numeral_3_eq_3 dest!: safe_add_SomeD)
qed

end

sublocale fc_safe \<subseteq> array_walk: proxy_walk F "\<lambda>n k d. adjust_proxied_witness_votes F n delta k d"
  "\<lambda>k xs. add_deltas F delta k (rev [0..<MAX_PROXY_RECURSION_DEPTH - k]) xs"
  "\<lambda>k. safe_accumulate F (map (\<lambda>i. delta ! i) (rev [0..<Suc MAX_PROXY_RECURSION_DEPTH - k])) 0"
  "\<lambda>k. delta_sum delta (5 - k)" "\<lambda>k. delta ! (3 - k)" for delta
proof unfold_locales
  fix n k d
  show "adjust_proxied_witness_votes F n delta k d = do {
       a \<leftarrow> get_account n d;
       if acc_proxy a \<noteq> [] then
         if k \<ge> MAX_PROXY_RECURSION_DEPTH then Some d
         else do {
           d1 \<leftarrow> modify_account (acc_proxy a) (\<lambda>p. do {
                   xs \<leftarrow> add_deltas F delta k (rev [0..<MAX_PROXY_RECURSION_DEPTH - k]) (acc_proxied_votes p);
                   Some (p\<lparr>acc_proxied_votes := xs\<rparr>) }) d;
           adjust_proxied_witness_votes F (acc_proxy a) delta (k + 1) d1 }
       else do {
         t \<leftarrow> safe_accumulate F (map (\<lambda>i. delta ! i) (rev [0..<Suc MAX_PROXY_RECURSION_DEPTH - k])) 0;
         adjust_witness_votes F (acc_id a) t d } }"
    by (rule adjust_proxied_witness_votes.simps)
next
  fix k xs ys
  assume "add_deltas F delta k (rev [0..<MAX_PROXY_RECURSION_DEPTH - k]) xs = Some ys" "length xs = 4" "k < 4"
  then show "length ys = 4 \<and> sum_list ys = sum_list xs + delta_sum delta (5 - Suc k) \<and> ys ! 3 = xs ! 3 + delta ! (3 - k)"
    using add_deltas_4 by (simp add: MAX_PROXY_RECURSION_DEPTH_def)
next
  fix k t
  assume "safe_accumulate F (map (\<lambda>i. delta ! i) (rev [0..<Suc MAX_PROXY_RECURSION_DEPTH - k])) 0 = Some t"
  then show "t = delta_sum delta (5 - k)"
    by (auto simp: MAX_PROXY_RECURSION_DEPTH_def delta_sum_def sum_list_rev simp flip: rev_map dest!: safe_accumulate_SomeD)
next
  fix k :: nat
  assume k: "k < 4"
  then obtain m where "5 - Suc k = Suc m" "3 - k = m" "k < 3 \<Longrightarrow> 5 - Suc (Suc k) = m" "k = 3 \<Longrightarrow> m = 0"
    using depth_cases[OF k] by auto
  then show "delta_sum delta (5 - Suc k) = delta ! (3 - k) +
      (if Suc k < 4 then delta_sum delta (5 - Suc (Suc k)) else 0)"
    using k by (auto simp: delta_sum_def)
qed

sublocale fc_safe \<subseteq> single_walk: proxy_walk F "\<lambda>n k d. adjust_proxied_witness_vote F n delta k d"
  "\<lambda>k xs. do { v \<leftarrow> safe_add F (xs ! k) delta; Some (xs[k := v]) }" "\<lambda>k. Some delta"
  "\<lambda>k. delta" "\<lambda>k. if k = 3 then delta else 0" for delta
proof unfold_locales
  fix n k d
  show "adjust_proxied_witness_vote F n delta k d = do {
       a \<leftarrow> get_account n d;
       if acc_proxy a \<noteq> [] then
         if k \<ge> MAX_PROXY_RECURSION_DEPTH then Some d
         else do {
           d1 \<leftarrow> modify_account (acc_proxy a) (\<lambda>p. do {
                   xs \<leftarrow> do { v \<leftarrow> safe_add F (acc_proxied_votes p ! k) delta; Some ((acc_proxied_votes p)[k := v]) };
                   Some (p\<lparr>acc_proxied_votes := xs\<rparr>) }) d;
           adjust_proxied_witness_vote F (acc_proxy a) delta (k + 1) d1 }
       else do { t \<leftarrow> Some delta; adjust_witness_votes F (acc_id a) t d } }"
    by (subst adjust_proxied_witness_vote.simps) (simp only: Option.bind_assoc bind.bind_lunit)
next
  fix k xs ys
  assume "do { v \<leftarrow> safe_add F (xs ! k) delta; Some (xs[k := v]) } = Some ys" "length xs = 4" "k < 4"
  then show "length ys = 4 \<and> sum_list ys = sum_list xs + delta \<and> ys ! 3 = xs ! 3 + (if k = 3 then delta else 0)"
    using depth_cases[of k] by (auto simp: list4 bind_Some_iff numeral_2_eq_2 numeral_3_eq_3 dest!: safe_add_SomeD)
qed auto

end
