(* ===== verification/Proxies.thy ===== *)
theory Proxies
  imports Votes
begin

text \<open>
  The evaluators of proxies, votes and declined voting rights, on top of the walks of \<open>Votes\<close>:
  every witness keeps exactly the stake that stands behind it, the votes of all accounts stay the
  total of the chain, and proxies never form a loop.
\<close>

subsection \<open>Changing one account\<close>

text \<open>A change of an account that keeps its name, its id and the length of its array.\<close>

lemma modify_account_votes_opt:
  assumes "modify_account n f d = Some d'" "voters_ok d" "find_account n d = Some a" "f a = Some b"
    "\<And>a b. f a = Some b \<Longrightarrow> acc_name b = acc_name a \<and> acc_id b = acc_id a \<and> acc_proxied_votes b = acc_proxied_votes a"
    "acc_proxy b \<noteq> [] \<Longrightarrow> \<forall>j. voted d (acc_id a) j = 0"
  shows "voters_ok d'"
    "excess d' j = excess d j + voted d (acc_id a) j * (stake a - stake b)"
    "total_votes d' = total_votes d - acct_votes a + acct_votes b"
    "voted d' = voted d" "find_account n d' = Some b" "d' = d\<lparr>db_accounts := db_accounts d'\<rparr>"
proof -
  from assms(1) obtain as where as: "tbl_modify (\<lambda>a. acc_name a = n) f (db_accounts d) = Some as"
    and d': "d' = d\<lparr>db_accounts := as\<rparr>"
    by (auto simp: modify_account_def bind_Some_iff)
  have sums: "tsum g as = tsum g (db_accounts d) - g a + g b" for g
    using tsum_modify_find[OF as] assms(3,4) by (simp add: find_account_def)
  have ids: "acc_id b = acc_id a" using assms(4,5) by blast
  show vd: "voted d' = voted d" by (simp add: voted_def fun_eq_iff d')
  show "d' = d\<lparr>db_accounts := db_accounts d'\<rparr>" by (simp add: d')
  show "total_votes d' = total_votes d - acct_votes a + acct_votes b"
    using sums[of acct_votes] by (simp add: total_votes_def d')
  have "tally d' j = tally d j - voted d (acc_id a) j * stake a + voted d (acc_id a) j * stake b"
    using sums[of "\<lambda>a. voted d (acc_id a) j * stake a"] by (simp add: tally_def vd ids) (simp add: d')
  moreover have "recorded d' j = recorded d j" by (simp add: recorded_def get_witness_id_def d')
  ultimately show "excess d' j = excess d j + voted d (acc_id a) j * (stake a - stake b)"
    by (simp add: excess_def algebra_simps)
  have "acc_name y = acc_name x" if "f x = Some y" for x y using that assms(5) by blast
  from find_account_modify_same[OF assms(1) this] assms(3,4) show "find_account n d' = Some b" by auto
  have m: "map acc_name as = map acc_name (db_accounts d)" "map acc_id as = map acc_id (db_accounts d)"
    by (rule map_key_modify[OF as]; use assms(5) in blast)+
  have "length (acc_proxied_votes x) = 4 \<and> (acc_proxy x \<noteq> [] \<longrightarrow> (\<forall>j. voted d (acc_id x) j = 0))"
    if x: "x \<in> set as" for x
  proof (rule tbl_modify_split[OF as])
    fix us y z vs
    assume s: "db_accounts d = us @ y # vs" "as = us @ z # vs" "f y = Some z"
      and y: "List.find (\<lambda>a. acc_name a = n) (db_accounts d) = Some y"
    have e: "y = a" "z = b" using y assms(3,4) s(3) by (simp_all add: find_account_def)
    have "\<forall>a \<in> set (us @ y # vs). length (acc_proxied_votes a) = 4 \<and> (acc_proxy a \<noteq> [] \<longrightarrow> (\<forall>j. voted d (acc_id a) j = 0))"
      using assms(2) by (simp add: voters_ok_def s(1)[symmetric])
    then show ?thesis using x assms(5)[OF assms(4)] assms(6) s e by auto
  qed
  then show "voters_ok d'" using assms(2) m by (simp add: voters_ok_def vd) (simp add: d')
qed

lemma modify_account_votes:
  assumes "modify_account n (\<lambda>a. Some (h a)) d = Some d'" "voters_ok d" "find_account n d = Some a"
    "\<And>a. acc_name (h a) = acc_name a" "\<And>a. acc_id (h a) = acc_id a"
    "\<And>a. acc_proxied_votes (h a) = acc_proxied_votes a"
    "acc_proxy (h a) \<noteq> [] \<Longrightarrow> \<forall>j. voted d (acc_id a) j = 0"
  shows "voters_ok d'"
    "excess d' j = excess d j + voted d (acc_id a) j * (stake a - stake (h a))"
    "total_votes d' = total_votes d - acct_votes a + acct_votes (h a)"
    "voted d' = voted d" "find_account n d' = Some (h a)" "d' = d\<lparr>db_accounts := db_accounts d'\<rparr>"
  by (rule modify_account_votes_opt[OF assms(1-3)], (use assms(4-7) in auto)[3])+

subsection \<open>Clearing the votes of an account\<close>

lemma voted_filter:
  "voted (d\<lparr>db_witness_votes := filter (\<lambda>v. wvo_account v \<noteq> i) (db_witness_votes d)\<rparr>) k j
     = (if k = i then 0 else voted d k j)"
  by (auto simp: voted_def filter_empty_conv intro!: arg_cong[of _ _ length] filter_cong)

lemma tally_shift:
  assumes "find_account n d = Some a" "distinct (map acc_id (db_accounts d))" "db_accounts d' = db_accounts d"
    "\<And>k. voted d' k j = voted d k j + (if k = acc_id a then c else 0)"
  shows "tally d' j = tally d j + c * stake a"
proof -
  have a: "a \<in> set (db_accounts d)" using assms(1) find_Some_P by (fastforce simp: find_account_def)
  have "tsum (\<lambda>x. (voted d (acc_id x) j + (if acc_id x = acc_id a then c else 0)) * stake x) as
      = tsum (\<lambda>x. voted d (acc_id x) j * stake x) as + (if a \<in> set as then c * stake a else 0)"
    if "distinct (map acc_id as)" "\<forall>x \<in> set as. acc_id x = acc_id a \<longrightarrow> x = a" for as
    using that
  proof (induction as)
    case (Cons x xs)
    then have i: "acc_id x \<notin> acc_id ` set xs" "x = a \<or> acc_id x \<noteq> acc_id a" by auto
    show ?case
    proof (cases "x = a")
      case True
      then have "a \<notin> set xs" using i(1) by (simp add: image_iff) blast
      then show ?thesis using Cons True by (simp add: algebra_simps)
    next
      case False
      then have "acc_id x \<noteq> acc_id a" "a \<noteq> x" using i(2) by blast+
      then show ?thesis using Cons by simp
    qed
  qed simp
  from this[OF assms(2)] show ?thesis
    using a inj_on_eq_iff[OF distinct_map[THEN iffD1, OF assms(2), THEN conjunct2]]
    by (simp add: tally_def assms(3,4))
qed

lemma clear_witness_votes_spec:
  assumes "clear_witness_votes n d = Some d'" "voters_ok d" "find_account n d = Some a"
  shows "voters_ok d'"
    "excess d' j = excess d j + voted d (acc_id a) j * stake a"
    "total_votes d' = total_votes d" "voted d' (acc_id a) j = 0"
    "\<exists>c. find_account n d' = Some (a\<lparr>acc_witnesses_voted_for := c\<rparr>)"
    "\<exists>as vs. d' = d\<lparr>db_accounts := as, db_witness_votes := vs\<rparr>"
proof -
  define d1 where "d1 = d\<lparr>db_witness_votes := filter (\<lambda>v. wvo_account v \<noteq> acc_id a) (db_witness_votes d)\<rparr>"
  have v: "voted d1 k j = (if k = acc_id a then 0 else voted d k j)" for k j by (simp add: d1_def voted_filter)
  have ok: "voters_ok d1" using assms(2) by (auto simp: voters_ok_def v) (auto simp: d1_def)
  have ex: "excess d1 j = excess d j + voted d (acc_id a) j * stake a"
    using tally_shift[of n d a d1 j "- voted d (acc_id a) j", OF assms(3)] assms(2) v
    by (simp add: excess_def voters_ok_def) (simp add: d1_def recorded_def get_witness_id_def)
  have fa: "find_account n d1 = Some a" "total_votes d1 = total_votes d"
    using assms(3) by (simp_all add: d1_def find_account_def total_votes_def)
  from assms(1,3) have r: "if has_hardfork 6 d then modify_account n (\<lambda>a. Some (a\<lparr>acc_witnesses_voted_for := 0\<rparr>)) d1 = Some d'
      else d' = d1"
    by (auto simp: clear_witness_votes_def get_account_def d1_def Let_def)
  have "voters_ok d' \<and> excess d' j = excess d j + voted d (acc_id a) j * stake a \<and> total_votes d' = total_votes d \<and>
    voted d' (acc_id a) j = 0 \<and> (\<exists>c. find_account n d' = Some (a\<lparr>acc_witnesses_voted_for := c\<rparr>)) \<and>
    (\<exists>as vs. d' = d\<lparr>db_accounts := as, db_witness_votes := vs\<rparr>)"
  proof (cases "has_hardfork 6 d")
    case True
    with r have m: "modify_account n (\<lambda>a. Some (a\<lparr>acc_witnesses_voted_for := 0\<rparr>)) d1 = Some d'" by simp
    have k: "\<forall>j. voted d1 (acc_id a) j = 0" by (simp add: v)
    note f = modify_account_votes[OF m ok fa(1) _ _ _ k, simplified]
    have "stake (a\<lparr>acc_witnesses_voted_for := 0\<rparr>) = stake a" "acct_votes (a\<lparr>acc_witnesses_voted_for := 0\<rparr>) = acct_votes a"
      by (simp_all add: stake_def acct_votes_def)
    moreover have "\<exists>as vs. d' = d\<lparr>db_accounts := as, db_witness_votes := vs\<rparr>"
    proof -
      obtain as where "d' = d1\<lparr>db_accounts := as\<rparr>" using f(6) by blast
      then show ?thesis by (intro exI[of _ as] exI[of _ "db_witness_votes d1"]) (simp add: d1_def)
    qed
    ultimately show ?thesis using f(1-5) ex fa(2) v by auto
  next
    case False
    then have d': "d' = d1" using r by simp
    have "\<exists>c. find_account n d' = Some (a\<lparr>acc_witnesses_voted_for := c\<rparr>)"
      by (rule exI[of _ "acc_witnesses_voted_for a"]) (simp add: d' fa(1))
    moreover have "\<exists>as vs. d' = d\<lparr>db_accounts := as, db_witness_votes := vs\<rparr>"
      by (intro exI[of _ "db_accounts d"] exI[of _ "db_witness_votes d1"]) (simp add: d' d1_def)
    ultimately show ?thesis by (simp only: d' ok ex fa(2) v) simp
  qed
  then show "voters_ok d'" "excess d' j = excess d j + voted d (acc_id a) j * stake a"
    "total_votes d' = total_votes d" "voted d' (acc_id a) j = 0"
    "\<exists>c. find_account n d' = Some (a\<lparr>acc_witnesses_voted_for := c\<rparr>)"
    "\<exists>as vs. d' = d\<lparr>db_accounts := as, db_witness_votes := vs\<rparr>" by blast+
qed

subsection \<open>Taking the votes of an account away\<close>

context fc_safe
begin

lemma those_neg: "those (map (safe_neg F) xs) = Some ys \<Longrightarrow> ys = map uminus xs"
  by (induction xs arbitrary: ys) (auto simp: bind_Some_iff split: option.splits dest!: safe_neg_SomeD)

lemma removed_votes_sums:
  assumes "removed_votes F a = Some delta" "length (acc_proxied_votes a) = 4"
  shows "delta_sum delta 5 = - stake a" "delta_sum delta 4 = - (stake a - acc_proxied_votes a ! 3)"
    "those (map (safe_neg F) delta) = Some delta' \<Longrightarrow> delta_sum delta' 4 = stake a - acc_proxied_votes a ! 3"
proof -
  from assms(1) have d: "delta = - amount (acc_SCORE a) # map uminus (acc_proxied_votes a)"
    by (auto simp: removed_votes_def bind_Some_iff dest!: safe_neg_SomeD those_neg)
  from assms(2) obtain x y z u where l: "acc_proxied_votes a = [x, y, z, u]" by (auto simp: list4)
  show "delta_sum delta 5 = - stake a" "delta_sum delta 4 = - (stake a - acc_proxied_votes a ! 3)"
    by (simp_all add: d l delta_sum_def stake_def upt_rec numeral_eq_Suc)
  show "delta_sum delta' 4 = stake a - acc_proxied_votes a ! 3" if "those (map (safe_neg F) delta) = Some delta'"
    using those_neg[OF that] by (simp add: d l delta_sum_def stake_def upt_rec numeral_eq_Suc)
qed

text \<open>The state after an account has withdrawn its votes and those proxied to it, from its witnesses
  or from its chain of proxies.\<close>

lemma leave_votes:
  assumes "removed_votes F a = Some delta" "adjust_proxied_witness_votes F n delta 0 d = Some d'"
    "voters_ok d" "acyclic (proxy_rel d)" "find_account n d = Some a"
  shows "voters_ok d'" "vote_frame d d'" "find_account n d' = Some a"
    "excess d' j = excess d j - voted d (acc_id a) j * stake a"
    "total_votes d' - acct_votes a = total_votes d - stake a"
proof -
  have a: "a \<in> set (db_accounts d)" using assms(5) find_Some_P by (fastforce simp: find_account_def)
  then have l: "length (acc_proxied_votes a) = 4" and v: "acc_proxy a \<noteq> [] \<Longrightarrow> voted d (acc_id a) j = 0"
    using assms(3) by (simp_all add: voters_ok_def)
  note w = array_walk.walk_spec[OF assms(3) _ assms(2), simplified assms(5), simplified]
  show "voters_ok d'" "vote_frame d d'" using w by auto
  show "excess d' j = excess d j - voted d (acc_id a) j * stake a"
    using w removed_votes_sums(1)[OF assms(1) l] v by (auto split: if_splits)
  show "total_votes d' - acct_votes a = total_votes d - stake a"
    using w removed_votes_sums(2)[OF assms(1) l] by (auto simp: acct_votes_def stake_def numeral_eq_Suc)
  have "(n, n) \<notin> (proxy_rel d)\<^sup>+" using assms(4) by (simp add: acyclic_def)
  from array_walk.walk_other[OF assms(3) _ assms(2) this] assms(5) show "find_account n d' = Some a" by simp
qed

end

text \<open>A chain that passes the check does not lead back to an account of the set.\<close>

lemma proxy_chain_ok_away:
  assumes "proxy_chain_ok fuel chain c d = Some ()" "find_account (acc_name c) d = Some c"
    "find_account n d = Some a" "acc_id a \<in> set chain"
  shows "(acc_name c, n) \<notin> (proxy_rel d)\<^sup>+"
  using assms
proof (induction fuel arbitrary: chain c)
  case 0
  then show ?case by (auto dest!: tranclD simp: proxy_rel_def split: if_splits)
next
  case (Suc fuel)
  show ?case
  proof
    assume "(acc_name c, n) \<in> (proxy_rel d)\<^sup>+"
    then obtain m where m: "(acc_name c, m) \<in> proxy_rel d" "(m, n) \<in> (proxy_rel d)\<^sup>*" by (auto dest!: tranclD)
    then have p: "acc_proxy c = m" "m \<noteq> []" using Suc.prems(2) by (auto simp: proxy_rel_def)
    with Suc.prems(1) obtain x where x: "find_account m d = Some x" "acc_id x \<notin> set chain"
      "proxy_chain_ok fuel (acc_id x # chain) x d = Some ()"
      by (auto simp: bind_Some_iff get_account_def FC_ASSERT_def split: if_splits)
    have nx: "acc_name x = m" using x(1) find_Some_P by (fastforce simp: find_account_def)
    have "m \<noteq> n" using x(1,2) Suc.prems(3,4) by auto
    with m(2) have "(m, n) \<in> (proxy_rel d)\<^sup>+" by (simp add: rtrancl_eq_or_trancl)
    moreover have "(acc_name x, n) \<notin> (proxy_rel d)\<^sup>+"
      using Suc.IH[OF x(3)] Suc.prems(3,4) nx x(1) by simp
    ultimately show False by (simp add: nx)
  qed
qed

lemma proxy_rel_same:
  assumes "modify_account n f d = Some d'" "\<And>a b. f a = Some b \<Longrightarrow> acc_name b = acc_name a \<and> acc_proxy b = acc_proxy a"
  shows "proxy_rel d' = proxy_rel d"
proof -
  have k: "acc_name b = acc_name a" if "f a = Some b" for a b using that assms(2) by blast
  from find_account_modify_same[OF assms(1) k] obtain a b where
    s: "find_account n d = Some a" "f a = Some b" "find_account n d' = Some b" by blast
  have "(\<exists>a. find_account x d' = Some a \<and> acc_proxy a = y) \<longleftrightarrow> (\<exists>a. find_account x d = Some a \<and> acc_proxy a = y)" for x y
    using find_account_modify_other[OF assms(1) k, of x] s assms(2)[OF s(2)] by (cases "x = n") auto
  then show ?thesis by (simp add: proxy_rel_def)
qed

lemma proxy_rel_modify:
  assumes "modify_account n (\<lambda>a. Some (h a)) d = Some d'" "find_account n d = Some a"
    "\<And>a. acc_name (h a) = acc_name a"
  shows "proxy_rel d' \<subseteq> insert (n, acc_proxy (h a)) (proxy_rel d)"
    "acc_proxy (h a) \<in> {[], acc_proxy a} \<Longrightarrow> proxy_rel d' \<subseteq> proxy_rel d"
proof -
  have k: "acc_name c = acc_name b" if "Some (h b) = Some c" for b c using that assms(3) by auto
  from find_account_modify_same[OF assms(1) k] assms(2) have s: "find_account n d' = Some (h a)" by auto
  have o: "find_account m d' = find_account m d" if "m \<noteq> n" for m
    by (rule find_account_modify_other[OF assms(1) k that])
  have e: "(x, y) \<in> proxy_rel d' \<longleftrightarrow> (if x = n then y \<noteq> [] \<and> y = acc_proxy (h a) else (x, y) \<in> proxy_rel d)" for x y
    using s o[of x] by (auto simp: proxy_rel_def)
  show "proxy_rel d' \<subseteq> insert (n, acc_proxy (h a)) (proxy_rel d)" using e by (auto split: if_splits)
  show "proxy_rel d' \<subseteq> proxy_rel d" if "acc_proxy (h a) \<in> {[], acc_proxy a}"
    using e that assms(2) by (auto simp: proxy_rel_def split: if_splits)
qed

lemma clear_witness_votes_proxies:
  assumes "clear_witness_votes n d = Some d'"
  shows "proxy_rel d' \<subseteq> proxy_rel d"
proof (cases "has_hardfork 6 d")
  case True
  from assms obtain a where a: "find_account n d = Some a" by (auto simp: clear_witness_votes_def get_account_def bind_Some_iff)
  define d1 where "d1 = d\<lparr>db_witness_votes := filter (\<lambda>v. wvo_account v \<noteq> acc_id a) (db_witness_votes d)\<rparr>"
  have "modify_account n (\<lambda>a. Some (a\<lparr>acc_witnesses_voted_for := 0\<rparr>)) d1 = Some d'"
    using assms True a by (simp add: clear_witness_votes_def get_account_def d1_def Let_def)
  moreover have "find_account n d1 = Some a" using a by (simp add: d1_def find_account_def)
  ultimately have "proxy_rel d' \<subseteq> proxy_rel d1" by (rule proxy_rel_modify(2)) simp_all
  then show ?thesis by (simp add: d1_def proxy_rel_def find_account_def)
next
  case False
  with assms show ?thesis by (auto simp: clear_witness_votes_def Let_def bind_Some_iff proxy_rel_def find_account_def)
qed

subsection \<open>The invariant\<close>

text \<open>Every witness has the stake that stands behind it, the votes of the accounts add up to the
  total of the chain, and proxies form no loop.\<close>

definition votes_ok :: "chain_db \<Rightarrow> bool" where
  "votes_ok d \<longleftrightarrow> voters_ok d \<and> acyclic (proxy_rel d) \<and>
     (\<forall>w \<in> set (db_witnesses d). wit_votes w = tally d (wit_id w)) \<and>
     total_votes d = amount (gpo_totalSCORE (db_gpo d))"

lemma recorded_witness:
  assumes "distinct (map wit_id (db_witnesses d))" "w \<in> set (db_witnesses d)"
  shows "recorded d (wit_id w) = wit_votes w"
proof -
  have "List.find (\<lambda>x. wit_id x = wit_id w) ws = Some w" if "distinct (map wit_id ws)" "w \<in> set ws" for ws
    using that by (induction ws) auto
  from this[OF assms] show ?thesis by (simp add: recorded_def get_witness_id_def)
qed

lemma witness_tallies:
  assumes "voters_ok d" "voters_ok d'" "\<forall>w \<in> set (db_witnesses d). wit_votes w = tally d (wit_id w)"
    "\<And>j. excess d' j = excess d j" "map wit_id (db_witnesses d') = map wit_id (db_witnesses d)"
  shows "\<forall>w \<in> set (db_witnesses d'). wit_votes w = tally d' (wit_id w)"
proof
  fix w
  assume w: "w \<in> set (db_witnesses d')"
  then have "wit_id w \<in> set (map wit_id (db_witnesses d'))" by simp
  then obtain w0 where "w0 \<in> set (db_witnesses d)" "wit_id w0 = wit_id w" by (auto simp: assms(5))
  then have "excess d (wit_id w) = 0"
    using assms(1,3) recorded_witness[of d w0] by (simp add: voters_ok_def excess_def)
  then show "wit_votes w = tally d' (wit_id w)"
    using assms(4)[of "wit_id w"] recorded_witness[of d' w] w assms(2) by (simp add: excess_def voters_ok_def)
qed

lemma votes_ok_step:
  assumes "votes_ok d" "voters_ok d'" "acyclic (proxy_rel d')" "\<And>j. excess d' j = excess d j"
    "map wit_id (db_witnesses d') = map wit_id (db_witnesses d)"
    "total_votes d' = total_votes d" "gpo_totalSCORE (db_gpo d') = gpo_totalSCORE (db_gpo d)"
  shows "votes_ok d'"
  using witness_tallies[of d d'] assms by (simp add: votes_ok_def)

lemma find_account_proxied:
  assumes "find_account n d = Some a" "voters_ok d"
  shows "length (acc_proxied_votes a) = 4" "acc_proxy a \<noteq> [] \<Longrightarrow> voted d (acc_id a) j = 0" "acc_name a = n"
proof -
  have "a \<in> set (db_accounts d)" "acc_name a = n"
    using assms(1) find_Some_P by (fastforce simp: find_account_def)+
  then show "length (acc_proxied_votes a) = 4" "acc_proxy a \<noteq> [] \<Longrightarrow> voted d (acc_id a) j = 0" "acc_name a = n"
    using assms(2) by (simp_all add: voters_ok_def)
qed

subsection \<open>The evaluators\<close>

context fc_safe
begin

text \<open>An account without votes of its own joins a proxy.\<close>

lemma join_proxy:
  assumes "modify_account n (\<lambda>a. Some (a\<lparr>acc_proxy := m\<rparr>)) d = Some d1"
    "those (map (safe_neg F) delta) = Some delta'" "adjust_proxied_witness_votes F n delta' 0 d1 = Some d'"
    "removed_votes F a0 = Some delta" "acc_SCORE a0 = acc_SCORE a" "acc_proxied_votes a0 = acc_proxied_votes a"
    "voters_ok d" "find_account n d = Some a" "\<And>j. voted d (acc_id a) j = 0" "m \<noteq> []"
  shows "voters_ok d'" "excess d' j = excess d j" "total_votes d' = total_votes d - acct_votes a + stake a"
    "proxy_rel d' \<subseteq> insert (n, m) (proxy_rel d)" "map wit_id (db_witnesses d') = map wit_id (db_witnesses d)"
    "db_gpo d' = db_gpo d" "db_declines d' = db_declines d"
proof -
  have v: "\<forall>j. voted d (acc_id a) j = 0" using assms(9) by blast
  note f = modify_account_votes[OF assms(1,7,8) _ _ _ v, simplified]
  obtain as where d1: "d1 = d\<lparr>db_accounts := as\<rparr>" using f(6) by blast
  have l: "length (acc_proxied_votes a0) = 4" using find_account_proxied(1)[OF assms(8,7)] assms(6) by simp
  have T: "delta_sum delta' 4 = stake a - acc_proxied_votes a ! 3"
    using removed_votes_sums(3)[OF assms(4) l assms(2)] assms(5,6) by (simp add: stake_def)
  note w = array_walk.walk_spec[OF f(1) _ assms(3), simplified f(5), simplified]
  show "voters_ok d'" using w assms(10) by auto
  show "excess d' j = excess d j" using w f(2)[of j] assms(9,10) by simp
  show "total_votes d' = total_votes d - acct_votes a + stake a"
    using w f(3) T assms(10) by (simp add: acct_votes_def numeral_eq_Suc)
  have fr: "vote_frame d1 d'" using w by simp
  show "proxy_rel d' \<subseteq> insert (n, m) (proxy_rel d)"
    using proxy_rel_modify(1)[OF assms(1,8)] proxy_rel_frame[OF fr] by simp
  show "map wit_id (db_witnesses d') = map wit_id (db_witnesses d)" "db_gpo d' = db_gpo d" "db_declines d' = db_declines d"
    using vote_frameD(2,7,8)[OF fr] by (simp_all add: d1)
qed

text \<open>An account with a proxy votes itself again.\<close>

lemma drop_proxy_votes:
  assumes "removed_votes F a = Some delta" "adjust_proxied_witness_votes F n delta 0 d = Some d1"
    "modify_account n (\<lambda>a. Some (a\<lparr>acc_proxy := []\<rparr>)) d1 = Some d'" "find_account n d = Some a"
    "acc_proxy a \<noteq> []" "votes_ok d"
  shows "votes_ok d'"
proof -
  have vo: "voters_ok d" "acyclic (proxy_rel d)" using assms(6) by (simp_all add: votes_ok_def)
  note l = leave_votes[OF assms(1,2) vo assms(4)]
  note lf = vote_frameD(2,5,7)[OF l(2)] proxy_rel_frame[OF l(2)]
  have v: "\<forall>j. voted d1 (acc_id a) j = 0" using find_account_proxied(2)[OF assms(4) vo(1) assms(5)] lf(2) by simp
  note f = modify_account_votes[OF assms(3) l(1,3) _ _ _ v, simplified]
  obtain as where d': "d' = d1\<lparr>db_accounts := as\<rparr>" using f(6) by blast
  show ?thesis
  proof (rule votes_ok_step[OF assms(6) f(1)])
    show "acyclic (proxy_rel d')"
      using proxy_rel_modify(2)[OF assms(3) l(3)] lf(4) acyclic_subset[OF vo(2)] by simp
    show "excess d' j = excess d j" for j using f(2)[of j] l(4)[of j] v lf(2) by simp
    show "total_votes d' = total_votes d" using f(3) l(5) by (simp add: acct_votes_def stake_def)
  qed (use lf in \<open>simp_all add: d'\<close>)
qed

text \<open>An account gives up its votes for a proxy.\<close>

lemma take_proxy_votes:
  assumes "removed_votes F a = Some delta" "adjust_proxied_witness_votes F n delta 0 d = Some d1"
    "find_account n d = Some a" "votes_ok d" "find_account m d1 = Some b" "m \<noteq> n" "m \<noteq> []"
    "proxy_chain_ok fuel (remdups [acc_id b, acc_id a]) b d1 = Some ()" "clear_witness_votes n d1 = Some d2"
    "modify_account n (\<lambda>a. Some (a\<lparr>acc_proxy := m\<rparr>)) d2 = Some d3" "those (map (safe_neg F) delta) = Some delta'"
    "adjust_proxied_witness_votes F n delta' 0 d3 = Some d'"
  shows "votes_ok d'"
proof -
  have vo: "voters_ok d" "acyclic (proxy_rel d)" using assms(4) by (simp_all add: votes_ok_def)
  note l = leave_votes[OF assms(1,2) vo assms(3)]
  note lf = vote_frameD(2,5,7)[OF l(2)] proxy_rel_frame[OF l(2)]
  note c = clear_witness_votes_spec[OF assms(9) l(1,3)]
  from c(5) obtain k where k: "find_account n d2 = Some (a\<lparr>acc_witnesses_voted_for := k\<rparr>)" by blast
  from c(6) obtain as vs where d2: "d2 = d1\<lparr>db_accounts := as, db_witness_votes := vs\<rparr>" by blast
  note j = join_proxy[OF assms(10-12,1) _ _ c(1) k _ assms(7), simplified, OF c(4)]
  have av: "acct_votes (a\<lparr>acc_witnesses_voted_for := k\<rparr>) = acct_votes a" "stake (a\<lparr>acc_witnesses_voted_for := k\<rparr>) = stake a"
    by (simp_all add: acct_votes_def stake_def)
  have nb: "acc_name b = m" by (rule find_account_proxied(3)[OF assms(5) l(1)])
  have "(acc_name b, n) \<notin> (proxy_rel d1)\<^sup>+"
    by (rule proxy_chain_ok_away[OF assms(8) _ l(3)]) (simp_all add: nb assms(5))
  then have ac: "acyclic (insert (n, m) (proxy_rel d1))"
    using vo(2) assms(6) lf(4) nb by (simp add: acyclic_insert rtrancl_eq_or_trancl)
  show ?thesis
  proof (rule votes_ok_step[OF assms(4) j(1)])
    show "acyclic (proxy_rel d')"
      by (rule acyclic_subset[OF ac]) (use j(4) clear_witness_votes_proxies[OF assms(9)] in blast)
    show "excess d' i = excess d i" for i using j(2)[of i] c(2)[of i] l(4)[of i] lf(2) by simp
    show "total_votes d' = total_votes d" using j(3) c(3) l(5) av by simp
  qed (use j(5,6) lf in \<open>simp_all add: d2\<close>)
qed

lemma account_witness_proxy_votes:
  assumes "account_witness_proxy_do_apply F op d = Some d'" "votes_ok d" "wp_proxy op \<noteq> wp_account op"
  shows "votes_ok d'"
proof -
  let ?n = "wp_account op" and ?m = "wp_proxy op"
  from assms(1) obtain a delta d1 where a: "find_account ?n d = Some a" and ne: "acc_proxy a \<noteq> ?m"
    and delta: "removed_votes F a = Some delta" and d1: "adjust_proxied_witness_votes F ?n delta 0 d = Some d1"
    and r: "(if ?m \<noteq> [] then do {
       account1 \<leftarrow> get_account ?n d1;
       new_proxy \<leftarrow> get_account ?m d1;
       let chain = remdups [acc_id new_proxy, acc_id account1];
       proxy_chain_ok MAX_PROXY_RECURSION_DEPTH chain new_proxy d1;
       d2 \<leftarrow> clear_witness_votes ?n d1;
       d3 \<leftarrow> modify_account ?n (\<lambda>a. Some (a\<lparr>acc_proxy := ?m\<rparr>)) d2;
       delta' \<leftarrow> those (map (safe_neg F) delta);
       adjust_proxied_witness_votes F ?n delta' 0 d3 }
     else modify_account ?n (\<lambda>a. Some (a\<lparr>acc_proxy := ?m\<rparr>)) d1) = Some d'"
    unfolding account_witness_proxy_do_apply_def by (simp add: bind_Some_iff get_account_def) blast
  show ?thesis
  proof (cases "?m = []")
    case True
    with r ne show ?thesis by (intro drop_proxy_votes[OF delta d1 _ a _ assms(2)]) simp_all
  next
    case False
    have "find_account ?n d1 = Some a" using leave_votes(3)[OF delta d1 _ _ a] assms(2) by (simp add: votes_ok_def)
    with r False obtain b d2 d3 delta' where "find_account ?m d1 = Some b"
      "proxy_chain_ok MAX_PROXY_RECURSION_DEPTH (remdups [acc_id b, acc_id a]) b d1 = Some ()"
      "clear_witness_votes ?n d1 = Some d2" "modify_account ?n (\<lambda>a. Some (a\<lparr>acc_proxy := ?m\<rparr>)) d2 = Some d3"
      "those (map (safe_neg F) delta) = Some delta'" "adjust_proxied_witness_votes F ?n delta' 0 d3 = Some d'"
      by (auto simp: bind_Some_iff get_account_def Let_def)
    then show ?thesis using take_proxy_votes[OF delta d1 a assms(2)] assms(3) False by blast
  qed
qed

text \<open>A vote for one witness: the tally moves by the weight of the voter.\<close>

lemma modify_votes_count:
  assumes "modify_account n (\<lambda>a. Some (a\<lparr>acc_witnesses_voted_for := g a\<rparr>)) d = Some d'" "voters_ok d"
  shows "voters_ok d'" "excess d' j = excess d j" "total_votes d' = total_votes d" "voted d' = voted d"
    "proxy_rel d' \<subseteq> proxy_rel d" "d' = d\<lparr>db_accounts := db_accounts d'\<rparr>"
proof -
  have "\<exists>a. find_account n d = Some a"
    using find_account_modify_same[OF assms(1)] by auto
  then obtain a where a: "find_account n d = Some a" by blast
  note f = modify_account_votes[OF assms a _ _ _ , simplified]
  have v: "acc_proxy a \<noteq> [] \<Longrightarrow> \<forall>j. voted d (acc_id a) j = 0" using find_account_proxied(2)[OF a assms(2)] by blast
  have s: "stake (a\<lparr>acc_witnesses_voted_for := g a\<rparr>) = stake a" "acct_votes (a\<lparr>acc_witnesses_voted_for := g a\<rparr>) = acct_votes a"
    by (simp_all add: stake_def acct_votes_def)
  show "voters_ok d'" "excess d' j = excess d j" "total_votes d' = total_votes d" "voted d' = voted d"
    "d' = d\<lparr>db_accounts := db_accounts d'\<rparr>"
    using f(1) f(2)[of j] f(3,4,6) v s by simp_all
  show "proxy_rel d' \<subseteq> proxy_rel d" by (rule proxy_rel_modify(2)[OF assms(1) a]) simp_all
qed

lemma modify_account_other_votes:
  assumes "modify_account n f d = Some d'"
  shows "modify_account n f (d\<lparr>db_witness_votes := vs\<rparr>) = Some (d'\<lparr>db_witness_votes := vs\<rparr>)"
  using assms by (auto simp: modify_account_def bind_Some_iff)

lemma vote_moved:
  assumes "votes_ok d" "find_account n d = Some a" "acc_proxy a = []" "db_accounts d' = db_accounts d"
    "\<And>k i. voted d' k i = voted d k i + (if k = acc_id a \<and> i = j then c else 0)"
    "\<And>i. recorded d' i = recorded d i + (if i = j then c * stake a else 0)"
    "map wit_id (db_witnesses d') = map wit_id (db_witnesses d)" "db_gpo d' = db_gpo d"
  shows "votes_ok d'"
proof (rule votes_ok_step[OF assms(1)])
  have vo: "voters_ok d" "acyclic (proxy_rel d)" using assms(1) by (simp_all add: votes_ok_def)
  have "acc_id x \<noteq> acc_id a" if "x \<in> set (db_accounts d)" "acc_proxy x \<noteq> []" for x
  proof
    assume e: "acc_id x = acc_id a"
    have a: "a \<in> set (db_accounts d)" using assms(2) find_Some_P by (fastforce simp: find_account_def)
    have "inj_on acc_id (set (db_accounts d))" using vo(1) by (simp add: voters_ok_def distinct_map)
    from inj_onD[OF this e that(1) a] that(2) assms(3) show False by simp
  qed
  then show "voters_ok d'" using vo(1) assms(7) by (simp add: voters_ok_def assms(4,5))
  show "acyclic (proxy_rel d')" using vo(2) by (simp add: proxy_rel_def find_account_def assms(4))
  show "excess d' i = excess d i" for i
  proof -
    have "tally d' i = tally d i + (if i = j then c else 0) * stake a"
      by (rule tally_shift[OF assms(2) _ assms(4)]) (use vo(1) assms(5) in \<open>simp_all add: voters_ok_def\<close>)
    then show ?thesis using assms(6) by (simp add: excess_def)
  qed
  show "total_votes d' = total_votes d" by (simp add: total_votes_def assms(4))
qed (use assms in simp_all)

lemma votes_count_kept:
  assumes "modify_account n (\<lambda>a. Some (a\<lparr>acc_witnesses_voted_for := g a\<rparr>)) d = Some d'" "votes_ok d"
  shows "votes_ok d'"
proof -
  have vo: "voters_ok d" "acyclic (proxy_rel d)" using assms(2) by (simp_all add: votes_ok_def)
  note f = modify_votes_count[OF assms(1) vo(1)]
  obtain as where d': "d' = d\<lparr>db_accounts := as\<rparr>" using f(6) by blast
  show ?thesis
    by (rule votes_ok_step[OF assms(2) f(1) acyclic_subset[OF vo(2) f(5)] f(2)]) (use f(3) in \<open>simp_all add: d'\<close>)
qed

text \<open>The weight goes to the witness, by \<open>adjust_witness_vote\<close> or, before hardfork 2, directly.\<close>

lemma witness_moved:
  assumes "(if h then adjust_witness_vote F i delta d else modify_witness_id i (\<lambda>w. do {
       v \<leftarrow> g (wit_votes w); Some (w\<lparr>wit_votes := v\<rparr>) }) d) = Some d'"
    "\<And>x v. g x = Some v \<Longrightarrow> v = x + delta"
  shows "vote_frame d d'" "db_accounts d' = db_accounts d"
    "recorded d' j = recorded d j + (if j = i then delta else 0)"
proof -
  have "vote_frame d d' \<and> db_accounts d' = db_accounts d \<and>
    (\<forall>j. recorded d' j = recorded d j + (if j = i then delta else 0))"
  proof (cases h)
    case True
    then show ?thesis using adjust_witness_vote_recorded assms(1) by simp
  next
    case False
    with assms(1) have m: "modify_witness_id i (\<lambda>w. do {
       v \<leftarrow> g (wit_votes w); Some (w\<lparr>wit_votes := v\<rparr>) }) d = Some d'" by simp
    have "db_accounts d' = db_accounts d" using m by (auto simp: modify_witness_id_def bind_Some_iff)
    moreover have "vote_frame d d' \<and> (\<forall>j. recorded d' j = recorded d j + (if j = i then delta else 0))"
      by (rule modify_witness_recorded[OF m]) (auto simp: bind_Some_iff dest!: assms(2))
    ultimately show ?thesis by blast
  qed
  then show "vote_frame d d'" "db_accounts d' = db_accounts d"
    "recorded d' j = recorded d j + (if j = i then delta else 0)" by blast+
qed

lemma weight_stake: "witness_vote_weight F a = Some w \<Longrightarrow> w = stake a"
  by (auto simp: witness_vote_weight_def stake_def dest!: safe_accumulate_SomeD)

lemma voted_create:
  assumes "create_witness_vote v d = Some d'"
  shows "voted d' k i = voted d k i + (if k = wvo_account v \<and> i = wvo_witness v then 1 else 0)"
    "db_accounts d' = db_accounts d" "db_witnesses d' = db_witnesses d" "db_gpo d' = db_gpo d"
  using assms by (auto simp: create_witness_vote_def tbl_emplace_def take_id_def voted_def bind_Some_iff split: if_splits)

lemma voted_remove:
  assumes "List.find (\<lambda>v. wvo_account v = a \<and> wvo_witness v = j) vs = Some x"
  shows "int (length (filter (\<lambda>v. wvo_account v = k \<and> wvo_witness v = i)
            (tbl_remove (\<lambda>v. wvo_account v = a \<and> wvo_witness v = j) vs)))
       = int (length (filter (\<lambda>v. wvo_account v = k \<and> wvo_witness v = i) vs)) - (if k = a \<and> i = j then 1 else 0)"
  using assms by (induction vs) (auto split: if_splits)

lemma vote_approved:
  assumes "create_witness_vote \<lparr>wvo_id = 0, wvo_witness = j, wvo_account = acc_id a\<rparr> d = Some d1"
    "(if h then adjust_witness_vote F j (stake a) d1 else modify_witness_id j (\<lambda>w. do {
       v \<leftarrow> safe_add F (wit_votes w) (stake a); Some (w\<lparr>wit_votes := v\<rparr>) }) d1) = Some d2"
    "modify_account n (\<lambda>a. Some (a\<lparr>acc_witnesses_voted_for := g a\<rparr>)) d2 = Some d'"
    "votes_ok d" "find_account n d = Some a" "acc_proxy a = []"
  shows "votes_ok d'"
proof (rule votes_count_kept[OF assms(3)])
  have "v = x + stake a" if "safe_add F x (stake a) = Some v" for x v using safe_add_SomeD[OF that] by simp
  note w = witness_moved[OF assms(2) this]
  note c = voted_create[OF assms(1)]
  show "votes_ok d2"
    by (rule vote_moved[OF assms(4,5,6), where j = j and c = 1])
       (use w c vote_frameD(2,5,7)[OF w(1)] in \<open>simp_all add: recorded_def get_witness_id_def\<close>)
qed

lemma vote_withdrawn:
  assumes "(if h then adjust_witness_vote F j (- stake a) d else modify_witness_id j (\<lambda>w. do {
       v \<leftarrow> safe_sub F (wit_votes w) (stake a); Some (w\<lparr>wit_votes := v\<rparr>) }) d) = Some d1"
    "modify_account n (\<lambda>a. Some (a\<lparr>acc_witnesses_voted_for := g a\<rparr>)) d1 = Some d2"
    "List.find (\<lambda>v. wvo_account v = acc_id a \<and> wvo_witness v = j) (db_witness_votes d) = Some x"
    "votes_ok d" "find_account n d = Some a" "acc_proxy a = []"
  shows "votes_ok (remove_witness_vote (acc_id a) j d2)"
proof -
  let ?vs = "tbl_remove (\<lambda>v. wvo_account v = acc_id a \<and> wvo_witness v = j) (db_witness_votes d)"
  have "v = y + - stake a" if "safe_sub F y (stake a) = Some v" for y v using safe_sub_SomeD[OF that] by simp
  note w = witness_moved[OF assms(1) this]
  note fr = vote_frameD(1,2,7)[OF w(1)]
  have "votes_ok (d1\<lparr>db_witness_votes := ?vs\<rparr>)"
    by (rule vote_moved[OF assms(4,5,6), where j = j and c = "- 1"])
       (use w(2,3) fr voted_remove[OF assms(3)] in \<open>simp_all add: recorded_def get_witness_id_def voted_def\<close>)
  from votes_count_kept[OF modify_account_other_votes[OF assms(2)] this]
  have "votes_ok (d2\<lparr>db_witness_votes := ?vs\<rparr>)" .
  moreover have "db_witness_votes d2 = db_witness_votes d"
    using assms(2) fr(1) by (auto simp: modify_account_def bind_Some_iff)
  ultimately show ?thesis by (simp add: remove_witness_vote_def)
qed

lemma accountWitnessVote_votes:
  assumes "accountWitnessVote_do_apply F op d = Some d'" "votes_ok d" "has_hardfork 2 d \<longrightarrow> has_hardfork 3 d"
  shows "votes_ok d'"
proof -
  let ?n = "wv_account op"
  from assms(1) obtain a w where a: "find_account ?n d = Some a" "acc_proxy a = []" and w: "get_witness (wv_witness op) d = Some w"
    by (auto simp: accountWitnessVote_do_apply_def bind_Some_iff get_account_def)
  let ?find = "List.find (\<lambda>v. wvo_account v = acc_id a \<and> wvo_witness v = wit_id w) (db_witness_votes d)"
  show ?thesis
  proof (cases ?find)
    case None
    with assms(1) a w assms(3) obtain d1 weight d2 where
      d1: "create_witness_vote \<lparr>wvo_id = 0, wvo_witness = wit_id w, wvo_account = acc_id a\<rparr> d = Some d1" and
      weight: "witness_vote_weight F a = Some weight" and
      d2: "(if has_hardfork 2 d then adjust_witness_vote F (wit_id w) weight d1 else modify_witness_id (wit_id w) (\<lambda>w. do {
         v \<leftarrow> safe_add F (wit_votes w) weight; Some (w\<lparr>wit_votes := v\<rparr>) }) d1) = Some d2" and
      d': "modify_account ?n (\<lambda>a. Some (a\<lparr>acc_witnesses_voted_for := (acc_witnesses_voted_for a + 1) mod 2 ^ 16\<rparr>)) d2 = Some d'"
      unfolding accountWitnessVote_do_apply_def
      by (auto simp: bind_Some_iff get_account_def split: if_splits)
    show ?thesis by (rule vote_approved[OF d1 d2[unfolded weight_stake[OF weight]] d' assms(2) a])
  next
    case (Some x)
    with assms(1) a w assms(3) obtain weight d1 d2 where
      weight: "witness_vote_weight F a = Some weight" and
      d1: "(if has_hardfork 2 d then adjust_witness_vote F (wit_id w) (- weight) d else modify_witness_id (wit_id w) (\<lambda>w. do {
         v \<leftarrow> safe_sub F (wit_votes w) weight; Some (w\<lparr>wit_votes := v\<rparr>) }) d) = Some d1" and
      d2: "modify_account ?n (\<lambda>a. Some (a\<lparr>acc_witnesses_voted_for := (acc_witnesses_voted_for a - 1) mod 2 ^ 16\<rparr>)) d1 = Some d2" and
      d': "d' = remove_witness_vote (acc_id a) (wit_id w) d2"
      unfolding accountWitnessVote_do_apply_def
      by (cases "has_hardfork 2 d") (auto simp: bind_Some_iff get_account_def dest!: safe_neg_SomeD)
    show ?thesis unfolding d' by (rule vote_withdrawn[OF d1[unfolded weight_stake[OF weight]] d2 Some assms(2) a])
  qed
qed

text \<open>An account whose declined voting rights become effective.\<close>

lemma declined_votes:
  assumes "get_account_id i d = Some a" "removed_votes F a = Some delta"
    "adjust_proxied_witness_votes F (acc_name a) delta 0 d = Some d1" "clear_witness_votes (acc_name a) d1 = Some d2"
    "modify_account (acc_name a) (\<lambda>a. Some (a\<lparr>acc_can_vote := False, acc_proxy := []\<rparr>)) d2 = Some d3" "votes_ok d"
  shows "votes_ok d3"
proof -
  have vo: "voters_ok d" "acyclic (proxy_rel d)" using assms(6) by (simp_all add: votes_ok_def)
  have "a \<in> set (db_accounts d)" using assms(1) find_Some_P by (fastforce simp: get_account_id_def)
  then have a: "find_account (acc_name a) d = Some a"
    using find_unique[of acc_name "db_accounts d" a] vo(1) by (simp add: find_account_def voters_ok_def)
  note l = leave_votes[OF assms(2,3) vo a]
  note lf = vote_frameD(2,5,7)[OF l(2)] proxy_rel_frame[OF l(2)]
  note c = clear_witness_votes_spec[OF assms(4) l(1,3)]
  from c(5) obtain k where k: "find_account (acc_name a) d2 = Some (a\<lparr>acc_witnesses_voted_for := k\<rparr>)" by blast
  from c(6) obtain as vs where d2: "d2 = d1\<lparr>db_accounts := as, db_witness_votes := vs\<rparr>" by blast
  note f = modify_account_votes[OF assms(5) c(1) k, simplified]
  obtain bs where d3: "d3 = d2\<lparr>db_accounts := bs\<rparr>" using f(6) by blast
  show ?thesis
  proof (rule votes_ok_step[OF assms(6) f(1)])
    have "proxy_rel d3 \<subseteq> proxy_rel d"
      using proxy_rel_modify(2)[OF assms(5) k] clear_witness_votes_proxies[OF assms(4)] lf(4) by simp
    then show "acyclic (proxy_rel d3)" by (rule acyclic_subset[OF vo(2)])
    show "excess d3 j = excess d j" for j using f(2)[of j] c(2,4)[of j] l(4)[of j] lf(2) by simp
    have "acct_votes (a\<lparr>acc_witnesses_voted_for := k\<rparr>) = acct_votes a" by (simp add: acct_votes_def)
    moreover have "acct_votes (a\<lparr>acc_witnesses_voted_for := k, acc_can_vote := False, acc_proxy := []\<rparr>) = stake a"
      by (simp add: acct_votes_def stake_def)
    ultimately show "total_votes d3 = total_votes d" using f(3) c(3) l(5) by simp
  qed (use lf in \<open>simp_all add: d2 d3\<close>)
qed

end

lemma adjust_each_declines: "adjust_each F vs delta d = Some d' \<Longrightarrow> db_declines d' = db_declines d"
  by (induction vs arbitrary: d)
     (fastforce simp: adjust_witness_vote_def modify_witness_id_def Let_def bind_Some_iff)+

lemma modify_account_declines: "modify_account n f d = Some d' \<Longrightarrow> db_declines d' = db_declines d"
  by (auto simp: modify_account_def bind_Some_iff)

lemma adjust_proxied_declines:
  "adjust_proxied_witness_votes F n delta k d = Some d' \<Longrightarrow> db_declines d' = db_declines d"
proof (induction "5 - k" arbitrary: n k d)
  case 0
  from 0(2)[unfolded adjust_proxied_witness_votes.simps[of F n delta k d]] 0(1) show ?case
    by (auto simp: bind_Some_iff adjust_witness_votes_def MAX_PROXY_RECURSION_DEPTH_def split: if_splits
         dest: adjust_each_declines)
next
  case (Suc x)
  have "db_declines d' = db_declines d1"
    if "adjust_proxied_witness_votes F m delta (Suc k) d1 = Some d'" for m d1
    using Suc(1)[OF _ that] Suc(2) by simp
  with Suc(3)[unfolded adjust_proxied_witness_votes.simps[of F n delta k d]] show ?case
    by (auto simp: bind_Some_iff adjust_witness_votes_def split: if_splits
         dest: adjust_each_declines modify_account_declines)
qed

lemma clear_witness_votes_declines: "clear_witness_votes n d = Some d' \<Longrightarrow> db_declines d' = db_declines d"
  by (auto simp: clear_witness_votes_def bind_Some_iff Let_def split: if_splits dest!: modify_account_declines)

interpretation decline_queue: due_queue "declines_loop F" db_declines dvr_order
  "\<lambda>d r. dvr_effective_date r \<le> head_block_time d"
  "\<lambda>r d. do {
     account \<leftarrow> get_account_id (dvr_account r) d;
     delta \<leftarrow> removed_votes F account;
     d1 \<leftarrow> adjust_proxied_witness_votes F (acc_name account) delta 0 d;
     d2 \<leftarrow> clear_witness_votes (acc_name account) d1;
     d3 \<leftarrow> modify_account (acc_name account) (\<lambda>a. Some (a\<lparr>acc_can_vote := False, acc_proxy := []\<rparr>)) d2;
     Some (d3\<lparr>db_declines := tbl_remove (\<lambda>x. dvr_account x = dvr_account r) (db_declines d3)\<rparr>) }" for F
proof (unfold_locales, goal_cases)
  case (2 n d)
  then show ?case by (auto split: option.splits)
next
  case (4 r d d')
  then obtain a :: account_object and delta d1 d2 d3 where s: "adjust_proxied_witness_votes F (acc_name a) delta 0 d = Some d1"
    "clear_witness_votes (acc_name a) d1 = Some d2"
    "modify_account (acc_name a) (\<lambda>a. Some (a\<lparr>acc_can_vote := False, acc_proxy := []\<rparr>)) d2 = Some d3"
    and d': "d3\<lparr>db_declines := tbl_remove (\<lambda>x. dvr_account x = dvr_account r) (db_declines d3)\<rparr> = d'"
    by (simp only: bind_Some_iff option.inject) (elim exE conjE, rule that, assumption+)
  have "db_declines d3 = db_declines d"
    using adjust_proxied_declines[OF s(1)] clear_witness_votes_declines[OF s(2)] modify_account_declines[OF s(3)] by simp
  then show ?case using 4(1) by (simp add: length_tbl_remove_less flip: d')
qed (auto simp: dvr_order_def)

subsection \<open>Voting as a whole\<close>

text \<open>The steps that move votes: the three evaluators, on operations that pass their validation, and the
  clean-up of declined rights.  The vote evaluator did not move exactly the weight of the vote between
  hardforks 2 and 3, where it went through the proxies once more.\<close>

inductive voting_step :: "fc_lib \<Rightarrow> chain_db \<Rightarrow> chain_db \<Rightarrow> bool" for F where
  set_proxy: "account_witness_proxy_validate op = Some () \<Longrightarrow>
    account_witness_proxy_do_apply F op d = Some d' \<Longrightarrow> voting_step F d d'"
| vote: "(has_hardfork 2 d \<longrightarrow> has_hardfork 3 d) \<Longrightarrow>
    accountWitnessVote_do_apply F op' d = Some d' \<Longrightarrow> voting_step F d d'"
| decline: "decline_voting_rights_do_apply F op'' d = Some d' \<Longrightarrow> voting_step F d d'"
| declined: "process_decline_voting_rights F d = Some d' \<Longrightarrow> voting_step F d d'"

lemma votes_ok_other:
  "votes_ok (d\<lparr>db_declines := x\<rparr>) = votes_ok d" "votes_ok (take_id t d) = votes_ok d"
  by (simp_all add: votes_ok_def voters_ok_def voted_def total_votes_def tally_def proxy_rel_def find_account_def take_id_def)

lemma decline_voting_rights_votes:
  assumes "decline_voting_rights_do_apply F op d = Some d'" "votes_ok d"
  shows "votes_ok d'"
proof (cases "dv_decline op")
  case True
  with assms(1) obtain r where "create_decline r d = Some d'"
    by (auto simp: decline_voting_rights_do_apply_def bind_Some_iff Let_def)
  then show ?thesis using assms(2) by (auto simp: create_decline_def bind_Some_iff votes_ok_other)
next
  case False
  with assms(1) obtain x where "d\<lparr>db_declines := x\<rparr> = d'"
    by (auto simp: decline_voting_rights_do_apply_def bind_Some_iff Let_def)
  then show ?thesis using assms(2) votes_ok_other(1) by blast
qed

context fc_safe
begin

lemma process_decline_votes:
  assumes "process_decline_voting_rights F d = Some d'" "votes_ok d"
  shows "votes_ok d'"
proof (rule decline_queue.loop_inv[where I = votes_ok, OF _ assms(1)[unfolded process_decline_voting_rights_def] assms(2)], goal_cases)
  case (1 r d d')
  then obtain a :: account_object and delta d1 d2 d3 where
    "get_account_id (dvr_account r) d = Some a" "removed_votes F a = Some delta"
    "adjust_proxied_witness_votes F (acc_name a) delta 0 d = Some d1" "clear_witness_votes (acc_name a) d1 = Some d2"
    "modify_account (acc_name a) (\<lambda>a. Some (a\<lparr>acc_can_vote := False, acc_proxy := []\<rparr>)) d2 = Some d3"
    and d': "d3\<lparr>db_declines := tbl_remove (\<lambda>x. dvr_account x = dvr_account r) (db_declines d3)\<rparr> = d'"
    by (simp only: bind_Some_iff option.inject) (elim exE conjE, rule that, assumption+)
  from declined_votes[OF this(1-5) 1(1)] show ?case by (simp add: votes_ok_other flip: d')
qed

lemma voting_step_votes: "voting_step F d d' \<Longrightarrow> votes_ok d \<Longrightarrow> votes_ok d'"
  by (induction rule: voting_step.induct)
     (auto simp: account_witness_proxy_validate_def bind_Some_iff split: if_splits
       intro: account_witness_proxy_votes accountWitnessVote_votes decline_voting_rights_votes process_decline_votes)

end

text \<open>C23. Starting from a state in which every witness has exactly the stake that stands behind it, in
  which the votes of all accounts add up to the total of the chain and in which proxies form no loop,
  every sequence of proxy changes, votes, declined voting rights and their clean-up leads to such a
  state again.\<close>

theorem voting_invariant:
  assumes "fc_safe F" and "votes_ok d" and "(voting_step F)\<^sup>*\<^sup>* d d'"
  shows "votes_ok d'"
  using assms(3,2) by (induction rule: rtranclp_induct) (auto intro: fc_safe.voting_step_votes[OF assms(1)])

definition example_voted :: chain_db where
  "example_voted = example_db\<lparr>
     db_accounts := [(example_account 0 ''alice'' 1000 500 1000000)\<lparr>acc_witnesses_voted_for := 1\<rparr>,
       example_account 1 ''bob'' 1000 0 2000000, example_account 2 ''carol'' 0 0 3000000],
     db_witnesses := [(example_witness 0 ''alice'' 1000000)\<lparr>wit_virtual_scheduled_time := (2 ^ 128 - 1) div 1000001\<rparr>],
     db_witness_votes := [\<lparr>wvo_id = 10, wvo_witness = 0, wvo_account = 0\<rparr>],
     db_next_id := (\<lambda>_. 10)(witness_vote_object_type := 11)\<rparr>"

definition example_proxied :: chain_db where
  "example_proxied = example_voted\<lparr>
     db_accounts := [(example_account 0 ''alice'' 1000 500 1000000)\<lparr>acc_witnesses_voted_for := 1,
         acc_proxied_votes := [2000000, 0, 0, 0]\<rparr>,
       (example_account 1 ''bob'' 1000 0 2000000)\<lparr>acc_proxy := ''alice''\<rparr>, example_account 2 ''carol'' 0 0 3000000],
     db_witnesses := [(example_witness 0 ''alice'' 3000000)\<lparr>wit_virtual_scheduled_time := (2 ^ 128 - 1) div 3000001\<rparr>]\<rparr>"

lemmas vote_eval = get_account_def find_account_def get_witness_def find_witness_def get_witness_id_def has_hardfork_def
  create_witness_vote_def tbl_emplace_def take_id_def witness_vote_weight_def adjust_witness_vote_def modify_witness_id_def
  modify_account_def int64_def wrap64_def VIRTUAL_SCHEDULE_LAP_LENGTH2_def MAX_accountWitnessVoteS_def removed_votes_def
  clear_witness_votes_def adjust_witness_votes_def votes_of_def idx_sorted_def MAX_PROXY_RECURSION_DEPTH_def upt_rec
  adjust_proxied_witness_votes.simps[of _ _ _ 0] adjust_proxied_witness_votes.simps[of _ _ _ "Suc 0"]

lemma example_votes_ok: "votes_ok example_db"
proof -
  have "proxy_rel example_db = {}" by (auto simp: proxy_rel_def find_account_def example_defs split: if_splits)
  then show ?thesis
    by (simp add: votes_ok_def acyclic_def)
       (simp add: voters_ok_def voted_def total_votes_def tally_def acct_votes_def stake_def example_defs)
qed

theorem voting_invariant_witness:
  "votes_ok example_db \<and> (voting_step fc_exact)\<^sup>*\<^sup>* example_db example_proxied \<and> votes_ok example_proxied \<and>
   map wit_votes (db_witnesses example_proxied) = [3000000] \<and> proxy_rel example_proxied \<noteq> {}"
proof -
  have "accountWitnessVote_do_apply fc_exact \<lparr>wv_account = ''alice'', wv_witness = ''alice'', wv_approve = True\<rparr>
      example_db = Some example_voted"
    by (simp add: accountWitnessVote_do_apply_def vote_eval example_defs example_voted_def)
  then have 1: "voting_step fc_exact example_db example_voted"
    by (rule voting_step.vote[rotated]) (simp add: has_hardfork_def example_defs)
  have v: "account_witness_proxy_validate \<lparr>wp_account = ''bob'', wp_proxy = ''alice''\<rparr> = Some ()" by code_simp
  have "account_witness_proxy_do_apply fc_exact \<lparr>wp_account = ''bob'', wp_proxy = ''alice''\<rparr> example_voted
      = Some example_proxied"
    by (simp add: account_witness_proxy_do_apply_def vote_eval example_defs example_voted_def example_proxied_def)
  from voting_step.set_proxy[OF v this] 1 have s: "(voting_step fc_exact)\<^sup>*\<^sup>* example_db example_proxied" by simp
  have "(''bob'', ''alice'') \<in> proxy_rel example_proxied"
    by (simp add: proxy_rel_def find_account_def example_proxied_def example_defs)
  moreover have "map wit_votes (db_witnesses example_proxied) = [3000000]"
    by (simp add: example_proxied_def example_defs)
  ultimately show ?thesis using s example_votes_ok voting_invariant[OF fc_exact.fc_safe_axioms example_votes_ok s] by auto
qed

text \<open>When the clean-up of declined voting rights returns, no request whose date has come is left.\<close>

theorem process_decline_done:
  assumes "process_decline_voting_rights F d = Some d'"
  shows "\<forall>r \<in> set (db_declines d'). head_block_time d' < dvr_effective_date r"
  using decline_queue.loop_done[OF assms[unfolded process_decline_voting_rights_def]] by (simp add: not_le)

definition example_declining :: chain_db where
  "example_declining = example_voted\<lparr>db_declines := [\<lparr>dvr_id = 0, dvr_account = 0, dvr_effective_date = 900\<rparr>,
     \<lparr>dvr_id = 1, dvr_account = 1, dvr_effective_date = 1001\<rparr>]\<rparr>"

definition example_declined :: chain_db where
  "example_declined = example_declining\<lparr>
     db_accounts := [(example_account 0 ''alice'' 1000 500 1000000)\<lparr>acc_can_vote := False\<rparr>,
       example_account 1 ''bob'' 1000 0 2000000, example_account 2 ''carol'' 0 0 3000000],
     db_witnesses := [(example_witness 0 ''alice'' 0)\<lparr>wit_virtual_scheduled_time := 2 ^ 128 - 1\<rparr>],
     db_witness_votes := [], db_declines := [\<lparr>dvr_id = 1, dvr_account = 1, dvr_effective_date = 1001\<rparr>]\<rparr>"

theorem process_decline_done_witness:
  "process_decline_voting_rights fc_exact example_declining = Some example_declined \<and>
   map dvr_account (db_declines example_declined) = [1] \<and>
   list_all (\<lambda>r. head_block_time example_declined < dvr_effective_date r) (db_declines example_declined)"
proof -
  have 1: "declines_loop fc_exact (Suc (Suc 0)) example_declining = declines_loop fc_exact (Suc 0) example_declined"
    by (subst declines_loop.simps(2))
       (simp add: example_declining_def example_declined_def idx_begin_def dvr_order_def head_block_time_def
         get_account_id_def vote_eval example_defs example_voted_def del: declines_loop.simps)
  have 2: "declines_loop fc_exact (Suc 0) example_declined = Some example_declined"
    by (subst declines_loop.simps(2))
       (simp add: example_declined_def example_declining_def example_defs example_voted_def idx_begin_def idx_sorted_def
         dvr_order_def head_block_time_def del: declines_loop.simps)
  have "length (db_declines example_declining) = Suc (Suc 0)" by (simp add: example_declining_def)
  with 1 2 have r: "process_decline_voting_rights fc_exact example_declining = Some example_declined"
    by (simp only: process_decline_voting_rights_def)
  moreover have "map dvr_account (db_declines example_declined) = [1]" by (simp add: example_declined_def)
  ultimately show ?thesis using process_decline_done[OF r] by (simp add: list_all_iff)
qed

end
