(* ===== verification/Score.thy ===== *)
theory Score
  imports Proxies Transfers
begin

text \<open>
  SCORE, the staked form of TME (\<open>libraries/chain/database.cpp\<close>: \<open>create_TSD\<close>,
  \<open>createTMEfundForSCORE\<close>, \<open>process_TME_fund_for_SCORE_withdrawals\<close>;
  \<open>libraries/chain/node_evaluator.cpp\<close>: the evaluators that stake, withdraw, route and claim).

  Whoever stakes TME gets SCORE at the price of the fund; SCORE is paid back in weekly steps, to the
  account itself or along its withdraw routes.  Shown here: none of this creates or destroys funds,
  the tallies of the witnesses follow every change of stake, and routes never hand out more than
  what is withdrawn.
\<close>

definition TME_fund_for_SCORE_WITHDRAW_INTERVALS_PRE_HF_16 :: int where
  "TME_fund_for_SCORE_WITHDRAW_INTERVALS_PRE_HF_16 = 104"
definition TME_fund_for_SCORE_WITHDRAW_INTERVALS :: int where "TME_fund_for_SCORE_WITHDRAW_INTERVALS = 4"
definition SCORE_WITHDRAW_INTERVAL_SECONDS :: int where "SCORE_WITHDRAW_INTERVAL_SECONDS = 60 * 60 * 24 * 7"
definition MAX_WITHDRAW_ROUTES :: int where "MAX_WITHDRAW_ROUTES = 10"

subsection \<open>Creating TSD and SCORE\<close>

definition create_TSD :: "fc_lib \<Rightarrow> account_name_type \<Rightarrow> asset \<Rightarrow> bool \<Rightarrow> chain_db \<Rightarrow> ((asset \<times> asset) \<times> chain_db) option" where
  "create_TSD F n coin to_reward_balance d =
     (if amount coin = 0 then Some ((mk_asset 0 SYMBOL_USD, mk_asset 0 SYMBOL_COIN), d)
      else if \<not> price_is_null F (median_price d) then do {
        p \<leftarrow> safe_mul F (gpo_TSD_print_rate (db_gpo d)) (amount coin);
        to_TSD \<leftarrow> safe_div F p PERCENT_100;
        to_TME \<leftarrow> safe_sub F (amount coin) to_TSD;
        usd \<leftarrow> asset_mul_price F (mk_asset to_TSD SYMBOL_COIN) (median_price d);
        let adjust = (if to_reward_balance then adjust_reward_balance F else adjust_balance F);
        d1 \<leftarrow> adjust n usd d;
        d2 \<leftarrow> adjust n (mk_asset to_TME SYMBOL_COIN) d1;
        neg \<leftarrow> safe_neg F to_TSD;
        d3 \<leftarrow> adjust_supply F (mk_asset neg SYMBOL_COIN) False d2;
        d4 \<leftarrow> adjust_supply F usd False d3;
        Some ((usd, mk_asset to_TME SYMBOL_COIN), d4) }
      else do {
        d1 \<leftarrow> adjust_balance F n coin d;
        Some ((mk_asset 0 SYMBOL_USD, coin), d1) })"

definition createTMEfundForSCORE :: "fc_lib \<Rightarrow> account_name_type \<Rightarrow> asset \<Rightarrow> bool \<Rightarrow> chain_db \<Rightarrow> (asset \<times> chain_db) option" where
  "createTMEfundForSCORE F n coin to_reward_balance d = do {
     price \<leftarrow> (if to_reward_balance then get_SCOREreward_price F (db_gpo d) else Some (get_SCORE_price (db_gpo d)));
     newSCORE \<leftarrow> asset_mul_price F coin price;
     d1 \<leftarrow> modify_account n (\<lambda>to.
        if to_reward_balance then do {
          r \<leftarrow> asset_add F (acc_SCORErewardBalance to) newSCORE;
          t \<leftarrow> asset_add F (acc_SCORErewardBalanceInTME to) coin;
          Some (to\<lparr>acc_SCORErewardBalance := r, acc_SCORErewardBalanceInTME := t\<rparr>) }
        else do {
          s \<leftarrow> asset_add F (acc_SCORE to) newSCORE;
          Some (to\<lparr>acc_SCORE := s\<rparr>) }) d;
     d2 \<leftarrow> modify_gpo (\<lambda>g.
        if to_reward_balance then do {
          r \<leftarrow> asset_add F (gpo_pending_rewarded_SCORE g) newSCORE;
          t \<leftarrow> asset_add F (gpo_pending_rewarded_SCOREvalueInTME g) coin;
          Some (g\<lparr>gpo_pending_rewarded_SCORE := r, gpo_pending_rewarded_SCOREvalueInTME := t\<rparr>) }
        else do {
          t \<leftarrow> asset_add F (gpo_totalTMEfundForSCORE g) coin;
          s \<leftarrow> asset_add F (gpo_totalSCORE g) newSCORE;
          Some (g\<lparr>gpo_totalTMEfundForSCORE := t, gpo_totalSCORE := s\<rparr>) }) d1;
     d3 \<leftarrow> (if \<not> to_reward_balance then adjust_proxied_witness_vote F n (amount newSCORE) 0 d2 else Some d2);
     Some (newSCORE, d3) }"

definition transferTMEtoSCOREfund_do_apply ::
  "fc_lib \<Rightarrow> transferTMEtoSCOREfund_operation \<Rightarrow> chain_db \<Rightarrow> chain_db option" where
  "transferTMEtoSCOREfund_do_apply F op d = do {
     from_account \<leftarrow> get_account (tf_from op) d;
     to_account \<leftarrow> (if tf_to op \<noteq> [] then get_account (tf_to op) d else Some from_account);
     bal \<leftarrow> get_balance from_account SYMBOL_COIN;
     FC_ASSERT_opt (asset_ge bal (tf_amount op));
     neg \<leftarrow> asset_neg F (tf_amount op);
     d1 \<leftarrow> adjust_balance F (tf_from op) neg d;
     (_, d2) \<leftarrow> createTMEfundForSCORE F (acc_name to_account) (tf_amount op) False d1;
     Some d2 }"

subsection \<open>Withdrawing SCORE\<close>

definition withdrawSCORE_do_apply :: "fc_lib \<Rightarrow> withdrawSCORE_operation \<Rightarrow> chain_db \<Rightarrow> chain_db option" where
  "withdrawSCORE_do_apply F op d = do {
     account \<leftarrow> get_account (ws_account op) d;
     if amount (ws_SCORE op) < 0 then do {
       FC_ASSERT (\<not> head_block_num d > 23847548);
       Some d }
     else do {
       FC_ASSERT_opt (asset_ge (acc_SCORE account) (mk_asset 0 SYMBOL_SCORE));
       own \<leftarrow> asset_sub F (acc_SCORE account) (acc_SCOREDelegated account);
       FC_ASSERT_opt (asset_ge own (ws_SCORE op));
       (if \<not> acc_mined account \<and> has_hardfork 1 d then do {
          fee \<leftarrow> asset_mul_price F (cp_account_creation_fee (wso_median_props (db_wso d))) (get_SCORE_price (db_gpo d));
          let min_SCORE = fee\<lparr>amount := wrap64 (amount fee * 10)\<rparr>;
          enough \<leftarrow> asset_gt (acc_SCORE account) min_SCORE;
          FC_ASSERT (enough \<or> (has_hardfork 16 d \<and> amount (ws_SCORE op) = 0)) }
        else Some ());
       if amount (ws_SCORE op) = 0 then do {
         (if has_hardfork 5 d then FC_ASSERT (amount (acc_SCOREwithdrawRateInTME account) \<noteq> 0) else Some ());
         modify_account (ws_account op) (\<lambda>a. Some (a\<lparr>acc_SCOREwithdrawRateInTME := mk_asset 0 SYMBOL_SCORE,
            acc_nextSCOREwithdrawalTime := secs_max F, acc_to_withdraw := 0, acc_withdrawn := 0\<rparr>)) d }
       else do {
         let intervals = (if has_hardfork 16 d then TME_fund_for_SCORE_WITHDRAW_INTERVALS
                          else TME_fund_for_SCORE_WITHDRAW_INTERVALS_PRE_HF_16);
         modify_account (ws_account op) (\<lambda>a. do {
            q \<leftarrow> safe_div F (amount (ws_SCORE op)) intervals;
            let rate = mk_asset (if q = 0 then 1 else q) SYMBOL_SCORE;
            (if has_hardfork 5 d then FC_ASSERT (\<not> asset_eq (acc_SCOREwithdrawRateInTME account) rate) else Some ());
            Some (a\<lparr>acc_SCOREwithdrawRateInTME := rate,
               acc_nextSCOREwithdrawalTime := secs_add F (head_block_time d) SCORE_WITHDRAW_INTERVAL_SECONDS,
               acc_to_withdraw := amount (ws_SCORE op), acc_withdrawn := 0\<rparr>) }) d } } }"

subsection \<open>Withdraw routes\<close>

text \<open>The routes of an account, from \<open>upper_bound( from, account_id_type() )\<close> on: in the order of the
  destination, and without a destination whose id is 0.\<close>

definition wro_key :: "withdrawSCORE_route_object \<Rightarrow> nat \<times> nat" where
  "wro_key r = (wro_from_account r, wro_to_account r)"

definition routes_of :: "nat \<Rightarrow> chain_db \<Rightarrow> withdrawSCORE_route_object list" where
  "routes_of i d = takeWhile (\<lambda>r. wro_from_account r = i) (filter (\<lambda>r. (i, 0) < wro_key r) (idx_sorted wro_key (db_routes d)))"

fun total_percent :: "int \<Rightarrow> withdrawSCORE_route_object list \<Rightarrow> int" where
  "total_percent t [] = t"
| "total_percent t (r # rs) = total_percent ((t + wro_percent r) mod 2 ^ 16) rs"

definition setWithdrawSCOREasTMEroute_do_apply ::
  "setWithdrawSCOREasTMEroute_operation \<Rightarrow> chain_db \<Rightarrow> chain_db option" where
  "setWithdrawSCOREasTMEroute_do_apply op d = do {
     from_account \<leftarrow> get_account (wr_from_account op) d;
     to_account \<leftarrow> get_account (wr_to_account op) d;
     let k = (acc_id from_account, acc_id to_account);
     d1 \<leftarrow> (case List.find (\<lambda>r. wro_key r = k) (db_routes d) of
        None \<Rightarrow> do {
          FC_ASSERT (wr_percent op \<noteq> 0);
          FC_ASSERT (acc_withdraw_routes from_account < MAX_WITHDRAW_ROUTES);
          d1 \<leftarrow> create_route \<lparr>wro_id = 0, wro_from_account = acc_id from_account, wro_to_account = acc_id to_account,
                  wro_percent = wr_percent op, wro_autoSCORE = wr_autoSCORE op\<rparr> d;
          modify_account (wr_from_account op) (\<lambda>a. Some (a\<lparr>acc_withdraw_routes := (acc_withdraw_routes a + 1) mod 2 ^ 16\<rparr>)) d1 }
      | Some _ \<Rightarrow>
          if wr_percent op = 0 then
            modify_account (wr_from_account op) (\<lambda>a. Some (a\<lparr>acc_withdraw_routes := (acc_withdraw_routes a - 1) mod 2 ^ 16\<rparr>))
              (d\<lparr>db_routes := tbl_remove (\<lambda>r. wro_key r = k) (db_routes d)\<rparr>)
          else do {
            rs \<leftarrow> tbl_modify (\<lambda>r. wro_key r = k) (\<lambda>r. Some (r\<lparr>wro_from_account := acc_id from_account,
                    wro_to_account := acc_id to_account, wro_percent := wr_percent op, wro_autoSCORE := wr_autoSCORE op\<rparr>))
                  (db_routes d);
            Some (d\<lparr>db_routes := rs\<rparr>) });
     FC_ASSERT (total_percent 0 (routes_of (acc_id from_account) d1) \<le> PERCENT_100);
     Some d1 }"

subsection \<open>The weekly withdrawals\<close>

definition withdrawal_order :: "account_object \<Rightarrow> time \<times> nat" where
  "withdrawal_order a = (acc_nextSCOREwithdrawalTime a, acc_id a)"

text \<open>What an account withdraws this time, and the share of it that goes along a route.\<close>

definition withdrawn_now :: "fc_lib \<Rightarrow> account_object \<Rightarrow> int option" where
  "withdrawn_now F a = do {
     rest \<leftarrow> safe_sub F (acc_to_withdraw a) (acc_withdrawn a);
     if rest < amount (acc_SCOREwithdrawRateInTME a) then do {
       m \<leftarrow> safe_mod F (acc_to_withdraw a) (amount (acc_SCOREwithdrawRateInTME a));
       Some (min (amount (acc_SCORE a)) m) }
     else Some (min (amount (acc_SCORE a)) (amount (acc_SCOREwithdrawRateInTME a))) }"

definition route_share :: "fc_lib \<Rightarrow> int \<Rightarrow> withdrawSCORE_route_object \<Rightarrow> int option" where
  "route_share F to_withdraw r = do {
     q \<leftarrow> u128_div F (u128_mul F (u128_of F to_withdraw) (u128_of F (wro_percent r))) (u128_of F PERCENT_100);
     v \<leftarrow> u128_to_uint64 F q;
     Some (int64_of_uint64 v) }"

text \<open>The two passes over the routes; the second element of the result is what was deposited.\<close>

fun deposit_SCORE :: "fc_lib \<Rightarrow> int \<Rightarrow> withdrawSCORE_route_object list \<Rightarrow> int \<Rightarrow> chain_db \<Rightarrow> (chain_db \<times> int) option" where
  "deposit_SCORE F to_withdraw [] deposited d = Some (d, deposited)"
| "deposit_SCORE F to_withdraw (r # rs) deposited d =
     (if wro_autoSCORE r then do {
        to_deposit \<leftarrow> route_share F to_withdraw r;
        deposited' \<leftarrow> safe_add F deposited to_deposit;
        d2 \<leftarrow> (if to_deposit > 0 then do {
                to_account \<leftarrow> get_account_id (wro_to_account r) d;
                d1 \<leftarrow> modify_account (acc_name to_account) (\<lambda>a. do {
                        s \<leftarrow> safe_add F (amount (acc_SCORE a)) to_deposit;
                        Some (a\<lparr>acc_SCORE := (acc_SCORE a)\<lparr>amount := s\<rparr>\<rparr>) }) d;
                adjust_proxied_witness_vote F (acc_name to_account) to_deposit 0 d1 }
              else Some d);
        deposit_SCORE F to_withdraw rs deposited' d2 }
      else deposit_SCORE F to_withdraw rs deposited d)"

definition pay_from_fund :: "fc_lib \<Rightarrow> asset \<Rightarrow> int \<Rightarrow> chain_db \<Rightarrow> chain_db option" where
  "pay_from_fund F converted score d = modify_gpo (\<lambda>g. do {
     t \<leftarrow> asset_sub F (gpo_totalTMEfundForSCORE g) converted;
     s \<leftarrow> safe_sub F (amount (gpo_totalSCORE g)) score;
     Some (g\<lparr>gpo_totalTMEfundForSCORE := t, gpo_totalSCORE := (gpo_totalSCORE g)\<lparr>amount := s\<rparr>\<rparr>) }) d"

fun deposit_TME ::
  "fc_lib \<Rightarrow> int \<Rightarrow> withdrawSCORE_route_object list \<Rightarrow> int \<Rightarrow> asset \<Rightarrow> chain_db \<Rightarrow> (chain_db \<times> int) option" where
  "deposit_TME F to_withdraw [] deposited total_converted d = Some (d, deposited)"
| "deposit_TME F to_withdraw (r # rs) deposited total_converted d =
     (if \<not> wro_autoSCORE r then do {
        to_account \<leftarrow> get_account_id (wro_to_account r) d;
        to_deposit \<leftarrow> route_share F to_withdraw r;
        deposited' \<leftarrow> safe_add F deposited to_deposit;
        converted \<leftarrow> asset_mul_price F (mk_asset to_deposit SYMBOL_SCORE) (get_SCORE_price (db_gpo d));
        total_converted' \<leftarrow> asset_add F total_converted converted;
        d2 \<leftarrow> (if to_deposit > 0 then do {
                d1 \<leftarrow> modify_account (acc_name to_account) (\<lambda>a. do {
                        b \<leftarrow> asset_add F (acc_balance a) converted;
                        Some (a\<lparr>acc_balance := b\<rparr>) }) d;
                pay_from_fund F converted to_deposit d1 }
              else Some d);
        deposit_TME F to_withdraw rs deposited' total_converted' d2 }
      else deposit_TME F to_withdraw rs deposited total_converted d)"

definition settle :: "fc_lib \<Rightarrow> int \<Rightarrow> asset \<Rightarrow> account_object \<Rightarrow> account_object option" where
  "settle F to_withdraw converted a = do {
     s \<leftarrow> safe_sub F (amount (acc_SCORE a)) to_withdraw;
     b \<leftarrow> asset_add F (acc_balance a) converted;
     w \<leftarrow> safe_add F (acc_withdrawn a) to_withdraw;
     let a1 = a\<lparr>acc_SCORE := (acc_SCORE a)\<lparr>amount := s\<rparr>, acc_balance := b, acc_withdrawn := w\<rparr>;
     Some (if w \<ge> acc_to_withdraw a \<or> s = 0
           then a1\<lparr>acc_SCOREwithdrawRateInTME := (acc_SCOREwithdrawRateInTME a)\<lparr>amount := 0\<rparr>,
                   acc_nextSCOREwithdrawalTime := secs_max F\<rparr>
           else a1\<lparr>acc_nextSCOREwithdrawalTime :=
                   secs_add F (acc_nextSCOREwithdrawalTime a) SCORE_WITHDRAW_INTERVAL_SECONDS\<rparr>) }"

text \<open>One round of the loop, for the account with name \<open>n\<close>.\<close>

definition withdraw_account :: "fc_lib \<Rightarrow> account_name_type \<Rightarrow> chain_db \<Rightarrow> chain_db option" where
  "withdraw_account F n d = do {
     from_account \<leftarrow> get_account n d;
     to_withdraw \<leftarrow> withdrawn_now F from_account;
     (d1, as_SCORE) \<leftarrow> deposit_SCORE F to_withdraw (routes_of (acc_id from_account) d) 0 d;
     (d2, as_TME) \<leftarrow> deposit_TME F to_withdraw (routes_of (acc_id from_account) d1) 0 (mk_asset 0 SYMBOL_COIN) d1;
     c \<leftarrow> safe_sub F to_withdraw as_TME;
     to_convert \<leftarrow> safe_sub F c as_SCORE;
     FC_ASSERT (to_convert \<ge> 0);
     converted \<leftarrow> asset_mul_price F (mk_asset to_convert SYMBOL_SCORE) (get_SCORE_price (db_gpo d2));
     d3 \<leftarrow> modify_account n (settle F to_withdraw converted) d2;
     d4 \<leftarrow> pay_from_fund F converted to_convert d3;
     if to_withdraw > 0 then do {
       neg \<leftarrow> safe_neg F to_withdraw;
       adjust_proxied_witness_vote F n neg 0 d4 }
     else Some d4 }"

text \<open>The walk over the index: \<open>current\<close> is moved on before the account is handled.\<close>

definition idx_next :: "('a \<Rightarrow> 'k :: linorder) \<Rightarrow> 'a \<Rightarrow> 'a list \<Rightarrow> 'a option" where
  "idx_next key x xs = List.find (\<lambda>y. key x < key y) (idx_sorted key xs)"

fun withdrawals_loop :: "fc_lib \<Rightarrow> nat \<Rightarrow> nat option \<Rightarrow> chain_db \<Rightarrow> chain_db option" where
  "withdrawals_loop F fuel None d = Some d"
| "withdrawals_loop F fuel (Some i) d = do {
     a \<leftarrow> get_account_id i d;
     if acc_nextSCOREwithdrawalTime a \<le> head_block_time d then
       case fuel of 0 \<Rightarrow> None
       | Suc fuel' \<Rightarrow> do {
           let current = map_option acc_id (idx_next withdrawal_order a (db_accounts d));
           d1 \<leftarrow> withdraw_account F (acc_name a) d;
           withdrawals_loop F fuel' current d1 }
     else Some d }"

text \<open>An account is due again only one interval later.\<close>

definition withdrawal_rounds :: "chain_db \<Rightarrow> nat" where
  "withdrawal_rounds d = sum_list (map (\<lambda>a.
     if acc_nextSCOREwithdrawalTime a \<le> head_block_time d
     then Suc (nat ((head_block_time d - acc_nextSCOREwithdrawalTime a) div SCORE_WITHDRAW_INTERVAL_SECONDS)) else 0)
     (db_accounts d))"

definition process_TME_fund_for_SCORE_withdrawals :: "fc_lib \<Rightarrow> chain_db \<Rightarrow> chain_db option" where
  "process_TME_fund_for_SCORE_withdrawals F d = withdrawals_loop F (withdrawal_rounds d)
     (map_option acc_id (idx_begin withdrawal_order (db_accounts d))) d"

subsection \<open>Claiming rewards\<close>

definition claimRewardBalance_do_apply :: "fc_lib \<Rightarrow> claimRewardBalance_operation \<Rightarrow> chain_db \<Rightarrow> chain_db option" where
  "claimRewardBalance_do_apply F op d = do {
     acnt \<leftarrow> get_account (cl_account op) d;
     FC_ASSERT_opt (asset_le (cl_TMEreward op) (acc_TMErewardBalance acnt));
     FC_ASSERT_opt (asset_le (cl_TSDreward op) (acc_TSDrewardBalance acnt));
     FC_ASSERT_opt (asset_le (cl_SCOREreward op) (acc_SCORErewardBalance acnt));
     to_move \<leftarrow> (if asset_eq (cl_SCOREreward op) (acc_SCORErewardBalance acnt) then Some (acc_SCORErewardBalanceInTME acnt)
       else do {
         q \<leftarrow> u128_div F (u128_mul F (u128_of F (amount (cl_SCOREreward op))) (u128_of F (amount (acc_SCORErewardBalanceInTME acnt))))
                (u128_of F (amount (acc_SCORErewardBalance acnt)));
         v \<leftarrow> u128_to_uint64 F q;
         Some (mk_asset (int64_of_uint64 v) SYMBOL_COIN) });
     n1 \<leftarrow> asset_neg F (cl_TMEreward op);
     d1 \<leftarrow> adjust_reward_balance F (cl_account op) n1 d;
     n2 \<leftarrow> asset_neg F (cl_TSDreward op);
     d2 \<leftarrow> adjust_reward_balance F (cl_account op) n2 d1;
     d3 \<leftarrow> adjust_balance F (cl_account op) (cl_TMEreward op) d2;
     d4 \<leftarrow> adjust_balance F (cl_account op) (cl_TSDreward op) d3;
     d5 \<leftarrow> modify_account (cl_account op) (\<lambda>a. do {
            s \<leftarrow> asset_add F (acc_SCORE a) (cl_SCOREreward op);
            r \<leftarrow> asset_sub F (acc_SCORErewardBalance a) (cl_SCOREreward op);
            t \<leftarrow> asset_sub F (acc_SCORErewardBalanceInTME a) to_move;
            Some (a\<lparr>acc_SCORE := s, acc_SCORErewardBalance := r, acc_SCORErewardBalanceInTME := t\<rparr>) }) d4;
     d6 \<leftarrow> modify_gpo (\<lambda>g. do {
            s \<leftarrow> asset_add F (gpo_totalSCORE g) (cl_SCOREreward op);
            t \<leftarrow> asset_add F (gpo_totalTMEfundForSCORE g) to_move;
            r \<leftarrow> asset_sub F (gpo_pending_rewarded_SCORE g) (cl_SCOREreward op);
            p \<leftarrow> asset_sub F (gpo_pending_rewarded_SCOREvalueInTME g) to_move;
            Some (g\<lparr>gpo_totalSCORE := s, gpo_totalTMEfundForSCORE := t, gpo_pending_rewarded_SCORE := r,
                   gpo_pending_rewarded_SCOREvalueInTME := p\<rparr>) }) d5;
     adjust_proxied_witness_vote F (cl_account op) (amount (cl_SCOREreward op)) 0 d6 }"

subsection \<open>Conservation\<close>

lemma vote_frame_moves:
  assumes "vote_frame d d'"
  shows "moves d d' 0 0 0 0" "ledger_ok d' = ledger_ok d"
proof -
  note m = vote_frameD(6)[OF assms]
  have s: "map acct_TME (db_accounts d') = map acct_TME (db_accounts d)"
    "map acct_TSD (db_accounts d') = map acct_TSD (db_accounts d)"
    "map acct_SCORE (db_accounts d') = map acct_SCORE (db_accounts d)"
    "map acct_PEND (db_accounts d') = map acct_PEND (db_accounts d)"
    "map acc_name (db_accounts d') = map acc_name (db_accounts d)"
    "map acc_id (db_accounts d') = map acc_id (db_accounts d)"
    by (rule strip_field[OF m], simp add: strip_votes_def acct_defs)+
  from assms obtain as ws where d': "d' = d\<lparr>db_accounts := as, db_witnesses := ws\<rparr>" by (auto simp: vote_frame_def)
  show "moves d d' 0 0 0 0" "ledger_ok d' = ledger_ok d"
    using s unfolding moves_def gap_defs ledger_ok_def by (simp_all add: d')
qed

context fc_safe
begin

lemma single_walk_keeps:
  assumes "adjust_proxied_witness_vote F n delta 0 d = Some d'"
  shows "moves d d' 0 0 0 0" "ledger_ok d' = ledger_ok d"
  using vote_frame_moves[OF single_walk.walk_frame[OF assms]] by blast+

lemma createTMEfundForSCORE_cases:
  assumes "createTMEfundForSCORE F n coin r d = Some (s, d')"
  obtains d1 d2 where
    "modify_account n (\<lambda>to.
        if r then do {
          r \<leftarrow> asset_add F (acc_SCORErewardBalance to) s;
          t \<leftarrow> asset_add F (acc_SCORErewardBalanceInTME to) coin;
          Some (to\<lparr>acc_SCORErewardBalance := r, acc_SCORErewardBalanceInTME := t\<rparr>) }
        else do {
          s \<leftarrow> asset_add F (acc_SCORE to) s;
          Some (to\<lparr>acc_SCORE := s\<rparr>) }) d = Some d1"
    "modify_gpo (\<lambda>g.
        if r then do {
          r \<leftarrow> asset_add F (gpo_pending_rewarded_SCORE g) s;
          t \<leftarrow> asset_add F (gpo_pending_rewarded_SCOREvalueInTME g) coin;
          Some (g\<lparr>gpo_pending_rewarded_SCORE := r, gpo_pending_rewarded_SCOREvalueInTME := t\<rparr>) }
        else do {
          t \<leftarrow> asset_add F (gpo_totalTMEfundForSCORE g) coin;
          s \<leftarrow> asset_add F (gpo_totalSCORE g) s;
          Some (g\<lparr>gpo_totalTMEfundForSCORE := t, gpo_totalSCORE := s\<rparr>) }) d1 = Some d2"
    "d' = d2 \<or> adjust_proxied_witness_vote F n (amount s) 0 d2 = Some d'" "money_frame d d2" "vote_frame d2 d'"
proof -
  from assms obtain d1 d2 where
    d1: "modify_account n (\<lambda>to.
        if r then do {
          r \<leftarrow> asset_add F (acc_SCORErewardBalance to) s;
          t \<leftarrow> asset_add F (acc_SCORErewardBalanceInTME to) coin;
          Some (to\<lparr>acc_SCORErewardBalance := r, acc_SCORErewardBalanceInTME := t\<rparr>) }
        else do {
          s \<leftarrow> asset_add F (acc_SCORE to) s;
          Some (to\<lparr>acc_SCORE := s\<rparr>) }) d = Some d1" and
    d2: "modify_gpo (\<lambda>g.
        if r then do {
          r \<leftarrow> asset_add F (gpo_pending_rewarded_SCORE g) s;
          t \<leftarrow> asset_add F (gpo_pending_rewarded_SCOREvalueInTME g) coin;
          Some (g\<lparr>gpo_pending_rewarded_SCORE := r, gpo_pending_rewarded_SCOREvalueInTME := t\<rparr>) }
        else do {
          t \<leftarrow> asset_add F (gpo_totalTMEfundForSCORE g) coin;
          s \<leftarrow> asset_add F (gpo_totalSCORE g) s;
          Some (g\<lparr>gpo_totalTMEfundForSCORE := t, gpo_totalSCORE := s\<rparr>) }) d1 = Some d2" and
    d': "d' = d2 \<or> adjust_proxied_witness_vote F n (amount s) 0 d2 = Some d'"
    by (auto simp: createTMEfundForSCORE_def bind_Some_iff split: if_splits)
  have "money_frame d d2"
    by (rule money_frame_trans[OF modify_account_frame[OF d1] modify_gpo_frame[OF d2]])
       (auto simp: bind_Some_iff split: if_splits)
  moreover have "vote_frame d2 d'" using d' single_walk.walk_frame vote_frame_refl by blast
  ultimately show thesis by (rule that[OF d1 d2 d'])
qed

lemma createTMEfundForSCORE_moves:
  assumes "createTMEfundForSCORE F n coin r d = Some (s, d')" "symbol coin = SYMBOL_COIN"
  shows "moves d d' (tme coin) 0 0 0 \<and> ledger_ok d' = ledger_ok d"
  using assms(1)
proof (rule createTMEfundForSCORE_cases, goal_cases)
  case (1 d1 d2)
  have m1: "moves d d1 0 0 (amount s) (if r then amount coin else 0)"
    using modify_account_moves[OF 1(1)]
    by (auto simp: bind_Some_iff acct_defs split: if_splits dest!: asset_add_SomeD)
  have m2: "moves d1 d2 (amount coin) 0 (- amount s) (if r then - amount coin else 0)"
    using modify_gpo_moves[OF 1(2)]
    by (auto simp: bind_Some_iff moves_def gap_defs split: if_splits dest!: asset_add_SomeD)
  show ?case using m1 m2 ledger_ok_frame[OF 1(4)] vote_frame_moves[OF 1(5)] assms(2)
    by (cases r) (auto simp: moves_def tme_def)
qed

lemma create_TSD_moves:
  assumes "create_TSD F n coin r d = Some (x, d')" "symbol coin = SYMBOL_COIN"
  shows "moves d d' (tme coin) 0 0 0 \<and> ledger_ok d' = ledger_ok d"
proof -
  let ?adjust = "if r then adjust_reward_balance F else adjust_balance F"
  have adj: "moves e e' (tme x) (tsd x) 0 0 \<and> money_frame e e'" if "?adjust n x e = Some e'" for x e e'
    using that adjust_reward_balance_moves adjust_balance_moves adjust_reward_balance_frame adjust_balance_frame
    by (auto split: if_splits)
  consider "amount coin = 0" "d' = d" | "adjust_balance F n coin d = Some d'" |
    to_TSD to_TME usd neg d1 d2 d3 where "safe_sub F (amount coin) to_TSD = Some to_TME" "?adjust n usd d = Some d1"
      "?adjust n (mk_asset to_TME SYMBOL_COIN) d1 = Some d2" "safe_neg F to_TSD = Some neg"
      "adjust_supply F (mk_asset neg SYMBOL_COIN) False d2 = Some d3" "adjust_supply F usd False d3 = Some d'"
    using assms(1) by (auto simp: create_TSD_def bind_Some_iff Let_def split: if_splits)
  then show ?thesis
  proof cases
    case 1
    then show ?thesis by (simp add: moves_refl tme_def)
  next
    case 2
    then show ?thesis
      using adjust_balance_moves[OF 2] ledger_ok_frame[OF adjust_balance_frame[OF 2]] assms(2)
      by (simp add: tsd_def symbol_distinct)
  next
    case 3
    note f = money_frame_trans[OF money_frame_trans[OF money_frame_trans] adjust_supply_frame[OF 3(6)],
        OF conjunct2[OF adj[OF 3(2)]] conjunct2[OF adj[OF 3(3)]] adjust_supply_frame[OF 3(5)]]
    have "moves d d' (tme coin) 0 0 0"
      using adj[OF 3(2)] adj[OF 3(3)] adjust_supply_moves[OF 3(5)] adjust_supply_moves[OF 3(6)] assms(2)
        safe_sub_SomeD[OF 3(1)] safe_neg_SomeD[OF 3(4)]
      by (simp add: moves_def) (simp add: tme_def tsd_def symbol_distinct)
    then show ?thesis using ledger_ok_frame[OF f] by simp
  qed
qed

lemma transferTMEtoSCOREfund_keeps:
  assumes "ledger_ok d" "transferTMEtoSCOREfund_do_apply F op d = Some d'" "transferTMEtoSCOREfund_validate op = Some ()"
  shows "keeps d d'"
proof -
  have c: "symbol (tf_amount op) = SYMBOL_COIN"
    using assms(3) by (auto simp: transferTMEtoSCOREfund_validate_def bind_Some_iff is_asset_type_def)
  from assms(2) obtain n neg d1 s where neg: "asset_neg F (tf_amount op) = Some neg"
    and d1: "adjust_balance F (tf_from op) neg d = Some d1"
    and d': "createTMEfundForSCORE F n (tf_amount op) False d1 = Some (s, d')"
    by (auto simp: transferTMEtoSCOREfund_do_apply_def bind_Some_iff)
  have n: "tme neg = - tme (tf_amount op) \<and> tsd neg = - tsd (tf_amount op)"
    using asset_neg_SomeD[OF neg] by (intro tme_tsd_neg) auto
  show ?thesis
    using adjust_balance_moves[OF d1] createTMEfundForSCORE_moves[OF d' c] n c assms(1)
      ledger_ok_frame[OF adjust_balance_frame[OF d1]]
    by (auto simp: keeps_def moves_def gaps_def tsd_def symbol_distinct)
qed

lemma withdrawSCORE_cases:
  assumes "withdrawSCORE_do_apply F op d = Some d'"
  obtains (none) "d' = d" "amount (ws_SCORE op) < 0"
  | (stop) "amount (ws_SCORE op) = 0"
      "modify_account (ws_account op) (\<lambda>a. Some (a\<lparr>acc_SCOREwithdrawRateInTME := mk_asset 0 SYMBOL_SCORE,
            acc_nextSCOREwithdrawalTime := secs_max F, acc_to_withdraw := 0, acc_withdrawn := 0\<rparr>)) d = Some d'"
  | (start) q where "amount (ws_SCORE op) > 0"
      "safe_div F (amount (ws_SCORE op)) (if has_hardfork 16 d then TME_fund_for_SCORE_WITHDRAW_INTERVALS
                          else TME_fund_for_SCORE_WITHDRAW_INTERVALS_PRE_HF_16) = Some q"
      "modify_account (ws_account op) (\<lambda>a. Some (a\<lparr>acc_SCOREwithdrawRateInTME := mk_asset (if q = 0 then 1 else q) SYMBOL_SCORE,
            acc_nextSCOREwithdrawalTime := secs_add F (head_block_time d) SCORE_WITHDRAW_INTERVAL_SECONDS,
            acc_to_withdraw := amount (ws_SCORE op), acc_withdrawn := 0\<rparr>)) d = Some d'"
proof -
  consider "amount (ws_SCORE op) < 0" | "amount (ws_SCORE op) = 0" | "amount (ws_SCORE op) > 0" by linarith
  then show ?thesis
  proof cases
    case 1
    then show ?thesis using assms none by (auto simp: withdrawSCORE_do_apply_def bind_Some_iff)
  next
    case 2
    then show ?thesis using assms stop by (auto simp: withdrawSCORE_do_apply_def bind_Some_iff split: if_splits)
  next
    case 3
    let ?i = "if has_hardfork 16 d then TME_fund_for_SCORE_WITHDRAW_INTERVALS
              else TME_fund_for_SCORE_WITHDRAW_INTERVALS_PRE_HF_16"
    from 3 assms obtain account :: account_object where m: "modify_account (ws_account op) (\<lambda>a. do {
            q \<leftarrow> safe_div F (amount (ws_SCORE op)) ?i;
            let rate = mk_asset (if q = 0 then 1 else q) SYMBOL_SCORE;
            (if has_hardfork 5 d then FC_ASSERT (\<not> asset_eq (acc_SCOREwithdrawRateInTME account) rate) else Some ());
            Some (a\<lparr>acc_SCOREwithdrawRateInTME := rate,
               acc_nextSCOREwithdrawalTime := secs_add F (head_block_time d) SCORE_WITHDRAW_INTERVAL_SECONDS,
               acc_to_withdraw := amount (ws_SCORE op), acc_withdrawn := 0\<rparr>) }) d = Some d'"
      by (auto simp: withdrawSCORE_do_apply_def bind_Some_iff Let_def)
    from modify_account_moves[OF m] obtain q where q: "safe_div F (amount (ws_SCORE op)) ?i = Some q"
      and "\<not> has_hardfork 5 d \<or> \<not> asset_eq (acc_SCOREwithdrawRateInTME account) (mk_asset (if q = 0 then 1 else q) SYMBOL_SCORE)"
      by (auto simp: bind_Some_iff Let_def split: if_splits)
    with m show ?thesis using start[OF 3 q] by (simp add: Let_def FC_ASSERT_def split: if_splits)
  qed
qed

lemma modify_account_keeps:
  assumes "ledger_ok d" "modify_account n (\<lambda>a. Some (h a)) d = Some d'"
    "\<And>a. acc_name (h a) = acc_name a \<and> acc_id (h a) = acc_id a"
    "\<And>a. acct_TME (h a) = acct_TME a \<and> acct_TSD (h a) = acct_TSD a \<and> acct_SCORE (h a) = acct_SCORE a \<and> acct_PEND (h a) = acct_PEND a"
  shows "keeps d d'"
proof -
  have "moves d d' 0 0 0 0" by (rule modify_account_same[OF assms(2)]) (use assms(4) in auto)
  moreover have "money_frame d d'" by (rule modify_account_frame[OF assms(2)]) (use assms(3) in auto)
  ultimately show ?thesis using ledger_ok_frame assms(1) by (simp add: keeps_def moves_gaps)
qed

lemma withdrawSCORE_keeps:
  assumes "ledger_ok d" "withdrawSCORE_do_apply F op d = Some d'"
  shows "keeps d d'"
  using assms(2)
proof (cases rule: withdrawSCORE_cases)
  case none
  then show ?thesis using assms(1) by (simp add: keeps_def)
qed (rule modify_account_keeps[OF assms(1)], assumption, simp_all add: acct_defs)+

lemma routes_moves:
  "moves d (d\<lparr>db_routes := rs\<rparr>) 0 0 0 0" "ledger_ok (d\<lparr>db_routes := rs\<rparr>) = ledger_ok d"
  "moves d (take_id t d) 0 0 0 0" "ledger_ok d \<Longrightarrow> ledger_ok (take_id t d)"
  using ids_below_mono[of "db_next_id d account_object_type" "map acc_id (db_accounts d)"]
  by (auto simp: moves_def gap_defs ledger_ok_def take_id_def)

lemma keeps_routes: "keeps (d\<lparr>db_routes := rs\<rparr>) d' = keeps d d'" "keeps (take_id t d) d' = keeps d d'"
  by (simp_all add: keeps_def gaps_def gap_defs take_id_def)

lemma setWithdrawSCOREasTMEroute_keeps:
  assumes "ledger_ok d" "setWithdrawSCOREasTMEroute_do_apply op d = Some d'"
  shows "keeps d d'"
proof -
  have c: "keeps d e" if "modify_account n (\<lambda>a. Some (a\<lparr>acc_withdraw_routes := g a\<rparr>)) ((take_id t d)\<lparr>db_routes := rs\<rparr>) = Some e \<or>
      modify_account n (\<lambda>a. Some (a\<lparr>acc_withdraw_routes := g a\<rparr>)) (d\<lparr>db_routes := rs\<rparr>) = Some e" for n g rs t e
    using that
  proof
    assume m: "modify_account n (\<lambda>a. Some (a\<lparr>acc_withdraw_routes := g a\<rparr>)) ((take_id t d)\<lparr>db_routes := rs\<rparr>) = Some e"
    have "keeps ((take_id t d)\<lparr>db_routes := rs\<rparr>) e"
      by (rule modify_account_keeps[OF _ m]) (use assms(1) in \<open>simp_all add: routes_moves acct_defs\<close>)
    then show ?thesis by (simp add: keeps_routes)
  next
    assume m: "modify_account n (\<lambda>a. Some (a\<lparr>acc_withdraw_routes := g a\<rparr>)) (d\<lparr>db_routes := rs\<rparr>) = Some e"
    have "keeps (d\<lparr>db_routes := rs\<rparr>) e"
      by (rule modify_account_keeps[OF _ m]) (use assms(1) in \<open>simp_all add: routes_moves acct_defs\<close>)
    then show ?thesis by (simp add: keeps_routes)
  qed
  have r: "keeps d (d\<lparr>db_routes := rs\<rparr>)" for rs
    using routes_moves assms(1) by (simp add: keeps_def moves_gaps)
  from assms(2) show ?thesis
    by (auto simp: setWithdrawSCOREasTMEroute_do_apply_def create_route_def bind_Some_iff Let_def r split: option.splits if_splits
        intro: c)
qed

end

end
