(* ===== verification/Stake.thy ===== *)
theory Stake
  imports Score
begin

text \<open>
  The votes behind SCORE: every operation of \<open>Score\<close> that changes the stake of an account moves the
  votes of its proxies or witnesses by the same amount, in particular the weekly withdrawals with
  their routes, and operations on money do not touch votes at all.
\<close>

subsection \<open>Stake and votes\<close>

text \<open>\<open>votes_flow d d' v\<close>: the accounts vote with \<open>v\<close> more than before, beyond what the total
  records, and the witnesses have it.\<close>

definition votes_flow :: "chain_db \<Rightarrow> chain_db \<Rightarrow> int \<Rightarrow> bool" where
  "votes_flow d d' v \<longleftrightarrow> (voters_ok d \<longrightarrow> voters_ok d' \<and> (\<forall>j. excess d' j = excess d j) \<and>
     total_votes d' - amount (gpo_totalSCORE (db_gpo d')) = total_votes d - amount (gpo_totalSCORE (db_gpo d)) + v \<and>
     proxy_rel d' = proxy_rel d \<and> map wit_id (db_witnesses d') = map wit_id (db_witnesses d))"

lemma votes_flow_refl: "votes_flow d d 0"
  by (simp add: votes_flow_def)

lemma votes_flow_trans: "votes_flow d d1 v \<Longrightarrow> votes_flow d1 d2 w \<Longrightarrow> votes_flow d d2 (v + w)"
  by (auto simp: votes_flow_def)

lemma votes_flow_votes_ok: "votes_flow d d' 0 \<Longrightarrow> votes_ok d \<Longrightarrow> votes_ok d'"
  unfolding votes_ok_def
proof (elim conjE, intro conjI)
  assume f: "votes_flow d d' 0" and ok: "voters_ok d" "acyclic (proxy_rel d)"
    "\<forall>w \<in> set (db_witnesses d). wit_votes w = tally d (wit_id w)" "total_votes d = amount (gpo_totalSCORE (db_gpo d))"
  then show "voters_ok d'" "acyclic (proxy_rel d')" "total_votes d' = amount (gpo_totalSCORE (db_gpo d'))"
    by (simp_all add: votes_flow_def)
  show "\<forall>w \<in> set (db_witnesses d'). wit_votes w = tally d' (wit_id w)"
    by (rule witness_tallies[of d]) (use f ok in \<open>simp_all add: votes_flow_def\<close>)
qed

text \<open>\<open>stake_flow d d' v\<close>: the accounts hold and vote with \<open>v\<close> more SCORE than the totals record;
  everything else is conserved.\<close>

definition stake_flow :: "chain_db \<Rightarrow> chain_db \<Rightarrow> int \<Rightarrow> bool" where
  "stake_flow d d' v \<longleftrightarrow> moves d d' 0 0 v 0 \<and> ledger_ok d' = ledger_ok d \<and> votes_flow d d' v"

lemma stake_flow_refl: "stake_flow d d 0"
  by (simp add: stake_flow_def moves_refl votes_flow_refl)

lemma stake_flow_trans: "stake_flow d d1 v \<Longrightarrow> stake_flow d1 d2 w \<Longrightarrow> stake_flow d d2 (v + w)"
  using votes_flow_trans by (fastforce simp: stake_flow_def moves_def)

text \<open>What voting looks at.  Operations that move money leave it alone.\<close>

definition vote_view :: "account_object \<Rightarrow> account_name_type \<times> nat \<times> account_name_type \<times> int \<times> int list" where
  "vote_view a = (acc_name a, acc_id a, acc_proxy a, amount (acc_SCORE a), acc_proxied_votes a)"

definition votes_frame :: "chain_db \<Rightarrow> chain_db \<Rightarrow> bool" where
  "votes_frame d d' \<longleftrightarrow> map vote_view (db_accounts d') = map vote_view (db_accounts d) \<and>
     db_witnesses d' = db_witnesses d \<and> db_witness_votes d' = db_witness_votes d \<and>
     amount (gpo_totalSCORE (db_gpo d')) = amount (gpo_totalSCORE (db_gpo d))"

lemma votes_frame_refl: "votes_frame d d"
  by (simp add: votes_frame_def)

lemma votes_frame_trans: "votes_frame d d1 \<Longrightarrow> votes_frame d1 d2 \<Longrightarrow> votes_frame d d2"
  by (simp add: votes_frame_def)

lemma view_field:
  assumes "map vote_view as = map vote_view bs" "\<And>a. g a = h (vote_view a)"
  shows "map g as = map g bs"
proof -
  have "map g xs = map h (map vote_view xs)" for xs using assms(2) by simp
  then show ?thesis using assms(1) by metis
qed

lemma view_find:
  assumes "map vote_view as = map vote_view bs"
  shows "map_option vote_view (List.find (\<lambda>a. acc_name a = n) as) = map_option vote_view (List.find (\<lambda>a. acc_name a = n) bs)"
  using assms
proof (induction as arbitrary: bs)
  case (Cons a as)
  then obtain b bs' where bs: "bs = b # bs'" "vote_view a = vote_view b" "map vote_view as = map vote_view bs'"
    by (cases bs) auto
  then have "acc_name a = acc_name b" by (simp add: vote_view_def)
  then show ?case using Cons.IH[OF bs(3)] bs by simp
qed simp

lemma votes_frameD:
  assumes "votes_frame d d'"
  shows "voters_ok d' = voters_ok d" "excess d' = excess d" "total_votes d' = total_votes d" "proxy_rel d' = proxy_rel d"
    "votes_ok d' = votes_ok d"
proof -
  have m: "map vote_view (db_accounts d') = map vote_view (db_accounts d)" and
    o: "db_witnesses d' = db_witnesses d" "db_witness_votes d' = db_witness_votes d"
      "amount (gpo_totalSCORE (db_gpo d')) = amount (gpo_totalSCORE (db_gpo d))"
    using assms by (simp_all add: votes_frame_def)
  have vd: "voted d' = voted d" by (simp add: voted_def fun_eq_iff o)
  have f: "map acc_name (db_accounts d') = map acc_name (db_accounts d)"
    "map acc_id (db_accounts d') = map acc_id (db_accounts d)"
    "map acct_votes (db_accounts d') = map acct_votes (db_accounts d)"
    "map (\<lambda>a. voted d (acc_id a) j * stake a) (db_accounts d') = map (\<lambda>a. voted d (acc_id a) j * stake a) (db_accounts d)"
    "map (\<lambda>a. length (acc_proxied_votes a) = 4 \<and> (acc_proxy a \<noteq> [] \<longrightarrow> (\<forall>j. voted d (acc_id a) j = 0))) (db_accounts d')
       = map (\<lambda>a. length (acc_proxied_votes a) = 4 \<and> (acc_proxy a \<noteq> [] \<longrightarrow> (\<forall>j. voted d (acc_id a) j = 0))) (db_accounts d)"
    for j
    by (rule view_field[OF m, of _ "\<lambda>(n, i, p, s, v). n"], simp add: vote_view_def)
       (rule view_field[OF m, of _ "\<lambda>(n, i, p, s, v). i"], simp add: vote_view_def,
        rule view_field[OF m, of _ "\<lambda>(n, i, p, s, v). if p = [] then s + sum_list v else v ! 3"],
          simp add: vote_view_def acct_votes_def,
        rule view_field[OF m, of _ "\<lambda>(n, i, p, s, v). voted d i j * (s + sum_list v)"], simp add: vote_view_def stake_def,
        rule view_field[OF m, of _ "\<lambda>(n, i, p, s, v). length v = 4 \<and> (p \<noteq> [] \<longrightarrow> (\<forall>j. voted d i j = 0))"],
          simp add: vote_view_def)
  show tv: "total_votes d' = total_votes d" by (simp add: total_votes_def f)
  have t: "tally d' j = tally d j" for j by (simp add: tally_def vd f)
  then show ex: "excess d' = excess d" by (simp add: excess_def fun_eq_iff recorded_def get_witness_id_def o)
  have "list_all id (map g xs) = (\<forall>x \<in> set xs. g x)" for g :: "account_object \<Rightarrow> bool" and xs by (simp add: list_all_iff)
  from this[symmetric] show vo: "voters_ok d' = voters_ok d" unfolding voters_ok_def by (simp only: f o vd)
  have "(\<exists>a. find_account x d' = Some a \<and> acc_proxy a = y) \<longleftrightarrow> (\<exists>a. find_account x d = Some a \<and> acc_proxy a = y)" for x y
    using view_find[OF m, of x] unfolding find_account_def
    by (cases "List.find (\<lambda>a. acc_name a = x) (db_accounts d)"; cases "List.find (\<lambda>a. acc_name a = x) (db_accounts d')")
       (auto simp: vote_view_def)
  then show pr: "proxy_rel d' = proxy_rel d" by (simp add: proxy_rel_def)
  show "votes_ok d' = votes_ok d" by (simp add: votes_ok_def vo tv pr t o)
qed

lemma votes_frame_flow: "votes_frame d d' \<Longrightarrow> votes_flow d d' 0"
  using votes_frameD[of d d'] by (simp add: votes_flow_def) (simp add: votes_frame_def)

lemma modify_account_votes_frame:
  assumes "modify_account n f d = Some d'" "\<And>a b. f a = Some b \<Longrightarrow> vote_view b = vote_view a"
  shows "votes_frame d d'"
proof -
  from assms(1) obtain as where as: "tbl_modify (\<lambda>a. acc_name a = n) f (db_accounts d) = Some as"
    and d': "d' = d\<lparr>db_accounts := as\<rparr>"
    by (auto simp: modify_account_def bind_Some_iff)
  from map_key_modify[OF as assms(2)] show ?thesis by (simp add: votes_frame_def d')
qed

lemma modify_gpo_votes_frame:
  assumes "modify_gpo f d = Some d'" "\<And>g h. f g = Some h \<Longrightarrow> gpo_totalSCORE h = gpo_totalSCORE g"
  shows "votes_frame d d'"
  using modify_gpo_moves[OF assms(1)] assms(2) by (auto simp: votes_frame_def)

lemma issue_interest_votes: "issue_interest F paid d = Some d' \<Longrightarrow> votes_frame d d'"
  by (cases paid) (auto simp: issue_interest_def votes_frame_refl bind_Some_iff elim!: modify_gpo_votes_frame)

lemma adjust_balance_votes: "adjust_balance F n delta d = Some d' \<Longrightarrow> votes_frame d d'"
  by (auto simp: adjust_balance_def bind_Some_iff vote_view_def split: if_splits
      elim!: modify_account_votes_frame dest!: issue_interest_votes intro: votes_frame_trans[rotated])

lemma adjust_TMEsavingsBalance_votes: "adjust_TMEsavingsBalance F n delta d = Some d' \<Longrightarrow> votes_frame d d'"
  by (auto simp: adjust_TMEsavingsBalance_def bind_Some_iff vote_view_def split: if_splits
      elim!: modify_account_votes_frame dest!: issue_interest_votes intro: votes_frame_trans[rotated])

lemma adjust_reward_balance_votes: "adjust_reward_balance F n delta d = Some d' \<Longrightarrow> votes_frame d d'"
  by (auto simp: adjust_reward_balance_def bind_Some_iff vote_view_def split: if_splits elim!: modify_account_votes_frame)

lemma adjust_supply_votes: "adjust_supply F delta adj d = Some d' \<Longrightarrow> votes_frame d d'"
  by (auto simp: adjust_supply_def Let_def bind_Some_iff elim!: modify_gpo_votes_frame split: if_splits)

text \<open>Changing the global properties, apart from the clock.\<close>

lemma voters_gpo:
  "voters_ok (d\<lparr>db_gpo := g\<rparr>) = voters_ok d" "excess (d\<lparr>db_gpo := g\<rparr>) j = excess d j"
  "total_votes (d\<lparr>db_gpo := g\<rparr>) = total_votes d" "proxy_rel (d\<lparr>db_gpo := g\<rparr>) = proxy_rel d"
  "find_account n (d\<lparr>db_gpo := g\<rparr>) = find_account n d" "voted (d\<lparr>db_gpo := g\<rparr>) i j = voted d i j"
  by (simp_all add: voters_ok_def voted_def excess_def recorded_def get_witness_id_def tally_def total_votes_def
      proxy_rel_def find_account_def)

context fc_safe
begin

text \<open>An account's SCORE changes by \<open>x\<close>, and so do the votes behind it.\<close>

lemma score_change:
  assumes "modify_account n f d = Some d1" "modify_gpo h d1 = Some d2"
    "if x \<noteq> 0 then adjust_proxied_witness_vote F n x 0 d2 = Some d' else d' = d2 \<or> adjust_proxied_witness_vote F n x 0 d2 = Some d'"
    "\<And>a b. f a = Some b \<Longrightarrow> acc_name b = acc_name a \<and> acc_id b = acc_id a \<and> acc_proxied_votes b = acc_proxied_votes a \<and>
       acc_proxy b = acc_proxy a \<and> amount (acc_SCORE b) = amount (acc_SCORE a) + x"
    "voters_ok d"
  shows "voters_ok d' \<and> (\<forall>j. excess d' j = excess d j) \<and> total_votes d' = total_votes d + x \<and>
    proxy_rel d' = proxy_rel d \<and> map wit_id (db_witnesses d') = map wit_id (db_witnesses d) \<and> db_gpo d' = db_gpo d2"
proof -
  from assms(4) have k: "acc_name b = acc_name a" "acc_name b = acc_name a \<and> acc_proxy b = acc_proxy a"
    "acc_name b = acc_name a \<and> acc_id b = acc_id a \<and> acc_proxied_votes b = acc_proxied_votes a" if "f a = Some b" for a b
    using that by blast+
  from find_account_modify_same[OF assms(1) k(1)] obtain a b where
    a: "find_account n d = Some a" "f a = Some b" "find_account n d1 = Some b" by blast
  note ab = assms(4)[OF a(2)]
  have v: "\<forall>j. voted d (acc_id a) j = 0" if "acc_proxy b \<noteq> []"
    using find_account_proxied(2)[OF a(1) assms(5)] that ab by auto
  note f = modify_account_votes_opt[OF assms(1,5) a(1,2) k(3) v]
  from modify_gpo_moves[OF assms(2)] obtain g where d2: "d2 = d1\<lparr>db_gpo := g\<rparr>" by blast
  have w: "map wit_id (db_witnesses d2) = map wit_id (db_witnesses d)"
    using arg_cong[OF f(6), of "\<lambda>d. map wit_id (db_witnesses d)"] by (simp add: d2)
  have pr: "proxy_rel d2 = proxy_rel d" using proxy_rel_same[OF assms(1) k(2)] by (simp add: d2 voters_gpo)
  have ex: "excess d2 j = excess d j - voted d (acc_id a) j * x" for j
    using f(2)[of j] ab by (simp add: stake_def d2 voters_gpo algebra_simps)
  have tv: "total_votes d2 = total_votes d + (if acc_proxy a = [] then x else 0)"
    using f(3) ab by (simp add: acct_votes_def d2 voters_gpo)
  show ?thesis
  proof (cases "adjust_proxied_witness_vote F n x 0 d2 = Some d'")
    case False
    then have "x = 0" "d' = d2" using assms(3) by (auto split: if_splits)
    then show ?thesis using f(1) ex tv pr w by (simp add: d2 voters_gpo)
  next
    case True
    have ok2: "voters_ok d2" using f(1) by (simp add: d2 voters_gpo)
    have fa: "find_account n d2 = Some b" using a(3) by (simp add: d2 voters_gpo)
    have vd: "voted d2 = voted d" using f(4) by (simp add: d2 voters_gpo fun_eq_iff)
    from single_walk.walk_spec[OF ok2 _ True] fa have s: "voters_ok d'" "vote_frame d2 d'"
      "\<And>j. excess d' j = excess d2 j + (if acc_proxy b = [] then voted d2 (acc_id b) j * x else 0)"
      "total_votes d' = total_votes d2 + (if acc_proxy b = [] then 0 else x)" by auto
    have "excess d' j = excess d j" for j
      using s(3)[of j] ex[of j] ab vd v by (cases "acc_proxy a = []") simp_all
    then show ?thesis
      using s(1,4) tv ab pr w proxy_rel_frame[OF s(2)] vote_frameD(2,7)[OF s(2)] by simp
  qed
qed

lemma score_flow:
  assumes "modify_account n f d = Some d1" "modify_gpo h d1 = Some d2"
    "if x \<noteq> 0 then adjust_proxied_witness_vote F n x 0 d2 = Some d' else d' = d2 \<or> adjust_proxied_witness_vote F n x 0 d2 = Some d'"
    "amount (gpo_totalSCORE (db_gpo d2)) = amount (gpo_totalSCORE (db_gpo d)) + y"
    "\<And>a b. f a = Some b \<Longrightarrow> acc_name b = acc_name a \<and> acc_id b = acc_id a \<and> acc_proxied_votes b = acc_proxied_votes a \<and>
       acc_proxy b = acc_proxy a \<and> amount (acc_SCORE b) = amount (acc_SCORE a) + x"
  shows "votes_flow d d' (x - y)"
  unfolding votes_flow_def using score_change[OF assms(1-3,5)] assms(4) by simp

lemma modify_account_gpo: "modify_account n f d = Some d' \<Longrightarrow> db_gpo d' = db_gpo d"
  by (auto simp: modify_account_def bind_Some_iff)

lemma createTMEfundForSCORE_votes:
  assumes "createTMEfundForSCORE F n coin r d = Some (s, d')"
  shows "votes_flow d d' 0"
proof (cases r)
  case True
  with assms obtain d1 where
    d1: "modify_account n (\<lambda>to. do {
          r \<leftarrow> asset_add F (acc_SCORErewardBalance to) s;
          t \<leftarrow> asset_add F (acc_SCORErewardBalanceInTME to) coin;
          Some (to\<lparr>acc_SCORErewardBalance := r, acc_SCORErewardBalanceInTME := t\<rparr>) }) d = Some d1" and
    d': "modify_gpo (\<lambda>g. do {
          r \<leftarrow> asset_add F (gpo_pending_rewarded_SCORE g) s;
          t \<leftarrow> asset_add F (gpo_pending_rewarded_SCOREvalueInTME g) coin;
          Some (g\<lparr>gpo_pending_rewarded_SCORE := r, gpo_pending_rewarded_SCOREvalueInTME := t\<rparr>) }) d1 = Some d'"
    by (auto simp: createTMEfundForSCORE_def bind_Some_iff)
  show ?thesis
    by (rule votes_frame_flow, rule votes_frame_trans[OF modify_account_votes_frame[OF d1] modify_gpo_votes_frame[OF d']])
       (auto simp: bind_Some_iff vote_view_def)
next
  case False
  with assms obtain d1 d2 where
    d1: "modify_account n (\<lambda>to. do { s \<leftarrow> asset_add F (acc_SCORE to) s; Some (to\<lparr>acc_SCORE := s\<rparr>) }) d = Some d1" and
    d2: "modify_gpo (\<lambda>g. do {
          t \<leftarrow> asset_add F (gpo_totalTMEfundForSCORE g) coin;
          s \<leftarrow> asset_add F (gpo_totalSCORE g) s;
          Some (g\<lparr>gpo_totalTMEfundForSCORE := t, gpo_totalSCORE := s\<rparr>) }) d1 = Some d2" and
    d': "adjust_proxied_witness_vote F n (amount s) 0 d2 = Some d'"
    by (auto simp: createTMEfundForSCORE_def bind_Some_iff)
  have g: "amount (gpo_totalSCORE (db_gpo d2)) = amount (gpo_totalSCORE (db_gpo d)) + amount s"
    using modify_gpo_moves[OF d2] modify_account_gpo[OF d1] by (auto simp: bind_Some_iff dest!: asset_add_SomeD)
  have "votes_flow d d' (amount s - amount s)"
    by (rule score_flow[OF d1 d2]) (use d' g in \<open>auto simp: bind_Some_iff dest!: asset_add_SomeD\<close>)
  then show ?thesis by simp
qed

lemma transferTMEtoSCOREfund_votes:
  assumes "transferTMEtoSCOREfund_do_apply F op d = Some d'"
  shows "votes_flow d d' 0"
proof -
  from assms obtain neg n s d1 where d1: "adjust_balance F (tf_from op) neg d = Some d1"
    and d': "createTMEfundForSCORE F n (tf_amount op) False d1 = Some (s, d')"
    by (auto simp: transferTMEtoSCOREfund_do_apply_def bind_Some_iff)
  from votes_flow_trans[OF votes_frame_flow[OF adjust_balance_votes[OF d1]] createTMEfundForSCORE_votes[OF d']]
  show ?thesis by simp
qed

lemma claimRewardBalance_flow:
  assumes "claimRewardBalance_do_apply F op d = Some d'"
  shows "stake_flow d d' 0"
proof -
  let ?n = "cl_account op" and ?s = "cl_SCOREreward op"
  from assms obtain to_move n1 n2 d1 d2 d3 d4 d5 d6 where
    n: "asset_neg F (cl_TMEreward op) = Some n1" "asset_neg F (cl_TSDreward op) = Some n2" and
    d1: "adjust_reward_balance F ?n n1 d = Some d1" and d2: "adjust_reward_balance F ?n n2 d1 = Some d2" and
    d3: "adjust_balance F ?n (cl_TMEreward op) d2 = Some d3" and d4: "adjust_balance F ?n (cl_TSDreward op) d3 = Some d4" and
    d5: "modify_account ?n (\<lambda>a. do {
            s \<leftarrow> asset_add F (acc_SCORE a) ?s;
            r \<leftarrow> asset_sub F (acc_SCORErewardBalance a) ?s;
            t \<leftarrow> asset_sub F (acc_SCORErewardBalanceInTME a) to_move;
            Some (a\<lparr>acc_SCORE := s, acc_SCORErewardBalance := r, acc_SCORErewardBalanceInTME := t\<rparr>) }) d4 = Some d5" and
    d6: "modify_gpo (\<lambda>g. do {
            s \<leftarrow> asset_add F (gpo_totalSCORE g) ?s;
            t \<leftarrow> asset_add F (gpo_totalTMEfundForSCORE g) to_move;
            r \<leftarrow> asset_sub F (gpo_pending_rewarded_SCORE g) ?s;
            p \<leftarrow> asset_sub F (gpo_pending_rewarded_SCOREvalueInTME g) to_move;
            Some (g\<lparr>gpo_totalSCORE := s, gpo_totalTMEfundForSCORE := t, gpo_pending_rewarded_SCORE := r,
                   gpo_pending_rewarded_SCOREvalueInTME := p\<rparr>) }) d5 = Some d6" and
    d': "adjust_proxied_witness_vote F ?n (amount ?s) 0 d6 = Some d'"
    unfolding claimRewardBalance_do_apply_def
    by (simp only: bind_Some_iff) (elim exE conjE, rule that, assumption+)
  have neg: "tme n1 = - tme (cl_TMEreward op)" "tsd n1 = - tsd (cl_TMEreward op)"
    "tme n2 = - tme (cl_TSDreward op)" "tsd n2 = - tsd (cl_TSDreward op)"
    using tme_tsd_neg asset_neg_SomeD[OF n(1)] asset_neg_SomeD[OF n(2)] by auto
  have m5: "moves d4 d5 0 0 0 (- amount to_move)"
    using modify_account_moves[OF d5] by (auto simp: bind_Some_iff acct_defs dest!: asset_add_SomeD asset_sub_SomeD)
  have m6: "moves d5 d6 0 0 0 (amount to_move)"
    using modify_gpo_moves[OF d6]
    by (auto simp: bind_Some_iff moves_def gap_defs dest!: asset_add_SomeD asset_sub_SomeD)
  have m: "moves d d' 0 0 0 0"
    using adjust_reward_balance_moves[OF d1] adjust_reward_balance_moves[OF d2] adjust_balance_moves[OF d3]
      adjust_balance_moves[OF d4] m5 m6 single_walk_keeps(1)[OF d'] neg by (simp add: moves_def)
  have f4: "money_frame d d4"
    by (rule money_frame_trans[OF money_frame_trans[OF money_frame_trans]])
       (rule adjust_reward_balance_frame[OF d1] adjust_reward_balance_frame[OF d2] adjust_balance_frame[OF d3]
          adjust_balance_frame[OF d4])+
  have "money_frame d4 d6"
    by (rule money_frame_trans[OF modify_account_frame[OF d5] modify_gpo_frame[OF d6]]) (auto simp: bind_Some_iff)
  then have l: "ledger_ok d' = ledger_ok d"
    using ledger_ok_frame[OF money_frame_trans[OF f4]] single_walk_keeps(2)[OF d'] by simp
  have v4: "votes_frame d d4"
    by (rule votes_frame_trans[OF votes_frame_trans[OF votes_frame_trans]])
       (rule adjust_reward_balance_votes[OF d1] adjust_reward_balance_votes[OF d2] adjust_balance_votes[OF d3]
          adjust_balance_votes[OF d4])+
  have "votes_flow d4 d' (amount ?s - amount ?s)"
    by (rule score_flow[OF d5 d6])
       (use d' modify_gpo_moves[OF d6] modify_account_gpo[OF d5] in
         \<open>auto simp: bind_Some_iff dest!: asset_add_SomeD asset_sub_SomeD\<close>)
  then show ?thesis using m l votes_flow_trans[OF votes_frame_flow[OF v4]] by (simp add: stake_flow_def)
qed

end

subsection \<open>Withdrawals\<close>

text \<open>Stakes, withdraw rates and withdrawals are not negative and fit 64 bits, routes have a percentage.\<close>

definition account_stake_ok :: "account_object \<Rightarrow> bool" where
  "account_stake_ok a \<longleftrightarrow> 0 \<le> amount (acc_SCORE a) \<and> amount (acc_SCORE a) < 2 ^ 63 \<and>
     0 \<le> amount (acc_SCOREwithdrawRateInTME a) \<and> 0 \<le> acc_to_withdraw a"

definition route_ok :: "withdrawSCORE_route_object \<Rightarrow> bool" where
  "route_ok r \<longleftrightarrow> 0 \<le> wro_percent r \<and> wro_percent r \<le> PERCENT_100"

definition stake_ok :: "chain_db \<Rightarrow> bool" where
  "stake_ok d \<longleftrightarrow> (\<forall>a \<in> set (db_accounts d). account_stake_ok a) \<and> (\<forall>r \<in> set (db_routes d). route_ok r)"

lemma modify_account_stake_ok:
  assumes "modify_account n f d = Some d'" "stake_ok d"
    "\<And>a b. find_account n d = Some a \<Longrightarrow> f a = Some b \<Longrightarrow> account_stake_ok a \<Longrightarrow> account_stake_ok b"
  shows "stake_ok d'"
proof -
  from assms(1) obtain as where as: "tbl_modify (\<lambda>a. acc_name a = n) f (db_accounts d) = Some as"
    and d': "d' = d\<lparr>db_accounts := as\<rparr>"
    by (auto simp: modify_account_def bind_Some_iff)
  have "account_stake_ok x" if x: "x \<in> set as" for x
  proof (rule tbl_modify_split[OF as])
    fix us y z vs
    assume s: "db_accounts d = us @ y # vs" "as = us @ z # vs" "f y = Some z"
      and y: "List.find (\<lambda>a. acc_name a = n) (db_accounts d) = Some y"
    have "\<forall>a \<in> set (us @ y # vs). account_stake_ok a" using assms(2) by (simp add: stake_ok_def s(1)[symmetric])
    then show ?thesis using x assms(3)[OF _ s(3)] s(2) y by (auto simp: find_account_def)
  qed
  then show ?thesis using assms(2) by (simp add: stake_ok_def d')
qed

lemma stake_ok_frame:
  assumes "vote_frame d d'" "stake_ok d"
  shows "stake_ok d'"
proof -
  have m: "map account_stake_ok (db_accounts d') = map account_stake_ok (db_accounts d)"
    by (rule strip_field[OF vote_frameD(6)[OF assms(1)]]) (simp add: account_stake_ok_def strip_votes_def)
  have "list_all id (map account_stake_ok xs) = (\<forall>a \<in> set xs. account_stake_ok a)" for xs by (simp add: list_all_iff)
  moreover have "db_routes d' = db_routes d" using assms(1) by (auto simp: vote_frame_def)
  ultimately show ?thesis using assms(2) m unfolding stake_ok_def by metis
qed

text \<open>When an account is due next, and what time it is.\<close>

definition withdrawal_times :: "chain_db \<Rightarrow> (account_name_type \<times> nat \<times> time) list \<times> time" where
  "withdrawal_times d = (map (\<lambda>a. (acc_name a, acc_id a, acc_nextSCOREwithdrawalTime a)) (db_accounts d), head_block_time d)"

lemma modify_account_times:
  assumes "modify_account n f d = Some d'"
    "\<And>a b. f a = Some b \<Longrightarrow> acc_name b = acc_name a \<and> acc_id b = acc_id a \<and>
       acc_nextSCOREwithdrawalTime b = acc_nextSCOREwithdrawalTime a"
  shows "withdrawal_times d' = withdrawal_times d"
proof -
  from assms(1) obtain as where as: "tbl_modify (\<lambda>a. acc_name a = n) f (db_accounts d) = Some as"
    and d': "d' = d\<lparr>db_accounts := as\<rparr>"
    by (auto simp: modify_account_def bind_Some_iff)
  have "map (\<lambda>a. (acc_name a, acc_id a, acc_nextSCOREwithdrawalTime a)) as
      = map (\<lambda>a. (acc_name a, acc_id a, acc_nextSCOREwithdrawalTime a)) (db_accounts d)"
    by (rule map_key_modify[OF as]) (use assms(2) in auto)
  then show ?thesis by (simp add: withdrawal_times_def d' head_block_time_def)
qed

lemma vote_frame_times:
  assumes "vote_frame d d'"
  shows "withdrawal_times d' = withdrawal_times d"
  using strip_field[OF vote_frameD(6)[OF assms], of "\<lambda>a. (acc_name a, acc_id a, acc_nextSCOREwithdrawalTime a)"]
    vote_frameD(9)[OF assms] by (simp add: withdrawal_times_def strip_votes_def)

text \<open>Deposits never take SCORE from anybody.\<close>

definition score_grows :: "chain_db \<Rightarrow> chain_db \<Rightarrow> bool" where
  "score_grows d d' \<longleftrightarrow> (\<forall>n a. find_account n d = Some a \<longrightarrow>
     (\<exists>b. find_account n d' = Some b \<and> amount (acc_SCORE a) \<le> amount (acc_SCORE b)))"

lemma score_grows_refl: "score_grows d d"
  by (simp add: score_grows_def)

lemma score_grows_trans: "score_grows d d1 \<Longrightarrow> score_grows d1 d2 \<Longrightarrow> score_grows d d2"
  unfolding score_grows_def by (meson order_trans)

lemma modify_account_grows:
  assumes "modify_account n f d = Some d'"
    "\<And>a b. f a = Some b \<Longrightarrow> acc_name b = acc_name a \<and> amount (acc_SCORE a) \<le> amount (acc_SCORE b)"
  shows "score_grows d d'"
  unfolding score_grows_def
proof (intro allI impI)
  fix m a
  assume a: "find_account m d = Some a"
  have k: "acc_name y = acc_name x" if "f x = Some y" for x y using that assms(2) by blast
  show "\<exists>b. find_account m d' = Some b \<and> amount (acc_SCORE a) \<le> amount (acc_SCORE b)"
  proof (cases "m = n")
    case True
    then show ?thesis using find_account_modify_same[OF assms(1) k] a assms(2) by fastforce
  next
    case False
    then show ?thesis using find_account_modify_other[OF assms(1) k False] a by simp
  qed
qed

lemma vote_frame_grows: "vote_frame d d' \<Longrightarrow> score_grows d d'"
  unfolding score_grows_def
proof (intro allI impI)
  fix n a
  assume f: "vote_frame d d'" and a: "find_account n d = Some a"
  from find_account_strip[OF f, of n] a obtain b where b: "find_account n d' = Some b" "strip_votes b = strip_votes a" by auto
  show "\<exists>b. find_account n d' = Some b \<and> amount (acc_SCORE a) \<le> amount (acc_SCORE b)"
    by (rule exI[of _ b]) (simp add: b(1) strip_votes_eq(3)[OF b(2)])
qed

lemma modify_gpo_grows: "modify_gpo f d = Some d' \<Longrightarrow> score_grows d d'"
  by (auto simp: score_grows_def find_account_def dest!: modify_gpo_moves)

lemma modify_gpo_stake_ok: "modify_gpo f d = Some d' \<Longrightarrow> stake_ok d' = stake_ok d"
  by (auto simp: stake_ok_def dest!: modify_gpo_moves)

lemma find_account_stake: "find_account n d = Some a \<Longrightarrow> stake_ok d \<Longrightarrow> account_stake_ok a"
  by (auto simp: stake_ok_def find_account_def dest!: find_Some_P)

lemma set_routes_of: "set (routes_of i d) \<subseteq> set (db_routes d)"
  using set_takeWhileD by (fastforce simp: routes_of_def)

context fc_library
begin

lemma withdrawn_now_bounds:
  assumes "withdrawn_now F a = Some w" "account_stake_ok a"
  shows "0 \<le> w \<and> w \<le> amount (acc_SCORE a)"
  using assms
  by (auto simp: withdrawn_now_def account_stake_ok_def bind_Some_iff safe_mod_law smod_mod_positive min_def
      split: if_splits)

lemma route_share_exact:
  assumes "0 \<le> w" "w < 2 ^ 63" "route_ok r"
  shows "route_share F w r = Some (w * wro_percent r div PERCENT_100)"
    "0 \<le> w * wro_percent r div PERCENT_100" "w * wro_percent r div PERCENT_100 \<le> w"
proof -
  let ?p = "wro_percent r"
  have p: "0 \<le> ?p" "?p \<le> 10000" using assms(3) by (simp_all add: route_ok_def PERCENT_100_def)
  have u: "u128_of F w = w" "u128_of F ?p = ?p" "u128_of F 10000 = 10000"
    using assms(1,2) p by (simp_all add: u128_of_law)
  have b: "0 \<le> w * ?p" "w * ?p \<le> w * 10000" using assms(1) p by (simp_all add: mult_left_mono)
  have i: "in_u128 w" "in_u128 ?p" "in_u128 (w * ?p)" "in_u128 10000" using assms(1,2) p b by (simp_all add: in_u128_def)
  have q: "0 \<le> w * ?p div 10000" "w * ?p div 10000 \<le> w" using b assms(1) by (auto simp: div_le_dividend pos_imp_zdiv_nonneg_iff)
  have "in_u128 (w * ?p div 10000)" using q assms(2) by (simp add: in_u128_def)
  then show "route_share F w r = Some (w * ?p div PERCENT_100)"
    using assms(2) q
    by (simp add: route_share_def u u128_mul_law i u128_div_law u128_to_uint64_law int64_of_uint64_def PERCENT_100_def)
  show "0 \<le> w * ?p div PERCENT_100" "w * ?p div PERCENT_100 \<le> w" using q by (simp_all add: PERCENT_100_def)
qed

text \<open>Paying out of the fund.\<close>

lemma pay_from_fund_flow:
  assumes "pay_from_fund F c x d = Some d'"
  shows "moves d d' (- amount c) 0 x 0" "votes_flow d d' x" "money_frame d d'" "stake_ok d' = stake_ok d"
    "withdrawal_times d' = withdrawal_times d"
proof -
  note m = assms[unfolded pay_from_fund_def]
  from modify_gpo_moves[OF m] obtain g where d': "d' = d\<lparr>db_gpo := g\<rparr>"
    and g: "amount (gpo_totalTMEfundForSCORE g) = amount (gpo_totalTMEfundForSCORE (db_gpo d)) - amount c"
      "amount (gpo_totalSCORE g) = amount (gpo_totalSCORE (db_gpo d)) - x"
      "gpo_time g = gpo_time (db_gpo d)" "gpo_current_supply g = gpo_current_supply (db_gpo d)"
      "gpo_current_TSD_supply g = gpo_current_TSD_supply (db_gpo d)" "gpo_total_reward_fund_TME g = gpo_total_reward_fund_TME (db_gpo d)"
      "gpo_pending_rewarded_SCORE g = gpo_pending_rewarded_SCORE (db_gpo d)"
      "gpo_pending_rewarded_SCOREvalueInTME g = gpo_pending_rewarded_SCOREvalueInTME (db_gpo d)"
    by (auto simp: bind_Some_iff dest!: asset_sub_SomeD safe_sub_SomeD)
  show "moves d d' (- amount c) 0 x 0" using g by (simp add: moves_def gap_defs d')
  show "votes_flow d d' x" using g(2) by (simp add: votes_flow_def d' voters_gpo)
  show "money_frame d d'" by (rule modify_gpo_frame[OF m]) (auto simp: bind_Some_iff)
  show "stake_ok d' = stake_ok d" by (rule modify_gpo_stake_ok[OF m])
  show "withdrawal_times d' = withdrawal_times d" using g(3) by (simp add: withdrawal_times_def d' head_block_time_def)
qed

text \<open>One deposit of SCORE, and one of TME.\<close>

lemma deposit_SCORE_step:
  assumes "modify_account n (\<lambda>a. do { s \<leftarrow> safe_add F (amount (acc_SCORE a)) x;
       Some (a\<lparr>acc_SCORE := (acc_SCORE a)\<lparr>amount := s\<rparr>\<rparr>) }) d = Some d1"
    "adjust_proxied_witness_vote F n x 0 d1 = Some d2" "0 \<le> x" "stake_ok d"
  shows "stake_flow d d2 x" "stake_ok d2" "withdrawal_times d2 = withdrawal_times d" "score_grows d d2"
proof -
  have fr: "vote_frame d1 d2" by (rule single_walk.walk_frame[OF assms(2)])
  have "moves d d1 0 0 x 0"
    using modify_account_moves[OF assms(1)] by (auto simp: bind_Some_iff acct_defs dest!: safe_add_SomeD)
  moreover have "money_frame d d1" by (rule modify_account_frame[OF assms(1)]) (auto simp: bind_Some_iff)
  moreover have g: "modify_gpo Some d1 = Some d1" by (simp add: modify_gpo_def)
  have "votes_flow d d2 (x - 0)"
    by (rule score_flow[OF assms(1) g])
       (use assms(2) modify_account_gpo[OF assms(1)] in \<open>auto simp: bind_Some_iff dest!: safe_add_SomeD\<close>)
  ultimately show "stake_flow d d2 x"
    using single_walk_keeps[OF assms(2)] ledger_ok_frame by (auto simp: stake_flow_def moves_def)
  have "stake_ok d1"
    by (rule modify_account_stake_ok[OF assms(1,4)])
       (use assms(3) in \<open>auto simp: bind_Some_iff account_stake_ok_def int64_def dest!: safe_add_SomeD\<close>)
  then show "stake_ok d2" by (rule stake_ok_frame[OF fr])
  have "withdrawal_times d1 = withdrawal_times d" by (rule modify_account_times[OF assms(1)]) (auto simp: bind_Some_iff)
  then show "withdrawal_times d2 = withdrawal_times d" using vote_frame_times[OF fr] by simp
  have "score_grows d d1"
    by (rule modify_account_grows[OF assms(1)]) (use assms(3) in \<open>auto simp: bind_Some_iff dest!: safe_add_SomeD\<close>)
  then show "score_grows d d2" by (rule score_grows_trans[OF _ vote_frame_grows[OF fr]])
qed

lemma deposit_TME_step:
  assumes "modify_account n (\<lambda>a. do { b \<leftarrow> asset_add F (acc_balance a) c; Some (a\<lparr>acc_balance := b\<rparr>) }) d = Some d1"
    "pay_from_fund F c x d1 = Some d2" "stake_ok d"
  shows "stake_flow d d2 x" "stake_ok d2" "withdrawal_times d2 = withdrawal_times d" "score_grows d d2"
proof -
  note p = pay_from_fund_flow[OF assms(2)]
  have "moves d d1 (amount c) 0 0 0"
    using modify_account_moves[OF assms(1)] by (auto simp: bind_Some_iff acct_defs dest!: asset_add_SomeD)
  moreover have "money_frame d d1" by (rule modify_account_frame[OF assms(1)]) (auto simp: bind_Some_iff)
  moreover have "votes_frame d d1" by (rule modify_account_votes_frame[OF assms(1)]) (auto simp: bind_Some_iff vote_view_def)
  ultimately show "stake_flow d d2 x"
    using p(1-3) ledger_ok_frame votes_flow_trans[OF votes_frame_flow p(2)] by (auto simp: stake_flow_def moves_def)
  have "stake_ok d1"
    by (rule modify_account_stake_ok[OF assms(1,3)]) (auto simp: bind_Some_iff account_stake_ok_def)
  then show "stake_ok d2" using p(4) by simp
  have "withdrawal_times d1 = withdrawal_times d" by (rule modify_account_times[OF assms(1)]) (auto simp: bind_Some_iff)
  then show "withdrawal_times d2 = withdrawal_times d" using p(5) by simp
  have "score_grows d d1" by (rule modify_account_grows[OF assms(1)]) (auto simp: bind_Some_iff)
  then show "score_grows d d2" by (rule score_grows_trans[OF _ modify_gpo_grows[OF assms(2)[unfolded pay_from_fund_def]]])
qed

lemma deposit_SCORE_flow:
  assumes "0 \<le> w" "w < 2 ^ 63"
  shows "deposit_SCORE F w rs k d = Some (d', k') \<Longrightarrow> \<forall>r \<in> set rs. route_ok r \<Longrightarrow> stake_ok d \<Longrightarrow>
    stake_flow d d' (k' - k) \<and> stake_ok d' \<and> withdrawal_times d' = withdrawal_times d \<and> score_grows d d'"
proof (induction rs arbitrary: k d)
  case Nil
  then show ?case by (simp add: stake_flow_refl score_grows_refl)
next
  case (Cons r rs)
  show ?case
  proof (cases "wro_autoSCORE r")
    case True
    let ?x = "w * wro_percent r div PERCENT_100"
    have rok: "route_ok r" using Cons.prems(2) by simp
    note x = route_share_exact[OF assms rok]
    from True Cons.prems(1) x(1) obtain k1 d2 where k1: "safe_add F k ?x = Some k1"
      and d2: "(if ?x > 0 then do {
                to_account \<leftarrow> get_account_id (wro_to_account r) d;
                d1 \<leftarrow> modify_account (acc_name to_account) (\<lambda>a. do {
                        s \<leftarrow> safe_add F (amount (acc_SCORE a)) ?x;
                        Some (a\<lparr>acc_SCORE := (acc_SCORE a)\<lparr>amount := s\<rparr>\<rparr>) }) d;
                adjust_proxied_witness_vote F (acc_name to_account) ?x 0 d1 }
              else Some d) = Some d2"
      and r: "deposit_SCORE F w rs k1 d2 = Some (d', k')"
      by (auto simp: bind_Some_iff)
    have s: "stake_flow d d2 ?x" "stake_ok d2" "withdrawal_times d2 = withdrawal_times d" "score_grows d d2"
      using d2 x(2) Cons.prems(3) stake_flow_refl score_grows_refl
      by (auto simp: bind_Some_iff split: if_splits intro: deposit_SCORE_step)
    from Cons.IH[OF r _ s(2)] Cons.prems(2) have i: "stake_flow d2 d' (k' - k1)" "stake_ok d'"
      "withdrawal_times d' = withdrawal_times d2" "score_grows d2 d'" by auto
    show ?thesis
      using stake_flow_trans[OF s(1) i(1)] i(2,3) s(3) score_grows_trans[OF s(4) i(4)] safe_add_SomeD[OF k1] by simp
  qed (use Cons in simp)
qed

lemma deposit_TME_flow:
  assumes "0 \<le> w" "w < 2 ^ 63"
  shows "deposit_TME F w rs k c d = Some (d', k') \<Longrightarrow> \<forall>r \<in> set rs. route_ok r \<Longrightarrow> stake_ok d \<Longrightarrow>
    stake_flow d d' (k' - k) \<and> stake_ok d' \<and> withdrawal_times d' = withdrawal_times d \<and> score_grows d d'"
proof (induction rs arbitrary: k c d)
  case Nil
  then show ?case by (simp add: stake_flow_refl score_grows_refl)
next
  case (Cons r rs)
  show ?case
  proof (cases "wro_autoSCORE r")
    case False
    let ?x = "w * wro_percent r div PERCENT_100"
    have rok: "route_ok r" using Cons.prems(2) by simp
    note x = route_share_exact[OF assms rok]
    from False Cons.prems(1) x(1) obtain n k1 d2 c1 c2 where k1: "safe_add F k ?x = Some k1"
      and d2: "(if ?x > 0 then do {
                d1 \<leftarrow> modify_account n (\<lambda>a. do {
                        b \<leftarrow> asset_add F (acc_balance a) c1;
                        Some (a\<lparr>acc_balance := b\<rparr>) }) d;
                pay_from_fund F c1 ?x d1 }
              else Some d) = Some d2"
      and r: "deposit_TME F w rs k1 c2 d2 = Some (d', k')"
      by (auto simp: bind_Some_iff)
    have s: "stake_flow d d2 ?x" "stake_ok d2" "withdrawal_times d2 = withdrawal_times d" "score_grows d d2"
      using d2 x(2) Cons.prems(3) stake_flow_refl score_grows_refl
      by (auto simp: bind_Some_iff split: if_splits intro: deposit_TME_step)
    from Cons.IH[OF r _ s(2)] Cons.prems(2) have i: "stake_flow d2 d' (k' - k1)" "stake_ok d'"
      "withdrawal_times d' = withdrawal_times d2" "score_grows d2 d'" by auto
    show ?thesis
      using stake_flow_trans[OF s(1) i(1)] i(2,3) s(3) score_grows_trans[OF s(4) i(4)] safe_add_SomeD[OF k1] by simp
  qed (use Cons in simp)
qed

text \<open>The last part of a round: the account itself pays and gets the rest.\<close>

lemma settle_SomeD:
  assumes "settle F w c a = Some b"
  shows "acc_name b = acc_name a" "acc_id b = acc_id a" "acc_proxied_votes b = acc_proxied_votes a"
    "acc_proxy b = acc_proxy a" "amount (acc_SCORE b) = amount (acc_SCORE a) - w"
    "acct_TME b = acct_TME a + amount c" "acct_TSD b = acct_TSD a" "acct_SCORE b = acct_SCORE a - w" "acct_PEND b = acct_PEND a"
    "acc_to_withdraw b = acc_to_withdraw a"
    "amount (acc_SCOREwithdrawRateInTME b) \<in> {0, amount (acc_SCOREwithdrawRateInTME a)}"
    "acc_nextSCOREwithdrawalTime b \<in> {secs_max F, secs_add F (acc_nextSCOREwithdrawalTime a) SCORE_WITHDRAW_INTERVAL_SECONDS}"
  using assms
  by (auto simp: settle_def Let_def bind_Some_iff acct_defs dest!: safe_sub_SomeD asset_add_SomeD safe_add_SomeD)

lemma withdraw_account_cases:
  assumes "withdraw_account F n d = Some d'"
  obtains a w d1 k1 d2 k2 x c d3 d4 where "find_account n d = Some a" "withdrawn_now F a = Some w"
    "deposit_SCORE F w (routes_of (acc_id a) d) 0 d = Some (d1, k1)"
    "deposit_TME F w (routes_of (acc_id a) d1) 0 (mk_asset 0 SYMBOL_COIN) d1 = Some (d2, k2)"
    "x = w - k2 - k1" "modify_account n (settle F w c) d2 = Some d3" "pay_from_fund F c x d3 = Some d4"
    "if w > 0 then adjust_proxied_witness_vote F n (- w) 0 d4 = Some d' else d' = d4"
proof -
  from assms obtain a w d1 k1 d2 k2 y x c d3 d4 where "find_account n d = Some a" "withdrawn_now F a = Some w"
    "deposit_SCORE F w (routes_of (acc_id a) d) 0 d = Some (d1, k1)"
    "deposit_TME F w (routes_of (acc_id a) d1) 0 (mk_asset 0 SYMBOL_COIN) d1 = Some (d2, k2)"
    "safe_sub F w k2 = Some y" "safe_sub F y k1 = Some x" "modify_account n (settle F w c) d2 = Some d3"
    "pay_from_fund F c x d3 = Some d4"
    "(if w > 0 then do { neg \<leftarrow> safe_neg F w; adjust_proxied_witness_vote F n neg 0 d4 } else Some d4) = Some d'"
    unfolding withdraw_account_def get_account_def
    by (auto simp only: bind_Some_iff split_paired_all prod.case)
  then show thesis
    by (intro that[of a w d1 k1 d2 k2 x c d3 d4])
       (auto simp: bind_Some_iff split: if_splits dest!: safe_sub_SomeD safe_neg_SomeD)
qed

lemma withdraw_account_flow:
  assumes "withdraw_account F n d = Some d'" "stake_ok d"
  shows "stake_flow d d' 0 \<and> stake_ok d'"
  using assms(1)
proof (cases rule: withdraw_account_cases)
  case (1 a w d1 k1 d2 k2 x c d3 d4)
  have a: "account_stake_ok a" by (rule find_account_stake[OF 1(1) assms(2)])
  from withdrawn_now_bounds[OF 1(2) a] a have w: "0 \<le> w" "w < 2 ^ 63" "w \<le> amount (acc_SCORE a)"
    by (auto simp: account_stake_ok_def)
  have rs: "\<forall>r \<in> set (routes_of i e). route_ok r" if "stake_ok e" for i e
    using that set_routes_of by (fastforce simp: stake_ok_def)
  from deposit_SCORE_flow[OF w(1,2) 1(3) rs[OF assms(2)] assms(2)]
  have s1: "stake_flow d d1 k1" "stake_ok d1" "score_grows d d1" by simp_all
  from deposit_TME_flow[OF w(1,2) 1(4) rs[OF s1(2)] s1(2)]
  have s2: "stake_flow d1 d2 k2" "stake_ok d2" "score_grows d1 d2" by simp_all
  note p = pay_from_fund_flow[OF 1(7)]
  have m3: "moves d2 d3 (amount c) 0 (- w) 0"
    using modify_account_moves[OF 1(6)] settle_SomeD(6-9) by fastforce
  have fr: "money_frame d2 d4"
    by (rule money_frame_trans[OF modify_account_frame[OF 1(6)] p(3)]) (use settle_SomeD(1,2) in blast)
  have k: "moves d4 d' 0 0 0 0 \<and> ledger_ok d' = ledger_ok d4 \<and> vote_frame d4 d'"
    using 1(8) single_walk_keeps single_walk.walk_frame moves_refl vote_frame_refl by (auto split: if_splits)
  have "votes_flow d2 d' (- w - (- x))"
  proof (rule score_flow[OF 1(6) 1(7)[unfolded pay_from_fund_def]])
    show "if - w \<noteq> 0 then adjust_proxied_witness_vote F n (- w) 0 d4 = Some d'
      else d' = d4 \<or> adjust_proxied_witness_vote F n (- w) 0 d4 = Some d'" using 1(8) w(1) by (auto split: if_splits)
    show "amount (gpo_totalSCORE (db_gpo d4)) = amount (gpo_totalSCORE (db_gpo d2)) + - x"
      using modify_gpo_moves[OF 1(7)[unfolded pay_from_fund_def]] modify_account_gpo[OF 1(6)]
      by (auto simp: bind_Some_iff dest!: safe_sub_SomeD)
  qed (use settle_SomeD(1-5) in force)
  then have "stake_flow d2 d' (x - w)"
    using m3 p(1) k ledger_ok_frame[OF fr] by (simp add: stake_flow_def moves_def)
  from stake_flow_trans[OF stake_flow_trans[OF s1(1) s2(1)] this] 1(5) have f: "stake_flow d d' 0" by simp
  from score_grows_trans[OF s1(3) s2(3)] 1(1) obtain b where
    b: "find_account n d2 = Some b" "amount (acc_SCORE a) \<le> amount (acc_SCORE b)" by (auto simp: score_grows_def)
  have "stake_ok d3"
    by (rule modify_account_stake_ok[OF 1(6) s2(2)])
       (use b w(1,3) settle_SomeD(5,10,11) in \<open>fastforce simp: account_stake_ok_def\<close>)
  then have "stake_ok d'" using p(4) k stake_ok_frame by blast
  with f show ?thesis by blast
qed

lemma withdrawals_loop_flow:
  "withdrawals_loop F fuel cur d = Some d' \<Longrightarrow> stake_ok d \<Longrightarrow> stake_flow d d' 0 \<and> stake_ok d'"
proof (induction fuel arbitrary: cur d)
  case 0
  then show ?case by (cases cur) (auto simp: bind_Some_iff stake_flow_refl split: if_splits)
next
  case (Suc fuel)
  from Suc.prems(1) consider "d' = d" | n cur' d1 where "withdraw_account F n d = Some d1"
    "withdrawals_loop F fuel cur' d1 = Some d'"
    by (cases cur) (auto simp: bind_Some_iff Let_def split: if_splits)
  then show ?case
  proof cases
    case 1
    then show ?thesis using Suc.prems(2) by (simp add: stake_flow_refl)
  next
    case 2
    from withdraw_account_flow[OF 2(1) Suc.prems(2)] have s: "stake_flow d d1 0" "stake_ok d1" by blast+
    from Suc.IH[OF 2(2) s(2)] stake_flow_trans[OF s(1)] show ?thesis by fastforce
  qed
qed

end

subsection \<open>The walk over the due accounts ends\<close>

text \<open>The clock is far from the end of its range and withdrawal times are on it.\<close>

definition clock_ok :: "chain_db \<Rightarrow> bool" where
  "clock_ok d \<longleftrightarrow> head_block_time d + SCORE_WITHDRAW_INTERVAL_SECONDS < 2 ^ 32 - 1 \<and>
     distinct (map acc_name (db_accounts d)) \<and> (\<forall>a \<in> set (db_accounts d). 0 \<le> acc_nextSCOREwithdrawalTime a)"

definition rounds_of :: "time \<Rightarrow> time \<Rightarrow> nat" where
  "rounds_of now t = (if t \<le> now then Suc (nat ((now - t) div SCORE_WITHDRAW_INTERVAL_SECONDS)) else 0)"

lemma withdrawal_rounds_alt:
  "withdrawal_rounds d = sum_list (map (\<lambda>a. rounds_of (head_block_time d) (acc_nextSCOREwithdrawalTime a)) (db_accounts d))"
  by (simp add: withdrawal_rounds_def rounds_of_def cong: if_cong)

lemma withdrawal_rounds_times:
  assumes "withdrawal_times d' = withdrawal_times d"
  shows "withdrawal_rounds d' = withdrawal_rounds d" "clock_ok d' = clock_ok d"
proof -
  let ?m = "\<lambda>a. (acc_name a, acc_id a, acc_nextSCOREwithdrawalTime a)"
  have m: "map ?m (db_accounts d') = map ?m (db_accounts d)" and h: "head_block_time d' = head_block_time d"
    using assms by (simp_all add: withdrawal_times_def)
  have g: "map (\<lambda>a. g (?m a)) (db_accounts d') = map (\<lambda>a. g (?m a)) (db_accounts d)" for g
    using arg_cong[OF m, of "map g"] by (simp add: comp_def)
  show "withdrawal_rounds d' = withdrawal_rounds d"
    using g[of "\<lambda>(n, i, t). rounds_of (head_block_time d) t"] by (simp add: withdrawal_rounds_alt h)
  have n: "map acc_name (db_accounts d') = map acc_name (db_accounts d)" using g[of "\<lambda>(n, i, t). n"] by simp
  have "map (\<lambda>a. 0 \<le> acc_nextSCOREwithdrawalTime a) (db_accounts d') = map (\<lambda>a. 0 \<le> acc_nextSCOREwithdrawalTime a) (db_accounts d)"
    using g[of "\<lambda>(n, i, t). 0 \<le> t"] by simp
  from arg_cong[OF this, of "\<lambda>bs. \<forall>b \<in> set bs. b"]
  have z: "(\<forall>a \<in> set (db_accounts d'). 0 \<le> acc_nextSCOREwithdrawalTime a) \<longleftrightarrow>
    (\<forall>a \<in> set (db_accounts d). 0 \<le> acc_nextSCOREwithdrawalTime a)" by simp
  show "clock_ok d' = clock_ok d" unfolding clock_ok_def by (simp only: h n z)
qed

lemma times_find:
  assumes "withdrawal_times d' = withdrawal_times d" "find_account n d' = Some b" "find_account n d = Some a"
  shows "acc_nextSCOREwithdrawalTime b = acc_nextSCOREwithdrawalTime a"
proof -
  let ?m = "\<lambda>a. (acc_name a, acc_id a, acc_nextSCOREwithdrawalTime a)"
  have "map_option acc_nextSCOREwithdrawalTime (List.find (\<lambda>a. acc_name a = n) as)
      = map_option acc_nextSCOREwithdrawalTime (List.find (\<lambda>a. acc_name a = n) bs)" if "map ?m as = map ?m bs" for as bs
    using that
  proof (induction as arbitrary: bs)
    case (Cons a as)
    then show ?case by (cases bs) auto
  qed simp
  from this[of "db_accounts d'" "db_accounts d"] assms show ?thesis by (simp add: withdrawal_times_def find_account_def)
qed

lemma rounds_of_later:
  assumes "0 \<le> t" "t \<le> now" "t' = t + SCORE_WITHDRAW_INTERVAL_SECONDS \<or> now < t'"
  shows "rounds_of now t' < rounds_of now t"
proof (cases "t' \<le> now")
  case True
  then have t': "t' = t + SCORE_WITHDRAW_INTERVAL_SECONDS" using assms(3) by simp
  let ?I = "SCORE_WITHDRAW_INTERVAL_SECONDS"
  have I: "?I > 0" by (simp add: SCORE_WITHDRAW_INTERVAL_SECONDS_def)
  have "(now - t) div ?I = (now - t') div ?I + 1"
    using div_add_self2[of ?I "now - t'"] I t' by (simp add: algebra_simps)
  moreover have "0 \<le> (now - t') div ?I" using True I by (simp add: pos_imp_zdiv_nonneg_iff)
  ultimately show ?thesis using True assms(2) by (simp add: rounds_of_def)
next
  case False
  then show ?thesis using assms(2) by (simp add: rounds_of_def)
qed

lemma modify_account_rounds:
  assumes "modify_account n f d = Some d'" "find_account n d = Some a" "f a = Some b"
    "\<And>a b. f a = Some b \<Longrightarrow> acc_name b = acc_name a" "clock_ok d" "0 \<le> acc_nextSCOREwithdrawalTime b"
    "rounds_of (head_block_time d) (acc_nextSCOREwithdrawalTime b) < rounds_of (head_block_time d) (acc_nextSCOREwithdrawalTime a)"
  shows "withdrawal_rounds d' < withdrawal_rounds d" "clock_ok d'"
proof -
  from assms(1) obtain as where as: "tbl_modify (\<lambda>a. acc_name a = n) f (db_accounts d) = Some as"
    and d': "d' = d\<lparr>db_accounts := as\<rparr>"
    by (auto simp: modify_account_def bind_Some_iff)
  have "withdrawal_rounds d' < withdrawal_rounds d \<and> clock_ok d'"
  proof (rule tbl_modify_split[OF as])
    fix us y z vs
    assume s: "db_accounts d = us @ y # vs" "as = us @ z # vs" "f y = Some z"
      and y: "List.find (\<lambda>a. acc_name a = n) (db_accounts d) = Some y"
    have e: "y = a" "z = b" using y assms(2,3) s(3) by (simp_all add: find_account_def)
    have "withdrawal_rounds d' < withdrawal_rounds d"
      using assms(7) s e by (simp add: withdrawal_rounds_alt d' head_block_time_def)
    moreover have "clock_ok d'"
      using assms(5,6) assms(4)[OF assms(3)] s e by (simp add: clock_ok_def d' head_block_time_def)
    ultimately show ?thesis by blast
  qed
  then show "withdrawal_rounds d' < withdrawal_rounds d" "clock_ok d'" by blast+
qed

lemma modify_account_ids:
  assumes "modify_account n f d = Some d'" "\<And>a b. f a = Some b \<Longrightarrow> acc_id b = acc_id a"
  shows "map acc_id (db_accounts d') = map acc_id (db_accounts d)"
proof -
  from assms(1) obtain as where as: "tbl_modify (\<lambda>a. acc_name a = n) f (db_accounts d) = Some as"
    and d': "d' = d\<lparr>db_accounts := as\<rparr>"
    by (auto simp: modify_account_def bind_Some_iff)
  show ?thesis by (rule tbl_modify_split[OF as]) (use assms(2) d' in auto)
qed

lemma withdrawal_times_ids:
  "withdrawal_times d' = withdrawal_times d \<Longrightarrow> map acc_id (db_accounts d') = map acc_id (db_accounts d)"
  unfolding withdrawal_times_def prod.inject by (drule conjunct1, drule arg_cong[where f = "map (\<lambda>(n, i, t). i)"]) (simp add: comp_def)

text \<open>The rounds of the walk: from the account at \<open>current\<close>, when it is due, to its successor in the
  index as it was before the account was handled.\<close>

inductive withdrawal_walk :: "fc_lib \<Rightarrow> nat option \<times> chain_db \<Rightarrow> nat option \<times> chain_db \<Rightarrow> bool" for F where
  stop: "withdrawal_walk F s s"
| round: "get_account_id i d = Some a \<Longrightarrow> acc_nextSCOREwithdrawalTime a \<le> head_block_time d \<Longrightarrow>
          withdraw_account F (acc_name a) d = Some d1 \<Longrightarrow>
          withdrawal_walk F (map_option acc_id (idx_next withdrawal_order a (db_accounts d)), d1) s' \<Longrightarrow>
          withdrawal_walk F (Some i, d) s'"

text \<open>The end of the walk: the account at \<open>current\<close> is handled and throws, or there is none, or it is not due.\<close>

definition walk_throws :: "fc_lib \<Rightarrow> nat option \<times> chain_db \<Rightarrow> bool" where
  "walk_throws F s = (case s of (None, d) \<Rightarrow> False | (Some i, d) \<Rightarrow> (case get_account_id i d of None \<Rightarrow> False
     | Some a \<Rightarrow> acc_nextSCOREwithdrawalTime a \<le> head_block_time d \<and> withdraw_account F (acc_name a) d = None))"

definition walk_over :: "nat option \<times> chain_db \<Rightarrow> bool" where
  "walk_over s = (case s of (None, d) \<Rightarrow> True | (Some i, d) \<Rightarrow> (case get_account_id i d of None \<Rightarrow> False
     | Some a \<Rightarrow> head_block_time d < acc_nextSCOREwithdrawalTime a))"

definition current_ok :: "nat option \<Rightarrow> chain_db \<Rightarrow> bool" where
  "current_ok cur d \<longleftrightarrow> set_option cur \<subseteq> set (map acc_id (db_accounts d))"

lemma current_ok_get: "current_ok (Some i) d \<Longrightarrow> \<exists>a. get_account_id i d = Some a"
  by (cases "get_account_id i d") (auto simp: current_ok_def get_account_id_def find_None_iff)

lemma current_ok_next: "current_ok (map_option acc_id (idx_next key a (db_accounts d))) d"
  by (auto simp: current_ok_def idx_next_def idx_sorted_def dest!: find_Some_P)

lemma current_ok_begin: "current_ok (map_option acc_id (idx_begin key (db_accounts d))) d"
  by (cases "idx_begin key (db_accounts d)") (auto simp: current_ok_def dest!: idx_begin_Some)

context fc_library
begin

lemma withdraw_account_rounds:
  assumes "withdraw_account F n d = Some d'" "stake_ok d" "clock_ok d" "find_account n d = Some a"
    "acc_nextSCOREwithdrawalTime a \<le> head_block_time d"
  shows "withdrawal_rounds d' < withdrawal_rounds d \<and> clock_ok d' \<and> stake_ok d' \<and>
    map acc_id (db_accounts d') = map acc_id (db_accounts d)"
  using assms(1)
proof (cases rule: withdraw_account_cases)
  case (1 a' w d1 k1 d2 k2 x c d3 d4)
  have a': "a' = a" using 1(1) assms(4) by simp
  have as: "account_stake_ok a" by (rule find_account_stake[OF assms(4,2)])
  from withdrawn_now_bounds[OF 1(2)[unfolded a'] as] as have w: "0 \<le> w" "w < 2 ^ 63" by (auto simp: account_stake_ok_def)
  have rs: "\<forall>r \<in> set (routes_of i e). route_ok r" if "stake_ok e" for i e
    using that set_routes_of by (fastforce simp: stake_ok_def)
  from deposit_SCORE_flow[OF w 1(3) rs[OF assms(2)] assms(2)]
  have s1: "withdrawal_times d1 = withdrawal_times d" "stake_ok d1" by simp_all
  from deposit_TME_flow[OF w 1(4) rs[OF s1(2)] s1(2)] s1(1)
  have s2: "withdrawal_times d2 = withdrawal_times d" by simp
  have ck: "clock_ok d2" "withdrawal_rounds d2 = withdrawal_rounds d" "head_block_time d2 = head_block_time d"
    using withdrawal_rounds_times[OF s2] assms(3) s2 by (simp_all add: withdrawal_times_def)
  have nk: "acc_name q = acc_name p" if "settle F w c p = Some q" for p q by (rule settle_SomeD(1)[OF that])
  from find_account_modify_same[OF 1(6) nk] obtain b e where b: "find_account n d2 = Some b" "settle F w c b = Some e" by blast
  have t: "acc_nextSCOREwithdrawalTime b = acc_nextSCOREwithdrawalTime a"
    by (rule times_find[OF s2 b(1) assms(4)])
  have "0 \<le> acc_nextSCOREwithdrawalTime b"
    using ck(1) b(1) find_Some_P by (fastforce simp: clock_ok_def find_account_def)
  moreover have "acc_nextSCOREwithdrawalTime b + SCORE_WITHDRAW_INTERVAL_SECONDS < 2 ^ 32 - 1"
    using assms(3,5) t by (simp add: clock_ok_def)
  ultimately have e: "acc_nextSCOREwithdrawalTime e = 2 ^ 32 - 1 \<or>
      acc_nextSCOREwithdrawalTime e = acc_nextSCOREwithdrawalTime b + SCORE_WITHDRAW_INTERVAL_SECONDS"
    and nn: "0 \<le> acc_nextSCOREwithdrawalTime b"
    using settle_SomeD(12)[OF b(2)] by (auto simp: secs_max_law secs_add_law SCORE_WITHDRAW_INTERVAL_SECONDS_def)
  have "rounds_of (head_block_time d2) (acc_nextSCOREwithdrawalTime e) < rounds_of (head_block_time d2) (acc_nextSCOREwithdrawalTime b)"
    using e nn assms(3,5) t ck(3) by (intro rounds_of_later) (auto simp: clock_ok_def SCORE_WITHDRAW_INTERVAL_SECONDS_def)
  from modify_account_rounds[OF 1(6) b nk ck(1) _ this] e nn ck(2)
  have r: "withdrawal_rounds d3 < withdrawal_rounds d" "clock_ok d3" by (auto simp: SCORE_WITHDRAW_INTERVAL_SECONDS_def)
  have "withdrawal_times d' = withdrawal_times d3"
    using 1(8) pay_from_fund_flow(5)[OF 1(7)] vote_frame_times[OF single_walk.walk_frame] by (auto split: if_splits)
  moreover have "map acc_id (db_accounts d3) = map acc_id (db_accounts d2)"
    by (rule modify_account_ids[OF 1(6)]) (rule settle_SomeD(2))
  ultimately show ?thesis
    using withdrawal_rounds_times[of d' d3] withdrawal_times_ids[of d' d3] withdrawal_times_ids[OF s2]
      r withdraw_account_flow[OF assms(1,2)] by simp
qed

lemma due_rounds:
  assumes "get_account_id i d = Some a" "acc_nextSCOREwithdrawalTime a \<le> head_block_time d"
  shows "0 < withdrawal_rounds d"
proof -
  have "a \<in> set (db_accounts d)" using assms(1) find_Some_P by (fastforce simp: get_account_id_def)
  then have "rounds_of (head_block_time d) (acc_nextSCOREwithdrawalTime a) \<le> withdrawal_rounds d"
    unfolding withdrawal_rounds_alt by (intro member_le_sum_list) auto
  then show ?thesis using assms(2) by (simp add: rounds_of_def)
qed

text \<open>More fuel than rounds makes no difference: the walk has come to its end.\<close>

lemma withdrawals_loop_fuel:
  "stake_ok d \<Longrightarrow> clock_ok d \<Longrightarrow> withdrawal_rounds d \<le> m \<Longrightarrow> withdrawal_rounds d \<le> m' \<Longrightarrow>
   withdrawals_loop F m cur d = withdrawals_loop F m' cur d"
proof (induction m arbitrary: m' cur d)
  case 0
  show ?case
  proof (cases "\<exists>i a. cur = Some i \<and> get_account_id i d = Some a \<and> acc_nextSCOREwithdrawalTime a \<le> head_block_time d")
    case True
    then show ?thesis using due_rounds 0 by fastforce
  next
    case False
    then show ?thesis by (cases cur) (auto intro!: Option.bind_cong)
  qed
next
  case (Suc m)
  show ?case
  proof (cases "\<exists>i a. cur = Some i \<and> get_account_id i d = Some a \<and> acc_nextSCOREwithdrawalTime a \<le> head_block_time d")
    case True
    then obtain i a where a: "cur = Some i" "get_account_id i d = Some a" "acc_nextSCOREwithdrawalTime a \<le> head_block_time d"
      by blast
    from due_rounds[OF a(2,3)] Suc.prems(4) obtain k where k: "m' = Suc k" by (cases m') auto
    have "a \<in> set (db_accounts d)" using a(2) find_Some_P by (fastforce simp: get_account_id_def)
    then have f: "find_account (acc_name a) d = Some a"
      using find_unique[of acc_name "db_accounts d" a] Suc.prems(2) by (simp add: find_account_def clock_ok_def)
    have "withdrawals_loop F m c d1 = withdrawals_loop F k c d1" if "withdraw_account F (acc_name a) d = Some d1" for c d1
      using withdraw_account_rounds[OF that Suc.prems(1,2) f a(3)] Suc.prems(3,4) k by (intro Suc.IH) auto
    then show ?thesis by (simp add: a k Let_def cong: Option.bind_cong)
  next
    case False
    then show ?thesis by (cases cur) (auto intro!: Option.bind_cong)
  qed
qed

text \<open>With a round for every interval that an account is behind, the loop follows the walk to its end.\<close>

lemma withdrawals_loop_walk:
  "stake_ok d \<Longrightarrow> clock_ok d \<Longrightarrow> current_ok cur d \<Longrightarrow> withdrawal_rounds d \<le> m \<Longrightarrow>
   (case withdrawals_loop F m cur d of
      None \<Rightarrow> \<exists>s. withdrawal_walk F (cur, d) s \<and> walk_throws F s
    | Some d' \<Rightarrow> \<exists>c. withdrawal_walk F (cur, d) (c, d') \<and> walk_over (c, d'))"
proof (induction m arbitrary: cur d)
  case 0
  show ?case
  proof (cases cur)
    case (Some i)
    then obtain a where a: "get_account_id i d = Some a" using current_ok_get 0 by blast
    then have "head_block_time d < acc_nextSCOREwithdrawalTime a" using due_rounds[OF a] 0(4) by force
    then show ?thesis using a Some withdrawal_walk.stop by (fastforce simp: walk_over_def)
  qed (use withdrawal_walk.stop in \<open>fastforce simp: walk_over_def\<close>)
next
  case (Suc m)
  show ?case
  proof (cases cur)
    case (Some i)
    then obtain a where a: "get_account_id i d = Some a" using current_ok_get Suc.prems by blast
    let ?c = "map_option acc_id (idx_next withdrawal_order a (db_accounts d))"
    consider (early) "head_block_time d < acc_nextSCOREwithdrawalTime a"
      | (throws) "acc_nextSCOREwithdrawalTime a \<le> head_block_time d" "withdraw_account F (acc_name a) d = None"
      | (on) d1 where "acc_nextSCOREwithdrawalTime a \<le> head_block_time d" "withdraw_account F (acc_name a) d = Some d1"
      by (cases "withdraw_account F (acc_name a) d"; force)
    then show ?thesis
    proof cases
      case early
      then show ?thesis using a Some withdrawal_walk.stop by (fastforce simp: walk_over_def)
    next
      case throws
      then have "walk_throws F (cur, d)" using a Some by (simp add: walk_throws_def)
      then show ?thesis using throws a Some withdrawal_walk.stop by (fastforce simp: Let_def)
    next
      case on
      have "a \<in> set (db_accounts d)" using a find_Some_P by (fastforce simp: get_account_id_def)
      then have f: "find_account (acc_name a) d = Some a"
        using find_unique[of acc_name "db_accounts d" a] Suc.prems(2) by (simp add: find_account_def clock_ok_def)
      note w = withdraw_account_rounds[OF on(2) Suc.prems(1,2) f on(1)]
      have "current_ok ?c d1" using current_ok_next[of withdrawal_order a d] w by (simp add: current_ok_def)
      note ih = Suc.IH[OF _ _ this]
      have "withdrawals_loop F (Suc m) cur d = withdrawals_loop F m ?c d1"
        using a on Some by (simp add: Let_def)
      with ih w Suc.prems(4) show ?thesis
        using withdrawal_walk.round[OF a on] Some by (auto split: option.splits)
    qed
  qed (use withdrawal_walk.stop in \<open>fastforce simp: walk_over_def\<close>)
qed

end

end
