(* ===== verification/Routes.thy ===== *)
theory Routes
  imports Stake
begin

text \<open>
  Withdraw routes and the weekly withdrawals as a whole: the routes of an account never hand out more
  than 100 percent, so a withdrawal never deposits more than it withdraws; the withdrawals conserve
  funds and votes, and the walk over the due accounts comes to an end.
\<close>

subsection \<open>The percentages of an account\<close>

definition route_total :: "nat \<Rightarrow> chain_db \<Rightarrow> int" where
  "route_total i d = tsum (\<lambda>r. if wro_from_account r = i \<and> 0 < wro_to_account r then wro_percent r else 0) (db_routes d)"

definition routes_ok :: "chain_db \<Rightarrow> bool" where
  "routes_ok d \<longleftrightarrow> (\<forall>r \<in> set (db_routes d). route_ok r) \<and> (\<forall>i. route_total i d \<le> PERCENT_100)"

lemma routes_of_filter:
  "routes_of i d = filter (\<lambda>r. wro_from_account r = i \<and> 0 < wro_to_account r) (idx_sorted wro_key (db_routes d))"
proof -
  have "takeWhile (\<lambda>r. wro_from_account r = i) (filter (\<lambda>r. (i, 0) < wro_key r) xs)
      = filter (\<lambda>r. wro_from_account r = i \<and> 0 < wro_to_account r) xs" if "sorted (map wro_key xs)" for xs
    using that
  proof (induction xs)
    case (Cons x xs)
    show ?case
    proof (cases "(i, 0) < wro_key x \<and> wro_from_account x \<noteq> i")
      case True
      then have "i < wro_from_account x" by (auto simp: wro_key_def less_prod_def')
      moreover have "\<forall>y \<in> set xs. wro_from_account x \<le> wro_from_account y"
        using Cons.prems by (auto simp: wro_key_def less_eq_prod_def)
      ultimately have "filter (\<lambda>r. wro_from_account r = i \<and> 0 < wro_to_account r) (x # xs) = []"
        by (auto simp: filter_empty_conv)
      then show ?thesis using True by simp
    next
      case False
      then show ?thesis using Cons by (auto simp: wro_key_def less_prod_def')
    qed
  qed simp
  then show ?thesis by (simp add: routes_of_def idx_sorted_def)
qed

lemma tsum_routes_of: "tsum wro_percent (routes_of i d) = route_total i d"
proof -
  have "mset (routes_of i d) = mset (filter (\<lambda>r. wro_from_account r = i \<and> 0 < wro_to_account r) (db_routes d))"
    by (simp add: routes_of_filter idx_sorted_def)
  then have "tsum wro_percent (routes_of i d) = tsum wro_percent (filter (\<lambda>r. wro_from_account r = i \<and> 0 < wro_to_account r) (db_routes d))"
    by (simp only: sum_mset_sum_list[symmetric] mset_map)
  then show ?thesis by (simp add: route_total_def sum_list_map_filter')
qed

lemma total_percent_mod: "total_percent t rs mod 2 ^ 16 = (t + tsum wro_percent rs) mod 2 ^ 16"
  by (induction rs arbitrary: t) (simp_all add: mod_simps algebra_simps)

lemma total_percent_range: "0 \<le> t \<Longrightarrow> t < 2 ^ 16 \<Longrightarrow> 0 \<le> total_percent t rs \<and> total_percent t rs < 2 ^ 16"
  by (induction rs arbitrary: t) simp_all

lemma total_percent_exact:
  assumes "0 \<le> tsum wro_percent rs" "tsum wro_percent rs < 2 ^ 16"
  shows "total_percent 0 rs = tsum wro_percent rs"
  using total_percent_mod[of 0 rs] total_percent_range[of 0 rs] assms by simp

subsection \<open>Setting a route\<close>

lemma route_total_nonneg: "\<forall>r \<in> set (db_routes d). route_ok r \<Longrightarrow> 0 \<le> route_total i d"
  unfolding route_total_def by (rule sum_list_nonneg) (auto simp: route_ok_def)

text \<open>A change of the routes of account \<open>i\<close> adds at most one percentage to its total.\<close>

lemma route_total_set:
  assumes "d1 = d\<lparr>db_routes := rs\<rparr> \<or> d1 = (take_id t d)\<lparr>db_routes := rs\<rparr>" "\<forall>r \<in> set (db_routes d). route_ok r"
    "rs = db_routes d @ [r] \<or> rs = tbl_remove P (db_routes d) \<or> tbl_modify P (\<lambda>_. Some r) (db_routes d) = Some rs"
    "wro_from_account r = i" "route_ok r" "\<And>x. P x \<Longrightarrow> wro_from_account x = i"
  shows "\<forall>r \<in> set rs. route_ok r" "route_total i d1 \<le> route_total i d + wro_percent r"
    "j \<noteq> i \<Longrightarrow> route_total j d1 = route_total j d"
proof -
  let ?g = "\<lambda>j r. if wro_from_account r = j \<and> 0 < wro_to_account r then wro_percent r else 0"
  have rt: "route_total j d1 = tsum (?g j) rs" for j
    using assms(1) by (auto simp: route_total_def take_id_def)
  have nn: "0 \<le> ?g j x" if "x \<in> set (db_routes d)" for j x using assms(2) that by (simp add: route_ok_def)
  have "(\<forall>r \<in> set rs. route_ok r) \<and> tsum (?g i) rs \<le> tsum (?g i) (db_routes d) + wro_percent r \<and>
    (j \<noteq> i \<longrightarrow> tsum (?g j) rs = tsum (?g j) (db_routes d))" for j
    using assms(3)
  proof (elim disjE)
    assume "rs = db_routes d @ [r]"
    then show ?thesis using assms(2,4,5) by (simp add: route_ok_def)
  next
    assume r: "rs = tbl_remove P (db_routes d)"
    show ?thesis
    proof (cases "List.find P (db_routes d)")
      case None
      then show ?thesis using assms(2,5) r by (simp add: tsum_remove_none route_ok_def)
    next
      case (Some x)
      then have "x \<in> set (db_routes d)" "P x" using find_Some_P by fastforce+
      then show ?thesis
        using tsum_remove[OF Some, of "?g i"] tsum_remove[OF Some, of "?g j"] nn[of x i] assms(2,5,6) set_tbl_remove[of P "db_routes d"] r
        by (auto simp: route_ok_def)
    qed
  next
    assume m: "tbl_modify P (\<lambda>_. Some r) (db_routes d) = Some rs"
    show ?thesis
    proof (rule tbl_modify_split[OF m])
      fix us x y vs
      assume "db_routes d = us @ x # vs" "rs = us @ y # vs" "Some r = Some y" "P x"
      then show ?thesis using assms(2,4,5) assms(6)[of x] by (auto simp: route_ok_def)
    qed
  qed
  from this[of j] show "\<forall>r \<in> set rs. route_ok r" "route_total i d1 \<le> route_total i d + wro_percent r"
    "j \<noteq> i \<Longrightarrow> route_total j d1 = route_total j d" using rt by (auto simp: route_total_def)
qed

lemma tbl_modify_const: "tbl_modify P f xs = Some ys \<Longrightarrow> List.find P xs = Some x \<Longrightarrow> tbl_modify P (\<lambda>_. f x) xs = Some ys"
  by (induction xs arbitrary: ys) (auto split: if_splits)

lemma setWithdrawSCOREasTMEroute_cases:
  assumes "setWithdrawSCOREasTMEroute_do_apply op d = Some d'" "setWithdrawSCOREasTMEroute_validate op = Some ()"
  obtains i t r rs P d1 where "d1 = d\<lparr>db_routes := rs\<rparr> \<or> d1 = (take_id t d)\<lparr>db_routes := rs\<rparr>"
    "rs = db_routes d @ [r] \<or> rs = tbl_remove P (db_routes d) \<or> tbl_modify P (\<lambda>_. Some r) (db_routes d) = Some rs"
    "wro_from_account r = i" "route_ok r" "\<And>x. P x \<Longrightarrow> wro_from_account x = i" "db_routes d' = db_routes d1"
    "total_percent 0 (routes_of i d') \<le> PERCENT_100"
proof -
  from assms(2) have p: "0 \<le> wr_percent op" "wr_percent op \<le> PERCENT_100"
    by (auto simp: setWithdrawSCOREasTMEroute_validate_def bind_Some_iff)
  from assms(1) obtain a b where a: "get_account (wr_from_account op) d = Some a" and b: "get_account (wr_to_account op) d = Some b"
    by (auto simp: setWithdrawSCOREasTMEroute_do_apply_def bind_Some_iff)
  let ?P = "\<lambda>r. wro_key r = (acc_id a, acc_id b)"
  let ?r = "\<lambda>i. \<lparr>wro_id = i, wro_from_account = acc_id a, wro_to_account = acc_id b, wro_percent = wr_percent op,
     wro_autoSCORE = wr_autoSCORE op\<rparr>"
  have ok: "wro_from_account (?r k) = acc_id a" "route_ok (?r k)" for k using p by (simp_all add: route_ok_def)
  have P: "wro_from_account x = acc_id a" if "?P x" for x using that by (simp add: wro_key_def)
  note e = assms(1)[unfolded setWithdrawSCOREasTMEroute_do_apply_def a b Let_def, simplified]
  have acc: "db_routes e' = db_routes e" if "modify_account n f e = Some e'" for n f e e'
    using that by (auto simp: modify_account_def bind_Some_iff)
  show thesis
  proof (cases "List.find ?P (db_routes d)")
    case None
    with e obtain d1 where d1: "create_route (?r 0) d = Some d1" "db_routes d' = db_routes d1"
      "total_percent 0 (routes_of (acc_id a) d') \<le> PERCENT_100"
      by (auto simp: bind_Some_iff dest: acc)
    from d1(1) have "d1 = (take_id withdrawSCORE_route_object_type d)\<lparr>db_routes := db_routes d @ [?r (db_next_id d withdrawSCORE_route_object_type)]\<rparr>"
      by (auto simp: create_route_def bind_Some_iff tbl_emplace_def split: if_splits)
    then show ?thesis by (intro that[of d1 _ _ "?r (db_next_id d withdrawSCORE_route_object_type)" ?P, OF _ _ ok P d1(2,3)]) auto
  next
    case (Some x)
    show ?thesis
    proof (cases "wr_percent op = 0")
      case True
      with e Some have d1: "db_routes d' = db_routes (d\<lparr>db_routes := tbl_remove ?P (db_routes d)\<rparr>)"
        "total_percent 0 (routes_of (acc_id a) d') \<le> PERCENT_100" by (auto simp: bind_Some_iff dest: acc)
      show ?thesis by (intro that[OF _ _ ok P d1]) auto
    next
      case False
      with e Some obtain rs where rs: "tbl_modify ?P (\<lambda>r. Some (r\<lparr>wro_from_account := acc_id a, wro_to_account := acc_id b,
          wro_percent := wr_percent op, wro_autoSCORE := wr_autoSCORE op\<rparr>)) (db_routes d) = Some rs"
        "db_routes d' = db_routes (d\<lparr>db_routes := rs\<rparr>)" "total_percent 0 (routes_of (acc_id a) d') \<le> PERCENT_100"
        by (auto simp: bind_Some_iff)
      have "tbl_modify ?P (\<lambda>_. Some (?r (wro_id x))) (db_routes d) = Some rs"
        using tbl_modify_const[OF rs(1) Some] by (cases x) simp
      then show ?thesis by (intro that[of "d\<lparr>db_routes := rs\<rparr>", OF _ _ ok P rs(2,3)]) auto
    qed
  qed
qed

text \<open>C24. Setting a withdraw route keeps every percentage between 0 and 100 and the percentages an account
  gives to destinations with a positive id at 100 percent in total; the sum in 16 bits that the code
  compares does not wrap around.\<close>

theorem routes_bounded:
  assumes "routes_ok d" and "setWithdrawSCOREasTMEroute_validate op = Some ()"
    and "setWithdrawSCOREasTMEroute_do_apply op d = Some d'"
  shows "routes_ok d'"
  using assms(3,2)
proof (cases rule: setWithdrawSCOREasTMEroute_cases)
  case (1 i t r rs P d1)
  have ok: "\<forall>r \<in> set (db_routes d). route_ok r" and tot: "\<And>i. route_total i d \<le> PERCENT_100"
    using assms(1) by (simp_all add: routes_ok_def)
  note s = route_total_set[OF 1(1) ok 1(2-5)]
  have rs: "db_routes d' = rs" using 1(1,6) by (auto simp: take_id_def)
  have ok': "\<forall>r \<in> set (db_routes d'). route_ok r" using s(1) by (simp add: rs)
  have t: "route_total j d' = route_total j d1" for j using 1(6) by (simp add: route_total_def)
  have "route_total i d' < 2 ^ 16" using s(2) tot[of i] 1(4) by (simp add: t route_ok_def PERCENT_100_def)
  then have "route_total i d' \<le> PERCENT_100"
    using 1(7) total_percent_exact[of "routes_of i d'"] route_total_nonneg[OF ok', of i] by (simp add: tsum_routes_of)
  then show ?thesis using ok' s(3) tot t by (metis routes_ok_def)
qed

subsection \<open>Withdrawing\<close>

lemma shares_bound:
  assumes "0 \<le> w" "\<forall>r \<in> set rs. route_ok r" "tsum wro_percent rs \<le> PERCENT_100"
  shows "tsum (\<lambda>r. w * wro_percent r div PERCENT_100) rs \<le> w"
proof -
  have "PERCENT_100 * tsum (\<lambda>r. w * wro_percent r div PERCENT_100) xs \<le> w * tsum wro_percent xs" for xs
  proof (induction xs)
    case (Cons x xs)
    have "PERCENT_100 * (w * wro_percent x div PERCENT_100) \<le> w * wro_percent x"
      using pos_mod_sign[of PERCENT_100 "w * wro_percent x"] by (simp add: minus_mod_eq_mult_div[symmetric] PERCENT_100_def)
    then show ?case using Cons by (simp add: distrib_left)
  qed simp
  from this[of rs] have "PERCENT_100 * tsum (\<lambda>r. w * wro_percent r div PERCENT_100) rs \<le> PERCENT_100 * w"
    using mult_left_mono[OF assms(3,1)] by (simp add: mult.commute)
  then show ?thesis by (simp add: PERCENT_100_def)
qed

lemma vote_frame_routes: "vote_frame d d' \<Longrightarrow> db_routes d' = db_routes d"
  by (auto simp: vote_frame_def)

lemma modify_account_routes: "modify_account n f d = Some d' \<Longrightarrow> db_routes d' = db_routes d"
  by (auto simp: modify_account_def bind_Some_iff)

context fc_library
begin

lemma deposit_SCORE_sum:
  assumes "0 \<le> w" "w < 2 ^ 63"
  shows "deposit_SCORE F w rs k d = Some (d', k') \<Longrightarrow> \<forall>r \<in> set rs. route_ok r \<Longrightarrow>
    k' = k + tsum (\<lambda>r. if wro_autoSCORE r then w * wro_percent r div PERCENT_100 else 0) rs \<and> db_routes d' = db_routes d"
proof (induction rs arbitrary: k d)
  case (Cons r rs)
  note x = route_share_exact[OF assms, of r]
  have e: "db_routes d2 = db_routes d" if "modify_account n f d = Some d1" "adjust_proxied_witness_vote F n x 0 d1 = Some d2" for n f x d1 d2
    using modify_account_routes[OF that(1)] vote_frame_routes[OF single_walk.walk_frame[OF that(2)]] by simp
  show ?case
  proof (cases "wro_autoSCORE r")
    case True
    with Cons.prems x obtain d2 where "deposit_SCORE F w rs (k + w * wro_percent r div PERCENT_100) d2 = Some (d', k')"
      "db_routes d2 = db_routes d"
      by (auto simp: bind_Some_iff split: if_splits dest!: safe_add_SomeD dest: e)
    with Cons.IH Cons.prems(2) True show ?thesis by fastforce
  qed (use Cons in simp)
qed simp

lemma deposit_TME_sum:
  assumes "0 \<le> w" "w < 2 ^ 63"
  shows "deposit_TME F w rs k c d = Some (d', k') \<Longrightarrow> \<forall>r \<in> set rs. route_ok r \<Longrightarrow>
    k' = k + tsum (\<lambda>r. if wro_autoSCORE r then 0 else w * wro_percent r div PERCENT_100) rs"
proof (induction rs arbitrary: k c d)
  case (Cons r rs)
  note x = route_share_exact[OF assms, of r]
  show ?case
  proof (cases "wro_autoSCORE r")
    case False
    with Cons.prems x obtain c2 d2 where "deposit_TME F w rs (k + w * wro_percent r div PERCENT_100) c2 d2 = Some (d', k')"
      by (auto simp: bind_Some_iff dest!: safe_add_SomeD)
    from Cons.IH[OF this] Cons.prems(2) False show ?thesis by simp
  qed (use Cons in simp)
qed simp

end

text \<open>C25. When the routes of an account are within 100 percent, the deposits of a withdrawal along its
  routes, as SCORE and as TME, never exceed what is withdrawn: the check ``Deposited more SCORE than
  were supposed to be withdrawn'' cannot fail.\<close>

theorem withdrawal_not_overdrawn:
  assumes "fc_library F" and "stake_ok d" and "routes_ok d" and "find_account n d = Some a" and "withdrawn_now F a = Some w"
    and "deposit_SCORE F w (routes_of (acc_id a) d) 0 d = Some (d1, as_SCORE)"
    and "deposit_TME F w (routes_of (acc_id a) d1) 0 (mk_asset 0 SYMBOL_COIN) d1 = Some (d2, as_TME)"
  shows "as_SCORE + as_TME \<le> w"
proof -
  let ?x = "\<lambda>r. w * wro_percent r div PERCENT_100"
  have a: "account_stake_ok a" by (rule find_account_stake[OF assms(4,2)])
  from fc_library.withdrawn_now_bounds[OF assms(1,5) a] a have w: "0 \<le> w" "w < 2 ^ 63" by (auto simp: account_stake_ok_def)
  have rs: "\<forall>r \<in> set (routes_of (acc_id a) d). route_ok r"
    using assms(3) set_routes_of by (fastforce simp: routes_ok_def)
  note s = fc_library.deposit_SCORE_sum[OF assms(1) w assms(6) rs]
  have r1: "routes_of (acc_id a) d1 = routes_of (acc_id a) d" using s by (simp add: routes_of_def)
  note t = fc_library.deposit_TME_sum[OF assms(1) w assms(7), unfolded r1, OF rs]
  have "tsum (\<lambda>r. if wro_autoSCORE r then ?x r else 0) xs + tsum (\<lambda>r. if wro_autoSCORE r then 0 else ?x r) xs = tsum ?x xs" for xs
    by (induction xs) auto
  with s t have "as_SCORE + as_TME = tsum ?x (routes_of (acc_id a) d)" by simp
  also have "\<dots> \<le> w" using shares_bound[OF w(1) rs] assms(3) by (simp add: tsum_routes_of routes_ok_def)
  finally show ?thesis .
qed

text \<open>C26. The weekly withdrawals of SCORE, with all their routes, conserve TME, TSD, SCORE and pending
  rewards, keep every witness at the stake behind it and the votes of all accounts at the total of
  the chain, and never leave a negative stake.\<close>

theorem withdrawals_conserve:
  assumes "fc_library F" and "ledger_ok d" and "votes_ok d" and "stake_ok d"
    and "process_TME_fund_for_SCORE_withdrawals F d = Some d'"
  shows "ledger_ok d' \<and> gaps d' = gaps d \<and> votes_ok d' \<and> stake_ok d'"
proof -
  from fc_library.withdrawals_loop_flow[OF assms(1) assms(5)[unfolded process_TME_fund_for_SCORE_withdrawals_def] assms(4)]
  have "stake_flow d d' 0" "stake_ok d'" by blast+
  then show ?thesis using assms(2,3) votes_flow_votes_ok by (auto simp: stake_flow_def moves_gaps)
qed

text \<open>C27. The walk over the accounts whose withdrawal is due ends: with a clock that is not within one
  interval of its end, the rounds the loop is given never run out.  When it has a result, the walk has
  come to the end of the index or to an account that is not due, with that result; when it has none,
  the walk has come to a due account whose withdrawal throws.  More rounds change nothing.\<close>

theorem withdrawals_terminate:
  assumes "fc_library F" and "stake_ok d" and "clock_ok d" and "withdrawal_rounds d \<le> m"
    and "first = map_option acc_id (idx_begin withdrawal_order (db_accounts d))"
  shows "withdrawals_loop F m first d = process_TME_fund_for_SCORE_withdrawals F d
    \<and> (case process_TME_fund_for_SCORE_withdrawals F d of
         Some d' \<Rightarrow> \<exists>c. withdrawal_walk F (first, d) (c, d') \<and> walk_over (c, d')
       | None \<Rightarrow> \<exists>s. withdrawal_walk F (first, d) s \<and> walk_throws F s)"
  unfolding process_TME_fund_for_SCORE_withdrawals_def assms(5)
  by (intro conjI fc_library.withdrawals_loop_fuel[OF assms(1-4) order.refl]
      fc_library.withdrawals_loop_walk[OF assms(1-3) current_ok_begin order.refl])

subsection \<open>An example\<close>

text \<open>Alice withdraws a tenth of her SCORE this week; a quarter of it goes to Bob as SCORE, half of it to
  Carol as TME.\<close>

definition example_leaving :: account_object where
  "example_leaving = (example_account 0 ''alice'' 1000 500 1000000)\<lparr>
     acc_SCOREwithdrawRateInTME := SCORE 100000, acc_nextSCOREwithdrawalTime := 900, acc_to_withdraw := 1000000,
     acc_withdraw_routes := 2\<rparr>"

definition example_routes :: chain_db where
  "example_routes = example_db\<lparr>
     db_accounts := [example_leaving, example_account 1 ''bob'' 1000 0 2000000, example_account 2 ''carol'' 0 0 3000000],
     db_routes := [\<lparr>wro_id = 0, wro_from_account = 0, wro_to_account = 1, wro_percent = 2500, wro_autoSCORE = True\<rparr>,
                   \<lparr>wro_id = 1, wro_from_account = 0, wro_to_account = 2, wro_percent = 5000, wro_autoSCORE = False\<rparr>]\<rparr>"

lemmas example_routes_defs = example_routes_def example_leaving_def example_defs

lemma example_routes_ok: "routes_ok example_routes" "stake_ok example_routes" "clock_ok example_routes"
  by (auto simp: routes_ok_def route_ok_def route_total_def PERCENT_100_def stake_ok_def account_stake_ok_def clock_ok_def
      head_block_time_def SCORE_WITHDRAW_INTERVAL_SECONDS_def example_routes_defs)

lemma example_routes_votes: "votes_ok example_routes"
proof -
  have "proxy_rel example_routes = {}" by (auto simp: proxy_rel_def find_account_def example_routes_defs split: if_splits)
  then show ?thesis
    by (simp add: votes_ok_def acyclic_def)
       (simp add: voters_ok_def voted_def total_votes_def tally_def acct_votes_def stake_def example_routes_defs)
qed

definition example_deposited :: chain_db where
  "example_deposited = example_routes\<lparr>
     db_accounts := [example_leaving, example_account 1 ''bob'' 1000 0 2025000, example_account 2 ''carol'' 0 0 3000000]\<rparr>"

definition example_paid :: chain_db where
  "example_paid = example_deposited\<lparr>
     db_accounts := [example_leaving, example_account 1 ''bob'' 1000 0 2025000, example_account 2 ''carol'' 50 0 3000000],
     db_gpo := example_gpo\<lparr>gpo_totalTMEfundForSCORE := TME 5950, gpo_totalSCORE := SCORE 5950000\<rparr>\<rparr>"

definition example_withdrawn :: chain_db where
  "example_withdrawn = example_paid\<lparr>
     db_accounts := [example_leaving\<lparr>acc_SCORE := SCORE 900000, acc_balance := TME 1025, acc_withdrawn := 100000,
         acc_nextSCOREwithdrawalTime := 605700\<rparr>,
       example_account 1 ''bob'' 1000 0 2025000, example_account 2 ''carol'' 50 0 3000000],
     db_gpo := example_gpo\<lparr>gpo_totalTMEfundForSCORE := TME 5925, gpo_totalSCORE := SCORE 5925000\<rparr>\<rparr>"

lemma example_routes_of: "routes_of 0 example_routes = db_routes example_routes" "routes_of 0 example_deposited = db_routes example_routes"
  by (simp_all add: routes_of_def idx_sorted_def wro_key_def example_deposited_def example_routes_defs)

lemmas route_eval = route_share_def PERCENT_100_def int64_of_uint64_def int64_def get_account_id_def modify_account_def
  adjust_proxied_witness_vote.simps[of _ _ _ 0] get_account_def find_account_def adjust_witness_votes_def votes_of_def idx_sorted_def
  asset_mul_price_def asset_mul_leg_def get_SCORE_price_def symbol_name_simps asset_add_def asset_sub_def pay_from_fund_def
  modify_gpo_def

lemma example_deposits:
  "deposit_SCORE fc_exact 100000 (db_routes example_routes) 0 example_routes = Some (example_deposited, 25000)"
  "deposit_TME fc_exact 100000 (db_routes example_routes) 0 (TME 0) example_deposited = Some (example_paid, 50000)"
  by (simp_all add: route_eval example_deposited_def example_paid_def example_routes_defs symbol_distinct)

lemma example_leaving_now: "withdrawn_now fc_exact example_leaving = Some 100000"
  by (simp add: withdrawn_now_def example_leaving_def example_account_def int64_def)

lemma example_withdrawal: "withdraw_account fc_exact ''alice'' example_routes = Some example_withdrawn"
proof -
  have a: "get_account ''alice'' example_routes = Some example_leaving" "acc_id example_leaving = 0"
    by (simp_all add: get_account_def find_account_def example_routes_defs)
  show ?thesis
    by (simp add: withdraw_account_def a example_leaving_now example_routes_of example_deposits)
       (simp add: route_eval settle_def Let_def SCORE_WITHDRAW_INTERVAL_SECONDS_def
         example_withdrawn_def example_paid_def example_deposited_def example_routes_defs symbol_distinct)
qed

lemma example_withdrawals: "process_TME_fund_for_SCORE_withdrawals fc_exact example_routes = Some example_withdrawn"
proof -
  have r: "withdrawal_rounds example_routes = 1"
    by (simp add: withdrawal_rounds_def head_block_time_def SCORE_WITHDRAW_INTERVAL_SECONDS_def example_routes_defs)
  have b: "map_option acc_id (idx_begin withdrawal_order (db_accounts example_routes)) = Some 0"
    by (simp add: idx_begin_def idx_sorted_def withdrawal_order_def example_routes_defs)
  have a: "get_account_id 0 example_routes = Some example_leaving" "acc_nextSCOREwithdrawalTime example_leaving \<le> head_block_time example_routes"
    "acc_name example_leaving = ''alice''"
    by (simp_all add: get_account_id_def head_block_time_def example_routes_defs)
  have n: "map_option acc_id (idx_next withdrawal_order example_leaving (db_accounts example_routes)) = Some (Suc 0)"
    by (simp add: idx_next_def idx_sorted_def withdrawal_order_def example_routes_defs)
  have l: "withdrawals_loop fc_exact 0 (Some (Suc 0)) example_withdrawn = Some example_withdrawn"
    by (simp add: get_account_id_def head_block_time_def example_withdrawn_def example_paid_def example_deposited_def example_routes_defs)
  have "withdrawals_loop fc_exact (Suc 0) (Some 0) example_routes = withdrawals_loop fc_exact 0 (Some (Suc 0)) example_withdrawn"
    by (subst withdrawals_loop.simps) (simp add: a n example_withdrawal Let_def del: withdrawals_loop.simps)
  with l show ?thesis unfolding process_TME_fund_for_SCORE_withdrawals_def r b by simp
qed

theorem routes_bounded_witness:
  "routes_ok example_routes \<and>
   (\<exists>d'. setWithdrawSCOREasTMEroute_do_apply \<lparr>wr_from_account = ''alice'', wr_to_account = ''bob'', wr_percent = 5000,
      wr_autoSCORE = True\<rparr> example_routes = Some d' \<and> map wro_percent (db_routes d') = [5000, 5000] \<and> routes_ok d')"
proof -
  let ?op = "\<lparr>wr_from_account = ''alice'', wr_to_account = ''bob'', wr_percent = 5000, wr_autoSCORE = True\<rparr>"
  have v: "setWithdrawSCOREasTMEroute_validate ?op = Some ()" by code_simp
  have "map_option (\<lambda>d. map wro_percent (db_routes d)) (setWithdrawSCOREasTMEroute_do_apply ?op example_routes) = Some [5000, 5000]"
    by (simp add: setWithdrawSCOREasTMEroute_do_apply_def get_account_def find_account_def wro_key_def routes_of_def idx_sorted_def
        PERCENT_100_def example_routes_defs)
  then obtain d' where d': "setWithdrawSCOREasTMEroute_do_apply ?op example_routes = Some d'"
    "map wro_percent (db_routes d') = [5000, 5000]" by (simp only: map_option_eq_Some) (elim exE conjE, rule that)
  from routes_bounded[OF example_routes_ok(1) v d'(1)] d' example_routes_ok(1) show ?thesis
    by (intro conjI exI[of _ d'])
qed

theorem withdrawal_not_overdrawn_witness:
  "withdrawn_now fc_exact example_leaving = Some 100000 \<and> (25000 :: int) + 50000 \<le> 100000"
proof -
  have a: "find_account ''alice'' example_routes = Some example_leaving" "acc_id example_leaving = 0"
    by (simp_all add: find_account_def example_routes_defs)
  have "(25000 :: int) + 50000 \<le> 100000"
    by (rule withdrawal_not_overdrawn[OF fc_exact.fc_library_axioms example_routes_ok(2,1) a(1) example_leaving_now,
          unfolded a(2) example_routes_of, OF example_deposits(1), unfolded example_routes_of, OF example_deposits(2)])
  then show ?thesis using example_leaving_now by simp
qed

lemma example_routes_ledger: "ledger_ok example_routes" "gaps example_routes = (0, 0, 0, 0)"
  by (simp_all add: ledger_ok_def gaps_def gap_defs acct_defs example_routes_defs)

theorem withdrawals_conserve_witness:
  "process_TME_fund_for_SCORE_withdrawals fc_exact example_routes = Some example_withdrawn \<and>
   map (\<lambda>a. amount (acc_SCORE a)) (db_accounts example_withdrawn) = [900000, 2025000, 3000000] \<and>
   ledger_ok example_withdrawn \<and> gaps example_withdrawn = gaps example_routes \<and> votes_ok example_withdrawn \<and> stake_ok example_withdrawn"
proof -
  have "map (\<lambda>a. amount (acc_SCORE a)) (db_accounts example_withdrawn) = [900000, 2025000, 3000000]"
    by (simp add: example_withdrawn_def example_paid_def example_deposited_def example_routes_defs)
  then show ?thesis
    using withdrawals_conserve[OF fc_exact.fc_library_axioms example_routes_ledger(1) example_routes_votes example_routes_ok(2) example_withdrawals]
      example_withdrawals by simp
qed

theorem withdrawals_terminate_witness:
  "withdrawal_rounds example_routes = 1 \<and> withdrawals_loop fc_exact 7 (Some 0) example_routes = Some example_withdrawn
   \<and> (\<exists>c. withdrawal_walk fc_exact (Some 0, example_routes) (c, example_withdrawn) \<and> walk_over (c, example_withdrawn))"
proof -
  have r: "withdrawal_rounds example_routes = 1"
    by (simp add: withdrawal_rounds_def head_block_time_def SCORE_WITHDRAW_INTERVAL_SECONDS_def example_routes_defs)
  have b: "map_option acc_id (idx_begin withdrawal_order (db_accounts example_routes)) = Some 0"
    by (simp add: idx_begin_def idx_sorted_def withdrawal_order_def example_routes_defs)
  from withdrawals_terminate[OF fc_exact.fc_library_axioms example_routes_ok(2,3) _ b[symmetric], of 7] r example_withdrawals
  show ?thesis by simp
qed

end
