(* ===== verification/Delegation.thy ===== *)
theory Delegation
  imports Routes
begin

text \<open>
  Delegated SCORE (\<open>libraries/chain/node_evaluator.cpp\<close>: \<open>delegateSCORE_evaluator\<close>;
  \<open>libraries/chain/database.cpp\<close>: \<open>clear_expired_delegations\<close>).

  A delegation lends SCORE from one account to another; when it is reduced, the difference leaves the
  receiver at once but returns to the owner only after a week.  Shown here: what an account has
  delegated is exactly what its delegations and its returning delegations record, what it received is
  exactly what others delegate to it, and nothing overdue is left waiting.
\<close>

definition CASHOUT_WINDOW_SECONDS :: int where "CASHOUT_WINDOW_SECONDS = 60 * 60 * 24 * 7"

subsection \<open>Operations\<close>

definition modify_delegation ::
  "account_name_type \<Rightarrow> account_name_type \<Rightarrow> (delegation_object \<Rightarrow> delegation_object option) \<Rightarrow> chain_db \<Rightarrow> chain_db option" where
  "modify_delegation n m f d = do {
     xs \<leftarrow> tbl_modify (\<lambda>x. del_delegator x = n \<and> del_delegatee x = m) f (db_delegations d);
     Some (d\<lparr>db_delegations := xs\<rparr>) }"

definition remove_delegation :: "account_name_type \<Rightarrow> account_name_type \<Rightarrow> chain_db \<Rightarrow> chain_db" where
  "remove_delegation n m d =
     d\<lparr>db_delegations := tbl_remove (\<lambda>x. del_delegator x = n \<and> del_delegatee x = m) (db_delegations d)\<rparr>"

definition change_delegated :: "fc_lib \<Rightarrow> account_name_type \<Rightarrow> asset \<Rightarrow> chain_db \<Rightarrow> chain_db option" where
  "change_delegated F n x d = modify_account n (\<lambda>a. do {
     s \<leftarrow> asset_add F (acc_SCOREDelegated a) x; Some (a\<lparr>acc_SCOREDelegated := s\<rparr>) }) d"

definition change_received :: "fc_lib \<Rightarrow> account_name_type \<Rightarrow> asset \<Rightarrow> chain_db \<Rightarrow> chain_db option" where
  "change_received F n x d = modify_account n (\<lambda>a. do {
     s \<leftarrow> asset_add F (acc_SCOREreceived a) x; Some (a\<lparr>acc_SCOREreceived := s\<rparr>) }) d"

definition delegateSCORE_do_apply :: "fc_lib \<Rightarrow> delegateSCORE_operation \<Rightarrow> chain_db \<Rightarrow> chain_db option" where
  "delegateSCORE_do_apply F op d = do {
     delegator \<leftarrow> get_account (dg_delegator op) d;
     delegatee \<leftarrow> get_account (dg_delegatee op) d;
     let delegation = find_delegation (dg_delegator op) (dg_delegatee op) d;
     own \<leftarrow> asset_sub F (acc_SCORE delegator) (acc_SCOREDelegated delegator);
     leaving \<leftarrow> safe_sub F (acc_to_withdraw delegator) (acc_withdrawn delegator);
     available_SCORE \<leftarrow> asset_sub F own (mk_asset leaving SYMBOL_SCORE);
     let fee = cp_account_creation_fee (wso_median_props (db_wso d));
     fee10 \<leftarrow> safe_mul F (amount fee) 10;
     min_delegation \<leftarrow> asset_mul_price F (mk_asset fee10 SYMBOL_COIN) (get_SCORE_price (db_gpo d));
     min_update \<leftarrow> asset_mul_price F fee (get_SCORE_price (db_gpo d));
     case delegation of
       None \<Rightarrow> do {
         FC_ASSERT_opt (asset_ge available_SCORE (dg_SCORE op));
         FC_ASSERT_opt (asset_ge (dg_SCORE op) min_delegation);
         d1 \<leftarrow> create_delegation \<lparr>del_id = 0, del_delegator = dg_delegator op, del_delegatee = dg_delegatee op,
                 del_SCORE = dg_SCORE op, del_min_delegation_time = head_block_time d\<rparr> d;
         d2 \<leftarrow> change_delegated F (dg_delegator op) (dg_SCORE op) d1;
         change_received F (dg_delegatee op) (dg_SCORE op) d2 }
     | Some x \<Rightarrow> do {
         increase \<leftarrow> asset_ge (dg_SCORE op) (del_SCORE x);
         if increase then do {
           delta \<leftarrow> asset_sub F (dg_SCORE op) (del_SCORE x);
           FC_ASSERT_opt (asset_ge delta min_update);
           FC_ASSERT_opt (asset_ge available_SCORE delta);
           d1 \<leftarrow> change_delegated F (dg_delegator op) delta d;
           d2 \<leftarrow> change_received F (dg_delegatee op) delta d1;
           modify_delegation (dg_delegator op) (dg_delegatee op) (\<lambda>x. Some (x\<lparr>del_SCORE := dg_SCORE op\<rparr>)) d2 }
         else do {
           delta \<leftarrow> asset_sub F (del_SCORE x) (dg_SCORE op);
           (if amount (dg_SCORE op) > 0 then do {
              FC_ASSERT_opt (asset_ge delta min_update);
              FC_ASSERT_opt (asset_ge (dg_SCORE op) min_delegation) }
            else FC_ASSERT (amount (del_SCORE x) > 0));
           d1 \<leftarrow> create_delegation_exp \<lparr>dex_id = 0, dex_delegator = dg_delegator op, dex_SCORE = delta,
                   dex_expiration = max (secs_add F (head_block_time d) CASHOUT_WINDOW_SECONDS) (del_min_delegation_time x)\<rparr> d;
           d2 \<leftarrow> modify_account (dg_delegatee op) (\<lambda>a. do {
                   s \<leftarrow> asset_sub F (acc_SCOREreceived a) delta; Some (a\<lparr>acc_SCOREreceived := s\<rparr>) }) d1;
           if amount (dg_SCORE op) > 0
           then modify_delegation (dg_delegator op) (dg_delegatee op) (\<lambda>x. Some (x\<lparr>del_SCORE := dg_SCORE op\<rparr>)) d2
           else Some (remove_delegation (dg_delegator op) (dg_delegatee op) d2) } } }"

definition dex_order :: "delegation_expiration_object \<Rightarrow> time \<times> nat" where
  "dex_order x = (dex_expiration x, dex_id x)"

fun delegations_loop :: "fc_lib \<Rightarrow> nat \<Rightarrow> chain_db \<Rightarrow> chain_db option" where
  "delegations_loop F 0 d = Some d"
| "delegations_loop F (Suc n) d =
     (case idx_begin dex_order (db_delegation_exps d) of
        None \<Rightarrow> Some d
      | Some x \<Rightarrow>
          if dex_expiration x < head_block_time d then do {
            d1 \<leftarrow> modify_account (dex_delegator x) (\<lambda>a. do {
                    s \<leftarrow> asset_sub F (acc_SCOREDelegated a) (dex_SCORE x); Some (a\<lparr>acc_SCOREDelegated := s\<rparr>) }) d;
            delegations_loop F n (d1\<lparr>db_delegation_exps := tbl_remove (\<lambda>y. dex_id y = dex_id x) (db_delegation_exps d1)\<rparr>) }
          else Some d)"

definition clear_expired_delegations :: "fc_lib \<Rightarrow> chain_db \<Rightarrow> chain_db option" where
  "clear_expired_delegations F d = delegations_loop F (length (db_delegation_exps d)) d"

subsection \<open>What is lent, what returns, what is borrowed\<close>

definition lent :: "account_name_type \<Rightarrow> chain_db \<Rightarrow> int" where
  "lent n d = tsum (\<lambda>x. if del_delegator x = n then amount (del_SCORE x) else 0) (db_delegations d)"

definition returning :: "account_name_type \<Rightarrow> chain_db \<Rightarrow> int" where
  "returning n d = tsum (\<lambda>x. if dex_delegator x = n then amount (dex_SCORE x) else 0) (db_delegation_exps d)"

definition borrowed :: "account_name_type \<Rightarrow> chain_db \<Rightarrow> int" where
  "borrowed n d = tsum (\<lambda>x. if del_delegatee x = n then amount (del_SCORE x) else 0) (db_delegations d)"

definition held :: "(account_object \<Rightarrow> int) \<Rightarrow> account_name_type \<Rightarrow> chain_db \<Rightarrow> int" where
  "held g n d = (case find_account n d of None \<Rightarrow> 0 | Some a \<Rightarrow> g a)"

abbreviation delegated :: "account_name_type \<Rightarrow> chain_db \<Rightarrow> int" where
  "delegated \<equiv> held (\<lambda>a. amount (acc_SCOREDelegated a))"

abbreviation received :: "account_name_type \<Rightarrow> chain_db \<Rightarrow> int" where
  "received \<equiv> held (\<lambda>a. amount (acc_SCOREreceived a))"

text \<open>The accounts record exactly what the delegations say; returning delegations have their own ids.\<close>

definition delegations_ok :: "chain_db \<Rightarrow> bool" where
  "delegations_ok d \<longleftrightarrow>
     (\<forall>n. delegated n d = lent n d + returning n d \<and> received n d = borrowed n d) \<and>
     distinct (map dex_id (db_delegation_exps d)) \<and>
     (\<forall>x \<in> set (db_delegation_exps d). dex_id x < db_next_id d TME_fund_for_SCORE_delegation_expiration_object_type)"

lemmas delegation_sums = lent_def returning_def borrowed_def

lemma modify_account_held:
  assumes "modify_account n f d = Some d'" "\<And>a b. f a = Some b \<Longrightarrow> acc_name b = acc_name a \<and> g b = g a + x"
  shows "held g m d' = held g m d + (if m = n then x else 0)" "lent m d' = lent m d" "returning m d' = returning m d"
    "borrowed m d' = borrowed m d" "db_delegations d' = db_delegations d" "db_delegation_exps d' = db_delegation_exps d"
    "db_next_id d' = db_next_id d" "head_block_time d' = head_block_time d"
proof -
  have k: "acc_name b = acc_name a" if "f a = Some b" for a b using that assms(2) by blast
  from find_account_modify_same[OF assms(1) k] obtain a b where
    ab: "find_account n d = Some a" "f a = Some b" "find_account n d' = Some b" by blast
  show "held g m d' = held g m d + (if m = n then x else 0)"
    using ab assms(2)[OF ab(2)] find_account_modify_other[OF assms(1) k, of m] by (simp add: held_def)
  show "lent m d' = lent m d" "returning m d' = returning m d" "borrowed m d' = borrowed m d"
    "db_delegations d' = db_delegations d" "db_delegation_exps d' = db_delegation_exps d" "db_next_id d' = db_next_id d"
    "head_block_time d' = head_block_time d"
    using assms(1) by (auto simp: modify_account_def bind_Some_iff delegation_sums head_block_time_def)
qed

text \<open>How far the accounts are off, and what each step does to it.\<close>

definition off_by :: "chain_db \<Rightarrow> account_name_type \<Rightarrow> int \<times> int" where
  "off_by d n = (delegated n d - lent n d - returning n d, received n d - borrowed n d)"

definition rows_ok :: "chain_db \<Rightarrow> bool" where
  "rows_ok d \<longleftrightarrow> distinct (map dex_id (db_delegation_exps d)) \<and>
     (\<forall>x \<in> set (db_delegation_exps d). dex_id x < db_next_id d TME_fund_for_SCORE_delegation_expiration_object_type)"

lemma delegations_ok_alt: "delegations_ok d \<longleftrightarrow> (\<forall>n. off_by d n = (0, 0)) \<and> rows_ok d"
proof -
  have "off_by d n = (0, 0) \<longleftrightarrow> delegated n d = lent n d + returning n d \<and> received n d = borrowed n d" for n
    by (auto simp: off_by_def)
  then show ?thesis by (simp add: delegations_ok_def rows_ok_def)
qed

lemma create_delegation_off:
  assumes "create_delegation v d = Some d'"
  shows "off_by d' m = (fst (off_by d m) - (if m = del_delegator v then amount (del_SCORE v) else 0),
     snd (off_by d m) - (if m = del_delegatee v then amount (del_SCORE v) else 0))" "rows_ok d' = rows_ok d"
  using assms by (auto simp: create_delegation_def bind_Some_iff tbl_emplace_def take_id_def off_by_def delegation_sums held_def
      find_account_def rows_ok_def split: if_splits)

lemma create_delegation_exp_off:
  assumes "create_delegation_exp v d = Some d'"
  shows "off_by d' m = (fst (off_by d m) - (if m = dex_delegator v then amount (dex_SCORE v) else 0), snd (off_by d m))"
    "rows_ok d \<Longrightarrow> rows_ok d'"
  using assms by (fastforce simp: create_delegation_exp_def bind_Some_iff tbl_emplace_def take_id_def off_by_def delegation_sums held_def
      find_account_def rows_ok_def list_ex_iff split: if_splits)+

lemma modify_delegation_off:
  assumes "modify_delegation n k (\<lambda>x. Some (x\<lparr>del_SCORE := v\<rparr>)) d = Some d'" "find_delegation n k d = Some x"
  shows "off_by d' m = (fst (off_by d m) - (if m = n then amount v - amount (del_SCORE x) else 0),
     snd (off_by d m) - (if m = k then amount v - amount (del_SCORE x) else 0))" "rows_ok d' = rows_ok d"
proof -
  from assms(1) obtain xs where
    xs: "tbl_modify (\<lambda>x. del_delegator x = n \<and> del_delegatee x = k) (\<lambda>x. Some (x\<lparr>del_SCORE := v\<rparr>)) (db_delegations d) = Some xs"
    and d': "d' = d\<lparr>db_delegations := xs\<rparr>" by (auto simp: modify_delegation_def bind_Some_iff)
  have nk: "del_delegator x = n" "del_delegatee x = k" using assms(2) find_Some_P by (fastforce simp: find_delegation_def)+
  have "tsum g xs = tsum g (db_delegations d) - g x + g (x\<lparr>del_SCORE := v\<rparr>)" for g
    using tsum_modify_find[OF xs] assms(2) by (simp add: find_delegation_def)
  then show "off_by d' m = (fst (off_by d m) - (if m = n then amount v - amount (del_SCORE x) else 0),
     snd (off_by d m) - (if m = k then amount v - amount (del_SCORE x) else 0))"
    using nk by (simp add: off_by_def delegation_sums held_def find_account_def d')
  show "rows_ok d' = rows_ok d" by (simp add: rows_ok_def d')
qed

lemma remove_delegation_off:
  assumes "find_delegation n k d = Some x"
  shows "off_by (remove_delegation n k d) m = (fst (off_by d m) + (if m = n then amount (del_SCORE x) else 0),
     snd (off_by d m) + (if m = k then amount (del_SCORE x) else 0))" "rows_ok (remove_delegation n k d) = rows_ok d"
proof -
  have nk: "del_delegator x = n" "del_delegatee x = k" using assms find_Some_P by (fastforce simp: find_delegation_def)+
  then show "off_by (remove_delegation n k d) m = (fst (off_by d m) + (if m = n then amount (del_SCORE x) else 0),
     snd (off_by d m) + (if m = k then amount (del_SCORE x) else 0))"
    using tsum_remove[OF assms[unfolded find_delegation_def]]
    by (simp add: off_by_def delegation_sums held_def find_account_def remove_delegation_def)
  show "rows_ok (remove_delegation n k d) = rows_ok d" by (simp add: rows_ok_def remove_delegation_def)
qed

lemma modify_account_off:
  assumes "modify_account n f d = Some d'" "\<And>a b. f a = Some b \<Longrightarrow> acc_name b = acc_name a \<and>
      amount (acc_SCOREDelegated b) = amount (acc_SCOREDelegated a) + x \<and> amount (acc_SCOREreceived b) = amount (acc_SCOREreceived a) + y"
  shows "off_by d' m = (fst (off_by d m) + (if m = n then x else 0), snd (off_by d m) + (if m = n then y else 0))"
    "rows_ok d' = rows_ok d" "find_delegation k l d' = find_delegation k l d" "db_delegation_exps d' = db_delegation_exps d"
    "head_block_time d' = head_block_time d"
proof -
  note h = modify_account_held[OF assms(1), where g = "\<lambda>a. amount (acc_SCOREDelegated a)" and x = x]
    modify_account_held(1)[OF assms(1), where g = "\<lambda>a. amount (acc_SCOREreceived a)" and x = y]
  have c: "acc_name b = acc_name a \<and> amount (acc_SCOREDelegated b) = amount (acc_SCOREDelegated a) + x"
    "acc_name b = acc_name a \<and> amount (acc_SCOREreceived b) = amount (acc_SCOREreceived a) + y" if "f a = Some b" for a b
    using assms(2)[OF that] by blast+
  show "off_by d' m = (fst (off_by d m) + (if m = n then x else 0), snd (off_by d m) + (if m = n then y else 0))"
    by (simp add: off_by_def h(1)[OF c(1)] h(9)[OF c(2)] h(2-4)[OF c(1)])
  show "rows_ok d' = rows_ok d" by (simp add: rows_ok_def h(6,7)[OF c(1)])
  show "find_delegation k l d' = find_delegation k l d" by (simp add: find_delegation_def h(5)[OF c(1)])
  show "db_delegation_exps d' = db_delegation_exps d" "head_block_time d' = head_block_time d"
    by (rule h(6)[OF c(1)], assumption) (rule h(8)[OF c(1)])
qed

context fc_safe
begin

lemma change_delegated_off:
  assumes "change_delegated F n x d = Some d'"
  shows "off_by d' m = (fst (off_by d m) + (if m = n then amount x else 0), snd (off_by d m))"
    "rows_ok d' = rows_ok d" "find_delegation k l d' = find_delegation k l d"
proof -
  have "acc_name b = acc_name a \<and> amount (acc_SCOREDelegated b) = amount (acc_SCOREDelegated a) + amount x \<and>
      amount (acc_SCOREreceived b) = amount (acc_SCOREreceived a) + 0"
    if "do { s \<leftarrow> asset_add F (acc_SCOREDelegated a) x; Some (a\<lparr>acc_SCOREDelegated := s\<rparr>) } = Some b" for a b
    using that by (auto simp: bind_Some_iff dest!: asset_add_SomeD)
  note m = modify_account_off[OF assms[unfolded change_delegated_def] this]
  show "off_by d' m = (fst (off_by d m) + (if m = n then amount x else 0), snd (off_by d m))"
    "rows_ok d' = rows_ok d" "find_delegation k l d' = find_delegation k l d"
    using m(1-3) by simp_all
qed

lemma change_received_off:
  assumes "change_received F n x d = Some d'"
  shows "off_by d' m = (fst (off_by d m), snd (off_by d m) + (if m = n then amount x else 0))"
    "rows_ok d' = rows_ok d" "find_delegation k l d' = find_delegation k l d"
proof -
  have "acc_name b = acc_name a \<and> amount (acc_SCOREDelegated b) = amount (acc_SCOREDelegated a) + 0 \<and>
      amount (acc_SCOREreceived b) = amount (acc_SCOREreceived a) + amount x"
    if "do { s \<leftarrow> asset_add F (acc_SCOREreceived a) x; Some (a\<lparr>acc_SCOREreceived := s\<rparr>) } = Some b" for a b
    using that by (auto simp: bind_Some_iff dest!: asset_add_SomeD)
  note m = modify_account_off[OF assms[unfolded change_received_def] this]
  show "off_by d' m = (fst (off_by d m), snd (off_by d m) + (if m = n then amount x else 0))"
    "rows_ok d' = rows_ok d" "find_delegation k l d' = find_delegation k l d"
    using m(1-3) by simp_all
qed

lemma delegateSCORE_cases:
  assumes "delegateSCORE_do_apply F op d = Some d'"
  obtains
    (new) v d1 d2 where "del_delegator v = dg_delegator op" "del_delegatee v = dg_delegatee op" "del_SCORE v = dg_SCORE op"
      "create_delegation v d = Some d1" "change_delegated F (dg_delegator op) (dg_SCORE op) d1 = Some d2"
      "change_received F (dg_delegatee op) (dg_SCORE op) d2 = Some d'"
  | (increase) x delta d1 d2 where "find_delegation (dg_delegator op) (dg_delegatee op) d = Some x"
      "asset_sub F (dg_SCORE op) (del_SCORE x) = Some delta"
      "change_delegated F (dg_delegator op) delta d = Some d1" "change_received F (dg_delegatee op) delta d1 = Some d2"
      "modify_delegation (dg_delegator op) (dg_delegatee op) (\<lambda>x. Some (x\<lparr>del_SCORE := dg_SCORE op\<rparr>)) d2 = Some d'"
  | (decrease) x delta v d1 d2 where "find_delegation (dg_delegator op) (dg_delegatee op) d = Some x"
      "asset_sub F (del_SCORE x) (dg_SCORE op) = Some delta" "dex_delegator v = dg_delegator op" "dex_SCORE v = delta"
      "create_delegation_exp v d = Some d1"
      "modify_account (dg_delegatee op) (\<lambda>a. do {
         s \<leftarrow> asset_sub F (acc_SCOREreceived a) delta; Some (a\<lparr>acc_SCOREreceived := s\<rparr>) }) d1 = Some d2"
      "if amount (dg_SCORE op) > 0
       then modify_delegation (dg_delegator op) (dg_delegatee op) (\<lambda>x. Some (x\<lparr>del_SCORE := dg_SCORE op\<rparr>)) d2 = Some d'
       else d' = remove_delegation (dg_delegator op) (dg_delegatee op) d2"
proof (cases "find_delegation (dg_delegator op) (dg_delegatee op) d")
  case None
  let ?v = "\<lparr>del_id = 0, del_delegator = dg_delegator op, del_delegatee = dg_delegatee op,
     del_SCORE = dg_SCORE op, del_min_delegation_time = head_block_time d\<rparr>"
  from assms None obtain d1 d2 where "create_delegation ?v d = Some d1"
    "change_delegated F (dg_delegator op) (dg_SCORE op) d1 = Some d2"
    "change_received F (dg_delegatee op) (dg_SCORE op) d2 = Some d'"
    by (auto simp: delegateSCORE_do_apply_def bind_Some_iff Let_def)
  then show thesis by (intro new[of ?v]) simp_all
next
  case (Some x)
  from assms Some obtain inc where inc: "asset_ge (dg_SCORE op) (del_SCORE x) = Some inc"
    by (auto simp: delegateSCORE_do_apply_def bind_Some_iff Let_def)
  show thesis
  proof (cases inc)
    case True
    from assms Some inc True obtain delta d1 d2 where "asset_sub F (dg_SCORE op) (del_SCORE x) = Some delta"
      "change_delegated F (dg_delegator op) delta d = Some d1" "change_received F (dg_delegatee op) delta d1 = Some d2"
      "modify_delegation (dg_delegator op) (dg_delegatee op) (\<lambda>x. Some (x\<lparr>del_SCORE := dg_SCORE op\<rparr>)) d2 = Some d'"
      by (auto simp: delegateSCORE_do_apply_def bind_Some_iff Let_def)
    then show thesis by (rule increase[OF Some])
  next
    case False
    let ?v = "\<lambda>delta. \<lparr>dex_id = 0, dex_delegator = dg_delegator op, dex_SCORE = delta,
       dex_expiration = max (secs_add F (head_block_time d) CASHOUT_WINDOW_SECONDS) (del_min_delegation_time x)\<rparr>"
    from assms Some inc False obtain delta d1 d2 where delta: "asset_sub F (del_SCORE x) (dg_SCORE op) = Some delta" and
      d1: "create_delegation_exp (?v delta) d = Some d1" and
      d2: "modify_account (dg_delegatee op) (\<lambda>a. do {
         s \<leftarrow> asset_sub F (acc_SCOREreceived a) delta; Some (a\<lparr>acc_SCOREreceived := s\<rparr>) }) d1 = Some d2" and
      d': "(if amount (dg_SCORE op) > 0
       then modify_delegation (dg_delegator op) (dg_delegatee op) (\<lambda>x. Some (x\<lparr>del_SCORE := dg_SCORE op\<rparr>)) d2
       else Some (remove_delegation (dg_delegator op) (dg_delegatee op) d2)) = Some d'"
      by (auto simp: delegateSCORE_do_apply_def bind_Some_iff Let_def)
    show thesis by (rule decrease[OF Some delta _ _ d1 d2]) (use d' in \<open>auto split: if_splits\<close>)
  qed
qed

lemma delegateSCORE_ok:
  assumes "delegateSCORE_do_apply F op d = Some d'" "delegations_ok d" "0 \<le> amount (dg_SCORE op)"
  shows "delegations_ok d'"
proof -
  have off: "off_by d m = (0, 0)" for m using assms(2) by (simp add: delegations_ok_alt)
  have rows: "rows_ok d" using assms(2) by (simp add: delegations_ok_alt)
  from assms(1) show ?thesis
  proof (cases rule: delegateSCORE_cases)
    case (new v d1 d2)
    have "off_by d' m = (0, 0)" for m
      using create_delegation_off(1)[OF new(4), of m] change_delegated_off(1)[OF new(5), of m]
        change_received_off(1)[OF new(6), of m] new(1-3) off[of m] by simp
    then show ?thesis
      using rows create_delegation_off(2)[OF new(4)] change_delegated_off(2)[OF new(5)] change_received_off(2)[OF new(6)]
      by (simp add: delegations_ok_alt)
  next
    case (increase x delta d1 d2)
    have f: "find_delegation (dg_delegator op) (dg_delegatee op) d2 = Some x"
      using increase(1) change_delegated_off(3)[OF increase(3)] change_received_off(3)[OF increase(4)] by simp
    note m = modify_delegation_off[OF increase(5) f]
    have "off_by d' m = (0, 0)" for m
      using m(1)[of m] change_delegated_off(1)[OF increase(3), of m] change_received_off(1)[OF increase(4), of m]
        asset_sub_SomeD[OF increase(2)] off[of m] by simp
    then show ?thesis
      using rows m(2) change_delegated_off(2)[OF increase(3)] change_received_off(2)[OF increase(4)] by (simp add: delegations_ok_alt)
  next
    case (decrease x delta v d1 d2)
    have e: "db_delegations d1 = db_delegations d"
      using decrease(5) by (auto simp: create_delegation_exp_def bind_Some_iff take_id_def)
    have c: "acc_name b = acc_name a \<and> amount (acc_SCOREDelegated b) = amount (acc_SCOREDelegated a) + 0 \<and>
        amount (acc_SCOREreceived b) = amount (acc_SCOREreceived a) + - amount delta"
      if "do { s \<leftarrow> asset_sub F (acc_SCOREreceived a) delta; Some (a\<lparr>acc_SCOREreceived := s\<rparr>) } = Some b" for a b
      using that by (auto simp: bind_Some_iff dest!: asset_sub_SomeD)
    note a = modify_account_off[OF decrease(6) c]
    have f: "find_delegation (dg_delegator op) (dg_delegatee op) d2 = Some x"
      using decrease(1) a(3) e by (simp add: find_delegation_def)
    have r: "rows_ok d2" using rows a(2) create_delegation_exp_off(2)[OF decrease(5)] by simp
    have o: "off_by d2 m = (if m = dg_delegator op then - amount delta else 0, if m = dg_delegatee op then - amount delta else 0)" for m
      using a(1)[of m] create_delegation_exp_off(1)[OF decrease(5), of m] decrease(3,4) off[of m] by simp
    note del = asset_sub_SomeD[OF decrease(2)]
    show ?thesis
    proof (cases "amount (dg_SCORE op) > 0")
      case True
      with decrease(7) have "modify_delegation (dg_delegator op) (dg_delegatee op) (\<lambda>x. Some (x\<lparr>del_SCORE := dg_SCORE op\<rparr>)) d2 = Some d'"
        by simp
      from modify_delegation_off[OF this f] o del r show ?thesis by (simp add: delegations_ok_alt)
    next
      case False
      with decrease(7) assms(3) have "d' = remove_delegation (dg_delegator op) (dg_delegatee op) d2" "amount (dg_SCORE op) = 0" by simp_all
      with remove_delegation_off[OF f] o del r show ?thesis by (simp add: delegations_ok_alt)
    qed
  qed
qed

end

subsection \<open>Delegations on their way back\<close>

interpretation expired_delegations: due_queue "delegations_loop F" db_delegation_exps dex_order
  "\<lambda>d x. dex_expiration x < head_block_time d"
  "\<lambda>x d. do {
     d1 \<leftarrow> modify_account (dex_delegator x) (\<lambda>a. do {
             s \<leftarrow> asset_sub F (acc_SCOREDelegated a) (dex_SCORE x); Some (a\<lparr>acc_SCOREDelegated := s\<rparr>) }) d;
     Some (d1\<lparr>db_delegation_exps := tbl_remove (\<lambda>y. dex_id y = dex_id x) (db_delegation_exps d1)\<rparr>) }" for F
proof (unfold_locales, goal_cases)
  case (2 n d)
  then show ?case by (auto split: option.splits)
next
  case (4 x d d')
  then have "db_delegation_exps d' = tbl_remove (\<lambda>y. dex_id y = dex_id x) (db_delegation_exps d)"
    by (auto simp: bind_Some_iff modify_account_def)
  then show ?case using 4(1) by (simp add: length_tbl_remove_less)
qed (auto simp: dex_order_def)

context fc_safe
begin

lemma return_delegation_ok:
  assumes "modify_account (dex_delegator x) (\<lambda>a. do {
      s \<leftarrow> asset_sub F (acc_SCOREDelegated a) (dex_SCORE x); Some (a\<lparr>acc_SCOREDelegated := s\<rparr>) }) d = Some d1"
    "x \<in> set (db_delegation_exps d)" "delegations_ok d"
  shows "delegations_ok (d1\<lparr>db_delegation_exps := tbl_remove (\<lambda>y. dex_id y = dex_id x) (db_delegation_exps d1)\<rparr>)"
    (is "delegations_ok ?d'")
proof -
  have c: "acc_name b = acc_name a \<and> amount (acc_SCOREDelegated b) = amount (acc_SCOREDelegated a) + - amount (dex_SCORE x) \<and>
        amount (acc_SCOREreceived b) = amount (acc_SCOREreceived a) + 0"
    if "do { s \<leftarrow> asset_sub F (acc_SCOREDelegated a) (dex_SCORE x); Some (a\<lparr>acc_SCOREDelegated := s\<rparr>) } = Some b" for a b
    using that by (auto simp: bind_Some_iff dest!: asset_sub_SomeD)
  note m = modify_account_off[OF assms(1) c]
  have rows: "rows_ok d1" using m(2) assms(3) by (simp add: delegations_ok_alt)
  have "List.find (\<lambda>y. dex_id y = dex_id x) (db_delegation_exps d1) = Some x"
    using find_unique[of dex_id "db_delegation_exps d1" x] rows assms(2) m(4) by (simp add: rows_ok_def)
  from tsum_remove[OF this] have "off_by ?d' n = (fst (off_by d1 n) + (if n = dex_delegator x then amount (dex_SCORE x) else 0), snd (off_by d1 n))" for n
    by (simp add: off_by_def delegation_sums held_def find_account_def)
  then have "off_by ?d' n = (0, 0)" for n using m(1)[of n] assms(3) by (simp add: delegations_ok_alt)
  moreover have "rows_ok ?d'"
    using rows set_tbl_remove[of _ "db_delegation_exps d1"] distinct_map_tbl_remove[of dex_id "db_delegation_exps d1"]
    by (auto simp: rows_ok_def)
  ultimately show ?thesis by (simp add: delegations_ok_alt)
qed

lemma clear_expired_delegations_ok:
  assumes "clear_expired_delegations F d = Some d'" "delegations_ok d"
  shows "delegations_ok d'"
  by (rule expired_delegations.loop_inv[where I = delegations_ok, OF _ assms(1)[unfolded clear_expired_delegations_def] assms(2)])
     (auto simp: bind_Some_iff intro: return_delegation_ok)

end

text \<open>Delegating, and the periodic return of what is due.\<close>

inductive delegation_step :: "fc_lib \<Rightarrow> chain_db \<Rightarrow> chain_db \<Rightarrow> bool" for F where
  delegate: "delegateSCORE_validate op = Some () \<Longrightarrow> delegateSCORE_do_apply F op d = Some d' \<Longrightarrow> delegation_step F d d'"
| expire: "clear_expired_delegations F d = Some d' \<Longrightarrow> delegation_step F d d'"

context fc_safe
begin

lemma delegation_step_ok: "delegation_step F d d' \<Longrightarrow> delegations_ok d \<Longrightarrow> delegations_ok d'"
proof (induction rule: delegation_step.induct)
  case (delegate op d d')
  have "0 \<le> amount (dg_SCORE op)"
    using delegate(1) by (auto simp: delegateSCORE_validate_def bind_Some_iff FC_ASSERT_opt_def asset_ge_def asset_less_def split: if_splits)
  then show ?case by (rule delegateSCORE_ok[OF delegate(2,3)])
next
  case (expire d d')
  then show ?case by (rule clear_expired_delegations_ok)
qed

end

text \<open>C28. Delegating SCORE and returning expired delegations keep the books: what an account has delegated
  is the sum of its delegations and of those on their way back, and what it received is the sum of the
  delegations to it.\<close>

theorem delegations_balanced:
  assumes "fc_safe F" and "delegations_ok d" and "(delegation_step F)\<^sup>*\<^sup>* d d'"
  shows "delegations_ok d'"
  using assms(3,2) by (induction rule: rtranclp_induct) (auto intro: fc_safe.delegation_step_ok[OF assms(1)])

text \<open>C29. When the return of expired delegations is done, nothing overdue is left waiting.\<close>

theorem expired_delegations_done:
  assumes "clear_expired_delegations F d = Some d'"
  shows "\<forall>x \<in> set (db_delegation_exps d'). head_block_time d' \<le> dex_expiration x"
  using expired_delegations.loop_done[OF assms[unfolded clear_expired_delegations_def]] by (simp add: not_less)

subsection \<open>An example\<close>

text \<open>Alice delegates to Bob, then takes a part back.\<close>

definition example_cheap :: chain_db where
  "example_cheap = example_db\<lparr>db_wso := example_wso\<lparr>wso_median_props := example_props\<lparr>cp_account_creation_fee := TME 1\<rparr>\<rparr>\<rparr>"

definition example_delegated :: chain_db where
  "example_delegated = example_cheap\<lparr>
     db_accounts := [(example_account 0 ''alice'' 1000 500 1000000)\<lparr>acc_SCOREDelegated := SCORE 100000\<rparr>,
       (example_account 1 ''bob'' 1000 0 2000000)\<lparr>acc_SCOREreceived := SCORE 100000\<rparr>, example_account 2 ''carol'' 0 0 3000000],
     db_delegations := [\<lparr>del_id = 10, del_delegator = ''alice'', del_delegatee = ''bob'', del_SCORE = SCORE 100000,
        del_min_delegation_time = 1000\<rparr>],
     db_next_id := (\<lambda>_. 10)(TME_fund_for_SCORE_delegation_object_type := 11)\<rparr>"

definition example_reduced :: chain_db where
  "example_reduced = example_delegated\<lparr>
     db_accounts := [(example_account 0 ''alice'' 1000 500 1000000)\<lparr>acc_SCOREDelegated := SCORE 100000\<rparr>,
       (example_account 1 ''bob'' 1000 0 2000000)\<lparr>acc_SCOREreceived := SCORE 40000\<rparr>, example_account 2 ''carol'' 0 0 3000000],
     db_delegations := [\<lparr>del_id = 10, del_delegator = ''alice'', del_delegatee = ''bob'', del_SCORE = SCORE 40000,
        del_min_delegation_time = 1000\<rparr>],
     db_delegation_exps := [\<lparr>dex_id = 10, dex_delegator = ''alice'', dex_SCORE = SCORE 60000, dex_expiration = 605800\<rparr>],
     db_next_id := (\<lambda>_. 10)(TME_fund_for_SCORE_delegation_object_type := 11,
        TME_fund_for_SCORE_delegation_expiration_object_type := 11)\<rparr>"

lemmas delegation_eval = delegateSCORE_do_apply_def FC_ASSERT_opt_def get_account_def find_account_def find_delegation_def asset_sub_def asset_add_def
  asset_mul_price_def asset_mul_leg_def get_SCORE_price_def symbol_name_simps asset_ge_def asset_less_def int64_def int64_of_uint64_def
  create_delegation_def create_delegation_exp_def tbl_emplace_def take_id_def change_delegated_def change_received_def
  modify_account_def modify_delegation_def remove_delegation_def head_block_time_def CASHOUT_WINDOW_SECONDS_def symbol_distinct

lemma example_cheap_ok: "delegations_ok example_cheap"
  by (simp add: delegations_ok_def held_def delegation_sums find_account_def example_cheap_def example_defs)

theorem delegations_balanced_witness:
  "delegations_ok example_cheap \<and> (delegation_step fc_exact)\<^sup>*\<^sup>* example_cheap example_reduced \<and> delegations_ok example_reduced"
proof -
  have v: "delegateSCORE_validate \<lparr>dg_delegator = ''alice'', dg_delegatee = ''bob'', dg_SCORE = SCORE 100000\<rparr> = Some ()"
    "delegateSCORE_validate \<lparr>dg_delegator = ''alice'', dg_delegatee = ''bob'', dg_SCORE = SCORE 40000\<rparr> = Some ()" by code_simp+
  have "delegateSCORE_do_apply fc_exact \<lparr>dg_delegator = ''alice'', dg_delegatee = ''bob'', dg_SCORE = SCORE 100000\<rparr> example_cheap
    = Some example_delegated"
    by (simp add: delegation_eval example_delegated_def example_cheap_def example_defs)
  note 1 = delegation_step.delegate[OF v(1) this]
  have "delegateSCORE_do_apply fc_exact \<lparr>dg_delegator = ''alice'', dg_delegatee = ''bob'', dg_SCORE = SCORE 40000\<rparr> example_delegated
    = Some example_reduced"
    by (simp add: delegation_eval example_reduced_def example_delegated_def example_cheap_def example_defs)
  note 2 = delegation_step.delegate[OF v(2) this]
  from 1 2 have s: "(delegation_step fc_exact)\<^sup>*\<^sup>* example_cheap example_reduced" by simp
  with delegations_balanced[OF fc_exact.fc_safe_axioms example_cheap_ok s] example_cheap_ok show ?thesis by simp
qed

definition example_returning :: chain_db where
  "example_returning = example_reduced\<lparr>db_delegation_exps :=
     [\<lparr>dex_id = 8, dex_delegator = ''alice'', dex_SCORE = SCORE 60000, dex_expiration = 900\<rparr>,
      \<lparr>dex_id = 9, dex_delegator = ''alice'', dex_SCORE = SCORE 1000, dex_expiration = 1000\<rparr>]\<rparr>"

theorem expired_delegations_done_witness:
  "\<exists>d'. clear_expired_delegations fc_exact example_returning = Some d' \<and> map dex_id (db_delegation_exps d') = [9] \<and>
     list_all (\<lambda>x. head_block_time d' \<le> dex_expiration x) (db_delegation_exps d')"
proof -
  have "map_option (\<lambda>d. map dex_id (db_delegation_exps d)) (clear_expired_delegations fc_exact example_returning) = Some [9]"
    by (simp add: clear_expired_delegations_def idx_begin_def idx_sorted_def dex_order_def delegation_eval example_returning_def
        example_reduced_def example_delegated_def example_cheap_def example_defs)
  then obtain d' where d': "clear_expired_delegations fc_exact example_returning = Some d'" "map dex_id (db_delegation_exps d') = [9]"
    by (simp only: map_option_eq_Some) (elim exE conjE, rule that)
  from expired_delegations_done[OF d'(1)] d' show ?thesis by (intro exI[of _ d'] conjI) (simp_all add: list_all_iff)
qed

end
