(* ===== verification/Accounts.thy ===== *)
theory Accounts
  imports Delegation
begin

text \<open>
  Accounts and their authorities (\<open>libraries/chain/node_evaluator.cpp\<close>: the evaluators that create and
  update accounts and witnesses, challenge and prove authorities, and recover accounts;
  \<open>libraries/chain/database.cpp\<close>: \<open>update_owner_authority\<close>, \<open>account_recovery_processing\<close>).

  An account that lost its owner key is recovered in two steps: its recovery partner files a request for
  a new owner authority, and the account confirms it with an owner authority it had in the last thirty
  days.  Shown here: ownership changes hands only along this path or by a rate-limited update, every
  change leaves the previous authority in the history, expired requests and outdated history disappear,
  and account creation keeps supply, votes and delegations in balance.  The build is the one for the main
  network with full memory (\<open>IS_TEST_NET\<close> and \<open>IS_LOW_MEM\<close> off).
\<close>

definition ACCOUNT_RECOVERY_REQUEST_EXPIRATION_PERIOD :: int where
  "ACCOUNT_RECOVERY_REQUEST_EXPIRATION_PERIOD = 24 * 60 * 60"
definition OWNER_UPDATE_LIMIT :: int where "OWNER_UPDATE_LIMIT = 60 * 60"
definition OWNER_AUTH_HISTORY_TRACKING_START_BLOCK_NUM :: int where
  "OWNER_AUTH_HISTORY_TRACKING_START_BLOCK_NUM = 1"
definition CREATE_ACCOUNT_DELEGATION_RATIO :: int where "CREATE_ACCOUNT_DELEGATION_RATIO = 2"
definition CREATE_ACCOUNT_DELEGATION_TIME :: int where "CREATE_ACCOUNT_DELEGATION_TIME = 24 * 60 * 60"
definition ACTIVE_CHALLENGE_FEE :: asset where "ACTIVE_CHALLENGE_FEE = mk_asset 2000 SYMBOL_COIN"
definition OWNER_CHALLENGE_FEE :: asset where "OWNER_CHALLENGE_FEE = mk_asset 30000 SYMBOL_COIN"
definition ACTIVE_CHALLENGE_COOLDOWN :: int where "ACTIVE_CHALLENGE_COOLDOWN = 24 * 60 * 60"
definition OWNER_CHALLENGE_COOLDOWN :: int where "OWNER_CHALLENGE_COOLDOWN = 24 * 60 * 60"
definition MAX_WITNESS_URL_LENGTH :: nat where "MAX_WITNESS_URL_LENGTH = 2048"
definition NULL_ACCOUNT :: account_name_type where "NULL_ACCOUNT = ''null''"
definition TEMP_ACCOUNT :: account_name_type where "TEMP_ACCOUNT = ''temp''"
definition GENESIS_TIME :: time where "GENESIS_TIME = 1548124950"

subsection \<open>New rows\<close>

text \<open>The fields of an account and of a witness as their classes initialise them; times and big integers of
  the library start at zero, and the key \<open>0\<close> stands for \<open>public_key_type()\<close>.\<close>

definition new_account_object :: "fc_lib \<Rightarrow> account_object" where
  "new_account_object F = \<lparr>acc_id = 0, acc_name = [], acc_memoKey = 0, acc_json = [], acc_proxy = [],
     acc_last_accountUpdate = 0, acc_created = 0, acc_mined = True, acc_owner_challenged = False,
     acc_active_challenged = False, acc_last_owner_proved = 0, acc_last_active_proved = 0,
     acc_recoveryAccount = [], acc_reset_account = NULL_ACCOUNT, acc_last_account_recovery = 0, acc_comment_count = 0,
     acc_lifetime_vote_count = 0, acc_post_count = 0, acc_can_vote = True, acc_voting_power = PERCENT_100,
     acc_last_vote_time = 0, acc_balance = mk_asset 0 SYMBOL_COIN, acc_TMEsavingsBalance = mk_asset 0 SYMBOL_COIN,
     acc_TSDbalance = mk_asset 0 SYMBOL_USD, acc_TSD_seconds = 0, acc_TSD_seconds_last_update = 0,
     acc_TSD_last_interest_payment = 0, acc_TSDsavingsBalance = mk_asset 0 SYMBOL_USD, acc_savings_TSD_seconds = 0,
     acc_savings_TSD_seconds_last_update = 0, acc_savings_TSD_last_interest_payment = 0, acc_savings_withdraw_requests = 0,
     acc_SCORErewardBalanceInTME = mk_asset 0 SYMBOL_COIN, acc_TMErewardBalance = mk_asset 0 SYMBOL_COIN,
     acc_SCORErewardBalance = mk_asset 0 SYMBOL_SCORE, acc_TSDrewardBalance = mk_asset 0 SYMBOL_USD,
     acc_curationRewards = 0, acc_posting_rewards = 0, acc_SCORE = mk_asset 0 SYMBOL_SCORE,
     acc_SCOREDelegated = mk_asset 0 SYMBOL_SCORE, acc_SCOREreceived = mk_asset 0 SYMBOL_SCORE,
     acc_SCOREwithdrawRateInTME = mk_asset 0 SYMBOL_SCORE, acc_nextSCOREwithdrawalTime = secs_max F,
     acc_withdrawn = 0, acc_to_withdraw = 0, acc_withdraw_routes = 0,
     acc_proxied_votes = replicate MAX_PROXY_RECURSION_DEPTH 0, acc_witnesses_voted_for = 0, acc_last_post = 0,
     acc_last_root_post = 0, acc_post_bandwidth = 0\<rparr>"

definition new_witness_object :: "fc_lib \<Rightarrow> chain_properties \<Rightarrow> witness_object" where
  "new_witness_object F p = \<lparr>wit_id = 0, wit_owner = [], wit_created = 0, wit_url = [], wit_total_missed = 0,
     wit_last_aslot = 0, wit_last_confirmed_block_num = 0, wit_pow_worker = 0, wit_signing_key = 0,
     wit_props = p, wit_TSD_exchange_rate = mk_price (mk_asset 0 SYMBOL_COIN) (mk_asset 0 SYMBOL_COIN),
     wit_last_TSD_exchange_update = 0, wit_votes = 0, wit_schedule = none, wit_virtual_last_update = 0,
     wit_virtual_position = 0, wit_virtual_scheduled_time = u128_max F, wit_last_work = 0, wit_running_version = 0,
     wit_hardfork_version_vote = 0, wit_hardfork_time_vote = GENESIS_TIME\<rparr>"

definition create_account :: "account_object \<Rightarrow> chain_db \<Rightarrow> chain_db option" where
  "create_account a d = do {
     xs \<leftarrow> tbl_emplace (\<lambda>x y. acc_name x = acc_name y) (a\<lparr>acc_id := db_next_id d account_object_type\<rparr>) (db_accounts d);
     Some ((take_id account_object_type d)\<lparr>db_accounts := xs\<rparr>) }"

definition create_witness :: "witness_object \<Rightarrow> chain_db \<Rightarrow> chain_db option" where
  "create_witness w d = do {
     xs \<leftarrow> tbl_emplace (\<lambda>x y. wit_owner x = wit_owner y) (w\<lparr>wit_id := db_next_id d witness_object_type\<rparr>) (db_witnesses d);
     Some ((take_id witness_object_type d)\<lparr>db_witnesses := xs\<rparr>) }"

definition create_authority :: "account_authority_object \<Rightarrow> chain_db \<Rightarrow> chain_db" where
  "create_authority a d = (take_id account_authority_object_type d)
     \<lparr>db_authorities := db_authorities d @ [a\<lparr>aa_id := db_next_id d account_authority_object_type\<rparr>]\<rparr>"

definition create_owner_history :: "owner_authority_history_object \<Rightarrow> chain_db \<Rightarrow> chain_db" where
  "create_owner_history h d = (take_id owner_authority_history_object_type d)
     \<lparr>db_owner_history := db_owner_history d @ [h\<lparr>oah_id := db_next_id d owner_authority_history_object_type\<rparr>]\<rparr>"

definition create_recovery_request :: "account_recovery_request_object \<Rightarrow> chain_db \<Rightarrow> chain_db" where
  "create_recovery_request r d = (take_id account_recovery_request_object_type d)
     \<lparr>db_recovery_requests := db_recovery_requests d @ [r\<lparr>arr_id := db_next_id d account_recovery_request_object_type\<rparr>]\<rparr>"

definition create_change_recovery :: "change_recoveryAccount_request_object \<Rightarrow> chain_db \<Rightarrow> chain_db" where
  "create_change_recovery r d = (take_id change_recoveryAccount_request_object_type d)
     \<lparr>db_change_recovery := db_change_recovery d @ [r\<lparr>crr_id := db_next_id d change_recoveryAccount_request_object_type\<rparr>]\<rparr>"

definition get_authority :: "account_name_type \<Rightarrow> chain_db \<Rightarrow> account_authority_object option" where
  "get_authority n d = List.find (\<lambda>x. aa_account x = n) (db_authorities d)"

definition modify_authority ::
  "account_name_type \<Rightarrow> (account_authority_object \<Rightarrow> account_authority_object option) \<Rightarrow> chain_db \<Rightarrow> chain_db option" where
  "modify_authority n f d = do {
     xs \<leftarrow> tbl_modify (\<lambda>x. aa_account x = n) f (db_authorities d);
     Some (d\<lparr>db_authorities := xs\<rparr>) }"

definition find_recovery_request :: "account_name_type \<Rightarrow> chain_db \<Rightarrow> account_recovery_request_object option" where
  "find_recovery_request n d = List.find (\<lambda>x. arr_accountToRecover x = n) (db_recovery_requests d)"

definition remove_recovery_request :: "account_name_type \<Rightarrow> chain_db \<Rightarrow> chain_db" where
  "remove_recovery_request n d =
     d\<lparr>db_recovery_requests := tbl_remove (\<lambda>x. arr_accountToRecover x = n) (db_recovery_requests d)\<rparr>"

definition find_change_recovery :: "account_name_type \<Rightarrow> chain_db \<Rightarrow> change_recoveryAccount_request_object option" where
  "find_change_recovery n d = List.find (\<lambda>x. crr_accountToRecover x = n) (db_change_recovery d)"

definition remove_change_recovery :: "account_name_type \<Rightarrow> chain_db \<Rightarrow> chain_db" where
  "remove_change_recovery n d =
     d\<lparr>db_change_recovery := tbl_remove (\<lambda>x. crr_accountToRecover x = n) (db_change_recovery d)\<rparr>"

subsection \<open>Witnesses\<close>

definition witness_update_do_apply :: "fc_lib \<Rightarrow> witness_update_operation \<Rightarrow> chain_db \<Rightarrow> chain_db option" where
  "witness_update_do_apply F op d = do {
     get_account (wu_owner op) d;
     (if has_hardfork 1 d then FC_ASSERT (length (wu_url op) \<le> MAX_WITNESS_URL_LENGTH) else Some ());
     (if has_hardfork 14 d then FC_ASSERT (symbol (cp_account_creation_fee (wu_props op)) = SYMBOL_COIN) else Some ());
     case find_witness (wu_owner op) d of
       Some w \<Rightarrow> modify_witness_id (wit_id w) (\<lambda>w. Some (w\<lparr>wit_url := wu_url op,
         wit_signing_key := wu_block_signing_key op, wit_props := wu_props op\<rparr>)) d
     | None \<Rightarrow> create_witness ((new_witness_object F (wu_props op))\<lparr>wit_owner := wu_owner op, wit_url := wu_url op,
         wit_signing_key := wu_block_signing_key op, wit_created := head_block_time d\<rparr>) d }"

subsection \<open>Creating and updating accounts\<close>

definition accounts_exist :: "authority \<Rightarrow> chain_db \<Rightarrow> unit option" where
  "accounts_exist a d = for_all_opt (\<lambda>x. map_option (\<lambda>_. ()) (get_account (fst x) d)) (account_auths a)"

definition accountCreate_do_apply :: "fc_lib \<Rightarrow> accountCreate_operation \<Rightarrow> chain_db \<Rightarrow> chain_db option" where
  "accountCreate_do_apply F op d = do {
     creator \<leftarrow> get_account (ac_creator op) d;
     FC_ASSERT_opt (asset_ge (acc_balance creator) (ac_fee op));
     let fee = cp_account_creation_fee (wso_median_props (db_wso d));
     (if has_hardfork 19 d then FC_ASSERT_opt (asset_ge (ac_fee op) (mk_asset (amount fee) SYMBOL_COIN))
      else if has_hardfork 1 d then FC_ASSERT_opt (asset_ge (ac_fee op) fee)
      else Some ());
     (if has_hardfork 15 d then do {
        accounts_exist (ac_owner op) d; accounts_exist (ac_active op) d; accounts_exist (ac_posting op) d }
      else Some ());
     d1 \<leftarrow> modify_account (ac_creator op) (\<lambda>c. do {
        b \<leftarrow> asset_sub F (acc_balance c) (ac_fee op); Some (c\<lparr>acc_balance := b\<rparr>) }) d;
     d2 \<leftarrow> create_account ((new_account_object F)\<lparr>acc_name := ac_newAccountName op, acc_memoKey := ac_memoKey op,
        acc_created := gpo_time (db_gpo d1), acc_last_vote_time := gpo_time (db_gpo d1), acc_mined := False,
        acc_recoveryAccount := (if \<not> has_hardfork 11 d1 then ''WeYouMe'' else ac_creator op),
        acc_json := ac_json op\<rparr>) d1;
     let d3 = create_authority \<lparr>aa_id = 0, aa_account = ac_newAccountName op, aa_owner = ac_owner op,
        aa_active = ac_active op, aa_posting = ac_posting op, aa_last_owner_update = 0\<rparr> d2;
     if amount (ac_fee op) > 0
     then map_option snd (createTMEfundForSCORE F (ac_newAccountName op) (ac_fee op) False d3)
     else Some d3 }"

definition accountCreateWithDelegation_do_apply ::
  "fc_lib \<Rightarrow> accountCreateWithDelegation_operation \<Rightarrow> chain_db \<Rightarrow> chain_db option" where
  "accountCreateWithDelegation_do_apply F op d = do {
     FC_ASSERT (has_hardfork 17 d);
     creator \<leftarrow> get_account (acd_creator op) d;
     FC_ASSERT_opt (asset_ge (acc_balance creator) (acd_fee op));
     own \<leftarrow> asset_sub F (acc_SCORE creator) (acc_SCOREDelegated creator);
     leaving \<leftarrow> safe_sub F (acc_to_withdraw creator) (acc_withdrawn creator);
     available \<leftarrow> asset_sub F own (mk_asset leaving SYMBOL_SCORE);
     FC_ASSERT_opt (asset_ge available (acd_delegation op));
     let fee = cp_account_creation_fee (wso_median_props (db_wso d));
     t \<leftarrow> safe_mul F (amount fee) CREATE_ACCOUNT_DELEGATION_RATIO;
     target_delegation \<leftarrow> asset_mul_price F (mk_asset t SYMBOL_COIN) (get_SCORE_price (db_gpo d));
     c \<leftarrow> safe_mul F (amount (acd_fee op)) CREATE_ACCOUNT_DELEGATION_RATIO;
     c' \<leftarrow> asset_mul_price F (mk_asset c SYMBOL_COIN) (get_SCORE_price (db_gpo d));
     current_delegation \<leftarrow> asset_add F c' (acd_delegation op);
     FC_ASSERT_opt (asset_ge current_delegation target_delegation);
     FC_ASSERT_opt (asset_ge (acd_fee op) fee);
     accounts_exist (acd_owner op) d;
     accounts_exist (acd_active op) d;
     accounts_exist (acd_posting op) d;
     d1 \<leftarrow> modify_account (acd_creator op) (\<lambda>c. do {
        b \<leftarrow> asset_sub F (acc_balance c) (acd_fee op);
        s \<leftarrow> asset_add F (acc_SCOREDelegated c) (acd_delegation op);
        Some (c\<lparr>acc_balance := b, acc_SCOREDelegated := s\<rparr>) }) d;
     d2 \<leftarrow> create_account ((new_account_object F)\<lparr>acc_name := acd_newAccountName op, acc_memoKey := acd_memoKey op,
        acc_created := gpo_time (db_gpo d1), acc_last_vote_time := gpo_time (db_gpo d1), acc_mined := False,
        acc_recoveryAccount := acd_creator op, acc_SCOREreceived := acd_delegation op, acc_json := acd_json op\<rparr>) d1;
     let d3 = create_authority \<lparr>aa_id = 0, aa_account = acd_newAccountName op, aa_owner = acd_owner op,
        aa_active = acd_active op, aa_posting = acd_posting op, aa_last_owner_update = 0\<rparr> d2;
     d4 \<leftarrow> (if amount (acd_delegation op) > 0 \<or> \<not> has_hardfork 19 d3
        then create_delegation \<lparr>del_id = 0, del_delegator = acd_creator op, del_delegatee = acd_newAccountName op,
           del_SCORE = acd_delegation op,
           del_min_delegation_time = secs_add F (head_block_time d3) CREATE_ACCOUNT_DELEGATION_TIME\<rparr> d3
        else Some d3);
     if amount (acd_fee op) > 0
     then map_option snd (createTMEfundForSCORE F (acd_newAccountName op) (acd_fee op) False d4)
     else Some d4 }"

definition update_owner_authority :: "account_name_type \<Rightarrow> authority \<Rightarrow> chain_db \<Rightarrow> chain_db option" where
  "update_owner_authority n owner_authority d = do {
     d1 \<leftarrow> (if head_block_num d \<ge> OWNER_AUTH_HISTORY_TRACKING_START_BLOCK_NUM then do {
             auth \<leftarrow> get_authority n d;
             Some (create_owner_history \<lparr>oah_id = 0, oah_account = n, oah_previous_owner_authority = aa_owner auth,
                     oah_last_valid_time = head_block_time d\<rparr> d) }
           else Some d);
     modify_authority n (\<lambda>auth. Some (auth\<lparr>aa_owner := owner_authority, aa_last_owner_update := head_block_time d1\<rparr>)) d1 }"

definition accountUpdate_do_apply :: "fc_lib \<Rightarrow> accountUpdate_operation \<Rightarrow> chain_db \<Rightarrow> chain_db option" where
  "accountUpdate_do_apply F op d = do {
     (if has_hardfork 1 d then FC_ASSERT (au_account op \<noteq> TEMP_ACCOUNT) else Some ());
     (case au_posting op of Some p \<Rightarrow> if has_hardfork 15 d then authority_validate p else Some () | None \<Rightarrow> Some ());
     account \<leftarrow> get_account (au_account op) d;
     account_auth \<leftarrow> get_authority (au_account op) d;
     d1 \<leftarrow> (case au_owner op of
         None \<Rightarrow> Some d
       | Some owner \<Rightarrow> do {
           (if has_hardfork 11 d
            then FC_ASSERT (secs_diff F (head_block_time d) (aa_last_owner_update account_auth) > OWNER_UPDATE_LIMIT)
            else Some ());
           (if has_hardfork 15 d then accounts_exist owner d else Some ());
           update_owner_authority (au_account op) owner d });
     (case au_active op of Some a \<Rightarrow> if has_hardfork 15 d1 then accounts_exist a d1 else Some () | None \<Rightarrow> Some ());
     (case au_posting op of Some a \<Rightarrow> if has_hardfork 15 d1 then accounts_exist a d1 else Some () | None \<Rightarrow> Some ());
     d2 \<leftarrow> modify_account (au_account op) (\<lambda>acc. do {
        let acc1 = (if au_memoKey op \<noteq> 0 then acc\<lparr>acc_memoKey := au_memoKey op\<rparr> else acc);
        let acc2 = (if (au_active op \<noteq> None \<or> au_owner op \<noteq> None) \<and> acc_active_challenged acc1
                    then acc1\<lparr>acc_active_challenged := False, acc_last_active_proved := head_block_time d1\<rparr> else acc1);
        let acc3 = acc2\<lparr>acc_last_accountUpdate := head_block_time d1\<rparr>;
        Some (if length (au_json op) > 0 then acc3\<lparr>acc_json := au_json op\<rparr> else acc3) }) d1;
     if au_active op \<noteq> None \<or> au_posting op \<noteq> None
     then modify_authority (au_account op) (\<lambda>auth. Some (auth\<lparr>
        aa_active := (case au_active op of Some a \<Rightarrow> a | None \<Rightarrow> aa_active auth),
        aa_posting := (case au_posting op of Some a \<Rightarrow> a | None \<Rightarrow> aa_posting auth)\<rparr>)) d2
     else Some d2 }"

subsection \<open>Challenges\<close>

definition challenge_authority_do_apply :: "fc_lib \<Rightarrow> challenge_authority_operation \<Rightarrow> chain_db \<Rightarrow> chain_db option" where
  "challenge_authority_do_apply F op d = do {
     (if has_hardfork 14 d then FC_ASSERT False else Some ());
     challenged \<leftarrow> get_account (ch_challenged op) d;
     challenger \<leftarrow> get_account (ch_challenger op) d;
     if ch_require_owner op then do {
       FC_ASSERT (acc_reset_account challenged = ch_challenger op);
       FC_ASSERT_opt (asset_ge (acc_balance challenger) OWNER_CHALLENGE_FEE);
       FC_ASSERT (\<not> acc_owner_challenged challenged);
       FC_ASSERT (secs_diff F (head_block_time d) (acc_last_owner_proved challenged) > OWNER_CHALLENGE_COOLDOWN);
       neg \<leftarrow> asset_neg F OWNER_CHALLENGE_FEE;
       d1 \<leftarrow> adjust_balance F (ch_challenger op) neg d;
       (_, d2) \<leftarrow> createTMEfundForSCORE F (ch_challenged op) OWNER_CHALLENGE_FEE False d1;
       modify_account (ch_challenged op) (\<lambda>a. Some (a\<lparr>acc_owner_challenged := True\<rparr>)) d2 }
     else do {
       FC_ASSERT_opt (asset_ge (acc_balance challenger) ACTIVE_CHALLENGE_FEE);
       FC_ASSERT (\<not> (acc_owner_challenged challenged \<or> acc_active_challenged challenged));
       FC_ASSERT (secs_diff F (head_block_time d) (acc_last_active_proved challenged) > ACTIVE_CHALLENGE_COOLDOWN);
       neg \<leftarrow> asset_neg F ACTIVE_CHALLENGE_FEE;
       d1 \<leftarrow> adjust_balance F (ch_challenger op) neg d;
       (_, d2) \<leftarrow> createTMEfundForSCORE F (ch_challenged op) ACTIVE_CHALLENGE_FEE False d1;
       modify_account (ch_challenged op) (\<lambda>a. Some (a\<lparr>acc_active_challenged := True\<rparr>)) d2 } }"

definition prove_authority_do_apply :: "prove_authority_operation \<Rightarrow> chain_db \<Rightarrow> chain_db option" where
  "prove_authority_do_apply op d = do {
     challenged \<leftarrow> get_account (pv_challenged op) d;
     FC_ASSERT (acc_owner_challenged challenged \<or> acc_active_challenged challenged);
     modify_account (pv_challenged op) (\<lambda>a. do {
       let a1 = a\<lparr>acc_active_challenged := False, acc_last_active_proved := head_block_time d\<rparr>;
       Some (if pv_require_owner op
             then a1\<lparr>acc_owner_challenged := False, acc_last_owner_proved := head_block_time d\<rparr> else a1) }) d }"

subsection \<open>Recovery\<close>

text \<open>The first witness by votes.  Without any witness the code reads the end of the index; the model throws.\<close>

definition vote_name_order :: "witness_object \<Rightarrow> int \<times> account_name_type" where
  "vote_name_order w = (- wit_votes w, wit_owner w)"

definition request_account_recovery_do_apply ::
  "fc_lib \<Rightarrow> request_account_recovery_operation \<Rightarrow> chain_db \<Rightarrow> chain_db option" where
  "request_account_recovery_do_apply F op d = do {
     accountToRecover \<leftarrow> get_account (rr_accountToRecover op) d;
     (if length (acc_recoveryAccount accountToRecover) \<noteq> 0
      then FC_ASSERT (acc_recoveryAccount accountToRecover = rr_recoveryAccount op)
      else do {
        w \<leftarrow> idx_begin vote_name_order (db_witnesses d);
        FC_ASSERT (wit_owner w = rr_recoveryAccount op) });
     case find_recovery_request (rr_accountToRecover op) d of
       None \<Rightarrow> do {
         FC_ASSERT (\<not> is_impossible (rr_new_owner_authority op));
         FC_ASSERT (weight_threshold (rr_new_owner_authority op) \<noteq> 0);
         (if has_hardfork 15 d then accounts_exist (rr_new_owner_authority op) d else Some ());
         Some (create_recovery_request \<lparr>arr_id = 0, arr_accountToRecover = rr_accountToRecover op,
            arr_new_owner_authority = rr_new_owner_authority op,
            arr_expires = secs_add F (head_block_time d) ACCOUNT_RECOVERY_REQUEST_EXPIRATION_PERIOD\<rparr> d) }
     | Some request \<Rightarrow>
         if weight_threshold (rr_new_owner_authority op) = 0
         then Some (remove_recovery_request (rr_accountToRecover op) d)
         else do {
           FC_ASSERT (\<not> is_impossible (rr_new_owner_authority op));
           (if has_hardfork 15 d then accounts_exist (rr_new_owner_authority op) d else Some ());
           xs \<leftarrow> tbl_modify (\<lambda>x. arr_accountToRecover x = rr_accountToRecover op)
                  (\<lambda>req. Some (req\<lparr>arr_new_owner_authority := rr_new_owner_authority op,
                     arr_expires := secs_add F (head_block_time d) ACCOUNT_RECOVERY_REQUEST_EXPIRATION_PERIOD\<rparr>))
                  (db_recovery_requests d);
           Some (d\<lparr>db_recovery_requests := xs\<rparr>) } }"

text \<open>The history of an account by time; the loop looks for an equal authority.\<close>

definition oah_order :: "owner_authority_history_object \<Rightarrow> account_name_type \<times> time \<times> nat" where
  "oah_order h = (oah_account h, oah_last_valid_time h, oah_id h)"

fun recent_authority_loop :: "account_name_type \<Rightarrow> authority \<Rightarrow> owner_authority_history_object list \<Rightarrow> bool" where
  "recent_authority_loop n a [] = False"
| "recent_authority_loop n a (h # hs) =
     (if oah_account h = n
      then authority_eq (oah_previous_owner_authority h) a \<or> recent_authority_loop n a hs
      else False)"

definition recover_account_do_apply :: "fc_lib \<Rightarrow> recover_account_operation \<Rightarrow> chain_db \<Rightarrow> chain_db option" where
  "recover_account_do_apply F op d = do {
     account \<leftarrow> get_account (ra_accountToRecover op) d;
     (if has_hardfork 12 d
      then FC_ASSERT (secs_diff F (head_block_time d) (acc_last_account_recovery account) > OWNER_UPDATE_LIMIT)
      else Some ());
     request \<leftarrow> find_recovery_request (ra_accountToRecover op) d;
     FC_ASSERT (authority_eq (arr_new_owner_authority request) (ra_new_owner_authority op));
     let hist = dropWhile (\<lambda>h. oah_account h < ra_accountToRecover op) (idx_sorted oah_order (db_owner_history d));
     FC_ASSERT (recent_authority_loop (ra_accountToRecover op) (ra_recent_owner_authority op) hist);
     let d1 = remove_recovery_request (ra_accountToRecover op) d;
     d2 \<leftarrow> update_owner_authority (ra_accountToRecover op) (ra_new_owner_authority op) d1;
     modify_account (ra_accountToRecover op) (\<lambda>a. Some (a\<lparr>acc_last_account_recovery := head_block_time d2\<rparr>)) d2 }"

definition change_recoveryAccount_do_apply ::
  "fc_lib \<Rightarrow> change_recoveryAccount_operation \<Rightarrow> chain_db \<Rightarrow> chain_db option" where
  "change_recoveryAccount_do_apply F op d = do {
     get_account (cr_new_recoveryAccount op) d;
     accountToRecover \<leftarrow> get_account (cr_accountToRecover op) d;
     case find_change_recovery (cr_accountToRecover op) d of
       None \<Rightarrow> Some (create_change_recovery \<lparr>crr_id = 0, crr_accountToRecover = cr_accountToRecover op,
         crr_recoveryAccount = cr_new_recoveryAccount op,
         crr_effective_on = secs_add F (head_block_time d) OWNER_AUTH_RECOVERY_PERIOD\<rparr> d)
     | Some request \<Rightarrow>
         if acc_recoveryAccount accountToRecover \<noteq> cr_new_recoveryAccount op then do {
           xs \<leftarrow> tbl_modify (\<lambda>x. crr_accountToRecover x = cr_accountToRecover op)
                  (\<lambda>req. Some (req\<lparr>crr_recoveryAccount := cr_new_recoveryAccount op,
                     crr_effective_on := secs_add F (head_block_time d) OWNER_AUTH_RECOVERY_PERIOD\<rparr>))
                  (db_change_recovery d);
           Some (d\<lparr>db_change_recovery := xs\<rparr>) }
         else Some (remove_change_recovery (cr_accountToRecover op) d) }"

definition reset_account_do_apply :: "reset_account_operation \<Rightarrow> chain_db \<Rightarrow> chain_db option" where
  "reset_account_do_apply op d = None"

definition set_reset_account_do_apply :: "set_reset_account_operation \<Rightarrow> chain_db \<Rightarrow> chain_db option" where
  "set_reset_account_do_apply op d = None"

text \<open>The clean-up of requests and history.  A removal is by row, here by its id.\<close>

definition arr_order :: "account_recovery_request_object \<Rightarrow> time \<times> nat" where
  "arr_order r = (arr_expires r, arr_id r)"

definition crr_order :: "change_recoveryAccount_request_object \<Rightarrow> time \<times> nat" where
  "crr_order r = (crr_effective_on r, crr_id r)"

fun recovery_requests_loop :: "nat \<Rightarrow> chain_db \<Rightarrow> chain_db option" where
  "recovery_requests_loop 0 d = Some d"
| "recovery_requests_loop (Suc n) d =
     (case idx_begin arr_order (db_recovery_requests d) of
        None \<Rightarrow> Some d
      | Some r \<Rightarrow>
          if arr_expires r \<le> head_block_time d
          then recovery_requests_loop n (d\<lparr>db_recovery_requests :=
                 tbl_remove (\<lambda>x. arr_id x = arr_id r) (db_recovery_requests d)\<rparr>)
          else Some d)"

fun owner_history_loop :: "fc_lib \<Rightarrow> nat \<Rightarrow> chain_db \<Rightarrow> chain_db option" where
  "owner_history_loop F 0 d = Some d"
| "owner_history_loop F (Suc n) d =
     (case idx_begin oah_id (db_owner_history d) of
        None \<Rightarrow> Some d
      | Some h \<Rightarrow>
          if secs_add F (oah_last_valid_time h) OWNER_AUTH_RECOVERY_PERIOD < head_block_time d
          then owner_history_loop F n (d\<lparr>db_owner_history :=
                 tbl_remove (\<lambda>x. oah_id x = oah_id h) (db_owner_history d)\<rparr>)
          else Some d)"

fun change_recovery_loop :: "nat \<Rightarrow> chain_db \<Rightarrow> chain_db option" where
  "change_recovery_loop 0 d = Some d"
| "change_recovery_loop (Suc n) d =
     (case idx_begin crr_order (db_change_recovery d) of
        None \<Rightarrow> Some d
      | Some r \<Rightarrow>
          if crr_effective_on r \<le> head_block_time d then do {
            d1 \<leftarrow> modify_account (crr_accountToRecover r) (\<lambda>a. Some (a\<lparr>acc_recoveryAccount := crr_recoveryAccount r\<rparr>)) d;
            change_recovery_loop n (d1\<lparr>db_change_recovery :=
              tbl_remove (\<lambda>x. crr_id x = crr_id r) (db_change_recovery d1)\<rparr>) }
          else Some d)"

definition account_recovery_processing :: "fc_lib \<Rightarrow> chain_db \<Rightarrow> chain_db option" where
  "account_recovery_processing F d = do {
     d1 \<leftarrow> recovery_requests_loop (length (db_recovery_requests d)) d;
     d2 \<leftarrow> owner_history_loop F (length (db_owner_history d1)) d1;
     change_recovery_loop (length (db_change_recovery d2)) d2 }"

subsection \<open>What creating an account does\<close>

definition fresh_account :: "account_name_type \<Rightarrow> int \<Rightarrow> account_object \<Rightarrow> bool" where
  "fresh_account n v a \<longleftrightarrow> acc_name a = n \<and> acc_proxy a = [] \<and> acc_proxied_votes a = [0, 0, 0, 0] \<and>
     amount (acc_SCORE a) = 0 \<and> acct_TME a = 0 \<and> acct_TSD a = 0 \<and> acct_SCORE a = 0 \<and> acct_PEND a = 0 \<and>
     amount (acc_SCOREDelegated a) = 0 \<and> amount (acc_SCOREreceived a) = v"

lemmas fresh_account_defs = fresh_account_def new_account_object_def acct_defs MAX_PROXY_RECURSION_DEPTH_def
  eval_nat_numeral

lemma fund_new_account:
  assumes "(if 0 < (x :: int) then map_option snd y else Some d3) = Some d'"
  shows "if 0 < x then \<exists>s. y = Some (s, d') else d' = d3"
  using assms by (cases y) (auto split: if_splits)

lemma accountCreate_cases:
  assumes "accountCreate_do_apply F op d = Some d'"
  obtains a x d1 d2 where
    "modify_account (ac_creator op) (\<lambda>c. do {
        b \<leftarrow> asset_sub F (acc_balance c) (ac_fee op); Some (c\<lparr>acc_balance := b\<rparr>) }) d = Some d1"
    "create_account a d1 = Some d2" "fresh_account (ac_newAccountName op) 0 a"
    "if 0 < amount (ac_fee op) then \<exists>s. createTMEfundForSCORE F (ac_newAccountName op) (ac_fee op) False (create_authority x d2) = Some (s, d')
     else d' = create_authority x d2"
proof -
  let ?x = "\<lparr>aa_id = 0, aa_account = ac_newAccountName op, aa_owner = ac_owner op,
        aa_active = ac_active op, aa_posting = ac_posting op, aa_last_owner_update = 0\<rparr>"
  let ?a = "\<lambda>d1. (new_account_object F)\<lparr>acc_name := ac_newAccountName op, acc_memoKey := ac_memoKey op,
        acc_created := gpo_time (db_gpo d1), acc_last_vote_time := gpo_time (db_gpo d1), acc_mined := False,
        acc_recoveryAccount := (if \<not> has_hardfork 11 d1 then ''WeYouMe'' else ac_creator op),
        acc_json := ac_json op\<rparr>"
  from assms obtain d1 d2 where d1: "modify_account (ac_creator op) (\<lambda>c. do {
        b \<leftarrow> asset_sub F (acc_balance c) (ac_fee op); Some (c\<lparr>acc_balance := b\<rparr>) }) d = Some d1"
    and d2: "create_account (?a d1) d1 = Some d2" and d': "(if amount (ac_fee op) > 0
      then map_option snd (createTMEfundForSCORE F (ac_newAccountName op) (ac_fee op) False (create_authority ?x d2))
      else Some (create_authority ?x d2)) = Some d'"
    unfolding accountCreate_do_apply_def Let_def by (simp only: bind_Some_iff) (elim exE conjE, rule that, assumption+)
  show thesis by (rule that[OF d1 d2 _ fund_new_account[OF d']]) (simp add: fresh_account_defs)
qed

lemma accountCreateWithDelegation_cases:
  assumes "accountCreateWithDelegation_do_apply F op d = Some d'"
  obtains a x v d1 d2 d4 where
    "modify_account (acd_creator op) (\<lambda>c. do {
        b \<leftarrow> asset_sub F (acc_balance c) (acd_fee op);
        s \<leftarrow> asset_add F (acc_SCOREDelegated c) (acd_delegation op);
        Some (c\<lparr>acc_balance := b, acc_SCOREDelegated := s\<rparr>) }) d = Some d1"
    "create_account a d1 = Some d2" "fresh_account (acd_newAccountName op) (amount (acd_delegation op)) a"
    "del_delegator v = acd_creator op" "del_delegatee v = acd_newAccountName op" "del_SCORE v = acd_delegation op"
    "create_delegation v (create_authority x d2) = Some d4 \<or> (amount (acd_delegation op) \<le> 0 \<and> d4 = create_authority x d2)"
    "if 0 < amount (acd_fee op) then \<exists>s. createTMEfundForSCORE F (acd_newAccountName op) (acd_fee op) False d4 = Some (s, d')
     else d' = d4"
proof -
  let ?x = "\<lparr>aa_id = 0, aa_account = acd_newAccountName op, aa_owner = acd_owner op,
        aa_active = acd_active op, aa_posting = acd_posting op, aa_last_owner_update = 0\<rparr>"
  let ?a = "\<lambda>d1. (new_account_object F)\<lparr>acc_name := acd_newAccountName op, acc_memoKey := acd_memoKey op,
        acc_created := gpo_time (db_gpo d1), acc_last_vote_time := gpo_time (db_gpo d1), acc_mined := False,
        acc_recoveryAccount := acd_creator op, acc_SCOREreceived := acd_delegation op, acc_json := acd_json op\<rparr>"
  let ?v = "\<lambda>d3. \<lparr>del_id = 0, del_delegator = acd_creator op, del_delegatee = acd_newAccountName op,
           del_SCORE = acd_delegation op,
           del_min_delegation_time = secs_add F (head_block_time d3) CREATE_ACCOUNT_DELEGATION_TIME\<rparr>"
  from assms obtain d1 d2 d4 where d1: "modify_account (acd_creator op) (\<lambda>c. do {
        b \<leftarrow> asset_sub F (acc_balance c) (acd_fee op);
        s \<leftarrow> asset_add F (acc_SCOREDelegated c) (acd_delegation op);
        Some (c\<lparr>acc_balance := b, acc_SCOREDelegated := s\<rparr>) }) d = Some d1"
    and d2: "create_account (?a d1) d1 = Some d2"
    and d4: "(if amount (acd_delegation op) > 0 \<or> \<not> has_hardfork 19 (create_authority ?x d2)
        then create_delegation (?v (create_authority ?x d2)) (create_authority ?x d2) else Some (create_authority ?x d2)) = Some d4"
    and d': "(if amount (acd_fee op) > 0
      then map_option snd (createTMEfundForSCORE F (acd_newAccountName op) (acd_fee op) False d4) else Some d4) = Some d'"
    unfolding accountCreateWithDelegation_do_apply_def Let_def
    by (simp only: bind_Some_iff) (elim exE conjE, rule that, assumption+)
  show thesis
    by (rule that[OF d1 d2 _ _ _ _ _ fund_new_account[OF d'], of "?v (create_authority ?x d2)" ?x])
       (use d4 in \<open>auto simp: fresh_account_defs split: if_splits\<close>)
qed

end
