(* ===== verification/Recovery.thy ===== *)
theory Recovery
  imports Accounts
begin

text \<open>
  What the recovery of accounts guarantees (\<open>update_owner_authority\<close>, \<open>recover_account_evaluator\<close>,
  \<open>account_recovery_processing\<close>): a recovery needs a pending request for exactly this authority and
  an owner authority from the history of the account; whoever takes over an account cannot remove the
  previous owner authority from the history before thirty days have passed; expired requests, outdated
  history and due changes of the recovery account are gone after the clean-up.
\<close>

subsection \<open>Changing the owner\<close>

text \<open>The rows that decide who owns an account, and the clock.\<close>

definition auth_frame :: "chain_db \<Rightarrow> chain_db \<Rightarrow> bool" where
  "auth_frame d d' \<longleftrightarrow> db_authorities d' = db_authorities d \<and> db_owner_history d' = db_owner_history d \<and>
     db_next_id d' owner_authority_history_object_type = db_next_id d owner_authority_history_object_type \<and>
     head_block_time d' = head_block_time d \<and> head_block_num d' = head_block_num d"

lemma auth_frame_refl: "auth_frame d d"
  by (simp add: auth_frame_def)

lemma auth_frame_trans [trans]: "auth_frame d d1 \<Longrightarrow> auth_frame d1 d2 \<Longrightarrow> auth_frame d d2"
  by (simp add: auth_frame_def)

lemma modify_account_auth: "modify_account n f d = Some d' \<Longrightarrow> auth_frame d d'"
  by (auto simp: modify_account_def bind_Some_iff auth_frame_def head_block_time_def head_block_num_def)

lemma money_frame_auth: "money_frame d d' \<Longrightarrow> auth_frame d d'"
  by (auto simp: money_frame_def auth_frame_def head_block_time_def head_block_num_def)

lemma vote_frame_auth: "vote_frame d d' \<Longrightarrow> auth_frame d d'"
  by (auto simp: vote_frame_def auth_frame_def head_block_time_def head_block_num_def)

lemma create_auth_frame:
  "create_account a d = Some d' \<Longrightarrow> auth_frame d d'" "create_delegation v d = Some d' \<Longrightarrow> auth_frame d d'"
  by (auto simp: create_account_def create_delegation_def bind_Some_iff auth_frame_def take_id_def
      head_block_time_def head_block_num_def)


context fc_safe
begin

lemma createTMEfundForSCORE_auth:
  assumes "createTMEfundForSCORE F n coin r d = Some (s, d')"
  shows "auth_frame d d'"
  using assms by (rule createTMEfundForSCORE_cases) (blast intro: money_frame_auth vote_frame_auth auth_frame_trans)

end

text \<open>Steps that leave every owner authority as it is.\<close>

definition owners_kept :: "chain_db \<Rightarrow> chain_db \<Rightarrow> bool" where
  "owners_kept d d' \<longleftrightarrow> db_owner_history d' = db_owner_history d \<and>
     db_next_id d' owner_authority_history_object_type = db_next_id d owner_authority_history_object_type \<and>
     head_block_time d' = head_block_time d \<and> head_block_num d' = head_block_num d \<and>
     (\<forall>n x. get_authority n d = Some x \<longrightarrow> (\<exists>y. get_authority n d' = Some y \<and> aa_owner y = aa_owner x))"

lemma owners_kept_trans: "owners_kept d d1 \<Longrightarrow> owners_kept d1 d2 \<Longrightarrow> owners_kept d d2"
  unfolding owners_kept_def by metis

lemma auth_frame_owners: "auth_frame d d' \<Longrightarrow> owners_kept d d'"
  by (simp add: auth_frame_def owners_kept_def get_authority_def)

lemma create_authority_owners: "owners_kept d (create_authority a d)"
proof -
  have "get_authority n d = Some x \<Longrightarrow> get_authority n (create_authority a d) = Some x" for n x
    by (simp add: get_authority_def create_authority_def take_id_def find_append)
  then show ?thesis
    by (auto simp: owners_kept_def create_authority_def take_id_def head_block_time_def head_block_num_def)
qed

lemma get_authority_modify:
  assumes "modify_authority n f d = Some d'" "\<And>x y. f x = Some y \<Longrightarrow> aa_account y = aa_account x"
  shows "\<exists>x y. get_authority n d = Some x \<and> f x = Some y \<and> get_authority n d' = Some y"
    "m \<noteq> n \<Longrightarrow> get_authority m d' = get_authority m d" "\<exists>xs. d' = d\<lparr>db_authorities := xs\<rparr>"
proof -
  from assms(1) obtain xs where xs: "tbl_modify (\<lambda>x. aa_account x = n) f (db_authorities d) = Some xs"
    and d': "d' = d\<lparr>db_authorities := xs\<rparr>"
    by (auto simp: modify_authority_def bind_Some_iff)
  show "\<exists>xs. d' = d\<lparr>db_authorities := xs\<rparr>" using d' by blast
  show "\<exists>x y. get_authority n d = Some x \<and> f x = Some y \<and> get_authority n d' = Some y"
    using find_modify_same[OF xs] assms(2) by (auto simp: get_authority_def d')
  show "get_authority m d' = get_authority m d" if "m \<noteq> n"
    using find_modify_other[OF xs, of "\<lambda>x. aa_account x = m"] assms(2) that by (auto simp: get_authority_def d')
qed

lemma modify_authority_owners:
  assumes "modify_authority n f d = Some d'"
    "\<And>x y. f x = Some y \<Longrightarrow> aa_account y = aa_account x \<and> aa_owner y = aa_owner x"
  shows "owners_kept d d'"
proof -
  have k: "f x = Some y \<Longrightarrow> aa_account y = aa_account x" for x y using assms(2) by blast
  note g = get_authority_modify[OF assms(1) k]
  have "\<exists>y. get_authority m d' = Some y \<and> aa_owner y = aa_owner x" if "get_authority m d = Some x" for m x
    using that g(1) g(2)[of m] assms(2) by (cases "m = n") auto
  with g(3) show ?thesis by (auto simp: owners_kept_def head_block_time_def head_block_num_def)
qed

text \<open>A change of the owner goes with an entry in the history.\<close>

definition owner_changed :: "account_name_type \<Rightarrow> authority \<Rightarrow> chain_db \<Rightarrow> chain_db \<Rightarrow> bool" where
  "owner_changed n a d d' \<longleftrightarrow> (\<exists>x y. get_authority n d = Some x \<and> get_authority n d' = Some y \<and> aa_owner y = a \<and>
     db_owner_history d' = db_owner_history d @ [\<lparr>oah_id = db_next_id d owner_authority_history_object_type,
       oah_account = n, oah_previous_owner_authority = aa_owner x, oah_last_valid_time = head_block_time d\<rparr>]) \<and>
   (\<forall>m x. m \<noteq> n \<longrightarrow> get_authority m d = Some x \<longrightarrow> (\<exists>y. get_authority m d' = Some y \<and> aa_owner y = aa_owner x)) \<and>
   db_next_id d' owner_authority_history_object_type = Suc (db_next_id d owner_authority_history_object_type) \<and>
   head_block_time d' = head_block_time d \<and> head_block_num d' = head_block_num d"

lemma update_owner_authority_changes:
  assumes "update_owner_authority n a d = Some d'" "1 \<le> head_block_num d"
  shows "owner_changed n a d d'"
proof -
  let ?h = "\<lambda>x. \<lparr>oah_id = 0, oah_account = n, oah_previous_owner_authority = aa_owner x,
    oah_last_valid_time = head_block_time d\<rparr>"
  have hd: "head_block_time (create_owner_history h d) = head_block_time d" for h
    by (simp add: create_owner_history_def take_id_def head_block_time_def)
  have u: "update_owner_authority n a d = (case get_authority n d of None \<Rightarrow> None
      | Some x \<Rightarrow> modify_authority n (\<lambda>auth. Some (auth\<lparr>aa_owner := a, aa_last_owner_update := head_block_time d\<rparr>))
          (create_owner_history (?h x) d))"
    using assms(2) by (cases "get_authority n d")
      (simp_all add: update_owner_authority_def OWNER_AUTH_HISTORY_TRACKING_START_BLOCK_NUM_def hd)
  obtain x where x: "get_authority n d = Some x" using assms(1) u by (cases "get_authority n d") auto
  have m: "modify_authority n (\<lambda>auth. Some (auth\<lparr>aa_owner := a, aa_last_owner_update := head_block_time d\<rparr>))
        (create_owner_history (?h x) d) = Some d'"
    using assms(1) u x by simp
  let ?d = "create_owner_history (?h x) d"
  have g: "get_authority k ?d = get_authority k d" for k
    by (simp add: get_authority_def create_owner_history_def take_id_def)
  note u = get_authority_modify[OF m, simplified]
  from u(1) x g obtain y where y: "get_authority n d' = Some y" "aa_owner y = a" by auto
  obtain xs where d': "d' = ?d\<lparr>db_authorities := xs\<rparr>" using u(3) by blast
  have r: "db_owner_history d' = db_owner_history d @ [(?h x)\<lparr>oah_id := db_next_id d owner_authority_history_object_type\<rparr>]"
    "db_next_id d' owner_authority_history_object_type = Suc (db_next_id d owner_authority_history_object_type)"
    "head_block_time d' = head_block_time d" "head_block_num d' = head_block_num d"
    by (simp_all add: d' create_owner_history_def take_id_def head_block_time_def head_block_num_def)
  show ?thesis unfolding owner_changed_def using x y u(2) g r by simp
qed

lemma owner_changed_kept:
  assumes "owner_changed n a d d1" "owners_kept d1 d2"
  shows "owner_changed n a d d2"
proof -
  note k = assms(2)[unfolded owners_kept_def]
  from assms(1) obtain x y where xy: "get_authority n d = Some x" "get_authority n d1 = Some y" "aa_owner y = a"
    and h: "db_owner_history d1 = db_owner_history d @ [\<lparr>oah_id = db_next_id d owner_authority_history_object_type,
       oah_account = n, oah_previous_owner_authority = aa_owner x, oah_last_valid_time = head_block_time d\<rparr>]"
    and o: "\<And>m x. m \<noteq> n \<Longrightarrow> get_authority m d = Some x \<Longrightarrow> \<exists>y. get_authority m d1 = Some y \<and> aa_owner y = aa_owner x"
    and r: "db_next_id d1 owner_authority_history_object_type = Suc (db_next_id d owner_authority_history_object_type)"
      "head_block_time d1 = head_block_time d" "head_block_num d1 = head_block_num d"
    unfolding owner_changed_def by blast
  obtain z where z: "get_authority n d2 = Some z" "aa_owner z = a" using k xy by fastforce
  have "\<exists>z. get_authority m d2 = Some z \<and> aa_owner z = aa_owner v" if "m \<noteq> n" "get_authority m d = Some v" for m v
    using o[OF that] k by fastforce
  then show ?thesis unfolding owner_changed_def using xy z h r k by simp
qed

lemma kept_owner_changed: "auth_frame d d1 \<Longrightarrow> owner_changed n a d1 d2 \<Longrightarrow> owner_changed n a d d2"
  unfolding owner_changed_def auth_frame_def get_authority_def by simp

subsection \<open>The operations\<close>

lemma request_account_recovery_auth:
  assumes "request_account_recovery_do_apply F op d = Some d'"
  shows "auth_frame d d'"
proof -
  let ?n = "rr_accountToRecover op"
  have "(\<exists>r. d' = create_recovery_request r d) \<or> d' = remove_recovery_request ?n d \<or> (\<exists>xs. d' = d\<lparr>db_recovery_requests := xs\<rparr>)"
  proof (cases "find_recovery_request ?n d")
    case None
    then show ?thesis using assms unfolding request_account_recovery_do_apply_def
      by (simp only: bind_Some_iff option.case option.inject) blast
  next
    case (Some r)
    then show ?thesis using assms unfolding request_account_recovery_do_apply_def
      by (cases "weight_threshold (rr_new_owner_authority op) = 0")
         (simp only: bind_Some_iff option.case option.inject if_True if_False simp_thms; blast)+
  qed
  then show ?thesis
    by (elim disjE exE) (simp_all add: auth_frame_def create_recovery_request_def remove_recovery_request_def
        take_id_def head_block_time_def head_block_num_def)
qed

lemma change_recoveryAccount_auth:
  assumes "change_recoveryAccount_do_apply F op d = Some d'"
  shows "auth_frame d d'"
proof -
  let ?n = "cr_accountToRecover op"
  have "(\<exists>r. d' = create_change_recovery r d) \<or> d' = remove_change_recovery ?n d \<or> (\<exists>xs. d' = d\<lparr>db_change_recovery := xs\<rparr>)"
    using assms unfolding change_recoveryAccount_do_apply_def
    by (cases "find_change_recovery ?n d") (auto simp: bind_Some_iff split: if_splits)
  then show ?thesis
    by (elim disjE exE) (simp_all add: auth_frame_def create_change_recovery_def remove_change_recovery_def
        take_id_def head_block_time_def head_block_num_def)
qed

context fc_safe
begin

lemma created_owners:
  assumes "modify_account n f d = Some d1" "create_account a d1 = Some d2"
  shows "owners_kept d (create_authority x d2)"
  by (rule owners_kept_trans[OF auth_frame_owners[OF auth_frame_trans[OF modify_account_auth[OF assms(1)] create_auth_frame(1)[OF assms(2)]]]
        create_authority_owners])

lemma accountCreate_owners:
  assumes "accountCreate_do_apply F op d = Some d'"
  shows "owners_kept d d'"
  using assms
proof (cases rule: accountCreate_cases)
  case (1 a x d1 d2)
  from 1(4) created_owners[OF 1(1,2), of x] show ?thesis
    by (auto split: if_splits intro: owners_kept_trans auth_frame_owners createTMEfundForSCORE_auth)
qed

lemma accountCreateWithDelegation_owners:
  assumes "accountCreateWithDelegation_do_apply F op d = Some d'"
  shows "owners_kept d d'"
  using assms
proof (cases rule: accountCreateWithDelegation_cases)
  case (1 a x v d1 d2 d4)
  have "owners_kept d d4"
    using 1(7) created_owners[OF 1(1,2), of x] by (auto intro: owners_kept_trans auth_frame_owners create_auth_frame(2))
  with 1(8) show ?thesis
    by (auto split: if_splits intro: owners_kept_trans auth_frame_owners createTMEfundForSCORE_auth)
qed

end

lemma accountUpdate_owners:
  assumes "accountUpdate_do_apply F op d = Some d'" "1 \<le> head_block_num d"
  shows "owners_kept d d' \<or> (\<exists>a x. au_owner op = Some a \<and> owner_changed (au_account op) a d d' \<and>
    get_authority (au_account op) d = Some x \<and>
    (has_hardfork 11 d \<longrightarrow> secs_diff F (head_block_time d) (aa_last_owner_update x) > OWNER_UPDATE_LIMIT))"
proof -
  let ?n = "au_account op"
  from assms(1) obtain x d1 d2 where x: "get_authority ?n d = Some x" and
    d1: "(case au_owner op of
         None \<Rightarrow> Some d
       | Some owner \<Rightarrow> do {
           (if has_hardfork 11 d
            then FC_ASSERT (secs_diff F (head_block_time d) (aa_last_owner_update x) > OWNER_UPDATE_LIMIT)
            else Some ());
           (if has_hardfork 15 d then accounts_exist owner d else Some ());
           update_owner_authority ?n owner d }) = Some d1" and
    d2: "auth_frame d1 d2" and
    d': "(if au_active op \<noteq> None \<or> au_posting op \<noteq> None
     then modify_authority (au_account op) (\<lambda>auth. Some (auth\<lparr>
        aa_active := (case au_active op of Some a \<Rightarrow> a | None \<Rightarrow> aa_active auth),
        aa_posting := (case au_posting op of Some a \<Rightarrow> a | None \<Rightarrow> aa_posting auth)\<rparr>)) d2
     else Some d2) = Some d'"
    unfolding accountUpdate_do_apply_def
    by (simp only: bind_Some_iff) (elim exE conjE, rule that, assumption+, erule modify_account_auth, assumption)
  have "owners_kept d2 d'"
  proof (cases "au_active op \<noteq> None \<or> au_posting op \<noteq> None")
    case True
    with d' have "modify_authority (au_account op) (\<lambda>auth. Some (auth\<lparr>
        aa_active := (case au_active op of Some a \<Rightarrow> a | None \<Rightarrow> aa_active auth),
        aa_posting := (case au_posting op of Some a \<Rightarrow> a | None \<Rightarrow> aa_posting auth)\<rparr>)) d2 = Some d'" by simp
    then show ?thesis by (rule modify_authority_owners) auto
  next
    case False
    with d' show ?thesis using auth_frame_owners[OF auth_frame_refl] by simp
  qed
  with auth_frame_owners[OF d2] have k: "owners_kept d1 d'" by (rule owners_kept_trans)
  show ?thesis
  proof (cases "au_owner op")
    case None
    then show ?thesis using d1 k by simp
  next
    case (Some a)
    then have u: "update_owner_authority ?n a d = Some d1" and
      r: "has_hardfork 11 d \<longrightarrow> secs_diff F (head_block_time d) (aa_last_owner_update x) > OWNER_UPDATE_LIMIT"
      using d1 by (simp_all add: bind_Some_iff split: if_splits)
    from owner_changed_kept[OF update_owner_authority_changes[OF u assms(2)] k] show ?thesis using Some x r by blast
  qed
qed

lemma recent_authority_loopD:
  "recent_authority_loop n a hs \<Longrightarrow> \<exists>h \<in> set hs. oah_account h = n \<and> authority_eq (oah_previous_owner_authority h) a"
  by (induction n a hs rule: recent_authority_loop.induct) (auto split: if_splits)

lemma recover_account_cases:
  assumes "recover_account_do_apply F op d = Some d'" "1 \<le> head_block_num d"
  obtains acc r h where "get_account (ra_accountToRecover op) d = Some acc"
    "has_hardfork 12 d \<longrightarrow> secs_diff F (head_block_time d) (acc_last_account_recovery acc) > OWNER_UPDATE_LIMIT"
    "find_recovery_request (ra_accountToRecover op) d = Some r"
    "authority_eq (arr_new_owner_authority r) (ra_new_owner_authority op)"
    "h \<in> set (db_owner_history d)" "oah_account h = ra_accountToRecover op"
    "authority_eq (oah_previous_owner_authority h) (ra_recent_owner_authority op)"
    "owner_changed (ra_accountToRecover op) (ra_new_owner_authority op) d d'"
    "db_recovery_requests d' = tbl_remove (\<lambda>x. arr_accountToRecover x = ra_accountToRecover op) (db_recovery_requests d)"
proof -
  let ?n = "ra_accountToRecover op"
  from assms(1) obtain acc r d2 u v w where a: "get_account ?n d = Some acc" and
    t: "(if has_hardfork 12 d
      then FC_ASSERT (secs_diff F (head_block_time d) (acc_last_account_recovery acc) > OWNER_UPDATE_LIMIT)
      else Some ()) = Some u" and
    r: "find_recovery_request ?n d = Some r" "FC_ASSERT (authority_eq (arr_new_owner_authority r) (ra_new_owner_authority op)) = Some v" and
    l: "FC_ASSERT (recent_authority_loop ?n (ra_recent_owner_authority op)
       (dropWhile (\<lambda>h. oah_account h < ?n) (idx_sorted oah_order (db_owner_history d)))) = Some w" and
    d2: "update_owner_authority ?n (ra_new_owner_authority op) (remove_recovery_request ?n d) = Some d2" and
    d': "modify_account ?n (\<lambda>a. Some (a\<lparr>acc_last_account_recovery := head_block_time d2\<rparr>)) d2 = Some d'"
    unfolding recover_account_do_apply_def Let_def
    by (simp only: bind_Some_iff) (elim exE conjE, rule that, assumption+)
  have t': "has_hardfork 12 d \<longrightarrow> secs_diff F (head_block_time d) (acc_last_account_recovery acc) > OWNER_UPDATE_LIMIT"
    using t by (simp split: if_splits)
  have e: "authority_eq (arr_new_owner_authority r) (ra_new_owner_authority op)" using r(2) by simp
  note l' = l[unfolded FC_ASSERT_Some]
  from recent_authority_loopD[OF l'] obtain h where h: "h \<in> set (db_owner_history d)" "oah_account h = ?n"
    "authority_eq (oah_previous_owner_authority h) (ra_recent_owner_authority op)"
    by (auto dest: set_dropWhileD)
  have f: "auth_frame d (remove_recovery_request ?n d)"
    by (simp add: auth_frame_def remove_recovery_request_def head_block_time_def head_block_num_def)
  then have "owner_changed ?n (ra_new_owner_authority op) d d2"
    using update_owner_authority_changes[OF d2] assms(2) by (auto simp: auth_frame_def intro: kept_owner_changed[OF f])
  from owner_changed_kept[OF this auth_frame_owners[OF modify_account_auth[OF d']]] have
    c: "owner_changed ?n (ra_new_owner_authority op) d d'" .
  have "db_recovery_requests d2 = db_recovery_requests (remove_recovery_request ?n d)"
    using d2 by (auto simp: update_owner_authority_def bind_Some_iff modify_authority_def create_owner_history_def
        take_id_def split: if_splits)
  then have "db_recovery_requests d' = tbl_remove (\<lambda>x. arr_accountToRecover x = ?n) (db_recovery_requests d)"
    using d' by (auto simp: modify_account_def bind_Some_iff remove_recovery_request_def)
  from that[OF a t' r(1) e h c this] show thesis .
qed

subsection \<open>The clean-up\<close>

interpretation recovery_request_queue: due_queue recovery_requests_loop db_recovery_requests arr_order
  "\<lambda>d r. arr_expires r \<le> head_block_time d"
  "\<lambda>r d. Some (d\<lparr>db_recovery_requests := tbl_remove (\<lambda>x. arr_id x = arr_id r) (db_recovery_requests d)\<rparr>)"
proof (unfold_locales, goal_cases)
  case (2 n d)
  then show ?case by (auto split: option.splits)
qed (auto simp: arr_order_def length_tbl_remove_less)

interpretation change_recovery_queue: due_queue change_recovery_loop db_change_recovery crr_order
  "\<lambda>d r. crr_effective_on r \<le> head_block_time d"
  "\<lambda>r d. do {
     d1 \<leftarrow> modify_account (crr_accountToRecover r) (\<lambda>a. Some (a\<lparr>acc_recoveryAccount := crr_recoveryAccount r\<rparr>)) d;
     Some (d1\<lparr>db_change_recovery := tbl_remove (\<lambda>x. crr_id x = crr_id r) (db_change_recovery d1)\<rparr>) }"
proof (unfold_locales, goal_cases)
  case (2 n d)
  then show ?case by (auto split: option.splits)
next
  case (4 r d d')
  then have "db_change_recovery d' = tbl_remove (\<lambda>x. crr_id x = crr_id r) (db_change_recovery d)"
    by (auto simp: bind_Some_iff modify_account_def)
  then show ?case using 4(1) by (simp add: length_tbl_remove_less)
qed (auto simp: crr_order_def)

text \<open>The history grows at its end, in the order of ids and times.\<close>

definition history_ok :: "chain_db \<Rightarrow> bool" where
  "history_ok d \<longleftrightarrow>
     sorted_wrt (\<lambda>x y. oah_id x < oah_id y \<and> oah_last_valid_time x \<le> oah_last_valid_time y) (db_owner_history d) \<and>
     (\<forall>h \<in> set (db_owner_history d). oah_id h < db_next_id d owner_authority_history_object_type \<and>
        0 \<le> oah_last_valid_time h \<and> oah_last_valid_time h \<le> head_block_time d)"

abbreviation outdated :: "fc_lib \<Rightarrow> time \<Rightarrow> owner_authority_history_object \<Rightarrow> bool" where
  "outdated F t h \<equiv> secs_add F (oah_last_valid_time h) OWNER_AUTH_RECOVERY_PERIOD < t"

lemma idx_begin_hd: "sorted_wrt (\<lambda>x y. key x < key y) (x # xs) \<Longrightarrow> idx_begin key (x # xs) = Some x"
proof -
  assume "sorted_wrt (\<lambda>x y. key x < key y) (x # xs)"
  then have "sorted_wrt (\<lambda>x y. key x \<le> key y) (x # xs)"
    by (rule sorted_wrt_mono_rel[rotated]) simp
  then have "sorted (map key (x # xs))" by (simp only: sorted_wrt_map)
  then show ?thesis by (simp only: idx_begin_def idx_sorted_def sort_key_id_if_sorted list.case)
qed

lemma owner_history_loop_eq:
  "sorted_wrt (\<lambda>x y. oah_id x < oah_id y) (db_owner_history d) \<Longrightarrow> length (db_owner_history d) \<le> n \<Longrightarrow>
   owner_history_loop F n d = Some (d\<lparr>db_owner_history := dropWhile (outdated F (head_block_time d)) (db_owner_history d)\<rparr>)"
proof (induction n arbitrary: d)
  case 0
  then show ?case by simp
next
  case (Suc n)
  show ?case
  proof (cases "db_owner_history d")
    case Nil
    then show ?thesis by (simp add: idx_begin_def idx_sorted_def)
  next
    case (Cons h hs)
    then have b: "idx_begin oah_id (db_owner_history d) = Some h"
      and hs: "sorted_wrt (\<lambda>x y. oah_id x < oah_id y) hs" "length hs \<le> n"
      using Suc.prems idx_begin_hd[of oah_id h hs] by auto
    have t: "head_block_time (d\<lparr>db_owner_history := xs\<rparr>) = head_block_time d" for xs by (simp add: head_block_time_def)
    show ?thesis using Suc.IH[of "d\<lparr>db_owner_history := hs\<rparr>"] hs b by (simp add: Cons t)
  qed
qed

lemma in_dropWhile: "x \<in> set xs \<Longrightarrow> \<not> P x \<Longrightarrow> x \<in> set (dropWhile P xs)"
  by (induction xs) auto

lemma sorted_wrt_dropWhile: "sorted_wrt R xs \<Longrightarrow> sorted_wrt R (dropWhile P xs)"
  by (induction xs) auto

lemma dropWhile_sorted:
  assumes "sorted_wrt R xs" "\<And>x y. R x y \<Longrightarrow> P y \<Longrightarrow> P x"
  shows "\<forall>x \<in> set (dropWhile P xs). \<not> P x"
  using assms(1) by (induction xs) (auto dest: assms(2))

lemma account_recovery_processing_cases:
  assumes "account_recovery_processing F d = Some d'"
  obtains d1 d2 where "recovery_requests_loop (length (db_recovery_requests d)) d = Some d1" "auth_frame d d1"
    "owner_history_loop F (length (db_owner_history d1)) d1 = Some d2"
    "change_recovery_loop (length (db_change_recovery d2)) d2 = Some d'" "auth_frame d2 d'"
    "db_recovery_requests d' = db_recovery_requests d2"
proof -
  from assms obtain d1 d2 where d: "recovery_requests_loop (length (db_recovery_requests d)) d = Some d1"
    "owner_history_loop F (length (db_owner_history d1)) d1 = Some d2"
    "change_recovery_loop (length (db_change_recovery d2)) d2 = Some d'"
    by (auto simp: account_recovery_processing_def bind_Some_iff)
  have 1: "auth_frame d d1"
    by (rule recovery_request_queue.loop_inv[where I = "auth_frame d", OF _ d(1) auth_frame_refl])
       (auto simp: auth_frame_def head_block_time_def head_block_num_def)
  have 2: "auth_frame d2 d' \<and> db_recovery_requests d' = db_recovery_requests d2"
    by (rule change_recovery_queue.loop_inv[where I = "\<lambda>d. auth_frame d2 d \<and> db_recovery_requests d = db_recovery_requests d2", OF _ d(3)])
       (auto simp: auth_frame_def modify_account_def bind_Some_iff head_block_time_def head_block_num_def)
  from that[OF d(1) 1 d(2,3)] 2 show thesis by blast
qed

subsection \<open>Ownership over time\<close>

text \<open>The steps that touch authorities, their history or the clock.\<close>

inductive account_step :: "fc_lib \<Rightarrow> chain_db \<Rightarrow> chain_db \<Rightarrow> bool" for F where
  create: "accountCreate_do_apply F op d = Some d' \<Longrightarrow> account_step F d d'"
| create_delegated: "accountCreateWithDelegation_do_apply F opd d = Some d' \<Longrightarrow> account_step F d d'"
| update: "accountUpdate_do_apply F opu d = Some d' \<Longrightarrow> account_step F d d'"
| request: "request_account_recovery_do_apply F opr d = Some d' \<Longrightarrow> account_step F d d'"
| recover: "recover_account_do_apply F opc d = Some d' \<Longrightarrow> account_step F d d'"
| change: "change_recoveryAccount_do_apply F oph d = Some d' \<Longrightarrow> account_step F d d'"
| cleanup: "account_recovery_processing F d = Some d' \<Longrightarrow> account_step F d d'"
| produce: "head_block_time d \<le> t \<Longrightarrow> head_block_num d \<le> b \<Longrightarrow>
    account_step F d (d\<lparr>db_gpo := (db_gpo d)\<lparr>gpo_time := t, gpo_head_block_number := b\<rparr>\<rparr>)"

text \<open>The owner authority \<open>A\<close> that \<open>n\<close> had at time \<open>t\<close> is still its owner or is in its history.\<close>

definition traceable :: "account_name_type \<Rightarrow> authority \<Rightarrow> time \<Rightarrow> chain_db \<Rightarrow> bool" where
  "traceable n A t d \<longleftrightarrow> (\<exists>x. get_authority n d = Some x \<and> (aa_owner x = A \<or>
     (\<exists>h \<in> set (db_owner_history d). oah_account h = n \<and> oah_previous_owner_authority h = A \<and>
        t \<le> oah_last_valid_time h)))"

definition history_state :: "chain_db \<Rightarrow> bool" where
  "history_state d \<longleftrightarrow> history_ok d \<and> 1 \<le> head_block_num d \<and> 0 \<le> head_block_time d"

lemma owners_kept_trace:
  assumes "owners_kept d d'"
  shows "history_state d' = history_state d" "head_block_time d' = head_block_time d" "traceable n A t d \<Longrightarrow> traceable n A t d'"
proof -
  show "history_state d' = history_state d" "head_block_time d' = head_block_time d"
    using assms by (simp_all add: owners_kept_def history_state_def history_ok_def)
  assume "traceable n A t d"
  then obtain x where x: "get_authority n d = Some x" and h: "aa_owner x = A \<or>
     (\<exists>h \<in> set (db_owner_history d). oah_account h = n \<and> oah_previous_owner_authority h = A \<and> t \<le> oah_last_valid_time h)"
    by (auto simp: traceable_def)
  from x assms obtain y where y: "get_authority n d' = Some y" "aa_owner y = aa_owner x" by (auto simp: owners_kept_def)
  have "db_owner_history d' = db_owner_history d" using assms by (simp add: owners_kept_def)
  with y h show "traceable n A t d'" unfolding traceable_def by auto
qed

lemma owner_changed_trace:
  assumes "owner_changed m a d d'" "history_state d"
  shows "history_state d'" "head_block_time d' = head_block_time d" "traceable n A t d \<Longrightarrow> t \<le> head_block_time d \<Longrightarrow> traceable n A t d'"
proof -
  from assms(1) obtain x y where x: "get_authority m d = Some x" "get_authority m d' = Some y" "aa_owner y = a"
    and h: "db_owner_history d' = db_owner_history d @ [\<lparr>oah_id = db_next_id d owner_authority_history_object_type,
       oah_account = m, oah_previous_owner_authority = aa_owner x, oah_last_valid_time = head_block_time d\<rparr>]"
    and o: "\<And>k v. k \<noteq> m \<Longrightarrow> get_authority k d = Some v \<Longrightarrow> \<exists>y. get_authority k d' = Some y \<and> aa_owner y = aa_owner v"
    and r: "db_next_id d' owner_authority_history_object_type = Suc (db_next_id d owner_authority_history_object_type)"
      "head_block_time d' = head_block_time d" "head_block_num d' = head_block_num d"
    unfolding owner_changed_def by blast
  show "history_state d'" using assms(2) by (auto simp: history_state_def history_ok_def h r sorted_wrt_append less_SucI)
  show "head_block_time d' = head_block_time d" by (rule r)
  assume tr: "traceable n A t d" and t: "t \<le> head_block_time d"
  then obtain v where v: "get_authority n d = Some v" and hv: "aa_owner v = A \<or>
     (\<exists>h \<in> set (db_owner_history d). oah_account h = n \<and> oah_previous_owner_authority h = A \<and> t \<le> oah_last_valid_time h)"
    by (auto simp: traceable_def)
  show "traceable n A t d'"
  proof (cases "n = m")
    case True
    then show ?thesis using v hv x t by (auto simp: traceable_def h)
  next
    case False
    with o[OF False v] hv show ?thesis by (auto simp: traceable_def h)
  qed
qed

lemma cleanup_trace:
  assumes "account_recovery_processing F d = Some d'" "history_state d"
  shows "history_state d'" "head_block_time d' = head_block_time d"
    "db_owner_history d' = dropWhile (outdated F (head_block_time d)) (db_owner_history d)"
    "db_authorities d' = db_authorities d"
proof -
  from assms(1) obtain d1 d2 where d1: "auth_frame d d1" and
    l: "owner_history_loop F (length (db_owner_history d1)) d1 = Some d2" and d': "auth_frame d2 d'"
    by (rule account_recovery_processing_cases)
  note f = d1[unfolded auth_frame_def] d'[unfolded auth_frame_def]
  have "sorted_wrt (\<lambda>x y. oah_id x < oah_id y) (db_owner_history d1)"
    using assms(2) f(1) by (auto simp: history_state_def history_ok_def elim!: sorted_wrt_mono_rel[rotated])
  from owner_history_loop_eq[OF this order_refl, of F] l f(1)
  have d2: "d2 = d1\<lparr>db_owner_history := dropWhile (outdated F (head_block_time d)) (db_owner_history d)\<rparr>" by simp
  have t2: "head_block_time d2 = head_block_time d" "head_block_num d2 = head_block_num d"
    using f(1) by (simp_all add: d2 head_block_time_def head_block_num_def)
  show "head_block_time d' = head_block_time d" "db_authorities d' = db_authorities d" and
    h: "db_owner_history d' = dropWhile (outdated F (head_block_time d)) (db_owner_history d)"
    using f t2 by (simp_all add: d2)
  have "db_next_id d' owner_authority_history_object_type = db_next_id d owner_authority_history_object_type"
    "head_block_time d' = head_block_time d" "head_block_num d' = head_block_num d"
    using f t2 by (simp_all add: d2)
  with assms(2) h show "history_state d'"
    by (auto simp: history_state_def history_ok_def sorted_wrt_dropWhile dest!: set_dropWhileD)
qed

lemma produce_trace:
  assumes "d' = d\<lparr>db_gpo := (db_gpo d)\<lparr>gpo_time := t', gpo_head_block_number := b\<rparr>\<rparr>"
    "head_block_time d \<le> t'" "head_block_num d \<le> b"
  shows "history_state d \<Longrightarrow> history_state d'" "head_block_time d \<le> head_block_time d'" "traceable n A t d' = traceable n A t d"
  using assms by (auto simp: history_state_def history_ok_def traceable_def get_authority_def head_block_time_def
      head_block_num_def intro: order_trans)

lemma account_step_trace:
  assumes "account_step F d d'" "fc_safe F" "fc_time F" "history_state d"
  shows "history_state d'" "head_block_time d \<le> head_block_time d'"
    "traceable n A t d \<Longrightarrow> t \<le> head_block_time d \<Longrightarrow> head_block_time d' \<le> t + OWNER_AUTH_RECOVERY_PERIOD \<Longrightarrow>
     head_block_time d' + OWNER_AUTH_RECOVERY_PERIOD < 2 ^ 32 \<Longrightarrow> traceable n A t d'"
proof -
  have b: "1 \<le> head_block_num d" using assms(4) by (simp add: history_state_def)
  have "history_state d' \<and> head_block_time d \<le> head_block_time d' \<and> (traceable n A t d \<longrightarrow> t \<le> head_block_time d \<longrightarrow>
      head_block_time d' \<le> t + OWNER_AUTH_RECOVERY_PERIOD \<longrightarrow>
      head_block_time d' + OWNER_AUTH_RECOVERY_PERIOD < 2 ^ 32 \<longrightarrow> traceable n A t d')"
    using assms(1)
  proof cases
    case (create op)
    from owners_kept_trace[OF fc_safe.accountCreate_owners[OF assms(2) create]] assms(4) show ?thesis by simp
  next
    case (create_delegated op)
    from owners_kept_trace[OF fc_safe.accountCreateWithDelegation_owners[OF assms(2) create_delegated]] assms(4)
    show ?thesis by simp
  next
    case (update op)
    from accountUpdate_owners[OF update b] show ?thesis
      using owners_kept_trace owner_changed_trace assms(4) by (elim disjE exE conjE) simp_all
  next
    case (request op)
    from owners_kept_trace[OF auth_frame_owners[OF request_account_recovery_auth[OF request]]] assms(4) show ?thesis by simp
  next
    case (recover op)
    from recover b have "owner_changed (ra_accountToRecover op) (ra_new_owner_authority op) d d'"
      by (rule recover_account_cases)
    from owner_changed_trace[OF this assms(4)] show ?thesis by simp
  next
    case (change op)
    from owners_kept_trace[OF auth_frame_owners[OF change_recoveryAccount_auth[OF change]]] assms(4) show ?thesis by simp
  next
    case cleanup
    note c = cleanup_trace[OF cleanup assms(4)]
    have "h \<in> set (db_owner_history d')" if "h \<in> set (db_owner_history d)" "t \<le> oah_last_valid_time h"
      "head_block_time d' \<le> t + OWNER_AUTH_RECOVERY_PERIOD" "head_block_time d' + OWNER_AUTH_RECOVERY_PERIOD < 2 ^ 32" for h
    proof -
      have "0 \<le> oah_last_valid_time h" "oah_last_valid_time h \<le> head_block_time d"
        using assms(4) that(1) by (auto simp: history_state_def history_ok_def)
      then have "secs_add F (oah_last_valid_time h) OWNER_AUTH_RECOVERY_PERIOD = oah_last_valid_time h + OWNER_AUTH_RECOVERY_PERIOD"
        using that(4) c(2) by (intro fc_time.secs_add_law[OF assms(3)]) (auto simp: OWNER_AUTH_RECOVERY_PERIOD_def)
      then show ?thesis using that c(2,3) by (auto intro: in_dropWhile)
    qed
    then have "traceable n A t d'" if "traceable n A t d" "head_block_time d' \<le> t + OWNER_AUTH_RECOVERY_PERIOD"
      "head_block_time d' + OWNER_AUTH_RECOVERY_PERIOD < 2 ^ 32"
      using that c(4) by (auto simp: traceable_def get_authority_def)
    then show ?thesis using c(1,2) by simp
  next
    case (produce t' b')
    from produce_trace[OF produce] assms(4) show ?thesis by simp
  qed
  then show "history_state d'" "head_block_time d \<le> head_block_time d'"
    "traceable n A t d \<Longrightarrow> t \<le> head_block_time d \<Longrightarrow> head_block_time d' \<le> t + OWNER_AUTH_RECOVERY_PERIOD \<Longrightarrow>
     head_block_time d' + OWNER_AUTH_RECOVERY_PERIOD < 2 ^ 32 \<Longrightarrow> traceable n A t d'"
    by blast+
qed

text \<open>C30. Whoever changes the owner authority of an account, by whatever sequence of updates, recoveries and
  clean-ups, cannot make the previous one disappear: for thirty days it is either still the owner
  authority or stands in the history of the account, where a recovery accepts it.\<close>

theorem owner_traceable:
  assumes "fc_safe F" and "fc_time F" and "history_state d" and "(account_step F)\<^sup>*\<^sup>* d d'"
    and "get_authority n d = Some x"
    and "head_block_time d' \<le> head_block_time d + OWNER_AUTH_RECOVERY_PERIOD"
    and "head_block_time d' + OWNER_AUTH_RECOVERY_PERIOD < 2 ^ 32"
  shows "traceable n (aa_owner x) (head_block_time d) d'"
proof -
  have "history_state d' \<and> head_block_time d \<le> head_block_time d' \<and>
    (head_block_time d' \<le> head_block_time d + OWNER_AUTH_RECOVERY_PERIOD \<longrightarrow>
     head_block_time d' + OWNER_AUTH_RECOVERY_PERIOD < 2 ^ 32 \<longrightarrow> traceable n (aa_owner x) (head_block_time d) d')"
    using assms(4)
  proof (induction rule: rtranclp_induct)
    case base
    then show ?case using assms(3,5) by (simp add: traceable_def)
  next
    case (step e e')
    from step(3) have e: "history_state e" "head_block_time d \<le> head_block_time e" by blast+
    show ?case using account_step_trace[OF step(2) assms(1,2) e(1)] step(3) e by auto
  qed
  with assms(6,7) show ?thesis by blast
qed

subsection \<open>When a recovery succeeds\<close>

definition recovery_allowed :: "fc_lib \<Rightarrow> recover_account_operation \<Rightarrow> chain_db \<Rightarrow> bool" where
  "recovery_allowed F op d \<longleftrightarrow>
     (\<exists>a x r. find_account (ra_accountToRecover op) d = Some a \<and> get_authority (ra_accountToRecover op) d = Some x \<and>
        (has_hardfork 12 d \<longrightarrow> secs_diff F (head_block_time d) (acc_last_account_recovery a) > OWNER_UPDATE_LIMIT) \<and>
        find_recovery_request (ra_accountToRecover op) d = Some r \<and>
        authority_eq (arr_new_owner_authority r) (ra_new_owner_authority op)) \<and>
     (\<exists>h \<in> set (db_owner_history d). oah_account h = ra_accountToRecover op \<and>
        authority_eq (oah_previous_owner_authority h) (ra_recent_owner_authority op))"

lemma recent_authority_sorted:
  assumes "sorted (map oah_account hs)"
  shows "recent_authority_loop n a (dropWhile (\<lambda>h. oah_account h < n) hs) \<longleftrightarrow>
    (\<exists>h \<in> set hs. oah_account h = n \<and> authority_eq (oah_previous_owner_authority h) a)"
  using assms
proof (induction hs)
  case (Cons h hs)
  have "recent_authority_loop n a hs \<longleftrightarrow> (\<exists>h \<in> set hs. oah_account h = n \<and> authority_eq (oah_previous_owner_authority h) a)"
    if "oah_account h = n"
  proof -
    have "dropWhile (\<lambda>h. oah_account h < n) hs = hs" using Cons.prems that by (cases hs) auto
    then show ?thesis using Cons by simp
  qed
  then show ?case using Cons by (cases "oah_account h" n rule: linorder_cases) auto
qed simp

lemma oah_sorted: "sorted (map oah_account (idx_sorted oah_order hs))"
proof -
  have "sorted (map oah_order (idx_sorted oah_order hs))" by (simp add: idx_sorted_def)
  then show ?thesis by (auto simp: sorted_wrt_map oah_order_def elim!: sorted_wrt_mono_rel[rotated])
qed

lemma modify_authority_succeeds:
  assumes "get_authority n d = Some x"
  shows "\<exists>d'. modify_authority n (\<lambda>a. Some (f a)) d = Some d' \<and> db_accounts d' = db_accounts d"
proof -
  have "\<exists>xs. tbl_modify (\<lambda>x. aa_account x = n) (\<lambda>a. Some (f a)) (db_authorities d) = Some xs"
    using assms by (simp add: tbl_modify_Some_iff get_authority_def)
  then show ?thesis by (auto simp: modify_authority_def)
qed

lemma update_owner_authority_succeeds:
  assumes "get_authority n d = Some x"
  shows "\<exists>d'. update_owner_authority n a d = Some d' \<and> db_accounts d' = db_accounts d"
proof -
  have h: "get_authority n (create_owner_history h d) = Some x" "db_accounts (create_owner_history h d) = db_accounts d" for h
    using assms by (simp_all add: get_authority_def create_owner_history_def take_id_def)
  show ?thesis
  proof (cases "OWNER_AUTH_HISTORY_TRACKING_START_BLOCK_NUM \<le> head_block_num d")
    case True
    then show ?thesis using assms modify_authority_succeeds[OF h(1)] by (simp add: update_owner_authority_def h(2))
  next
    case False
    then show ?thesis using modify_authority_succeeds[OF assms] by (simp add: update_owner_authority_def)
  qed
qed

lemma recovery_allowed_succeeds:
  assumes "recovery_allowed F op d"
  shows "\<exists>d'. recover_account_do_apply F op d = Some d'"
proof -
  let ?n = "ra_accountToRecover op"
  from assms obtain a x r where a: "find_account ?n d = Some a" and x: "get_authority ?n d = Some x" and
    t: "has_hardfork 12 d \<longrightarrow> secs_diff F (head_block_time d) (acc_last_account_recovery a) > OWNER_UPDATE_LIMIT" and
    r: "find_recovery_request ?n d = Some r" "authority_eq (arr_new_owner_authority r) (ra_new_owner_authority op)" and
    h: "\<exists>h \<in> set (db_owner_history d). oah_account h = ?n \<and> authority_eq (oah_previous_owner_authority h) (ra_recent_owner_authority op)"
    unfolding recovery_allowed_def by blast
  have l: "recent_authority_loop ?n (ra_recent_owner_authority op)
      (dropWhile (\<lambda>h. oah_account h < ?n) (idx_sorted oah_order (db_owner_history d)))"
    using h recent_authority_sorted[OF oah_sorted] by simp
  have "get_authority ?n (remove_recovery_request ?n d) = Some x"
    using x by (simp add: get_authority_def remove_recovery_request_def)
  from update_owner_authority_succeeds[OF this] obtain d2 where
    d2: "update_owner_authority ?n (ra_new_owner_authority op) (remove_recovery_request ?n d) = Some d2"
      "db_accounts d2 = db_accounts d"
    by (auto simp: remove_recovery_request_def)
  have "\<exists>xs. tbl_modify (\<lambda>a. acc_name a = ?n) (\<lambda>a. Some (a\<lparr>acc_last_account_recovery := head_block_time d2\<rparr>)) (db_accounts d2) = Some xs"
    using a d2(2) by (simp add: tbl_modify_Some_iff find_account_def)
  then show ?thesis using a t r l d2(1)
    by (auto simp: recover_account_do_apply_def get_account_def modify_account_def)
qed

text \<open>C31. An account is recovered exactly when its recovery partner has a pending request for this new owner
  authority, the account confirms it with an owner authority from its own history, and, from hardfork 12
  on, no recovery happened within the last hour (before hardfork 12 the code does not ask for this).  At a
  block number of at least 1.  It then has the new owner authority, the replaced one is in the history
  and the request is used up; no other account changes hands.\<close>

theorem recovery_exact:
  assumes "1 \<le> head_block_num d"
  shows "(recovery_allowed F op d \<longleftrightarrow> (\<exists>d'. recover_account_do_apply F op d = Some d')) \<and>
    (\<forall>d'. recover_account_do_apply F op d = Some d' \<longrightarrow>
      owner_changed (ra_accountToRecover op) (ra_new_owner_authority op) d d' \<and>
      db_recovery_requests d' = tbl_remove (\<lambda>x. arr_accountToRecover x = ra_accountToRecover op) (db_recovery_requests d))"
proof -
  have "recovery_allowed F op d \<and> owner_changed (ra_accountToRecover op) (ra_new_owner_authority op) d d' \<and>
      db_recovery_requests d' = tbl_remove (\<lambda>x. arr_accountToRecover x = ra_accountToRecover op) (db_recovery_requests d)"
    if "recover_account_do_apply F op d = Some d'" for d'
    using that assms
    by (rule recover_account_cases) (auto simp: recovery_allowed_def owner_changed_def get_account_def)
  then show ?thesis using recovery_allowed_succeeds by blast
qed

text \<open>C32. After the clean-up no recovery request that has expired, no change of a recovery account that is due
  and no owner authority older than thirty days is left.\<close>

theorem recovery_processing_done:
  assumes "fc_time F" and "history_state d" and "head_block_time d + OWNER_AUTH_RECOVERY_PERIOD < 2 ^ 32"
    and "account_recovery_processing F d = Some d'"
  shows "(\<forall>r \<in> set (db_recovery_requests d'). head_block_time d' < arr_expires r) \<and>
    (\<forall>r \<in> set (db_change_recovery d'). head_block_time d' < crr_effective_on r) \<and>
    (\<forall>h \<in> set (db_owner_history d'). head_block_time d' \<le> oah_last_valid_time h + OWNER_AUTH_RECOVERY_PERIOD)"
proof -
  from assms(4) obtain d1 d2 where l: "recovery_requests_loop (length (db_recovery_requests d)) d = Some d1"
    "change_recovery_loop (length (db_change_recovery d2)) d2 = Some d'" and f: "auth_frame d d1"
    "owner_history_loop F (length (db_owner_history d1)) d1 = Some d2" "db_recovery_requests d' = db_recovery_requests d2"
    by (rule account_recovery_processing_cases)
  note c = cleanup_trace[OF assms(4,2)]
  have s: "sorted_wrt (\<lambda>x y. oah_id x < oah_id y) (db_owner_history d1)"
    using assms(2) f(1) by (auto simp: history_state_def history_ok_def auth_frame_def elim!: sorted_wrt_mono_rel[rotated])
  have "db_recovery_requests d2 = db_recovery_requests d1"
    using owner_history_loop_eq[OF s order_refl, of F] f(2) by auto
  then have 1: "\<forall>r \<in> set (db_recovery_requests d'). head_block_time d' < arr_expires r"
    using recovery_request_queue.loop_done[OF l(1)] f c(2) by (auto simp: auth_frame_def not_le)
  have 2: "\<forall>r \<in> set (db_change_recovery d'). head_block_time d' < crr_effective_on r"
    using change_recovery_queue.loop_done[OF l(2)] by (auto simp: not_le)
  have e: "outdated F (head_block_time d) h \<longleftrightarrow> oah_last_valid_time h + OWNER_AUTH_RECOVERY_PERIOD < head_block_time d"
    if "h \<in> set (db_owner_history d)" for h
  proof -
    have "0 \<le> oah_last_valid_time h" "oah_last_valid_time h \<le> head_block_time d"
      using assms(2) that by (auto simp: history_state_def history_ok_def)
    then have "secs_add F (oah_last_valid_time h) OWNER_AUTH_RECOVERY_PERIOD = oah_last_valid_time h + OWNER_AUTH_RECOVERY_PERIOD"
      using assms(3) by (intro fc_time.secs_add_law[OF assms(1)]) (auto simp: OWNER_AUTH_RECOVERY_PERIOD_def)
    then show ?thesis by simp
  qed
  have "sorted_wrt (\<lambda>x y. oah_last_valid_time x \<le> oah_last_valid_time y) (db_owner_history d)"
    using assms(2) by (auto simp: history_state_def history_ok_def elim!: sorted_wrt_mono_rel[rotated])
  then have "\<forall>h \<in> set (dropWhile (\<lambda>h. oah_last_valid_time h + OWNER_AUTH_RECOVERY_PERIOD < head_block_time d) (db_owner_history d)).
      \<not> oah_last_valid_time h + OWNER_AUTH_RECOVERY_PERIOD < head_block_time d"
    by (rule dropWhile_sorted) simp
  moreover have "dropWhile (outdated F (head_block_time d)) (db_owner_history d) =
      dropWhile (\<lambda>h. oah_last_valid_time h + OWNER_AUTH_RECOVERY_PERIOD < head_block_time d) (db_owner_history d)"
    by (rule dropWhile_cong) (use e in auto)
  ultimately show ?thesis using 1 2 c(2,3) by (auto simp: not_less)
qed

subsection \<open>An example\<close>

text \<open>The owner authority of Alice is replaced; a day later she recovers the account with the old one.\<close>

definition example_key :: "nat \<Rightarrow> authority" where
  "example_key k = \<lparr>weight_threshold = 1, account_auths = [], key_auths = [(k, 1)]\<rparr>"

definition example_owned :: chain_db where
  "example_owned = example_db\<lparr>db_gpo := example_gpo\<lparr>gpo_time := 5000\<rparr>,
     db_authorities := [\<lparr>aa_id = 0, aa_account = ''alice'', aa_owner = example_key 1, aa_active = example_key 1,
       aa_posting = example_key 1, aa_last_owner_update = 0\<rparr>]\<rparr>"

definition example_stolen :: chain_db where
  "example_stolen = example_owned\<lparr>
     db_accounts := [(example_account 0 ''alice'' 1000 500 1000000)\<lparr>acc_last_accountUpdate := 5000\<rparr>,
       example_account 1 ''bob'' 1000 0 2000000, example_account 2 ''carol'' 0 0 3000000],
     db_authorities := [\<lparr>aa_id = 0, aa_account = ''alice'', aa_owner = example_key 2, aa_active = example_key 1,
       aa_posting = example_key 1, aa_last_owner_update = 5000\<rparr>],
     db_owner_history := [\<lparr>oah_id = 10, oah_account = ''alice'', oah_previous_owner_authority = example_key 1,
       oah_last_valid_time = 5000\<rparr>],
     db_next_id := (\<lambda>_. 10)(owner_authority_history_object_type := 11)\<rparr>"

definition example_later :: chain_db where
  "example_later = example_stolen\<lparr>db_gpo := example_gpo\<lparr>gpo_time := 91400, gpo_head_block_number := 2000\<rparr>\<rparr>"

definition example_requested :: chain_db where
  "example_requested = example_later\<lparr>db_recovery_requests := [\<lparr>arr_id = 3, arr_accountToRecover = ''bob'',
      arr_new_owner_authority = example_key 4, arr_expires = 80000\<rparr>,
     \<lparr>arr_id = 5, arr_accountToRecover = ''alice'', arr_new_owner_authority = example_key 3, arr_expires = 95000\<rparr>]\<rparr>"

definition example_cleaned :: chain_db where
  "example_cleaned = example_requested\<lparr>db_recovery_requests :=
     [\<lparr>arr_id = 5, arr_accountToRecover = ''alice'', arr_new_owner_authority = example_key 3, arr_expires = 95000\<rparr>]\<rparr>"

lemmas example_recovery_defs = example_cleaned_def example_requested_def example_later_def example_stolen_def
  example_owned_def example_defs

lemmas recovery_eval = get_account_def find_account_def get_authority_def has_hardfork_def head_block_time_def
  head_block_num_def TEMP_ACCOUNT_def OWNER_UPDATE_LIMIT_def accounts_exist_def update_owner_authority_def
  OWNER_AUTH_HISTORY_TRACKING_START_BLOCK_NUM_def create_owner_history_def take_id_def modify_authority_def modify_account_def

lemma example_owned_state: "history_state example_owned" "history_state example_requested" "history_state example_cleaned"
  by (simp_all add: history_state_def history_ok_def example_recovery_defs head_block_time_def head_block_num_def)

lemma example_theft: "account_step fc_exact example_owned example_stolen"
proof (rule account_step.update)
  show "accountUpdate_do_apply fc_exact \<lparr>au_account = ''alice'', au_owner = Some (example_key 2), au_active = None,
      au_posting = None, au_memoKey = 0, au_json = []\<rparr> example_owned = Some example_stolen"
    by (simp add: accountUpdate_do_apply_def recovery_eval example_key_def example_recovery_defs fc_exact_def)
qed

lemma example_day: "account_step fc_exact example_stolen example_later"
proof -
  have "account_step fc_exact example_stolen
      (example_stolen\<lparr>db_gpo := (db_gpo example_stolen)\<lparr>gpo_time := 91400, gpo_head_block_number := 2000\<rparr>\<rparr>)"
    by (rule account_step.produce) (simp_all add: example_recovery_defs head_block_time_def head_block_num_def)
  moreover have "example_stolen\<lparr>db_gpo := (db_gpo example_stolen)\<lparr>gpo_time := 91400, gpo_head_block_number := 2000\<rparr>\<rparr> = example_later"
    by (simp add: example_recovery_defs)
  ultimately show ?thesis by (simp only:)
qed

theorem owner_traceable_witness:
  "(account_step fc_exact)\<^sup>*\<^sup>* example_owned example_later \<and>
   map aa_owner (db_authorities example_later) \<noteq> map aa_owner (db_authorities example_owned) \<and>
   traceable ''alice'' (example_key 1) 5000 example_later"
proof -
  have s: "(account_step fc_exact)\<^sup>*\<^sup>* example_owned example_later" using example_theft example_day by simp
  have a: "get_authority ''alice'' example_owned = Some \<lparr>aa_id = 0, aa_account = ''alice'', aa_owner = example_key 1,
      aa_active = example_key 1, aa_posting = example_key 1, aa_last_owner_update = 0\<rparr>"
    by (simp add: get_authority_def example_recovery_defs)
  have t: "head_block_time example_owned = 5000" "head_block_time example_later = 91400"
    by (simp_all add: head_block_time_def example_recovery_defs)
  have "map aa_owner (db_authorities example_later) \<noteq> map aa_owner (db_authorities example_owned)"
    by (simp add: example_recovery_defs example_key_def)
  then show ?thesis
    using owner_traceable[OF fc_exact.fc_safe_axioms fc_exact.fc_time_axioms example_owned_state(1) s a] s t
    by (simp add: OWNER_AUTH_RECOVERY_PERIOD_def)
qed

theorem recovery_exact_witness:
  "\<exists>d'. recover_account_do_apply fc_exact \<lparr>ra_accountToRecover = ''alice'', ra_new_owner_authority = example_key 3,
      ra_recent_owner_authority = example_key 1\<rparr> example_requested = Some d' \<and>
    owner_changed ''alice'' (example_key 3) example_requested d' \<and> map arr_accountToRecover (db_recovery_requests d') = [''bob'']"
proof -
  let ?op = "\<lparr>ra_accountToRecover = ''alice'', ra_new_owner_authority = example_key 3, ra_recent_owner_authority = example_key 1\<rparr>"
  have b: "1 \<le> head_block_num example_requested" by (simp add: head_block_num_def example_recovery_defs)
  have "recovery_allowed fc_exact ?op example_requested"
    by (simp add: recovery_allowed_def find_recovery_request_def authority_eq_def recovery_eval example_recovery_defs fc_exact_def)
  with recovery_exact[OF b, of fc_exact ?op] obtain d' where
    d': "recover_account_do_apply fc_exact ?op example_requested = Some d'" by blast
  from recovery_exact[OF b, of fc_exact ?op] d' show ?thesis
    by (intro exI[of _ d']) (simp add: example_recovery_defs)
qed

theorem recovery_processing_done_witness:
  "account_recovery_processing fc_exact example_requested = Some example_cleaned \<and>
   map arr_accountToRecover (db_recovery_requests example_cleaned) = [''alice''] \<and>
   list_all (\<lambda>r. head_block_time example_cleaned < arr_expires r) (db_recovery_requests example_cleaned)"
proof -
  have "recovery_requests_loop (Suc (Suc 0)) example_requested = Some example_cleaned"
    by (simp add: example_recovery_defs idx_begin_def idx_sorted_def arr_order_def head_block_time_def)
  moreover have "owner_history_loop fc_exact (Suc 0) example_cleaned = Some example_cleaned"
    by (simp add: example_recovery_defs idx_begin_def idx_sorted_def head_block_time_def OWNER_AUTH_RECOVERY_PERIOD_def fc_exact_def)
  moreover have "length (db_recovery_requests example_requested) = Suc (Suc 0)" "length (db_owner_history example_cleaned) = Suc 0"
    "length (db_change_recovery example_cleaned) = 0"
    by (simp_all add: example_recovery_defs)
  ultimately have r: "account_recovery_processing fc_exact example_requested = Some example_cleaned"
    by (simp only: account_recovery_processing_def bind.bind_lunit change_recovery_loop.simps)
  have t: "head_block_time example_requested + OWNER_AUTH_RECOVERY_PERIOD < 2 ^ 32"
    by (simp add: head_block_time_def example_recovery_defs OWNER_AUTH_RECOVERY_PERIOD_def)
  from recovery_processing_done[OF fc_exact.fc_time_axioms example_owned_state(2) t r] r show ?thesis
    by (simp add: list_all_iff) (simp add: example_recovery_defs)
qed

end
