(* ===== verification/Curves.thy ===== *)
theory Curves
  imports Objects
begin

text \<open>
  The reward curves (\<open>libraries/chain/util/reward.cpp\<close>, \<open>util/reward.hpp\<close>, \<open>util/asset.hpp\<close>):
  \<open>find_msb\<close>, \<open>approx_sqrt\<close>, \<open>evaluate_reward_curve\<close>, \<open>get_SCORE_reward\<close>.  The square root is computed
  from the most significant bit and a halved mantissa; shown here is how far it can be off.
\<close>

unbundle bit_operations_syntax

definition CONTENT_CONSTANT_HF0 :: int where "CONTENT_CONSTANT_HF0 = 2000000000000"
definition MIN_PAYOUT_TSD :: asset where "MIN_PAYOUT_TSD = mk_asset 20 SYMBOL_USD"

definition to_TSD :: "fc_lib \<Rightarrow> price \<Rightarrow> asset \<Rightarrow> asset option" where
  "to_TSD F p x = do {
     FC_ASSERT (symbol x = SYMBOL_COIN);
     if price_is_null F p then Some (mk_asset 0 SYMBOL_USD) else asset_mul_price F x p }"

definition to_TME :: "fc_lib \<Rightarrow> price \<Rightarrow> asset \<Rightarrow> asset option" where
  "to_TME F p x = do {
     FC_ASSERT (symbol x = SYMBOL_USD);
     if price_is_null F p then Some (mk_asset 0 SYMBOL_COIN) else asset_mul_price F x p }"

definition find_msb :: "fc_lib \<Rightarrow> int \<Rightarrow> nat" where
  "find_msb F u =
     (let x = (if u128_lo F u \<noteq> 0 then u128_lo F u else 1);
          places = (if u128_hi F u \<noteq> 0 then 64 else 0);
          x = (if u128_hi F u \<noteq> 0 then u128_hi F u else x)
      in (find_msb64 F x + places) mod 2 ^ 8)"

definition approx_sqrt :: "fc_lib \<Rightarrow> int \<Rightarrow> int" where
  "approx_sqrt F x =
     (if u128_lo F x = 0 \<and> u128_hi F x = 0 then 0
      else
        let msb_x = find_msb F x;
            msb_z = msb_x div 2;
            msb_x_bit = u128_shl F (u128_of F 1) msb_x;
            msb_z_bit = 2 ^ msb_z mod 2 ^ 64;
            mantissa_mask = u128_sub F msb_x_bit (u128_of F 1);
            mantissa_x = u128_and F x mantissa_mask;
            mantissa_z_hi = (if odd msb_x then msb_z_bit else 0);
            mantissa_z_lo = u128_lo F (u128_shr F mantissa_x (msb_x - msb_z));
            mantissa_z = (mantissa_z_hi OR mantissa_z_lo) div 2
        in msb_z_bit OR mantissa_z)"

definition evaluate_reward_curve :: "fc_lib \<Rightarrow> int \<Rightarrow> curve_id \<Rightarrow> int \<Rightarrow> int option" where
  "evaluate_reward_curve F SCOREreward curve content_constant =
     (case curve of
        quadratic \<Rightarrow>
          let SCOREreward_plus_s = u128_add F SCOREreward content_constant
          in Some (u128_sub F (u128_mul F SCOREreward_plus_s SCOREreward_plus_s) (u128_mul F content_constant content_constant))
      | quadratic_curation \<Rightarrow>
          let two_alpha = u128_mul F content_constant (u128_of F 2)
          in u128_div F (u128_lo F SCOREreward * 2 ^ 64) (u128_add F two_alpha SCOREreward)
      | linear \<Rightarrow> Some SCOREreward
      | square_root \<Rightarrow> Some (u128_of F (approx_sqrt F SCOREreward)))"

record comment_reward_context =
  ctx_SCOREreward :: int
  ctx_reward_weight :: int
  ctx_max_TSD :: asset
  ctx_totalSCOREreward2 :: int
  ctx_total_reward_fund_TME :: asset
  ctx_current_TME_price :: price
  ctx_reward_curve :: curve_id
  ctx_content_constant :: int

definition is_comment_payout_dust :: "fc_lib \<Rightarrow> price \<Rightarrow> int \<Rightarrow> bool option" where
  "is_comment_payout_dust F p TMEpayout = do {
     x \<leftarrow> to_TSD F p (mk_asset (int64_of_uint64 TMEpayout) SYMBOL_COIN);
     asset_less x MIN_PAYOUT_TSD }"

definition get_SCORE_reward :: "fc_lib \<Rightarrow> comment_reward_context \<Rightarrow> int option" where
  "get_SCORE_reward F ctx = do {
     FC_ASSERT (ctx_SCOREreward ctx > 0);
     FC_ASSERT (ctx_totalSCOREreward2 ctx > 0);
     let rf = amount (ctx_total_reward_fund_TME ctx) mod 2 ^ 256;
     let total_claims = ctx_totalSCOREreward2 ctx;
     c \<leftarrow> evaluate_reward_curve F (u128_of F (ctx_SCOREreward ctx)) (ctx_reward_curve ctx) (ctx_content_constant ctx);
     claim \<leftarrow> wide_div F (wide_mul F 256 c (ctx_reward_weight ctx)) PERCENT_100;
     payout_u256 \<leftarrow> wide_div F (wide_mul F 256 rf claim) total_claims;
     FC_ASSERT (payout_u256 \<le> 2 ^ 63 - 1);
     let payout = wide_to_uint64 F payout_u256;
     dust \<leftarrow> is_comment_payout_dust F (ctx_current_TME_price ctx) payout;
     let payout = (if dust then 0 else payout);
     max_TME \<leftarrow> to_TME F (ctx_current_TME_price ctx) (ctx_max_TSD ctx);
     Some (min payout (amount max_TME mod 2 ^ 64)) }"

subsection \<open>The square root\<close>

lemma div_mult_bounds: "0 < (n :: int) \<Longrightarrow> n * (y div n) \<le> y \<and> y < n * (y div n) + n"
  using mult_div_mod_eq[of n y] pos_mod_bound[of n y] pos_mod_sign[of n y] by linarith

lemma div_lt: "0 < (n :: int) \<Longrightarrow> y < n * k \<Longrightarrow> y div n < k"
  using div_mult_bounds[of n y] by (metis le_less_trans mult_less_cancel_left_pos)

lemma or_disjoint: "0 \<le> y \<Longrightarrow> y < 2 ^ k \<Longrightarrow> (2 ^ k :: int) OR y = 2 ^ k + y"
proof -
  assume y: "0 \<le> y" "y < 2 ^ k"
  have "bit y i \<Longrightarrow> i < k" for i
    using y by (metis bit_take_bit_iff take_bit_int_eq_self)
  then show ?thesis by (intro disjunctive_add[symmetric]) (auto simp: bit_exp_iff)
qed

context fc_library
begin

lemma find_msb_bounds:
  assumes "in_u128 x" "x \<noteq> 0"
  shows "2 ^ find_msb F x \<le> x \<and> x < 2 * 2 ^ find_msb F x \<and> find_msb F x < 128"
proof -
  have x: "0 < x" "x < 2 ^ 128" using assms by (auto simp: in_u128_def)
  have e: "x = x div 2 ^ 64 * 2 ^ 64 + x mod 2 ^ 64" by simp
  have m: "0 \<le> x mod 2 ^ 64" "x mod 2 ^ 64 < 2 ^ 64" by simp_all
  have small: "find_msb64 F y < 64" if "0 < y" "y < 2 ^ 64" for y
  proof (rule ccontr)
    assume "\<not> find_msb64 F y < 64"
    then have "(2 :: int) ^ 64 \<le> 2 ^ find_msb64 F y" by (intro power_increasing) simp_all
    with find_msb64_law[OF that] that show False by linarith
  qed
  show ?thesis
  proof (cases "x div 2 ^ 64 = 0")
    case True
    then have lo: "u128_lo F x = x" "u128_hi F x = 0" "x < 2 ^ 64"
      using e m by (simp_all add: u128_lo_law u128_hi_law assms(1))
    then have "find_msb F x = find_msb64 F x" using x small[OF x(1)] by (simp add: find_msb_def Let_def)
    with find_msb64_law[OF x(1) lo(3)] small[OF x(1) lo(3)] show ?thesis by simp
  next
    case False
    let ?h = "x div 2 ^ 64"
    have "0 \<le> ?h" using x by (simp add: pos_imp_zdiv_nonneg_iff)
    then have h: "0 < ?h" "?h < 2 ^ 64" using False x by (simp_all add: div_less_iff_less_mult)
    have "u128_hi F x = ?h" by (simp add: u128_hi_law assms(1))
    then have f: "find_msb F x = find_msb64 F ?h + 64" using h small[OF h] by (simp add: find_msb_def Let_def)
    from find_msb64_law[OF h] have b: "2 ^ find_msb64 F ?h \<le> ?h" "?h + 1 \<le> 2 * 2 ^ find_msb64 F ?h" by auto
    have "2 ^ find_msb F x \<le> x" using mult_right_mono[OF b(1), of "2 ^ 64"] e m by (simp add: f power_add)
    moreover have "x < 2 * 2 ^ find_msb F x"
      using mult_right_mono[OF b(2), of "2 ^ 64"] e m by (simp add: f power_add algebra_simps)
    ultimately show ?thesis using f small[OF h] by simp
  qed
qed

lemma approx_sqrt_value:
  assumes "in_u128 x" "x \<noteq> 0"
  shows "approx_sqrt F x = (let m = find_msb F x; k = m div 2; y = x - 2 ^ m in
    if even m then 2 ^ k + y div (2 * 2 ^ k) else 2 ^ k + (2 ^ k + y div (2 * 2 ^ k)) div 2)"
proof -
  let ?m = "find_msb F x"
  let ?k = "?m div 2" and ?y = "x - 2 ^ ?m"
  note b = find_msb_bounds[OF assms]
  have y: "0 \<le> ?y" "?y < 2 ^ ?m" and m: "?m < 128" using b by auto
  have nz: "\<not> (u128_lo F x = 0 \<and> u128_hi F x = 0)"
    using assms by (auto simp: u128_lo_law u128_hi_law in_u128_def)
  have "(2 :: int) ^ ?m < 2 ^ 128" using m by (intro power_strict_increasing) simp_all
  then have bit: "u128_shl F (u128_of F 1) ?m = 2 ^ ?m" using m by (simp add: u128_of_law u128_shl_law in_u128_def)
  have mask: "u128_sub F (2 ^ ?m) (u128_of F 1) = 2 ^ ?m - 1"
    using \<open>(2 :: int) ^ ?m < 2 ^ 128\<close> by (simp add: u128_of_law u128_sub_law in_u128_def)
  have mx: "u128_and F x (2 ^ ?m - 1) = ?y"
  proof -
    have "x mod 2 ^ ?m = (?y + 2 ^ ?m) mod 2 ^ ?m" by simp
    also have "\<dots> = ?y" using y by (simp only: mod_add_self2 mod_pos_pos_trivial)
    finally have "x mod 2 ^ ?m = ?y" .
    then show ?thesis using u128_and_law[OF assms(1) m] by simp
  qed
  have yin: "in_u128 ?y" using y \<open>(2 :: int) ^ ?m < 2 ^ 128\<close> by (simp add: in_u128_def)
  let ?l = "?y div 2 ^ (?m - ?k)"
  have l: "0 \<le> ?l" "?l < 2 ^ ?k"
  proof -
    show "0 \<le> ?l" using y by (simp add: pos_imp_zdiv_nonneg_iff)
    have "(2 :: int) ^ ?m = 2 ^ ?k * 2 ^ (?m - ?k)" by (simp flip: power_add)
    then have "?y < 2 ^ ?k * 2 ^ (?m - ?k)" using y(2) by simp
    then show "?l < 2 ^ ?k" by (intro div_lt) (simp_all add: mult.commute)
  qed
  have k64: "(2 :: int) ^ ?k \<le> 2 ^ 63" using m by (intro power_increasing) auto
  have lo: "u128_lo F (u128_shr F ?y (?m - ?k)) = ?l"
    using l k64 m by (simp add: u128_shr_law[OF yin] u128_lo_law in_u128_def)
  have zb: "(2 :: int) ^ ?k mod 2 ^ 64 = 2 ^ ?k" using k64 by simp
  have r: "approx_sqrt F x = 2 ^ ?k OR ((if odd ?m then 2 ^ ?k else 0) OR ?l) div 2"
    unfolding approx_sqrt_def Let_def using nz by (simp only: bit mask mx lo zb if_False)
  show ?thesis
  proof (cases "even ?m")
    case True
    then have "?m - ?k = ?k" by auto
    then have "?l div 2 = ?y div (2 * 2 ^ ?k)" by (simp add: zdiv_zmult2_eq mult.commute flip: zdiv_zmult2_eq)
    moreover have "2 ^ ?k OR ?l div 2 = 2 ^ ?k + ?l div 2" using l by (intro or_disjoint) auto
    ultimately show ?thesis using r True by (simp add: Let_def)
  next
    case False
    then have "?m - ?k = Suc ?k" by presburger
    then have "?l = ?y div (2 * 2 ^ ?k)" by simp
    moreover have "2 ^ ?k OR (2 ^ ?k + ?l) div 2 = 2 ^ ?k + (2 ^ ?k + ?l) div 2"
      using l by (intro or_disjoint div_lt) auto
    ultimately show ?thesis using r False or_disjoint[OF l] by (simp add: Let_def)
  qed
qed

end

lemma sqrt_even_step:
  fixes y z :: int
  assumes "0 < z" "0 \<le> y" "y < z * z"
  shows "z * z + y < (z + y div (2 * z) + 1)\<^sup>2" "8 * (z + y div (2 * z))\<^sup>2 \<le> 9 * (z * z + y)"
proof -
  let ?q = "y div (2 * z)"
  have q: "0 \<le> ?q" using assms by (simp add: pos_imp_zdiv_nonneg_iff)
  have y: "2 * z * ?q \<le> y" "y < 2 * z * (?q + 1)"
    using div_mult_bounds[of "2 * z" y] assms(1) by (simp_all add: algebra_simps)
  have "z * (2 * ?q) < z * z" using y(1) assms(3) by (simp add: algebra_simps)
  then have qz: "2 * ?q \<le> z" using assms(1) by simp
  have "0 \<le> (?q + 1)\<^sup>2" by simp
  then show "z * z + y < (z + ?q + 1)\<^sup>2" using y(2) by (simp add: power2_eq_square algebra_simps)
  have "2 * ?q * (2 * ?q) \<le> z * z" "2 * ?q * (2 * ?q) \<le> z * (2 * ?q)" using qz q assms(1) by (intro mult_mono; simp)+
  then show "8 * (z + ?q)\<^sup>2 \<le> 9 * (z * z + y)" using y(1) by (simp add: power2_eq_square algebra_simps)
qed

lemma sqrt_odd_step:
  fixes y z :: int
  assumes "0 < z" "0 \<le> y" "y < 2 * z * z"
  shows "2 * z * z + y < (z + (z + y div (2 * z)) div 2 + 1)\<^sup>2" "8 * (z + (z + y div (2 * z)) div 2)\<^sup>2 \<le> 9 * (2 * z * z + y)"
proof -
  let ?l = "y div (2 * z)"
  let ?r = "z + (z + ?l) div 2"
  have l: "0 \<le> ?l" using assms by (simp add: pos_imp_zdiv_nonneg_iff)
  have y: "2 * z * ?l \<le> y" "y < 2 * z * (?l + 1)"
    using div_mult_bounds[of "2 * z" y] assms(1) by (simp_all add: algebra_simps)
  have "2 * z * ?l < 2 * z * z" using y(1) assms(3) by linarith
  then have lz: "?l < z" using assms(1) by simp
  have r: "3 * z + ?l + 1 \<le> 2 * (?r + 1)" "2 * ?r \<le> 3 * z + ?l"
    using div_mult_bounds[of 2 "z + ?l", simplified] by simp_all
  have "(3 * z + ?l + 1)\<^sup>2 \<le> (2 * (?r + 1))\<^sup>2" using r(1) l assms(1) by (intro power_mono) simp_all
  moreover have "0 \<le> (z - (?l + 1))\<^sup>2" by simp
  ultimately show "2 * z * z + y < (?r + 1)\<^sup>2" using y(2) by (simp add: power2_eq_square algebra_simps)
  have "(2 * ?r)\<^sup>2 \<le> (3 * z + ?l)\<^sup>2" using r(2) l assms(1) by (intro power_mono) simp_all
  moreover have "?l * ?l \<le> z * ?l" "0 \<le> z * ?l" using lz l assms(1) by (simp_all add: mult_right_mono)
  ultimately show "8 * ?r\<^sup>2 \<le> 9 * (2 * z * z + y)" using y(1) by (simp add: power2_eq_square algebra_simps)
qed

text \<open>C33. The square root of the reward curve, computed with shifts from the most significant bit, is never
  more than one below the true square root and never more than 6.07 percent (a factor \<open>sqrt (9 / 8)\<close>)
  above it, for every 128-bit argument.\<close>

theorem approx_sqrt_close:
  assumes "fc_library F" and "in_u128 x"
  shows "x < (approx_sqrt F x + 1)\<^sup>2 \<and> 8 * (approx_sqrt F x)\<^sup>2 \<le> 9 * x"
proof (cases "x = 0")
  case True
  then show ?thesis
    using fc_u128.u128_hi_law[of F 0] fc_bits.u128_lo_law[of F 0] assms
    by (simp add: approx_sqrt_def in_u128_def fc_library_def)
next
  case False
  let ?m = "find_msb F x"
  define z y where "z = (2 :: int) ^ (?m div 2)" and "y = x - 2 ^ ?m"
  note b = fc_library.find_msb_bounds[OF assms False]
  have y: "0 \<le> y" "y < 2 ^ ?m" "x = 2 ^ ?m + y" and z: "0 < z" using b by (simp_all add: y_def z_def)
  have v: "approx_sqrt F x = (if even ?m then z + y div (2 * z) else z + (z + y div (2 * z)) div 2)"
    using fc_library.approx_sqrt_value[OF assms False] by (simp add: Let_def z_def y_def)
  show ?thesis
  proof (cases "even ?m")
    case True
    then obtain k where "?m = k + k" by (metis evenE mult_2)
    then have m: "2 ^ ?m = z * z" by (simp add: z_def power_add)
    have "approx_sqrt F x = z + y div (2 * z)" using v True by simp
    with sqrt_even_step[OF z y(1)] y(2,3) m show ?thesis by simp
  next
    case False
    then obtain k where "?m = k + k + 1" by (metis oddE mult_2)
    then have m: "2 ^ ?m = 2 * z * z" by (simp add: z_def power_add)
    have "approx_sqrt F x = z + (z + y div (2 * z)) div 2" using v False by simp
    with sqrt_odd_step[OF z y(1)] y(2,3) m show ?thesis by simp
  qed
qed

lemma example_msb: "msb 3000000 = 21"
  by (simp add: msb.simps)

theorem approx_sqrt_close_witness:
  "approx_sqrt fc_exact 3000000 = 1756 \<and> 3000000 < (approx_sqrt fc_exact 3000000 + 1)\<^sup>2 \<and>
   8 * (approx_sqrt fc_exact 3000000)\<^sup>2 \<le> 9 * 3000000"
proof -
  have "approx_sqrt fc_exact 3000000 = 1756" 
    by (simp add: approx_sqrt_def find_msb_def Let_def example_msb)
  then show ?thesis using approx_sqrt_close[OF fc_exact.fc_library_axioms, of 3000000] by (simp add: in_u128_def)
qed

end
