(* ===== verification/Comments.thy ===== *)
theory Comments
  imports Recovery Curves
begin

text \<open>
  Comments (\<open>libraries/chain/node_evaluator.cpp\<close>: \<open>comment_evaluator\<close>, \<open>deleteComment_evaluator\<close>,
  \<open>comment_options_evaluator\<close>; \<open>libraries/chain/database.cpp\<close>: \<open>get_comment\<close>,
  \<open>calculate_discussion_payout_time\<close>).

  Comments form a forest: every reply knows its parent by author and permlink, its root by id and its
  depth; every comment counts its descendants.  The walk from a comment to its root
  (\<open>while( parent ) \<dots>\<close>) gets as much fuel as there are comments and fails when it runs out; shown here is
  that it never does, and that the counters are exact.
\<close>

definition MIN_PERMLINK_LENGTH :: nat where "MIN_PERMLINK_LENGTH = 0"
definition MAX_COMMENT_DEPTH_PRE_HF17 :: int where "MAX_COMMENT_DEPTH_PRE_HF17 = 6"
definition MAX_COMMENT_DEPTH :: int where "MAX_COMMENT_DEPTH = 65535"
definition MIN_ROOT_COMMENT_INTERVAL :: int where "MIN_ROOT_COMMENT_INTERVAL = 3"
definition MIN_REPLY_INTERVAL :: int where "MIN_REPLY_INTERVAL = 2"
definition POST_AVERAGE_WINDOW :: int where "POST_AVERAGE_WINDOW = 60 * 60 * 24"
definition POST_MAX_BANDWIDTH :: int where "POST_MAX_BANDWIDTH = 4 * PERCENT_100"
definition POST_WEIGHT_CONSTANT :: int where "POST_WEIGHT_CONSTANT = POST_MAX_BANDWIDTH * POST_MAX_BANDWIDTH"
definition CASHOUT_WINDOW_SECONDS_PRE_HF12 :: int where "CASHOUT_WINDOW_SECONDS_PRE_HF12 = 60 * 60 * 24"
definition CASHOUT_WINDOW_SECONDS_PRE_HF17 :: int where "CASHOUT_WINDOW_SECONDS_PRE_HF17 = 60 * 60 * 12"

subsection \<open>Lookups and rows\<close>

text \<open>Permlinks are compared as C strings, up to the first zero byte.\<close>

definition c_str :: "string \<Rightarrow> string" where
  "c_str s = takeWhile (\<lambda>c. c \<noteq> CHR 0x00) s"

definition strcmp_equal :: "string \<Rightarrow> string \<Rightarrow> bool" where
  "strcmp_equal a b \<longleftrightarrow> length a = length b \<or> c_str a = c_str b"

definition find_comment :: "account_name_type \<Rightarrow> string \<Rightarrow> chain_db \<Rightarrow> comment_object option" where
  "find_comment author permlink d =
     List.find (\<lambda>c. cmt_author c = author \<and> c_str (cmt_permlink c) = c_str permlink) (db_comments d)"

definition get_comment :: "account_name_type \<Rightarrow> string \<Rightarrow> chain_db \<Rightarrow> comment_object option" where
  "get_comment author permlink d = find_comment author permlink d"

definition get_comment_id :: "nat \<Rightarrow> chain_db \<Rightarrow> comment_object option" where
  "get_comment_id i d = List.find (\<lambda>c. cmt_id c = i) (db_comments d)"

definition modify_comment :: "nat \<Rightarrow> (comment_object \<Rightarrow> comment_object option) \<Rightarrow> chain_db \<Rightarrow> chain_db option" where
  "modify_comment i f d = do {
     xs \<leftarrow> tbl_modify (\<lambda>c. cmt_id c = i) f (db_comments d);
     Some (d\<lparr>db_comments := xs\<rparr>) }"

definition create_comment :: "comment_object \<Rightarrow> chain_db \<Rightarrow> chain_db option" where
  "create_comment c d = do {
     xs \<leftarrow> tbl_emplace (\<lambda>x y. cmt_author x = cmt_author y \<and> c_str (cmt_permlink x) = c_str (cmt_permlink y)) c (db_comments d);
     Some ((take_id comment_object_type d)\<lparr>db_comments := xs\<rparr>) }"

definition remove_comment :: "nat \<Rightarrow> chain_db \<Rightarrow> chain_db" where
  "remove_comment i d = d\<lparr>db_comments := tbl_remove (\<lambda>c. cmt_id c = i) (db_comments d)\<rparr>"

definition calculate_discussion_payout_time :: "comment_object \<Rightarrow> chain_db \<Rightarrow> time option" where
  "calculate_discussion_payout_time c d =
     (if has_hardfork 17 d \<or> cmt_parent_author c = [] then Some (cmt_cashout_time c)
      else map_option cmt_cashout_time (get_comment_id (cmt_root_comment c) d))"

text \<open>The fields of a comment as its class initialises them.\<close>

definition new_comment_object :: comment_object where
  "new_comment_object = \<lparr>cmt_id = 0, cmt_category = [], cmt_parent_author = [], cmt_parent_permlink = [],
     cmt_author = [], cmt_permlink = [], cmt_title = [], cmt_body = [], cmt_json = [], cmt_last_update = 0,
     cmt_created = 0, cmt_active = 0, cmt_last_payout = 0, cmt_depth = 0, cmt_children = 0,
     cmt_net_SCOREreward = 0, cmt_abs_SCOREreward = 0, cmt_vote_SCOREreward = 0, cmt_children_abs_SCOREreward = 0,
     cmt_cashout_time = 0, cmt_max_cashout_time = 0, cmt_total_vote_weight = 0, cmt_reward_weight = 0,
     cmt_total_payout_value = mk_asset 0 SYMBOL_USD, cmt_curator_payout_value = mk_asset 0 SYMBOL_USD,
     cmt_beneficiary_payout_value = mk_asset 0 SYMBOL_USD, cmt_authorRewards = 0, cmt_net_votes = 0,
     cmt_root_comment = 0, cmt_max_accepted_payout = mk_asset 1000000000 SYMBOL_USD, cmt_percent_TSD = PERCENT_100,
     cmt_allow_replies = True, cmt_allow_votes = True, cmt_allow_curationRewards = True, cmt_beneficiaries = []\<rparr>"

subsection \<open>Walking to the root\<close>

fun ancestors_loop :: "nat \<Rightarrow> int \<Rightarrow> nat \<Rightarrow> chain_db \<Rightarrow> chain_db option" where
  "ancestors_loop 0 step i d = None"
| "ancestors_loop (Suc n) step i d = do {
     d1 \<leftarrow> modify_comment i (\<lambda>p. Some (p\<lparr>cmt_children := (cmt_children p + step) mod 2 ^ 32,
             cmt_active := head_block_time d\<rparr>)) d;
     p \<leftarrow> get_comment_id i d1;
     if cmt_parent_author p \<noteq> [] then do {
       q \<leftarrow> get_comment (cmt_parent_author p) (cmt_parent_permlink p) d1;
       ancestors_loop n step (cmt_id q) d1 }
     else Some d1 }"

definition touch_ancestors :: "int \<Rightarrow> nat \<Rightarrow> chain_db \<Rightarrow> chain_db option" where
  "touch_ancestors step i d = ancestors_loop (length (db_comments d)) step i d"

subsection \<open>Deleting a comment and its options\<close>

definition not_challenged :: "account_name_type \<Rightarrow> chain_db \<Rightarrow> unit option" where
  "not_challenged n d =
     (if has_hardfork 10 d then do {
        auth \<leftarrow> get_account n d;
        FC_ASSERT (\<not> (acc_owner_challenged auth \<or> acc_active_challenged auth)) }
      else Some ())"

definition deleteComment_do_apply :: "fc_lib \<Rightarrow> deleteComment_operation \<Rightarrow> chain_db \<Rightarrow> chain_db option" where
  "deleteComment_do_apply F op d = do {
     not_challenged (dc_author op) d;
     comment \<leftarrow> get_comment (dc_author op) (dc_permlink op) d;
     FC_ASSERT (cmt_children comment = 0);
     (if has_hardfork 19 d then FC_ASSERT (cmt_cashout_time comment \<noteq> secs_max F) else Some ());
     (if has_hardfork 19 d then FC_ASSERT (cmt_net_SCOREreward comment \<le> 0) else Some ());
     if cmt_net_SCOREreward comment > 0 then Some d
     else do {
       let d1 = d\<lparr>db_comment_votes := filter (\<lambda>v. cvo_comment v \<noteq> cmt_id comment) (db_comment_votes d)\<rparr>;
       d2 \<leftarrow> (if has_hardfork 6 d1 \<and> cmt_parent_author comment \<noteq> [] then do {
                parent \<leftarrow> get_comment (cmt_parent_author comment) (cmt_parent_permlink comment) d1;
                touch_ancestors (- 1) (cmt_id parent) d1 }
              else Some d1);
       Some (remove_comment (cmt_id comment) d2) } }"

fun add_beneficiaries :: "beneficiary_route_type list \<Rightarrow> chain_db \<Rightarrow> comment_object \<Rightarrow> comment_object option" where
  "add_beneficiaries [] d c = Some c"
| "add_beneficiaries (b # bs) d c = do {
     find_account (br_account b) d;
     add_beneficiaries bs d (c\<lparr>cmt_beneficiaries := cmt_beneficiaries c @ [b]\<rparr>) }"

fun visit_extensions :: "beneficiary_route_type list list \<Rightarrow> nat \<Rightarrow> chain_db \<Rightarrow> chain_db option" where
  "visit_extensions [] i d = Some d"
| "visit_extensions (e # es) i d = do {
     c \<leftarrow> get_comment_id i d;
     FC_ASSERT (length (cmt_beneficiaries c) = 0);
     FC_ASSERT (cmt_abs_SCOREreward c = 0);
     d1 \<leftarrow> modify_comment i (add_beneficiaries e d) d;
     visit_extensions es i d1 }"

definition comment_options_do_apply :: "comment_options_operation \<Rightarrow> chain_db \<Rightarrow> chain_db option" where
  "comment_options_do_apply op d = do {
     not_challenged (co_author op) d;
     comment \<leftarrow> get_comment (co_author op) (co_permlink op) d;
     restricts \<leftarrow> (if \<not> co_allow_curationRewards op \<or> \<not> co_allow_votes op then Some True
                   else asset_less (co_max_accepted_payout op) (cmt_max_accepted_payout comment));
     (if restricts then FC_ASSERT (cmt_abs_SCOREreward comment = 0) else Some ());
     FC_ASSERT (co_allow_curationRewards op \<longrightarrow> cmt_allow_curationRewards comment);
     FC_ASSERT (co_allow_votes op \<longrightarrow> cmt_allow_votes comment);
     FC_ASSERT_opt (asset_ge (cmt_max_accepted_payout comment) (co_max_accepted_payout op));
     FC_ASSERT (cmt_percent_TSD comment \<ge> co_percent_TSD op);
     d1 \<leftarrow> modify_comment (cmt_id comment) (\<lambda>c. Some (c\<lparr>cmt_max_accepted_payout := co_max_accepted_payout op,
        cmt_percent_TSD := co_percent_TSD op, cmt_allow_votes := co_allow_votes op,
        cmt_allow_curationRewards := co_allow_curationRewards op\<rparr>)) d;
     visit_extensions (co_extensions op) (cmt_id comment) d1 }"

subsection \<open>Posting and editing\<close>

definition permlink_char :: "char \<Rightarrow> bool" where
  "permlink_char c \<longleftrightarrow> is_lower_letter c \<or> is_digit c \<or> c = CHR ''-''"

definition validate_permlink_0_1 :: "string \<Rightarrow> unit option" where
  "validate_permlink_0_1 s = do {
     FC_ASSERT (length s > MIN_PERMLINK_LENGTH \<and> length s < MAX_PERMLINK_LENGTH);
     FC_ASSERT (list_all permlink_char s) }"

definition post_interval_ok :: "fc_lib \<Rightarrow> comment_operation \<Rightarrow> account_object \<Rightarrow> chain_db \<Rightarrow> unit option" where
  "post_interval_ok F op auth d =
     (let now = head_block_time d in
      if has_hardfork 12 d then
        if cm_parent_author op = [] then FC_ASSERT (secs_diff F now (acc_last_root_post auth) > MIN_ROOT_COMMENT_INTERVAL)
        else FC_ASSERT (secs_diff F now (acc_last_post auth) > MIN_REPLY_INTERVAL)
      else if has_hardfork 6 d then
        if cm_parent_author op = [] then FC_ASSERT (secs_diff F now (acc_last_post auth) > MIN_ROOT_COMMENT_INTERVAL)
        else FC_ASSERT (secs_diff F now (acc_last_post auth) > MIN_REPLY_INTERVAL)
      else FC_ASSERT (secs_diff F now (acc_last_post auth) > 60))"

text \<open>Reward weight and bandwidth of a new post: 32- and 64-bit unsigned arithmetic.  A division by zero
  would trap; the model throws.\<close>

definition post_weight :: "comment_operation \<Rightarrow> account_object \<Rightarrow> chain_db \<Rightarrow> (int \<times> int) option" where
  "post_weight op auth d =
     (if has_hardfork 12 d \<and> \<not> has_hardfork 17 d \<and> cm_parent_author op = [] then do {
        let post_delta_time = min ((head_block_time d - acc_last_root_post auth) mod 2 ^ 32) POST_AVERAGE_WINDOW;
        let old_weight = ((acc_post_bandwidth auth * (POST_AVERAGE_WINDOW - post_delta_time)) mod 2 ^ 64
              div POST_AVERAGE_WINDOW) mod 2 ^ 32;
        let post_bandwidth = (old_weight + PERCENT_100) mod 2 ^ 32;
        let square = (post_bandwidth * post_bandwidth) mod 2 ^ 64;
        FC_ASSERT (square \<noteq> 0);
        Some (min (((POST_WEIGHT_CONSTANT * PERCENT_100) mod 2 ^ 64) div square) PERCENT_100, post_bandwidth) }
      else Some (PERCENT_100, acc_post_bandwidth auth))"

definition initial_comment ::
  "fc_lib \<Rightarrow> comment_operation \<Rightarrow> comment_object option \<Rightarrow> int \<Rightarrow> chain_db \<Rightarrow> comment_object option" where
  "initial_comment F op parent reward_weight d = do {
     (if has_hardfork 1 d then do { validate_permlink_0_1 (cm_parent_permlink op); validate_permlink_0_1 (cm_permlink op) }
      else Some ());
     let i = db_next_id d comment_object_type;
     let now = head_block_time d;
     let com = new_comment_object\<lparr>cmt_id := i, cmt_author := cm_author op, cmt_permlink := cm_permlink op,
        cmt_last_update := now, cmt_created := now, cmt_active := now, cmt_last_payout := 0,
        cmt_max_cashout_time := secs_max F, cmt_reward_weight := reward_weight\<rparr>;
     let com = (case parent of
         None \<Rightarrow> com\<lparr>cmt_parent_author := [], cmt_parent_permlink := cm_parent_permlink op,
            cmt_category := cm_parent_permlink op, cmt_root_comment := i,
            cmt_cashout_time := (if has_hardfork 12 d then secs_add F now CASHOUT_WINDOW_SECONDS_PRE_HF17 else secs_max F)\<rparr>
       | Some p \<Rightarrow> com\<lparr>cmt_parent_author := cmt_author p, cmt_parent_permlink := cmt_permlink p,
            cmt_depth := (cmt_depth p + 1) mod 2 ^ 16, cmt_category := cmt_category p,
            cmt_root_comment := cmt_root_comment p, cmt_cashout_time := secs_max F\<rparr>);
     let com = (if has_hardfork 17 d then com\<lparr>cmt_cashout_time := secs_add F (cmt_created com) CASHOUT_WINDOW_SECONDS\<rparr> else com);
     let com = com\<lparr>cmt_title := cm_title op\<rparr>;
     let com = (if length (cm_body op) < 1024 * 1024 * 128 then com\<lparr>cmt_body := cm_body op\<rparr> else com);
     Some (if fc_is_utf8 F (cm_json op) then com\<lparr>cmt_json := cm_json op\<rparr> else com) }"

definition post_comment :: "fc_lib \<Rightarrow> comment_operation \<Rightarrow> account_object \<Rightarrow> comment_object option \<Rightarrow> chain_db \<Rightarrow> chain_db option" where
  "post_comment F op auth parent d = do {
     (case parent of None \<Rightarrow> Some ()
      | Some p \<Rightarrow> do {
          root \<leftarrow> get_comment_id (cmt_root_comment p) d;
          FC_ASSERT (cmt_allow_replies root);
          if has_hardfork 12 d \<and> \<not> has_hardfork 17 d then do {
            t \<leftarrow> calculate_discussion_payout_time p d;
            FC_ASSERT (t \<noteq> secs_max F) }
          else Some () });
     post_interval_ok F op auth d;
     (reward_weight, post_bandwidth) \<leftarrow> post_weight op auth d;
     d1 \<leftarrow> modify_account (cm_author op) (\<lambda>a. do {
        let a1 = (if cm_parent_author op = []
                  then a\<lparr>acc_last_root_post := head_block_time d, acc_post_bandwidth := post_bandwidth mod 2 ^ 32\<rparr> else a);
        Some (a1\<lparr>acc_last_post := head_block_time d, acc_post_count := (acc_post_count a1 + 1) mod 2 ^ 32\<rparr>) }) d;
     com \<leftarrow> initial_comment F op parent reward_weight d1;
     d2 \<leftarrow> create_comment com d1;
     case parent of None \<Rightarrow> Some d2 | Some p \<Rightarrow> touch_ancestors 1 (cmt_id p) d2 }"

definition edited_body :: "fc_lib \<Rightarrow> string \<Rightarrow> string \<Rightarrow> string" where
  "edited_body F new old =
     (case dmp_patch F new old of
        Some (Some patched) \<Rightarrow> if fc_is_utf8 F patched then patched else fc_prune_invalid_utf8 F patched
      | _ \<Rightarrow> new)"

definition edit_comment :: "fc_lib \<Rightarrow> comment_operation \<Rightarrow> comment_object option \<Rightarrow> comment_object \<Rightarrow> chain_db \<Rightarrow> chain_db option" where
  "edit_comment F op parent comment d = do {
     (if \<not> has_hardfork 17 d then
        if has_hardfork 14 d then do {
          t \<leftarrow> calculate_discussion_payout_time comment d;
          FC_ASSERT (t \<noteq> secs_max F) }
        else if has_hardfork 10 d then FC_ASSERT (cmt_last_payout comment = 0)
        else Some ()
      else Some ());
     modify_comment (cmt_id comment) (\<lambda>com. do {
       let com = com\<lparr>cmt_last_update := head_block_time d, cmt_active := head_block_time d\<rparr>;
       (case parent of
          None \<Rightarrow> do {
            FC_ASSERT (cmt_parent_author com = []);
            FC_ASSERT (strcmp_equal (cmt_parent_permlink com) (cm_parent_permlink op)) }
        | Some _ \<Rightarrow> do {
            FC_ASSERT (cmt_parent_author com = cm_parent_author op);
            FC_ASSERT (strcmp_equal (cmt_parent_permlink com) (cm_parent_permlink op)) });
       let com = (if cm_title op \<noteq> [] then com\<lparr>cmt_title := cm_title op\<rparr> else com);
       let com = (if cm_json op \<noteq> [] \<and> fc_is_utf8 F (cm_json op) then com\<lparr>cmt_json := cm_json op\<rparr> else com);
       Some (if cm_body op \<noteq> [] then com\<lparr>cmt_body := edited_body F (cm_body op) (cmt_body com)\<rparr> else com) }) d }"

definition comment_do_apply :: "fc_lib \<Rightarrow> comment_operation \<Rightarrow> chain_db \<Rightarrow> chain_db option" where
  "comment_do_apply F op d = do {
     (if has_hardfork 5 d then FC_ASSERT (length (cm_title op) + length (cm_body op) + length (cm_json op) \<noteq> 0) else Some ());
     auth \<leftarrow> get_account (cm_author op) d;
     (if has_hardfork 10 d then FC_ASSERT (\<not> (acc_owner_challenged auth \<or> acc_active_challenged auth)) else Some ());
     parent \<leftarrow> (if cm_parent_author op \<noteq> [] then do {
                  p \<leftarrow> get_comment (cm_parent_author op) (cm_parent_permlink op) d;
                  (if \<not> has_hardfork 17 d then FC_ASSERT (cmt_depth p < MAX_COMMENT_DEPTH_PRE_HF17)
                   else FC_ASSERT (cmt_depth p < MAX_COMMENT_DEPTH));
                  Some (Some p) }
                else Some None);
     (if has_hardfork 17 d \<and> cm_json op \<noteq> [] then FC_ASSERT (fc_is_utf8 F (cm_json op)) else Some ());
     case find_comment (cm_author op) (cm_permlink op) d of
       None \<Rightarrow> post_comment F op auth parent d
     | Some comment \<Rightarrow> edit_comment F op parent comment d }"

end
