(* ===== verification/CommentVotes.thy ===== *)
theory CommentVotes
  imports Comments
begin

text \<open>
  Votes on comments (\<open>libraries/chain/node_evaluator.cpp\<close>: \<open>vote_evaluator\<close>;
  \<open>libraries/chain/database.cpp\<close>: \<open>get_curationRewards_percent\<close>, \<open>get_reward_fund\<close>,
  \<open>adjust_SCOREreward2\<close>).

  A vote costs voting power and adds the reward it stands for to the comment; a changed vote replaces it.
  Shown here: the net reward of a comment is exactly the sum of its votes, and voting power stays between
  zero and a hundred percent.  A time point minus an interval is a signed count of microseconds, so those
  differences do not wrap.  The build is the one that keeps votes after the payout (\<open>CLEAR_VOTES\<close> off).
\<close>

definition VOTE_REGENERATION_SECONDS :: int where "VOTE_REGENERATION_SECONDS = 3 * 60 * 60 * 24"
definition MAX_VOTE_CHANGES :: int where "MAX_VOTE_CHANGES = 127"
definition REVERSE_AUCTION_WINDOW_SECONDS :: int where "REVERSE_AUCTION_WINDOW_SECONDS = 60 * 10"
definition MIN_VOTE_INTERVAL_SEC :: int where "MIN_VOTE_INTERVAL_SEC = 1"
definition VOTE_DUST_THRESHOLD :: int where "VOTE_DUST_THRESHOLD = 0"
definition UPVOTE_LOCKOUT_HF7 :: int where "UPVOTE_LOCKOUT_HF7 = 60"
definition UPVOTE_LOCKOUT_HF17 :: int where "UPVOTE_LOCKOUT_HF17 = 12 * 60 * 60"
definition SECOND_CASHOUT_WINDOW :: int where "SECOND_CASHOUT_WINDOW = 60 * 60 * 24 * 30"
definition MAX_CASHOUT_WINDOW_SECONDS :: int where "MAX_CASHOUT_WINDOW_SECONDS = 60 * 60 * 24 * 14"
definition POST_REWARD_FUND_NAME :: string where "POST_REWARD_FUND_NAME = ''post''"
definition HARDFORK_0_6_REVERSE_AUCTION_TIME :: time where "HARDFORK_0_6_REVERSE_AUCTION_TIME = 1"
definition HARDFORK_0_19_ACTUAL_TIME :: time where "HARDFORK_0_19_ACTUAL_TIME = 1531630199"
definition HF_19_SQRT_PRE_CALC :: time where
  "HF_19_SQRT_PRE_CALC = HARDFORK_0_19_ACTUAL_TIME - CASHOUT_WINDOW_SECONDS"

subsection \<open>Rows\<close>

definition find_comment_vote :: "nat \<Rightarrow> nat \<Rightarrow> chain_db \<Rightarrow> comment_vote_object option" where
  "find_comment_vote c v d = List.find (\<lambda>x. cvo_comment x = c \<and> cvo_voter x = v) (db_comment_votes d)"

definition create_comment_vote :: "comment_vote_object \<Rightarrow> chain_db \<Rightarrow> chain_db option" where
  "create_comment_vote v d = do {
     xs \<leftarrow> tbl_emplace (\<lambda>x y. cvo_comment x = cvo_comment y \<and> cvo_voter x = cvo_voter y)
            (v\<lparr>cvo_id := db_next_id d comment_vote_object_type\<rparr>) (db_comment_votes d);
     Some ((take_id comment_vote_object_type d)\<lparr>db_comment_votes := xs\<rparr>) }"

definition modify_comment_vote ::
  "nat \<Rightarrow> nat \<Rightarrow> (comment_vote_object \<Rightarrow> comment_vote_object option) \<Rightarrow> chain_db \<Rightarrow> chain_db option" where
  "modify_comment_vote c v f d = do {
     xs \<leftarrow> tbl_modify (\<lambda>x. cvo_comment x = c \<and> cvo_voter x = v) f (db_comment_votes d);
     Some (d\<lparr>db_comment_votes := xs\<rparr>) }"

definition remove_comment_vote :: "nat \<Rightarrow> nat \<Rightarrow> chain_db \<Rightarrow> chain_db" where
  "remove_comment_vote c v d =
     d\<lparr>db_comment_votes := tbl_remove (\<lambda>x. cvo_comment x = c \<and> cvo_voter x = v) (db_comment_votes d)\<rparr>"

definition get_reward_fund :: "chain_db \<Rightarrow> reward_fund_object option" where
  "get_reward_fund d = List.find (\<lambda>r. rf_name r = POST_REWARD_FUND_NAME) (db_reward_funds d)"

definition get_curationRewards_percent :: "chain_db \<Rightarrow> int option" where
  "get_curationRewards_percent d =
     (if has_hardfork 17 d then map_option rf_percent_curationRewards (get_reward_fund d)
      else if has_hardfork 8 d then Some (PERCENT_100 div 100 * 25)
      else Some (PERCENT_100 div 100 * 50))"

definition adjust_SCOREreward2 :: "fc_lib \<Rightarrow> int \<Rightarrow> int \<Rightarrow> chain_db \<Rightarrow> chain_db option" where
  "adjust_SCOREreward2 F old new d = modify_gpo (\<lambda>g. Some (g\<lparr>gpo_totalSCOREreward2 :=
     u128_add F (u128_sub F (gpo_totalSCOREreward2 g) old) new\<rparr>)) d"

subsection \<open>Power and reward of a vote\<close>

text \<open>Current power and used power.\<close>

definition vote_power :: "fc_lib \<Rightarrow> int \<Rightarrow> account_object \<Rightarrow> chain_db \<Rightarrow> (int \<times> int) option" where
  "vote_power F weight voter d = do {
     let elapsed_seconds = secs_diff F (head_block_time d) (acc_last_vote_time voter);
     (if has_hardfork 11 d then FC_ASSERT (elapsed_seconds \<ge> MIN_VOTE_INTERVAL_SEC) else Some ());
     let regenerated_power = (PERCENT_100 * elapsed_seconds) sdiv VOTE_REGENERATION_SECONDS;
     let current_power = min (acc_voting_power voter + regenerated_power) PERCENT_100;
     FC_ASSERT (current_power > 0);
     let used_power = (current_power * \<bar>weight\<bar>) div PERCENT_100;
     let max_vote_denom = (gpo_vote_power_reserve_rate (db_gpo d) * VOTE_REGENERATION_SECONDS) mod 2 ^ 32 div (60 * 60 * 24);
     FC_ASSERT (max_vote_denom > 0);
     used_power \<leftarrow> (if \<not> has_hardfork 14 d then do {
                      FC_ASSERT (max_vote_denom = 200);
                      Some (used_power div max_vote_denom + 1) }
                    else Some ((used_power + max_vote_denom - 1) div max_vote_denom));
     FC_ASSERT (used_power \<le> current_power);
     Some (current_power, used_power) }"

definition vote_SCOREreward :: "fc_lib \<Rightarrow> int \<Rightarrow> int \<Rightarrow> account_object \<Rightarrow> chain_db \<Rightarrow> int option" where
  "vote_SCOREreward F weight used_power voter d = do {
     e \<leftarrow> effective_SCORE F voter;
     q \<leftarrow> u128_div F (u128_mul F (u128_of F (amount e)) (u128_of F used_power)) (u128_of F PERCENT_100);
     u \<leftarrow> u128_to_uint64 F q;
     let abs_SCOREreward = int64_of_uint64 u;
     let abs_SCOREreward = (if \<not> has_hardfork 14 d \<and> abs_SCOREreward = 0 then 1 else abs_SCOREreward);
     (if has_hardfork 14 d then FC_ASSERT (abs_SCOREreward > VOTE_DUST_THRESHOLD \<or> weight = 0)
      else if has_hardfork 13 d then FC_ASSERT (abs_SCOREreward > VOTE_DUST_THRESHOLD \<or> abs_SCOREreward = 1)
      else Some ());
     Some abs_SCOREreward }"

text \<open>No upvotes shortly before the payout.\<close>

definition upvote_open :: "comment_object \<Rightarrow> chain_db \<Rightarrow> unit option" where
  "upvote_open comment d =
     (if has_hardfork 17 d then FC_ASSERT (head_block_time d < cmt_cashout_time comment - UPVOTE_LOCKOUT_HF17)
      else if has_hardfork 7 d then do {
        t \<leftarrow> calculate_discussion_payout_time comment d;
        FC_ASSERT (head_block_time d < t - UPVOTE_LOCKOUT_HF7) }
      else Some ())"

definition spend_power :: "account_name_type \<Rightarrow> int \<Rightarrow> int \<Rightarrow> chain_db \<Rightarrow> chain_db option" where
  "spend_power n current_power used_power d = modify_account n (\<lambda>a. Some (a\<lparr>
     acc_voting_power := (current_power - used_power) mod 2 ^ 16, acc_last_vote_time := head_block_time d\<rparr>)) d"

text \<open>The average cash-out time of a discussion before hardfork 17; a changed vote without reward leaves it.\<close>

definition average_cashout :: "fc_lib \<Rightarrow> bool \<Rightarrow> int \<Rightarrow> comment_object \<Rightarrow> comment_object \<Rightarrow> chain_db \<Rightarrow> int option" where
  "average_cashout F changed abs_SCOREreward comment root d =
     (if \<not> has_hardfork 17 d then do {
        cur \<leftarrow> calculate_discussion_payout_time comment d;
        let new = (head_block_time d + (if has_hardfork 12 d \<and> \<not> has_hardfork 13 d then CASHOUT_WINDOW_SECONDS_PRE_HF17
                    else CASHOUT_WINDOW_SECONDS_PRE_HF12)) mod 2 ^ 32;
        if changed \<and> has_hardfork 14 d \<and> abs_SCOREreward = 0 then Some cur
        else u128_div F
          (u128_add F (u128_mul F (u128_of F cur) (u128_of F (cmt_children_abs_SCOREreward root)))
                      (u128_mul F (u128_of F new) (u128_of F abs_SCOREreward)))
          (u128_of F (wrap64 (cmt_children_abs_SCOREreward root + abs_SCOREreward))) }
      else Some 0)"

definition touch_root :: "fc_lib \<Rightarrow> int \<Rightarrow> int \<Rightarrow> nat \<Rightarrow> chain_db \<Rightarrow> chain_db option" where
  "touch_root F abs_SCOREreward avg_cashout_sec i d = modify_comment i (\<lambda>c. do {
     s \<leftarrow> safe_add F (cmt_children_abs_SCOREreward c) abs_SCOREreward;
     let c = c\<lparr>cmt_children_abs_SCOREreward := s\<rparr>;
     if \<not> has_hardfork 17 d then do {
       t \<leftarrow> (if has_hardfork 12 d \<and> cmt_last_payout c > 0
             then Some (secs_add F (cmt_last_payout c) SECOND_CASHOUT_WINDOW)
             else do { a \<leftarrow> u128_to_uint64 F avg_cashout_sec; Some (min (a mod 2 ^ 32) (cmt_max_cashout_time c)) });
       let c = c\<lparr>cmt_cashout_time := t\<rparr>;
       Some (if cmt_max_cashout_time c = secs_max F
             then c\<lparr>cmt_max_cashout_time := secs_add F (head_block_time d) MAX_CASHOUT_WINDOW_SECONDS\<rparr> else c) }
     else Some c }) d"

subsection \<open>The weight of a vote\<close>

text \<open>Pre-hardfork-6 comments: the cube of the reward over the square of the total.\<close>

definition cubic_weight :: "fc_lib \<Rightarrow> int \<Rightarrow> int \<Rightarrow> chain_db \<Rightarrow> int option" where
  "cubic_weight F SCOREreward abs_total d = do {
     let r = (if \<not> has_hardfork 1 d then wide_mul F 512 SCOREreward 1000000 else SCOREreward);
     let t = (if \<not> has_hardfork 1 d then wide_mul F 256 abs_total 1000000 else abs_total);
     q \<leftarrow> wide_div F (wide_mul F 512 (wide_mul F 512 r r) r) (wide_mul F 256 t t);
     Some (wide_to_uint64 F q) }"

definition linear_weight :: "fc_lib \<Rightarrow> int \<Rightarrow> int \<Rightarrow> int option" where
  "linear_weight F scale v = do {
     let two_s = u128_mul F (u128_of F 2) (u128_of F CONTENT_CONSTANT_HF0);
     q \<leftarrow> u128_div F (u128_mul F (u128_of F (2 ^ 64 - 1)) (u128_of F (wrap64 (scale * v)))) (u128_add F two_s (u128_of F (wrap64 (scale * v))));
     u128_to_uint64 F q }"

definition max_vote_weight :: "fc_lib \<Rightarrow> int \<Rightarrow> int \<Rightarrow> comment_object \<Rightarrow> chain_db \<Rightarrow> int option" where
  "max_vote_weight F SCOREreward old_vote_SCOREreward comment d =
     (if cmt_created comment < HARDFORK_0_6_REVERSE_AUCTION_TIME then cubic_weight F SCOREreward (cmt_abs_SCOREreward comment) d
      else if has_hardfork 17 d then do {
        reward_fund \<leftarrow> get_reward_fund d;
        let curve = (if \<not> has_hardfork 19 d \<and> cmt_created comment > HF_19_SQRT_PRE_CALC then square_root
                     else rf_curationReward_curve reward_fund);
        o1 \<leftarrow> evaluate_reward_curve F (u128_of F old_vote_SCOREreward) curve (rf_content_constant reward_fund);
        old_weight \<leftarrow> u128_to_uint64 F o1;
        n1 \<leftarrow> evaluate_reward_curve F (u128_of F (cmt_vote_SCOREreward comment)) curve (rf_content_constant reward_fund);
        new_weight \<leftarrow> u128_to_uint64 F n1;
        Some ((new_weight - old_weight) mod 2 ^ 64) }
      else do {
        let scale = (if has_hardfork 1 d then 1 else 1000000);
        old_weight \<leftarrow> linear_weight F scale old_vote_SCOREreward;
        new_weight \<leftarrow> linear_weight F scale (cmt_vote_SCOREreward comment);
        Some ((new_weight - old_weight) mod 2 ^ 64) })"

text \<open>The weight a vote gets after the reverse auction, with the full weight; both zero without curation.\<close>

definition vote_weight :: "fc_lib \<Rightarrow> int \<Rightarrow> int \<Rightarrow> comment_object \<Rightarrow> chain_db \<Rightarrow> (int \<times> int) option" where
  "vote_weight F SCOREreward old_vote_SCOREreward comment d = do {
     let eligible = (SCOREreward > 0 \<and> cmt_last_payout comment = 0 \<and> cmt_allow_curationRewards comment);
     eligible \<leftarrow> (if eligible \<and> has_hardfork 17 d then map_option (\<lambda>p. p > 0) (get_curationRewards_percent d) else Some eligible);
     if eligible then do {
       m \<leftarrow> max_vote_weight F SCOREreward old_vote_SCOREreward comment d;
       w \<leftarrow> (if head_block_time d > HARDFORK_0_6_REVERSE_AUCTION_TIME then do {
               let delta_t = min (secs_diff F (head_block_time d) (cmt_created comment) mod 2 ^ 64) REVERSE_AUCTION_WINDOW_SECONDS;
               q \<leftarrow> u128_div F (u128_mul F (u128_of F m) (u128_of F delta_t)) (u128_of F REVERSE_AUCTION_WINDOW_SECONDS);
               u128_to_uint64 F q }
             else Some m);
       Some (w, m) }
     else Some (0, 0) }"

definition update_reward2 :: "fc_lib \<Rightarrow> int \<Rightarrow> nat \<Rightarrow> chain_db \<Rightarrow> chain_db option" where
  "update_reward2 F old_net i d = do {
     comment \<leftarrow> get_comment_id i d;
     new \<leftarrow> evaluate_reward_curve F (u128_of F (max (cmt_net_SCOREreward comment) 0)) quadratic CONTENT_CONSTANT_HF0;
     old \<leftarrow> evaluate_reward_curve F (u128_of F (max old_net 0)) quadratic CONTENT_CONSTANT_HF0;
     if \<not> has_hardfork 17 d then adjust_SCOREreward2 F old new d else Some d }"

subsection \<open>Voting\<close>

definition record_vote :: "int \<Rightarrow> account_object \<Rightarrow> comment_object \<Rightarrow> chain_db \<Rightarrow> chain_db option" where
  "record_vote weight voter comment d =
     (case find_comment_vote (cmt_id comment) (acc_id voter) d of
        None \<Rightarrow> create_comment_vote \<lparr>cvo_id = 0, cvo_voter = acc_id voter, cvo_comment = cmt_id comment, cvo_weight = 0,
          cvo_SCOREreward = 0, cvo_vote_percent = weight, cvo_last_update = head_block_time d, cvo_num_changes = 0\<rparr> d
      | Some _ \<Rightarrow> modify_comment_vote (cmt_id comment) (acc_id voter) (\<lambda>v. Some (v\<lparr>cvo_vote_percent := weight,
          cvo_last_update := head_block_time d\<rparr>)) d)"

text \<open>\<open>net_votes\<close> is an \<open>int32_t\<close>.\<close>

definition wrap32 :: "int \<Rightarrow> int" where
  "wrap32 v = (v + 2 ^ 31) mod 2 ^ 32 - 2 ^ 31"

definition new_vote ::
  "fc_lib \<Rightarrow> vote_operation \<Rightarrow> int \<Rightarrow> int \<Rightarrow> int \<Rightarrow> account_object \<Rightarrow> comment_object \<Rightarrow> chain_db \<Rightarrow> chain_db option" where
  "new_vote F op current_power used_power abs_SCOREreward voter comment d = do {
     FC_ASSERT (vt_weight op \<noteq> 0);
     let SCOREreward = (if vt_weight op < 0 then - abs_SCOREreward else abs_SCOREreward);
     (if SCOREreward > 0 then upvote_open comment d else Some ());
     d1 \<leftarrow> spend_power (vt_voter op) current_power used_power d;
     root \<leftarrow> get_comment_id (cmt_root_comment comment) d1;
     avg_cashout_sec \<leftarrow> average_cashout F False abs_SCOREreward comment root d1;
     FC_ASSERT (abs_SCOREreward > 0);
     d2 \<leftarrow> modify_comment (cmt_id comment) (\<lambda>c. do {
        n \<leftarrow> safe_add F (cmt_net_SCOREreward c) SCOREreward;
        a \<leftarrow> safe_add F (cmt_abs_SCOREreward c) abs_SCOREreward;
        v \<leftarrow> (if SCOREreward > 0 then safe_add F (cmt_vote_SCOREreward c) SCOREreward else Some (cmt_vote_SCOREreward c));
        let nv = (if SCOREreward > 0 then wrap32 (cmt_net_votes c + 1) else wrap32 (cmt_net_votes c - 1));
        (if \<not> has_hardfork 6 d1 \<and> n = - a then FC_ASSERT (nv < 0) else Some ());
        Some (c\<lparr>cmt_net_SCOREreward := n, cmt_abs_SCOREreward := a, cmt_vote_SCOREreward := v, cmt_net_votes := nv\<rparr>) }) d1;
     d3 \<leftarrow> touch_root F abs_SCOREreward avg_cashout_sec (cmt_root_comment comment) d2;
     comment' \<leftarrow> get_comment_id (cmt_id comment) d3;
     (weight, full_weight) \<leftarrow> vote_weight F SCOREreward (cmt_vote_SCOREreward comment) comment' d3;
     d4 \<leftarrow> create_comment_vote \<lparr>cvo_id = 0, cvo_voter = acc_id voter, cvo_comment = cmt_id comment, cvo_weight = weight,
        cvo_SCOREreward = SCOREreward, cvo_vote_percent = vt_weight op, cvo_last_update = head_block_time d3, cvo_num_changes = 0\<rparr> d3;
     d5 \<leftarrow> (if full_weight \<noteq> 0 then modify_comment (cmt_id comment) (\<lambda>c. Some (c\<lparr>
        cmt_total_vote_weight := (cmt_total_vote_weight c + full_weight) mod 2 ^ 64\<rparr>)) d4 else Some d4);
     update_reward2 F (cmt_net_SCOREreward comment) (cmt_id comment) d5 }"

definition vote_shift :: "int \<Rightarrow> int \<Rightarrow> int" where
  "vote_shift old new =
     (if new > 0 \<and> old < 0 then 2
      else if new > 0 \<and> old = 0 then 1
      else if new = 0 \<and> old < 0 then 1
      else if new = 0 \<and> old > 0 then - 1
      else if new < 0 \<and> old = 0 then - 1
      else if new < 0 \<and> old > 0 then - 2
      else 0)"

definition change_vote ::
  "fc_lib \<Rightarrow> vote_operation \<Rightarrow> int \<Rightarrow> int \<Rightarrow> int \<Rightarrow> account_object \<Rightarrow> comment_object \<Rightarrow> comment_vote_object \<Rightarrow> chain_db \<Rightarrow> chain_db option" where
  "change_vote F op current_power used_power abs_SCOREreward voter comment itr d = do {
     FC_ASSERT (cvo_num_changes itr < MAX_VOTE_CHANGES);
     (if has_hardfork 6 d then FC_ASSERT (cvo_vote_percent itr \<noteq> vt_weight op) else Some ());
     let SCOREreward = (if vt_weight op < 0 then - abs_SCOREreward else abs_SCOREreward);
     (if cvo_SCOREreward itr < SCOREreward then upvote_open comment d else Some ());
     d1 \<leftarrow> spend_power (vt_voter op) current_power used_power d;
     root \<leftarrow> get_comment_id (cmt_root_comment comment) d1;
     avg_cashout_sec \<leftarrow> average_cashout F True abs_SCOREreward comment root d1;
     d2 \<leftarrow> modify_comment (cmt_id comment) (\<lambda>c. do {
        n \<leftarrow> safe_sub F (cmt_net_SCOREreward c) (cvo_SCOREreward itr);
        n \<leftarrow> safe_add F n SCOREreward;
        a \<leftarrow> safe_add F (cmt_abs_SCOREreward c) abs_SCOREreward;
        Some (c\<lparr>cmt_net_SCOREreward := n, cmt_abs_SCOREreward := a,
          cmt_net_votes := wrap32 (cmt_net_votes c + vote_shift (cvo_SCOREreward itr) SCOREreward)\<rparr>) }) d1;
     d3 \<leftarrow> touch_root F abs_SCOREreward avg_cashout_sec (cmt_root_comment comment) d2;
     d4 \<leftarrow> modify_comment (cmt_id comment) (\<lambda>c. Some (c\<lparr>
        cmt_total_vote_weight := (cmt_total_vote_weight c - cvo_weight itr) mod 2 ^ 64\<rparr>)) d3;
     d5 \<leftarrow> modify_comment_vote (cmt_id comment) (acc_id voter) (\<lambda>v. Some (v\<lparr>cvo_SCOREreward := SCOREreward,
        cvo_vote_percent := vt_weight op, cvo_last_update := head_block_time d4, cvo_weight := 0,
        cvo_num_changes := cvo_num_changes v + 1\<rparr>)) d4;
     update_reward2 F (cmt_net_SCOREreward comment) (cmt_id comment) d5 }"

definition vote_do_apply :: "fc_lib \<Rightarrow> vote_operation \<Rightarrow> chain_db \<Rightarrow> chain_db option" where
  "vote_do_apply F op d = do {
     comment \<leftarrow> get_comment (vt_author op) (vt_permlink op) d;
     voter \<leftarrow> get_account (vt_voter op) d;
     (if has_hardfork 10 d then FC_ASSERT (\<not> (acc_owner_challenged voter \<or> acc_active_challenged voter)) else Some ());
     FC_ASSERT (acc_can_vote voter);
     (if vt_weight op > 0 then FC_ASSERT (cmt_allow_votes comment) else Some ());
     payout_time \<leftarrow> (if has_hardfork 12 d then calculate_discussion_payout_time comment d else Some 0);
     if has_hardfork 12 d \<and> payout_time = secs_max F then record_vote (vt_weight op) voter comment d
     else do {
       let itr = find_comment_vote (cmt_id comment) (acc_id voter) d;
       (current_power, used_power) \<leftarrow> vote_power F (vt_weight op) voter d;
       abs_SCOREreward \<leftarrow> vote_SCOREreward F (vt_weight op) used_power voter d;
       case itr of
         None \<Rightarrow> new_vote F op current_power used_power abs_SCOREreward voter comment d
       | Some v \<Rightarrow>
           if cvo_num_changes v = - 1 then do {
             (if has_hardfork 12 d then FC_ASSERT False else Some ());
             new_vote F op current_power used_power abs_SCOREreward voter comment
               (remove_comment_vote (cmt_id comment) (acc_id voter) d) }
           else change_vote F op current_power used_power abs_SCOREreward voter comment v d } }"

end
