(* ===== verification/Discussions.thy ===== *)
theory Discussions
  imports CommentVotes Example
begin

text \<open>
  Discussions are forests.  A reply names its parent by author and permlink; the relation \<open>replies\<close>
  makes this a relation between ids.  Shown here, for every sequence of posts, edits, deletions, options
  and votes:

  \<^item> every reply has its parent, one level above it and in the same discussion, and every id and every
    pair of author and permlink is used once;
  \<^item> every comment counts its descendants exactly;
  \<^item> the walk from a comment to its root ends within as many rounds as there are comments.
\<close>

section \<open>The forest\<close>

definition comment_key :: "comment_object \<Rightarrow> account_name_type \<times> string" where
  "comment_key c = (cmt_author c, c_str (cmt_permlink c))"

definition parent_key :: "comment_object \<Rightarrow> account_name_type \<times> string" where
  "parent_key c = (cmt_parent_author c, c_str (cmt_parent_permlink c))"

definition parent_in :: "comment_object list \<Rightarrow> comment_object \<Rightarrow> comment_object \<Rightarrow> bool" where
  "parent_in xs c p \<longleftrightarrow> p \<in> set xs \<and> cmt_parent_author c \<noteq> [] \<and> comment_key p = parent_key c"

definition replies :: "comment_object list \<Rightarrow> (nat \<times> nat) set" where
  "replies xs = {(cmt_id c, cmt_id p) | c p. c \<in> set xs \<and> parent_in xs c p}"

definition descendants :: "comment_object list \<Rightarrow> nat \<Rightarrow> nat set" where
  "descendants xs i = {j. (j, i) \<in> (replies xs)\<^sup>+}"

definition linked :: "comment_object list \<Rightarrow> comment_object \<Rightarrow> bool" where
  "linked xs c \<longleftrightarrow> 0 \<le> cmt_depth c \<and>
     (if cmt_parent_author c = [] then cmt_depth c = 0 \<and> cmt_root_comment c = cmt_id c
      else \<exists>p. parent_in xs c p \<and> cmt_depth c = cmt_depth p + 1 \<and> cmt_root_comment c = cmt_root_comment p)"

definition comment_forest :: "comment_object list \<Rightarrow> bool" where
  "comment_forest xs \<longleftrightarrow> distinct (map cmt_id xs) \<and> distinct (map comment_key xs) \<and> (\<forall>c \<in> set xs. linked xs c)"

definition children_exact :: "comment_object list \<Rightarrow> bool" where
  "children_exact xs \<longleftrightarrow> (\<forall>c \<in> set xs. cmt_children c = int (card (descendants xs (cmt_id c))))"

definition discussions_ok :: "chain_db \<Rightarrow> bool" where
  "discussions_ok d \<longleftrightarrow> comment_forest (db_comments d) \<and> children_exact (db_comments d)
     \<and> (\<forall>c \<in> set (db_comments d). cmt_id c < db_next_id d comment_object_type)"

text \<open>The fields the forest depends on.\<close>

definition shape :: "comment_object \<Rightarrow> nat \<times> (account_name_type \<times> string) \<times> (account_name_type \<times> string) \<times> int \<times> nat" where
  "shape c = (cmt_id c, comment_key c, parent_key c, cmt_depth c, cmt_root_comment c)"

lemma shape_eqD:
  assumes "shape c = shape c'"
  shows "cmt_id c = cmt_id c'" "comment_key c = comment_key c'" "parent_key c = parent_key c'"
    "cmt_depth c = cmt_depth c'" "cmt_root_comment c = cmt_root_comment c'" "cmt_parent_author c = cmt_parent_author c'"
  using assms by (auto simp: shape_def parent_key_def)

lemma shape_ex: "map shape xs = map shape ys \<Longrightarrow> x \<in> set xs \<Longrightarrow> \<exists>y \<in> set ys. shape x = shape y"
  by (metis image_iff list.set_map)

lemma replies_shape_sub:
  assumes "map shape xs = map shape ys"
  shows "replies xs \<subseteq> replies ys"
proof
  fix r assume "r \<in> replies xs"
  then obtain c p where r: "r = (cmt_id c, cmt_id p)" "c \<in> set xs" "parent_in xs c p" by (auto simp: replies_def)
  obtain c' where c': "c' \<in> set ys" "shape c = shape c'" using shape_ex[OF assms r(2)] by auto
  obtain p' where p': "p' \<in> set ys" "shape p = shape p'" using shape_ex[OF assms, of p] r(3) by (auto simp: parent_in_def)
  have "parent_in ys c' p'" using r(3) p' shape_eqD[OF c'(2)] shape_eqD[OF p'(2)] by (simp add: parent_in_def)
  with c' p' r(1) show "r \<in> replies ys" by (auto simp: replies_def shape_eqD[OF c'(2)] shape_eqD[OF p'(2)])
qed

lemma replies_shape: "map shape xs = map shape ys \<Longrightarrow> replies xs = replies ys"
  using replies_shape_sub[of xs ys] replies_shape_sub[of ys xs] by simp

lemma linked_shape:
  assumes "map shape xs = map shape ys" "shape c = shape c'" "linked xs c"
  shows "linked ys c'"
proof (cases "cmt_parent_author c = []")
  case True
  then show ?thesis using assms(3) shape_eqD[OF assms(2)] by (simp add: linked_def)
next
  case False
  then obtain p where p: "parent_in xs c p" "cmt_depth c = cmt_depth p + 1" "cmt_root_comment c = cmt_root_comment p"
    using assms(3) by (auto simp: linked_def)
  obtain p' where p': "p' \<in> set ys" "shape p = shape p'" using shape_ex[OF assms(1), of p] p(1) by (auto simp: parent_in_def)
  have "parent_in ys c' p'" using p(1) p' shape_eqD[OF assms(2)] shape_eqD[OF p'(2)] by (simp add: parent_in_def)
  then show ?thesis
    using False assms(3) p shape_eqD[OF assms(2)] shape_eqD[OF p'(2)] by (auto simp: linked_def)
qed

lemma comment_forest_shape:
  assumes "map shape xs = map shape ys" "comment_forest xs"
  shows "comment_forest ys"
proof -
  have "map cmt_id ys = map fst (map shape ys)" "map comment_key ys = map (fst \<circ> snd) (map shape ys)" for ys
    by (simp_all add: shape_def)
  then have "map cmt_id xs = map cmt_id ys" "map comment_key xs = map comment_key ys" using assms(1) by metis+
  moreover have "linked ys c" if "c \<in> set ys" for c
    using shape_ex[OF assms(1)[symmetric] that] linked_shape[OF assms(1)] assms(2) by (metis comment_forest_def)
  ultimately show ?thesis using assms(2) by (simp add: comment_forest_def)
qed

section \<open>Reading the forest\<close>

lemma forest_id_unique:
  "comment_forest xs \<Longrightarrow> c \<in> set xs \<Longrightarrow> c' \<in> set xs \<Longrightarrow> cmt_id c = cmt_id c' \<Longrightarrow> c = c'"
  by (auto simp: comment_forest_def distinct_map dest: inj_onD)

lemma forest_key_unique:
  "comment_forest xs \<Longrightarrow> c \<in> set xs \<Longrightarrow> c' \<in> set xs \<Longrightarrow> comment_key c = comment_key c' \<Longrightarrow> c = c'"
  by (auto simp: comment_forest_def distinct_map dest: inj_onD)

lemma forest_find_id:
  "comment_forest xs \<Longrightarrow> c \<in> set xs \<Longrightarrow> List.find (\<lambda>x. cmt_id x = cmt_id c) xs = Some c"
  by (rule find_unique) (simp_all add: comment_forest_def)

lemma parent_in_unique: "comment_forest xs \<Longrightarrow> parent_in xs c p \<Longrightarrow> parent_in xs c q \<Longrightarrow> p = q"
  by (rule forest_key_unique[of xs]) (auto simp: parent_in_def)

lemma forest_parent:
  assumes "comment_forest xs" "c \<in> set xs" "parent_in xs c p"
  shows "cmt_depth c = cmt_depth p + 1" "cmt_root_comment c = cmt_root_comment p" "0 \<le> cmt_depth p" "p \<in> set xs"
proof -
  have "linked xs c" "cmt_parent_author c \<noteq> []" using assms by (simp_all add: comment_forest_def parent_in_def)
  then obtain q where q: "parent_in xs c q" "cmt_depth c = cmt_depth q + 1" "cmt_root_comment c = cmt_root_comment q"
    by (auto simp: linked_def)
  then have "q = p" using parent_in_unique assms(1,3) by blast
  with q show "cmt_depth c = cmt_depth p + 1" "cmt_root_comment c = cmt_root_comment p" by auto
  show "p \<in> set xs" using assms(3) by (simp add: parent_in_def)
  with assms(1) show "0 \<le> cmt_depth p" by (simp add: comment_forest_def linked_def)
qed

lemma forest_has_parent:
  assumes "comment_forest xs" "c \<in> set xs" "cmt_parent_author c \<noteq> []"
  obtains p where "parent_in xs c p"
proof -
  have "linked xs c" using assms(1,2) by (simp add: comment_forest_def)
  then show thesis using that assms(3) by (auto simp: linked_def)
qed

lemma replies_iff:
  assumes "comment_forest xs" "c \<in> set xs"
  shows "(cmt_id c, j) \<in> replies xs \<longleftrightarrow> (\<exists>p. parent_in xs c p \<and> j = cmt_id p)"
  using assms by (auto simp: replies_def dest: forest_id_unique)

lemma replies_ids: "(i, j) \<in> replies xs \<Longrightarrow> i \<in> cmt_id ` set xs \<and> j \<in> cmt_id ` set xs"
  by (auto simp: replies_def parent_in_def)

lemma descendants_sub: "descendants xs i \<subseteq> cmt_id ` set xs"
  by (auto simp: descendants_def dest!: tranclD replies_ids)

lemma finite_descendants: "finite (descendants xs i)"
  by (rule finite_subset[OF descendants_sub]) simp

text \<open>Upwards the depth falls.\<close>

lemma replies_depth:
  assumes f: "comment_forest xs" and "(i, j) \<in> (replies xs)\<^sup>+"
  shows "\<exists>c p. c \<in> set xs \<and> p \<in> set xs \<and> i = cmt_id c \<and> j = cmt_id p \<and> cmt_depth p < cmt_depth c"
  using assms(2)
proof (induction rule: trancl_induct)
  case (base j)
  then show ?case using forest_parent[OF f] by (auto simp: replies_def) (metis less_add_one)
next
  case (step j k)
  then obtain c p where c: "c \<in> set xs" "p \<in> set xs" "i = cmt_id c" "j = cmt_id p" "cmt_depth p < cmt_depth c" by blast
  from step(2) c(2,4) obtain q where q: "parent_in xs p q" "k = cmt_id q" using replies_iff[OF f c(2)] by auto
  have "cmt_depth q < cmt_depth c" "q \<in> set xs" using forest_parent[OF f c(2) q(1)] c(5) by auto
  then show ?case using c(1,3) q(2) by blast
qed

lemma replies_acyclic: "comment_forest xs \<Longrightarrow> (i, i) \<notin> (replies xs)\<^sup>+"
  using replies_depth forest_id_unique by (metis less_irrefl)

text \<open>Every level above a comment is inhabited, so that the depth is below the number of comments.\<close>

lemma levels_inhabited:
  assumes f: "comment_forest xs"
  shows "c \<in> set xs \<Longrightarrow> nat (cmt_depth c) = n \<Longrightarrow> k \<le> n \<Longrightarrow> \<exists>x \<in> set xs. cmt_depth x = int k"
proof (induction n arbitrary: c)
  case 0
  then have "linked xs c" using f by (simp add: comment_forest_def)
  then show ?case using 0 by (intro bexI[of _ c]) (auto simp: linked_def)
next
  case (Suc n)
  then have l: "linked xs c" using f by (simp add: comment_forest_def)
  show ?case
  proof (cases "k = Suc n")
    case True
    then show ?thesis using Suc.prems l by (intro bexI[of _ c]) (auto simp: linked_def)
  next
    case False
    obtain p where p: "parent_in xs c p" "cmt_depth c = cmt_depth p + 1"
      using l Suc.prems(2) by (auto simp: linked_def split: if_splits)
    then show ?thesis using Suc.IH[of p] Suc.prems False forest_parent[OF f Suc.prems(1) p(1)] by simp
  qed
qed

lemma depth_below_length:
  assumes "comment_forest xs" "c \<in> set xs"
  shows "nat (cmt_depth c) < length xs"
proof -
  have "int ` {0..nat (cmt_depth c)} \<subseteq> cmt_depth ` set xs"
    using levels_inhabited[OF assms refl] by (force simp: image_iff)
  then have "card (int ` {0..nat (cmt_depth c)}) \<le> length xs"
    by (meson card_length card_mono card_image_le finite_imageI finite_set le_trans)
  then show ?thesis by (simp add: card_image)
qed

section \<open>Walking to the root\<close>

lemma tbl_modify_unique:
  "distinct (map k xs) \<Longrightarrow> x \<in> set xs \<Longrightarrow>
   tbl_modify (\<lambda>y. k y = k x) (\<lambda>y. Some (g y)) xs = Some (map (\<lambda>y. if k y = k x then g y else y) xs)"
proof (induction xs)
  case (Cons a xs)
  show ?case
  proof (cases "k a = k x")
    case True
    then have "k y \<noteq> k x" if "y \<in> set xs" for y using Cons.prems(1) that by (metis distinct.simps(2) image_eqI list.set_map list.simps(9))
    then have "map (\<lambda>y. if k y = k x then g y else y) xs = xs" by (simp add: map_idI)
    then show ?thesis using True by simp
  next
    case False
    then show ?thesis using Cons by auto
  qed
qed simp

definition touched :: "int \<Rightarrow> time \<Rightarrow> comment_object \<Rightarrow> comment_object" where
  "touched step now c = c\<lparr>cmt_children := (cmt_children c + step) mod 2 ^ 32, cmt_active := now\<rparr>"

definition upwards :: "comment_object list \<Rightarrow> nat \<Rightarrow> nat set" where
  "upwards xs i = (replies xs)\<^sup>* `` {i}"

definition touch_where :: "int \<Rightarrow> time \<Rightarrow> nat set \<Rightarrow> comment_object list \<Rightarrow> comment_object list" where
  "touch_where step now I xs = map (\<lambda>c. if cmt_id c \<in> I then touched step now c else c) xs"

lemma touched_simps [simp]:
  "cmt_id (touched step now c) = cmt_id c" "shape (touched step now c) = shape c"
  "cmt_parent_author (touched step now c) = cmt_parent_author c" "cmt_depth (touched step now c) = cmt_depth c"
  "cmt_parent_permlink (touched step now c) = cmt_parent_permlink c"
  by (simp_all add: touched_def shape_def comment_key_def parent_key_def)

lemma shape_touch_where [simp]: "map shape (touch_where step now I xs) = map shape xs"
  by (simp add: touch_where_def)

lemma touch_where_ids: "y \<in> set (touch_where step now I xs) \<Longrightarrow> \<exists>c \<in> set xs. cmt_id y = cmt_id c"
  by (auto simp: touch_where_def)

lemma touch_whereE:
  assumes "y \<in> set (touch_where step now I xs)"
  obtains c where "c \<in> set xs" "y = (if cmt_id c \<in> I then touched step now c else c)"
  using assms by (force simp: touch_where_def)

lemma modify_touched:
  assumes "comment_forest (db_comments d)" "p \<in> set (db_comments d)"
  shows "modify_comment (cmt_id p) (\<lambda>c. Some (c\<lparr>cmt_children := (cmt_children c + step) mod 4294967296, cmt_active := now\<rparr>)) d
    = Some (d\<lparr>db_comments := touch_where step now {cmt_id p} (db_comments d)\<rparr>)"
  using tbl_modify_unique[of cmt_id "db_comments d" p "touched step now"] assms
  by (simp add: modify_comment_def touch_where_def touched_def comment_forest_def)

lemma upwards_root:
  assumes "comment_forest xs" "p \<in> set xs" "cmt_parent_author p = []"
  shows "upwards xs (cmt_id p) = {cmt_id p}"
  using replies_iff[OF assms(1,2)] assms(3)
  by (auto simp: upwards_def parent_in_def elim: converse_rtranclE)

lemma upwards_reply:
  assumes "comment_forest xs" "p \<in> set xs" "parent_in xs p q"
  shows "upwards xs (cmt_id p) = insert (cmt_id p) (upwards xs (cmt_id q))"
proof -
  have "(cmt_id p, j) \<in> replies xs \<longleftrightarrow> j = cmt_id q" for j
    using replies_iff[OF assms(1,2)] parent_in_unique[OF assms(1,3)] assms(3) by blast
  then show ?thesis
    by (auto simp: upwards_def elim: converse_rtranclE intro: converse_rtrancl_into_rtrancl)
qed

lemma upwards_acyclic:
  assumes "comment_forest xs" "p \<in> set xs" "parent_in xs p q"
  shows "cmt_id p \<notin> upwards xs (cmt_id q)"
proof
  assume "cmt_id p \<in> upwards xs (cmt_id q)"
  moreover have "(cmt_id p, cmt_id q) \<in> replies xs" using replies_iff[OF assms(1,2)] assms(3) by blast
  ultimately have "(cmt_id p, cmt_id p) \<in> (replies xs)\<^sup>+"
    by (simp add: upwards_def rtrancl_into_trancl2)
  then show False using replies_acyclic[OF assms(1)] by blast
qed

lemma find_parent:
  assumes "comment_forest (db_comments d)" "parent_in (db_comments d) p q"
  shows "get_comment (cmt_parent_author p) (cmt_parent_permlink p) d = Some q"
proof -
  have "comment_key q = (cmt_parent_author p, c_str (cmt_parent_permlink p))" "q \<in> set (db_comments d)"
    using assms(2) by (auto simp: parent_in_def parent_key_def)
  then show ?thesis
    using find_unique[of comment_key "db_comments d" q] assms(1)
    by (simp add: comment_forest_def get_comment_def find_comment_def comment_key_def)
qed

lemma get_touched:
  assumes "comment_forest (db_comments d)" "p \<in> set (db_comments d)"
  shows "get_comment_id (cmt_id p) (d\<lparr>db_comments := touch_where step now {cmt_id p} (db_comments d)\<rparr>) = Some (touched step now p)"
  using forest_find_id[OF comment_forest_shape[OF shape_touch_where[symmetric] assms(1)], of "touched step now p" step now "{cmt_id p}"] assms(2)
  by (force simp: get_comment_id_def touch_where_def)

lemma touch_where_twice:
  "i \<notin> I \<Longrightarrow> touch_where step now I (touch_where step now {i} xs) = touch_where step now (insert i I) xs"
  by (auto simp: touch_where_def)

theorem ancestors_loop_walk:
  "comment_forest (db_comments d) \<Longrightarrow> p \<in> set (db_comments d) \<Longrightarrow> nat (cmt_depth p) < n \<Longrightarrow>
   ancestors_loop n step (cmt_id p) d
     = Some (d\<lparr>db_comments := touch_where step (head_block_time d) (upwards (db_comments d) (cmt_id p)) (db_comments d)\<rparr>)"
proof (induction n arbitrary: d p)
  case (Suc n)
  let ?xs = "db_comments d"
  let ?d1 = "d\<lparr>db_comments := touch_where step (head_block_time d) {cmt_id p} ?xs\<rparr>"
  note f = Suc.prems(1) and mem = Suc.prems(2)
  note step = modify_touched[OF f mem, where step = step and now = "head_block_time d"] get_touched[OF f mem, where step = step and now = "head_block_time d"]
  have f1: "comment_forest (db_comments ?d1)" using comment_forest_shape[OF _ f] by simp
  show ?case
  proof (cases "cmt_parent_author p = []")
    case True
    then show ?thesis by (simp add: step upwards_root[OF f mem])
  next
    case False
    then obtain q where q: "parent_in ?xs p q" using forest_has_parent[OF f mem] by blast
    note par = forest_parent[OF f mem q]
    have "q \<noteq> p" using par(1) by auto
    then have ne: "cmt_id q \<noteq> cmt_id p" using forest_id_unique[OF f par(4) mem] by blast
    then have mem1: "q \<in> set (db_comments ?d1)" using par(4) by (force simp: touch_where_def)
    have "parent_in (db_comments ?d1) p q" using q mem1 by (simp add: parent_in_def)
    then have get: "get_comment (cmt_parent_author p) (cmt_parent_permlink p) ?d1 = Some q" by (rule find_parent[OF f1])
    have "head_block_time ?d1 = head_block_time d" by (simp add: head_block_time_def)
    moreover have "nat (cmt_depth q) < n" using Suc.prems(3) par by simp
    ultimately have "ancestors_loop n step (cmt_id q) ?d1 = Some (?d1\<lparr>db_comments :=
        touch_where step (head_block_time d) (upwards ?xs (cmt_id q)) (db_comments ?d1)\<rparr>)"
      using Suc.IH[OF f1 mem1] replies_shape[OF shape_touch_where] by (simp add: upwards_def)
    then show ?thesis
      using False get by (simp add: step upwards_reply[OF f mem q] touch_where_twice[OF upwards_acyclic[OF f mem q]])
  qed
qed simp

lemma touch_ancestors_walk:
  assumes "comment_forest (db_comments d)" "p \<in> set (db_comments d)"
  shows "touch_ancestors step (cmt_id p) d
     = Some (d\<lparr>db_comments := touch_where step (head_block_time d) (upwards (db_comments d) (cmt_id p)) (db_comments d)\<rparr>)"
  using ancestors_loop_walk[OF assms depth_below_length[OF assms]] by (simp add: touch_ancestors_def)

section \<open>A new leaf and a removed leaf\<close>

definition fresh_leaf :: "comment_object list \<Rightarrow> comment_object \<Rightarrow> bool" where
  "fresh_leaf xs n \<longleftrightarrow> cmt_id n \<notin> cmt_id ` set xs \<and> comment_key n \<notin> comment_key ` set xs \<and> linked xs n"

lemma linked_mono: "linked xs c \<Longrightarrow> set xs \<subseteq> set ys \<Longrightarrow> linked ys c"
  by (auto simp: linked_def parent_in_def split: if_splits)

lemma forest_append: "comment_forest xs \<Longrightarrow> fresh_leaf xs n \<Longrightarrow> comment_forest (xs @ [n])"
  using linked_mono[of xs _ "xs @ [n]"] by (auto simp: comment_forest_def fresh_leaf_def)

lemma leaf_no_parent:
  assumes "comment_forest xs" "fresh_leaf xs n" "c \<in> set xs \<or> c = n"
  shows "\<not> parent_in (xs @ [n]) c n"
proof
  assume p: "parent_in (xs @ [n]) c n"
  have "linked xs c" using assms by (auto simp: comment_forest_def fresh_leaf_def)
  then obtain q where "parent_in xs c q" using p by (auto simp: linked_def parent_in_def)
  then show False using p assms(2) by (auto simp: parent_in_def fresh_leaf_def) (metis imageI)
qed

lemma replies_append:
  assumes "comment_forest xs" "fresh_leaf xs n"
  shows "replies (xs @ [n]) = replies xs \<union> {(cmt_id n, cmt_id p) | p. parent_in xs n p}"
  using leaf_no_parent[OF assms] by (auto simp: replies_def parent_in_def)

lemma leaf_not_in_replies: "fresh_leaf xs n \<Longrightarrow> (i, cmt_id n) \<notin> replies xs \<and> (cmt_id n, i) \<notin> replies xs"
  using replies_ids by (auto simp: fresh_leaf_def)

lemma descendants_append:
  assumes "comment_forest xs" "fresh_leaf xs n"
  shows "descendants (xs @ [n]) i =
    descendants xs i \<union> {j. j = cmt_id n \<and> (\<exists>p. parent_in xs n p \<and> i \<in> upwards xs (cmt_id p))}"
proof (cases "\<exists>p. parent_in xs n p")
  case True
  then obtain p where p: "parent_in xs n p" by blast
  then have uni: "parent_in xs n q \<longleftrightarrow> q = p" for q using parent_in_unique[OF assms(1)] by blast
  have R: "replies (xs @ [n]) = insert (cmt_id n, cmt_id p) (replies xs)" by (auto simp: replies_append[OF assms] uni)
  have "(a, cmt_id n) \<in> (replies xs)\<^sup>* \<longleftrightarrow> a = cmt_id n" for a
    using leaf_not_in_replies[OF assms(2)] by (auto elim: rtranclE)
  then have "(replies (xs @ [n]))\<^sup>+ = (replies xs)\<^sup>+ \<union> {(a, b). a = cmt_id n \<and> (cmt_id p, b) \<in> (replies xs)\<^sup>*}"
    unfolding R trancl_insert by auto
  then show ?thesis by (auto simp: descendants_def uni upwards_def)
next
  case False
  then show ?thesis by (simp add: replies_append[OF assms] descendants_def)
qed

lemma leaf_not_upwards:
  assumes "fresh_leaf xs n" "p \<in> set xs"
  shows "cmt_id n \<notin> upwards xs (cmt_id p)"
proof
  assume "cmt_id n \<in> upwards xs (cmt_id p)"
  then have "(cmt_id p, cmt_id n) \<in> (replies xs)\<^sup>*" by (simp add: upwards_def)
  then show False
    using leaf_not_in_replies[OF assms(1)] assms imageI[OF assms(2), of cmt_id] by cases (auto simp: fresh_leaf_def)
qed

lemma upwards_append:
  assumes "comment_forest xs" "fresh_leaf xs n" "p \<in> set xs"
  shows "upwards (xs @ [n]) (cmt_id p) = upwards xs (cmt_id p)"
proof -
  have "(cmt_id p, j) \<in> (replies xs)\<^sup>*" if "(cmt_id p, j) \<in> (replies (xs @ [n]))\<^sup>*" for j
    using that
  proof (induction rule: rtrancl_induct)
    case (step y z)
    have "y \<noteq> cmt_id n"
      using step(3) leaf_not_upwards[OF assms(2,3)] by (auto simp: upwards_def)
    then have "(y, z) \<in> replies xs" using step(2) by (simp add: replies_append[OF assms(1,2)])
    then show ?case using step(3) by simp
  qed simp
  moreover have "(replies xs)\<^sup>* \<subseteq> (replies (xs @ [n]))\<^sup>*"
    by (rule rtrancl_mono) (simp add: replies_append[OF assms(1,2)])
  ultimately show ?thesis by (auto simp: upwards_def)
qed

definition ancestors_of :: "comment_object list \<Rightarrow> comment_object \<Rightarrow> nat set" where
  "ancestors_of xs c = {i. \<exists>p. parent_in xs c p \<and> i \<in> upwards xs (cmt_id p)}"

lemma ancestors_of_root: "cmt_parent_author c = [] \<Longrightarrow> ancestors_of xs c = {}"
  by (simp add: ancestors_of_def parent_in_def)

lemma ancestors_of_reply: "comment_forest xs \<Longrightarrow> parent_in xs c p \<Longrightarrow> ancestors_of xs c = upwards xs (cmt_id p)"
proof -
  assume "comment_forest xs" "parent_in xs c p"
  then have "parent_in xs c q \<longleftrightarrow> q = p" for q using parent_in_unique by blast
  then show ?thesis by (simp add: ancestors_of_def)
qed

lemma card_descendants_append:
  assumes "comment_forest xs" "fresh_leaf xs n"
  shows "card (descendants (xs @ [n]) i) = card (descendants xs i) + (if i \<in> ancestors_of xs n then 1 else 0)"
proof -
  have "cmt_id n \<notin> descendants xs i" using descendants_sub assms(2) by (force simp: fresh_leaf_def)
  moreover have "descendants (xs @ [n]) i = (if i \<in> ancestors_of xs n then insert (cmt_id n) (descendants xs i) else descendants xs i)"
    by (auto simp: descendants_append[OF assms] ancestors_of_def)
  ultimately show ?thesis using finite_descendants[of xs i] by simp
qed

lemma leaf_descendants:
  assumes "comment_forest xs" "fresh_leaf xs n"
  shows "descendants (xs @ [n]) (cmt_id n) = {}"
proof -
  have "descendants xs (cmt_id n) = {}"
    using leaf_not_in_replies[OF assms(2)] by (auto simp: descendants_def elim: tranclE)
  then show ?thesis
    using leaf_not_upwards[OF assms(2)] by (auto simp: descendants_append[OF assms] parent_in_def)
qed

text \<open>Only the set of comments matters.\<close>

lemma descendants_set: "set xs = set ys \<Longrightarrow> descendants xs = descendants ys"
  by (simp add: descendants_def replies_def parent_in_def fun_eq_iff)

lemma upwards_set: "set xs = set ys \<Longrightarrow> upwards xs = upwards ys"
  by (simp add: upwards_def replies_def parent_in_def fun_eq_iff)

lemma set_remove_id:
  assumes "distinct (map cmt_id xs)" "c \<in> set xs"
  shows "set (tbl_remove (\<lambda>x. cmt_id x = cmt_id c) xs) = set xs - {c}"
  using assms by (induction xs) (auto simp: image_iff)

lemma no_reply:
  assumes "comment_forest xs" "c \<in> set xs" "descendants xs (cmt_id c) = {}"
  shows "x \<in> set xs \<Longrightarrow> \<not> parent_in xs x c"
  using assms(3) by (auto simp: descendants_def replies_def)

lemma forest_remove:
  assumes f: "comment_forest xs" and mem: "c \<in> set xs" and leaf: "descendants xs (cmt_id c) = {}"
  defines "ys \<equiv> tbl_remove (\<lambda>x. cmt_id x = cmt_id c) xs"
  shows "comment_forest ys \<and> fresh_leaf ys c \<and> set xs = set (ys @ [c])"
proof -
  have set: "set ys = set xs - {c}" using set_remove_id[of xs c] f mem by (simp add: ys_def comment_forest_def)
  have "linked ys x" if x: "x \<in> set xs" for x
  proof -
    have "linked xs x" using f x by (simp add: comment_forest_def)
    then show ?thesis using no_reply[OF f mem leaf x] by (auto simp: linked_def parent_in_def set split: if_splits)
  qed
  moreover have "distinct (map cmt_id ys)" "distinct (map comment_key ys)"
    using f distinct_map_tbl_remove by (auto simp: ys_def comment_forest_def)
  moreover have "cmt_id c \<notin> cmt_id ` set ys" "comment_key c \<notin> comment_key ` set ys"
    using forest_id_unique[OF f mem] forest_key_unique[OF f mem] by (auto simp: set)
  ultimately show ?thesis using set mem by (auto simp: comment_forest_def fresh_leaf_def)
qed

section \<open>The operations\<close>

definition forest_view :: "chain_db \<Rightarrow> _" where
  "forest_view d = (map shape (db_comments d), map cmt_children (db_comments d), db_next_id d comment_object_type)"

lemma children_exact_view:
  assumes "map shape xs = map shape ys" "map cmt_children xs = map cmt_children ys" "children_exact xs"
  shows "children_exact ys"
proof -
  have "map (\<lambda>c. (shape c, cmt_children c)) zs = zip (map shape zs) (map cmt_children zs)" for zs
    by (simp add: zip_map_map zip_same_conv_map)
  then have "map (\<lambda>c. (shape c, cmt_children c)) ys = map (\<lambda>c. (shape c, cmt_children c)) xs"
    using assms(1,2) by simp
  then have img: "(\<lambda>c. (shape c, cmt_children c)) ` set ys = (\<lambda>c. (shape c, cmt_children c)) ` set xs"
    unfolding set_map[symmetric] by (rule arg_cong)
  have same: "descendants ys = descendants xs"
    using replies_shape[OF assms(1)] by (simp add: descendants_def fun_eq_iff)
  have "cmt_children c = int (card (descendants ys (cmt_id c)))" if "c \<in> set ys" for c
  proof -
    have "(shape c, cmt_children c) \<in> (\<lambda>c. (shape c, cmt_children c)) ` set xs" using that img by blast
    then obtain c' where "c' \<in> set xs" "shape c = shape c'" "cmt_children c = cmt_children c'" by auto
    then show ?thesis using assms(3) shape_eqD(1)[of c c'] by (simp add: children_exact_def same)
  qed
  then show ?thesis by (simp add: children_exact_def)
qed

lemma discussions_ok_view:
  assumes "forest_view d = forest_view d'" "discussions_ok d"
  shows "discussions_ok d'"
proof -
  have v: "map shape (db_comments d) = map shape (db_comments d')"
    "map cmt_children (db_comments d) = map cmt_children (db_comments d')"
    "db_next_id d comment_object_type = db_next_id d' comment_object_type"
    using assms(1) by (simp_all add: forest_view_def)
  have "cmt_id c < db_next_id d' comment_object_type" if "c \<in> set (db_comments d')" for c
    using shape_ex[OF v(1)[symmetric] that] assms(2) v(3) by (auto simp: discussions_ok_def dest: shape_eqD(1))
  then show ?thesis
    using comment_forest_shape[OF v(1)] children_exact_view[OF v(1,2)] assms(2) by (simp add: discussions_ok_def)
qed

lemma card_descendants_le: "card (descendants xs i) \<le> length xs"
  by (meson card_image_le card_length card_mono descendants_sub finite_imageI finite_set le_trans)

text \<open>Posting.\<close>

lemma initial_comment_fields:
  assumes "initial_comment F op parent w d = Some com"
  shows "cmt_id com = db_next_id d comment_object_type \<and> cmt_author com = cm_author op \<and> cmt_permlink com = cm_permlink op
    \<and> cmt_children com = 0 \<and> cmt_net_SCOREreward com = 0 \<and> cmt_last_payout com = 0
    \<and> (case parent of None \<Rightarrow> cmt_parent_author com = [] \<and> cmt_depth com = 0 \<and> cmt_root_comment com = cmt_id com
       | Some p \<Rightarrow> cmt_parent_author com = cmt_author p \<and> cmt_parent_permlink com = cmt_permlink p
           \<and> cmt_depth com = (cmt_depth p + 1) mod 65536 \<and> cmt_root_comment com = cmt_root_comment p)"
  using assms by (cases parent) (auto simp: initial_comment_def Let_def new_comment_object_def opt_simps)

lemma post_leaf:
  assumes ok: "comment_forest xs" and xs: "xs = db_comments d"
    and below: "\<forall>c \<in> set xs. cmt_id c < db_next_id d comment_object_type"
    and init: "initial_comment F op parent w d = Some com" and create: "create_comment com d = Some d'"
    and par: "case parent of None \<Rightarrow> True | Some p \<Rightarrow> p \<in> set xs \<and> cmt_author p \<noteq> [] \<and> cmt_depth p < 65535"
  shows "fresh_leaf xs com \<and> db_comments d' = xs @ [com] \<and> db_next_id d' = (db_next_id d)(comment_object_type := Suc (cmt_id com))"
proof -
  note com = initial_comment_fields[OF init]
  have d': "db_comments d' = xs @ [com]" "db_next_id d' = (db_next_id d)(comment_object_type := Suc (cmt_id com))"
    "comment_key com \<notin> comment_key ` set xs"
    using create com by (auto simp: create_comment_def xs take_id_def comment_key_def opt_simps)
  have "linked xs com"
  proof (cases parent)
    case None
    then show ?thesis using com by (simp add: linked_def)
  next
    case (Some p)
    then have p: "p \<in> set xs" "cmt_author p \<noteq> []" "cmt_depth p < 65535" "0 \<le> cmt_depth p"
      using par ok by (auto simp: comment_forest_def linked_def)
    then have "parent_in xs com p" using com Some by (simp add: parent_in_def comment_key_def parent_key_def)
    moreover have "cmt_depth com = cmt_depth p + 1" using com p Some by simp
    ultimately show ?thesis using com p Some by (auto simp: linked_def parent_in_def)
  qed
  then show ?thesis using d' below com by (force simp: fresh_leaf_def)
qed


lemma children_post:
  assumes f: "comment_forest xs" and ex: "children_exact xs" and n: "fresh_leaf xs n" "cmt_children n = 0"
    and len: "length xs < 2 ^ 32 - 1"
  shows "children_exact (touch_where 1 now (ancestors_of xs n) (xs @ [n]))"
proof -
  let ?ys = "touch_where 1 now (ancestors_of xs n) (xs @ [n])"
  have des: "descendants ?ys = descendants (xs @ [n])"
    using replies_shape[OF shape_touch_where] by (simp add: descendants_def fun_eq_iff)
  have "cmt_children y = int (card (descendants ?ys (cmt_id y)))" if y: "y \<in> set ?ys" for y
  proof -
    obtain c where c: "c \<in> set xs \<or> c = n" "y = (if cmt_id c \<in> ancestors_of xs n then touched 1 now c else c)"
      using y by (elim touch_whereE) auto
    have self: "cmt_id n \<notin> ancestors_of xs n" using leaf_not_upwards[OF n(1)] by (auto simp: ancestors_of_def parent_in_def)
    show ?thesis
    proof (cases "c = n")
      case True
      then show ?thesis using c(2) self n(2) leaf_descendants[OF f n(1)] by (simp add: des)
    next
      case False
      then have "cmt_children c = int (card (descendants xs (cmt_id c)))" using c(1) ex by (simp add: children_exact_def)
      moreover have "card (descendants xs (cmt_id c)) < 2 ^ 32 - 1" using card_descendants_le len by (rule le_less_trans)
      ultimately show ?thesis
        using c(2) card_descendants_append[OF f n(1), of "cmt_id c"] by (auto simp: des touched_def)
    qed
  qed
  then show ?thesis by (simp add: children_exact_def)
qed

lemma ancestors_of_shape:
  assumes "map shape xs = map shape ys"
  shows "ancestors_of xs c = ancestors_of ys c"
proof -
  have sub: "ancestors_of xs c \<subseteq> ancestors_of ys c" if sh: "map shape xs = map shape ys" for xs ys
  proof
    fix i assume "i \<in> ancestors_of xs c"
    then obtain p where p: "parent_in xs c p" "i \<in> upwards xs (cmt_id p)" by (auto simp: ancestors_of_def)
    then obtain q where q: "q \<in> set ys" "shape p = shape q" using shape_ex[OF sh, of p] by (auto simp: parent_in_def)
    have "parent_in ys c q" "i \<in> upwards ys (cmt_id q)"
      using p q(1) shape_eqD[OF q(2)] replies_shape[OF sh] by (auto simp: parent_in_def upwards_def)
    then show "i \<in> ancestors_of ys c" by (auto simp: ancestors_of_def)
  qed
  show ?thesis using sub[OF assms] sub[OF assms[symmetric]] by simp
qed

lemma ancestors_of_leaf:
  assumes "comment_forest ys" "fresh_leaf ys c" "set zs = set (ys @ [c])"
  shows "ancestors_of ys c = ancestors_of zs c"
  using upwards_append[OF assms(1,2)] upwards_set[OF assms(3)] leaf_no_parent[OF assms(1,2)] assms(3)
  by (auto simp: ancestors_of_def parent_in_def)

lemma children_untouch:
  assumes "cmt_children x = int (k + (if b then 1 else 0))" "k < 2 ^ 32"
  shows "cmt_children (if b then touched (- 1) now x else x) = int k"
  using assms by (cases b) (simp_all add: touched_def)

lemma children_delete:
  fixes now :: time
  assumes f: "comment_forest xs" and ex: "children_exact xs" and c: "c \<in> set xs" "cmt_children c = 0"
    and len: "length xs < 2 ^ 32"
  defines "zs \<equiv> touch_where (- 1) now (ancestors_of xs c) xs"
  defines "ys \<equiv> tbl_remove (\<lambda>x. cmt_id x = cmt_id c) zs"
  shows "comment_forest ys \<and> children_exact ys"
proof -
  have "card (descendants xs (cmt_id c)) = 0" using ex c by (simp add: children_exact_def)
  then have leaf: "descendants xs (cmt_id c) = {}" using finite_descendants by simp
  have des: "descendants zs = descendants xs"
    using replies_shape[OF shape_touch_where] by (simp add: zs_def descendants_def fun_eq_iff)
  have "cmt_id c \<notin> ancestors_of xs c" using upwards_acyclic[OF f c(1)] by (auto simp: ancestors_of_def)
  then have cz: "c \<in> set zs" using c(1) by (force simp: zs_def touch_where_def)
  have fz: "comment_forest zs" using comment_forest_shape[OF _ f] by (simp add: zs_def)
  have rem: "comment_forest ys" "fresh_leaf ys c" "set zs = set (ys @ [c])"
    using forest_remove[OF fz cz] leaf by (auto simp: ys_def des)
  have ab: "ancestors_of ys c = ancestors_of xs c"
    using ancestors_of_leaf[OF rem] ancestors_of_shape[of zs xs c] by (simp add: zs_def)
  have "cmt_children y = int (card (descendants ys (cmt_id y)))" if "y \<in> set ys" for y
  proof -
    have "y \<in> set zs" using that rem(3) by auto
    then obtain x where x: "x \<in> set xs" "y = (if cmt_id x \<in> ancestors_of xs c then touched (- 1) now x else x)"
      unfolding zs_def by (rule touch_whereE)
    have "cmt_children x = int (card (descendants ys (cmt_id y)) + (if cmt_id x \<in> ancestors_of xs c then 1 else 0))"
    proof -
      have "cmt_children x = int (card (descendants (ys @ [c]) (cmt_id x)))"
        using ex x(1) descendants_set[OF rem(3)] des by (simp add: children_exact_def)
      moreover have "cmt_id y = cmt_id x" using x(2) by simp
      ultimately show ?thesis using card_descendants_append[OF rem(1,2), of "cmt_id x"] ab by simp
    qed
    moreover have "card (descendants ys (cmt_id y)) < 2 ^ 32"
    proof -
      have "card (descendants ys (cmt_id y)) \<le> card (descendants (ys @ [c]) (cmt_id y))"
        unfolding card_descendants_append[OF rem(1,2)] by simp
      also have "\<dots> = card (descendants xs (cmt_id y))" unfolding descendants_set[OF rem(3), symmetric] des ..
      also have "\<dots> \<le> length xs" by (rule card_descendants_le)
      finally show ?thesis using len by (rule le_less_trans)
    qed
    ultimately have "cmt_children (if cmt_id x \<in> ancestors_of xs c then touched (- 1) now x else x) = int (card (descendants ys (cmt_id y)))"
      by (rule children_untouch)
    then show ?thesis unfolding x(2)[symmetric] .
  qed
  then show ?thesis using rem(1) by (simp add: children_exact_def)
qed


lemma modify_account_comments:
  assumes "modify_account n f d = Some d'"
  shows "db_comments d' = db_comments d" "db_comment_votes d' = db_comment_votes d" "db_next_id d' = db_next_id d"
    "db_gpo d' = db_gpo d" "db_processed_hardforks d' = db_processed_hardforks d"
  using assms by (auto simp: modify_account_def opt_simps)

lemma post_commentE:
  assumes "post_comment F op auth parent d = Some d'"
  obtains f d1 w com d2 where "modify_account (cm_author op) f d = Some d1"
    "initial_comment F op parent w d1 = Some com" "create_comment com d1 = Some d2"
    "(case parent of None \<Rightarrow> Some d2 | Some p \<Rightarrow> touch_ancestors 1 (cmt_id p) d2) = Some d'"
  using assms unfolding post_comment_def
  by (simp only: bind_Some_iff split_paired_Ex prod.case) (elim exE conjE, rule that, assumption+)

lemma post_comment_ok:
  assumes ok: "discussions_ok d" and len: "length (db_comments d) < 2 ^ 32 - 1"
    and par: "case parent of None \<Rightarrow> True | Some p \<Rightarrow> p \<in> set (db_comments d) \<and> cmt_author p \<noteq> [] \<and> cmt_depth p < 65535"
    and post: "post_comment F op auth parent d = Some d'"
  shows "discussions_ok d'"
proof -
  let ?xs = "db_comments d"
  obtain f d1 w com d2 where m: "modify_account (cm_author op) f d = Some d1"
    and init: "initial_comment F op parent w d1 = Some com" and cr: "create_comment com d1 = Some d2"
    and last: "(case parent of None \<Rightarrow> Some d2 | Some p \<Rightarrow> touch_ancestors 1 (cmt_id p) d2) = Some d'"
    using post by (rule post_commentE)
  note m = modify_account_comments[OF m] and com = initial_comment_fields[OF init]
  have f: "comment_forest ?xs" and ex: "children_exact ?xs"
    and below: "\<forall>c \<in> set ?xs. cmt_id c < db_next_id d1 comment_object_type"
    using ok m by (simp_all add: discussions_ok_def)
  have leaf: "fresh_leaf ?xs com" "db_comments d2 = ?xs @ [com]"
    "db_next_id d2 comment_object_type = Suc (cmt_id com)"
    using post_leaf[OF f _ below init cr par] m by auto
  note f2 = forest_append[OF f leaf(1)]
  have d': "db_comments d' = touch_where 1 (head_block_time d2) (ancestors_of ?xs com) (?xs @ [com])
     \<and> db_next_id d' = db_next_id d2"
  proof (cases parent)
    case None
    then show ?thesis using last com leaf(2) ancestors_of_root[of com ?xs] by (simp add: touch_where_def)
  next
    case (Some p)
    then have p: "p \<in> set ?xs" "parent_in ?xs com p"
      using par com by (auto simp: parent_in_def comment_key_def parent_key_def)
    then have "touch_ancestors 1 (cmt_id p) d2 = Some (d2\<lparr>db_comments :=
        touch_where 1 (head_block_time d2) (upwards ?xs (cmt_id p)) (?xs @ [com])\<rparr>)"
      using touch_ancestors_walk[of d2 p 1] f2 leaf(2) upwards_append[OF f leaf(1) p(1)] by simp
    then show ?thesis using last Some ancestors_of_reply[OF f p(2)] by auto
  qed
  have "comment_forest (db_comments d')" using comment_forest_shape[OF _ f2] d' by simp
  moreover have "children_exact (db_comments d')" using children_post[OF f ex leaf(1) _ len] com d' by simp
  moreover have "cmt_id c < db_next_id d' comment_object_type" if c: "c \<in> set (db_comments d')" for c
  proof -
    obtain e where "e \<in> set (?xs @ [com])" "cmt_id c = cmt_id e" using touch_where_ids[of c] d' c by metis
    then show ?thesis using below com d' leaf(3) by (auto simp: less_Suc_eq)
  qed
  ultimately show ?thesis by (simp add: discussions_ok_def)
qed


lemma get_comment_mem:
  "get_comment a l d = Some c \<Longrightarrow> c \<in> set (db_comments d) \<and> cmt_author c = a \<and> c_str (cmt_permlink c) = c_str l"
  using find_Some_P[of "\<lambda>c. cmt_author c = a \<and> c_str (cmt_permlink c) = c_str l" "db_comments d" c]
  by (simp add: get_comment_def find_comment_def)

lemma modify_comment_view:
  assumes "modify_comment i f d = Some d'"
    and "\<And>c c'. f c = Some c' \<Longrightarrow> shape c' = shape c \<and> cmt_children c' = cmt_children c"
  shows "forest_view d' = forest_view d \<and> db_processed_hardforks d' = db_processed_hardforks d"
proof -
  obtain xs where xs: "tbl_modify (\<lambda>c. cmt_id c = i) f (db_comments d) = Some xs" "d' = d\<lparr>db_comments := xs\<rparr>"
    using assms(1) by (auto simp: modify_comment_def opt_simps)
  show ?thesis
    using map_key_modify[OF xs(1), of shape] map_key_modify[OF xs(1), of cmt_children] assms(2) xs(2)
    by (simp add: forest_view_def)
qed

lemma edit_comment_view:
  assumes "edit_comment F op parent c d = Some d'"
  shows "forest_view d' = forest_view d"
proof -
  obtain f where m: "modify_comment (cmt_id c) f d = Some d'"
    and f: "\<And>x y. f x = Some y \<Longrightarrow> shape y = shape x \<and> cmt_children y = cmt_children x"
    using assms unfolding edit_comment_def
    apply (simp only: bind_Some_iff)
    apply (elim exE conjE)
    apply (rule that, assumption)
    apply (auto simp: Let_def opt_simps shape_def comment_key_def parent_key_def split: option.splits if_splits)
    done
  show ?thesis using modify_comment_view[OF m f] by simp
qed

theorem comment_ok:
  assumes ok: "discussions_ok d" and len: "length (db_comments d) < 2 ^ 32 - 1"
    and ap: "comment_do_apply F op d = Some d'"
  shows "discussions_ok d'"
proof -
  obtain parent auth where par: "(if cm_parent_author op \<noteq> [] then do {
                  p \<leftarrow> get_comment (cm_parent_author op) (cm_parent_permlink op) d;
                  (if \<not> has_hardfork 17 d then FC_ASSERT (cmt_depth p < MAX_COMMENT_DEPTH_PRE_HF17)
                   else FC_ASSERT (cmt_depth p < MAX_COMMENT_DEPTH));
                  Some (Some p) } else Some None) = Some parent"
    and run: "(case find_comment (cm_author op) (cm_permlink op) d of
       None \<Rightarrow> post_comment F op auth parent d | Some comment \<Rightarrow> edit_comment F op parent comment d) = Some d'"
    using ap unfolding comment_do_apply_def
    by (simp only: bind_Some_iff) (elim exE conjE, rule that, assumption+)
  have parent: "case parent of None \<Rightarrow> True | Some p \<Rightarrow> p \<in> set (db_comments d) \<and> cmt_author p \<noteq> [] \<and> cmt_depth p < 65535"
    using par by (auto simp: opt_simps MAX_COMMENT_DEPTH_PRE_HF17_def MAX_COMMENT_DEPTH_def split: if_splits dest!: get_comment_mem)
  show ?thesis
  proof (cases "find_comment (cm_author op) (cm_permlink op) d")
    case None
    then show ?thesis using run post_comment_ok[OF ok len parent] by simp
  next
    case (Some c)
    then have "edit_comment F op parent c d = Some d'" using run by simp
    then show ?thesis using discussions_ok_view[OF _ ok] edit_comment_view by metis
  qed
qed

text \<open>Deleting.\<close>

theorem deleteComment_ok:
  assumes ok: "discussions_ok d" and len: "length (db_comments d) < 2 ^ 32" and hf: "has_hardfork 6 d"
    and ap: "deleteComment_do_apply F op d = Some d'"
  shows "discussions_ok d'"
proof -
  let ?xs = "db_comments d"
  let ?d1 = "\<lambda>c. d\<lparr>db_comment_votes := filter (\<lambda>v. cvo_comment v \<noteq> cmt_id c) (db_comment_votes d)\<rparr>"
  obtain c where c: "get_comment (dc_author op) (dc_permlink op) d = Some c" "FC_ASSERT (cmt_children c = 0) = Some ()"
    and run: "(if cmt_net_SCOREreward c > 0 then Some d
     else do {
       let d1 = ?d1 c;
       d2 \<leftarrow> (if has_hardfork 6 d1 \<and> cmt_parent_author c \<noteq> [] then do {
                parent \<leftarrow> get_comment (cmt_parent_author c) (cmt_parent_permlink c) d1;
                touch_ancestors (- 1) (cmt_id parent) d1 }
              else Some d1);
       Some (remove_comment (cmt_id c) d2) }) = Some d'"
    using ap unfolding deleteComment_do_apply_def
    by (simp only: bind_Some_iff) (elim exE conjE, rule that, assumption, simp, assumption)
  have f: "comment_forest ?xs" and ex: "children_exact ?xs" using ok by (simp_all add: discussions_ok_def)
  have mem: "c \<in> set ?xs" "cmt_children c = 0" using c get_comment_mem by auto
  show ?thesis
  proof (cases "cmt_net_SCOREreward c > 0")
    case True
    then show ?thesis using run ok by simp
  next
    case False
    have "db_next_id d' = db_next_id d \<and> db_comments d' = tbl_remove (\<lambda>x. cmt_id x = cmt_id c)
        (touch_where (- 1) (head_block_time d) (ancestors_of ?xs c) ?xs)"
    proof (cases "cmt_parent_author c = []")
      case True
      then show ?thesis using run False by (auto simp: remove_comment_def ancestors_of_root touch_where_def Let_def)
    next
      case reply: False
      obtain p where p: "parent_in ?xs c p" using forest_has_parent[OF f mem(1) reply] .
      have "get_comment (cmt_parent_author c) (cmt_parent_permlink c) (?d1 c) = Some p"
        using find_parent[of "?d1 c" c p] f p by simp
      moreover have "touch_ancestors (- 1) (cmt_id p) (?d1 c) = Some ((?d1 c)\<lparr>db_comments :=
          touch_where (- 1) (head_block_time d) (ancestors_of ?xs c) ?xs\<rparr>)"
        using touch_ancestors_walk[of "?d1 c" p "- 1"] f p ancestors_of_reply[OF f p]
        by (simp add: parent_in_def head_block_time_def)
      ultimately show ?thesis
        using run False reply hf by (auto simp: remove_comment_def has_hardfork_def Let_def)
    qed
    moreover have "cmt_id y < db_next_id d comment_object_type"
      if "y \<in> set (touch_where (- 1) (head_block_time d) (ancestors_of ?xs c) ?xs)" for y
      using touch_where_ids[OF that] ok by (auto simp: discussions_ok_def)
    ultimately show ?thesis
      using children_delete[OF f ex mem len, of "head_block_time d"] set_tbl_remove
      by (fastforce simp: discussions_ok_def)
  qed
qed


section \<open>Options and votes\<close>

text \<open>Steps that leave the forest alone.\<close>

definition forest_frame :: "chain_db \<Rightarrow> chain_db \<Rightarrow> bool" where
  "forest_frame d d' \<longleftrightarrow> forest_view d' = forest_view d"

lemma forest_frame_refl [simp]: "forest_frame d d" by (simp add: forest_frame_def)

lemma forest_frame_trans [trans]: "forest_frame a b \<Longrightarrow> forest_frame b c \<Longrightarrow> forest_frame a c"
  by (simp add: forest_frame_def)

lemma forest_frame_ok: "forest_frame d d' \<Longrightarrow> discussions_ok d \<Longrightarrow> discussions_ok d'"
  by (rule discussions_ok_view[of d d']) (simp_all add: forest_frame_def)

lemma modify_comment_frame:
  assumes "modify_comment i f d = Some d'" "\<And>c c'. f c = Some c' \<Longrightarrow> shape c' = shape c \<and> cmt_children c' = cmt_children c"
  shows "forest_frame d d'"
  using modify_comment_view[OF assms] by (simp add: forest_frame_def)

lemma forest_frame_eqI:
  "db_comments d' = db_comments d \<Longrightarrow> db_next_id d' comment_object_type = db_next_id d comment_object_type \<Longrightarrow> forest_frame d d'"
  by (simp add: forest_frame_def forest_view_def)

lemmas shape_simps = shape_def comment_key_def parent_key_def

lemma add_beneficiaries_fields:
  "add_beneficiaries bs d c = Some c' \<Longrightarrow> \<exists>ys. c' = c\<lparr>cmt_beneficiaries := ys\<rparr>"
proof (induction bs arbitrary: c)
  case Nil
  then show ?case by (intro exI[of _ "cmt_beneficiaries c"]) simp
next
  case (Cons b bs)
  then obtain ys where "c' = c\<lparr>cmt_beneficiaries := cmt_beneficiaries c @ [b], cmt_beneficiaries := ys\<rparr>"
    by (fastforce simp: opt_simps)
  then show ?case by auto
qed

lemma visit_extensions_frame: "visit_extensions es i d = Some d' \<Longrightarrow> forest_frame d d'"
proof (induction es arbitrary: d)
  case (Cons e es)
  from Cons.prems obtain d1 where d1: "modify_comment i (add_beneficiaries e d) d = Some d1" "visit_extensions es i d1 = Some d'"
    by (auto simp: opt_simps)
  have "forest_frame d d1"
    by (rule modify_comment_frame[OF d1(1)]) (auto dest!: add_beneficiaries_fields simp: shape_simps)
  also note Cons.IH[OF d1(2)]
  finally show ?case .
qed simp

lemma comment_options_frame:
  assumes "comment_options_do_apply op d = Some d'"
  shows "forest_frame d d'"
proof -
  obtain c :: comment_object and d1 where d1: "modify_comment (cmt_id c) (\<lambda>c. Some (c\<lparr>cmt_max_accepted_payout := co_max_accepted_payout op,
        cmt_percent_TSD := co_percent_TSD op, cmt_allow_votes := co_allow_votes op,
        cmt_allow_curationRewards := co_allow_curationRewards op\<rparr>)) d = Some d1"
    "visit_extensions (co_extensions op) (cmt_id c) d1 = Some d'"
    using assms unfolding comment_options_do_apply_def
    by (simp only: bind_Some_iff) (elim exE conjE, rule that, assumption+)
  have "forest_frame d d1" by (rule modify_comment_frame[OF d1(1)]) (auto simp: shape_simps)
  also note visit_extensions_frame[OF d1(2)]
  finally show ?thesis .
qed

lemma spend_power_frame: "spend_power n c u d = Some d' \<Longrightarrow> forest_frame d d'"
  using modify_account_comments unfolding spend_power_def by (metis forest_frame_eqI)

lemma touch_rootE:
  assumes "touch_root F r t i d = Some d'"
  obtains f where "modify_comment i f d = Some d'"
    "\<And>c c'. f c = Some c' \<Longrightarrow> \<exists>s t m. c' = c\<lparr>cmt_children_abs_SCOREreward := s, cmt_cashout_time := t, cmt_max_cashout_time := m\<rparr>"
proof -
  let ?f = "\<lambda>c. do {
     s \<leftarrow> safe_add F (cmt_children_abs_SCOREreward c) r;
     let c = c\<lparr>cmt_children_abs_SCOREreward := s\<rparr>;
     if \<not> has_hardfork 17 d then do {
       t \<leftarrow> (if has_hardfork 12 d \<and> cmt_last_payout c > 0
             then Some (secs_add F (cmt_last_payout c) SECOND_CASHOUT_WINDOW)
             else do { a \<leftarrow> u128_to_uint64 F t; Some (min (a mod 2 ^ 32) (cmt_max_cashout_time c)) });
       let c = c\<lparr>cmt_cashout_time := t\<rparr>;
       Some (if cmt_max_cashout_time c = secs_max F
             then c\<lparr>cmt_max_cashout_time := secs_add F (head_block_time d) MAX_CASHOUT_WINDOW_SECONDS\<rparr> else c) }
     else Some c }"
  have f: "\<exists>s t m. c' = c\<lparr>cmt_children_abs_SCOREreward := s, cmt_cashout_time := t, cmt_max_cashout_time := m\<rparr>"
    if c': "?f c = Some c'" for c c' :: comment_object
  proof -
    obtain s where s: "safe_add F (cmt_children_abs_SCOREreward c) r = Some s" using c' by (auto simp: bind_Some_iff)
    show ?thesis
    proof (cases "has_hardfork 17 d")
      case True
      then have "c' = c\<lparr>cmt_children_abs_SCOREreward := s, cmt_cashout_time := cmt_cashout_time c, cmt_max_cashout_time := cmt_max_cashout_time c\<rparr>"
        using c' s by auto
      then show ?thesis by blast
    next
      case False
      then obtain u where "c' = c\<lparr>cmt_children_abs_SCOREreward := s, cmt_cashout_time := u, cmt_max_cashout_time :=
          (if cmt_max_cashout_time c = secs_max F then secs_add F (head_block_time d) MAX_CASHOUT_WINDOW_SECONDS else cmt_max_cashout_time c)\<rparr>"
        using c' s by (simp add: Let_def bind_Some_iff) (elim exE conjE, rule that, auto split: if_splits)
      then show ?thesis by blast
    qed
  qed
  have "modify_comment i ?f d = Some d'" using assms unfolding touch_root_def .
  then show thesis using f by (rule that)
qed

lemma touch_root_frame: "touch_root F r t i d = Some d' \<Longrightarrow> forest_frame d d'"
  by (elim touch_rootE) (rule modify_comment_frame, assumption, fastforce simp: shape_simps)

lemma create_comment_vote_frame: "create_comment_vote v d = Some d' \<Longrightarrow> forest_frame d d'"
  by (rule forest_frame_eqI) (auto simp: create_comment_vote_def take_id_def opt_simps)

lemma modify_comment_vote_frame: "modify_comment_vote c v f d = Some d' \<Longrightarrow> forest_frame d d'"
  by (rule forest_frame_eqI) (auto simp: modify_comment_vote_def opt_simps)

lemma update_reward2_comments:
  assumes "update_reward2 F n i d = Some d'"
  shows "db_comments d' = db_comments d" "db_comment_votes d' = db_comment_votes d" "db_next_id d' = db_next_id d"
    "db_accounts d' = db_accounts d" "db_processed_hardforks d' = db_processed_hardforks d"
proof -
  have "d' = d \<or> (\<exists>g. d' = d\<lparr>db_gpo := g\<rparr>)"
    using assms unfolding update_reward2_def adjust_SCOREreward2_def modify_gpo_def
    by (simp only: bind_Some_iff) (elim exE conjE, cases "has_hardfork 17 d", simp, auto)
  then show "db_comments d' = db_comments d" "db_comment_votes d' = db_comment_votes d" "db_next_id d' = db_next_id d"
    "db_accounts d' = db_accounts d" "db_processed_hardforks d' = db_processed_hardforks d" by auto
qed

lemma update_reward2_frame: "update_reward2 F n i d = Some d' \<Longrightarrow> forest_frame d d'"
  by (rule forest_frame_eqI) (simp_all add: update_reward2_comments)

text \<open>What a vote does to comments: it changes scores, never the structure, the counter or the payout.\<close>

definition same_post :: "comment_object \<Rightarrow> comment_object \<Rightarrow> bool" where
  "same_post x y \<longleftrightarrow> shape y = shape x \<and> cmt_children y = cmt_children x \<and> cmt_last_payout y = cmt_last_payout x"

definition same_score :: "comment_object \<Rightarrow> comment_object \<Rightarrow> bool" where
  "same_score x y \<longleftrightarrow> same_post x y \<and> cmt_net_SCOREreward y = cmt_net_SCOREreward x"

definition signed_reward :: "vote_operation \<Rightarrow> int \<Rightarrow> int" where
  "signed_reward op r = (if vt_weight op < 0 then - r else r)"

lemmas same_simps = same_score_def same_post_def shape_simps

lemma touch_root_same:
  assumes "touch_root F r t i d = Some d'"
  shows "\<exists>f. modify_comment i f d = Some d' \<and> (\<forall>x y. f x = Some y \<longrightarrow> same_score x y)"
  using assms by (elim touch_rootE) (intro exI conjI, assumption, fastforce simp: same_simps)

lemma same_post_frame:
  assumes "modify_comment i f d = Some d'" "\<And>x y. f x = Some y \<Longrightarrow> same_post x y"
  shows "forest_frame d d'"
  using assms(1) by (rule modify_comment_frame) (use assms(2) in \<open>auto simp: same_post_def\<close>)

lemma same_score_post: "same_score x y \<Longrightarrow> same_post x y" by (simp add: same_score_def)

lemma new_voteE:
  assumes "new_vote F op cur used r voter c d = Some d'"
  obtains d1 d2 d3 d4 d5 f g h v where
    "spend_power (vt_voter op) cur used d = Some d1"
    "modify_comment (cmt_id c) f d1 = Some d2"
    "\<And>x y. f x = Some y \<Longrightarrow> same_post x y \<and> safe_add F (cmt_net_SCOREreward x) (signed_reward op r) = Some (cmt_net_SCOREreward y)"
    "modify_comment (cmt_root_comment c) g d2 = Some d3" "\<And>x y. g x = Some y \<Longrightarrow> same_score x y"
    "create_comment_vote v d3 = Some d4" "cvo_voter v = acc_id voter" "cvo_comment v = cmt_id c"
    "cvo_SCOREreward v = signed_reward op r" "cvo_num_changes v = 0"
    "d5 = d4 \<or> modify_comment (cmt_id c) h d4 = Some d5" "\<And>x y. h x = Some y \<Longrightarrow> same_score x y"
    "update_reward2 F (cmt_net_SCOREreward c) (cmt_id c) d5 = Some d'"
proof -
  let ?f = "\<lambda>d1. \<lambda>c. do {
        n \<leftarrow> safe_add F (cmt_net_SCOREreward c) (signed_reward op r);
        a \<leftarrow> safe_add F (cmt_abs_SCOREreward c) r;
        v \<leftarrow> (if signed_reward op r > 0
              then safe_add F (cmt_vote_SCOREreward c) (signed_reward op r) else Some (cmt_vote_SCOREreward c));
        (if \<not> has_hardfork 6 d1 \<and> n = - a then FC_ASSERT ((if signed_reward op r > 0 then wrap32 (cmt_net_votes c + 1) else wrap32 (cmt_net_votes c - 1)) < 0) else Some ());
        Some (c\<lparr>cmt_net_SCOREreward := n, cmt_abs_SCOREreward := a, cmt_vote_SCOREreward := v,
          cmt_net_votes := (if signed_reward op r > 0 then wrap32 (cmt_net_votes c + 1) else wrap32 (cmt_net_votes c - 1))\<rparr>) }"
  let ?v = "\<lambda>w d3. \<lparr>cvo_id = 0, cvo_voter = acc_id voter, cvo_comment = cmt_id c, cvo_weight = w,
        cvo_SCOREreward = signed_reward op r, cvo_vote_percent = vt_weight op,
        cvo_last_update = head_block_time d3, cvo_num_changes = 0\<rparr>"
  let ?h = "\<lambda>full c. Some (c\<lparr>cmt_total_vote_weight := (cmt_total_vote_weight c + full) mod 2 ^ 64\<rparr>)"
  obtain d1 d2 d3 d4 d5 t w full where st:
    "spend_power (vt_voter op) cur used d = Some d1" "modify_comment (cmt_id c) (?f d1) d1 = Some d2"
    "touch_root F r t (cmt_root_comment c) d2 = Some d3" "create_comment_vote (?v w d3) d3 = Some d4"
    "(if full \<noteq> 0 then modify_comment (cmt_id c) (?h full) d4 else Some d4) = Some d5"
    "update_reward2 F (cmt_net_SCOREreward c) (cmt_id c) d5 = Some d'"
    using assms unfolding new_vote_def Let_def signed_reward_def[symmetric]
    by (simp only: bind_Some_iff split_paired_Ex prod.case) (elim exE conjE, rule that, assumption+)
  obtain g where g: "modify_comment (cmt_root_comment c) g d2 = Some d3" "\<And>x y. g x = Some y \<Longrightarrow> same_score x y"
    using touch_root_same[OF st(3)] by blast
  show thesis
  proof (rule that[OF st(1,2) _ g st(4) _ _ _ _ _ _ st(6), of "?h full"])
    show "same_post x y \<and> safe_add F (cmt_net_SCOREreward x) (signed_reward op r) = Some (cmt_net_SCOREreward y)" if "?f d1 x = Some y" for x y
      using that by (simp only: bind_Some_iff option.inject) (clarify, simp add: same_simps)
    show "same_score x y" if "?h full x = Some y" for x y :: comment_object using that by (auto simp: same_simps)
    show "d5 = d4 \<or> modify_comment (cmt_id c) (?h full) d4 = Some d5" using st(5) by (cases "full = 0") auto
  qed (simp_all add: g)
qed

lemma change_voteE:
  assumes "change_vote F op cur used r voter c v d = Some d'"
  obtains d1 d2 d3 d4 d5 f g h k n where
    "spend_power (vt_voter op) cur used d = Some d1"
    "modify_comment (cmt_id c) f d1 = Some d2"
    "\<And>x y. f x = Some y \<Longrightarrow> same_post x y \<and> (\<exists>n. safe_sub F (cmt_net_SCOREreward x) (cvo_SCOREreward v) = Some n
       \<and> safe_add F n (signed_reward op r) = Some (cmt_net_SCOREreward y))"
    "modify_comment (cmt_root_comment c) g d2 = Some d3" "\<And>x y. g x = Some y \<Longrightarrow> same_score x y"
    "modify_comment (cmt_id c) h d3 = Some d4" "\<And>x y. h x = Some y \<Longrightarrow> same_score x y"
    "modify_comment_vote (cmt_id c) (acc_id voter) k d4 = Some d5"
    "\<And>x y. k x = Some y \<Longrightarrow> cvo_comment y = cvo_comment x \<and> cvo_voter y = cvo_voter x
       \<and> cvo_SCOREreward y = signed_reward op r \<and> cvo_num_changes y = cvo_num_changes x + 1"
    "update_reward2 F (cmt_net_SCOREreward c) (cmt_id c) d5 = Some d'"
proof -
  let ?f = "\<lambda>c. do {
        n \<leftarrow> safe_sub F (cmt_net_SCOREreward c) (cvo_SCOREreward v);
        n \<leftarrow> safe_add F n (signed_reward op r);
        a \<leftarrow> safe_add F (cmt_abs_SCOREreward c) r;
        Some (c\<lparr>cmt_net_SCOREreward := n, cmt_abs_SCOREreward := a,
          cmt_net_votes := wrap32 (cmt_net_votes c + vote_shift (cvo_SCOREreward v) (signed_reward op r))\<rparr>) }"
  let ?h = "\<lambda>c. Some (c\<lparr>cmt_total_vote_weight := (cmt_total_vote_weight c - cvo_weight v) mod 2 ^ 64\<rparr>)"
  let ?k = "\<lambda>d4 v. Some (v\<lparr>cvo_SCOREreward := signed_reward op r,
        cvo_vote_percent := vt_weight op, cvo_last_update := head_block_time d4, cvo_weight := 0,
        cvo_num_changes := cvo_num_changes v + 1\<rparr>)"
  obtain d1 d2 d3 d4 d5 t where st:
    "spend_power (vt_voter op) cur used d = Some d1" "modify_comment (cmt_id c) ?f d1 = Some d2"
    "touch_root F r t (cmt_root_comment c) d2 = Some d3" "modify_comment (cmt_id c) ?h d3 = Some d4"
    "modify_comment_vote (cmt_id c) (acc_id voter) (?k d4) d4 = Some d5"
    "update_reward2 F (cmt_net_SCOREreward c) (cmt_id c) d5 = Some d'"
    using assms unfolding change_vote_def Let_def signed_reward_def[symmetric]
    by (simp only: bind_Some_iff split_paired_Ex prod.case) (elim exE conjE, rule that, assumption+)
  obtain g where g: "modify_comment (cmt_root_comment c) g d2 = Some d3" "\<And>x y. g x = Some y \<Longrightarrow> same_score x y"
    using touch_root_same[OF st(3)] by blast
  show thesis
  proof (rule that[OF st(1,2) _ g st(4) _ st(5) _ st(6)])
    show "same_post x y \<and> (\<exists>n. safe_sub F (cmt_net_SCOREreward x) (cvo_SCOREreward v) = Some n
       \<and> safe_add F n (signed_reward op r) = Some (cmt_net_SCOREreward y))" if "?f x = Some y" for x y
      using that by (simp only: bind_Some_iff option.inject) (elim exE conjE, auto simp: same_simps)
  qed (auto simp: same_simps g)
qed

lemma new_vote_frame:
  assumes "new_vote F op cur used r voter c d = Some d'"
  shows "forest_frame d d'"
  using assms
proof (rule new_voteE)
  fix d1 d2 d3 d4 d5 f g h v
  assume st: "spend_power (vt_voter op) cur used d = Some d1" "modify_comment (cmt_id c) f d1 = Some d2"
    "\<And>x y. f x = Some y \<Longrightarrow> same_post x y \<and> safe_add F (cmt_net_SCOREreward x) (signed_reward op r) = Some (cmt_net_SCOREreward y)"
    "modify_comment (cmt_root_comment c) g d2 = Some d3" "\<And>x y. g x = Some y \<Longrightarrow> same_score x y"
    "create_comment_vote v d3 = Some d4"
    "d5 = d4 \<or> modify_comment (cmt_id c) h d4 = Some d5" "\<And>x y. h x = Some y \<Longrightarrow> same_score x y"
    "update_reward2 F (cmt_net_SCOREreward c) (cmt_id c) d5 = Some d'"
  note spend_power_frame[OF st(1)]
  also have "forest_frame d1 d2" by (rule same_post_frame[OF st(2)]) (use st(3) in blast)
  also have "forest_frame d2 d3" by (rule same_post_frame[OF st(4)]) (use st(5) same_score_post in blast)
  also have "forest_frame d3 d4" by (rule create_comment_vote_frame[OF st(6)])
  also have "forest_frame d4 d5" using st(7) by (elim disjE) (simp, erule same_post_frame, use st(8) same_score_post in blast)
  also have "forest_frame d5 d'" by (rule update_reward2_frame[OF st(9)])
  finally show ?thesis .
qed

lemma change_vote_frame:
  assumes "change_vote F op cur used r voter c v d = Some d'"
  shows "forest_frame d d'"
  using assms
proof (rule change_voteE)
  fix d1 d2 d3 d4 d5 f g h k
  assume st: "spend_power (vt_voter op) cur used d = Some d1" "modify_comment (cmt_id c) f d1 = Some d2"
    "\<And>x y. f x = Some y \<Longrightarrow> same_post x y \<and> (\<exists>n. safe_sub F (cmt_net_SCOREreward x) (cvo_SCOREreward v) = Some n
       \<and> safe_add F n (signed_reward op r) = Some (cmt_net_SCOREreward y))"
    "modify_comment (cmt_root_comment c) g d2 = Some d3" "\<And>x y. g x = Some y \<Longrightarrow> same_score x y"
    "modify_comment (cmt_id c) h d3 = Some d4" "\<And>x y. h x = Some y \<Longrightarrow> same_score x y"
    "modify_comment_vote (cmt_id c) (acc_id voter) k d4 = Some d5"
    "update_reward2 F (cmt_net_SCOREreward c) (cmt_id c) d5 = Some d'"
  note spend_power_frame[OF st(1)]
  also have "forest_frame d1 d2" by (rule same_post_frame[OF st(2)]) (use st(3) in blast)
  also have "forest_frame d2 d3" by (rule same_post_frame[OF st(4)]) (use st(5) same_score_post in blast)
  also have "forest_frame d3 d4" by (rule same_post_frame[OF st(6)]) (use st(7) same_score_post in blast)
  also have "forest_frame d4 d5" by (rule modify_comment_vote_frame[OF st(8)])
  also have "forest_frame d5 d'" by (rule update_reward2_frame[OF st(9)])
  finally show ?thesis .
qed

lemma remove_comment_vote_frame: "forest_frame d (remove_comment_vote c v d)"
  by (rule forest_frame_eqI) (simp_all add: remove_comment_vote_def)

lemma record_vote_frame: "record_vote w voter c d = Some d' \<Longrightarrow> forest_frame d d'"
  by (auto simp: record_vote_def split: option.splits intro: create_comment_vote_frame modify_comment_vote_frame)

lemma vote_do_applyE:
  assumes "vote_do_apply F op d = Some d'"
  obtains c voter where "get_comment (vt_author op) (vt_permlink op) d = Some c" "get_account (vt_voter op) d = Some voter"
    "record_vote (vt_weight op) voter c d = Some d'"
  | c voter cur used r where "get_comment (vt_author op) (vt_permlink op) d = Some c" "get_account (vt_voter op) d = Some voter"
    "vote_power F (vt_weight op) voter d = Some (cur, used)" "find_comment_vote (cmt_id c) (acc_id voter) d = None"
    "new_vote F op cur used r voter c d = Some d'"
  | c voter cur used r v where "get_comment (vt_author op) (vt_permlink op) d = Some c" "get_account (vt_voter op) d = Some voter"
    "vote_power F (vt_weight op) voter d = Some (cur, used)" "find_comment_vote (cmt_id c) (acc_id voter) d = Some v"
    "cvo_num_changes v = - 1" "\<not> has_hardfork 12 d"
    "new_vote F op cur used r voter c (remove_comment_vote (cmt_id c) (acc_id voter) d) = Some d'"
  | c voter cur used r v where "get_comment (vt_author op) (vt_permlink op) d = Some c" "get_account (vt_voter op) d = Some voter"
    "vote_power F (vt_weight op) voter d = Some (cur, used)" "find_comment_vote (cmt_id c) (acc_id voter) d = Some v"
    "cvo_num_changes v \<noteq> - 1" "change_vote F op cur used r voter c v d = Some d'"
proof -
  obtain c voter t where c: "get_comment (vt_author op) (vt_permlink op) d = Some c" "get_account (vt_voter op) d = Some voter"
    and run: "(if has_hardfork 12 d \<and> t = secs_max F then record_vote (vt_weight op) voter c d
     else do {
       let itr = find_comment_vote (cmt_id c) (acc_id voter) d;
       (current_power, used_power) \<leftarrow> vote_power F (vt_weight op) voter d;
       abs_SCOREreward \<leftarrow> vote_SCOREreward F (vt_weight op) used_power voter d;
       case itr of
         None \<Rightarrow> new_vote F op current_power used_power abs_SCOREreward voter c d
       | Some v \<Rightarrow>
           if cvo_num_changes v = - 1 then do {
             (if has_hardfork 12 d then FC_ASSERT False else Some ());
             new_vote F op current_power used_power abs_SCOREreward voter c
               (remove_comment_vote (cmt_id c) (acc_id voter) d) }
           else change_vote F op current_power used_power abs_SCOREreward voter c v d }) = Some d'"
    using assms unfolding vote_do_apply_def
    by (simp only: bind_Some_iff) (elim exE conjE, rule that, assumption+)
  show thesis
  proof (cases "has_hardfork 12 d \<and> t = secs_max F")
    case True
    then show thesis using that(1)[OF c] run by simp
  next
    case False
    then obtain cur used r where p: "vote_power F (vt_weight op) voter d = Some (cur, used)"
      and run: "(case find_comment_vote (cmt_id c) (acc_id voter) d of
         None \<Rightarrow> new_vote F op cur used r voter c d
       | Some v \<Rightarrow>
           if cvo_num_changes v = - 1 then do {
             (if has_hardfork 12 d then FC_ASSERT False else Some ());
             new_vote F op cur used r voter c (remove_comment_vote (cmt_id c) (acc_id voter) d) }
           else change_vote F op cur used r voter c v d) = Some d'"
      using run by (simp only: if_False Let_def bind_Some_iff split_paired_Ex prod.case) blast
    show thesis
    proof (cases "find_comment_vote (cmt_id c) (acc_id voter) d")
      case None
      then show thesis using that(2)[OF c p] run by simp
    next
      case (Some v)
      then show thesis
        using that(3)[OF c p Some] that(4)[OF c p Some] run by (cases "has_hardfork 12 d") (auto split: if_splits)
    qed
  qed
qed

lemma vote_do_apply_frame:
  assumes "vote_do_apply F op d = Some d'"
  shows "forest_frame d d'"
  using assms
  by (cases rule: vote_do_applyE)
    (auto dest: record_vote_frame new_vote_frame change_vote_frame intro: forest_frame_trans[OF remove_comment_vote_frame])

section \<open>Discussions over time\<close>

text \<open>One step: an operation on comments while at most \<open>2 ^ 32 - 2\<close> comments exist (the counter of descendants
  has 32 bits), a deletion only from hardfork 6 on, or a new head block.\<close>

inductive discussion_step :: "fc_lib \<Rightarrow> chain_db \<Rightarrow> chain_db \<Rightarrow> bool" for F where
  comment: "length (db_comments d) < 2 ^ 32 - 1 \<Longrightarrow> comment_do_apply F op d = Some d' \<Longrightarrow> discussion_step F d d'"
| delete: "length (db_comments d) < 2 ^ 32 \<Longrightarrow> has_hardfork 6 d \<Longrightarrow>
    deleteComment_do_apply F op' d = Some d' \<Longrightarrow> discussion_step F d d'"
| options: "comment_options_do_apply op'' d = Some d' \<Longrightarrow> discussion_step F d d'"
| vote: "vote_do_apply F v d = Some d' \<Longrightarrow> discussion_step F d d'"
| produce: "discussion_step F d (d\<lparr>db_gpo := g\<rparr>)"

lemma discussion_step_ok: "discussion_step F d d' \<Longrightarrow> discussions_ok d \<Longrightarrow> discussions_ok d'"
proof (induction rule: discussion_step.induct)
  case (comment d op d')
  then show ?case using comment_ok by blast
next
  case (delete d op' d')
  then show ?case using deleteComment_ok by blast
next
  case (produce d g)
  then show ?case using forest_frame_ok[OF forest_frame_eqI] by simp
qed (auto intro: forest_frame_ok dest: comment_options_frame vote_do_apply_frame)

text \<open>
  C34. Through every sequence of posts, edits, options, votes and, from hardfork 6 on, deletions, while fewer
  than \<open>2 ^ 32 - 1\<close> comments exist, the comments stay a forest in which every reply has its parent one level
  above, in the same discussion, no id and no pair of author and permlink is used twice, and the counter of
  every comment is the number of its descendants.  (Before hardfork 6 a deletion does not touch the counters
  of the comments above.)
\<close>

theorem discussion_forest:
  assumes "discussions_ok d" and "(discussion_step F)\<^sup>*\<^sup>* d d'"
  shows "discussions_ok d'"
  using assms(2,1) by (induction rule: rtranclp_induct) (auto intro: discussion_step_ok)

text \<open>
  C35. The walk from a comment to its root returns as soon as it may take as many rounds as there are
  comments, and it adds its step to the comment and to exactly the comments above it.
\<close>

theorem ancestors_walk_returns:
  assumes "discussions_ok d" and "c \<in> set (db_comments d)" and "length (db_comments d) \<le> n"
  shows "ancestors_loop n step (cmt_id c) d = Some (d\<lparr>db_comments :=
     map (\<lambda>x. if (cmt_id c, cmt_id x) \<in> (replies (db_comments d))\<^sup>*
              then x\<lparr>cmt_children := (cmt_children x + step) mod 2 ^ 32, cmt_active := head_block_time d\<rparr> else x)
         (db_comments d)\<rparr>)"
proof -
  have f: "comment_forest (db_comments d)" using assms(1) by (simp add: discussions_ok_def)
  show ?thesis
    using ancestors_loop_walk[OF f assms(2), of n step] depth_below_length[OF f assms(2)] assms(3)
    by (simp add: touch_where_def touched_def upwards_def Image_singleton_iff)
qed

section \<open>An example\<close>

definition example_post :: "comment_object" where
  "example_post = new_comment_object\<lparr>cmt_id := 10, cmt_author := ''alice'', cmt_permlink := ''a'',
     cmt_last_update := 1000, cmt_created := 1000, cmt_active := 1000, cmt_max_cashout_time := 4294967295,
     cmt_reward_weight := 10000, cmt_parent_permlink := ''t'', cmt_category := ''t'', cmt_root_comment := 10,
     cmt_cashout_time := 605800, cmt_title := ''x'', cmt_body := ''y''\<rparr>"

definition example_reply :: "comment_object" where
  "example_reply = new_comment_object\<lparr>cmt_id := 11, cmt_author := ''bob'', cmt_permlink := ''b'',
     cmt_last_update := 1000, cmt_created := 1000, cmt_active := 1000, cmt_max_cashout_time := 4294967295,
     cmt_reward_weight := 10000, cmt_parent_author := ''alice'', cmt_parent_permlink := ''a'', cmt_depth := 1,
     cmt_category := ''t'', cmt_root_comment := 10, cmt_cashout_time := 605800, cmt_body := ''z''\<rparr>"

definition example_posted :: chain_db where
  "example_posted = example_db\<lparr>
     db_accounts := [(example_account 0 ''alice'' 1000 500 1000000)\<lparr>acc_last_root_post := 1000, acc_last_post := 1000, acc_post_count := 1\<rparr>,
       example_account 1 ''bob'' 1000 0 2000000, example_account 2 ''carol'' 0 0 3000000],
     db_next_id := (\<lambda>_. 10)(comment_object_type := 11), db_comments := [example_post]\<rparr>"

definition example_replied :: chain_db where
  "example_replied = example_posted\<lparr>
     db_accounts := [(example_account 0 ''alice'' 1000 500 1000000)\<lparr>acc_last_root_post := 1000, acc_last_post := 1000, acc_post_count := 1\<rparr>,
       (example_account 1 ''bob'' 1000 0 2000000)\<lparr>acc_last_post := 1000, acc_post_count := 1\<rparr>, example_account 2 ''carol'' 0 0 3000000],
     db_next_id := (\<lambda>_. 10)(comment_object_type := 12),
     db_comments := [example_post\<lparr>cmt_children := 1\<rparr>, example_reply]\<rparr>"

lemmas comment_eval = comment_do_apply_def post_comment_def initial_comment_def post_interval_ok_def post_weight_def
  validate_permlink_0_1_def permlink_char_def is_lower_letter_def is_digit_def MIN_PERMLINK_LENGTH_def MAX_PERMLINK_LENGTH_def
  get_account_def find_account_def find_comment_def get_comment_def get_comment_id_def c_str_def has_hardfork_def head_block_time_def
  modify_account_def create_comment_def tbl_emplace_def take_id_def touch_ancestors_def modify_comment_def
  MIN_ROOT_COMMENT_INTERVAL_def MIN_REPLY_INTERVAL_def MAX_COMMENT_DEPTH_def CASHOUT_WINDOW_SECONDS_def PERCENT_100_def
  new_comment_object_def

lemma example_post_step: "comment_do_apply fc_exact \<lparr>cm_parent_author = [], cm_parent_permlink = ''t'', cm_author = ''alice'',
   cm_permlink = ''a'', cm_title = ''x'', cm_body = ''y'', cm_json = []\<rparr> example_db = Some example_posted"
  by (simp add: comment_eval example_defs example_posted_def example_post_def fc_exact_def)

lemma example_reply_step: "comment_do_apply fc_exact \<lparr>cm_parent_author = ''alice'', cm_parent_permlink = ''a'', cm_author = ''bob'',
   cm_permlink = ''b'', cm_title = [], cm_body = ''z'', cm_json = []\<rparr> example_posted = Some example_replied"
  by (simp add: comment_eval example_defs example_posted_def example_replied_def example_post_def example_reply_def fc_exact_def numeral_2_eq_2)

lemma example_discussion: "discussions_ok example_db" "(discussion_step fc_exact)\<^sup>*\<^sup>* example_db example_replied"
proof -
  show "discussions_ok example_db"
    by (simp add: discussions_ok_def comment_forest_def children_exact_def example_defs)
  have "discussion_step fc_exact example_db example_posted"
    by (rule discussion_step.comment[OF _ example_post_step]) (simp add: example_defs)
  moreover have "discussion_step fc_exact example_posted example_replied"
    by (rule discussion_step.comment[OF _ example_reply_step]) (simp add: example_posted_def)
  ultimately show "(discussion_step fc_exact)\<^sup>*\<^sup>* example_db example_replied" by simp
qed

theorem discussion_forest_witness:
  "(discussion_step fc_exact)\<^sup>*\<^sup>* example_db example_replied \<and> discussions_ok example_replied \<and>
   map cmt_children (db_comments example_replied) = [1, 0]"
  using discussion_forest[OF example_discussion] example_discussion(2)
  by (simp add: example_replied_def example_post_def example_reply_def new_comment_object_def)

lemma example_replied_ok: "discussions_ok example_replied"
  using example_discussion(2,1) by (induction rule: rtranclp_induct) (auto intro: discussion_step_ok)

theorem ancestors_walk_returns_witness:
  "\<exists>d'. ancestors_loop 2 1 (cmt_id example_reply) example_replied = Some d' \<and> map cmt_id (db_comments d') = [10, 11]"
  using ancestors_walk_returns[OF example_replied_ok, of example_reply 2 1]
  by (simp add: example_replied_def example_post_def example_reply_def new_comment_object_def)

end
