(* ===== verification/Tally.thy ===== *)
theory Tally
  imports Discussions
begin

text \<open>
  The rewards behind comments.  Until a comment is paid its net reward is exactly the sum of the rewards of
  the votes on it, however often votes are changed; and the voting power of an account stays between zero
  and a hundred percent, so that the 16-bit field never wraps.
\<close>

section \<open>Scores and votes\<close>

definition score :: "comment_object \<Rightarrow> nat \<times> int \<times> time" where
  "score c = (cmt_id c, cmt_net_SCOREreward c, cmt_last_payout c)"

definition vote_key :: "comment_vote_object \<Rightarrow> nat \<times> nat" where
  "vote_key v = (cvo_comment v, cvo_voter v)"

definition vote_sum :: "nat \<Rightarrow> comment_vote_object list \<Rightarrow> int" where
  "vote_sum i vs = tsum (\<lambda>v. if cvo_comment v = i then cvo_SCOREreward v else 0) vs"

definition reward_tally :: "(nat \<times> int \<times> time) list \<Rightarrow> comment_vote_object list \<Rightarrow> nat \<Rightarrow> bool" where
  "reward_tally sc vs n \<longleftrightarrow> distinct (map fst sc) \<and> (\<forall>s \<in> set sc. fst s < n) \<and> distinct (map vote_key vs) \<and>
     (\<forall>v \<in> set vs. cvo_comment v < n) \<and>
     (\<forall>(i, net, paid) \<in> set sc. paid = 0 \<longrightarrow>
        net = vote_sum i vs \<and> (\<forall>v \<in> set vs. cvo_comment v = i \<longrightarrow> 0 \<le> cvo_num_changes v))"

definition tally_ok :: "chain_db \<Rightarrow> bool" where
  "tally_ok d \<longleftrightarrow> reward_tally (map score (db_comments d)) (db_comment_votes d) (db_next_id d comment_object_type)"

definition add_score :: "nat \<Rightarrow> int \<Rightarrow> nat \<times> int \<times> time \<Rightarrow> nat \<times> int \<times> time" where
  "add_score i r s = (case s of (j, net, paid) \<Rightarrow> (j, if j = i then net + r else net, paid))"

lemma fst_add_score [simp]: "fst (add_score i r s) = fst s"
  by (simp add: add_score_def split: prod.split)

lemma map_fst_add_score [simp]: "map (fst \<circ> add_score i r) sc = map fst sc"
  by (simp add: comp_def)

lemma vote_sum_none: "\<forall>v \<in> set vs. cvo_comment v \<noteq> i \<Longrightarrow> vote_sum i vs = 0"
  by (induction vs) (auto simp: vote_sum_def)

lemma tally_post: "reward_tally sc vs n \<Longrightarrow> reward_tally (sc @ [(n, 0, 0)]) vs (Suc n)"
proof -
  assume t: "reward_tally sc vs n"
  then have "\<forall>v \<in> set vs. cvo_comment v \<noteq> n" by (auto simp: reward_tally_def)
  then have "vote_sum n vs = 0" by (simp add: vote_sum_none)
  then show ?thesis using t by (force simp: reward_tally_def)
qed

lemma vote_sum_filter: "i \<noteq> j \<Longrightarrow> vote_sum i (filter (\<lambda>v. cvo_comment v \<noteq> j) vs) = vote_sum i vs"
  by (induction vs) (auto simp: vote_sum_def)

lemma tally_delete:
  assumes "reward_tally sc vs n" "set sc' \<subseteq> {s \<in> set sc. fst s \<noteq> i}" "distinct (map fst sc')"
  shows "reward_tally sc' (filter (\<lambda>v. cvo_comment v \<noteq> i) vs) n"
  using assms vote_sum_filter[of _ i vs] by (fastforce simp: reward_tally_def distinct_map_filter)

lemma tally_add:
  assumes t: "reward_tally sc vs n" and v: "vote_key v \<notin> vote_key ` set vs" "cvo_comment v < n" "0 \<le> cvo_num_changes v"
  shows "reward_tally (map (add_score (cvo_comment v) (cvo_SCOREreward v)) sc) (vs @ [v]) n"
proof -
  have "vote_sum i (vs @ [v]) = vote_sum i vs + (if cvo_comment v = i then cvo_SCOREreward v else 0)" for i
    by (simp add: vote_sum_def)
  then show ?thesis using assms by (fastforce simp: reward_tally_def add_score_def)
qed

text \<open>A vote replaced by another of the same voter.\<close>

lemma tally_change:
  assumes t: "reward_tally sc vs n" and m: "tbl_modify P k vs = Some ws" and v: "List.find P vs = Some v" "k v = Some w"
    and w: "vote_key w = vote_key v" "cvo_num_changes v \<le> cvo_num_changes w"
  shows "reward_tally (map (add_score (cvo_comment v) (cvo_SCOREreward w - cvo_SCOREreward v)) sc) ws n"
proof -
  have c: "cvo_comment w = cvo_comment v" using w(1) by (simp add: vote_key_def)
  have vw: "v \<in> set vs" using find_Some_P[OF v(1)] by simp
  have sub: "set ws \<subseteq> insert w (set vs)" and key: "map vote_key ws = map vote_key vs"
    using m v w(1) by (auto elim!: tbl_modify_split)
  have sum: "vote_sum i ws = vote_sum i vs + (if cvo_comment v = i then cvo_SCOREreward w - cvo_SCOREreward v else 0)" for i
    unfolding vote_sum_def using tsum_modify_find[OF m v, of "\<lambda>v. if cvo_comment v = i then cvo_SCOREreward v else 0"] c by simp
  have "0 \<le> cvo_num_changes x" if "(i, net, 0) \<in> set sc" "x \<in> set ws" "cvo_comment x = i" for i net x
    using that t sub vw c w(2) by (fastforce simp: reward_tally_def)
  moreover have "\<forall>x \<in> set ws. cvo_comment x < n" using t sub vw c by (auto simp: reward_tally_def)
  ultimately show ?thesis using t sum key by (fastforce simp: reward_tally_def add_score_def)
qed

lemma add_score_zero [simp]: "add_score i 0 s = s"
  by (simp add: add_score_def split: prod.split)

lemma map_add_score_zero [simp]: "map (add_score i 0) sc = sc"
  by (simp add: map_idI)

text \<open>Forgotten votes belong to comments that were paid.\<close>

lemma tally_forget:
  assumes t: "reward_tally sc vs n" and v: "List.find P vs = Some v" "cvo_num_changes v = - 1"
  shows "reward_tally sc (tbl_remove P vs) n"
proof -
  have vs: "v \<in> set vs" using find_Some_P[OF v(1)] by simp
  have "cvo_comment v \<noteq> i" if "(i, net, 0) \<in> set sc" for i net
    using that t vs v(2) by (fastforce simp: reward_tally_def)
  moreover have "vote_sum i (tbl_remove P vs) = vote_sum i vs - (if cvo_comment v = i then cvo_SCOREreward v else 0)" for i
    unfolding vote_sum_def by (rule tsum_remove[OF v(1)])
  ultimately show ?thesis
    using t set_tbl_remove[of P vs] distinct_map_tbl_remove[of vote_key vs P] by (fastforce simp: reward_tally_def)
qed

section \<open>Steps on rows\<close>

lemma modify_comment_score:
  assumes m: "modify_comment i f d = Some d'" and dist: "distinct (map fst (map score (db_comments d)))"
    and f: "\<And>x y. f x = Some y \<Longrightarrow> score y = add_score (cmt_id x) r (score x)"
  shows "map score (db_comments d') = map (add_score i r) (map score (db_comments d))"
    "db_comment_votes d' = db_comment_votes d" "db_next_id d' = db_next_id d" "db_accounts d' = db_accounts d"
proof -
  obtain xs where xs: "tbl_modify (\<lambda>c. cmt_id c = i) f (db_comments d) = Some xs" "d' = d\<lparr>db_comments := xs\<rparr>"
    using m by (auto simp: modify_comment_def opt_simps)
  have skip: "add_score i r (score u) = score u" if "cmt_id u \<noteq> i" for u
    using that by (simp add: add_score_def score_def)
  from xs(1) show "map score (db_comments d') = map (add_score i r) (map score (db_comments d))"
  proof (rule tbl_modify_split)
    fix us x y vs
    assume sp: "db_comments d = us @ x # vs" "xs = us @ y # vs" "f x = Some y" "cmt_id x = i"
    have "cmt_id u \<noteq> i" if "u \<in> set us \<union> set vs" for u
      using dist sp(1,4) that by (auto simp: score_def) (metis imageI)+
    then show ?thesis using sp xs(2) f[OF sp(3)] skip by simp
  qed
qed (use m in \<open>auto simp: modify_comment_def opt_simps\<close>)

lemma tally_distinct: "tally_ok d \<Longrightarrow> distinct (map fst (map score (db_comments d)))"
  by (simp add: tally_ok_def reward_tally_def)

lemma same_score_add: "same_score x y \<Longrightarrow> score y = add_score (cmt_id x) 0 (score x)"
  by (auto simp: score_def same_score_def same_post_def dest: shape_eqD(1))

lemma same_post_add:
  "same_post x y \<Longrightarrow> cmt_net_SCOREreward y = cmt_net_SCOREreward x + r \<Longrightarrow> score y = add_score (cmt_id x) r (score x)"
  by (auto simp: score_def add_score_def same_post_def dest: shape_eqD(1))

text \<open>Everything but the scores stays.\<close>

definition rows_kept :: "chain_db \<Rightarrow> chain_db \<Rightarrow> bool" where
  "rows_kept d d' \<longleftrightarrow> db_comment_votes d' = db_comment_votes d \<and>
     db_next_id d' comment_object_type = db_next_id d comment_object_type"

definition score_frame :: "chain_db \<Rightarrow> chain_db \<Rightarrow> bool" where
  "score_frame d d' \<longleftrightarrow> map score (db_comments d') = map score (db_comments d) \<and> rows_kept d d'"

lemma score_frame_ok: "score_frame d d' \<Longrightarrow> tally_ok d \<Longrightarrow> tally_ok d'"
  by (simp add: score_frame_def rows_kept_def tally_ok_def)

lemma score_frame_trans [trans]: "score_frame a b \<Longrightarrow> score_frame b c \<Longrightarrow> score_frame a c"
  by (simp add: score_frame_def rows_kept_def)

lemma score_frame_refl [simp]: "score_frame d d" by (simp add: score_frame_def rows_kept_def)

lemma modify_comment_score_frame:
  assumes "modify_comment i f d = Some d'" "\<And>x y. f x = Some y \<Longrightarrow> score y = score x"
  shows "score_frame d d'"
proof -
  obtain xs where xs: "tbl_modify (\<lambda>c. cmt_id c = i) f (db_comments d) = Some xs" "d' = d\<lparr>db_comments := xs\<rparr>"
    using assms(1) by (auto simp: modify_comment_def opt_simps)
  show ?thesis using map_key_modify[OF xs(1), of score] assms(2) xs(2) by (simp add: score_frame_def rows_kept_def)
qed

lemma ancestors_loop_score: "ancestors_loop n step i d = Some d' \<Longrightarrow> score_frame d d'"
proof (induction n arbitrary: i d)
  case (Suc n)
  from Suc.prems obtain d1 and p :: comment_object where m: "modify_comment i (\<lambda>p. Some (p\<lparr>cmt_children := (cmt_children p + step) mod 2 ^ 32,
             cmt_active := head_block_time d\<rparr>)) d = Some d1"
    and run: "(if cmt_parent_author p \<noteq> [] then do {
       q \<leftarrow> get_comment (cmt_parent_author p) (cmt_parent_permlink p) d1;
       ancestors_loop n step (cmt_id q) d1 } else Some d1) = Some d'"
    unfolding ancestors_loop.simps by (simp only: bind_Some_iff) (elim exE conjE, rule that, assumption+)
  have "score_frame d d1" by (rule modify_comment_score_frame[OF m]) (auto simp: score_def)
  moreover have "score_frame d1 d'" using run Suc.IH by (auto simp: bind_Some_iff split: if_splits)
  ultimately show ?case by (rule score_frame_trans)
qed simp

section \<open>The operations\<close>

lemma edit_comment_score:
  assumes "edit_comment F op parent c d = Some d'"
  shows "score_frame d d'"
proof -
  obtain f where m: "modify_comment (cmt_id c) f d = Some d'" and f: "\<And>x y. f x = Some y \<Longrightarrow> score y = score x"
    using assms unfolding edit_comment_def
    apply (simp only: bind_Some_iff)
    apply (elim exE conjE)
    apply (rule that, assumption)
    apply (auto simp: Let_def opt_simps score_def split: option.splits if_splits)
    done
  show ?thesis using modify_comment_score_frame[OF m f] by simp
qed

lemma comment_score:
  assumes t: "tally_ok d" and ap: "comment_do_apply F op d = Some d'"
  shows "tally_ok d'"
proof -
  obtain parent auth where
    run: "(case find_comment (cm_author op) (cm_permlink op) d of
       None \<Rightarrow> post_comment F op auth parent d | Some comment \<Rightarrow> edit_comment F op parent comment d) = Some d'"
    using ap unfolding comment_do_apply_def
    by (simp only: bind_Some_iff) (elim exE conjE, rule that, assumption+)
  show ?thesis
  proof (cases "find_comment (cm_author op) (cm_permlink op) d")
    case None
    then have "post_comment F op auth parent d = Some d'" using run by simp
    then obtain f d1 w com d2 where m: "modify_account (cm_author op) f d = Some d1"
      and init: "initial_comment F op parent w d1 = Some com" and cr: "create_comment com d1 = Some d2"
      and last: "(case parent of None \<Rightarrow> Some d2 | Some p \<Rightarrow> touch_ancestors 1 (cmt_id p) d2) = Some d'"
      by (rule post_commentE)
    note m = modify_account_comments[OF m] and com = initial_comment_fields[OF init]
    have "db_comments d2 = db_comments d @ [com]" "db_comment_votes d2 = db_comment_votes d"
      "db_next_id d2 comment_object_type = Suc (cmt_id com)" "score com = (db_next_id d comment_object_type, 0, 0)"
      using cr m com by (auto simp: create_comment_def take_id_def score_def opt_simps)
    then have "tally_ok d2" using tally_post t m com by (simp add: tally_ok_def)
    moreover have "score_frame d2 d'"
      using last ancestors_loop_score by (auto simp: touch_ancestors_def split: option.splits)
    ultimately show ?thesis using score_frame_ok by blast
  next
    case (Some c)
    then have "edit_comment F op parent c d = Some d'" using run by simp
    then show ?thesis using edit_comment_score score_frame_ok[OF _ t] by blast
  qed
qed

lemma remove_key: "distinct (map k xs) \<Longrightarrow> y \<in> set (tbl_remove (\<lambda>x. k x = i) xs) \<Longrightarrow> k y \<noteq> i"
  by (induction xs) (auto split: if_splits, metis imageI)

lemma deleteComment_score:
  assumes t: "tally_ok d" and ap: "deleteComment_do_apply F op d = Some d'"
  shows "tally_ok d'"
proof -
  let ?d1 = "\<lambda>c. d\<lparr>db_comment_votes := filter (\<lambda>v. cvo_comment v \<noteq> cmt_id c) (db_comment_votes d)\<rparr>"
  obtain c where c: "get_comment (dc_author op) (dc_permlink op) d = Some c"
    and run: "(if cmt_net_SCOREreward c > 0 then Some d
     else do {
       let d1 = ?d1 c;
       d2 \<leftarrow> (if has_hardfork 6 d1 \<and> cmt_parent_author c \<noteq> [] then do {
                parent \<leftarrow> get_comment (cmt_parent_author c) (cmt_parent_permlink c) d1;
                touch_ancestors (- 1) (cmt_id parent) d1 }
              else Some d1);
       Some (remove_comment (cmt_id c) d2) }) = Some d'"
    using ap unfolding deleteComment_do_apply_def
    by (simp only: bind_Some_iff) (elim exE conjE, rule that, assumption, assumption)
  show ?thesis
  proof (cases "cmt_net_SCOREreward c > 0")
    case True
    then show ?thesis using run t by simp
  next
    case False
    then obtain d2 where d2: "(if has_hardfork 6 (?d1 c) \<and> cmt_parent_author c \<noteq> [] then do {
                parent \<leftarrow> get_comment (cmt_parent_author c) (cmt_parent_permlink c) (?d1 c);
                touch_ancestors (- 1) (cmt_id parent) (?d1 c) } else Some (?d1 c)) = Some d2" "d' = remove_comment (cmt_id c) d2"
      using run by (auto simp: Let_def bind_Some_iff)
    have fr: "score_frame (?d1 c) d2"
      using d2(1) ancestors_loop_score by (auto simp: touch_ancestors_def bind_Some_iff split: if_splits)
    have sc: "map score (db_comments d2) = map score (db_comments d)" "db_comment_votes d2 = db_comment_votes (?d1 c)"
      "db_next_id d2 comment_object_type = db_next_id d comment_object_type"
      using fr by (simp_all add: score_frame_def rows_kept_def)
    let ?ys = "tbl_remove (\<lambda>x. cmt_id x = cmt_id c) (db_comments d2)"
    have dist: "distinct (map cmt_id (db_comments d2))"
      using tally_distinct[OF t] unfolding sc(1)[symmetric] by (simp add: comp_def score_def)
    have "set (map score ?ys) \<subseteq> set (map score (db_comments d2))" unfolding set_map by (intro image_mono set_tbl_remove)
    then have "set (map score ?ys) \<subseteq> {s \<in> set (map score (db_comments d)). fst s \<noteq> cmt_id c}"
      unfolding sc(1) using remove_key[OF dist, of _ "cmt_id c"] by (auto simp: score_def)
    moreover have "distinct (map fst (map score ?ys))"
      using distinct_map_tbl_remove[OF dist] by (simp add: comp_def score_def)
    ultimately show ?thesis
      using tally_delete[of "map score (db_comments d)"] t sc d2(2) by (simp add: tally_ok_def remove_comment_def)
  qed
qed

lemma comment_options_score:
  assumes "comment_options_do_apply op d = Some d'"
  shows "score_frame d d'"
proof -
  have ext: "visit_extensions es i d = Some d' \<Longrightarrow> score_frame d d'" for es i d
  proof (induction es arbitrary: d)
    case (Cons e es)
    from Cons.prems obtain d1 where d1: "modify_comment i (add_beneficiaries e d) d = Some d1" "visit_extensions es i d1 = Some d'"
      by (auto simp: opt_simps)
    have "score_frame d d1"
      by (rule modify_comment_score_frame[OF d1(1)]) (auto dest!: add_beneficiaries_fields simp: score_def)
    also note Cons.IH[OF d1(2)]
    finally show ?case .
  qed simp
  obtain c :: comment_object and d1 where d1: "modify_comment (cmt_id c) (\<lambda>c. Some (c\<lparr>cmt_max_accepted_payout := co_max_accepted_payout op,
        cmt_percent_TSD := co_percent_TSD op, cmt_allow_votes := co_allow_votes op,
        cmt_allow_curationRewards := co_allow_curationRewards op\<rparr>)) d = Some d1"
    "visit_extensions (co_extensions op) (cmt_id c) d1 = Some d'"
    using assms unfolding comment_options_do_apply_def
    by (simp only: bind_Some_iff) (elim exE conjE, rule that, assumption+)
  have "score_frame d d1" by (rule modify_comment_score_frame[OF d1(1)]) (auto simp: score_def)
  also note ext[OF d1(2)]
  finally show ?thesis .
qed

text \<open>Votes.\<close>

lemma spend_power_score:
  assumes "spend_power n cur used d = Some d'"
  shows "score_frame d d'"
  using modify_account_comments[OF assms[unfolded spend_power_def]] by (simp add: score_frame_def rows_kept_def)

lemma update_reward2_score:
  assumes "update_reward2 F n i d = Some d'"
  shows "score_frame d d'"
  using update_reward2_comments[OF assms] by (simp add: score_frame_def rows_kept_def)

lemma modify_comment_same_score:
  assumes "modify_comment i f d = Some d'" "\<And>x y. f x = Some y \<Longrightarrow> same_score x y"
  shows "score_frame d d'"
  by (rule modify_comment_score_frame[OF assms(1)]) (use same_score_add[OF assms(2)] in simp)

lemma create_comment_vote_tally:
  assumes "create_comment_vote v d = Some d'"
  shows "\<exists>i. db_comment_votes d' = db_comment_votes d @ [v\<lparr>cvo_id := i\<rparr>]" "vote_key v \<notin> vote_key ` set (db_comment_votes d)"
    "db_comments d' = db_comments d" "db_next_id d' comment_object_type = db_next_id d comment_object_type"
  using assms by (auto simp: create_comment_vote_def take_id_def vote_key_def opt_simps)

lemma get_comment_tally: "tally_ok d \<Longrightarrow> get_comment a l d = Some c \<Longrightarrow> cmt_id c < db_next_id d comment_object_type"
  using get_comment_mem[of a l d c] by (force simp: tally_ok_def reward_tally_def score_def)

context fc_safe begin

lemma new_vote_tally:
  assumes t: "tally_ok d" and c: "cmt_id c < db_next_id d comment_object_type"
    and ap: "new_vote F op cur used r voter c d = Some d'"
  shows "tally_ok d'"
  using ap
proof (rule new_voteE)
  fix d1 d2 d3 d4 d5 f g h v
  assume st: "spend_power (vt_voter op) cur used d = Some d1" "modify_comment (cmt_id c) f d1 = Some d2"
    and f: "\<And>x y. f x = Some y \<Longrightarrow> same_post x y \<and> safe_add F (cmt_net_SCOREreward x) (signed_reward op r) = Some (cmt_net_SCOREreward y)"
    and g: "modify_comment (cmt_root_comment c) g d2 = Some d3" "\<And>x y. g x = Some y \<Longrightarrow> same_score x y"
    and v: "create_comment_vote v d3 = Some d4" "cvo_comment v = cmt_id c" "cvo_SCOREreward v = signed_reward op r" "cvo_num_changes v = 0"
    and h: "d5 = d4 \<or> modify_comment (cmt_id c) h d4 = Some d5" "\<And>x y. h x = Some y \<Longrightarrow> same_score x y"
    and u: "update_reward2 F (cmt_net_SCOREreward c) (cmt_id c) d5 = Some d'"
  have fr1: "score_frame d d1" by (rule spend_power_score[OF st(1)])
  have t1: "tally_ok d1" using score_frame_ok[OF fr1 t] .
  have fs: "score y = add_score (cmt_id x) (signed_reward op r) (score x)" if "f x = Some y" for x y
    by (rule same_post_add) (use f[OF that] safe_add_SomeD in blast)+
  have sc2: "map score (db_comments d2) = map (add_score (cmt_id c) (signed_reward op r)) (map score (db_comments d1))"
    and r2: "db_comment_votes d2 = db_comment_votes d1" "db_next_id d2 = db_next_id d1"
    using modify_comment_score[OF st(2) tally_distinct[OF t1] fs] by blast+
  have fr3: "score_frame d2 d3" by (rule modify_comment_same_score[OF g])
  obtain i where i: "db_comment_votes d4 = db_comment_votes d1 @ [v\<lparr>cvo_id := i\<rparr>]"
    using create_comment_vote_tally(1)[OF v(1)] fr3 r2 by (auto simp: score_frame_def rows_kept_def)
  have key: "vote_key (v\<lparr>cvo_id := i\<rparr>) \<notin> vote_key ` set (db_comment_votes d1)"
    using create_comment_vote_tally(2)[OF v(1)] fr3 r2 by (simp add: score_frame_def rows_kept_def vote_key_def)
  have "cmt_id c < db_next_id d1 comment_object_type" using c fr1 by (simp add: score_frame_def rows_kept_def)
  then have "tally_ok d4"
    using tally_add[OF t1[unfolded tally_ok_def] key] v fr3 r2 sc2 i create_comment_vote_tally(3,4)[OF v(1)]
    by (simp add: tally_ok_def score_frame_def rows_kept_def)
  moreover have "score_frame d4 d5" using h modify_comment_same_score by (metis score_frame_refl)
  ultimately show ?thesis using update_reward2_score[OF u] score_frame_ok by blast
qed

lemma change_vote_tally:
  assumes t: "tally_ok d" and v: "find_comment_vote (cmt_id c) (acc_id voter) d = Some v"
    and ap: "change_vote F op cur used r voter c v d = Some d'"
  shows "tally_ok d'"
  using ap
proof (rule change_voteE)
  fix d1 d2 d3 d4 d5 f g h k
  assume st: "spend_power (vt_voter op) cur used d = Some d1" "modify_comment (cmt_id c) f d1 = Some d2"
    and f: "\<And>x y. f x = Some y \<Longrightarrow> same_post x y \<and> (\<exists>n. safe_sub F (cmt_net_SCOREreward x) (cvo_SCOREreward v) = Some n
       \<and> safe_add F n (signed_reward op r) = Some (cmt_net_SCOREreward y))"
    and g: "modify_comment (cmt_root_comment c) g d2 = Some d3" "\<And>x y. g x = Some y \<Longrightarrow> same_score x y"
    and h: "modify_comment (cmt_id c) h d3 = Some d4" "\<And>x y. h x = Some y \<Longrightarrow> same_score x y"
    and k: "modify_comment_vote (cmt_id c) (acc_id voter) k d4 = Some d5"
      "\<And>x y. k x = Some y \<Longrightarrow> cvo_comment y = cvo_comment x \<and> cvo_voter y = cvo_voter x
       \<and> cvo_SCOREreward y = signed_reward op r \<and> cvo_num_changes y = cvo_num_changes x + 1"
    and u: "update_reward2 F (cmt_net_SCOREreward c) (cmt_id c) d5 = Some d'"
  let ?P = "\<lambda>x. cvo_comment x = cmt_id c \<and> cvo_voter x = acc_id voter"
  have fr1: "score_frame d d1" by (rule spend_power_score[OF st(1)])
  have t1: "tally_ok d1" using score_frame_ok[OF fr1 t] .
  have fs: "score y = add_score (cmt_id x) (signed_reward op r - cvo_SCOREreward v) (score x)" if xy: "f x = Some y" for x y
  proof -
    obtain n where n: "same_post x y" "safe_sub F (cmt_net_SCOREreward x) (cvo_SCOREreward v) = Some n"
      "safe_add F n (signed_reward op r) = Some (cmt_net_SCOREreward y)" using f[OF xy] by blast
    then have "cmt_net_SCOREreward y = cmt_net_SCOREreward x + (signed_reward op r - cvo_SCOREreward v)"
      using safe_add_SomeD[OF n(3)] safe_sub_SomeD[OF n(2)] by simp
    then show ?thesis using same_post_add[OF n(1)] by blast
  qed
  have sc2: "map score (db_comments d2) = map (add_score (cmt_id c) (signed_reward op r - cvo_SCOREreward v)) (map score (db_comments d1))"
    and r2: "db_comment_votes d2 = db_comment_votes d1" "db_next_id d2 = db_next_id d1"
    using modify_comment_score[OF st(2) tally_distinct[OF t1] fs] by blast+
  have fr4: "score_frame d2 d4" using score_frame_trans[OF modify_comment_same_score[OF g] modify_comment_same_score[OF h]] .
  obtain vs where vs: "tbl_modify ?P k (db_comment_votes d1) = Some vs" "d5 = d4\<lparr>db_comment_votes := vs\<rparr>"
    using k(1) fr4 r2 by (auto simp: modify_comment_vote_def score_frame_def rows_kept_def opt_simps)
  have fv: "List.find ?P (db_comment_votes d1) = Some v"
    using v fr1 by (simp add: find_comment_vote_def score_frame_def rows_kept_def)
  then obtain w where w: "k v = Some w" using vs(1) tbl_modify_Some_iff[of ?P k "db_comment_votes d1"] by auto
  have cv: "cvo_comment v = cmt_id c" using find_Some_P[OF fv] by simp
  have "reward_tally (map (add_score (cmt_id c) (signed_reward op r - cvo_SCOREreward v)) (map score (db_comments d1))) vs (db_next_id d1 comment_object_type)"
    using tally_change[OF t1[unfolded tally_ok_def] vs(1) fv w] k(2)[OF w] cv by (simp add: vote_key_def)
  then have "tally_ok d5" using vs(2) fr4 sc2 r2 by (simp add: tally_ok_def score_frame_def rows_kept_def)
  then show ?thesis using update_reward2_score[OF u] score_frame_ok by blast
qed

lemma vote_do_apply_tally:
  assumes t: "tally_ok d" and ap: "vote_do_apply F op d = Some d'"
  shows "tally_ok d'"
  using ap
proof (cases rule: vote_do_applyE)
  case (1 c voter)
  note lt = get_comment_tally[OF t 1(1)]
  show ?thesis
  proof (cases "find_comment_vote (cmt_id c) (acc_id voter) d")
    case None
    then obtain v where v: "create_comment_vote v d = Some d'" "cvo_comment v = cmt_id c" "cvo_SCOREreward v = 0" "cvo_num_changes v = 0"
      using 1(3) by (auto simp: record_vote_def)
    obtain i where i: "db_comment_votes d' = db_comment_votes d @ [v\<lparr>cvo_id := i\<rparr>]" using create_comment_vote_tally(1)[OF v(1)] by blast
    show ?thesis
      using tally_add[OF t[unfolded tally_ok_def], of "v\<lparr>cvo_id := i\<rparr>"] v lt i create_comment_vote_tally(2,3,4)[OF v(1)]
      by (simp add: tally_ok_def vote_key_def comp_def)
  next
    case (Some v)
    then obtain vs where vs: "tbl_modify (\<lambda>x. cvo_comment x = cmt_id c \<and> cvo_voter x = acc_id voter)
        (\<lambda>v. Some (v\<lparr>cvo_vote_percent := vt_weight op, cvo_last_update := head_block_time d\<rparr>)) (db_comment_votes d) = Some vs"
      "d' = d\<lparr>db_comment_votes := vs\<rparr>"
      using 1(3) by (auto simp: record_vote_def modify_comment_vote_def bind_Some_iff)
    show ?thesis
      using tally_change[OF t[unfolded tally_ok_def] vs(1) Some[unfolded find_comment_vote_def] refl] vs(2)
      by (simp add: tally_ok_def vote_key_def comp_def)
  qed
next
  case (2 c voter cur used r)
  then show ?thesis using new_vote_tally[OF t get_comment_tally[OF t 2(1)]] by blast
next
  case (3 c voter cur used r v)
  have "tally_ok (remove_comment_vote (cmt_id c) (acc_id voter) d)"
    using tally_forget[OF t[unfolded tally_ok_def] 3(4)[unfolded find_comment_vote_def] 3(5)]
    by (simp add: tally_ok_def remove_comment_vote_def)
  moreover have "cmt_id c < db_next_id (remove_comment_vote (cmt_id c) (acc_id voter) d) comment_object_type"
    using get_comment_tally[OF t 3(1)] by (simp add: remove_comment_vote_def)
  ultimately show ?thesis using new_vote_tally 3(7) by blast
next
  case (4 c voter cur used r v)
  then show ?thesis using change_vote_tally[OF t 4(4)] by blast
qed

lemma discussion_step_tally: "discussion_step F d d' \<Longrightarrow> tally_ok d \<Longrightarrow> tally_ok d'"
proof (induction rule: discussion_step.induct)
  case (produce d g)
  then show ?case by (simp add: tally_ok_def)
qed (auto intro: comment_score deleteComment_score score_frame_ok[OF comment_options_score] vote_do_apply_tally)

end

text \<open>
  C36. Until a comment is paid its net reward is the sum of the rewards of the votes on it, and every account
  has at most one vote on it, through every sequence of posts, edits, deletions, options, votes and changed
  votes.
\<close>

theorem rewards_tally:
  assumes "fc_safe F" and "tally_ok d" and "(discussion_step F)\<^sup>*\<^sup>* d d'"
  shows "tally_ok d'"
  using assms(3,2) by (induction rule: rtranclp_induct) (auto intro: fc_safe.discussion_step_tally[OF assms(1)])

section \<open>Voting power\<close>

definition power_ok :: "account_object \<Rightarrow> bool" where
  "power_ok a \<longleftrightarrow> 0 \<le> acc_voting_power a \<and> acc_voting_power a \<le> PERCENT_100"

lemma vote_power_range:
  assumes "vote_power F w voter d = Some (cur, used)"
  shows "0 \<le> used" "used \<le> cur" "cur \<le> PERCENT_100" "0 < cur"
proof -
  let ?den = "(gpo_vote_power_reserve_rate (db_gpo d) * VOTE_REGENERATION_SECONDS) mod 2 ^ 32 div (60 * 60 * 24)"
  let ?cur = "min (acc_voting_power voter + (PERCENT_100 * secs_diff F (head_block_time d) (acc_last_vote_time voter)) sdiv
      VOTE_REGENERATION_SECONDS) PERCENT_100"
  obtain x y z us where st: "FC_ASSERT (?cur > 0) = Some x" "FC_ASSERT (?den > 0) = Some y"
    "(if \<not> has_hardfork 14 d then do { FC_ASSERT (?den = 200); Some ((?cur * \<bar>w\<bar>) div PERCENT_100 div ?den + 1) }
      else Some (((?cur * \<bar>w\<bar>) div PERCENT_100 + ?den - 1) div ?den)) = Some us"
    "FC_ASSERT (us \<le> ?cur) = Some z" "Some (?cur, us) = Some (cur, used)"
    using assms unfolding vote_power_def Let_def
    by (simp only: bind_Some_iff) (elim exE conjE, rule that, assumption+)
  have eq: "cur = ?cur" "used = us" using st(5) by simp_all
  have run: "0 < cur" "cur \<le> PERCENT_100" "used \<le> cur" "0 < ?den"
    using st(1,2,4) unfolding eq FC_ASSERT_Some by simp_all
  have u: "used = (cur * \<bar>w\<bar>) div PERCENT_100 div ?den + 1 \<or> used = ((cur * \<bar>w\<bar>) div PERCENT_100 + ?den - 1) div ?den"
    using st(3) unfolding eq by (cases "has_hardfork 14 d") (simp_all only: bind_Some_iff not_True_eq_False not_False_eq_True if_True if_False option.inject, blast+)
  have "0 \<le> (cur * \<bar>w\<bar>) div PERCENT_100" using run(1) by (simp add: PERCENT_100_def pos_imp_zdiv_nonneg_iff)
  then show "0 \<le> used" using u run(4) by (elim disjE) (simp_all add: pos_imp_zdiv_nonneg_iff)
  show "used \<le> cur" "cur \<le> PERCENT_100" "0 < cur" using run by auto
qed

lemma spend_power_ok:
  assumes "spend_power n cur used d = Some d'" "0 \<le> used" "used \<le> cur" "cur \<le> PERCENT_100" "list_all power_ok (db_accounts d)"
  shows "list_all power_ok (db_accounts d')"
proof -
  obtain xs where xs: "tbl_modify (\<lambda>a. acc_name a = n) (\<lambda>a. Some (a\<lparr>acc_voting_power := (cur - used) mod 2 ^ 16,
      acc_last_vote_time := head_block_time d\<rparr>)) (db_accounts d) = Some xs" "d' = d\<lparr>db_accounts := xs\<rparr>"
    using assms(1) unfolding spend_power_def modify_account_def by (auto simp: bind_Some_iff)
  have "(cur - used) mod 2 ^ 16 = cur - used" using assms(2-4) by (simp add: PERCENT_100_def)
  then show ?thesis using xs assms(2-5) by (auto elim!: tbl_modify_split simp: list_all_iff power_ok_def)
qed

lemma comment_rows_accounts:
  "modify_comment i f d = Some d' \<Longrightarrow> db_accounts d' = db_accounts d"
  "create_comment_vote v d = Some d' \<Longrightarrow> db_accounts d' = db_accounts d"
  "modify_comment_vote c u k d = Some d' \<Longrightarrow> db_accounts d' = db_accounts d"
  "db_accounts (remove_comment_vote c u d) = db_accounts d"
  by (auto simp: modify_comment_def create_comment_vote_def modify_comment_vote_def remove_comment_vote_def take_id_def opt_simps)

lemma new_vote_accounts:
  assumes "new_vote F op cur used r voter c d = Some d'"
  shows "\<exists>d1. spend_power (vt_voter op) cur used d = Some d1 \<and> db_accounts d' = db_accounts d1"
  using assms by (elim new_voteE) (auto dest!: comment_rows_accounts(1,2) update_reward2_comments(4))

lemma change_vote_accounts:
  assumes "change_vote F op cur used r voter c v d = Some d'"
  shows "\<exists>d1. spend_power (vt_voter op) cur used d = Some d1 \<and> db_accounts d' = db_accounts d1"
  using assms by (elim change_voteE) (auto dest!: comment_rows_accounts(1,3) update_reward2_comments(4))

text \<open>
  C37. A vote keeps the voting power of every account between zero and a hundred percent: what it uses is
  never more than what the voter has, on every hardfork, and the 16-bit field does not wrap.
\<close>

theorem voting_power_bounded:
  assumes "vote_do_apply F op d = Some d'" and "list_all power_ok (db_accounts d)"
  shows "list_all power_ok (db_accounts d')"
  using assms(1)
proof (cases rule: vote_do_applyE)
  case (1 c voter)
  then have "db_accounts d' = db_accounts d"
    by (auto simp: record_vote_def split: option.splits dest: comment_rows_accounts(1-3))
  then show ?thesis using assms(2) by simp
next
  case (2 c voter cur used r)
  then show ?thesis using new_vote_accounts[OF 2(5)] spend_power_ok[OF _ vote_power_range(1-3)[OF 2(3)] assms(2)] by auto
next
  case (3 c voter cur used r v)
  then show ?thesis
    using new_vote_accounts[OF 3(7)] spend_power_ok[OF _ vote_power_range(1-3)[OF 3(3)]] assms(2)
    by (auto simp: comment_rows_accounts(4))
next
  case (4 c voter cur used r v)
  then show ?thesis using change_vote_accounts[OF 4(6)] spend_power_ok[OF _ vote_power_range(1-3)[OF 4(3)] assms(2)] by auto
qed

section \<open>An example\<close>

definition example_downvote :: vote_operation where
  "example_downvote = \<lparr>vt_voter = ''carol'', vt_author = ''alice'', vt_permlink = ''a'', vt_weight = - 10000\<rparr>"

definition example_carol :: account_object where
  "example_carol = example_account 2 ''carol'' 0 0 3000000"

definition example_target :: comment_object where
  "example_target = example_post\<lparr>cmt_children := 1\<rparr>"

definition example_spent :: chain_db where
  "example_spent = example_replied\<lparr>
     db_accounts := [(example_account 0 ''alice'' 1000 500 1000000)\<lparr>acc_last_root_post := 1000, acc_last_post := 1000, acc_post_count := 1\<rparr>,
       (example_account 1 ''bob'' 1000 0 2000000)\<lparr>acc_last_post := 1000, acc_post_count := 1\<rparr>,
       example_carol\<lparr>acc_voting_power := 9916, acc_last_vote_time := 1000\<rparr>]\<rparr>"

definition example_downvoted :: chain_db where
  "example_downvoted = example_spent\<lparr>
     db_next_id := (\<lambda>_. 10)(comment_object_type := 12, comment_vote_object_type := 11),
     db_comments := [example_target\<lparr>cmt_net_SCOREreward := - 25200, cmt_abs_SCOREreward := 25200,
        cmt_net_votes := - 1, cmt_children_abs_SCOREreward := 25200\<rparr>, example_reply],
     db_comment_votes := [\<lparr>cvo_id = 10, cvo_voter = 2, cvo_comment = 10, cvo_weight = 0, cvo_SCOREreward = - 25200,
        cvo_vote_percent = - 10000, cvo_last_update = 1000, cvo_num_changes = 0\<rparr>]\<rparr>"

lemmas example_discussion_defs = example_replied_def example_posted_def example_post_def example_reply_def
  new_comment_object_def example_defs

lemma example_downvote_reads:
  "get_comment ''alice'' ''a'' example_replied = Some example_target" "get_account ''carol'' example_replied = Some example_carol"
  "find_comment_vote (cmt_id example_target) (acc_id example_carol) example_replied = None"
  "has_hardfork n example_replied = (n < 20)" "head_block_time example_replied = 1000"
  "calculate_discussion_payout_time example_target example_replied = Some 605800" "db_gpo example_replied = example_gpo"
  by (simp_all add: get_comment_def find_comment_def c_str_def get_account_def find_account_def example_carol_def example_target_def
    find_comment_vote_def has_hardfork_def head_block_time_def calculate_discussion_payout_time_def example_discussion_defs)

lemma example_downvote_power: "vote_power fc_exact (- 10000) example_carol example_replied = Some (10000, 84)"
  by (simp add: vote_power_def example_downvote_reads example_carol_def fc_exact_def MIN_VOTE_INTERVAL_SEC_def
    VOTE_REGENERATION_SECONDS_def PERCENT_100_def signed_divide_int_def example_gpo_def example_account_def Let_def)

lemma example_downvote_reward: "vote_SCOREreward fc_exact (- 10000) 84 example_carol example_replied = Some 25200"
  by (simp add: vote_SCOREreward_def example_downvote_reads effective_SCORE_def example_carol_def fc_exact_def
    VOTE_DUST_THRESHOLD_def asset_sub_def asset_add_def PERCENT_100_def int64_def int64_of_uint64_def example_account_def Let_def)

lemma example_downvote_spend: "spend_power ''carol'' 10000 84 example_replied = Some example_spent"
  by (simp add: spend_power_def modify_account_def example_downvote_reads example_spent_def example_carol_def)
    (simp add: example_replied_def example_account_def)

lemma example_downvote_new:
  "new_vote fc_exact example_downvote 10000 84 25200 example_carol example_target example_replied = Some example_downvoted"
  by (simp add: new_vote_def wrap32_def example_downvote_def example_downvote_spend)
    (simp add: example_spent_def modify_comment_def get_comment_id_def example_target_def example_discussion_defs
      average_cashout_def has_hardfork_def example_downvoted_def touch_root_def fc_exact_def int64_def vote_weight_def
      create_comment_vote_def tbl_emplace_def take_id_def head_block_time_def example_carol_def update_reward2_def
      evaluate_reward_curve_def Let_def)

lemma example_downvote_step: "vote_do_apply fc_exact example_downvote example_replied = Some example_downvoted"
proof -
  have "\<not> acc_owner_challenged example_carol" "\<not> acc_active_challenged example_carol" "acc_can_vote example_carol"
    by (simp_all add: example_carol_def example_account_def)
  moreover have "secs_max fc_exact = 4294967295" by (simp add: fc_exact_def)
  ultimately show ?thesis
    using example_downvote_new
    by (simp add: vote_do_apply_def example_downvote_def example_downvote_reads example_downvote_power example_downvote_reward)
qed

theorem rewards_tally_witness:
  "(discussion_step fc_exact)\<^sup>*\<^sup>* example_db example_downvoted \<and> tally_ok example_downvoted \<and>
   map cmt_net_SCOREreward (db_comments example_downvoted) = [- 25200, 0]"
proof -
  have run: "(discussion_step fc_exact)\<^sup>*\<^sup>* example_db example_downvoted"
    using example_discussion(2) discussion_step.vote[OF example_downvote_step] by (rule rtranclp.rtrancl_into_rtrancl)
  have "tally_ok example_db" by (simp add: tally_ok_def reward_tally_def example_db_def)
  from rewards_tally[OF fc_exact.fc_safe_axioms this run] run show ?thesis
    by (simp add: example_downvoted_def example_reply_def new_comment_object_def)
qed

theorem voting_power_bounded_witness:
  "list_all power_ok (db_accounts example_downvoted) \<and> map acc_voting_power (db_accounts example_downvoted) = [10000, 10000, 9916]"
proof -
  have "list_all power_ok (db_accounts example_replied)"
    by (simp add: power_ok_def PERCENT_100_def example_replied_def example_account_def)
  from voting_power_bounded[OF example_downvote_step this] show ?thesis
    by (simp add: example_downvoted_def example_spent_def example_carol_def example_account_def PERCENT_100_def)
qed

end
