(* ===== verification/Neutral.thy ===== *)
theory Neutral
  imports Tally
begin

text \<open>
  Operations that move no money.  \<open>neutral d d'\<close> says that everything the supply invariants read is the same
  in both states, and the clock and the hardforks too; \<open>neutral_res d m\<close> says it of every result of a computation that starts
  from a state reached from \<open>d\<close>.  The rules below follow the structure of a do-block, so that an evaluator is shown
  neutral by resolving its definition with them, down to the rows it writes.
\<close>

section \<open>What every result keeps\<close>

text \<open>\<open>kept R d m\<close>: whatever \<open>m\<close> returns is related by \<open>R\<close> to the state \<open>d\<close>.\<close>

definition kept :: "('s \<Rightarrow> 't \<Rightarrow> bool) \<Rightarrow> 's \<Rightarrow> 't option \<Rightarrow> bool" where
  "kept R d m \<longleftrightarrow> (\<forall>x. m = Some x \<longrightarrow> R d x)"

lemma keptD: "kept R d m \<Longrightarrow> m = Some x \<Longrightarrow> R d x"
  by (simp add: kept_def)

lemma kept_bind: "kept S d m \<Longrightarrow> (\<And>x. m = Some x \<Longrightarrow> S d x \<Longrightarrow> kept R d (f x)) \<Longrightarrow> kept R d (m \<bind> f)"
  by (auto simp: kept_def bind_Some_iff)

lemma kept_bind_value: "(\<And>x. m = Some x \<Longrightarrow> kept R d (f x)) \<Longrightarrow> kept R d (m \<bind> f)"
  by (auto simp: kept_def bind_Some_iff)

lemma kept_if: "(b \<Longrightarrow> kept R d m) \<Longrightarrow> (\<not> b \<Longrightarrow> kept R d n) \<Longrightarrow> kept R d (if b then m else n)" by simp

lemma kept_option: "kept R d m \<Longrightarrow> (\<And>y. kept R d (f y)) \<Longrightarrow> kept R d (case x of None \<Rightarrow> m | Some y \<Rightarrow> f y)"
  by (cases x) auto

lemma kept_pair: "(\<And>x y. kept R d (f x y)) \<Longrightarrow> kept R d (case p of (x, y) \<Rightarrow> f x y)"
  by (cases p) auto

lemma kept_let: "kept R d (f x) \<Longrightarrow> kept R d (Let x f)" by simp

lemma kept_Some: "R d x \<Longrightarrow> kept R d (Some x)" by (simp add: kept_def)

lemma kept_None: "kept R d None" by (simp add: kept_def)

lemmas kept_rules = kept_bind_value kept_if kept_option kept_pair kept_let kept_None kept_Some

section \<open>Neutral steps\<close>

definition account_view :: "account_object \<Rightarrow> account_name_type \<times> nat \<times> int \<times> int \<times> int \<times> int" where
  "account_view a = (acc_name a, acc_id a, acct_TME a, acct_TSD a, acct_SCORE a, acct_PEND a)"

definition supply_view :: "dynamic_global_property_object \<Rightarrow> asset \<times> asset \<times> asset \<times> asset \<times> asset \<times> asset \<times> asset \<times> time \<times> int" where
  "supply_view g = (gpo_current_supply g, gpo_current_TSD_supply g, gpo_totalTMEfundForSCORE g, gpo_total_reward_fund_TME g,
     gpo_pending_rewarded_SCOREvalueInTME g, gpo_totalSCORE g, gpo_pending_rewarded_SCORE g,
     gpo_time g, gpo_head_block_number g)"

definition neutral :: "chain_db \<Rightarrow> chain_db \<Rightarrow> bool" where
  "neutral d d' \<longleftrightarrow> map account_view (db_accounts d') = map account_view (db_accounts d)
     \<and> supply_view (db_gpo d') = supply_view (db_gpo d)
     \<and> db_converts d' = db_converts d \<and> db_orders d' = db_orders d \<and> db_escrows d' = db_escrows d
     \<and> db_savings d' = db_savings d \<and> db_reward_funds d' = db_reward_funds d
     \<and> db_next_id d' account_object_type = db_next_id d account_object_type
     \<and> db_processed_hardforks d' = db_processed_hardforks d"

lemma neutral_refl [simp]: "neutral d d" by (simp add: neutral_def)

lemma neutral_trans [trans]: "neutral a b \<Longrightarrow> neutral b c \<Longrightarrow> neutral a c"
  by (simp add: neutral_def)

lemma account_view_sums:
  assumes "map account_view xs = map account_view ys"
  shows "map acc_name xs = map acc_name ys" "map acc_id xs = map acc_id ys" "tsum acct_TME xs = tsum acct_TME ys"
    "tsum acct_TSD xs = tsum acct_TSD ys" "tsum acct_SCORE xs = tsum acct_SCORE ys" "tsum acct_PEND xs = tsum acct_PEND ys"
proof -
  have "map acc_name zs = map fst (map account_view zs)" "map acc_id zs = map (fst \<circ> snd) (map account_view zs)"
    "map acct_TME zs = map (fst \<circ> snd \<circ> snd) (map account_view zs)"
    "map acct_TSD zs = map (fst \<circ> snd \<circ> snd \<circ> snd) (map account_view zs)"
    "map acct_SCORE zs = map (fst \<circ> snd \<circ> snd \<circ> snd \<circ> snd) (map account_view zs)"
    "map acct_PEND zs = map (snd \<circ> snd \<circ> snd \<circ> snd \<circ> snd) (map account_view zs)" for zs
    by (simp_all add: account_view_def)
  then show "map acc_name xs = map acc_name ys" "map acc_id xs = map acc_id ys" "tsum acct_TME xs = tsum acct_TME ys"
    "tsum acct_TSD xs = tsum acct_TSD ys" "tsum acct_SCORE xs = tsum acct_SCORE ys" "tsum acct_PEND xs = tsum acct_PEND ys"
    using assms by metis+
qed

lemma neutral_keeps:
  assumes "ledger_ok d" "neutral d d'"
  shows "keeps d d'"
proof -
  have v: "map account_view (db_accounts d') = map account_view (db_accounts d)"
    and g: "supply_view (db_gpo d') = supply_view (db_gpo d)" using assms(2) by (simp_all add: neutral_def)
  show ?thesis
    using assms account_view_sums[OF v] g
    by (simp add: keeps_def gaps_def gap_defs ledger_ok_def neutral_def supply_view_def)
qed

abbreviation neutral_res :: "chain_db \<Rightarrow> chain_db option \<Rightarrow> bool" where
  "neutral_res \<equiv> kept neutral"

lemmas neutral_resD = keptD[of neutral]

lemma neutral_start: "(neutral d d \<Longrightarrow> neutral_res d m) \<Longrightarrow> neutral_res d m" by simp

lemmas neutral_bind_state = kept_bind[of neutral]

text \<open>Rows that carry no money.\<close>

lemma neutral_modify_account:
  assumes "neutral d d1" "\<And>a b. f a = Some b \<Longrightarrow> account_view b = account_view a"
  shows "neutral_res d (modify_account n f d1)"
proof -
  have "neutral d1 d'" if m: "modify_account n f d1 = Some d'" for d'
  proof -
    obtain xs where xs: "tbl_modify (\<lambda>a. acc_name a = n) f (db_accounts d1) = Some xs" "d' = d1\<lparr>db_accounts := xs\<rparr>"
      using m by (auto simp: modify_account_def bind_Some_iff)
    show ?thesis using map_key_modify[OF xs(1), of account_view] assms(2) xs(2) by (simp add: neutral_def)
  qed
  then show ?thesis using assms(1) neutral_trans by (auto simp: kept_def)
qed

lemma neutral_update:
  "neutral d d1 \<Longrightarrow> db_accounts d2 = db_accounts d1 \<Longrightarrow> db_gpo d2 = db_gpo d1 \<Longrightarrow> db_converts d2 = db_converts d1 \<Longrightarrow>
   db_orders d2 = db_orders d1 \<Longrightarrow> db_escrows d2 = db_escrows d1 \<Longrightarrow> db_savings d2 = db_savings d1 \<Longrightarrow>
   db_reward_funds d2 = db_reward_funds d1 \<Longrightarrow> db_next_id d2 account_object_type = db_next_id d1 account_object_type \<Longrightarrow>
   db_processed_hardforks d2 = db_processed_hardforks d1 \<Longrightarrow> neutral d d2"
  by (simp add: neutral_def)

lemma neutral_rows:
  assumes "neutral d d1"
  shows "neutral_res d (modify_comment i cf d1)" "neutral_res d (create_comment c d1)" "neutral_res d (create_comment_vote v d1)"
    "neutral_res d (modify_comment_vote k l vf d1)" "neutral_res d (modify_witness_id i ff d1)" "neutral_res d (create_witness w d1)"
    "neutral_res d (modify_authority n af d1)" "neutral_res d (create_witness_vote wv d1)" "neutral_res d (create_decline dc d1)"
    "neutral_res d (create_delegation de d1)" "neutral_res d (modify_delegation n m df d1)"
    "neutral_res d (create_delegation_exp ex d1)"
  using assms
  by (auto simp: kept_def modify_comment_def create_comment_def create_comment_vote_def modify_comment_vote_def
      modify_witness_id_def create_witness_def modify_authority_def create_witness_vote_def create_decline_def
      create_delegation_def modify_delegation_def create_delegation_exp_def take_id_def bind_Some_iff intro: neutral_update)

lemma neutral_removals:
  assumes "neutral d d1"
  shows "neutral d (remove_comment i d1)" "neutral d (remove_comment_vote k l d1)" "neutral d (create_authority a d1)"
    "neutral d (create_owner_history h d1)" "neutral d (create_recovery_request r d1)" "neutral d (create_change_recovery cr d1)"
    "neutral d (remove_recovery_request n d1)" "neutral d (remove_change_recovery n d1)" "neutral d (remove_witness_vote i j d1)"
    "neutral d (remove_delegation n m d1)" "neutral d (d1\<lparr>db_comment_votes := vs\<rparr>)" "neutral d (d1\<lparr>db_witness_votes := ws\<rparr>)"
    "neutral d (d1\<lparr>db_declines := ds\<rparr>)" "neutral d (d1\<lparr>db_recovery_requests := rs\<rparr>)" "neutral d (d1\<lparr>db_change_recovery := cs\<rparr>)"
  using assms
  by (auto simp: remove_comment_def remove_comment_vote_def create_authority_def create_owner_history_def
      create_recovery_request_def create_change_recovery_def remove_recovery_request_def remove_change_recovery_def
      remove_witness_vote_def remove_delegation_def take_id_def intro: neutral_update)

lemmas neutral_rules = neutral_modify_account neutral_rows neutral_bind_state kept_rules neutral_removals

lemmas view_simps = account_view_def acct_defs

section \<open>Comments and votes\<close>

lemma neutral_ancestors: "neutral d d1 \<Longrightarrow> neutral_res d (ancestors_loop n step i d1)"
  by (induction n arbitrary: i d1) (simp_all only: ancestors_loop.simps, (rule neutral_rules | assumption | blast)+)

lemma neutral_extensions: "neutral d d1 \<Longrightarrow> neutral_res d (visit_extensions es i d1)"
  by (induction es arbitrary: d1) (simp_all only: visit_extensions.simps, (rule neutral_rules | assumption | blast)+)

lemma neutral_comment: "neutral_res d (comment_do_apply F op d)"
  unfolding comment_do_apply_def post_comment_def edit_comment_def touch_ancestors_def
  by (rule neutral_start) (rule neutral_rules neutral_ancestors | assumption | (auto simp: view_simps Let_def; fail))+

lemma neutral_deleteComment: "neutral_res d (deleteComment_do_apply F op d)"
  unfolding deleteComment_do_apply_def touch_ancestors_def
  by (rule neutral_start) (rule neutral_rules neutral_ancestors | assumption)+

lemma neutral_comment_options: "neutral_res d (comment_options_do_apply op d)"
  unfolding comment_options_do_apply_def
  by (rule neutral_start) (rule neutral_extensions neutral_rules | assumption)+

lemma neutral_spend: "neutral d d1 \<Longrightarrow> neutral_res d (spend_power n c u d1)"
  unfolding spend_power_def by (rule neutral_modify_account) (auto simp: view_simps)

lemma neutral_update_reward2: "neutral d d1 \<Longrightarrow> neutral_res d (update_reward2 F n i d1)"
  unfolding update_reward2_def adjust_SCOREreward2_def modify_gpo_def
  by (rule kept_bind_value)+ (auto simp: kept_def neutral_def supply_view_def)

lemma neutral_touch_root: "neutral d d1 \<Longrightarrow> neutral_res d (touch_root F r t i d1)"
  unfolding touch_root_def by (rule neutral_rows)

lemmas neutral_vote_rules = neutral_spend neutral_update_reward2 neutral_touch_root neutral_rules

lemma neutral_new_vote: "neutral d d1 \<Longrightarrow> neutral_res d (new_vote F op cur used r voter c d1)"
  unfolding new_vote_def by (rule neutral_vote_rules | assumption)+

lemma neutral_change_vote: "neutral d d1 \<Longrightarrow> neutral_res d (change_vote F op cur used r voter c v d1)"
  unfolding change_vote_def by (rule neutral_vote_rules | assumption)+

lemma neutral_vote: "neutral_res d (vote_do_apply F op d)"
  unfolding vote_do_apply_def record_vote_def
  by (rule neutral_start) (rule neutral_new_vote neutral_change_vote neutral_vote_rules | assumption)+

section \<open>Accounts, witnesses and delegations\<close>

lemma neutral_owner_authority: "neutral d d1 \<Longrightarrow> neutral_res d (update_owner_authority n a d1)"
  unfolding update_owner_authority_def by (rule neutral_rules | assumption)+

lemma neutral_accountUpdate: "neutral_res d (accountUpdate_do_apply F op d)"
  unfolding accountUpdate_do_apply_def
  by (rule neutral_start) (rule neutral_owner_authority neutral_rules | assumption | (auto simp: view_simps Let_def; fail))+

lemma neutral_prove_authority: "neutral_res d (prove_authority_do_apply op d)"
  unfolding prove_authority_do_apply_def
  by (rule neutral_start) (rule neutral_rules | assumption | (auto simp: view_simps Let_def; fail))+

lemma neutral_request_recovery: "neutral_res d (request_account_recovery_do_apply F op d)"
  unfolding request_account_recovery_do_apply_def by (rule neutral_start) (rule neutral_rules | assumption)+

lemma neutral_recover: "neutral_res d (recover_account_do_apply F op d)"
  unfolding recover_account_do_apply_def
  by (rule neutral_start) (rule neutral_owner_authority neutral_rules | assumption | (auto simp: view_simps bind_Some_iff; fail))+

lemma neutral_change_recovery: "neutral_res d (change_recoveryAccount_do_apply F op d)"
  unfolding change_recoveryAccount_do_apply_def by (rule neutral_start) (rule neutral_rules | assumption)+

lemma neutral_witness_update: "neutral_res d (witness_update_do_apply F op d)"
  unfolding witness_update_do_apply_def by (rule neutral_start) (rule neutral_rules | assumption)+

lemma neutral_feed_publish: "neutral_res d (feed_publish_do_apply op d)"
  unfolding feed_publish_do_apply_def by (rule neutral_start) (rule neutral_rules | assumption)+

lemma neutral_adjust_witness: "neutral d d1 \<Longrightarrow> neutral_res d (adjust_witness_vote F i x d1)"
  unfolding adjust_witness_vote_def by (rule neutral_rules | assumption)+

lemma neutral_adjust_each: "neutral d d1 \<Longrightarrow> neutral_res d (adjust_each F vs x d1)"
  by (induction vs arbitrary: d1) (simp_all only: adjust_each.simps, (rule neutral_adjust_witness neutral_rules | assumption | blast)+)

lemma neutral_single_walk: "neutral d d1 \<Longrightarrow> neutral_res d (adjust_proxied_witness_vote F n x k d1)"
proof (induction F n x k d1 rule: adjust_proxied_witness_vote.induct)
  case (1 F n x k d1)
  show ?case
    unfolding adjust_proxied_witness_vote.simps[of F n x k d1] adjust_witness_votes_def
    using 1 by (intro kept_bind_value kept_if neutral_bind_state kept_Some neutral_adjust_each neutral_modify_account)
      (auto simp: view_simps bind_Some_iff)
qed

lemma neutral_walk: "neutral d d1 \<Longrightarrow> neutral_res d (adjust_proxied_witness_votes F n x k d1)"
proof (induction F n x k d1 rule: adjust_proxied_witness_votes.induct)
  case (1 F n x k d1)
  show ?case
    unfolding adjust_proxied_witness_votes.simps[of F n x k d1] adjust_witness_votes_def
    using 1 by (intro kept_bind_value kept_if neutral_bind_state kept_Some neutral_adjust_each neutral_modify_account)
      (auto simp: view_simps bind_Some_iff)
qed

lemma neutral_clear_votes: "neutral d d1 \<Longrightarrow> neutral_res d (clear_witness_votes n d1)"
  unfolding clear_witness_votes_def by (rule neutral_rules | assumption | (auto simp: view_simps bind_Some_iff; fail))+

lemma neutral_proxy: "neutral_res d (account_witness_proxy_do_apply F op d)"
  unfolding account_witness_proxy_do_apply_def
  by (rule neutral_start) (rule neutral_walk neutral_clear_votes neutral_rules | assumption | (auto simp: view_simps bind_Some_iff; fail))+

lemma neutral_witness_vote: "neutral_res d (accountWitnessVote_do_apply F op d)"
  unfolding accountWitnessVote_do_apply_def
  by (rule neutral_start) (rule neutral_single_walk neutral_adjust_witness neutral_rules | assumption | (auto simp: view_simps bind_Some_iff; fail))+

lemma neutral_decline: "neutral_res d (decline_voting_rights_do_apply F op d)"
  unfolding decline_voting_rights_do_apply_def by (rule neutral_start) (rule neutral_rules | assumption)+

lemma neutral_delegate: "neutral_res d (delegateSCORE_do_apply F op d)"
  unfolding delegateSCORE_do_apply_def change_delegated_def change_received_def
  by (rule neutral_start) (rule neutral_rules | assumption | (auto simp: view_simps bind_Some_iff; fail))+

section \<open>Creating accounts, challenges and claims\<close>

lemma create_account_moves:
  assumes "ledger_ok d" "create_account a d = Some d'" "fresh_account n v a"
  shows "moves d d' 0 0 0 0 \<and> ledger_ok d'"
proof -
  have d': "d' = (take_id account_object_type d)\<lparr>db_accounts := db_accounts d @ [a\<lparr>acc_id := db_next_id d account_object_type\<rparr>]\<rparr>"
    "\<forall>x \<in> set (db_accounts d). acc_name a \<noteq> acc_name x"
    using assms(2) by (auto simp: create_account_def bind_Some_iff tbl_emplace_Some)
  have sums: "tsum f (db_accounts d') = tsum f (db_accounts d)"
    if "f (a\<lparr>acc_id := db_next_id d account_object_type\<rparr>) = f a" "f a = 0" for f
    using that d'(1) by simp
  have "acct_TME a = 0" "acct_TSD a = 0" "acct_SCORE a = 0" "acct_PEND a = 0"
    using assms(3) by (simp_all add: fresh_account_def)
  then have "moves d d' 0 0 0 0"
    using sums[of acct_TME] sums[of acct_TSD] sums[of acct_SCORE] sums[of acct_PEND] d'(1)
    by (simp add: moves_def gap_defs acct_defs take_id_def)
  moreover have "ledger_ok d'"
    using assms(1) d' by (auto simp: ledger_ok_def take_id_def ids_below_def list_all_iff less_Suc_eq)
  ultimately show ?thesis ..
qed

lemma neutral_moves: "neutral d d' \<Longrightarrow> ledger_ok d \<Longrightarrow> moves d d' 0 0 0 0 \<and> ledger_ok d'"
  using neutral_keeps[of d d'] by (simp add: keeps_def moves_gaps)

lemma keeps_moves: "moves d d' 0 0 0 0 \<Longrightarrow> ledger_ok d' \<Longrightarrow> keeps d d'"
  by (simp add: keeps_def moves_gaps)

context fc_safe begin

text \<open>A fee that was taken from a balance is turned into SCORE.\<close>

lemma fee_to_SCORE_keeps:
  assumes "moves d e (- amount fee) 0 0 0" "ledger_ok e" "symbol fee = SYMBOL_COIN" "0 \<le> amount fee"
    "if 0 < amount fee then \<exists>s. createTMEfundForSCORE F n fee False e = Some (s, d') else d' = e"
  shows "keeps d d'"
proof (cases "0 < amount fee")
  case True
  then obtain s where "createTMEfundForSCORE F n fee False e = Some (s, d')" using assms(5) by auto
  from createTMEfundForSCORE_moves[OF this assms(3)] assms(1-3) show ?thesis
    by (intro keeps_moves) (auto simp: moves_def tme_def)
next
  case False
  then show ?thesis using assms by (intro keeps_moves) (auto simp: moves_def)
qed

lemma create_account_keeps:
  assumes m: "modify_account n f d = Some d1" "\<And>a b. f a = Some b \<Longrightarrow> acc_name b = acc_name a \<and> acc_id b = acc_id a
      \<and> acct_TME b = acct_TME a - fee \<and> acct_TSD b = acct_TSD a \<and> acct_SCORE b = acct_SCORE a \<and> acct_PEND b = acct_PEND a"
    and ok: "ledger_ok d" and c: "create_account a d1 = Some d2" "fresh_account nn v a"
  shows "moves d (create_authority x d2) (- fee) 0 0 0 \<and> ledger_ok (create_authority x d2)"
proof -
  have m1: "moves d d1 (- fee) 0 0 0" using modify_account_moves[OF m(1)] by (auto dest!: m(2))
  have ok1: "ledger_ok d1" by (rule ledger_ok_modify_account[OF ok m(1)]) (use m(2) in blast)
  have "moves d2 (create_authority x d2) 0 0 0 0 \<and> ledger_ok (create_authority x d2)"
    using neutral_moves[OF neutral_removals(3)[OF neutral_refl]] create_account_moves[OF ok1 c] by blast
  then show ?thesis using m1 create_account_moves[OF ok1 c] by (auto simp: moves_def)
qed

lemma accountCreate_keeps:
  assumes v: "accountCreate_validate F op = Some ()" and ok: "ledger_ok d" and ap: "accountCreate_do_apply F op d = Some d'"
  shows "keeps d d'"
proof -
  have fee: "symbol (ac_fee op) = SYMBOL_COIN" "0 \<le> amount (ac_fee op)"
    using v by (auto simp: accountCreate_validate_def is_asset_type_def opt_simps)
  show ?thesis
    using ap
  proof (rule accountCreate_cases, goal_cases)
    case (1 a x d1 d2)
    have "moves d (create_authority x d2) (- amount (ac_fee op)) 0 0 0 \<and> ledger_ok (create_authority x d2)"
      by (rule create_account_keeps[OF 1(1) _ ok 1(2,3)]) (auto simp: bind_Some_iff acct_defs dest!: asset_sub_SomeD)
    then show ?case using fee_to_SCORE_keeps[OF _ _ fee 1(4)] by blast
  qed
qed

lemma accountCreateWithDelegation_keeps:
  assumes v: "accountCreateWithDelegation_validate F op = Some ()" and ok: "ledger_ok d"
    and ap: "accountCreateWithDelegation_do_apply F op d = Some d'"
  shows "keeps d d'"
proof -
  have fee: "symbol (acd_fee op) = SYMBOL_COIN" "0 \<le> amount (acd_fee op)"
    using v by (auto simp: accountCreateWithDelegation_validate_def is_asset_type_def opt_simps)
  show ?thesis
    using ap
  proof (rule accountCreateWithDelegation_cases, goal_cases)
    case (1 a x v d1 d2 d4)
    have 2: "moves d (create_authority x d2) (- amount (acd_fee op)) 0 0 0 \<and> ledger_ok (create_authority x d2)"
      by (rule create_account_keeps[OF 1(1) _ ok 1(2,3)]) (auto simp: bind_Some_iff acct_defs dest!: asset_sub_SomeD)
    have "neutral (create_authority x d2) d4"
      using 1(7) neutral_resD[OF neutral_rows(10)[OF neutral_refl]] by auto
    then have "moves d d4 (- amount (acd_fee op)) 0 0 0 \<and> ledger_ok d4" using neutral_moves 2 by (fastforce simp: moves_def)
    then show ?case using fee_to_SCORE_keeps[OF _ _ fee 1(8)] by blast
  qed
qed

lemma challenge_keeps:
  assumes ok: "ledger_ok d" and neg: "asset_neg F fee = Some neg" and fee: "symbol fee = SYMBOL_COIN" "0 < amount fee"
    and d1: "adjust_balance F m neg d = Some d1" and d2: "createTMEfundForSCORE F n fee False d1 = Some (s, d2)"
    and d': "modify_account n (\<lambda>a. Some (g a)) d2 = Some d'" "\<And>a. account_view (g a) = account_view a"
  shows "keeps d d'"
proof -
  have n: "tme neg = - amount fee" "tsd neg = 0" using asset_neg_SomeD[OF neg] fee by (auto simp: tme_def tsd_def symbol_distinct)
  have "moves d d1 (- amount fee) 0 0 0" using adjust_balance_moves[OF d1] n by simp
  moreover have "ledger_ok d1" using ledger_ok_frame[OF adjust_balance_frame[OF d1]] ok by simp
  ultimately have "keeps d d2" by (rule fee_to_SCORE_keeps[OF _ _ fee(1)]) (use fee(2) d2 in auto)
  moreover have "neutral d2 d'"
    by (rule neutral_resD[OF neutral_modify_account[OF neutral_refl] d'(1)]) (use d'(2) in auto)
  ultimately show ?thesis using neutral_keeps[of d2 d'] by (simp add: keeps_def)
qed

lemma challenge_authority_keeps:
  assumes ok: "ledger_ok d" and ap: "challenge_authority_do_apply F op d = Some d'"
  shows "keeps d d'"
proof -
  have fees: "symbol OWNER_CHALLENGE_FEE = SYMBOL_COIN" "0 < amount OWNER_CHALLENGE_FEE"
    "symbol ACTIVE_CHALLENGE_FEE = SYMBOL_COIN" "0 < amount ACTIVE_CHALLENGE_FEE"
    by (simp_all add: OWNER_CHALLENGE_FEE_def ACTIVE_CHALLENGE_FEE_def)
  obtain fee neg d1 s d2 g where "asset_neg F fee = Some neg" "fee = OWNER_CHALLENGE_FEE \<or> fee = ACTIVE_CHALLENGE_FEE"
    "adjust_balance F (ch_challenger op) neg d = Some d1" "createTMEfundForSCORE F (ch_challenged op) fee False d1 = Some (s, d2)"
    "modify_account (ch_challenged op) (\<lambda>a. Some (g a)) d2 = Some d'" "\<forall>a. account_view (g a) = account_view a"
  proof (cases "ch_require_owner op")
    case True
    then show thesis
      using ap by (auto simp: challenge_authority_do_apply_def bind_Some_iff
        intro!: that[of OWNER_CHALLENGE_FEE _ _ _ _ "\<lambda>a. a\<lparr>acc_owner_challenged := True\<rparr>"] simp: view_simps)
  next
    case False
    then show thesis
      using ap by (auto simp: challenge_authority_do_apply_def bind_Some_iff
        intro!: that[of ACTIVE_CHALLENGE_FEE _ _ _ _ "\<lambda>a. a\<lparr>acc_active_challenged := True\<rparr>"] simp: view_simps)
  qed
  then show ?thesis using challenge_keeps[OF ok] fees by metis
qed

lemma claimRewardBalance_keeps:
  assumes "ledger_ok d" "claimRewardBalance_do_apply F op d = Some d'"
  shows "keeps d d'"
  using claimRewardBalance_flow[OF assms(2)] assms(1) by (simp add: stake_flow_def keeps_moves)

end

end
