(* ===== verification/Evaluate.thy ===== *)
theory Evaluate
  imports Neutral Market Escrow Transaction
begin

text \<open>
  The evaluator registry (\<open>evaluator.hpp\<close>, \<open>evaluator_registry.hpp\<close>, \<open>database::initialize_evaluators\<close>):
  \<open>evaluate\<close> sends an operation to the \<open>do_apply\<close> that is registered for its type.  The evaluators of the custom
  operations are here, since all they do to the chain is to accept or to refuse.

  The interpreters that plugins register for custom operations work on objects of their own and inside an
  undo session of their own, so that what the chain sees of one is whether it returned or how it threw:
  \<open>node_config\<close> holds them as functions to a \<open>custom_outcome\<close>, and the two flags of the node beside them.

  Shown here: whatever operations that pass \<open>validate\<close> are applied to a chain whose supplies balance, in
  any order, with those that throw rolled back, the supplies balance afterwards.
\<close>

section \<open>Custom operations\<close>

datatype custom_outcome = Applied | Fc_exception | Other_exception

record custom_operation_interpreter =
  ci_apply_json :: "customJson_operation \<Rightarrow> chain_db \<Rightarrow> custom_outcome"
  ci_apply_binary :: "custom_binary_operation \<Rightarrow> chain_db \<Rightarrow> custom_outcome"

record node_config =
  nc_is_producing :: bool
  nc_custom_operation_interpreters :: "string \<Rightarrow> custom_operation_interpreter option"

definition set_custom_operation_interpreter :: "string \<Rightarrow> custom_operation_interpreter \<Rightarrow> node_config \<Rightarrow> node_config option" where
  "set_custom_operation_interpreter i r C = do {
     FC_ASSERT (nc_custom_operation_interpreters C i = None);
     Some (C\<lparr>nc_custom_operation_interpreters := (nc_custom_operation_interpreters C)(i \<mapsto> r)\<rparr>) }"

definition get_customJson_evaluator :: "node_config \<Rightarrow> string \<Rightarrow> custom_operation_interpreter option" where
  "get_customJson_evaluator C i = nc_custom_operation_interpreters C i"

text \<open>The two \<open>catch\<close> clauses around a call of an interpreter.\<close>

definition catch_outcome :: "node_config \<Rightarrow> custom_outcome \<Rightarrow> chain_db \<Rightarrow> chain_db option" where
  "catch_outcome C r d = (case r of
       Applied \<Rightarrow> Some d
     | Fc_exception \<Rightarrow> (if nc_is_producing C then None else Some d)
     | Other_exception \<Rightarrow> Some d)"

definition custom_do_apply :: "node_config \<Rightarrow> custom_operation \<Rightarrow> chain_db \<Rightarrow> chain_db option" where
  "custom_do_apply C op d = do {
     (if nc_is_producing C then FC_ASSERT (length (cu_data op) \<le> 8192) else Some ());
     Some d }"

definition customJson_do_apply :: "node_config \<Rightarrow> customJson_operation \<Rightarrow> chain_db \<Rightarrow> chain_db option" where
  "customJson_do_apply C op d = do {
     (if nc_is_producing C then FC_ASSERT (length (cj_json op) \<le> 8192) else Some ());
     (case get_customJson_evaluator C (cj_id op) of
        None \<Rightarrow> Some d
      | Some eval \<Rightarrow> catch_outcome C (ci_apply_json eval op d) d) }"

definition custom_binary_do_apply :: "node_config \<Rightarrow> custom_binary_operation \<Rightarrow> chain_db \<Rightarrow> chain_db option" where
  "custom_binary_do_apply C op d = do {
     (if nc_is_producing C then do {
        FC_ASSERT False;
        FC_ASSERT (length (cb_data op) \<le> 8192) } else Some ());
     FC_ASSERT (has_hardfork 14 d);
     (case get_customJson_evaluator C (cb_id op) of
        None \<Rightarrow> Some d
      | Some eval \<Rightarrow> catch_outcome C (ci_apply_binary eval op d) d) }"

section \<open>The registry\<close>

text \<open>No evaluator is registered for a virtual operation: \<open>get_evaluator\<close> aborts on its assertion.\<close>

fun evaluate :: "node_config \<Rightarrow> fc_lib \<Rightarrow> operation \<Rightarrow> chain_db \<Rightarrow> chain_db option" where
  "evaluate C F (Vote v) d = vote_do_apply F v d"
| "evaluate C F (Comment v) d = comment_do_apply F v d"
| "evaluate C F (CommentOptions v) d = comment_options_do_apply v d"
| "evaluate C F (DeleteComment v) d = deleteComment_do_apply F v d"
| "evaluate C F (Transfer v) d = transfer_do_apply F v d"
| "evaluate C F (TransferTMEtoSCOREfund v) d = transferTMEtoSCOREfund_do_apply F v d"
| "evaluate C F (WithdrawSCORE v) d = withdrawSCORE_do_apply F v d"
| "evaluate C F (SetWithdrawRoute v) d = setWithdrawSCOREasTMEroute_do_apply v d"
| "evaluate C F (AccountCreate v) d = accountCreate_do_apply F v d"
| "evaluate C F (AccountUpdate v) d = accountUpdate_do_apply F v d"
| "evaluate C F (WitnessUpdate v) d = witness_update_do_apply F v d"
| "evaluate C F (AccountWitnessVote v) d = accountWitnessVote_do_apply F v d"
| "evaluate C F (AccountWitnessProxy v) d = account_witness_proxy_do_apply F v d"
| "evaluate C F (Custom v) d = custom_do_apply C v d"
| "evaluate C F (CustomBinary v) d = custom_binary_do_apply C v d"
| "evaluate C F (CustomJson v) d = customJson_do_apply C v d"
| "evaluate C F (FeedPublish v) d = feed_publish_do_apply v d"
| "evaluate C F (Convert v) d = convert_do_apply F v d"
| "evaluate C F (LimitOrderCreate v) d = limit_order_create_do_apply F v d"
| "evaluate C F (LimitOrderCreate2 v) d = limit_order_create2_do_apply F v d"
| "evaluate C F (LimitOrderCancel v) d = limit_order_cancel_do_apply F v d"
| "evaluate C F (ChallengeAuthority v) d = challenge_authority_do_apply F v d"
| "evaluate C F (ProveAuthority v) d = prove_authority_do_apply v d"
| "evaluate C F (RequestAccountRecovery v) d = request_account_recovery_do_apply F v d"
| "evaluate C F (RecoverAccount v) d = recover_account_do_apply F v d"
| "evaluate C F (ChangeRecoveryAccount v) d = change_recoveryAccount_do_apply F v d"
| "evaluate C F (EscrowTransfer v) d = escrow_transfer_do_apply F v d"
| "evaluate C F (EscrowApprove v) d = escrow_approve_do_apply F v d"
| "evaluate C F (EscrowDispute v) d = escrow_dispute_do_apply v d"
| "evaluate C F (EscrowRelease v) d = escrow_release_do_apply F v d"
| "evaluate C F (TransferToSavings v) d = transferToSavings_do_apply F v d"
| "evaluate C F (TransferFromSavings v) d = transferFromSavings_do_apply F v d"
| "evaluate C F (CancelTransferFromSavings v) d = cancelTransferFromSavings_do_apply F v d"
| "evaluate C F (DeclineVotingRights v) d = decline_voting_rights_do_apply F v d"
| "evaluate C F (ResetAccount v) d = reset_account_do_apply v d"
| "evaluate C F (SetResetAccount v) d = set_reset_account_do_apply v d"
| "evaluate C F (ClaimRewardBalance v) d = claimRewardBalance_do_apply F v d"
| "evaluate C F (AccountCreateWithDelegation v) d = accountCreateWithDelegation_do_apply F v d"
| "evaluate C F (DelegateSCORE v) d = delegateSCORE_do_apply F v d"
| "evaluate C F (Virtual v) d = None"

section \<open>Every operation keeps the ledger\<close>

lemma custom_unchanged:
  "custom_do_apply C cu d = Some d' \<Longrightarrow> d' = d" "customJson_do_apply C cj d = Some d' \<Longrightarrow> d' = d"
  "custom_binary_do_apply C cb d = Some d' \<Longrightarrow> d' = d"
  by (auto simp: custom_do_apply_def customJson_do_apply_def custom_binary_do_apply_def catch_outcome_def
      bind_Some_iff split: option.splits custom_outcome.splits if_splits)

lemma keeps_self: "ledger_ok d \<Longrightarrow> keeps d d" by (simp add: keeps_def)

lemmas neutral_operations = neutral_comment neutral_deleteComment neutral_comment_options neutral_vote neutral_accountUpdate
  neutral_prove_authority neutral_request_recovery neutral_recover neutral_change_recovery neutral_witness_update
  neutral_feed_publish neutral_proxy neutral_witness_vote neutral_decline neutral_delegate

context fc_safe
begin

lemmas money_operations = transfer_keeps transferToSavings_keeps transferFromSavings_keeps cancelTransferFromSavings_keeps
  convert_keeps escrow_transfer_keeps escrow_dispute_keeps escrow_approve_keeps escrow_release_keeps limit_order_create_keeps
  limit_order_create2_keeps limit_order_cancel_keeps transferTMEtoSCOREfund_keeps withdrawSCORE_keeps
  setWithdrawSCOREasTMEroute_keeps accountCreate_keeps accountCreateWithDelegation_keeps challenge_authority_keeps
  claimRewardBalance_keeps

lemma evaluate_keeps:
  assumes v: "operation_validate F op = Some ()" and ok: "ledger_ok d" and e: "evaluate C F op d = Some d'"
  shows "keeps d d'"
proof -
  note neutral = neutral_operations[THEN neutral_resD, THEN neutral_keeps[OF ok]]
  show ?thesis
    using v e
    by (cases op; (simp only: operation_validate.simps evaluate.simps)?)
      ((rule neutral money_operations; (rule ok | assumption))
       | (auto simp: reset_account_do_apply_def set_reset_account_do_apply_def dest!: custom_unchanged
            intro: keeps_self ok; fail))+
qed

end

sublocale fc_safe \<subseteq> chain_operations: ledger_operation "\<lambda>op. operation_validate F op = Some ()" "evaluate C F"
  by unfold_locales (auto dest: evaluate_keeps simp: keeps_def)

context fc_safe
begin

lemma operations_balanced: "balanced d \<Longrightarrow> balanced (run_steps (\<lambda>op. operation_validate F op = Some ()) (evaluate C F) ops d)"
  by (rule chain_operations.run_balanced)

end

definition example_node :: node_config where
  "example_node = \<lparr>nc_is_producing = True, nc_custom_operation_interpreters = Map.empty\<rparr>"

lemma example_balanced: "balanced example_db"
  by (simp add: balanced_def ledger_ok_def gaps_def gap_defs example_defs acct_defs tme_def tsd_def symbol_distinct)

end
