(* ===== verification/Clock.thy ===== *)
theory Clock
  imports Evaluate
begin

text \<open>
  Operations do not touch the clock.  No evaluator changes the time or the number of the head block, nor the
  hardforks that were processed: the neutral ones by what \<open>Neutral\<close> shows, the ones that move money by the same
  calculus over \<open>same_clock\<close>.
\<close>

definition same_clock :: "chain_db \<Rightarrow> chain_db \<Rightarrow> bool" where
  "same_clock d d' \<longleftrightarrow> head_block_time d' = head_block_time d \<and> head_block_num d' = head_block_num d
     \<and> db_processed_hardforks d' = db_processed_hardforks d"

abbreviation clock_res :: "chain_db \<Rightarrow> chain_db option \<Rightarrow> bool" where
  "clock_res \<equiv> kept same_clock"

abbreviation clock_pair :: "chain_db \<Rightarrow> ('a \<times> chain_db) option \<Rightarrow> bool" where
  "clock_pair \<equiv> kept (\<lambda>d x. same_clock d (snd x))"

lemma same_clock_refl [simp]: "same_clock d d" by (simp add: same_clock_def)

lemma clock_start: "(same_clock d d \<Longrightarrow> kept R d m) \<Longrightarrow> kept R d m" by simp

lemma same_clock_trans: "same_clock a b \<Longrightarrow> same_clock b c \<Longrightarrow> same_clock a c" by (simp add: same_clock_def)

lemma same_clock_gpo: "same_clock d d1 \<Longrightarrow> db_gpo d2 = db_gpo d1 \<Longrightarrow> db_processed_hardforks d2 = db_processed_hardforks d1 \<Longrightarrow> same_clock d d2"
  by (simp add: same_clock_def head_block_time_def head_block_num_def)

lemma neutral_clock: "neutral d d' \<Longrightarrow> same_clock d d'"
  by (simp add: neutral_def supply_view_def same_clock_def head_block_time_def head_block_num_def)

lemma clock_bind_pair: "clock_pair d m \<Longrightarrow> (\<And>x d1. same_clock d d1 \<Longrightarrow> kept R d (f (x, d1))) \<Longrightarrow> kept R d (m \<bind> f)"
  by (auto simp: kept_def bind_Some_iff)

lemma clock_rows:
  assumes "same_clock d d1"
  shows "clock_res d (modify_account n af d1)" "clock_res d (modify_order r xf d1)" "clock_res d (modify_escrow n i ef d1)"
    "clock_res d (create_order x d1)" "clock_res d (create_escrow e d1)" "clock_res d (create_savings w d1)"
    "clock_res d (create_convert c d1)" "clock_res d (create_route ro d1)" "clock_res d (create_account a d1)"
    "clock_res d (create_delegation de d1)" "clock_res d (adjust_liquidity_reward F ac v b d1)"
  using assms
  by (auto simp: kept_def modify_account_def modify_order_def modify_escrow_def create_order_def create_escrow_def
      create_savings_def create_convert_def create_route_def create_account_def create_delegation_def
      adjust_liquidity_reward_def take_id_def Let_def bind_Some_iff split: option.splits elim!: same_clock_gpo)

lemma clock_removals:
  assumes "same_clock d d1"
  shows "same_clock d (remove_order r d1)" "same_clock d (remove_escrow n i d1)" "same_clock d (remove_savings n i d1)"
    "same_clock d (create_authority a d1)" "same_clock d (d1\<lparr>db_routes := rs\<rparr>)" "same_clock d (d1\<lparr>db_declines := ds\<rparr>)"
  using assms
  by (auto simp: remove_order_def remove_escrow_def remove_savings_def create_authority_def take_id_def elim!: same_clock_gpo)

lemma clock_modify_gpo:
  assumes "same_clock d d1" "\<And>g g'. f g = Some g' \<Longrightarrow> gpo_time g' = gpo_time g \<and> gpo_head_block_number g' = gpo_head_block_number g"
  shows "clock_res d (modify_gpo f d1)"
  using assms by (auto simp: kept_def modify_gpo_def bind_Some_iff same_clock_def head_block_time_def head_block_num_def)

lemma clock_Some: "same_clock d d1 \<Longrightarrow> clock_pair d (Some (x, d1))" by (simp add: kept_def)

lemma clock_map_snd: "clock_pair d m \<Longrightarrow> clock_res d (map_option snd m)" by (auto simp: kept_def)

lemma clock_split: "kept R d (f x y) \<Longrightarrow> kept R d (case (x, y) of (x, y) \<Rightarrow> f x y)" by simp

lemmas clock_rules = clock_rows clock_Some clock_map_snd clock_split kept_bind[of same_clock] clock_bind_pair kept_rules clock_removals

section \<open>Balances and SCORE\<close>

lemma clock_interest: "same_clock d d1 \<Longrightarrow> clock_res d (issue_interest F p d1)"
  unfolding issue_interest_def by (rule clock_rules clock_modify_gpo | assumption | (auto simp: bind_Some_iff; fail))+

lemma clock_adjust_balance: "same_clock d d1 \<Longrightarrow> clock_res d (adjust_balance F n x d1)"
  unfolding adjust_balance_def by (rule clock_interest clock_rules | assumption)+

lemma clock_adjust_savings: "same_clock d d1 \<Longrightarrow> clock_res d (adjust_TMEsavingsBalance F n x d1)"
  unfolding adjust_TMEsavingsBalance_def by (rule clock_interest clock_rules | assumption)+

lemma clock_adjust_reward: "same_clock d d1 \<Longrightarrow> clock_res d (adjust_reward_balance F n x d1)"
  unfolding adjust_reward_balance_def by (rule clock_rules | assumption)+

lemma clock_single_walk: "same_clock d d1 \<Longrightarrow> clock_res d (adjust_proxied_witness_vote F n x k d1)"
  using neutral_single_walk[of d1 d1 F n x k] by (auto simp: kept_def dest: neutral_clock intro: same_clock_trans)

lemma clock_createSCORE: "same_clock d d1 \<Longrightarrow> clock_pair d (createTMEfundForSCORE F n c r d1)"
  unfolding createTMEfundForSCORE_def
  by (rule clock_single_walk clock_rules clock_modify_gpo | assumption | (auto simp: bind_Some_iff split: if_splits; fail))+

lemmas clock_money_rules = clock_adjust_balance clock_adjust_savings clock_adjust_reward clock_single_walk clock_createSCORE clock_rules

section \<open>The market\<close>

lemma clock_cancel_order: "same_clock d d1 \<Longrightarrow> clock_res d (cancel_order F r d1)"
  unfolding cancel_order_def by (rule clock_money_rules | assumption)+

lemma clock_fill_order: "same_clock d d1 \<Longrightarrow> clock_pair d (fill_order F r x y d1)"
  unfolding fill_order_def by (rule clock_cancel_order clock_money_rules | assumption | (simp; fail))+

lemma clock_reward_liquidity: "same_clock d d1 \<Longrightarrow> clock_res d (reward_liquidity F n x y z d1)"
  unfolding reward_liquidity_def by (rule clock_money_rules | assumption)+

lemma clock_match: "same_clock d d1 \<Longrightarrow> clock_pair d (match F new old p d1)"
  unfolding match_def
  by (rule clock_reward_liquidity clock_fill_order clock_money_rules | assumption | (simp; fail))+

lemma clock_order_loop: "same_clock d d1 \<Longrightarrow> clock_res d (apply_order_loop F new rs d1)"
  by (induction rs arbitrary: d1) (simp_all only: apply_order_loop.simps, (rule clock_match clock_rules | assumption | blast)+)

lemma clock_apply_order: "same_clock d d1 \<Longrightarrow> clock_pair d (apply_order F new d1)"
  unfolding apply_order_def by (rule clock_order_loop clock_rules | assumption | (simp; fail))+

section \<open>Every operation keeps the clock\<close>

lemma clock_refund: "same_clock d d1 \<Longrightarrow> clock_res d (refund_escrow F m e d1)"
  unfolding refund_escrow_def by (rule clock_money_rules | assumption)+

lemmas clock_all = clock_apply_order clock_cancel_order clock_refund clock_money_rules

lemma clock_transfers:
  "clock_res d (transfer_do_apply F tr d)" "clock_res d (transferToSavings_do_apply F ts d)"
  "clock_res d (transferFromSavings_do_apply F fs d)" "clock_res d (cancelTransferFromSavings_do_apply F cs d)"
  "clock_res d (convert_do_apply F cv d)"
  unfolding transfer_do_apply_def transferToSavings_do_apply_def transferFromSavings_do_apply_def
    cancelTransferFromSavings_do_apply_def convert_do_apply_def
  by (rule clock_start, (rule clock_all | assumption | (simp; fail))+)+

lemma clock_escrows:
  "clock_res d (escrow_transfer_do_apply F et d)" "clock_res d (escrow_approve_do_apply F ea d)"
  "clock_res d (escrow_dispute_do_apply ed d)" "clock_res d (escrow_release_do_apply F er d)"
  unfolding escrow_transfer_do_apply_def escrow_approve_do_apply_def escrow_dispute_do_apply_def escrow_release_do_apply_def
  by (rule clock_start, (rule clock_all | assumption | (simp; fail))+)+

lemma clock_orders:
  "clock_res d (limit_order_create_do_apply F lo d)" "clock_res d (limit_order_create2_do_apply F lo2 d)"
  "clock_res d (limit_order_cancel_do_apply F lc d)"
  unfolding limit_order_create_do_apply_def limit_order_create2_do_apply_def limit_order_cancel_do_apply_def
  by (rule clock_start, (rule clock_all | assumption | (simp; fail))+)+

lemma clock_stakes:
  "clock_res d (transferTMEtoSCOREfund_do_apply F tf d)" "clock_res d (withdrawSCORE_do_apply F ws d)"
  "clock_res d (setWithdrawSCOREasTMEroute_do_apply wr d)" "clock_res d (claimRewardBalance_do_apply F cl d)"
  unfolding transferTMEtoSCOREfund_do_apply_def withdrawSCORE_do_apply_def setWithdrawSCOREasTMEroute_do_apply_def
    claimRewardBalance_do_apply_def
  by (rule clock_start, (rule clock_all clock_modify_gpo | assumption | (auto simp: bind_Some_iff; fail))+)+

lemma clock_accounts:
  "clock_res d (accountCreate_do_apply F ac d)" "clock_res d (accountCreateWithDelegation_do_apply F acd d)"
  "clock_res d (challenge_authority_do_apply F ch d)"
  unfolding accountCreate_do_apply_def accountCreateWithDelegation_do_apply_def challenge_authority_do_apply_def
  by (rule clock_start, (rule clock_all | assumption | (auto simp: bind_Some_iff; fail))+)+

lemma evaluate_clock: "evaluate C F op d = Some d' \<Longrightarrow> same_clock d d'"
proof -
  assume e: "evaluate C F op d = Some d'"
  note rules = neutral_operations[THEN neutral_resD, THEN neutral_clock]
    clock_transfers[THEN keptD] clock_escrows[THEN keptD] clock_orders[THEN keptD] clock_stakes[THEN keptD] clock_accounts[THEN keptD]
  show ?thesis
    using e
    by (cases op; (simp only: evaluate.simps)?)
      ((rule rules; assumption)
       | (auto simp: reset_account_do_apply_def set_reset_account_do_apply_def dest!: custom_unchanged; fail))+
qed

end
