(* ===== verification/Blocks.thy ===== *)
theory Blocks
  imports Clock
begin

unbundle bit_operations_syntax

text \<open>
  Transactions and block headers as the database processes them: \<open>_apply_transaction\<close>,
  \<open>clear_expired_transactions\<close>, \<open>push_transaction\<close>, the slot clock and the bookkeeping of a new head block
  (\<open>libraries/chain/database.cpp\<close>, \<open>libraries/protocol/transaction.cpp\<close>, \<open>libraries/protocol/block.cpp\<close>).

  Hashes, packing and signature recovery are libfc's; \<open>crypto_lib\<close> holds them as functions, from a
  transaction or a block to the words of its digest.  A \<open>ripemd160\<close> id is the list of its five 32-bit words.
  \<open>node_state\<close> adds to the objects of \<open>chain_db\<close> what only this theory reads: the id of the head block, the
  index of known transactions, the block summaries and the version of the last hardfork.
\<close>

section \<open>Transactions and blocks\<close>

type_synonym hash_words = "nat list"
type_synonym signature_type = "nat list"

record signed_transaction =
  stx_transaction :: transaction
  stx_signatures :: "signature_type list"

datatype block_header_extension = Void_t | Version nat | Hardfork_vote nat time

record signed_block =
  blk_previous :: hash_words
  blk_timestamp :: time
  blk_witness :: account_name_type
  blk_transaction_merkle_root :: hash_words
  blk_extensions :: "block_header_extension list"
  blk_witness_signature :: signature_type
  blk_transactions :: "signed_transaction list"

record crypto_lib =
  trx_digest :: "transaction \<Rightarrow> hash_words"
  trx_sig_digest :: "transaction \<Rightarrow> hash_words"
  trx_merkle_digest :: "signed_transaction \<Rightarrow> hash_words"
  trx_pack :: "signed_transaction \<Rightarrow> nat list"
  trx_unpack :: "nat list \<Rightarrow> signed_transaction option"
  block_pack_size :: "signed_block \<Rightarrow> nat"
  header_digest :: "signed_block \<Rightarrow> hash_words"
  header_sha224 :: "signed_block \<Rightarrow> hash_words"
  hash_pair :: "hash_words \<Rightarrow> hash_words \<Rightarrow> hash_words"
  hash_root :: "hash_words \<Rightarrow> hash_words"
  recover_key :: "signature_type \<Rightarrow> hash_words \<Rightarrow> public_key_type option"
  endian_reverse_u32 :: "nat \<Rightarrow> nat"
  ripemd160_of_hex :: "string \<Rightarrow> hash_words"

definition transaction_id :: "crypto_lib \<Rightarrow> transaction \<Rightarrow> hash_words" where
  "transaction_id H t = take 5 (trx_digest H t)"

definition set_reference_block :: "crypto_lib \<Rightarrow> hash_words \<Rightarrow> transaction \<Rightarrow> transaction" where
  "set_reference_block H reference_block t = t\<lparr>
     trx_ref_block_num := endian_reverse_u32 H (reference_block ! 0) mod 2 ^ 16,
     trx_ref_block_prefix := reference_block ! 1\<rparr>"

fun signature_keys_loop ::
  "crypto_lib \<Rightarrow> hash_words \<Rightarrow> signature_type list \<Rightarrow> public_key_type list \<Rightarrow> public_key_type list option" where
  "signature_keys_loop H h [] result = Some result"
| "signature_keys_loop H h (sig # sigs) result = do {
     k \<leftarrow> recover_key H sig h;
     FC_ASSERT (k \<notin> set result);
     signature_keys_loop H h sigs (insort_insert k result) }"

definition get_signature_keys :: "crypto_lib \<Rightarrow> signed_transaction \<Rightarrow> public_key_type list option" where
  "get_signature_keys H t = signature_keys_loop H (trx_sig_digest H (stx_transaction t)) (stx_signatures t) []"

definition signed_transaction_verify_authority ::
  "crypto_lib \<Rightarrow> signed_transaction \<Rightarrow> authority_getter \<Rightarrow> authority_getter \<Rightarrow> authority_getter \<Rightarrow> nat \<Rightarrow> auth_error + unit" where
  "signed_transaction_verify_authority H t get_act get_own get_post depth =
     (case get_signature_keys H t of
        None \<Rightarrow> Inl Assert_exception
      | Some keys \<Rightarrow> verify_authority (trx_operations (stx_transaction t)) keys get_act get_own get_post depth [] [] [])"

definition num_from_id :: "crypto_lib \<Rightarrow> hash_words \<Rightarrow> nat" where
  "num_from_id H i = endian_reverse_u32 H (i ! 0)"

definition block_num :: "crypto_lib \<Rightarrow> signed_block \<Rightarrow> nat" where
  "block_num H b = (num_from_id H (blk_previous b) + 1) mod 2 ^ 32"

definition block_id :: "crypto_lib \<Rightarrow> signed_block \<Rightarrow> hash_words" where
  "block_id H b = take 5 ((header_sha224 H b)[0 := endian_reverse_u32 H (block_num H b)])"

definition validate_signee :: "crypto_lib \<Rightarrow> signed_block \<Rightarrow> public_key_type \<Rightarrow> bool option" where
  "validate_signee H b expected = do { k \<leftarrow> recover_key H (blk_witness_signature b) (header_digest H b); Some (k = expected) }"

fun hash_level :: "crypto_lib \<Rightarrow> hash_words list \<Rightarrow> hash_words list" where
  "hash_level H (a # b # ids) = hash_pair H a b # hash_level H ids"
| "hash_level H ids = ids"

lemma hash_level_length: "2 * length (hash_level H ids) \<le> length ids + 1"
  by (induction H ids rule: hash_level.induct) auto

function merkle_loop :: "crypto_lib \<Rightarrow> hash_words list \<Rightarrow> hash_words list" where
  "merkle_loop H ids = (if length ids > 1 then merkle_loop H (hash_level H ids) else ids)"
  by auto
termination
proof (relation "measure (length \<circ> snd)")
  fix H :: crypto_lib and ids :: "hash_words list"
  assume "1 < length ids"
  then show "((H, hash_level H ids), H, ids) \<in> measure (length \<circ> snd)" using hash_level_length[of H ids] by simp
qed simp

declare merkle_loop.simps [simp del]

definition calculate_merkle_root :: "crypto_lib \<Rightarrow> signed_block \<Rightarrow> hash_words" where
  "calculate_merkle_root H b =
     (if length (blk_transactions b) = 0 then replicate 5 0
      else hash_root H (merkle_loop H (map (trx_merkle_digest H) (blk_transactions b)) ! 0))"

section \<open>The state of the node\<close>

record transaction_object =
  txo_id :: nat
  txo_packed_trx :: "nat list"
  txo_trx_id :: hash_words
  txo_expiration :: time

record node_state =
  ns_db :: chain_db
  ns_head_block_id :: hash_words
  ns_transactions :: "transaction_object list"
  ns_next_transaction_id :: nat
  ns_block_summaries :: "nat \<Rightarrow> hash_words option"
  ns_current_hardfork_version :: nat

type_synonym skip_flags = "32 word"

definition skip_witness_signature :: skip_flags where "skip_witness_signature = push_bit 0 1"
definition skip_transaction_signatures :: skip_flags where "skip_transaction_signatures = push_bit 1 1"
definition skip_transaction_dupe_check :: skip_flags where "skip_transaction_dupe_check = push_bit 2 1"
definition skip_tapos_check :: skip_flags where "skip_tapos_check = push_bit 5 1"
definition skip_authority_check :: skip_flags where "skip_authority_check = push_bit 6 1"
definition skip_merkle_check :: skip_flags where "skip_merkle_check = push_bit 7 1"
definition skip_undo_history_check :: skip_flags where "skip_undo_history_check = push_bit 8 1"
definition skip_witness_schedule_check :: skip_flags where "skip_witness_schedule_check = push_bit 9 1"
definition skip_validate :: skip_flags where "skip_validate = push_bit 10 1"

definition skips :: "skip_flags \<Rightarrow> skip_flags \<Rightarrow> bool" where
  "skips skip flag \<longleftrightarrow> (skip AND flag) \<noteq> 0"

definition find_transaction :: "hash_words \<Rightarrow> node_state \<Rightarrow> transaction_object option" where
  "find_transaction i s = List.find (\<lambda>x. txo_trx_id x = i) (ns_transactions s)"

definition is_known_transaction :: "hash_words \<Rightarrow> node_state \<Rightarrow> bool" where
  "is_known_transaction i s \<longleftrightarrow> find_transaction i s \<noteq> None"

definition get_recent_transaction :: "crypto_lib \<Rightarrow> hash_words \<Rightarrow> node_state \<Rightarrow> signed_transaction option" where
  "get_recent_transaction H i s = do { x \<leftarrow> find_transaction i s; trx_unpack H (txo_packed_trx x) }"

definition create_transaction :: "transaction_object \<Rightarrow> node_state \<Rightarrow> node_state option" where
  "create_transaction x s = do {
     xs \<leftarrow> tbl_emplace (\<lambda>x y. txo_trx_id x = txo_trx_id y)
            (x\<lparr>txo_id := ns_next_transaction_id s\<rparr>) (ns_transactions s);
     Some (s\<lparr>ns_transactions := xs, ns_next_transaction_id := Suc (ns_next_transaction_id s)\<rparr>) }"

definition remove_transaction :: "hash_words \<Rightarrow> node_state \<Rightarrow> node_state" where
  "remove_transaction i s = s\<lparr>ns_transactions := tbl_remove (\<lambda>x. txo_trx_id x = i) (ns_transactions s)\<rparr>"

section \<open>Applying a transaction\<close>

definition MAX_TIME_UNTIL_EXPIRATION :: int where "MAX_TIME_UNTIL_EXPIRATION = 60 * 60"

text \<open>The block numbers of \<open>get_shared_db_merkle\<close>, with the roots they are exempted for.\<close>

definition shared_db_merkle :: "(int \<times> string) list" where
  "shared_db_merkle = [
     (3705111, ''0a8f0fd5450c3706ec8b8cbad795cd0b3679bf35''), (3705120, ''2027edb72b671f7011c8cc4c7a8b59c39b305093''),
     (3713940, ''bf8a1d516927c506ebdbb7b38bef2e992435435f''), (3714132, ''e8b77773d268b72c8d650337b8cce360bbe64779''),
     (3714567, ''45af59a8c2d7d4a606151ef5dae03d2dfe13fbdd''), (3714588, ''e64275443bdc82f104ac936486d367af8f6d1584''),
     (4138790, ''f65a3a788a2ef52406d8ba5705d7288be228403f''), (5435426, ''0b32538b2d22bd3146d54b6e3cb5ae8b9780e8a5'')]"

definition check_signatures :: "crypto_lib \<Rightarrow> signed_transaction \<Rightarrow> chain_db \<Rightarrow> unit option" where
  "check_signatures H t d =
     (let get_active = (\<lambda>n. map_option aa_active (get_authority n d));
          get_owner = (\<lambda>n. map_option aa_owner (get_authority n d));
          get_posting = (\<lambda>n. map_option aa_posting (get_authority n d)) in
      case signed_transaction_verify_authority H t get_active get_owner get_posting MAX_SIG_CHECK_DEPTH of
        Inr _ \<Rightarrow> Some ()
      | Inl Tx_missing_active_auth \<Rightarrow> FC_ASSERT (map_of shared_db_merkle (head_block_num d + 1) \<noteq> None)
      | Inl _ \<Rightarrow> None)"

definition check_expiration :: "fc_lib \<Rightarrow> skip_flags \<Rightarrow> transaction \<Rightarrow> node_state \<Rightarrow> unit option" where
  "check_expiration F skip t s =
     (let d = ns_db s; now = head_block_time d in
      if head_block_num d > 0 then do {
        (if \<not> skips skip skip_tapos_check then do {
           tapos \<leftarrow> ns_block_summaries s (trx_ref_block_num t);
           FC_ASSERT (trx_ref_block_prefix t = tapos ! 1) } else Some ());
        FC_ASSERT (trx_expiration t \<le> secs_add F now MAX_TIME_UNTIL_EXPIRATION);
        (if has_hardfork 9 d then FC_ASSERT (now < trx_expiration t) else Some ());
        FC_ASSERT (now \<le> trx_expiration t) }
      else Some ())"

text \<open>\<open>apply_operation\<close> between its notifications.\<close>

fun apply_operations :: "node_config \<Rightarrow> fc_lib \<Rightarrow> operation list \<Rightarrow> chain_db \<Rightarrow> chain_db option" where
  "apply_operations C F [] d = Some d"
| "apply_operations C F (op # ops) d = do { d1 \<leftarrow> evaluate C F op d; apply_operations C F ops d1 }"

definition apply_transaction ::
  "node_config \<Rightarrow> fc_lib \<Rightarrow> crypto_lib \<Rightarrow> skip_flags \<Rightarrow> signed_transaction \<Rightarrow> node_state \<Rightarrow> node_state option" where
  "apply_transaction C F H skip stx s = do {
     let t = stx_transaction stx;
     (if \<not> skips skip skip_validate then transaction_validate F t else Some ());
     FC_ASSERT (skips skip skip_transaction_dupe_check \<or> find_transaction (transaction_id H t) s = None);
     (if \<not> skips skip (skip_transaction_signatures OR skip_authority_check) then check_signatures H stx (ns_db s) else Some ());
     check_expiration F skip t s;
     s1 \<leftarrow> (if \<not> skips skip skip_transaction_dupe_check
           then create_transaction \<lparr>txo_id = 0, txo_packed_trx = trx_pack H stx, txo_trx_id = transaction_id H t,
                  txo_expiration = trx_expiration t\<rparr> s
           else Some s);
     d1 \<leftarrow> apply_operations C F (trx_operations t) (ns_db s1);
     Some (s1\<lparr>ns_db := d1\<rparr>) }"

text \<open>The duplicates that are remembered are forgotten in the order of their expiration; the rows bound the
  rounds of the loop.\<close>

fun expired_transactions_loop :: "nat \<Rightarrow> node_state \<Rightarrow> node_state option" where
  "expired_transactions_loop 0 s = Some s"
| "expired_transactions_loop (Suc n) s =
     (case idx_begin txo_expiration (ns_transactions s) of
        None \<Rightarrow> Some s
      | Some x \<Rightarrow>
          if head_block_time (ns_db s) > txo_expiration x
          then expired_transactions_loop n (remove_transaction (txo_trx_id x) s)
          else Some s)"

definition clear_expired_transactions :: "node_state \<Rightarrow> node_state option" where
  "clear_expired_transactions s = expired_transactions_loop (length (ns_transactions s)) s"

section \<open>Slots\<close>

definition BLOCK_INTERVAL :: int where "BLOCK_INTERVAL = 1"

definition get_scheduled_witness :: "int \<Rightarrow> chain_db \<Rightarrow> account_name_type option" where
  "get_scheduled_witness slot_num d = do {
     let wso = db_wso d;
     let current_aslot = (gpo_current_aslot (db_gpo d) + slot_num) mod 2 ^ 64;
     FC_ASSERT (wso_num_scheduled_witnesses wso \<noteq> 0);
     let i = nat current_aslot mod wso_num_scheduled_witnesses wso;
     (if i < length (wso_current_shuffled_witnesses wso) then Some (wso_current_shuffled_witnesses wso ! i) else None) }"

definition get_slot_time :: "fc_lib \<Rightarrow> int \<Rightarrow> chain_db \<Rightarrow> time" where
  "get_slot_time F slot_num d =
     (if slot_num = 0 then 0
      else if head_block_num d = 0 then secs_add F (gpo_time (db_gpo d)) (slot_num * BLOCK_INTERVAL mod 2 ^ 32)
      else secs_add F (head_block_time d div BLOCK_INTERVAL * BLOCK_INTERVAL) (slot_num * BLOCK_INTERVAL mod 2 ^ 32))"

definition get_slot_at_time :: "fc_lib \<Rightarrow> time \<Rightarrow> chain_db \<Rightarrow> int" where
  "get_slot_at_time F when d =
     (let first_slot_time = get_slot_time F 1 d in
      if when < first_slot_time then 0
      else (secs_diff F when first_slot_time div BLOCK_INTERVAL + 1) mod 2 ^ 32)"

section \<open>A new head block\<close>

definition validate_block_header :: "fc_lib \<Rightarrow> crypto_lib \<Rightarrow> skip_flags \<Rightarrow> signed_block \<Rightarrow> node_state \<Rightarrow> witness_object option" where
  "validate_block_header F H skip b s = do {
     let d = ns_db s;
     FC_ASSERT (ns_head_block_id s = blk_previous b);
     FC_ASSERT (head_block_time d < blk_timestamp b);
     witness \<leftarrow> get_witness (blk_witness b) d;
     (if \<not> skips skip skip_witness_signature then FC_ASSERT_opt (validate_signee H b (wit_signing_key witness)) else Some ());
     (if \<not> skips skip skip_witness_schedule_check then do {
        let slot_num = get_slot_at_time F (blk_timestamp b) d;
        FC_ASSERT (slot_num > 0);
        scheduled_witness \<leftarrow> get_scheduled_witness slot_num d;
        FC_ASSERT (wit_owner witness = scheduled_witness) } else Some ());
     Some witness }"

fun process_header_extensions :: "account_name_type \<Rightarrow> block_header_extension list \<Rightarrow> chain_db \<Rightarrow> chain_db option" where
  "process_header_extensions n [] d = Some d"
| "process_header_extensions n (Void_t # es) d = process_header_extensions n es d"
| "process_header_extensions n (Version v # es) d = do {
     w \<leftarrow> get_witness n d;
     d1 \<leftarrow> (if v \<noteq> wit_running_version w
           then modify_witness_id (wit_id w) (\<lambda>w. Some (w\<lparr>wit_running_version := v\<rparr>)) d else Some d);
     process_header_extensions n es d1 }"
| "process_header_extensions n (Hardfork_vote v t # es) d = do {
     w \<leftarrow> get_witness n d;
     d1 \<leftarrow> (if v \<noteq> wit_hardfork_version_vote w \<or> t \<noteq> wit_hardfork_time_vote w
           then modify_witness_id (wit_id w) (\<lambda>w. Some (w\<lparr>wit_hardfork_version_vote := v, wit_hardfork_time_vote := t\<rparr>)) d
           else Some d);
     process_header_extensions n es d1 }"

text \<open>The witnesses of the slots between the last block and this one; the last of them produced this block.\<close>

fun missed_loop :: "account_name_type \<Rightarrow> int list \<Rightarrow> chain_db \<Rightarrow> chain_db option" where
  "missed_loop producer [] d = Some d"
| "missed_loop producer (i # is) d = do {
     n \<leftarrow> get_scheduled_witness (i + 1) d;
     w \<leftarrow> get_witness n d;
     d1 \<leftarrow> (if wit_owner w \<noteq> producer
           then modify_witness_id (wit_id w) (\<lambda>w. Some (
                  let w = w\<lparr>wit_total_missed := (wit_total_missed w + 1) mod 2 ^ 32\<rparr> in
                  if has_hardfork 14 d \<and> (head_block_num d - wit_last_confirmed_block_num w) mod 2 ^ 32 > BLOCKS_PER_DAY
                  then w\<lparr>wit_signing_key := 0\<rparr> else w)) d
           else Some d);
     missed_loop producer is d1 }"

fun participation_loop :: "fc_lib \<Rightarrow> int list \<Rightarrow> int \<times> int \<Rightarrow> int \<times> int" where
  "participation_loop F [] (filled, participation) = (filled, participation)"
| "participation_loop F (i # is) (filled, participation) =
     (let participation = (participation - (if u128_hi F filled \<ge> 2 ^ 63 then 1 else 0)) mod 256;
          filled = u128_add F (u128_shl F filled 1) (if i = 0 then 1 else 0);
          participation = (participation + (if i = 0 then 1 else 0)) mod 256 in
      participation_loop F is (filled, participation))"

definition MAX_UNDO_HISTORY :: int where "MAX_UNDO_HISTORY = 10000"

text \<open>The slots that were missed since the last block, and the state in which they are counted.  The C
  \<open>assert( missed_blocks != 0 )\<close>, which aborts a debug build, is a throw here; a block that passed
  \<open>validate_block_header\<close> has a slot of at least 1.\<close>

definition count_missed :: "fc_lib \<Rightarrow> signed_block \<Rightarrow> chain_db \<Rightarrow> (int \<times> chain_db) option" where
  "count_missed F b d =
     (if head_block_time d \<noteq> 0 then do {
        let slot = get_slot_at_time F (blk_timestamp b) d;
        FC_ASSERT (slot \<noteq> 0);
        d1 \<leftarrow> missed_loop (blk_witness b) [0..slot - 2] d;
        Some (slot - 1, d1) }
      else Some (0, d))"

definition advance_gpo :: "fc_lib \<Rightarrow> crypto_lib \<Rightarrow> signed_block \<Rightarrow> int \<Rightarrow> dynamic_global_property_object \<Rightarrow> dynamic_global_property_object" where
  "advance_gpo F H b missed_blocks g =
     (let (filled, participation) =
        participation_loop F [0..missed_blocks] (gpo_recent_slots_filled g, gpo_participation_count g) in
      g\<lparr>gpo_recent_slots_filled := filled, gpo_participation_count := participation,
        gpo_head_block_number := int (block_num H b), gpo_time := blk_timestamp b,
        gpo_current_aslot := (gpo_current_aslot g + missed_blocks + 1) mod 2 ^ 64\<rparr>)"

definition update_global_dynamic_data :: "fc_lib \<Rightarrow> crypto_lib \<Rightarrow> skip_flags \<Rightarrow> signed_block \<Rightarrow> node_state \<Rightarrow> node_state option" where
  "update_global_dynamic_data F H skip b s = do {
     (missed_blocks, d1) \<leftarrow> count_missed F b (ns_db s);
     let g = advance_gpo F H b missed_blocks (db_gpo d1);
     (if \<not> skips skip skip_undo_history_check
      then FC_ASSERT ((gpo_head_block_number g - gpo_last_irreversible_block_num g) mod 2 ^ 32 < MAX_UNDO_HISTORY) else Some ());
     Some (s\<lparr>ns_db := d1\<lparr>db_gpo := g\<rparr>, ns_head_block_id := block_id H b\<rparr>) }"

definition update_signing_witness :: "fc_lib \<Rightarrow> crypto_lib \<Rightarrow> nat \<Rightarrow> signed_block \<Rightarrow> chain_db \<Rightarrow> chain_db option" where
  "update_signing_witness F H signing_witness b d =
     (let new_block_aslot = (gpo_current_aslot (db_gpo d) + get_slot_at_time F (blk_timestamp b) d) mod 2 ^ 64 in
      modify_witness_id signing_witness (\<lambda>w. Some (w\<lparr>wit_last_aslot := new_block_aslot,
        wit_last_confirmed_block_num := int (block_num H b)\<rparr>)) d)"

definition create_block_summary :: "crypto_lib \<Rightarrow> signed_block \<Rightarrow> node_state \<Rightarrow> node_state option" where
  "create_block_summary H b s = do {
     let sid = block_num H b mod 2 ^ 16;
     FC_ASSERT (ns_block_summaries s sid \<noteq> None);
     Some (s\<lparr>ns_block_summaries := (ns_block_summaries s)(sid \<mapsto> block_id H b)\<rparr>) }"

section \<open>The last irreversible block\<close>

definition START_MINER_VOTING_BLOCK :: int where "START_MINER_VOTING_BLOCK = BLOCKS_PER_DAY * 1"
definition MAX_WITNESSES :: nat where "MAX_WITNESSES = 50"
definition IRREVERSIBLE_THRESHOLD :: int where "IRREVERSIBLE_THRESHOLD = 75 * (PERCENT_100 div 100)"

text \<open>\<open>nth_element\<close> puts at \<open>offset\<close> what a sorted sequence has there.\<close>

definition irreversible_candidate :: "witness_object list \<Rightarrow> int option" where
  "irreversible_candidate ws =
     (let offset = nat ((PERCENT_100 - IRREVERSIBLE_THRESHOLD) * int (length ws) div PERCENT_100) in
      if offset < length ws then Some (sort (map wit_last_confirmed_block_num ws) ! offset) else None)"

fun scheduled_witnesses :: "account_name_type list \<Rightarrow> chain_db \<Rightarrow> witness_object list option" where
  "scheduled_witnesses [] d = Some []"
| "scheduled_witnesses (n # ns) d = do { w \<leftarrow> get_witness n d; ws \<leftarrow> scheduled_witnesses ns d; Some (w # ws) }"

definition update_last_irreversible_block :: "chain_db \<Rightarrow> chain_db option" where
  "update_last_irreversible_block d =
     (if head_block_num d < START_MINER_VOTING_BLOCK then
        modify_gpo (\<lambda>g. Some (if head_block_num d > int MAX_WITNESSES
          then g\<lparr>gpo_last_irreversible_block_num := head_block_num d - int MAX_WITNESSES\<rparr> else g)) d
      else do {
        let wso = db_wso d;
        FC_ASSERT (wso_num_scheduled_witnesses wso \<le> length (wso_current_shuffled_witnesses wso));
        ws \<leftarrow> scheduled_witnesses (take (wso_num_scheduled_witnesses wso) (wso_current_shuffled_witnesses wso)) d;
        new_last_irreversible_block_num \<leftarrow> irreversible_candidate ws;
        (if new_last_irreversible_block_num > gpo_last_irreversible_block_num (db_gpo d)
         then modify_gpo (\<lambda>g. Some (g\<lparr>gpo_last_irreversible_block_num := new_last_irreversible_block_num\<rparr>)) d
         else Some d) })"

section \<open>Applying a block\<close>

definition check_merkle_root :: "crypto_lib \<Rightarrow> skip_flags \<Rightarrow> signed_block \<Rightarrow> unit option" where
  "check_merkle_root H skip b =
     (let merkle_root = calculate_merkle_root H b in
      if skips skip skip_merkle_check \<or> blk_transaction_merkle_root b = merkle_root then Some ()
      else case map_of shared_db_merkle (int (block_num H b)) of
        None \<Rightarrow> None
      | Some hex \<Rightarrow> FC_ASSERT (ripemd160_of_hex H hex = merkle_root))"

fun apply_transactions ::
  "node_config \<Rightarrow> fc_lib \<Rightarrow> crypto_lib \<Rightarrow> skip_flags \<Rightarrow> signed_transaction list \<Rightarrow> node_state \<Rightarrow> node_state option" where
  "apply_transactions C F H skip [] s = Some s"
| "apply_transactions C F H skip (t # ts) s = do { s1 \<leftarrow> apply_transaction C F H skip t s; apply_transactions C F H skip ts s1 }"

text \<open>The first half of \<open>_apply_block\<close>: the checks of the block, its transactions, and the new head up to
  \<open>clear_expired_transactions\<close>.  What follows are the periodic tasks of the other theories.\<close>

definition apply_block_head ::
  "node_config \<Rightarrow> fc_lib \<Rightarrow> crypto_lib \<Rightarrow> skip_flags \<Rightarrow> signed_block \<Rightarrow> node_state \<Rightarrow> node_state option" where
  "apply_block_head C F H skip b s = do {
     check_merkle_root H skip b;
     signing_witness \<leftarrow> validate_block_header F H skip b s;
     (if has_hardfork 12 (ns_db s)
      then FC_ASSERT (int (block_pack_size H b) \<le> gpo_maximum_block_size (db_gpo (ns_db s))) else Some ());
     d1 \<leftarrow> modify_gpo (\<lambda>g. Some (g\<lparr>gpo_current_witness := blk_witness b\<rparr>)) (ns_db s);
     d2 \<leftarrow> process_header_extensions (blk_witness b) (blk_extensions b) d1;
     (if has_hardfork 5 d2 then do {
        w \<leftarrow> get_witness (blk_witness b) d2;
        FC_ASSERT (wit_running_version w \<ge> ns_current_hardfork_version s) } else Some ());
     s3 \<leftarrow> apply_transactions C F H skip (blk_transactions b) (s\<lparr>ns_db := d2\<rparr>);
     s4 \<leftarrow> update_global_dynamic_data F H skip b s3;
     d5 \<leftarrow> update_signing_witness F H (wit_id signing_witness) b (ns_db s4);
     d6 \<leftarrow> update_last_irreversible_block d5;
     s7 \<leftarrow> create_block_summary H b (s4\<lparr>ns_db := d6\<rparr>);
     clear_expired_transactions s7 }"

end
