(* ===== verification/Replay.thy ===== *)
theory Replay
  imports Blocks
begin

text \<open>
  No transaction takes effect twice.  \<open>node_run\<close> follows the state of the node along a branch of the chain:
  single transactions as they are pushed, whole blocks up to their new head, and the periodic tasks after it, of which
  it only asks that they leave the clock and the index of known transactions alone.  A remembered transaction
  is forgotten when the head block is past its expiration, and from then on the same transaction is refused as expired.
\<close>

section \<open>Runs of the node\<close>

inductive node_run ::
  "fc_lib \<Rightarrow> crypto_lib \<Rightarrow> node_state \<Rightarrow> signed_transaction list \<Rightarrow> node_state \<Rightarrow> bool" for F H s where
  start: "node_run F H s [] s"
| trx: "node_run F H s log s1 \<Longrightarrow> \<not> skips skip skip_transaction_dupe_check \<Longrightarrow>
        apply_transaction C F H skip t s1 = Some s2 \<Longrightarrow> node_run F H s (log @ [t]) s2"
| block: "node_run F H s log s1 \<Longrightarrow> \<not> skips skip skip_transaction_dupe_check \<Longrightarrow> 0 < block_num H b \<Longrightarrow>
          apply_block_head C F H skip b s1 = Some s2 \<Longrightarrow> node_run F H s (log @ blk_transactions b) s2"
| tasks: "node_run F H s log s1 \<Longrightarrow> head_block_time (ns_db s2) = head_block_time (ns_db s1) \<Longrightarrow>
          head_block_num (ns_db s2) = head_block_num (ns_db s1) \<Longrightarrow> ns_transactions s2 = ns_transactions s1 \<Longrightarrow>
          node_run F H s log s2"

abbreviation stx_id :: "crypto_lib \<Rightarrow> signed_transaction \<Rightarrow> hash_words" where
  "stx_id H t \<equiv> transaction_id H (stx_transaction t)"

abbreviation stx_expiration :: "signed_transaction \<Rightarrow> time" where
  "stx_expiration t \<equiv> trx_expiration (stx_transaction t)"

text \<open>A transaction that took effect is remembered or past its expiration.\<close>

definition remembered :: "crypto_lib \<Rightarrow> node_state \<Rightarrow> signed_transaction \<Rightarrow> bool" where
  "remembered H s t \<longleftrightarrow> (\<exists>r \<in> set (ns_transactions s). txo_trx_id r = stx_id H t \<and> txo_expiration r = stx_expiration t)"

definition past :: "node_state \<Rightarrow> signed_transaction \<Rightarrow> bool" where
  "past s t \<longleftrightarrow> head_block_num (ns_db s) > 0 \<and> stx_expiration t < head_block_time (ns_db s)"

definition run_ok :: "crypto_lib \<Rightarrow> signed_transaction list \<Rightarrow> node_state \<Rightarrow> bool" where
  "run_ok H log s \<longleftrightarrow> distinct (map txo_trx_id (ns_transactions s)) \<and> (\<forall>t \<in> set log. remembered H s t \<or> past s t)
     \<and> (inj_on (transaction_id H) (stx_transaction ` set log) \<longrightarrow> distinct (map (stx_id H) log))"

section \<open>The steps\<close>

lemma operations_clock: "apply_operations C F ops d = Some d' \<Longrightarrow> same_clock d d'"
  by (induction ops arbitrary: d) (auto simp: bind_Some_iff dest: evaluate_clock intro: same_clock_trans)

lemma apply_transaction_cases:
  assumes "apply_transaction C F H skip t s = Some s'" "\<not> skips skip skip_transaction_dupe_check"
  obtains r where "find_transaction (stx_id H t) s = None" "check_expiration F skip (stx_transaction t) s = Some ()"
    "txo_trx_id r = stx_id H t" "txo_expiration r = stx_expiration t"
    "ns_transactions s' = ns_transactions s @ [r]" "same_clock (ns_db s) (ns_db s')"
proof -
  let ?r = "\<lparr>txo_id = ns_next_transaction_id s, txo_packed_trx = trx_pack H t, txo_trx_id = stx_id H t,
     txo_expiration = stx_expiration t\<rparr>"
  have "find_transaction (stx_id H t) s = None \<and> check_expiration F skip (stx_transaction t) s = Some ()
      \<and> ns_transactions s' = ns_transactions s @ [?r] \<and> same_clock (ns_db s) (ns_db s')"
    using assms
    by (auto simp: apply_transaction_def create_transaction_def bind_Some_iff tbl_emplace_Some Let_def dest!: operations_clock)
  then show thesis by (intro that[of ?r]) auto
qed

lemma check_expiration_time:
  "check_expiration F skip t s = Some () \<Longrightarrow> head_block_num (ns_db s) > 0 \<Longrightarrow> head_block_time (ns_db s) \<le> trx_expiration t"
  by (auto simp: check_expiration_def bind_Some_iff Let_def)

lemma past_clock: "past s t \<Longrightarrow> same_clock (ns_db s) (ns_db s') \<Longrightarrow> past s' t"
  by (simp add: past_def same_clock_def)

lemma run_ok_transaction:
  assumes ok: "run_ok H log s" and skip: "\<not> skips skip skip_transaction_dupe_check"
    and ap: "apply_transaction C F H skip t s = Some s'"
  shows "run_ok H (log @ [t]) s'"
  using ap skip
proof (cases rule: apply_transaction_cases)
  case (1 r)
  have fresh: "stx_id H t \<notin> txo_trx_id ` set (ns_transactions s)"
    using 1(1) by (auto simp: find_transaction_def find_None_all)
  have "stx_id H t \<notin> stx_id H ` set log" if inj: "inj_on (transaction_id H) (stx_transaction ` set (log @ [t]))"
  proof
    assume "stx_id H t \<in> stx_id H ` set log"
    then obtain u where u: "u \<in> set log" "stx_id H u = stx_id H t" by auto
    then have same: "stx_transaction u = stx_transaction t" by (intro inj_onD[OF inj]) auto
    have "\<not> remembered H s u" using fresh u(2) by (force simp: remembered_def)
    then have "past s u" using ok u(1) by (auto simp: run_ok_def)
    then show False using check_expiration_time[OF 1(2)] same by (simp add: past_def)
  qed
  moreover have "inj_on (transaction_id H) (stx_transaction ` set log)"
    if "inj_on (transaction_id H) (stx_transaction ` set (log @ [t]))"
    using that by (rule inj_on_subset) auto
  moreover have "remembered H s' u \<or> past s' u" if "u \<in> set (log @ [t])" for u
    using that ok 1 past_clock[OF _ 1(6)] by (auto simp: run_ok_def remembered_def)
  ultimately show ?thesis using ok fresh 1(3,5) by (auto simp: run_ok_def)
qed

lemma run_ok_transactions:
  assumes "\<not> skips skip skip_transaction_dupe_check"
  shows "run_ok H log s \<Longrightarrow> apply_transactions C F H skip ts s = Some s' \<Longrightarrow>
    run_ok H (log @ ts) s' \<and> same_clock (ns_db s) (ns_db s')"
proof (induction ts arbitrary: log s)
  case (Cons t ts)
  then obtain s1 where s1: "apply_transaction C F H skip t s = Some s1" "apply_transactions C F H skip ts s1 = Some s'"
    by (auto simp: bind_Some_iff)
  have "same_clock (ns_db s) (ns_db s1)" using s1(1) assms by (rule apply_transaction_cases)
  with Cons.IH[OF run_ok_transaction[OF Cons.prems(1) assms s1(1)] s1(2)] show ?case
    by (auto intro: same_clock_trans)
qed simp

interpretation transaction_queue: due_queue expired_transactions_loop ns_transactions txo_expiration
  "\<lambda>s x. head_block_time (ns_db s) > txo_expiration x" "\<lambda>x s. Some (remove_transaction (txo_trx_id x) s)"
proof (unfold_locales, goal_cases)
  case (4 x s s')
  then show ?case by (auto simp: remove_transaction_def length_tbl_remove_less)
qed (auto split: option.splits)

lemma in_tbl_remove: "\<not> P x \<Longrightarrow> x \<in> set xs \<Longrightarrow> x \<in> set (tbl_remove P xs)"
  by (induction xs) auto

lemma remove_remembered:
  assumes "distinct (map txo_trx_id (ns_transactions s))" "r \<in> set (ns_transactions s)" "txo_expiration r < head_block_time (ns_db s)"
    "head_block_num (ns_db s) > 0" "remembered H s t \<or> past s t"
  shows "remembered H (remove_transaction (txo_trx_id r) s) t \<or> past (remove_transaction (txo_trx_id r) s) t"
proof (cases "past s t")
  case True
  then show ?thesis by (simp add: past_def remove_transaction_def)
next
  case False
  then obtain x where x: "x \<in> set (ns_transactions s)" "txo_trx_id x = stx_id H t" "txo_expiration x = stx_expiration t"
    using assms(5) by (auto simp: remembered_def)
  show ?thesis
  proof (cases "txo_trx_id x = txo_trx_id r")
    case True
    then have "x = r" using assms(1,2) x(1) by (auto dest: inj_onD simp: distinct_map)
    then show ?thesis using False x(3) assms(3,4) by (simp add: past_def)
  next
    case False
    then have "x \<in> set (tbl_remove (\<lambda>x. txo_trx_id x = txo_trx_id r) (ns_transactions s))"
      using x(1) by (intro in_tbl_remove) auto
    then show ?thesis using x by (auto simp: remembered_def remove_transaction_def)
  qed
qed

lemma run_ok_clear:
  assumes ok: "run_ok H log s" and n: "head_block_num (ns_db s) > 0" and c: "clear_expired_transactions s = Some s'"
  shows "run_ok H log s'"
proof -
  have "run_ok H log s' \<and> head_block_num (ns_db s') > 0"
  proof (rule transaction_queue.loop_inv[OF _ c[unfolded clear_expired_transactions_def]])
    fix r s1 s2
    assume a: "run_ok H log s1 \<and> head_block_num (ns_db s1) > 0" "r \<in> set (ns_transactions s1)"
      "txo_expiration r < head_block_time (ns_db s1)" "Some (remove_transaction (txo_trx_id r) s1) = Some s2"
    then have "remembered H s2 t \<or> past s2 t" if "t \<in> set log" for t
      using remove_remembered[of s1 r H t] that by (auto simp: run_ok_def)
    with a show "run_ok H log s2 \<and> head_block_num (ns_db s2) > 0"
      by (auto simp: run_ok_def remove_transaction_def distinct_map_tbl_remove)
  qed (use ok n in simp)
  then show ?thesis ..
qed

lemma run_ok_later:
  assumes "run_ok H log s" "ns_transactions s' = ns_transactions s" "head_block_time (ns_db s) \<le> head_block_time (ns_db s')"
    "head_block_num (ns_db s) > 0 \<longrightarrow> head_block_num (ns_db s') > 0"
  shows "run_ok H log s'"
  using assms by (fastforce simp: run_ok_def remembered_def past_def)

section \<open>A new head\<close>

lemma clock_witness: "same_clock d d1 \<Longrightarrow> clock_res d (modify_witness_id i f d1)"
  by (auto simp: kept_def modify_witness_id_def bind_Some_iff elim!: same_clock_gpo)

lemma clock_missed: "same_clock d d1 \<Longrightarrow> clock_res d (missed_loop n is d1)"
  by (induction "is" arbitrary: d1) (simp_all only: missed_loop.simps, (rule clock_witness clock_rules | assumption | blast)+)

lemma clock_header_extensions: "same_clock d d1 \<Longrightarrow> clock_res d (process_header_extensions n es d1)"
  by (induction n es d1 rule: process_header_extensions.induct)
    (simp_all only: process_header_extensions.simps, (rule clock_witness clock_rules | assumption | blast)+)

lemma clock_irreversible: "same_clock d d1 \<Longrightarrow> clock_res d (update_last_irreversible_block d1)"
  unfolding update_last_irreversible_block_def
  by (rule clock_rules clock_modify_gpo | assumption | (auto split: if_splits; fail))+

lemma advance_gpo_clock [simp]:
  "gpo_time (advance_gpo F H b n g) = blk_timestamp b" "gpo_head_block_number (advance_gpo F H b n g) = int (block_num H b)"
  by (simp_all add: advance_gpo_def split: prod.splits)

lemma update_global_clock:
  assumes "update_global_dynamic_data F H skip b s = Some s'"
  shows "ns_transactions s' = ns_transactions s" "head_block_time (ns_db s') = blk_timestamp b"
    "head_block_num (ns_db s') = int (block_num H b)"
  using assms
  by (auto simp: update_global_dynamic_data_def bind_Some_iff Let_def head_block_time_def head_block_num_def)

lemma run_ok_block:
  assumes ok: "run_ok H log s" and skip: "\<not> skips skip skip_transaction_dupe_check" and n: "0 < block_num H b"
    and ap: "apply_block_head C F H skip b s = Some s'"
  shows "run_ok H (log @ blk_transactions b) s'"
proof -
  from ap obtain w d1 d2 s3 s4 d5 d6 s7 where
    w: "validate_block_header F H skip b s = Some w" and
    d1: "modify_gpo (\<lambda>g. Some (g\<lparr>gpo_current_witness := blk_witness b\<rparr>)) (ns_db s) = Some d1" and
    d2: "process_header_extensions (blk_witness b) (blk_extensions b) d1 = Some d2" and
    s3: "apply_transactions C F H skip (blk_transactions b) (s\<lparr>ns_db := d2\<rparr>) = Some s3" and
    s4: "update_global_dynamic_data F H skip b s3 = Some s4" and
    d5: "update_signing_witness F H (wit_id w) b (ns_db s4) = Some d5" and
    d6: "update_last_irreversible_block d5 = Some d6" and
    s7: "create_block_summary H b (s4\<lparr>ns_db := d6\<rparr>) = Some s7" and
    s': "clear_expired_transactions s7 = Some s'"
    unfolding apply_block_head_def by (simp only: bind_Some_iff) blast
  have c1: "same_clock (ns_db s) d1" using d1 by (auto simp: modify_gpo_def same_clock_def head_block_time_def head_block_num_def)
  have c2: "same_clock (ns_db s) d2" using keptD[OF clock_header_extensions[OF c1] d2] .
  have "run_ok H log (s\<lparr>ns_db := d2\<rparr>)" by (rule run_ok_later[OF ok]) (use c2 in \<open>auto simp: same_clock_def\<close>)
  from run_ok_transactions[OF skip this s3] have
    r3: "run_ok H (log @ blk_transactions b) s3" and c3: "same_clock d2 (ns_db s3)" by simp_all
  note g = update_global_clock[OF s4]
  have c5: "same_clock (ns_db s4) d5"
    using d5 keptD[OF clock_witness[OF same_clock_refl]] by (auto simp: update_signing_witness_def Let_def)
  have c6: "same_clock (ns_db s4) d6" using keptD[OF clock_irreversible[OF c5] d6] .
  have e7: "ns_transactions s7 = ns_transactions s4" "ns_db s7 = d6"
    using s7 by (auto simp: create_block_summary_def bind_Some_iff Let_def)
  have "head_block_time (ns_db s) < blk_timestamp b" using w by (auto simp: validate_block_header_def bind_Some_iff Let_def)
  then have t: "head_block_time (ns_db s3) \<le> head_block_time (ns_db s7)" "head_block_num (ns_db s7) > 0"
    using c2 c3 c6 g n e7 by (auto simp: same_clock_def)
  have "run_ok H (log @ blk_transactions b) s7" by (rule run_ok_later[OF r3]) (use e7 g t in auto)
  then show ?thesis using t(2) s' by (rule run_ok_clear)
qed

lemma node_run_ok: "node_run F H s log s' \<Longrightarrow> run_ok H [] s \<Longrightarrow> run_ok H log s'"
proof (induction rule: node_run.induct)
  case (tasks log s1 s2)
  then show ?case by (intro run_ok_later[of H log s1 s2]) auto
qed (auto intro: run_ok_transaction run_ok_block)

text \<open>
  C2. No replay: along every run of the node from a state that knows no transaction, through pushed
  transactions, blocks and the tasks after them, no transaction takes effect twice, provided that the transactions of the
  run have different hashes when they differ.
\<close>

theorem no_transaction_replayed:
  assumes "node_run F H s log s'" "ns_transactions s = []"
    and "inj_on (transaction_id H) (stx_transaction ` set log)"
  shows "distinct (map (\<lambda>t. transaction_id H (stx_transaction t)) log)"
  using node_run_ok[OF assms(1)] assms(2,3) by (simp add: run_ok_def)

definition example_crypto :: crypto_lib where
  "example_crypto = \<lparr>trx_digest = (\<lambda>t. [trx_ref_block_num t, trx_ref_block_prefix t, nat (trx_expiration t)]),
     trx_sig_digest = (\<lambda>t. [trx_ref_block_num t]), trx_merkle_digest = (\<lambda>t. [0]), trx_pack = (\<lambda>t. []),
     trx_unpack = (\<lambda>_. None), block_pack_size = (\<lambda>_. 200), header_digest = (\<lambda>b. [nat (blk_timestamp b)]),
     header_sha224 = (\<lambda>b. [0, 1, 2, 3, 4, 5, 6]), hash_pair = (@), hash_root = (\<lambda>h. h),
     recover_key = (\<lambda>sig h. case sig of [] \<Rightarrow> None | k # _ \<Rightarrow> Some k), endian_reverse_u32 = (\<lambda>n. n),
     ripemd160_of_hex = (\<lambda>_. [])\<rparr>"

definition example_trx :: signed_transaction where
  "example_trx = \<lparr>stx_transaction = \<lparr>trx_ref_block_num = 3, trx_ref_block_prefix = 5, trx_expiration = 1010,
     trx_operations = [example_transfer]\<rparr>, stx_signatures = [[7]]\<rparr>"

definition example_keys :: "public_key_type \<Rightarrow> authority" where
  "example_keys k = \<lparr>weight_threshold = 1, account_auths = [], key_auths = [(k, 1)]\<rparr>"

definition example_node_state :: node_state where
  "example_node_state = \<lparr>ns_db = example_db\<lparr>db_authorities := [\<lparr>aa_id = 0, aa_account = ''alice'', aa_owner = example_keys 6,
       aa_active = example_keys 7, aa_posting = example_keys 8, aa_last_owner_update = 0\<rparr>]\<rparr>,
     ns_head_block_id = [1000, 0, 0, 0, 0], ns_transactions = [], ns_next_transaction_id = 0,
     ns_block_summaries = (\<lambda>i. if i < 65536 then Some [i, 5, 0, 0, 0] else None), ns_current_hardfork_version = 0\<rparr>"

lemma skips_0 [simp]: "\<not> skips 0 f" by (simp add: skips_def)

lemma example_crypto_simps [simp]:
  "trx_digest example_crypto = (\<lambda>t. [trx_ref_block_num t, trx_ref_block_prefix t, nat (trx_expiration t)])"
  "trx_sig_digest example_crypto = (\<lambda>t. [trx_ref_block_num t])" "trx_pack example_crypto = (\<lambda>t. [])"
  "recover_key example_crypto = (\<lambda>sig h. case sig of [] \<Rightarrow> None | k # _ \<Rightarrow> Some k)"
  by (simp_all add: example_crypto_def)

lemma example_signed: "check_signatures example_crypto example_trx (ns_db example_node_state) = Some ()"
proof -
  have [simp]: "MAX_SIG_CHECK_DEPTH = Suc (Suc 0)" by (simp add: MAX_SIG_CHECK_DEPTH_def)
  show ?thesis
    by (simp add: check_signatures_def signed_transaction_verify_authority_def get_signature_keys_def example_trx_def
        verify_authority_def example_required no_required_def start_state_def get_authority_def example_node_state_def
        sign_state_make_def or_check_def check_authority_id_def check_authority_def example_keys_def insort_insert_key_def
        check_authority_body_def signed_by_def remove_unused_signatures_def ASSERT_def Let_def)
qed

lemma example_valid: "transaction_validate fc_exact (stx_transaction example_trx) = Some ()"
  by (simp add: transaction_validate_def example_trx_def example_transfer_def transfer_validate_def
      validate_account_name_def valid_names MAX_MEMO_SIZE_def)

lemma example_unexpired: "check_expiration fc_exact 0 (stx_transaction example_trx) example_node_state = Some ()"
  by (simp add: check_expiration_def example_trx_def example_node_state_def head_block_num_def head_block_time_def
      has_hardfork_def MAX_TIME_UNTIL_EXPIRATION_def example_defs)

lemma example_operations: "apply_operations C fc_exact (trx_operations (stx_transaction example_trx)) (ns_db example_node_state) \<noteq> None"
  by (simp add: example_trx_def example_transfer_def transfer_do_apply_def escrow_eval get_balance_def example_defs
      example_node_state_def)

lemma example_apply:
  "apply_transaction C fc_exact example_crypto 0 example_trx example_node_state \<noteq> None"
  using example_operations[of C] example_valid example_signed example_unexpired
  by (auto simp: apply_transaction_def find_transaction_def create_transaction_def tbl_emplace_def example_node_state_def Let_def bind_Some_iff)

theorem no_transaction_replayed_witness:
  "\<exists>s'. apply_transaction example_node fc_exact example_crypto 0 example_trx example_node_state = Some s'
     \<and> distinct (map (\<lambda>t. transaction_id example_crypto (stx_transaction t)) [example_trx])
     \<and> apply_transaction example_node fc_exact example_crypto 0 example_trx s' = None"
proof -
  obtain s' where s': "apply_transaction example_node fc_exact example_crypto 0 example_trx example_node_state = Some s'"
    using example_apply by blast
  have fresh: "ns_transactions example_node_state = []" by (simp add: example_node_state_def)
  have run: "node_run fc_exact example_crypto example_node_state [example_trx] s'"
    using node_run.trx[OF node_run.start _ s'] by simp
  have one: "distinct (map (\<lambda>t. transaction_id example_crypto (stx_transaction t)) [example_trx])"
    by (rule no_transaction_replayed[OF run fresh]) simp
  have "apply_transaction example_node fc_exact example_crypto 0 example_trx s' = None"
  proof (rule ccontr)
    assume "apply_transaction example_node fc_exact example_crypto 0 example_trx s' \<noteq> None"
    then obtain s2 where "apply_transaction example_node fc_exact example_crypto 0 example_trx s' = Some s2" by blast
    from no_transaction_replayed[OF node_run.trx[OF run skips_0 this] fresh] show False by simp
  qed
  with s' one show ?thesis by blast
qed

end
