(* ===== verification/Rewards.thy ===== *)
theory Rewards
  imports Replay
begin

text \<open>
  Where new TME comes from and where it goes each block (\<open>libraries/chain/database.cpp\<close>):
  \<open>process_funds\<close> with the rewards of content, producers and liquidity, \<open>clear_null_account_balance\<close>,
  and the payout of comments (\<open>pay_curators\<close>, \<open>cashout_comment_helper\<close>, \<open>process_comment_cashout\<close>).

  The payout loop takes the first due comment until none is due.  It has one round more than there are comments, and
  no result when they do not suffice.  A paid comment is not due again in the same block, so from hardfork 17 on they
  suffice (\<open>Payouts\<close>).  Before, a reply that is due itself is not rescheduled by the payout of its discussion: the
  loop of the code does not end on it, and neither result exists.
\<close>

section \<open>Inflation\<close>

definition BLOCKS_PER_YEAR :: int where "BLOCKS_PER_YEAR = 365 * 24 * 60 * 60 div BLOCK_INTERVAL"
definition START_TME_fund_for_SCORE_BLOCK :: int where "START_TME_fund_for_SCORE_BLOCK = BLOCKS_PER_DAY * 1"
definition INFLATION_RATE_START_PERCENT :: int where "INFLATION_RATE_START_PERCENT = 1000"
definition INFLATION_RATE_STOP_PERCENT :: int where "INFLATION_RATE_STOP_PERCENT = 100"
definition INFLATION_NARROWING_PERIOD :: int where "INFLATION_NARROWING_PERIOD = 250000"
definition PERCENT_1 :: int where "PERCENT_1 = PERCENT_100 div 100"
definition CONTENT_REWARD_PERCENT :: int where "CONTENT_REWARD_PERCENT = 75 * PERCENT_1"
definition SCORE_fund_PERCENT :: int where "SCORE_fund_PERCENT = 15 * PERCENT_1"
definition LIQUIDITY_REWARD_PERIOD_SEC :: int where "LIQUIDITY_REWARD_PERIOD_SEC = 60 * 60"
definition LIQUIDITY_REWARD_BLOCKS :: int where "LIQUIDITY_REWARD_BLOCKS = LIQUIDITY_REWARD_PERIOD_SEC div BLOCK_INTERVAL"
definition MIN_LIQUIDITY_REWARD :: asset where "MIN_LIQUIDITY_REWARD = mk_asset (1000 * LIQUIDITY_REWARD_BLOCKS) SYMBOL_COIN"
definition MINING_REWARD :: asset where "MINING_REWARD = mk_asset 10000000 SYMBOL_COIN"
definition APR_PERCENT_MULTIPLY_PER_BLOCK :: int where "APR_PERCENT_MULTIPLY_PER_BLOCK = 0x5ccc * 2 ^ 32 + 0xe802 * 2 ^ 16 + 0xde5f"
definition APR_PERCENT_SHIFT_PER_BLOCK :: nat where "APR_PERCENT_SHIFT_PER_BLOCK = 87"
definition APR_PERCENT_MULTIPLY_PER_HOUR :: int where "APR_PERCENT_MULTIPLY_PER_HOUR = 0x6cc1 * 2 ^ 32 + 0x39a1 * 2 ^ 16 + 0x5cbd"
definition APR_PERCENT_SHIFT_PER_HOUR :: nat where "APR_PERCENT_SHIFT_PER_HOUR = 77"
definition CURATE_APR_PERCENT :: int where "CURATE_APR_PERCENT = 3875"
definition CONTENT_APR_PERCENT :: int where "CONTENT_APR_PERCENT = 3875"
definition LIQUIDITY_APR_PERCENT :: int where "LIQUIDITY_APR_PERCENT = 750"
definition PRODUCER_APR_PERCENT :: int where "PRODUCER_APR_PERCENT = 750"

definition calc_percent_reward :: "fc_lib \<Rightarrow> int \<Rightarrow> int \<Rightarrow> nat \<Rightarrow> int \<Rightarrow> int option" where
  "calc_percent_reward F percent multiply_constant shift_constant current_supply = do {
     let half = u128_shl F (u128_of F 1) (shift_constant - 1);
     let reward = u128_mul F (u128_of F current_supply) (u128_of F (percent * multiply_constant));
     r \<leftarrow> u128_to_uint64 F (u128_shr F (u128_add F reward half) shift_constant);
     Some (int64_of_uint64 r) }"

definition calc_percent_reward_per_hour :: "fc_lib \<Rightarrow> int \<Rightarrow> int \<Rightarrow> int option" where
  "calc_percent_reward_per_hour F percent = calc_percent_reward F percent APR_PERCENT_MULTIPLY_PER_HOUR APR_PERCENT_SHIFT_PER_HOUR"

definition calc_percent_reward_per_block :: "fc_lib \<Rightarrow> int \<Rightarrow> int \<Rightarrow> int option" where
  "calc_percent_reward_per_block F percent = calc_percent_reward F percent APR_PERCENT_MULTIPLY_PER_BLOCK APR_PERCENT_SHIFT_PER_BLOCK"

text \<open>\<open>std::max\<close> of two amounts of TME.\<close>

definition max_coin :: "int \<Rightarrow> asset \<Rightarrow> asset" where
  "max_coin percent least = (if percent < amount least then least else mk_asset percent SYMBOL_COIN)"

definition get_liquidity_reward :: "fc_lib \<Rightarrow> chain_db \<Rightarrow> asset option" where
  "get_liquidity_reward F d =
     (if has_hardfork 12 d then Some (mk_asset 0 SYMBOL_COIN)
      else do {
        percent \<leftarrow> calc_percent_reward_per_hour F LIQUIDITY_APR_PERCENT (amount (gpo_virtual_supply (db_gpo d)));
        Some (max_coin percent MIN_LIQUIDITY_REWARD) })"

definition get_content_reward :: "fc_lib \<Rightarrow> chain_db \<Rightarrow> asset option" where
  "get_content_reward F d = do {
     percent \<leftarrow> calc_percent_reward_per_block F CONTENT_APR_PERCENT (amount (gpo_virtual_supply (db_gpo d)));
     Some (max_coin percent MINING_REWARD) }"

definition get_curationReward :: "fc_lib \<Rightarrow> chain_db \<Rightarrow> asset option" where
  "get_curationReward F d = do {
     percent \<leftarrow> calc_percent_reward_per_block F CURATE_APR_PERCENT (amount (gpo_virtual_supply (db_gpo d)));
     Some (max_coin percent MINING_REWARD) }"

definition get_producer_reward :: "fc_lib \<Rightarrow> chain_db \<Rightarrow> (asset \<times> chain_db) option" where
  "get_producer_reward F d = do {
     let props = db_gpo d;
     percent \<leftarrow> calc_percent_reward_per_block F PRODUCER_APR_PERCENT (amount (gpo_virtual_supply props));
     let pay = max_coin percent MINING_REWARD;
     witness_account \<leftarrow> get_account (gpo_current_witness props) d;
     d1 \<leftarrow> (if gpo_head_block_number props \<ge> START_MINER_VOTING_BLOCK \<or> amount (acc_SCORE witness_account) = 0
           then map_option snd (createTMEfundForSCORE F (acc_name witness_account) pay False d)
           else modify_account (acc_name witness_account) (\<lambda>a. do {
                  b \<leftarrow> asset_add F (acc_balance a) pay;
                  Some (a\<lparr>acc_balance := b\<rparr>) }) d);
     Some (pay, d1) }"

fun reward_funds_loop :: "fc_lib \<Rightarrow> int \<Rightarrow> int \<Rightarrow> reward_fund_object list \<Rightarrow> (reward_fund_object list \<times> int) option" where
  "reward_funds_loop F reward used_rewards [] = Some ([], used_rewards)"
| "reward_funds_loop F reward used_rewards (rfo # rs) = do {
     p \<leftarrow> safe_mul F reward (rf_percent_content_rewards rfo);
     r \<leftarrow> safe_div F p PERCENT_100;
     b \<leftarrow> asset_add F (rf_reward_balance rfo) (mk_asset r SYMBOL_COIN);
     used_rewards \<leftarrow> safe_add F used_rewards r;
     FC_ASSERT (used_rewards \<le> reward);
     (rs', used) \<leftarrow> reward_funds_loop F reward used_rewards rs;
     Some (rfo\<lparr>rf_reward_balance := b\<rparr> # rs', used) }"

definition pay_reward_funds :: "fc_lib \<Rightarrow> int \<Rightarrow> chain_db \<Rightarrow> (int \<times> chain_db) option" where
  "pay_reward_funds F reward d = do {
     (rs, used) \<leftarrow> reward_funds_loop F reward 0 (db_reward_funds d);
     Some (used, d\<lparr>db_reward_funds := rs\<rparr>) }"

definition current_inflation_rate :: "chain_db \<Rightarrow> int" where
  "current_inflation_rate d =
     max (INFLATION_RATE_START_PERCENT - head_block_num d div INFLATION_NARROWING_PERIOD) INFLATION_RATE_STOP_PERCENT"

definition witness_pay :: "fc_lib \<Rightarrow> int \<Rightarrow> witness_object \<Rightarrow> witness_schedule_object \<Rightarrow> int option" where
  "witness_pay F witness_reward cwit wso = do {
     w \<leftarrow> safe_mul F witness_reward (int MAX_WITNESSES);
     w \<leftarrow> (case wit_schedule cwit of
            timeshare \<Rightarrow> safe_mul F w (wso_timeshare_weight wso)
          | miner \<Rightarrow> safe_mul F w (wso_miner_weight wso)
          | top19 \<Rightarrow> safe_mul F w (wso_top19_weight wso)
          | none \<Rightarrow> Some w);
     safe_div F w (wso_witness_pay_normalization_factor wso) }"

text \<open>From hardfork 16 on.\<close>

definition distribute_inflation :: "fc_lib \<Rightarrow> chain_db \<Rightarrow> chain_db option" where
  "distribute_inflation F d = do {
     x \<leftarrow> safe_mul F (amount (gpo_virtual_supply (db_gpo d))) (current_inflation_rate d);
     new_TME \<leftarrow> safe_div F x (PERCENT_100 * BLOCKS_PER_YEAR);
     c \<leftarrow> safe_mul F new_TME CONTENT_REWARD_PERCENT;
     content_reward \<leftarrow> safe_div F c PERCENT_100;
     (content_reward, d1) \<leftarrow> (if has_hardfork 17 d then pay_reward_funds F content_reward d else Some (content_reward, d));
     f \<leftarrow> safe_mul F new_TME SCORE_fund_PERCENT;
     fund_reward \<leftarrow> safe_div F f PERCENT_100;
     r \<leftarrow> safe_sub F new_TME content_reward;
     r \<leftarrow> safe_sub F r fund_reward;
     cwit \<leftarrow> get_witness (gpo_current_witness (db_gpo d1)) d1;
     witness_reward \<leftarrow> witness_pay F r cwit (db_wso d1);
     s \<leftarrow> safe_add F content_reward fund_reward;
     new_TME \<leftarrow> safe_add F s witness_reward;
     d2 \<leftarrow> modify_gpo (\<lambda>p. do {
        t \<leftarrow> asset_add F (gpo_totalTMEfundForSCORE p) (mk_asset fund_reward SYMBOL_COIN);
        w \<leftarrow> (if \<not> has_hardfork 17 d1 then asset_add F (gpo_total_reward_fund_TME p) (mk_asset content_reward SYMBOL_COIN)
             else Some (gpo_total_reward_fund_TME p));
        c \<leftarrow> asset_add F (gpo_current_supply p) (mk_asset new_TME SYMBOL_COIN);
        v \<leftarrow> asset_add F (gpo_virtual_supply p) (mk_asset new_TME SYMBOL_COIN);
        Some (p\<lparr>gpo_totalTMEfundForSCORE := t, gpo_total_reward_fund_TME := w, gpo_current_supply := c, gpo_virtual_supply := v\<rparr>) }) d1;
     a \<leftarrow> get_account (wit_owner cwit) d2;
     map_option snd (createTMEfundForSCORE F (acc_name a) (mk_asset witness_reward SYMBOL_COIN) False d2) }"

text \<open>Before hardfork 16.\<close>

definition distribute_rewards :: "fc_lib \<Rightarrow> chain_db \<Rightarrow> chain_db option" where
  "distribute_rewards F d = do {
     content_reward \<leftarrow> get_content_reward F d;
     curate_reward \<leftarrow> get_curationReward F d;
     (witness_pay, d1) \<leftarrow> get_producer_reward F d;
     s \<leftarrow> asset_add F content_reward curate_reward;
     fund \<leftarrow> asset_add F s witness_pay;
     content_reward \<leftarrow> asset_add F content_reward curate_reward;
     let fund_reward = fund\<lparr>amount := (if gpo_head_block_number (db_gpo d1) < START_TME_fund_for_SCORE_BLOCK then 0
                                        else wrap64 (amount fund * 9))\<rparr>;
     modify_gpo (\<lambda>p. do {
        t \<leftarrow> asset_add F (gpo_totalTMEfundForSCORE p) fund_reward;
        w \<leftarrow> asset_add F (gpo_total_reward_fund_TME p) content_reward;
        x \<leftarrow> asset_add F content_reward witness_pay;
        x \<leftarrow> asset_add F x fund_reward;
        c \<leftarrow> asset_add F (gpo_current_supply p) x;
        v \<leftarrow> asset_add F (gpo_virtual_supply p) x;
        Some (p\<lparr>gpo_totalTMEfundForSCORE := t, gpo_total_reward_fund_TME := w, gpo_current_supply := c, gpo_virtual_supply := v\<rparr>) }) d1 }"

definition process_funds :: "fc_lib \<Rightarrow> chain_db \<Rightarrow> chain_db option" where
  "process_funds F d = (if has_hardfork 16 d then distribute_inflation F d else distribute_rewards F d)"

definition pay_liquidity_reward :: "fc_lib \<Rightarrow> chain_db \<Rightarrow> chain_db option" where
  "pay_liquidity_reward F d =
     (if head_block_num d mod LIQUIDITY_REWARD_BLOCKS = 0 then do {
        reward \<leftarrow> get_liquidity_reward F d;
        if amount reward = 0 then Some d
        else case idx_begin (\<lambda>r. (- liq_weight r, liq_owner r)) (db_liquidity d) of
          None \<Rightarrow> Some d
        | Some itr \<Rightarrow>
            if volume_weight F itr > 0 then do {
              d1 \<leftarrow> adjust_supply F reward True d;
              owner \<leftarrow> get_account_id (liq_owner itr) d1;
              d2 \<leftarrow> adjust_balance F (acc_name owner) reward d1;
              xs \<leftarrow> tbl_modify (\<lambda>r. liq_id r = liq_id itr) (\<lambda>r. Some (r\<lparr>liq_TME_volume := 0, liq_TSD_volume := 0,
                      liq_last_update := head_block_time d2, liq_weight := 0\<rparr>)) (db_liquidity d2);
              Some (d2\<lparr>db_liquidity := xs\<rparr>) }
            else Some d }
      else Some d)"

section \<open>The null account\<close>

text \<open>A balance of the null account that is positive is taken and added to a running total.\<close>

definition take_null ::
  "fc_lib \<Rightarrow> (account_object \<Rightarrow> asset) \<Rightarrow> (account_name_type \<Rightarrow> asset \<Rightarrow> chain_db \<Rightarrow> chain_db option) \<Rightarrow>
   asset \<times> chain_db \<Rightarrow> (asset \<times> chain_db) option" where
  "take_null F bal adjust s = do {
     let (burnt, d) = s;
     null_account \<leftarrow> get_account NULL_ACCOUNT d;
     if amount (bal null_account) > 0 then do {
       t \<leftarrow> asset_add F burnt (bal null_account);
       n \<leftarrow> asset_neg F (bal null_account);
       d1 \<leftarrow> adjust NULL_ACCOUNT n d;
       Some (t, d1) }
     else Some (burnt, d) }"

definition burn_SCORE :: "fc_lib \<Rightarrow> asset \<times> chain_db \<Rightarrow> (asset \<times> chain_db) option" where
  "burn_SCORE F s = do {
     let (burnt, d) = s;
     null_account \<leftarrow> get_account NULL_ACCOUNT d;
     if amount (acc_SCORE null_account) > 0 then do {
       converted_TME \<leftarrow> asset_mul_price F (acc_SCORE null_account) (get_SCORE_price (db_gpo d));
       d1 \<leftarrow> modify_gpo (\<lambda>g. do {
          v \<leftarrow> asset_sub F (gpo_totalSCORE g) (acc_SCORE null_account);
          t \<leftarrow> asset_sub F (gpo_totalTMEfundForSCORE g) converted_TME;
          Some (g\<lparr>gpo_totalSCORE := v, gpo_totalTMEfundForSCORE := t\<rparr>) }) d;
       d2 \<leftarrow> modify_account NULL_ACCOUNT (\<lambda>a. Some (a\<lparr>acc_SCORE := (acc_SCORE a)\<lparr>amount := 0\<rparr>\<rparr>)) d1;
       t \<leftarrow> asset_add F burnt converted_TME;
       Some (t, d2) }
     else Some (burnt, d) }"

definition burn_SCOREreward :: "fc_lib \<Rightarrow> asset \<times> chain_db \<Rightarrow> (asset \<times> chain_db) option" where
  "burn_SCOREreward F s = do {
     let (burnt, d) = s;
     null_account \<leftarrow> get_account NULL_ACCOUNT d;
     if amount (acc_SCORErewardBalance null_account) > 0 then do {
       t \<leftarrow> asset_add F burnt (acc_SCORErewardBalanceInTME null_account);
       d1 \<leftarrow> modify_gpo (\<lambda>g. do {
          v \<leftarrow> asset_sub F (gpo_pending_rewarded_SCORE g) (acc_SCORErewardBalance null_account);
          p \<leftarrow> asset_sub F (gpo_pending_rewarded_SCOREvalueInTME g) (acc_SCORErewardBalanceInTME null_account);
          Some (g\<lparr>gpo_pending_rewarded_SCORE := v, gpo_pending_rewarded_SCOREvalueInTME := p\<rparr>) }) d;
       d2 \<leftarrow> modify_account NULL_ACCOUNT (\<lambda>a. Some (a\<lparr>acc_SCORErewardBalanceInTME := (acc_SCORErewardBalanceInTME a)\<lparr>amount := 0\<rparr>,
              acc_SCORErewardBalance := (acc_SCORErewardBalance a)\<lparr>amount := 0\<rparr>\<rparr>)) d1;
       Some (t, d2) }
     else Some (burnt, d) }"

definition burn_total :: "fc_lib \<Rightarrow> asset \<Rightarrow> chain_db \<Rightarrow> chain_db option" where
  "burn_total F burnt d =
     (if amount burnt > 0 then do { n \<leftarrow> asset_neg F burnt; adjust_supply F n False d } else Some d)"

definition clear_null_account_balance :: "fc_lib \<Rightarrow> chain_db \<Rightarrow> chain_db option" where
  "clear_null_account_balance F d =
     (if \<not> has_hardfork 14 d then Some d
      else do {
        (t1, d1) \<leftarrow> take_null F acc_balance (adjust_balance F) (mk_asset 0 SYMBOL_COIN, d);
        (t2, d2) \<leftarrow> take_null F acc_TMEsavingsBalance (adjust_TMEsavingsBalance F) (t1, d1);
        (s1, d3) \<leftarrow> take_null F acc_TSDbalance (adjust_balance F) (mk_asset 0 SYMBOL_USD, d2);
        (s2, d4) \<leftarrow> take_null F acc_TSDsavingsBalance (adjust_TMEsavingsBalance F) (s1, d3);
        (t3, d5) \<leftarrow> burn_SCORE F (t2, d4);
        (t4, d6) \<leftarrow> take_null F acc_TMErewardBalance (adjust_reward_balance F) (t3, d5);
        (s3, d7) \<leftarrow> take_null F acc_TSDrewardBalance (adjust_reward_balance F) (s2, d6);
        (t5, d8) \<leftarrow> burn_SCOREreward F (t4, d7);
        d9 \<leftarrow> burn_total F t5 d8;
        burn_total F s3 d9 })"

section \<open>Payout of comments\<close>

definition adjust_total_payout :: "fc_lib \<Rightarrow> nat \<Rightarrow> asset \<Rightarrow> asset \<Rightarrow> asset \<Rightarrow> chain_db \<Rightarrow> chain_db option" where
  "adjust_total_payout F i TSD_created curator_TSD_value beneficiary_value d =
     modify_comment i (\<lambda>c. do {
       t \<leftarrow> (if symbol (cmt_total_payout_value c) = symbol TSD_created then asset_add F (cmt_total_payout_value c) TSD_created
            else Some (cmt_total_payout_value c));
       u \<leftarrow> asset_add F (cmt_curator_payout_value c) curator_TSD_value;
       b \<leftarrow> asset_add F (cmt_beneficiary_payout_value c) beneficiary_value;
       Some (c\<lparr>cmt_total_payout_value := t, cmt_curator_payout_value := u, cmt_beneficiary_payout_value := b\<rparr>) }) d"

text \<open>The votes of a comment, heaviest first.\<close>

definition votes_by_weight :: "nat \<Rightarrow> chain_db \<Rightarrow> comment_vote_object list" where
  "votes_by_weight i d =
     filter (\<lambda>v. cvo_comment v = i) (idx_sorted (\<lambda>v. (cvo_comment v, - cvo_weight v, cvo_voter v)) (db_comment_votes d))"

fun curators_loop ::
  "fc_lib \<Rightarrow> int \<Rightarrow> int \<Rightarrow> comment_vote_object list \<Rightarrow> int \<Rightarrow> chain_db \<Rightarrow> (int \<times> chain_db) option" where
  "curators_loop F max_rewards total_weight [] unclaimed_rewards d = Some (unclaimed_rewards, d)"
| "curators_loop F max_rewards total_weight (itr # vs) unclaimed_rewards d = do {
     q \<leftarrow> u128_div F (u128_mul F (u128_of F max_rewards) (u128_of F (cvo_weight itr))) total_weight;
     claim \<leftarrow> u128_to_uint64 F q;
     (unclaimed_rewards, d1) \<leftarrow>
       (if claim > 0 then do {
          let claim = int64_of_uint64 claim;
          unclaimed_rewards \<leftarrow> safe_sub F unclaimed_rewards claim;
          voter \<leftarrow> get_account_id (cvo_voter itr) d;
          (reward, d1) \<leftarrow> createTMEfundForSCORE F (acc_name voter) (mk_asset claim SYMBOL_COIN) (has_hardfork 17 d) d;
          d2 \<leftarrow> modify_account (acc_name voter) (\<lambda>a. do {
                 r \<leftarrow> safe_add F (acc_curationRewards a) claim;
                 Some (a\<lparr>acc_curationRewards := r\<rparr>) }) d1;
          Some (unclaimed_rewards, d2) }
        else Some (unclaimed_rewards, d));
     curators_loop F max_rewards total_weight vs unclaimed_rewards d1 }"

text \<open>The result holds the unclaimed rewards and what \<open>max_rewards\<close>, a reference, is afterwards.\<close>

definition pay_curators :: "fc_lib \<Rightarrow> comment_object \<Rightarrow> int \<Rightarrow> chain_db \<Rightarrow> (int \<times> int \<times> chain_db) option" where
  "pay_curators F c max_rewards d = do {
     (unclaimed_rewards, max_rewards, d1) \<leftarrow>
       (if \<not> cmt_allow_curationRewards c then Some (0, 0, d)
        else if cmt_total_vote_weight c > 0 then do {
          (u, d1) \<leftarrow> curators_loop F max_rewards (u128_of F (cmt_total_vote_weight c)) (votes_by_weight (cmt_id c) d) max_rewards d;
          Some (u, max_rewards, d1) }
        else Some (max_rewards, max_rewards, d));
     m \<leftarrow> safe_sub F max_rewards unclaimed_rewards;
     Some (unclaimed_rewards, m, d1) }"

fun beneficiaries_pay ::
  "fc_lib \<Rightarrow> int \<Rightarrow> beneficiary_route_type list \<Rightarrow> int \<Rightarrow> chain_db \<Rightarrow> (int \<times> chain_db) option" where
  "beneficiaries_pay F author_tokens [] total_beneficiary d = Some (total_beneficiary, d)"
| "beneficiaries_pay F author_tokens (b # bs) total_beneficiary d = do {
     m \<leftarrow> safe_mul F author_tokens (br_weight b);
     benefactor_tokens \<leftarrow> safe_div F m PERCENT_100;
     a \<leftarrow> get_account (br_account b) d;
     (created, d1) \<leftarrow> createTMEfundForSCORE F (acc_name a) (mk_asset benefactor_tokens SYMBOL_COIN) (has_hardfork 17 d) d;
     t \<leftarrow> safe_add F total_beneficiary benefactor_tokens;
     beneficiaries_pay F author_tokens bs t d1 }"

text \<open>What a comment earns: its curators, its beneficiaries and its author are paid from \<open>reward\<close>.  The result is
  the part of it that was claimed.\<close>

definition pay_reward :: "fc_lib \<Rightarrow> comment_object \<Rightarrow> int \<Rightarrow> chain_db \<Rightarrow> (int \<times> chain_db) option" where
  "pay_reward F comment reward d = do {
     let reward_tokens = u128_of F reward;
     let hf17 = has_hardfork 17 d;
     if reward_tokens > 0 then do {
       percent \<leftarrow> get_curationRewards_percent d;
       q \<leftarrow> u128_div F (u128_mul F reward_tokens (u128_of F percent)) (u128_of F PERCENT_100);
       c \<leftarrow> u128_to_uint64 F q;
       r \<leftarrow> u128_to_uint64 F reward_tokens;
       author_tokens \<leftarrow> safe_sub F (int64_of_uint64 r) (int64_of_uint64 c);
       (unclaimed, curation_tokens, d1) \<leftarrow> pay_curators F comment (int64_of_uint64 c) d;
       author_tokens \<leftarrow> safe_add F author_tokens unclaimed;
       claimed_reward \<leftarrow> safe_add F author_tokens curation_tokens;
       (total_beneficiary, d2) \<leftarrow> beneficiaries_pay F author_tokens (cmt_beneficiaries comment) 0 d1;
       author_tokens \<leftarrow> safe_sub F author_tokens total_beneficiary;
       m \<leftarrow> safe_mul F author_tokens (cmt_percent_TSD comment);
       TSDvalueInTME \<leftarrow> safe_div F m (2 * PERCENT_100);
       SCOREvalueInTME \<leftarrow> safe_sub F author_tokens TSDvalueInTME;
       author \<leftarrow> get_account (cmt_author comment) d2;
       (created, d3) \<leftarrow> createTMEfundForSCORE F (acc_name author) (mk_asset SCOREvalueInTME SYMBOL_COIN) hf17 d2;
       ((payout_TSD, payout_TME), d4) \<leftarrow> create_TSD F (acc_name author) (mk_asset TSDvalueInTME SYMBOL_COIN) hf17 d3;
       x \<leftarrow> asset_add F payout_TME (mk_asset SCOREvalueInTME SYMBOL_COIN);
       y \<leftarrow> to_TSD F (median_price d4) x;
       z \<leftarrow> asset_add F payout_TSD y;
       curator_value \<leftarrow> to_TSD F (median_price d4) (mk_asset curation_tokens SYMBOL_COIN);
       beneficiary_value \<leftarrow> to_TSD F (median_price d4) (mk_asset total_beneficiary SYMBOL_COIN);
       d5 \<leftarrow> adjust_total_payout F (cmt_id comment) z curator_value beneficiary_value d4;
       reported \<leftarrow> to_TSD F (median_price d5) (mk_asset claimed_reward SYMBOL_COIN);
       d6 \<leftarrow> modify_comment (cmt_id comment) (\<lambda>c. do {
              v \<leftarrow> safe_add F (cmt_authorRewards c) author_tokens;
              Some (c\<lparr>cmt_authorRewards := v\<rparr>) }) d5;
       d7 \<leftarrow> modify_account (cmt_author comment) (\<lambda>a. do {
              v \<leftarrow> safe_add F (acc_posting_rewards a) author_tokens;
              Some (a\<lparr>acc_posting_rewards := v\<rparr>) }) d6;
       Some (claimed_reward, d7) }
     else Some (0, d) }"

definition paid_out :: "fc_lib \<Rightarrow> chain_db \<Rightarrow> comment_object \<Rightarrow> comment_object" where
  "paid_out F d c =
     (let c = c\<lparr>cmt_net_SCOREreward := (if cmt_net_SCOREreward c > 0 then 0 else cmt_net_SCOREreward c),
                cmt_children_abs_SCOREreward := 0, cmt_abs_SCOREreward := 0, cmt_vote_SCOREreward := 0,
                cmt_total_vote_weight := 0, cmt_max_cashout_time := secs_max F\<rparr>;
          c = (if has_hardfork 17 d then c\<lparr>cmt_cashout_time := secs_max F\<rparr>
               else if cmt_parent_author c = [] then
                 (if has_hardfork 12 d \<and> cmt_last_payout c = 0
                  then c\<lparr>cmt_cashout_time := secs_add F (head_block_time d) SECOND_CASHOUT_WINDOW\<rparr>
                  else c\<lparr>cmt_cashout_time := secs_max F\<rparr>)
               else c)
      in c\<lparr>cmt_last_payout := head_block_time d\<rparr>)"

fun close_votes_loop :: "fc_lib \<Rightarrow> nat \<Rightarrow> comment_vote_object list \<Rightarrow> chain_db \<Rightarrow> chain_db option" where
  "close_votes_loop F i [] d = Some d"
| "close_votes_loop F i (v # vs) d = do {
     comment \<leftarrow> get_comment_id i d;
     pending \<leftarrow> (if \<not> has_hardfork 12 d then Some True
               else do { t \<leftarrow> calculate_discussion_payout_time comment d; Some (t \<noteq> secs_max F) });
     d1 \<leftarrow> (if pending then modify_comment_vote (cvo_comment v) (cvo_voter v) (\<lambda>x. Some (x\<lparr>cvo_num_changes := - 1\<rparr>)) d else Some d);
     close_votes_loop F i vs d1 }"

definition close_votes :: "fc_lib \<Rightarrow> nat \<Rightarrow> chain_db \<Rightarrow> chain_db option" where
  "close_votes F i d = close_votes_loop F i
     (filter (\<lambda>v. cvo_comment v = i) (idx_sorted (\<lambda>v. (cvo_comment v, cvo_voter v)) (db_comment_votes d))) d"

definition comment_context :: "comment_reward_context \<Rightarrow> comment_object \<Rightarrow> chain_db \<Rightarrow> comment_reward_context option" where
  "comment_context ctx comment d = do {
     let ctx = ctx\<lparr>ctx_SCOREreward := cmt_net_SCOREreward comment, ctx_reward_weight := cmt_reward_weight comment,
                    ctx_max_TSD := cmt_max_accepted_payout comment\<rparr>;
     if has_hardfork 17 d then do {
       rf \<leftarrow> get_reward_fund d;
       Some (ctx\<lparr>ctx_reward_curve := rf_authorReward_curve rf, ctx_content_constant := rf_content_constant rf\<rparr>) }
     else Some ctx }"

definition cashout_comment_helper :: "fc_lib \<Rightarrow> comment_reward_context \<Rightarrow> nat \<Rightarrow> chain_db \<Rightarrow> (int \<times> chain_db) option" where
  "cashout_comment_helper F ctx i d = do {
     comment \<leftarrow> get_comment_id i d;
     (claimed_reward, d1) \<leftarrow>
       (if cmt_net_SCOREreward comment > 0 then do {
          ctx \<leftarrow> comment_context ctx comment d;
          reward \<leftarrow> get_SCORE_reward F ctx;
          (claimed, d1) \<leftarrow> pay_reward F comment (int64_of_uint64 reward) d;
          d2 \<leftarrow> (if \<not> has_hardfork 17 d then do {
                 old \<leftarrow> evaluate_reward_curve F (u128_of F (cmt_net_SCOREreward comment)) quadratic CONTENT_CONSTANT_HF0;
                 adjust_SCOREreward2 F old 0 d1 }
               else Some d1);
          Some (claimed, d2) }
        else Some (0, d));
     d2 \<leftarrow> modify_comment i (\<lambda>c. Some (paid_out F d1 c)) d1;
     d3 \<leftarrow> close_votes F i d2;
     Some (claimed_reward, d3) }"

record reward_fund_context =
  rfc_recent_claims :: int
  rfc_reward_balance :: asset
  rfc_TME_awarded :: int

definition RECENT_RSCORE_DECAY_RATE_HF17 :: int where "RECENT_RSCORE_DECAY_RATE_HF17 = 30 * 24 * 60 * 60"
definition RECENT_RSCORE_DECAY_RATE_HF19 :: int where "RECENT_RSCORE_DECAY_RATE_HF19 = 15 * 24 * 60 * 60"

fun decay_funds :: "fc_lib \<Rightarrow> chain_db \<Rightarrow> reward_fund_object list \<Rightarrow> (reward_fund_object list \<times> reward_fund_context list) option" where
  "decay_funds F d [] = Some ([], [])"
| "decay_funds F d (rfo # rs) = do {
     let decay_rate = (if has_hardfork 19 d then RECENT_RSCORE_DECAY_RATE_HF19 else RECENT_RSCORE_DECAY_RATE_HF17);
     q \<leftarrow> u128_div F (u128_mul F (rf_recent_claims rfo) (u128_of F (secs_diff F (head_block_time d) (rf_last_update rfo))))
            (u128_of F decay_rate);
     let rfo = rfo\<lparr>rf_recent_claims := u128_sub F (rf_recent_claims rfo) q, rf_last_update := head_block_time d\<rparr>;
     (rs', cs) \<leftarrow> decay_funds F d rs;
     Some (rfo # rs', \<lparr>rfc_recent_claims = rf_recent_claims rfo, rfc_reward_balance = rf_reward_balance rfo,
                       rfc_TME_awarded = 0\<rparr> # cs) }"

definition cashout_order :: "comment_object \<Rightarrow> time \<times> nat" where
  "cashout_order c = (cmt_cashout_time c, cmt_id c)"

fun collect_claims :: "fc_lib \<Rightarrow> chain_db \<Rightarrow> comment_object list \<Rightarrow> reward_fund_context list \<Rightarrow> reward_fund_context list option" where
  "collect_claims F d [] funds = Some funds"
| "collect_claims F d (c # cs) funds = do {
     funds \<leftarrow> (if cmt_net_SCOREreward c > 0 then do {
              rf \<leftarrow> get_reward_fund d;
              claims \<leftarrow> evaluate_reward_curve F (u128_of F (cmt_net_SCOREreward c)) (rf_authorReward_curve rf) (rf_content_constant rf);
              FC_ASSERT (rf_id rf < length funds);
              let x = funds ! rf_id rf;
              Some (funds[rf_id rf := x\<lparr>rfc_recent_claims := u128_add F (rfc_recent_claims x) claims\<rparr>]) }
            else Some funds);
     collect_claims F d cs funds }"

text \<open>From hardfork 17 on a comment is paid from the snapshot of its fund.\<close>

definition cashout_from_fund ::
  "fc_lib \<Rightarrow> comment_reward_context \<Rightarrow> nat \<Rightarrow> reward_fund_context list \<times> chain_db \<Rightarrow> (reward_fund_context list \<times> chain_db) option" where
  "cashout_from_fund F ctx i s = do {
     let (funds, d) = s;
     rf \<leftarrow> get_reward_fund d;
     FC_ASSERT (rf_id rf < length funds);
     let fund = funds ! rf_id rf;
     (claimed, d1) \<leftarrow> cashout_comment_helper F (ctx\<lparr>ctx_totalSCOREreward2 := rfc_recent_claims fund,
        ctx_total_reward_fund_TME := rfc_reward_balance fund\<rparr>) i d;
     t \<leftarrow> safe_add F (rfc_TME_awarded fund) claimed;
     Some (funds[rf_id rf := fund\<lparr>rfc_TME_awarded := t\<rparr>], d1) }"

text \<open>Before, a whole discussion is paid from the global fund, comment by comment.\<close>

fun cashout_discussion :: "fc_lib \<Rightarrow> comment_reward_context \<Rightarrow> nat list \<Rightarrow> chain_db \<Rightarrow> chain_db option" where
  "cashout_discussion F ctx [] d = Some d"
| "cashout_discussion F ctx (i # is) d = do {
     (reward, d1) \<leftarrow> cashout_comment_helper F (ctx\<lparr>ctx_totalSCOREreward2 := gpo_totalSCOREreward2 (db_gpo d),
        ctx_total_reward_fund_TME := gpo_total_reward_fund_TME (db_gpo d)\<rparr>) i d;
     d2 \<leftarrow> (if reward > 0 then modify_gpo (\<lambda>p. do {
              v \<leftarrow> safe_sub F (amount (gpo_total_reward_fund_TME p)) reward;
              Some (p\<lparr>gpo_total_reward_fund_TME := (gpo_total_reward_fund_TME p)\<lparr>amount := v\<rparr>\<rparr>) }) d1
           else Some d1);
     cashout_discussion F ctx is d2 }"

definition discussion_ids :: "nat \<Rightarrow> chain_db \<Rightarrow> nat list" where
  "discussion_ids r d = map cmt_id (filter (\<lambda>c. cmt_root_comment c = r)
     (idx_sorted (\<lambda>c. (cmt_root_comment c, cmt_id c)) (db_comments d)))"

fun cashout_loop ::
  "fc_lib \<Rightarrow> comment_reward_context \<Rightarrow> nat \<Rightarrow> reward_fund_context list \<times> chain_db \<Rightarrow> (reward_fund_context list \<times> chain_db) option" where
  "cashout_loop F ctx 0 s = None"
| "cashout_loop F ctx (Suc n) s =
     (case idx_begin cashout_order (db_comments (snd s)) of
        None \<Rightarrow> Some s
      | Some current \<Rightarrow>
          if cmt_cashout_time current \<le> head_block_time (snd s) then do {
            s1 \<leftarrow> (if has_hardfork 17 (snd s) then cashout_from_fund F ctx (cmt_id current) s
                  else do {
                    d1 \<leftarrow> cashout_discussion F ctx (discussion_ids (cmt_root_comment current) (snd s)) (snd s);
                    Some (fst s, d1) });
            cashout_loop F ctx n s1 }
          else Some s)"

fun write_funds :: "fc_lib \<Rightarrow> nat \<Rightarrow> reward_fund_context list \<Rightarrow> chain_db \<Rightarrow> chain_db option" where
  "write_funds F i [] d = Some d"
| "write_funds F i (x # xs) d = do {
     rs \<leftarrow> tbl_modify (\<lambda>r. rf_id r = i) (\<lambda>rfo. do {
            b \<leftarrow> asset_sub F (rf_reward_balance rfo) (mk_asset (rfc_TME_awarded x) SYMBOL_COIN);
            Some (rfo\<lparr>rf_recent_claims := rfc_recent_claims x, rf_reward_balance := b\<rparr>) }) (db_reward_funds d);
     write_funds F (Suc i) xs (d\<lparr>db_reward_funds := rs\<rparr>) }"

definition initial_context :: "chain_db \<Rightarrow> comment_reward_context" where
  "initial_context d = \<lparr>ctx_SCOREreward = 0, ctx_reward_weight = 0, ctx_max_TSD = mk_asset 0 SYMBOL_COIN,
     ctx_totalSCOREreward2 = 0, ctx_total_reward_fund_TME = mk_asset 0 SYMBOL_COIN, ctx_current_TME_price = median_price d,
     ctx_reward_curve = quadratic, ctx_content_constant = CONTENT_CONSTANT_HF0\<rparr>"

definition process_comment_cashout :: "fc_lib \<Rightarrow> chain_db \<Rightarrow> chain_db option" where
  "process_comment_cashout F d =
     (if \<not> has_hardfork 7 d then Some d
      else do {
        (rs, funds) \<leftarrow> decay_funds F d (db_reward_funds d);
        let d1 = d\<lparr>db_reward_funds := rs\<rparr>;
        funds \<leftarrow> (if has_hardfork 17 d1
                 then collect_claims F d1 (takeWhile (\<lambda>c. cmt_cashout_time c \<le> head_block_time d1)
                        (idx_sorted cashout_order (db_comments d1))) funds
                 else Some funds);
        (funds, d2) \<leftarrow> cashout_loop F (initial_context d1) (Suc (length (db_comments d1))) (funds, d1);
        write_funds F 0 funds d2 })"

end
