(* ===== verification/Payouts.thy ===== *)
theory Payouts
  imports Rewards
begin

text \<open>
  New money and payouts against the recorded supplies: what \<open>process_funds\<close> issues is what the funds, the SCORE
  fund and the producer receive, and what a comment pays out is what its reward fund gives up.
\<close>

section \<open>Inflation\<close>

lemma ledger_ok_gpo [simp]: "ledger_ok (d\<lparr>db_gpo := g\<rparr>) = ledger_ok d"
  by (simp add: ledger_ok_def)

lemma ledger_ok_funds [simp]: "ledger_ok (d\<lparr>db_reward_funds := rs\<rparr>) = ledger_ok d"
  by (simp add: ledger_ok_def)

lemma ledger_ok_liquidity [simp]: "ledger_ok (d\<lparr>db_liquidity := xs\<rparr>) = ledger_ok d"
  by (simp add: ledger_ok_def)

lemma tme_coin [simp]: "tme (mk_asset v SYMBOL_COIN) = v" "tsd (mk_asset v SYMBOL_COIN) = 0"
  by (simp_all add: tme_def tsd_def symbol_distinct)

lemma funds_moves:
  assumes "tsum (\<lambda>r. amount (rf_reward_balance r)) rs = tsum (\<lambda>r. amount (rf_reward_balance r)) (db_reward_funds d) + x"
  shows "moves d (d\<lparr>db_reward_funds := rs\<rparr>) x 0 0 0"
  using assms by (simp add: moves_def gap_defs)

lemma neutral_step_moves:
  assumes "neutral d d'"
  shows "moves d d' 0 0 0 0 \<and> (ledger_ok d \<longrightarrow> ledger_ok d')"
proof -
  have v: "map account_view (db_accounts d') = map account_view (db_accounts d)"
    and g: "supply_view (db_gpo d') = supply_view (db_gpo d)" using assms by (simp_all add: neutral_def)
  have "moves d d' 0 0 0 0"
    using assms account_view_sums[OF v] g by (simp add: moves_def gap_defs neutral_def supply_view_def)
  with neutral_keeps[OF _ assms] show ?thesis by (auto simp: keeps_def)
qed

lemma neutral_close_votes: "neutral d d1 \<Longrightarrow> neutral_res d (close_votes_loop F i vs d1)"
  by (induction vs arbitrary: d1) (simp_all only: close_votes_loop.simps, (rule neutral_rules | assumption | blast)+)

lemma close_votes_moves: "close_votes F i d = Some d' \<Longrightarrow> moves d d' 0 0 0 0 \<and> (ledger_ok d \<longrightarrow> ledger_ok d')"
  unfolding close_votes_def by (rule neutral_step_moves[OF keptD[OF neutral_close_votes[OF neutral_refl]]])

lemma reward2_moves:
  "adjust_SCOREreward2 F x y d = Some d' \<Longrightarrow> moves d d' 0 0 0 0 \<and> (ledger_ok d \<longrightarrow> ledger_ok d')"
  by (rule neutral_step_moves) (auto simp: adjust_SCOREreward2_def modify_gpo_def neutral_def supply_view_def)

context fc_safe
begin

lemma reward_funds_loop_sum:
  "reward_funds_loop F reward u rs = Some (rs', u') \<Longrightarrow>
   tsum (\<lambda>r. amount (rf_reward_balance r)) rs' = tsum (\<lambda>r. amount (rf_reward_balance r)) rs + (u' - u)"
  by (induction rs arbitrary: u rs') (auto simp: bind_Some_iff dest!: asset_add_SomeD safe_add_SomeD)

lemma pay_reward_funds_moves:
  "pay_reward_funds F reward d = Some (used, d') \<Longrightarrow> moves d d' used 0 0 0 \<and> ledger_ok d' = ledger_ok d"
  by (auto simp: pay_reward_funds_def bind_Some_iff dest!: reward_funds_loop_sum intro!: funds_moves)

lemma issue_moves:
  assumes "modify_gpo (\<lambda>p. do {
        t \<leftarrow> asset_add F (gpo_totalTMEfundForSCORE p) fund;
        w \<leftarrow> (if b then asset_add F (gpo_total_reward_fund_TME p) content else Some (gpo_total_reward_fund_TME p));
        c \<leftarrow> asset_add F (gpo_current_supply p) x;
        v \<leftarrow> asset_add F (gpo_virtual_supply p) x;
        Some (p\<lparr>gpo_totalTMEfundForSCORE := t, gpo_total_reward_fund_TME := w, gpo_current_supply := c, gpo_virtual_supply := v\<rparr>) }) d = Some d'"
  shows "moves d d' (amount fund + (if b then amount content else 0) - amount x) 0 0 0 \<and> ledger_ok d' = ledger_ok d"
  using assms
  by (auto simp: bind_Some_iff moves_def gap_defs dest!: modify_gpo_moves asset_add_SomeD split: if_splits)

lemma distribute_inflation_keeps:
  assumes "ledger_ok d" "distribute_inflation F d = Some d'"
  shows "keeps d d'"
proof -
  from assms(2) obtain c0 c d1 f w s n d2 and a :: account_object and e where
    c: "(if has_hardfork 17 d then pay_reward_funds F c0 d else Some (c0, d)) = Some (c, d1)" and
    s: "safe_add F c f = Some s" "safe_add F s w = Some n" and
    d2: "modify_gpo (\<lambda>p. do {
        t \<leftarrow> asset_add F (gpo_totalTMEfundForSCORE p) (mk_asset f SYMBOL_COIN);
        w \<leftarrow> (if \<not> has_hardfork 17 d1 then asset_add F (gpo_total_reward_fund_TME p) (mk_asset c SYMBOL_COIN)
             else Some (gpo_total_reward_fund_TME p));
        c \<leftarrow> asset_add F (gpo_current_supply p) (mk_asset n SYMBOL_COIN);
        v \<leftarrow> asset_add F (gpo_virtual_supply p) (mk_asset n SYMBOL_COIN);
        Some (p\<lparr>gpo_totalTMEfundForSCORE := t, gpo_total_reward_fund_TME := w, gpo_current_supply := c, gpo_virtual_supply := v\<rparr>) }) d1 = Some d2" and
    e: "createTMEfundForSCORE F (acc_name a) (mk_asset w SYMBOL_COIN) False d2 = Some (e, d')"
    unfolding distribute_inflation_def
    by (simp only: bind_Some_iff split_paired_Ex prod.case map_option_Some_iff snd_conv) (elim exE conjE, hypsubst, rule that, assumption+)
  have h: "has_hardfork 17 d1 = has_hardfork 17 d"
    using c by (auto simp: pay_reward_funds_def bind_Some_iff has_hardfork_def split: if_splits)
  have m1: "moves d d1 (if has_hardfork 17 d then c else 0) 0 0 0 \<and> ledger_ok d1 = ledger_ok d"
    using c pay_reward_funds_moves by (auto simp: moves_refl split: if_splits)
  have n: "n = c + f + w" using s by (auto dest!: safe_add_SomeD)
  from m1 issue_moves[OF d2] createTMEfundForSCORE_moves[OF e] n h assms(1) show ?thesis
    by (intro keeps_moves) (auto simp: moves_def)
qed

lemma producer_reward_cases:
  assumes "get_producer_reward F d = Some (pay, d')"
  obtains a :: account_object where "symbol pay = SYMBOL_COIN" "(\<exists>s. createTMEfundForSCORE F (acc_name a) pay False d = Some (s, d')) \<or>
      modify_account (acc_name a) (\<lambda>a. do { b \<leftarrow> asset_add F (acc_balance a) pay; Some (a\<lparr>acc_balance := b\<rparr>) }) d = Some d'"
proof -
  have sym: "symbol (max_coin p MINING_REWARD) = SYMBOL_COIN" for p by (simp add: max_coin_def MINING_REWARD_def)
  from assms obtain a :: account_object and p where a: "pay = max_coin p MINING_REWARD"
    "(if gpo_head_block_number (db_gpo d) \<ge> START_MINER_VOTING_BLOCK \<or> amount (acc_SCORE a) = 0
      then map_option snd (createTMEfundForSCORE F (acc_name a) pay False d)
      else modify_account (acc_name a) (\<lambda>a. do { b \<leftarrow> asset_add F (acc_balance a) pay; Some (a\<lparr>acc_balance := b\<rparr>) }) d) = Some d'"
    by (auto simp: get_producer_reward_def bind_Some_iff Let_def)
  show thesis
  proof (rule that[of a])
    show "symbol pay = SYMBOL_COIN" using sym a(1) by simp
    show "(\<exists>s. createTMEfundForSCORE F (acc_name a) pay False d = Some (s, d')) \<or>
      modify_account (acc_name a) (\<lambda>a. do { b \<leftarrow> asset_add F (acc_balance a) pay; Some (a\<lparr>acc_balance := b\<rparr>) }) d = Some d'"
      using a(2) by (auto split: if_splits)
  qed
qed

lemma get_producer_reward_moves:
  assumes "get_producer_reward F d = Some (pay, d')"
  shows "moves d d' (amount pay) 0 0 0 \<and> symbol pay = SYMBOL_COIN \<and> (ledger_ok d \<longrightarrow> ledger_ok d')"
proof -
  from assms obtain a :: account_object where
    pay: "symbol pay = SYMBOL_COIN" and
    d': "(\<exists>s. createTMEfundForSCORE F (acc_name a) pay False d = Some (s, d')) \<or>
      modify_account (acc_name a) (\<lambda>a. do { b \<leftarrow> asset_add F (acc_balance a) pay; Some (a\<lparr>acc_balance := b\<rparr>) }) d = Some d'"
    by (rule producer_reward_cases)
  from d' show ?thesis
  proof
    assume "\<exists>s. createTMEfundForSCORE F (acc_name a) pay False d = Some (s, d')"
    then show ?thesis using createTMEfundForSCORE_moves[OF _ pay] pay by (auto simp: tme_def)
  next
    assume m: "modify_account (acc_name a) (\<lambda>a. do { b \<leftarrow> asset_add F (acc_balance a) pay; Some (a\<lparr>acc_balance := b\<rparr>) }) d = Some d'"
    have "moves d d' (amount pay) 0 0 0"
      using modify_account_moves[OF m] by (auto simp: bind_Some_iff acct_defs moves_def dest!: asset_add_SomeD)
    moreover have "ledger_ok d \<longrightarrow> ledger_ok d'"
      by (intro impI ledger_ok_modify_account[OF _ m]) (auto simp: bind_Some_iff)
    ultimately show ?thesis using pay by blast
  qed
qed

lemma distribute_rewards_keeps:
  assumes "ledger_ok d" "distribute_rewards F d = Some d'"
  shows "keeps d d'"
proof -
  from assms(2) obtain w d1 f c where
    w: "get_producer_reward F d = Some (w, d1)" and
    d': "modify_gpo (\<lambda>p. do {
        t \<leftarrow> asset_add F (gpo_totalTMEfundForSCORE p) f;
        w' \<leftarrow> asset_add F (gpo_total_reward_fund_TME p) c;
        x \<leftarrow> asset_add F c w;
        x \<leftarrow> asset_add F x f;
        cs \<leftarrow> asset_add F (gpo_current_supply p) x;
        v \<leftarrow> asset_add F (gpo_virtual_supply p) x;
        Some (p\<lparr>gpo_totalTMEfundForSCORE := t, gpo_total_reward_fund_TME := w', gpo_current_supply := cs, gpo_virtual_supply := v\<rparr>) }) d1 = Some d'"
    unfolding distribute_rewards_def Let_def
    by (simp only: bind_Some_iff split_paired_Ex prod.case) (elim exE conjE, rule that, assumption+)
  have "moves d1 d' (- amount w) 0 0 0 \<and> ledger_ok d' = ledger_ok d1"
    using d' by (auto simp: bind_Some_iff moves_def gap_defs dest!: modify_gpo_moves asset_add_SomeD)
  with get_producer_reward_moves[OF w] assms(1) show ?thesis by (intro keeps_moves) (auto simp: moves_def)
qed

lemma process_funds_keeps: "ledger_ok d \<Longrightarrow> process_funds F d = Some d' \<Longrightarrow> keeps d d'"
  by (auto simp: process_funds_def split: if_splits intro: distribute_inflation_keeps distribute_rewards_keeps)

lemma get_liquidity_coin: "get_liquidity_reward F d = Some x \<Longrightarrow> symbol x = SYMBOL_COIN"
  by (auto simp: get_liquidity_reward_def max_coin_def MIN_LIQUIDITY_REWARD_def bind_Some_iff split: if_splits)

lemma pay_liquidity_keeps:
  assumes "ledger_ok d" "pay_liquidity_reward F d = Some d'"
  shows "keeps d d'"
proof -
  consider "d' = d" | x d1 d2 n xs where "adjust_supply F x True d = Some d1" "adjust_balance F n x d1 = Some d2"
    "d' = d2\<lparr>db_liquidity := xs\<rparr>"
    using assms(2) by (auto simp: pay_liquidity_reward_def bind_Some_iff split: if_splits option.splits)
  then show ?thesis
  proof cases
    case 1
    then show ?thesis using assms(1) by (simp add: keeps_def)
  next
    case 2
    have "moves d d2 0 0 0 0" using adjust_supply_moves[OF 2(1)] adjust_balance_moves[OF 2(2)] by (simp add: moves_def)
    then have "moves d d' 0 0 0 0" using 2(3) by (simp add: moves_def gap_defs)
    moreover have "ledger_ok d1" using 2(1) assms(1) by (auto dest!: modify_gpo_moves simp: adjust_supply_def Let_def)
    then have "ledger_ok d2" using ledger_ok_frame[OF adjust_balance_frame[OF 2(2)]] by simp
    ultimately show ?thesis using 2(3) by (intro keeps_moves) simp_all
  qed
qed

section \<open>Payouts\<close>

lemma rewards_moves:
  assumes "modify_account n (\<lambda>a. do { r \<leftarrow> safe_add F (acc_curationRewards a) x; Some (a\<lparr>acc_curationRewards := r\<rparr>) }) d = Some d' \<or>
    modify_account n (\<lambda>a. do { v \<leftarrow> safe_add F (acc_posting_rewards a) x; Some (a\<lparr>acc_posting_rewards := v\<rparr>) }) d = Some d'"
  shows "moves d d' 0 0 0 0 \<and> (ledger_ok d \<longrightarrow> ledger_ok d')"
  using assms
  by (elim disjE) (auto intro!: modify_account_same elim!: ledger_ok_modify_account[rotated] simp: bind_Some_iff acct_defs)

lemma curators_moves:
  "curators_loop F m w vs u d = Some (u', d') \<Longrightarrow> moves d d' (u - u') 0 0 0 \<and> (ledger_ok d \<longrightarrow> ledger_ok d')"
proof (induction vs arbitrary: u d)
  case Nil
  then show ?case by (simp add: moves_refl)
next
  case (Cons v vs)
  from Cons.prems obtain c u1 d1 where
    c: "(if c > 0 then do {
          let claim = int64_of_uint64 c;
          unclaimed_rewards \<leftarrow> safe_sub F u claim;
          voter \<leftarrow> get_account_id (cvo_voter v) d;
          (reward, d1) \<leftarrow> createTMEfundForSCORE F (acc_name voter) (mk_asset claim SYMBOL_COIN) (has_hardfork 17 d) d;
          d2 \<leftarrow> modify_account (acc_name voter) (\<lambda>a. do {
                 r \<leftarrow> safe_add F (acc_curationRewards a) claim;
                 Some (a\<lparr>acc_curationRewards := r\<rparr>) }) d1;
          Some (unclaimed_rewards, d2) }
        else Some (u, d)) = Some (u1, d1)" and
    r: "curators_loop F m w vs u1 d1 = Some (u', d')"
    unfolding curators_loop.simps
    by (simp only: bind_Some_iff split_paired_Ex prod.case) (elim exE conjE, rule that, assumption+)
  have "moves d d1 (u - u1) 0 0 0 \<and> (ledger_ok d \<longrightarrow> ledger_ok d1)"
  proof (cases "c > 0")
    case False
    then show ?thesis using c by (simp add: moves_refl)
  next
    case True
    with c obtain n s e where u1: "safe_sub F u (int64_of_uint64 c) = Some u1" and
      e: "createTMEfundForSCORE F n (mk_asset (int64_of_uint64 c) SYMBOL_COIN) (has_hardfork 17 d) d = Some (s, e)" and
      d1: "modify_account n (\<lambda>a. do { r \<leftarrow> safe_add F (acc_curationRewards a) (int64_of_uint64 c);
             Some (a\<lparr>acc_curationRewards := r\<rparr>) }) e = Some d1"
      by (auto simp: Let_def bind_Some_iff)
    from createTMEfundForSCORE_moves[OF e] rewards_moves[OF disjI1[OF d1]] safe_sub_SomeD[OF u1] show ?thesis
      by (auto simp: moves_def)
  qed
  with Cons.IH[OF r] show ?case by (auto simp: moves_def)
qed

lemma pay_curators_moves:
  "pay_curators F c m d = Some (u, m', d') \<Longrightarrow>
   moves d d' m' 0 0 0 \<and> (ledger_ok d \<longrightarrow> ledger_ok d') \<and> (m' = m - u \<or> u = 0 \<and> m' = 0)"
  by (auto simp: pay_curators_def bind_Some_iff moves_refl dest!: safe_sub_SomeD curators_moves split: if_splits)

lemma beneficiaries_moves:
  "beneficiaries_pay F a bs t d = Some (t', d') \<Longrightarrow> moves d d' (t' - t) 0 0 0 \<and> (ledger_ok d \<longrightarrow> ledger_ok d')"
proof (induction bs arbitrary: t d)
  case Nil
  then show ?case by (simp add: moves_refl)
next
  case (Cons b bs)
  from Cons.prems obtain x n s d1 t1 where
    d1: "createTMEfundForSCORE F n (mk_asset x SYMBOL_COIN) (has_hardfork 17 d) d = Some (s, d1)" and
    t1: "safe_add F t x = Some t1" and r: "beneficiaries_pay F a bs t1 d1 = Some (t', d')"
    by (auto simp: bind_Some_iff)
  from createTMEfundForSCORE_moves[OF d1] safe_add_SomeD[OF t1] Cons.IH[OF r] show ?case by (auto simp: moves_def)
qed

lemma comment_moves:
  "modify_comment i f d = Some d' \<Longrightarrow> moves d d' 0 0 0 0 \<and> (ledger_ok d \<longrightarrow> ledger_ok d')"
  by (auto simp: modify_comment_def bind_Some_iff moves_def gap_defs ledger_ok_def)

lemma pay_reward_moves:
  assumes "pay_reward F c reward d = Some (claimed, d')"
  shows "moves d d' claimed 0 0 0 \<and> (ledger_ok d \<longrightarrow> ledger_ok d')"
proof (cases "u128_of F reward > 0")
  case False
  then show ?thesis using assms by (simp add: pay_reward_def Let_def moves_refl)
next
  case True
  with assms obtain r k a0 u m d1 a1 t d2 a2 x v n s d3 p q d4 z y1 y2 d5 d6 where
    cu: "pay_curators F c k d = Some (u, m, d1)" and
    a: "safe_add F a0 u = Some a1" "safe_add F a1 m = Some claimed" and
    b: "beneficiaries_pay F a1 (cmt_beneficiaries c) 0 d1 = Some (t, d2)" and
    a2: "safe_sub F a1 t = Some a2" and v: "safe_sub F a2 x = Some v" and
    d3: "createTMEfundForSCORE F n (mk_asset v SYMBOL_COIN) (has_hardfork 17 d) d2 = Some (s, d3)" and
    d4: "create_TSD F n (mk_asset x SYMBOL_COIN) (has_hardfork 17 d) d3 = Some ((p, q), d4)" and
    d5: "adjust_total_payout F (cmt_id c) z y1 y2 d4 = Some d5" and
    d6: "modify_comment (cmt_id c) (\<lambda>c. do {
              v \<leftarrow> safe_add F (cmt_authorRewards c) a2;
              Some (c\<lparr>cmt_authorRewards := v\<rparr>) }) d5 = Some d6" and
    d7: "modify_account (cmt_author c) (\<lambda>a. do {
              v \<leftarrow> safe_add F (acc_posting_rewards a) a2;
              Some (a\<lparr>acc_posting_rewards := v\<rparr>) }) d6 = Some d'"
    unfolding pay_reward_def Let_def
    by (simp only: if_True bind_Some_iff split_paired_Ex prod.case option.inject)
      (elim exE conjE Pair_inject, hypsubst, rule that, assumption+)
  have eq: "claimed = m + t + v + x" using a a2 v by (auto dest!: safe_add_SomeD safe_sub_SomeD)
  from pay_curators_moves[OF cu] beneficiaries_moves[OF b] createTMEfundForSCORE_moves[OF d3] create_TSD_moves[OF d4]
    comment_moves[OF d5[unfolded adjust_total_payout_def]] comment_moves[OF d6] rewards_moves[OF disjI2[OF d7]] eq
  show ?thesis by (auto simp: moves_def)
qed

lemma helper_moves:
  assumes "cashout_comment_helper F ctx i d = Some (claimed, d')"
  shows "moves d d' claimed 0 0 0 \<and> (ledger_ok d \<longrightarrow> ledger_ok d')"
proof -
  from assms obtain c :: comment_object and d1 d2 where
    c: "(if cmt_net_SCOREreward c > 0 then do {
          ctx \<leftarrow> comment_context ctx c d;
          reward \<leftarrow> get_SCORE_reward F ctx;
          (claimed, d1) \<leftarrow> pay_reward F c (int64_of_uint64 reward) d;
          d2 \<leftarrow> (if \<not> has_hardfork 17 d then do {
                 old \<leftarrow> evaluate_reward_curve F (u128_of F (cmt_net_SCOREreward c)) quadratic CONTENT_CONSTANT_HF0;
                 adjust_SCOREreward2 F old 0 d1 }
               else Some d1);
          Some (claimed, d2) }
        else Some (0, d)) = Some (claimed, d1)" and
    d2: "modify_comment i (\<lambda>c. Some (paid_out F d1 c)) d1 = Some d2" and d': "close_votes F i d2 = Some d'"
    unfolding cashout_comment_helper_def
    by (simp only: bind_Some_iff split_paired_Ex prod.case option.inject)
      (elim exE conjE Pair_inject, hypsubst, rule that, assumption+)
  have "moves d d1 claimed 0 0 0 \<and> (ledger_ok d \<longrightarrow> ledger_ok d1)"
  proof (cases "cmt_net_SCOREreward c > 0")
    case False
    then show ?thesis using c by (simp add: moves_refl)
  next
    case True
    with c obtain r e where r: "pay_reward F c r d = Some (claimed, e)" and
      e: "(if \<not> has_hardfork 17 d then do {
                 old \<leftarrow> evaluate_reward_curve F (u128_of F (cmt_net_SCOREreward c)) quadratic CONTENT_CONSTANT_HF0;
                 adjust_SCOREreward2 F old 0 e }
               else Some e) = Some d1"
      by (simp only: if_True bind_Some_iff split_paired_Ex prod.case option.inject)
        (elim exE conjE Pair_inject, hypsubst, rule that, assumption+)
    have "moves e d1 0 0 0 0 \<and> (ledger_ok e \<longrightarrow> ledger_ok d1)"
    proof (cases "has_hardfork 17 d")
      case False
      then obtain x where "adjust_SCOREreward2 F x 0 e = Some d1" using e by (auto simp: bind_Some_iff)
      then show ?thesis by (rule reward2_moves)
    qed (use e in \<open>simp add: moves_refl\<close>)
    with pay_reward_moves[OF r] show ?thesis by (auto simp: moves_def)
  qed
  with comment_moves[OF d2] close_votes_moves[OF d'] show ?thesis by (auto simp: moves_def)
qed

end

end
