(* ===== verification/Cashout.thy ===== *)
theory Cashout
  imports Payouts
begin

text \<open>
  The payout of a block as a whole (\<open>database::process_comment_cashout\<close>): the loop over the due comments ends with
  none of them due, from hardfork 17 on it never needs more rounds than it has, and what the comments are paid is
  taken from the reward funds.
\<close>

section \<open>What a payout leaves alone\<close>

text \<open>Paying a comment changes neither the clock nor when comments are due.\<close>

definition paying :: "chain_db \<Rightarrow> chain_db \<Rightarrow> bool" where
  "paying d d' \<longleftrightarrow> same_clock d d' \<and> map cashout_order (db_comments d') = map cashout_order (db_comments d)"

abbreviation paying_res :: "chain_db \<Rightarrow> chain_db option \<Rightarrow> bool" where
  "paying_res \<equiv> kept paying"

abbreviation paying_pair :: "chain_db \<Rightarrow> ('a \<times> chain_db) option \<Rightarrow> bool" where
  "paying_pair \<equiv> kept (\<lambda>d x. paying d (snd x))"

lemma paying_refl [simp]: "paying d d" by (simp add: paying_def)

lemma paying_trans: "paying a b \<Longrightarrow> paying b c \<Longrightarrow> paying a c"
  by (auto simp: paying_def intro: same_clock_trans)

lemma paying_start: "(paying d d \<Longrightarrow> kept R d m) \<Longrightarrow> kept R d m" by simp

lemma paying_bind_pair: "paying_pair d m \<Longrightarrow> (\<And>x d1. paying d d1 \<Longrightarrow> kept R d (f (x, d1))) \<Longrightarrow> kept R d (m \<bind> f)"
  by (auto simp: kept_def bind_Some_iff)

lemma paying_bind_triple:
  "kept (\<lambda>d x. paying d (snd (snd x))) d m \<Longrightarrow> (\<And>x y d1. paying d d1 \<Longrightarrow> kept R d (f (x, y, d1))) \<Longrightarrow> kept R d (m \<bind> f)"
  by (auto simp: kept_def bind_Some_iff)

lemma kept_pair_fun: "(\<And>x y. kept R d (f x y z)) \<Longrightarrow> kept R d ((case p of (x, y) \<Rightarrow> f x y) z)"
  by (cases p) simp

lemma paying_Some: "paying d d1 \<Longrightarrow> paying_pair d (Some (x, d1))" by (simp add: kept_def)

lemma paying_frame:
  "paying d d1 \<Longrightarrow> db_gpo d2 = db_gpo d1 \<Longrightarrow> db_processed_hardforks d2 = db_processed_hardforks d1 \<Longrightarrow>
   db_comments d2 = db_comments d1 \<Longrightarrow> paying d d2"
  by (auto simp: paying_def elim: same_clock_gpo)

lemma paying_account: "paying d d1 \<Longrightarrow> paying_res d (modify_account n f d1)"
  by (auto simp: kept_def modify_account_def bind_Some_iff elim: paying_frame)

lemma paying_vote: "paying d d1 \<Longrightarrow> paying_res d (modify_comment_vote c v f d1)"
  by (auto simp: kept_def modify_comment_vote_def bind_Some_iff elim: paying_frame)

lemma paying_gpo:
  assumes "paying d d1" "\<And>g g'. f g = Some g' \<Longrightarrow> gpo_time g' = gpo_time g \<and> gpo_head_block_number g' = gpo_head_block_number g"
  shows "paying_res d (modify_gpo f d1)"
  using assms
  by (auto simp: kept_def modify_gpo_def bind_Some_iff paying_def same_clock_def head_block_time_def head_block_num_def)

lemma paying_comment:
  assumes "paying d d1" "\<And>c c'. f c = Some c' \<Longrightarrow> cashout_order c' = cashout_order c"
  shows "paying_res d (modify_comment i f d1)"
proof -
  have "paying d1 d'" if m: "modify_comment i f d1 = Some d'" for d'
  proof -
    obtain xs where xs: "tbl_modify (\<lambda>c. cmt_id c = i) f (db_comments d1) = Some xs" "d' = d1\<lparr>db_comments := xs\<rparr>"
      using m by (auto simp: modify_comment_def bind_Some_iff)
    show ?thesis using map_key_modify[OF xs(1), of cashout_order] assms(2) xs(2) same_clock_gpo[OF same_clock_refl, of d' d1]
      by (simp add: paying_def)
  qed
  then show ?thesis using assms(1) paying_trans by (auto simp: kept_def)
qed

context fc_safe
begin

lemma paying_walk: "paying d d1 \<Longrightarrow> paying_res d (adjust_proxied_witness_vote F n x k d1)"
  by (auto simp: kept_def vote_frame_def dest!: single_walk.walk_frame) (rule paying_frame, assumption, simp_all)

lemmas paying_rules = paying_account paying_vote paying_walk paying_Some clock_split kept_bind[of paying] paying_bind_pair kept_pair_fun kept_rules

lemma paying_createSCORE: "paying d d1 \<Longrightarrow> paying_pair d (createTMEfundForSCORE F n c r d1)"
  unfolding createTMEfundForSCORE_def
  by (rule paying_rules paying_gpo | assumption | (auto simp: bind_Some_iff split: if_splits; fail))+

lemma paying_supply: "paying d d1 \<Longrightarrow> paying_res d (adjust_supply F x b d1)"
  unfolding adjust_supply_def
  by (rule paying_rules paying_gpo | assumption | (auto simp: bind_Some_iff Let_def split: if_splits; fail))+

lemma paying_interest: "paying d d1 \<Longrightarrow> paying_res d (issue_interest F p d1)"
  unfolding issue_interest_def by (rule paying_rules paying_gpo | assumption | (auto simp: bind_Some_iff; fail))+

lemma paying_balances: "paying d d1 \<Longrightarrow> paying_res d (adjust_balance F n x d1)"
  "paying d d1 \<Longrightarrow> paying_res d (adjust_reward_balance F n x d1)"
  unfolding adjust_balance_def adjust_reward_balance_def by (rule paying_interest paying_rules | assumption)+

lemma paying_create_TSD: "paying d d1 \<Longrightarrow> paying_pair d (create_TSD F n c r d1)"
  unfolding create_TSD_def
  by (cases r) (simp_all only: if_True if_False, (rule paying_balances paying_supply paying_rules | assumption)+)

lemma paying_curators: "paying d d1 \<Longrightarrow> paying_pair d (curators_loop F m w vs u d1)"
  by (induction vs arbitrary: u d1) (simp_all only: curators_loop.simps,
      (rule paying_createSCORE paying_rules | assumption | blast)+)

lemma paying_beneficiaries: "paying d d1 \<Longrightarrow> paying_pair d (beneficiaries_pay F a bs t d1)"
  by (induction bs arbitrary: t d1) (simp_all only: beneficiaries_pay.simps,
      (rule paying_createSCORE paying_rules | assumption | blast)+)

lemma paying_pay_curators: "paying d d1 \<Longrightarrow> kept (\<lambda>d x. paying d (snd (snd x))) d (pay_curators F c m d1)"
  using paying_curators[of d d1]
  by (auto simp: pay_curators_def kept_def bind_Some_iff split: if_splits)

lemma paying_pay_reward: "paying_pair d (pay_reward F c r d)"
  unfolding pay_reward_def adjust_total_payout_def
  by (rule paying_start) (rule paying_createSCORE paying_create_TSD paying_beneficiaries paying_comment
      paying_bind_triple[OF paying_pay_curators] paying_rules | assumption | (auto simp: bind_Some_iff cashout_order_def; fail))+

lemma paying_close_votes: "paying d d1 \<Longrightarrow> paying_res d (close_votes_loop F i vs d1)"
  by (induction vs arbitrary: d1) (simp_all only: close_votes_loop.simps, (rule paying_rules | assumption | blast)+)

lemma paying_reward2: "paying d d1 \<Longrightarrow> paying_res d (adjust_SCOREreward2 F x y d1)"
  unfolding adjust_SCOREreward2_def by (rule paying_gpo) auto

text \<open>Only the paid comment is rescheduled.\<close>

lemma helper_reschedules:
  assumes "cashout_comment_helper F ctx i d = Some (claimed, d')"
  obtains d1 d2 where "paying d d1" "modify_comment i (\<lambda>c. Some (paid_out F d1 c)) d1 = Some d2" "paying d2 d'"
proof -
  from assms obtain c :: comment_object and d1 d2 where
    c: "(if cmt_net_SCOREreward c > 0 then do {
          ctx \<leftarrow> comment_context ctx c d;
          reward \<leftarrow> get_SCORE_reward F ctx;
          (claimed, d1) \<leftarrow> pay_reward F c (int64_of_uint64 reward) d;
          d2 \<leftarrow> (if \<not> has_hardfork 17 d then do {
                 old \<leftarrow> evaluate_reward_curve F (u128_of F (cmt_net_SCOREreward c)) quadratic CONTENT_CONSTANT_HF0;
                 adjust_SCOREreward2 F old 0 d1 }
               else Some d1);
          Some (claimed, d2) }
        else Some (0, d)) = Some (claimed, d1)" (is "?m = _") and
    d2: "modify_comment i (\<lambda>c. Some (paid_out F d1 c)) d1 = Some d2" and d': "close_votes F i d2 = Some d'"
    unfolding cashout_comment_helper_def
    by (simp only: bind_Some_iff split_paired_Ex prod.case option.inject)
      (elim exE conjE Pair_inject, hypsubst, rule that, assumption+)
  have "paying_pair d ?m"
    by (rule paying_start) (rule paying_bind_pair[OF paying_pay_reward] paying_reward2 paying_rules | assumption)+
  then have "paying d d1" using c by (auto dest: keptD)
  then show thesis
    using d2 keptD[OF paying_close_votes[OF paying_refl] d'[unfolded close_votes_def]] by (rule that)
qed

lemma helper_clock: "cashout_comment_helper F ctx i d = Some (claimed, d') \<Longrightarrow> same_clock d d'"
proof (elim helper_reschedules)
  fix d1 d2
  assume m: "paying d d1" "modify_comment i (\<lambda>c. Some (paid_out F d1 c)) d1 = Some d2" "paying d2 d'"
  then have "same_clock d1 d2" by (auto simp: modify_comment_def bind_Some_iff intro: same_clock_gpo[OF same_clock_refl])
  with m show "same_clock d d'" by (auto simp: paying_def intro: same_clock_trans)
qed

end

section \<open>The loop\<close>

definition due :: "chain_db \<Rightarrow> comment_object \<Rightarrow> bool" where
  "due d c \<longleftrightarrow> cmt_cashout_time c \<le> head_block_time d"

text \<open>One round, and how the loop is made of them.\<close>

definition cashout_round ::
  "fc_lib \<Rightarrow> comment_reward_context \<Rightarrow> comment_object \<Rightarrow> reward_fund_context list \<times> chain_db \<Rightarrow> (reward_fund_context list \<times> chain_db) option" where
  "cashout_round F ctx c s =
     (if has_hardfork 17 (snd s) then cashout_from_fund F ctx (cmt_id c) s
      else do {
        d1 \<leftarrow> cashout_discussion F ctx (discussion_ids (cmt_root_comment c) (snd s)) (snd s);
        Some (fst s, d1) })"

lemma cashout_loop_Suc:
  "cashout_loop F ctx (Suc n) s = (case idx_begin cashout_order (db_comments (snd s)) of None \<Rightarrow> Some s
     | Some c \<Rightarrow> if due (snd s) c then Option.bind (cashout_round F ctx c s) (cashout_loop F ctx n) else Some s)"
  by (auto simp: due_def cashout_round_def split: option.splits)

declare cashout_loop.simps(2) [simp del]

inductive cashout_rounds ::
  "fc_lib \<Rightarrow> comment_reward_context \<Rightarrow> reward_fund_context list \<times> chain_db \<Rightarrow> reward_fund_context list \<times> chain_db \<Rightarrow> bool" for F ctx where
  stop: "cashout_rounds F ctx s s"
| round: "idx_begin cashout_order (db_comments (snd s)) = Some c \<Longrightarrow> due (snd s) c \<Longrightarrow> cashout_round F ctx c s = Some s1 \<Longrightarrow>
          cashout_rounds F ctx s1 s' \<Longrightarrow> cashout_rounds F ctx s s'"

lemma first_not_due: "idx_begin cashout_order (db_comments d) = Some c \<Longrightarrow> \<not> due d c \<Longrightarrow> \<forall>x \<in> set (db_comments d). \<not> due d x"
  by (fastforce dest!: idx_begin_Some simp: due_def cashout_order_def)

lemma cashout_loop_cases:
  assumes "cashout_loop F ctx n s = Some s'"
  obtains (stop) "s' = s" "\<forall>c \<in> set (db_comments (snd s)). \<not> due (snd s) c"
    | (round) m c s1 where "n = Suc m" "idx_begin cashout_order (db_comments (snd s)) = Some c" "due (snd s) c"
        "cashout_round F ctx c s = Some s1" "cashout_loop F ctx m s1 = Some s'"
proof (cases n)
  case (Suc m)
  show thesis
  proof (cases "idx_begin cashout_order (db_comments (snd s))")
    case None
    then show ?thesis using assms Suc stop by (simp add: cashout_loop_Suc) (simp add: idx_begin_None)
  next
    case (Some c)
    show ?thesis
    proof (cases "due (snd s) c")
      case True
      then show ?thesis using assms Suc Some round by (auto simp: cashout_loop_Suc bind_Some_iff)
    next
      case False
      then show ?thesis using assms Suc Some stop first_not_due[OF Some False] by (simp add: cashout_loop_Suc)
    qed
  qed
qed (use assms in simp)

lemma loop_none_due: "cashout_loop F ctx n s = Some s' \<Longrightarrow> \<forall>c \<in> set (db_comments (snd s')). \<not> due (snd s') c"
proof (induction n arbitrary: s)
  case (Suc n)
  from Suc.prems show ?case by (cases rule: cashout_loop_cases) (use Suc.IH in auto)
qed simp

lemma write_funds_frame: "write_funds F i xs d = Some d' \<Longrightarrow> \<exists>rs. d' = d\<lparr>db_reward_funds := rs\<rparr>"
proof (induction xs arbitrary: i d)
  case Nil
  then show ?case by (auto intro: exI[of _ "db_reward_funds d"])
next
  case (Cons x xs)
  then show ?case by (fastforce simp: bind_Some_iff)
qed

lemma cashout_none_due:
  assumes "process_comment_cashout F d = Some d'" "has_hardfork 7 d"
  shows "\<forall>c \<in> set (db_comments d'). \<not> due d' c"
proof -
  from assms obtain ctx n s fs d2 where l: "cashout_loop F ctx n s = Some (fs, d2)" and w: "write_funds F 0 fs d2 = Some d'"
    by (auto simp: process_comment_cashout_def bind_Some_iff Let_def)
  from write_funds_frame[OF w] loop_none_due[OF l] show ?thesis by (auto simp: due_def head_block_time_def)
qed

section \<open>Enough rounds\<close>

text \<open>From hardfork 17 on each round reschedules the comment it pays to the end of time, so that one comment less
  is due.\<close>

definition due_count :: "chain_db \<Rightarrow> int" where
  "due_count d = tsum (\<lambda>c. if due d c then 1 else 0) (db_comments d)"

lemma due_count_nonneg: "0 \<le> due_count d"
  by (auto simp: due_count_def intro!: sum_list_nonneg)

lemma due_count_le: "due_count d \<le> int (length (db_comments d))"
proof -
  have "tsum (\<lambda>c. if due d c then 1 else 0) xs \<le> int (length xs)" for xs by (induction xs) auto
  then show ?thesis by (simp add: due_count_def)
qed

lemma due_count_paying:
  assumes "paying d d'"
  shows "due_count d' = due_count d"
proof -
  have "(\<lambda>c. if due e c then 1 else 0) = (\<lambda>t. if fst t \<le> head_block_time e then 1 else 0 :: int) \<circ> cashout_order" for e
    by (auto simp: due_def cashout_order_def)
  then have "due_count e = tsum (\<lambda>t. if fst t \<le> head_block_time e then 1 else 0) (map cashout_order (db_comments e))" for e
    by (simp add: due_count_def)
  then show ?thesis using assms by (simp add: paying_def same_clock_def del: map_map)
qed

lemma paying_ids: "paying d d' \<Longrightarrow> map cmt_id (db_comments d') = map cmt_id (db_comments d)"
proof -
  have "map cmt_id xs = map snd (map cashout_order xs)" for xs by (simp add: cashout_order_def)
  then show "paying d d' \<Longrightarrow> map cmt_id (db_comments d') = map cmt_id (db_comments d)" by (metis paying_def)
qed

lemma paying_row: "paying d d' \<Longrightarrow> c \<in> set (db_comments d) \<Longrightarrow> \<exists>c' \<in> set (db_comments d'). cashout_order c' = cashout_order c"
  by (metis (no_types, lifting) paying_def image_iff list.set_map)

text \<open>The states the loop runs through.\<close>

definition payable :: "fc_lib \<Rightarrow> chain_db \<Rightarrow> bool" where
  "payable F d \<longleftrightarrow> has_hardfork 17 d \<and> distinct (map cmt_id (db_comments d)) \<and> head_block_time d < secs_max F"

lemma find_distinct: "distinct (map g xs) \<Longrightarrow> x \<in> set xs \<Longrightarrow> List.find (\<lambda>y. g y = g x) xs = Some x"
  by (induction xs) (auto simp: image_iff)

lemma same_hardfork: "same_clock d d' \<Longrightarrow> has_hardfork h d' = has_hardfork h d"
  by (simp add: same_clock_def has_hardfork_def)

context fc_safe
begin

lemma helper_progress:
  assumes "cashout_comment_helper F ctx (cmt_id c) d = Some (claimed, d')" "payable F d" "c \<in> set (db_comments d)" "due d c"
  shows "due_count d' < due_count d \<and> payable F d'"
proof (rule helper_reschedules[OF assms(1)])
  fix d1 d2
  assume m: "paying d d1" "modify_comment (cmt_id c) (\<lambda>c. Some (paid_out F d1 c)) d1 = Some d2" "paying d2 d'"
  from paying_row[OF m(1) assms(3)] obtain c1 where c1: "c1 \<in> set (db_comments d1)" "cashout_order c1 = cashout_order c" by blast
  from m(2) obtain xs where xs: "tbl_modify (\<lambda>x. cmt_id x = cmt_id c) (\<lambda>c. Some (paid_out F d1 c)) (db_comments d1) = Some xs"
    "d2 = d1\<lparr>db_comments := xs\<rparr>" by (auto simp: modify_comment_def bind_Some_iff)
  have k: "payable F d1" using assms(2) m(1) paying_ids[OF m(1)]
    by (auto simp: payable_def paying_def same_hardfork) (simp add: same_clock_def)
  have f: "List.find (\<lambda>x. cmt_id x = cmt_id c) (db_comments d1) = Some c1"
    using find_distinct[of cmt_id, OF _ c1(1)] k c1(2) by (simp add: payable_def cashout_order_def)
  have p: "cmt_cashout_time (paid_out F d1 c1) = secs_max F" "cmt_id (paid_out F d1 x) = cmt_id x" for x
    using k by (simp_all add: payable_def paid_out_def Let_def)
  have h: "head_block_time d2 = head_block_time d1" "has_hardfork 17 d2 = has_hardfork 17 d1"
    using xs(2) by (simp_all add: head_block_time_def has_hardfork_def)
  have "due d1 c1" using assms(4) c1(2) m(1) by (simp add: due_def cashout_order_def paying_def same_clock_def)
  then have "due_count d2 < due_count d1"
    using tsum_modify_find[OF xs(1) f refl, of "\<lambda>c. if due d1 c then 1 else 0"] p(1) k xs(2) h
    by (simp add: due_count_def due_def payable_def)
  moreover have "payable F d2"
    using map_key_modify[OF xs(1), of cmt_id] p(2) k xs(2) h by (simp add: payable_def)
  then have "payable F d'" using m(3) paying_ids[OF m(3)]
    by (auto simp: payable_def paying_def same_hardfork) (simp add: same_clock_def)
  ultimately show ?thesis using due_count_paying[OF m(1)] due_count_paying[OF m(3)] by simp
qed

lemma round_progress:
  assumes "payable F (snd s)" "c \<in> set (db_comments (snd s))" "due (snd s) c" "cashout_round F ctx c s = Some s'"
  shows "due_count (snd s') < due_count (snd s) \<and> payable F (snd s')"
proof -
  from assms obtain ctx' cl where "cashout_comment_helper F ctx' (cmt_id c) (snd s) = Some (cl, snd s')"
    by (cases s) (auto simp: cashout_round_def payable_def cashout_from_fund_def bind_Some_iff Let_def)
  then show ?thesis using assms(1-3) by (rule helper_progress)
qed

text \<open>The rounds do not run out: a run without a result has reached a state in which paying the first due comment throws.\<close>

lemma loop_throws:
  "cashout_loop F ctx n s = None \<Longrightarrow> payable F (snd s) \<Longrightarrow> due_count (snd s) < int n \<Longrightarrow>
   \<exists>s' c. cashout_rounds F ctx s s' \<and> idx_begin cashout_order (db_comments (snd s')) = Some c \<and> due (snd s') c
     \<and> cashout_round F ctx c s' = None"
proof (induction n arbitrary: s)
  case 0
  then show ?case using due_count_nonneg[of "snd s"] by simp
next
  case (Suc n)
  from Suc.prems(1) obtain c where c: "idx_begin cashout_order (db_comments (snd s)) = Some c" "due (snd s) c"
    by (auto simp: cashout_loop_Suc split: option.splits if_splits)
  show ?case
  proof (cases "cashout_round F ctx c s")
    case None
    then show ?thesis using c cashout_rounds.stop by blast
  next
    case (Some s1)
    have l: "cashout_loop F ctx n s1 = None" using Suc.prems(1) c Some by (simp add: cashout_loop_Suc)
    have "payable F (snd s1)" "due_count (snd s1) < int n"
      using round_progress[OF Suc.prems(2) _ c(2) Some] idx_begin_Some[OF c(1)] Suc.prems(3) by auto
    from Suc.IH[OF l this] show ?thesis using cashout_rounds.round[OF c Some] by blast
  qed
qed

end

section \<open>Where the payouts come from\<close>

lemma tsum_update: "i < length xs \<Longrightarrow> sum_list (xs[i := v]) = sum_list xs - xs ! i + (v :: int)"
  by (induction xs arbitrary: i) (auto split: nat.splits)

text \<open>Two more facts of the library: a \<open>uint64_t\<close> is one, and a negative \<open>int64_t\<close> becomes a 128-bit number
  with the sign extended.\<close>

locale fc_chain = fc_safe F + fc_u128 F for F :: fc_lib +
  assumes wide_to_uint64_range: "0 \<le> wide_to_uint64 F a \<and> wide_to_uint64 F a < 2 ^ 64"
    and u128_of_neg_law: "- (2 ^ 63) \<le> v \<Longrightarrow> v < 0 \<Longrightarrow> u128_of F v = 2 ^ 128 + v"
begin

lemma get_SCORE_reward_range: "get_SCORE_reward F ctx = Some r \<Longrightarrow> int64 (int64_of_uint64 r)"
  by (rule int64_of_uint64_range)
    (use wide_to_uint64_range in \<open>auto simp: get_SCORE_reward_def bind_Some_iff Let_def min_def split: if_splits\<close>)

lemma pay_reward_nonneg:
  assumes "pay_reward F c reward d = Some (claimed, d')" "int64 reward" "\<not> has_hardfork 17 d"
  shows "0 \<le> claimed"
proof (cases "u128_of F reward > 0")
  case False
  then show ?thesis using assms(1) by (simp add: pay_reward_def Let_def)
next
  case True
  from assms(1) True obtain p q k r a0 u m d1 a1 where
    p: "get_curationRewards_percent d = Some p" and
    q: "u128_div F (u128_mul F (u128_of F reward) (u128_of F p)) (u128_of F PERCENT_100) = Some q" and
    k: "u128_to_uint64 F q = Some k" and r: "u128_to_uint64 F (u128_of F reward) = Some r" and
    a0: "safe_sub F (int64_of_uint64 r) (int64_of_uint64 k) = Some a0" and
    cu: "pay_curators F c (int64_of_uint64 k) d = Some (u, m, d1)" and
    a: "safe_add F a0 u = Some a1" "safe_add F a1 m = Some claimed"
    unfolding pay_reward_def Let_def
    by (simp only: if_True bind_Some_iff split_paired_Ex prod.case option.inject)
      (elim exE conjE Pair_inject, hypsubst, rule that, assumption+)
  have pos: "0 \<le> reward"
  proof (rule ccontr)
    assume "\<not> 0 \<le> reward"
    then have "u128_of F reward = 2 ^ 128 + reward" using u128_of_neg_law assms(2) by (simp add: int64_def)
    then show False using r u128_to_uint64_law[of "2 ^ 128 + reward"] \<open>\<not> 0 \<le> reward\<close> assms(2)
      by (simp add: in_u128_def int64_def)
  qed
  have b: "reward < 2 ^ 63" using assms(2) by (simp add: int64_def)
  have pp: "0 \<le> p" "p \<le> 5000" using p assms(3) by (auto simp: get_curationRewards_percent_def PERCENT_100_def split: if_splits)
  have rw: "u128_of F reward = reward" "u128_of F p = p" "u128_of F PERCENT_100 = 10000"
    using pos b pp by (simp_all add: u128_of_law PERCENT_100_def)
  have "reward * p \<le> reward * 5000" using pos pp by (intro mult_left_mono)
  then have le: "0 \<le> reward * p" "reward * p \<le> reward * 5000" using pos pp by simp_all
  then have "u128_mul F reward p = reward * p" using pos b pp by (intro u128_mul_law) (simp_all add: in_u128_def)
  then have q': "q = reward * p div 10000" using q rw le b u128_div_law[of "reward * p" 10000] by (simp add: in_u128_def)
  have qb: "0 \<le> q" "q \<le> reward" using q' le pos by (auto simp: pos_imp_zdiv_nonneg_iff)
  have "k = q" "r = reward" using k r rw qb b u128_to_uint64_law[of q] u128_to_uint64_law[of reward] pos by (simp_all add: in_u128_def)
  then have "a0 = reward - q" using a0 qb b by (auto dest!: safe_sub_SomeD)
  with a pay_curators_moves[OF cu] \<open>k = q\<close> qb b show ?thesis by (auto dest!: safe_add_SomeD)
qed

lemma helper_nonneg:
  assumes "cashout_comment_helper F ctx i d = Some (claimed, d')" "\<not> has_hardfork 17 d"
  shows "0 \<le> claimed"
  using assms get_SCORE_reward_range pay_reward_nonneg
  by (auto simp: cashout_comment_helper_def bind_Some_iff split: if_splits)

lemma discussion_moves:
  "cashout_discussion F ctx is d = Some d' \<Longrightarrow> \<not> has_hardfork 17 d \<Longrightarrow> moves d d' 0 0 0 0 \<and> (ledger_ok d \<longrightarrow> ledger_ok d')"
proof (induction "is" arbitrary: d)
  case Nil
  then show ?case by (simp add: moves_refl)
next
  case (Cons i "is")
  from Cons.prems(1) obtain ctx' r d1 d2 where
    h: "cashout_comment_helper F ctx' i d = Some (r, d1)" and
    g: "(if r > 0 then modify_gpo (\<lambda>p. do {
              v \<leftarrow> safe_sub F (amount (gpo_total_reward_fund_TME p)) r;
              Some (p\<lparr>gpo_total_reward_fund_TME := (gpo_total_reward_fund_TME p)\<lparr>amount := v\<rparr>\<rparr>) }) d1
           else Some d1) = Some d2" and
    l: "cashout_discussion F ctx is d2 = Some d'"
    unfolding cashout_discussion.simps
    by (simp only: bind_Some_iff split_paired_Ex prod.case) (elim exE conjE, rule that, assumption+)
  have "0 \<le> r" by (rule helper_nonneg[OF h Cons.prems(2)])
  then have "moves d1 d2 (- r) 0 0 0 \<and> (ledger_ok d1 \<longrightarrow> ledger_ok d2)"
    using g by (auto simp: bind_Some_iff moves_def gap_defs dest!: modify_gpo_moves safe_sub_SomeD split: if_splits)
  moreover have "db_processed_hardforks d2 = db_processed_hardforks d1"
    using g by (auto simp: modify_gpo_def bind_Some_iff split: if_splits)
  then have "\<not> has_hardfork 17 d2" using same_hardfork[OF helper_clock[OF h], of 17] Cons.prems(2) by (simp add: has_hardfork_def)
  ultimately show ?case using helper_moves[OF h] Cons.IH[OF l] by (auto simp: moves_def)
qed

lemma from_fund_moves:
  assumes "cashout_from_fund F ctx i s = Some s'"
  shows "moves (snd s) (snd s') (tsum rfc_TME_awarded (fst s') - tsum rfc_TME_awarded (fst s)) 0 0 0
     \<and> (ledger_ok (snd s) \<longrightarrow> ledger_ok (snd s'))"
proof -
  from assms obtain ctx' cl t j where j: "j < length (fst s)" and
    h: "cashout_comment_helper F ctx' i (snd s) = Some (cl, snd s')" and
    t: "safe_add F (rfc_TME_awarded (fst s ! j)) cl = Some t" and s': "fst s' = (fst s)[j := (fst s ! j)\<lparr>rfc_TME_awarded := t\<rparr>]"
    by (cases s) (auto simp: cashout_from_fund_def bind_Some_iff Let_def FC_ASSERT_def split: if_splits)
  have "tsum rfc_TME_awarded (fst s') = tsum rfc_TME_awarded (fst s) + cl"
    using s' j safe_add_SomeD[OF t] by (simp add: map_update tsum_update)
  with helper_moves[OF h] show ?thesis by simp
qed

lemma round_moves:
  assumes "cashout_round F ctx c s = Some s'"
  shows "moves (snd s) (snd s') (tsum rfc_TME_awarded (fst s') - tsum rfc_TME_awarded (fst s)) 0 0 0
     \<and> (ledger_ok (snd s) \<longrightarrow> ledger_ok (snd s'))"
proof (cases "has_hardfork 17 (snd s)")
  case True
  then show ?thesis using assms from_fund_moves by (simp add: cashout_round_def)
next
  case False
  then show ?thesis using assms discussion_moves[OF _ False] by (auto simp: cashout_round_def bind_Some_iff)
qed

lemma loop_moves:
  "cashout_loop F ctx n s = Some s' \<Longrightarrow>
   moves (snd s) (snd s') (tsum rfc_TME_awarded (fst s') - tsum rfc_TME_awarded (fst s)) 0 0 0
     \<and> (ledger_ok (snd s) \<longrightarrow> ledger_ok (snd s'))"
proof (induction n arbitrary: s)
  case (Suc n)
  from Suc.prems show ?case
  proof (cases rule: cashout_loop_cases)
    case (round m c s1)
    with Suc.IH[of s1] round_moves[OF round(4)] show ?thesis by (auto simp: moves_def)
  qed (simp add: moves_refl)
qed simp

lemma write_funds_moves:
  "write_funds F i xs d = Some d' \<Longrightarrow> moves d d' (- tsum rfc_TME_awarded xs) 0 0 0 \<and> (ledger_ok d \<longrightarrow> ledger_ok d')"
proof (induction xs arbitrary: i d)
  case Nil
  then show ?case by (simp add: moves_refl)
next
  case (Cons x xs)
  from Cons.prems obtain rs where
    rs: "tbl_modify (\<lambda>r. rf_id r = i) (\<lambda>rfo. do {
            b \<leftarrow> asset_sub F (rf_reward_balance rfo) (mk_asset (rfc_TME_awarded x) SYMBOL_COIN);
            Some (rfo\<lparr>rf_recent_claims := rfc_recent_claims x, rf_reward_balance := b\<rparr>) }) (db_reward_funds d) = Some rs" and
    w: "write_funds F (Suc i) xs (d\<lparr>db_reward_funds := rs\<rparr>) = Some d'"
    by (auto simp: bind_Some_iff)
  have "moves d (d\<lparr>db_reward_funds := rs\<rparr>) (- rfc_TME_awarded x) 0 0 0"
    by (rule funds_moves) (use tsum_modify[OF rs, of "\<lambda>r. amount (rf_reward_balance r)"] in \<open>auto simp: bind_Some_iff dest!: asset_sub_SomeD\<close>)
  with Cons.IH[OF w] show ?case by (auto simp: moves_def)
qed

lemma decay_funds_sum:
  "decay_funds F d rs = Some (rs', cs) \<Longrightarrow>
   tsum (\<lambda>r. amount (rf_reward_balance r)) rs' = tsum (\<lambda>r. amount (rf_reward_balance r)) rs \<and> tsum rfc_TME_awarded cs = 0"
  by (induction rs arbitrary: rs' cs) (auto simp: bind_Some_iff Let_def)

lemma collect_claims_sum:
  "collect_claims F d cs fs = Some fs' \<Longrightarrow> tsum rfc_TME_awarded fs' = tsum rfc_TME_awarded fs"
  by (induction cs arbitrary: fs)
    (force simp: bind_Some_iff Let_def FC_ASSERT_def map_update tsum_update split: if_splits)+

lemma process_comment_cashout_keeps:
  assumes "ledger_ok d" "process_comment_cashout F d = Some d'"
  shows "keeps d d'"
proof (cases "has_hardfork 7 d")
  case False
  then show ?thesis using assms by (simp add: process_comment_cashout_def keeps_def)
next
  case True
  with assms(2) obtain rs fs0 fs1 fs2 ctx n d2 where
    rs: "decay_funds F d (db_reward_funds d) = Some (rs, fs0)" and
    fs1: "(if has_hardfork 17 (d\<lparr>db_reward_funds := rs\<rparr>)
           then collect_claims F (d\<lparr>db_reward_funds := rs\<rparr>)
             (takeWhile (\<lambda>c. cmt_cashout_time c \<le> head_block_time (d\<lparr>db_reward_funds := rs\<rparr>))
                        (idx_sorted cashout_order (db_comments (d\<lparr>db_reward_funds := rs\<rparr>)))) fs0
           else Some fs0) = Some fs1" and
    l: "cashout_loop F ctx n (fs1, d\<lparr>db_reward_funds := rs\<rparr>) = Some (fs2, d2)" and
    w: "write_funds F 0 fs2 d2 = Some d'"
    unfolding process_comment_cashout_def Let_def
    by (simp only: not_True_eq_False if_False bind_Some_iff split_paired_Ex prod.case) (elim exE conjE, rule that, assumption+)
  have "tsum rfc_TME_awarded fs1 = 0" using fs1 decay_funds_sum[OF rs] collect_claims_sum by (auto split: if_splits)
  moreover have "moves d (d\<lparr>db_reward_funds := rs\<rparr>) 0 0 0 0" using decay_funds_sum[OF rs] by (intro funds_moves) simp
  ultimately show ?thesis
    using loop_moves[OF l] write_funds_moves[OF w] assms(1) by (intro keeps_moves) (auto simp: moves_def)
qed

end

lemma mod_neg: "- (2 ^ 63) \<le> v \<Longrightarrow> v < 0 \<Longrightarrow> (v :: int) mod 2 ^ 128 = 2 ^ 128 + v"
  using mod_pos_pos_trivial[of "2 ^ 128 + v" "2 ^ 128"] by (simp del: mod_pos_pos_trivial)

interpretation fc_chain_exact: fc_chain fc_exact
  by unfold_locales (simp_all only: fc_exact_sel mod_neg, simp)

section \<open>Nothing due is left\<close>

text \<open>
  C38.  The payout of a block is complete and ends: from hardfork 17 on, when \<open>process_comment_cashout\<close> succeeds no comment
  is due any more; and the rounds its loop is given, one more than there are comments, never run out: when the loop has
  no result, it has reached a state in which the payout of the first due comment throws.
\<close>

theorem comment_cashout_done:
  assumes "fc_safe F" "has_hardfork 17 d" "distinct (map cmt_id (db_comments d))" "head_block_time d < secs_max F"
  shows "(\<forall>d'. process_comment_cashout F d = Some d' \<longrightarrow> (\<forall>c \<in> set (db_comments d'). head_block_time d' < cmt_cashout_time c))
    \<and> (\<forall>ctx fs. cashout_loop F ctx (Suc (length (db_comments d))) (fs, d) = None \<longrightarrow>
         (\<exists>s c. cashout_rounds F ctx (fs, d) s \<and> idx_begin cashout_order (db_comments (snd s)) = Some c \<and> due (snd s) c
            \<and> cashout_round F ctx c s = None))"
proof (intro conjI allI impI)
  fix d' assume "process_comment_cashout F d = Some d'"
  then show "\<forall>c \<in> set (db_comments d'). head_block_time d' < cmt_cashout_time c"
    using cashout_none_due[of F d d'] assms(2) by (simp add: due_def has_hardfork_def not_le)
next
  fix ctx fs assume n: "cashout_loop F ctx (Suc (length (db_comments d))) (fs, d) = None"
  show "\<exists>s c. cashout_rounds F ctx (fs, d) s \<and> idx_begin cashout_order (db_comments (snd s)) = Some c \<and> due (snd s) c
      \<and> cashout_round F ctx c s = None"
    by (rule fc_safe.loop_throws[OF assms(1) n]) (use assms(2-4) due_count_le[of d] in \<open>simp_all add: payable_def\<close>)
qed

definition example_fund :: reward_fund_object where
  "example_fund = \<lparr>rf_id = 0, rf_name = POST_REWARD_FUND_NAME, rf_reward_balance = TME 0, rf_recent_claims = 400, rf_last_update = 1000,
     rf_content_constant = 0, rf_percent_curationRewards = 2500, rf_percent_content_rewards = 10000,
     rf_authorReward_curve = linear, rf_curationReward_curve = linear\<rparr>"

definition example_snapshot :: "reward_fund_context list" where
  "example_snapshot = [\<lparr>rfc_recent_claims = 400, rfc_reward_balance = TME 0, rfc_TME_awarded = 0\<rparr>]"

definition example_due :: chain_db where
  "example_due = example_db\<lparr>db_comments := [example_post\<lparr>cmt_cashout_time := 500\<rparr>, example_reply], db_reward_funds := [example_fund]\<rparr>"

definition example_settled :: chain_db where
  "example_settled = example_due\<lparr>db_comments := [paid_out fc_exact example_due (example_post\<lparr>cmt_cashout_time := 500\<rparr>), example_reply]\<rparr>"

lemmas example_due_defs = example_due_def example_settled_def example_post_def example_reply_def new_comment_object_def example_fund_def
  example_snapshot_def example_defs

lemma example_helper: "cashout_comment_helper fc_exact ctx 10 example_due = Some (0, example_settled)"
  by (simp add: cashout_comment_helper_def get_comment_id_def example_due_defs modify_comment_def close_votes_def idx_sorted_def paid_out_def)

lemma example_first:
  "idx_begin cashout_order (db_comments example_due) = Some (example_post\<lparr>cmt_cashout_time := 500\<rparr>)"
  "idx_begin cashout_order (db_comments example_settled) = Some example_reply"
  by (simp_all add: idx_begin_def idx_sorted_def cashout_order_def example_due_defs paid_out_def has_hardfork_def Let_def)

lemma example_loop:
  "cashout_loop fc_exact ctx (Suc (length (db_comments example_due))) (example_snapshot, example_due) = Some (example_snapshot, example_settled)"
proof -
  have "cashout_round fc_exact ctx (example_post\<lparr>cmt_cashout_time := 500\<rparr>) (example_snapshot, example_due) = Some (example_snapshot, example_settled)"
    using example_helper by (simp add: cashout_round_def cashout_from_fund_def has_hardfork_def get_reward_fund_def)
      (simp add: example_due_defs int64_def)
  moreover have "due example_due (example_post\<lparr>cmt_cashout_time := 500\<rparr>)" "\<not> due example_settled example_reply"
    by (simp_all add: due_def head_block_time_def example_due_defs)
  moreover have "length (db_comments example_due) = Suc (Suc 0)" by (simp add: example_due_defs)
  ultimately show ?thesis by (simp add: cashout_loop_Suc example_first)
qed

lemma example_cashout: "process_comment_cashout fc_exact example_due = Some example_settled"
proof -
  have "decay_funds fc_exact example_due (db_reward_funds example_due) = Some ([example_fund], example_snapshot)"
    by (simp add: example_due_defs Let_def has_hardfork_def RECENT_RSCORE_DECAY_RATE_HF19_def head_block_time_def)
  moreover have "example_due\<lparr>db_reward_funds := [example_fund]\<rparr> = example_due" by (simp add: example_due_def)
  moreover have "collect_claims fc_exact example_due (takeWhile (\<lambda>c. cmt_cashout_time c \<le> head_block_time example_due)
       (idx_sorted cashout_order (db_comments example_due))) example_snapshot = Some example_snapshot"
    by (simp add: idx_sorted_def cashout_order_def example_due_defs head_block_time_def)
  moreover have "write_funds fc_exact 0 example_snapshot example_settled = Some example_settled"
    by (simp add: example_due_defs asset_sub_def int64_def)
  moreover have "has_hardfork 7 example_due" "has_hardfork 17 example_due" by (simp_all add: has_hardfork_def example_due_defs)
  ultimately show ?thesis by (simp add: process_comment_cashout_def Let_def example_loop)
qed

text \<open>Without a reward fund the payout of the due comment throws.\<close>

definition example_unfunded :: chain_db where
  "example_unfunded = example_due\<lparr>db_reward_funds := []\<rparr>"

lemma example_throws: "cashout_loop fc_exact ctx (Suc (length (db_comments example_unfunded))) (fs, example_unfunded) = None"
proof -
  have "db_comments example_unfunded = db_comments example_due" by (simp add: example_unfunded_def)
  moreover have "due example_unfunded (example_post\<lparr>cmt_cashout_time := 500\<rparr>)"
    by (simp add: due_def head_block_time_def example_unfunded_def example_due_defs)
  moreover have "cashout_round fc_exact ctx c (fs, example_unfunded) = None" for c
    by (simp add: cashout_round_def cashout_from_fund_def has_hardfork_def get_reward_fund_def example_unfunded_def example_due_defs)
  ultimately show ?thesis by (simp add: cashout_loop_Suc example_first)
qed

theorem comment_cashout_done_witness:
  "process_comment_cashout fc_exact example_due = Some example_settled \<and> list_all (\<lambda>c. 1000 < cmt_cashout_time c) (db_comments example_settled)
   \<and> cashout_loop fc_exact (initial_context example_due) 3 ([], example_unfunded) = None
   \<and> (\<exists>s c. cashout_rounds fc_exact (initial_context example_due) ([], example_unfunded) s
        \<and> cashout_round fc_exact (initial_context example_due) c s = None)"
proof -
  have h: "has_hardfork 17 example_due" "distinct (map cmt_id (db_comments example_due))" "head_block_time example_due < secs_max fc_exact"
    "head_block_time example_settled = 1000" "Suc (length (db_comments example_unfunded)) = 3"
    "has_hardfork 17 example_unfunded" "distinct (map cmt_id (db_comments example_unfunded))" "head_block_time example_unfunded < secs_max fc_exact"
    by (simp_all add: has_hardfork_def example_unfunded_def example_due_defs head_block_time_def)
  have "\<forall>c \<in> set (db_comments example_settled). 1000 < cmt_cashout_time c"
    using comment_cashout_done[OF fc_exact.fc_safe_axioms h(1-3), THEN conjunct1, rule_format, OF example_cashout] unfolding h(4) by blast
  moreover have "\<exists>s c. cashout_rounds fc_exact (initial_context example_due) ([], example_unfunded) s
        \<and> cashout_round fc_exact (initial_context example_due) c s = None"
    using comment_cashout_done[OF fc_exact.fc_safe_axioms h(6-8), THEN conjunct2, rule_format, OF example_throws] by blast
  ultimately show ?thesis using example_cashout example_throws[of "initial_context example_due" "[]"] unfolding h(5) by (simp only: list_all_iff)
qed

end
