(* ===== verification/Schedule.thy ===== *)
theory Schedule
  imports Cashout
begin

text \<open>
  Who produces blocks (\<open>libraries/chain/witness_schedule.cpp\<close>) and the price of the round
  (\<open>libraries/chain/database.cpp\<close>, \<open>update_median_feed\<close>).  Every \<open>MAX_WITNESSES\<close> blocks the witnesses with the most
  votes, the first of the mining queue and the ones that are first in virtual time are scheduled and shuffled.

  An iteration over an index that does not change the key of that index visits the rows as they were when it started.
  Miners with equal \<open>pow_worker\<close> come in the order of their ids, and the median of equal values is the first of them.
\<close>

unbundle bit_operations_syntax

section \<open>Median parameters\<close>

text \<open>\<open>hardfork_property_object\<close>, less the processed hardforks, which \<open>chain_db\<close> counts.\<close>

record hardfork_property_object =
  hfp_current_hardfork_version :: nat
  hfp_next_hardfork :: nat
  hfp_next_hardfork_time :: time

definition modify_wso :: "(witness_schedule_object \<Rightarrow> witness_schedule_object) \<Rightarrow> chain_db \<Rightarrow> chain_db" where
  "modify_wso f d = d\<lparr>db_wso := f (db_wso d)\<rparr>"

definition lap_time :: "fc_lib \<Rightarrow> int \<Rightarrow> witness_object \<Rightarrow> int option" where
  "lap_time F lap w = u128_div F lap (u128_of F (wrap64 (wit_votes w + 1)))"

fun reset_witnesses :: "fc_lib \<Rightarrow> nat list \<Rightarrow> chain_db \<Rightarrow> chain_db option" where
  "reset_witnesses F [] d = Some d"
| "reset_witnesses F (i # is) d = do {
     d1 \<leftarrow> modify_witness_id i (\<lambda>w. do {
        t \<leftarrow> lap_time F (VIRTUAL_SCHEDULE_LAP_LENGTH2 F) w;
        Some (w\<lparr>wit_virtual_position := 0, wit_virtual_last_update := wso_current_virtual_time (db_wso d),
               wit_virtual_scheduled_time := t\<rparr>) }) d;
     reset_witnesses F is d1 }"

definition reset_virtual_schedule_time :: "fc_lib \<Rightarrow> chain_db \<Rightarrow> chain_db option" where
  "reset_virtual_schedule_time F d =
     (let d1 = modify_wso (\<lambda>o'. o'\<lparr>wso_current_virtual_time := 0\<rparr>) d in
      reset_witnesses F (map wit_id (idx_sorted wit_id (db_witnesses d1))) d1)"

text \<open>The names of the round, as far as the array goes.\<close>

definition round_names :: "chain_db \<Rightarrow> account_name_type list" where
  "round_names d = take (wso_num_scheduled_witnesses (db_wso d)) (wso_current_shuffled_witnesses (db_wso d))"

definition median_of :: "('a \<Rightarrow> 'b :: linorder) \<Rightarrow> 'a list \<Rightarrow> 'a option" where
  "median_of key xs = (if xs = [] then None else Some (sort_key key xs ! (length xs div 2)))"

definition update_median_witness_props :: "chain_db \<Rightarrow> chain_db option" where
  "update_median_witness_props d = do {
     active \<leftarrow> scheduled_witnesses (round_names d) d;
     fee \<leftarrow> median_of (\<lambda>w. amount (cp_account_creation_fee (wit_props w))) active;
     size \<leftarrow> median_of (\<lambda>w. cp_maximum_block_size (wit_props w)) active;
     rate \<leftarrow> median_of (\<lambda>w. cp_TSD_interest_rate (wit_props w)) active;
     let d1 = modify_wso (\<lambda>o'. o'\<lparr>wso_median_props := \<lparr>cp_account_creation_fee = cp_account_creation_fee (wit_props fee),
                 cp_maximum_block_size = cp_maximum_block_size (wit_props size),
                 cp_TSD_interest_rate = cp_TSD_interest_rate (wit_props rate)\<rparr>\<rparr>) d;
     modify_gpo (\<lambda>g. Some (g\<lparr>gpo_maximum_block_size := cp_maximum_block_size (wit_props size),
                             gpo_TSD_interest_rate := cp_TSD_interest_rate (wit_props rate)\<rparr>)) d1 }"

section \<open>Selecting witnesses\<close>

definition by_vote_name :: "witness_object \<Rightarrow> int \<times> account_name_type" where
  "by_vote_name w = (- wit_votes w, wit_owner w)"

definition by_schedule_time :: "witness_object \<Rightarrow> int \<times> nat" where
  "by_schedule_time w = (wit_virtual_scheduled_time w, wit_id w)"

definition set_schedule :: "witness_schedule_type \<Rightarrow> nat \<Rightarrow> chain_db \<Rightarrow> chain_db option" where
  "set_schedule t i d = modify_witness_id i (\<lambda>w. Some (w\<lparr>wit_schedule := t\<rparr>)) d"

definition keyless :: "chain_db \<Rightarrow> witness_object \<Rightarrow> bool" where
  "keyless d w \<longleftrightarrow> has_hardfork 14 d \<and> wit_signing_key w = 0"

fun elect_voted :: "nat \<Rightarrow> witness_object list \<Rightarrow> witness_object list \<Rightarrow> chain_db \<Rightarrow> (witness_object list \<times> chain_db) option" where
  "elect_voted m [] sel d = Some (sel, d)"
| "elect_voted m (itr # ws) sel d =
     (if length sel < m then
        if keyless d itr then elect_voted m ws sel d
        else do { d1 \<leftarrow> set_schedule top19 (wit_id itr) d; elect_voted m ws (sel @ [itr]) d1 }
      else Some (sel, d))"

definition pow_queue :: "chain_db \<Rightarrow> witness_object list" where
  "pow_queue d = filter (\<lambda>w. wit_pow_worker w > 0) (idx_sorted wit_pow_worker (db_witnesses d))"

definition leave_pow_queue :: "nat \<Rightarrow> chain_db \<Rightarrow> chain_db option" where
  "leave_pow_queue i d = do {
     d1 \<leftarrow> modify_witness_id i (\<lambda>w. Some (w\<lparr>wit_pow_worker := 0\<rparr>)) d;
     modify_gpo (\<lambda>g. Some (g\<lparr>gpo_num_pow_witnesses := (gpo_num_pow_witnesses g - 1) mod 2 ^ 32\<rparr>)) d1 }"

fun elect_miners ::
  "nat \<Rightarrow> nat list \<Rightarrow> witness_object list \<Rightarrow> witness_object list \<Rightarrow> chain_db \<Rightarrow> (witness_object list \<times> chain_db) option" where
  "elect_miners m taken [] sel d = Some (sel, d)"
| "elect_miners m taken (mitr # ws) sel d =
     (if length sel < m then do {
        chosen \<leftarrow> (if wit_id mitr \<in> set taken then Some False
                 else if has_hardfork 14 d then do { w \<leftarrow> get_witness (wit_owner mitr) d; Some (wit_signing_key w \<noteq> 0) }
                 else Some True);
        d1 \<leftarrow> (if chosen then set_schedule miner (wit_id mitr) d else Some d);
        d2 \<leftarrow> leave_pow_queue (wit_id mitr) d1;
        elect_miners m taken ws (if chosen then sel @ [mitr] else sel) d2 }
      else Some (sel, d))"

text \<open>The result holds the runners, the witnesses that were looked at and the new virtual time.\<close>

fun elect_runners ::
  "nat list \<Rightarrow> nat \<Rightarrow> witness_object list \<Rightarrow> witness_object list \<Rightarrow> witness_object list \<Rightarrow> int \<Rightarrow> chain_db \<Rightarrow>
   (witness_object list \<times> witness_object list \<times> int \<times> chain_db) option" where
  "elect_runners taken witness_count [] sel processed t d = Some (sel, processed, t, d)"
| "elect_runners taken witness_count (sitr # ws) sel processed t d =
     (if witness_count < MAX_WITNESSES then
        if keyless d sitr \<or> wit_id sitr \<in> set taken
        then elect_runners taken witness_count ws sel (processed @ [sitr]) (wit_virtual_scheduled_time sitr) d
        else do {
          d1 \<leftarrow> set_schedule timeshare (wit_id sitr) d;
          elect_runners taken (witness_count + 1) ws (sel @ [sitr]) (processed @ [sitr]) (wit_virtual_scheduled_time sitr) d1 }
      else Some (sel, processed, t, d))"

text \<open>The flag of the result says that the virtual time has overflowed.\<close>

fun advance_runners :: "fc_lib \<Rightarrow> int \<Rightarrow> witness_object list \<Rightarrow> chain_db \<Rightarrow> (bool \<times> chain_db) option" where
  "advance_runners F t [] d = Some (False, d)"
| "advance_runners F t (itr # ws) d = do {
     q \<leftarrow> lap_time F (VIRTUAL_SCHEDULE_LAP_LENGTH2 F) itr;
     let new_virtual_scheduled_time = u128_add F t q;
     if new_virtual_scheduled_time < t then Some (True, d)
     else do {
       d1 \<leftarrow> modify_witness_id (wit_id itr) (\<lambda>w. Some (w\<lparr>wit_virtual_position := 0, wit_virtual_last_update := t,
              wit_virtual_scheduled_time := new_virtual_scheduled_time\<rparr>)) d;
       advance_runners F t ws d1 } }"

section \<open>Versions and hardfork votes\<close>

definition votes_on :: "'a list \<Rightarrow> 'a \<Rightarrow> nat" where
  "votes_on xs x = length (filter (\<lambda>y. y = x) xs)"

fun majority_version_loop :: "nat list \<Rightarrow> nat \<Rightarrow> nat \<Rightarrow> nat list \<Rightarrow> nat \<Rightarrow> nat" where
  "majority_version_loop votes needed majority [] on_version = majority"
| "majority_version_loop votes needed majority (v # vs) on_version =
     (let on_version = on_version + votes_on votes v in
      if on_version \<ge> needed then v else majority_version_loop votes needed majority vs on_version)"

text \<open>Assigning to a \<open>hardfork_version\<close> drops the release number, the lower half of \<open>v_num\<close>.\<close>

definition hardfork_version_of :: "nat \<Rightarrow> nat" where
  "hardfork_version_of v = v div 2 ^ 16 * 2 ^ 16"

definition count_versions ::
  "witness_object list \<Rightarrow> witness_schedule_object \<Rightarrow> hardfork_property_object \<Rightarrow> nat \<times> hardfork_property_object" where
  "count_versions ws wso hfp =
     (let versions = map wit_running_version ws;
          hardforks = map (\<lambda>w. (wit_hardfork_version_vote w, wit_hardfork_time_vote w)) ws;
          needed = wso_hardfork_required_witnesses wso;
          majority = majority_version_loop versions needed (wso_majority_version wso) (rev (sort (remdups versions))) 0
      in (majority,
          case List.find (\<lambda>v. votes_on hardforks v \<ge> needed) (sort (remdups hardforks)) of
            Some (v, t) \<Rightarrow> hfp\<lparr>hfp_next_hardfork := hardfork_version_of v, hfp_next_hardfork_time := t\<rparr>
          | None \<Rightarrow> hfp\<lparr>hfp_next_hardfork := hardfork_version_of (hfp_current_hardfork_version hfp)\<rparr>))"

section \<open>The shuffle\<close>

definition xorshift :: "time \<Rightarrow> nat \<Rightarrow> 64 word" where
  "xorshift now i =
     (let k = push_bit 32 (word_of_int now) + word_of_nat i * 2685821657736338717;
          k = k XOR drop_bit 12 k;
          k = k XOR push_bit 25 k;
          k = k XOR drop_bit 27 k
      in k * 2685821657736338717)"

definition swap :: "nat \<Rightarrow> nat \<Rightarrow> 'a list \<Rightarrow> 'a list" where
  "swap i j xs = xs[i := xs ! j, j := xs ! i]"

fun shuffle_from :: "time \<Rightarrow> nat \<Rightarrow> nat \<Rightarrow> 'a list \<Rightarrow> 'a list" where
  "shuffle_from now n 0 xs = xs"
| "shuffle_from now n (Suc m) xs =
     (let i = n - Suc m; j = i + unat (xorshift now i mod word_of_nat (Suc m))
      in shuffle_from now n m (swap i j xs))"

definition shuffle :: "time \<Rightarrow> nat \<Rightarrow> 'a list \<Rightarrow> 'a list" where
  "shuffle now n xs = shuffle_from now n n xs"

text \<open>The array of the schedule: the active witnesses first, empty names after them.\<close>

definition schedule_array :: "account_name_type list \<Rightarrow> account_name_type list" where
  "schedule_array active = active @ replicate (MAX_WITNESSES - length active) []"

definition num_scheduled :: "account_name_type list \<Rightarrow> nat" where
  "num_scheduled active = max (length active mod 2 ^ 8) 1"

section \<open>A round\<close>

definition update_witness_schedule4 ::
  "fc_lib \<Rightarrow> hardfork_property_object \<times> chain_db \<Rightarrow> (hardfork_property_object \<times> chain_db) option" where
  "update_witness_schedule4 F s = do {
     let (hfp, d) = s;
     let wso = db_wso d;
     (top, d1) \<leftarrow> elect_voted (wso_max_voted_witnesses wso) (idx_sorted by_vote_name (db_witnesses d)) [] d;
     (miners, d2) \<leftarrow> elect_miners (wso_max_miner_witnesses wso) (map wit_id top) (pow_queue d1) [] d1;
     (runners, processed, t, d3) \<leftarrow> elect_runners (map wit_id top @ map wit_id miners) (length top + length miners)
        (idx_sorted by_schedule_time (db_witnesses d2)) [] [] (wso_current_virtual_time (db_wso d2)) d2;
     let active_witnesses = map wit_owner (top @ miners @ runners);
     (overflow, d4) \<leftarrow> advance_runners F t processed d3;
     (t, d5) \<leftarrow> (if overflow then do { d5 \<leftarrow> reset_virtual_schedule_time F d4; Some (0, d5) } else Some (t, d4));
     FC_ASSERT (length active_witnesses = min MAX_WITNESSES (length (db_witnesses d5)));
     (majority_version, hfp) \<leftarrow>
       (if has_hardfork 5 d5 then do {
          ws \<leftarrow> scheduled_witnesses (round_names d5) d5;
          Some (count_versions ws (db_wso d5) hfp) }
        else Some (wso_majority_version wso, hfp));
     let n = num_scheduled active_witnesses;
     let d6 = modify_wso (\<lambda>o'. o'\<lparr>
        wso_current_shuffled_witnesses := shuffle (head_block_time d5) n (schedule_array active_witnesses),
        wso_num_scheduled_witnesses := n,
        wso_witness_pay_normalization_factor := (wso_top19_weight o' * int (length top) + wso_miner_weight o' * int (length miners)
           + wso_timeshare_weight o' * int (length runners)) mod 2 ^ 32,
        wso_current_virtual_time := t,
        wso_next_shuffle_block_num := (head_block_num d5 + int n) mod 2 ^ 32,
        wso_majority_version := majority_version\<rparr>) d5;
     d7 \<leftarrow> update_median_witness_props d6;
     Some (hfp, d7) }"

text \<open>Before hardfork 4.\<close>

fun elect_first :: "fc_lib \<Rightarrow> witness_object list \<Rightarrow> account_name_type list \<Rightarrow> chain_db \<Rightarrow> (account_name_type list \<times> chain_db) option" where
  "elect_first F [] active d = Some (active, d)"
| "elect_first F (itr # ws) active d =
     (if length active < MAX_WITNESSES - 2 then
        if wit_pow_worker itr \<noteq> 0 then elect_first F ws active d
        else do {
          d1 \<leftarrow> modify_witness_id (wit_id itr) (\<lambda>w. Some (w\<lparr>wit_virtual_scheduled_time := u128_max F\<rparr>)) d;
          elect_first F ws (active @ [wit_owner itr]) d1 }
      else Some (active, d))"

definition elect_virtual :: "fc_lib \<Rightarrow> account_name_type list \<Rightarrow> chain_db \<Rightarrow> (account_name_type list \<times> int \<times> chain_db) option" where
  "elect_virtual F active d =
     (case dropWhile (\<lambda>w. wit_pow_worker w \<noteq> 0) (idx_sorted by_schedule_time (db_witnesses d)) of
        [] \<Rightarrow> Some (active, 0, d)
      | sitr # _ \<Rightarrow> do {
          let t = (if wit_virtual_scheduled_time sitr = u128_max F then 0 else wit_virtual_scheduled_time sitr);
          d1 \<leftarrow> modify_witness_id (wit_id sitr) (\<lambda>w. do {
             q \<leftarrow> lap_time F (if has_hardfork 2 d then VIRTUAL_SCHEDULE_LAP_LENGTH2 F else VIRTUAL_SCHEDULE_LAP_LENGTH F) w;
             Some (w\<lparr>wit_virtual_position := 0, wit_virtual_scheduled_time := u128_add F (wit_virtual_scheduled_time w) q\<rparr>) }) d;
          Some (active @ [wit_owner sitr], t, d1) })"

fun elect_pow :: "chain_db \<Rightarrow> witness_object list \<Rightarrow> account_name_type list \<Rightarrow> account_name_type list" where
  "elect_pow d [] active = active"
| "elect_pow d (itr # ws) active =
     (let active = active @ [wit_owner itr] in
      if head_block_num d > START_MINER_VOTING_BLOCK \<or> length active \<ge> MAX_WITNESSES then active else elect_pow d ws active)"

definition by_votes :: "chain_db \<Rightarrow> bool" where
  "by_votes d \<longleftrightarrow> gpo_num_pow_witnesses (db_gpo d) = 0 \<or> head_block_num d > START_MINER_VOTING_BLOCK"

text \<open>\<open>props\<close> is a reference, so the second test of \<open>num_pow_witnesses\<close> sees the decrement in between.\<close>

definition update_witness_schedule0 :: "fc_lib \<Rightarrow> chain_db \<Rightarrow> chain_db option" where
  "update_witness_schedule0 F d = do {
     (active, t, d1) \<leftarrow>
       (if by_votes d then do {
          (active, d1) \<leftarrow> elect_first F (idx_sorted by_vote_name (db_witnesses d)) [] d;
          elect_virtual F active d1 }
        else Some ([], 0, d));
     d2 \<leftarrow> (if gpo_num_pow_witnesses (db_gpo d1) > int MAX_WITNESSES then
             case pow_queue d1 of [] \<Rightarrow> Some d1 | w # _ \<Rightarrow> leave_pow_queue (wit_id w) d1
           else Some d1);
     let active = elect_pow d2 (pow_queue d2) active;
     let n = num_scheduled active;
     let d3 = modify_wso (\<lambda>o'. o'\<lparr>
        wso_current_shuffled_witnesses := shuffle (head_block_time d2) n (schedule_array active),
        wso_num_scheduled_witnesses := n,
        wso_current_virtual_time := (if by_votes d2 then t else wso_current_virtual_time o'),
        wso_next_shuffle_block_num := (head_block_num d2 + int n) mod 2 ^ 32\<rparr>) d2;
     update_median_witness_props d3 }"

definition update_witness_schedule ::
  "fc_lib \<Rightarrow> hardfork_property_object \<times> chain_db \<Rightarrow> (hardfork_property_object \<times> chain_db) option" where
  "update_witness_schedule F s =
     (if head_block_num (snd s) mod int MAX_WITNESSES = 0 then
        if has_hardfork 4 (snd s) then update_witness_schedule4 F s
        else map_option (\<lambda>d. (fst s, d)) (update_witness_schedule0 F (snd s))
      else Some s)"

section \<open>The price feed\<close>

definition BLOCKS_PER_HOUR :: int where "BLOCKS_PER_HOUR = 60 * 60 div BLOCK_INTERVAL"
definition FEED_INTERVAL_BLOCKS :: int where "FEED_INTERVAL_BLOCKS = BLOCKS_PER_HOUR"
definition FEED_HISTORY_WINDOW_PRE_HF_16 :: nat where "FEED_HISTORY_WINDOW_PRE_HF_16 = 24 * 7"
definition FEED_HISTORY_WINDOW :: nat where "FEED_HISTORY_WINDOW = 12 * 7"
definition MAX_FEED_AGE_SECONDS :: int where "MAX_FEED_AGE_SECONDS = 60 * 60 * 24 * 30"
definition MIN_FEEDS :: nat where "MIN_FEEDS = MAX_WITNESSES div 4"

fun insert_price :: "fc_lib \<Rightarrow> price \<Rightarrow> price list \<Rightarrow> price list" where
  "insert_price F p [] = [p]"
| "insert_price F p (q # qs) = (if price_less F q p then q # insert_price F p qs else p # q # qs)"

definition sort_prices :: "fc_lib \<Rightarrow> price list \<Rightarrow> price list" where
  "sort_prices F ps = foldr (insert_price F) ps []"

definition fresh_feed :: "fc_lib \<Rightarrow> chain_db \<Rightarrow> witness_object \<Rightarrow> bool" where
  "fresh_feed F d wit \<longleftrightarrow>
     (if has_hardfork 19 d then head_block_time d < secs_add F (wit_last_TSD_exchange_update wit) MAX_FEED_AGE_SECONDS
      else wit_last_TSD_exchange_update wit < secs_add F (head_block_time d) MAX_FEED_AGE_SECONDS)
     \<and> \<not> price_is_null F (wit_TSD_exchange_rate wit)"

definition median_price_of :: "fc_lib \<Rightarrow> price list \<Rightarrow> price" where
  "median_price_of F ps = sort_prices F ps ! (length ps div 2)"

definition push_feed :: "fc_lib \<Rightarrow> price \<Rightarrow> chain_db \<Rightarrow> feed_history_object option" where
  "push_feed F p d = do {
     let history = price_history (db_feed d) @ [p];
     let window = (if has_hardfork 16 d then FEED_HISTORY_WINDOW else FEED_HISTORY_WINDOW_PRE_HF_16);
     let history = (if length history > window then tl history else history);
     let median = median_price_of F history;
     median \<leftarrow> (if has_hardfork 14 d then do {
                 x \<leftarrow> safe_mul F 9 (amount (gpo_current_TSD_supply (db_gpo d)));
                 let min_price = mk_price (mk_asset x SYMBOL_USD) (gpo_current_supply (db_gpo d));
                 Some (if price_gt F min_price median then min_price else median) }
               else Some median);
     Some \<lparr>current_median_history = median, price_history = history\<rparr> }"

definition update_median_feed :: "fc_lib \<Rightarrow> chain_db \<Rightarrow> chain_db option" where
  "update_median_feed F d =
     (if head_block_num d mod FEED_INTERVAL_BLOCKS \<noteq> 0 then Some d
      else do {
        ws \<leftarrow> scheduled_witnesses (round_names d) d;
        let feeds = map wit_TSD_exchange_rate (filter (fresh_feed F d) ws);
        if length feeds \<ge> MIN_FEEDS then do {
          fho \<leftarrow> push_feed F (median_price_of F feeds) d;
          Some (d\<lparr>db_feed := fho\<rparr>) }
        else Some d })"

section \<open>The shuffle keeps the witnesses of the round\<close>

lemma shuffle_index:
  assumes "0 < m" "m < 2 ^ 64"
  shows "unat (k mod word_of_nat m :: 64 word) < m"
  using assms by (simp add: unat_mod unat_of_nat take_bit_nat_eq_self)

lemma length_swap [simp]: "length (swap i j xs) = length xs" by (simp add: swap_def)

lemma length_shuffle_from [simp]: "length (shuffle_from now n m xs) = length xs"
  by (induction m arbitrary: xs) (simp_all add: Let_def)

lemma swap_front:
  assumes "i < n" "j < n" "n \<le> length xs"
  shows "mset (take n (swap i j xs)) = mset (take n xs)" "drop n (swap i j xs) = drop n xs"
proof -
  have "take n (swap i j xs) = swap i j (take n xs)"
    using assms by (simp add: swap_def take_update_swap)
  then show "mset (take n (swap i j xs)) = mset (take n xs)" using assms mset_swap[of j "take n xs" i] by (simp add: swap_def)
  show "drop n (swap i j xs) = drop n xs" using assms by (simp add: swap_def)
qed

lemma shuffle_from_front:
  "m \<le> n \<Longrightarrow> n \<le> length xs \<Longrightarrow> n < 2 ^ 64 \<Longrightarrow>
   mset (take n (shuffle_from now n m xs)) = mset (take n xs) \<and> drop n (shuffle_from now n m xs) = drop n xs"
proof (induction m arbitrary: xs)
  case (Suc m)
  let ?i = "n - Suc m"
  let ?j = "?i + unat (xorshift now ?i mod word_of_nat (Suc m))"
  have "?j < n" using shuffle_index[of "Suc m" "xorshift now ?i"] Suc.prems by linarith
  then show ?case
    using Suc.IH[of "swap ?i ?j xs"] Suc.prems swap_front[of ?i n ?j xs] by (simp add: Let_def)
qed simp

lemma shuffle_front:
  "n \<le> length xs \<Longrightarrow> n < 2 ^ 64 \<Longrightarrow> mset (take n (shuffle now n xs)) = mset (take n xs)"
  unfolding shuffle_def using shuffle_from_front[of n n xs now] by simp

section \<open>Who is selected\<close>

text \<open>What the selection does not change of a witness.\<close>

definition staff :: "witness_object \<Rightarrow> nat \<times> account_name_type \<times> public_key_type \<times> int" where
  "staff w = (wit_id w, wit_owner w, wit_signing_key w, wit_votes w)"

definition same_staff :: "chain_db \<Rightarrow> chain_db \<Rightarrow> bool" where
  "same_staff d d' \<longleftrightarrow> map staff (db_witnesses d') = map staff (db_witnesses d) \<and> neutral d d'"

lemma same_staff_refl [simp]: "same_staff d d" by (simp add: same_staff_def)

lemma same_staff_trans: "same_staff a b \<Longrightarrow> same_staff b c \<Longrightarrow> same_staff a c"
  by (auto simp: same_staff_def intro: neutral_trans)

abbreviation staff_res :: "chain_db \<Rightarrow> chain_db option \<Rightarrow> bool" where "staff_res \<equiv> kept same_staff"
abbreviation staff_pair :: "chain_db \<Rightarrow> ('a \<times> chain_db) option \<Rightarrow> bool" where "staff_pair \<equiv> kept (\<lambda>d x. same_staff d (snd x))"

lemma staff_witness:
  assumes "same_staff d d1" "\<And>w w'. f w = Some w' \<Longrightarrow> staff w' = staff w"
  shows "staff_res d (modify_witness_id i f d1)"
proof -
  have "same_staff d1 d'" if m: "modify_witness_id i f d1 = Some d'" for d'
  proof -
    obtain xs where xs: "tbl_modify (\<lambda>w. wit_id w = i) f (db_witnesses d1) = Some xs" "d' = d1\<lparr>db_witnesses := xs\<rparr>"
      using m by (auto simp: modify_witness_id_def bind_Some_iff)
    show ?thesis using map_key_modify[OF xs(1), of staff] assms(2) xs(2) by (simp add: same_staff_def neutral_def)
  qed
  then show ?thesis using assms(1) same_staff_trans by (auto simp: kept_def)
qed

lemma staff_gpo:
  assumes "same_staff d d1" "\<And>g g'. f g = Some g' \<Longrightarrow> supply_view g' = supply_view g"
  shows "staff_res d (modify_gpo f d1)"
  using assms by (auto simp: kept_def modify_gpo_def bind_Some_iff same_staff_def neutral_def)

lemma staff_wso: "same_staff d d1 \<Longrightarrow> same_staff d (modify_wso f d1)"
  by (auto simp: modify_wso_def same_staff_def neutral_def)

lemma staff_feed: "same_staff d d1 \<Longrightarrow> same_staff d (d1\<lparr>db_feed := f\<rparr>)"
  by (auto simp: same_staff_def neutral_def)

lemma staff_bind_pair: "staff_pair d m \<Longrightarrow> (\<And>x d1. same_staff d d1 \<Longrightarrow> kept R d (f (x, d1))) \<Longrightarrow> kept R d (m \<bind> f)"
  by (auto simp: kept_def bind_Some_iff)

lemma staff_Some: "same_staff d d1 \<Longrightarrow> staff_pair d (Some (x, d1))" by (simp add: kept_def)

lemma staff_list: "(\<And>y ys. kept R d (f y ys)) \<Longrightarrow> kept R d m \<Longrightarrow> kept R d (case xs of [] \<Rightarrow> m | y # ys \<Rightarrow> f y ys)"
  by (cases xs) auto

lemmas staff_rules = staff_Some clock_split kept_bind[of same_staff] staff_bind_pair staff_list kept_rules staff_wso staff_feed

lemma staff_set_schedule: "same_staff d d1 \<Longrightarrow> staff_res d (set_schedule t i d1)"
  unfolding set_schedule_def by (rule staff_witness) (auto simp: staff_def)

lemma staff_leave_pow: "same_staff d d1 \<Longrightarrow> staff_res d (leave_pow_queue i d1)"
  unfolding leave_pow_queue_def
  by (rule staff_rules staff_witness staff_gpo | assumption | (auto simp: staff_def supply_view_def; fail))+

lemma staff_voted: "same_staff d d1 \<Longrightarrow> staff_pair d (elect_voted m ws sel d1)"
  by (induction ws arbitrary: sel d1) (simp_all only: elect_voted.simps, (rule staff_set_schedule staff_rules | assumption | blast)+)

lemma staff_miners: "same_staff d d1 \<Longrightarrow> staff_pair d (elect_miners m ts ws sel d1)"
  by (induction ws arbitrary: sel d1) (simp_all only: elect_miners.simps,
      (rule staff_set_schedule staff_leave_pow staff_rules | assumption | blast)+)

lemma staff_runners: "same_staff d d1 \<Longrightarrow> kept (\<lambda>d x. same_staff d (snd (snd (snd x)))) d (elect_runners ts n ws sel p t d1)"
proof (induction ws arbitrary: n sel p t d1)
  case (Cons w ws)
  have "same_staff d e" if "set_schedule timeshare (wit_id w) d1 = Some e" for e
    using keptD[OF staff_set_schedule[OF Cons.prems] that] .
  with Cons show ?case by (auto simp: kept_def bind_Some_iff)
qed (simp add: kept_def)

lemma staff_advance: "same_staff d d1 \<Longrightarrow> staff_pair d (advance_runners F t ws d1)"
  by (induction ws arbitrary: d1) (simp_all only: advance_runners.simps,
      (rule staff_witness staff_rules | assumption | (auto simp: staff_def; fail) | blast)+)

lemma staff_reset_witnesses: "same_staff d d1 \<Longrightarrow> staff_res d (reset_witnesses F is d1)"
  by (induction "is" arbitrary: d1) (simp_all only: reset_witnesses.simps,
      (rule staff_witness staff_rules | assumption | (auto simp: staff_def bind_Some_iff; fail) | blast)+)

lemma staff_reset: "same_staff d d1 \<Longrightarrow> staff_res d (reset_virtual_schedule_time F d1)"
  unfolding reset_virtual_schedule_time_def by (rule staff_reset_witnesses staff_rules | assumption)+

lemma staff_median: "same_staff d d1 \<Longrightarrow> staff_res d (update_median_witness_props d1)"
  unfolding update_median_witness_props_def
  by (rule staff_rules staff_gpo | assumption | (auto simp: supply_view_def; fail))+

end
