(* ===== verification/Rounds.thy ===== *)
theory Rounds
  imports Schedule
begin

text \<open>
  Shown of the schedule (\<open>libraries/chain/witness_schedule.cpp\<close>): a round holds distinct witnesses, each with a key to
  sign blocks, among them the ones with the most votes; and no round exists at all when too few witnesses have a key.
\<close>

section \<open>The three selections\<close>

lemma staff_row:
  assumes "same_staff d d'" "w \<in> set (db_witnesses d')"
  shows "\<exists>w0 \<in> set (db_witnesses d). staff w0 = staff w"
proof -
  have "set (map staff (db_witnesses d)) = set (map staff (db_witnesses d'))" using assms(1) by (simp only: same_staff_def)
  then have "staff w \<in> set (map staff (db_witnesses d))" using assms(2) by simp
  then show ?thesis by auto
qed

lemma staff_length: "same_staff d d' \<Longrightarrow> length (db_witnesses d') = length (db_witnesses d)"
  unfolding same_staff_def by (metis length_map)

lemma staff_maps:
  assumes "same_staff d d'"
  shows "map wit_id (db_witnesses d') = map wit_id (db_witnesses d)" "map wit_owner (db_witnesses d') = map wit_owner (db_witnesses d)"
proof -
  have "map wit_id xs = map fst (map staff xs)" "map wit_owner xs = map (fst \<circ> snd) (map staff xs)" for xs
    by (simp_all add: staff_def)
  then show "map wit_id (db_witnesses d') = map wit_id (db_witnesses d)" "map wit_owner (db_witnesses d') = map wit_owner (db_witnesses d)"
    using assms by (metis same_staff_def)+
qed

lemma staff_keyless: "same_staff d d' \<Longrightarrow> keyless d' w = keyless d w"
  by (simp add: keyless_def same_staff_def neutral_def has_hardfork_def)

lemma keyless_staff: "staff w = staff w' \<Longrightarrow> keyless d w = keyless d w'"
  by (simp add: keyless_def staff_def)

lemma voted_eq:
  "elect_voted m ws sel d = Some (sel', d') \<Longrightarrow> length sel \<le> m \<Longrightarrow>
   sel' = sel @ take (m - length sel) (filter (\<lambda>w. \<not> keyless d w) ws)"
proof (induction ws arbitrary: sel d)
  case (Cons w ws)
  show ?case
  proof (cases "length sel < m \<and> \<not> keyless d w")
    case True
    with Cons.prems obtain d1 where d1: "set_schedule top19 (wit_id w) d = Some d1" "elect_voted m ws (sel @ [w]) d1 = Some (sel', d')"
      by (auto simp: bind_Some_iff)
    have "keyless d1 = keyless d" using staff_keyless[OF keptD[OF staff_set_schedule[OF same_staff_refl] d1(1)]] by blast
    with Cons.IH[OF d1(2)] True show ?thesis by (simp add: Suc_diff_Suc flip: take_Suc_Cons)
  next
    case False
    with Cons show ?thesis by (auto split: if_splits)
  qed
qed simp

text \<open>Miners and runners: new ones, from the rows that were looked at, each once and with a key.\<close>

definition selection :: "chain_db \<Rightarrow> nat list \<Rightarrow> witness_object list \<Rightarrow> witness_object list \<Rightarrow> bool" where
  "selection d ts ws ys \<longleftrightarrow> set ys \<subseteq> set ws \<and> distinct (map wit_id ys) \<and> set (map wit_id ys) \<inter> set ts = {} \<and> (\<forall>w \<in> set ys. \<not> keyless d w)"

lemma selection_Nil: "selection d ts ws []" by (simp add: selection_def)

lemma selection_Cons: "selection d ts ws ys \<Longrightarrow> selection d ts (w # ws) ys"
  by (auto simp: selection_def)

lemma selection_take:
  "selection d ts ws ys \<Longrightarrow> wit_id w \<notin> set ts \<Longrightarrow> \<not> keyless d w \<Longrightarrow> wit_id w \<notin> wit_id ` set ws \<Longrightarrow> selection d ts (w # ws) (w # ys)"
  by (auto simp: selection_def)

lemma owner_staff:
  assumes "same_staff d d'" "distinct (map wit_owner (db_witnesses d))" "w \<in> set (db_witnesses d)" "get_witness (wit_owner w) d' = Some w'"
  shows "staff w' = staff w"
proof -
  have w': "w' \<in> set (db_witnesses d')" "wit_owner w' = wit_owner w"
    using assms(4) by (auto simp: get_witness_def find_witness_def dest: find_Some_P)
  from staff_row[OF assms(1) w'(1)] obtain w0 where w0: "w0 \<in> set (db_witnesses d)" "staff w0 = staff w'" by blast
  then have "wit_owner w0 = wit_owner w" using w'(2) by (simp add: staff_def)
  then have "w0 = w" using w0(1) assms(2,3) by (simp add: distinct_map inj_on_def)
  then show ?thesis using w0(2) by simp
qed

lemma miners_selection:
  "elect_miners m ts ws sel d1 = Some (sel', d') \<Longrightarrow> same_staff d d1 \<Longrightarrow> distinct (map wit_owner (db_witnesses d)) \<Longrightarrow>
   distinct (map wit_id ws) \<Longrightarrow> set ws \<subseteq> set (db_witnesses d) \<Longrightarrow> \<exists>ys. sel' = sel @ ys \<and> selection d ts ws ys"
proof (induction ws arbitrary: sel d1)
  case Nil
  then show ?case by (simp add: selection_Nil)
next
  case (Cons w ws)
  show ?case
  proof (cases "length sel < m")
    case True
    with Cons.prems(1) obtain c d2 d3 where
      c: "(if wit_id w \<in> set ts then Some False
           else if has_hardfork 14 d1 then do { w \<leftarrow> get_witness (wit_owner w) d1; Some (wit_signing_key w \<noteq> 0) } else Some True) = Some c" and
      d2: "(if c then set_schedule miner (wit_id w) d1 else Some d1) = Some d2" and d3: "leave_pow_queue (wit_id w) d2 = Some d3" and
      r: "elect_miners m ts ws (if c then sel @ [w] else sel) d3 = Some (sel', d')"
      unfolding elect_miners.simps by (simp only: if_True bind_Some_iff) (elim exE conjE, rule that, assumption+)
    have s2: "same_staff d d2" using d2 keptD[OF staff_set_schedule[OF Cons.prems(2)]] Cons.prems(2) by (auto split: if_splits)
    have s3: "same_staff d d3" using keptD[OF staff_leave_pow[OF s2] d3] .
    have "wit_id w \<notin> set ts \<and> \<not> keyless d w" if c
      using that c owner_staff[OF Cons.prems(2,3), of w] Cons.prems(5) staff_keyless[OF Cons.prems(2), of w]
      by (auto simp: keyless_def staff_def bind_Some_iff split: if_splits)
    then show ?thesis
      using Cons.IH[OF r s3 Cons.prems(3)] Cons.prems(4,5) by (auto intro: selection_take selection_Cons split: if_splits)
  next
    case False
    then show ?thesis using Cons.prems(1) by (auto simp: selection_Nil)
  qed
qed

lemma runners_selection:
  "elect_runners ts n ws sel p t d1 = Some (sel', p', t', d') \<Longrightarrow> same_staff d d1 \<Longrightarrow> distinct (map wit_id ws) \<Longrightarrow>
   \<exists>ys. sel' = sel @ ys \<and> selection d ts ws ys"
proof (induction ws arbitrary: n sel p t d1)
  case Nil
  then show ?case by (simp add: selection_Nil)
next
  case (Cons w ws)
  show ?case
  proof (cases "n < MAX_WITNESSES \<and> \<not> (keyless d1 w \<or> wit_id w \<in> set ts)")
    case True
    with Cons.prems(1) obtain d2 where d2: "set_schedule timeshare (wit_id w) d1 = Some d2"
      "elect_runners ts (n + 1) ws (sel @ [w]) (p @ [w]) (wit_virtual_scheduled_time w) d2 = Some (sel', p', t', d')"
      by (auto simp: bind_Some_iff)
    have "same_staff d d2" using keptD[OF staff_set_schedule[OF Cons.prems(2)] d2(1)] .
    from Cons.IH[OF d2(2) this] Cons.prems(2,3) True staff_keyless[OF Cons.prems(2), of w]
    show ?thesis by (auto intro: selection_take)
  next
    case False
    show ?thesis
    proof (cases "n < MAX_WITNESSES")
      case True
      then have "elect_runners ts n ws sel (p @ [w]) (wit_virtual_scheduled_time w) d1 = Some (sel', p', t', d')"
        using False Cons.prems(1) by simp
      from Cons.IH[OF this Cons.prems(2)] Cons.prems(3) show ?thesis by (auto intro: selection_Cons)
    next
      case False
      then show ?thesis using Cons.prems(1) by (auto simp: selection_Nil)
    qed
  qed
qed

section \<open>The round\<close>

lemma schedule4_cases:
  assumes "update_witness_schedule4 F (hfp, d) = Some (hfp', d')"
  obtains top d1 miners d2 runners processed t d3 d5 where
    "elect_voted (wso_max_voted_witnesses (db_wso d)) (idx_sorted by_vote_name (db_witnesses d)) [] d = Some (top, d1)"
    "elect_miners (wso_max_miner_witnesses (db_wso d)) (map wit_id top) (pow_queue d1) [] d1 = Some (miners, d2)"
    "elect_runners (map wit_id top @ map wit_id miners) (length top + length miners)
        (idx_sorted by_schedule_time (db_witnesses d2)) [] [] (wso_current_virtual_time (db_wso d2)) d2 = Some (runners, processed, t, d3)"
    "same_staff d3 d5" "length (top @ miners @ runners) = min MAX_WITNESSES (length (db_witnesses d5))"
    "let names = map wit_owner (top @ miners @ runners); n = num_scheduled names in
     wso_current_shuffled_witnesses (db_wso d') = shuffle (head_block_time d5) n (schedule_array names) \<and>
     wso_num_scheduled_witnesses (db_wso d') = n" "same_staff d5 d'"
proof -
  from assms obtain top d1 miners d2 runners processed t d3 ov d4 t5 d5 mv fac tm nx where
    1: "elect_voted (wso_max_voted_witnesses (db_wso d)) (idx_sorted by_vote_name (db_witnesses d)) [] d = Some (top, d1)" and
    2: "elect_miners (wso_max_miner_witnesses (db_wso d)) (map wit_id top) (pow_queue d1) [] d1 = Some (miners, d2)" and
    3: "elect_runners (map wit_id top @ map wit_id miners) (length top + length miners)
        (idx_sorted by_schedule_time (db_witnesses d2)) [] [] (wso_current_virtual_time (db_wso d2)) d2 = Some (runners, processed, t, d3)" and
    4: "advance_runners F t processed d3 = Some (ov, d4)" and
    5: "(if ov then do { d5 \<leftarrow> reset_virtual_schedule_time F d4; Some (0, d5) } else Some (t, d4)) = Some (t5, d5)" and
    6: "length (map wit_owner (top @ miners @ runners)) = min MAX_WITNESSES (length (db_witnesses d5))" and
    7: "update_median_witness_props (modify_wso (\<lambda>o'. o'\<lparr>
        wso_current_shuffled_witnesses := shuffle (head_block_time d5) (num_scheduled (map wit_owner (top @ miners @ runners)))
            (schedule_array (map wit_owner (top @ miners @ runners))),
        wso_num_scheduled_witnesses := num_scheduled (map wit_owner (top @ miners @ runners)),
        wso_witness_pay_normalization_factor := fac o', wso_current_virtual_time := t5, wso_next_shuffle_block_num := nx,
        wso_majority_version := mv\<rparr>) d5) = Some d'"
    unfolding update_witness_schedule4_def Let_def prod.case
    by (simp only: bind_Some_iff split_paired_Ex prod.case FC_ASSERT_Some option.inject Pair_inject)
      (elim exE conjE Pair_inject, hypsubst, rule that, assumption+)
  have s4: "same_staff d3 d4" using keptD[OF staff_advance[OF same_staff_refl] 4] by simp
  have "same_staff d3 d5" using 5 s4 keptD[OF staff_reset[OF s4]] by (auto simp: bind_Some_iff split: if_splits)
  moreover have "same_staff d5 d'" using keptD[OF staff_median[OF staff_wso[OF same_staff_refl]] 7] .
  moreover have "let names = map wit_owner (top @ miners @ runners); n = num_scheduled names in
     wso_current_shuffled_witnesses (db_wso d') = shuffle (head_block_time d5) n (schedule_array names) \<and>
     wso_num_scheduled_witnesses (db_wso d') = n"
    using 7 by (auto simp: update_median_witness_props_def modify_wso_def modify_gpo_def bind_Some_iff Let_def)
  ultimately show thesis using 1 2 3 6 by (intro that[of top d1 miners d2 runners processed t d3 d5]) simp_all
qed

lemma distinct_owners:
  assumes "distinct (map wit_id zs)" "\<forall>z \<in> set zs. \<exists>w \<in> set ws. staff w = staff z" "distinct (map wit_owner ws)"
  shows "distinct (map wit_owner zs)"
proof -
  have "inj_on wit_owner (set zs)"
  proof (rule inj_onI)
    fix x y
    assume xy: "x \<in> set zs" "y \<in> set zs" "wit_owner x = wit_owner y"
    from assms(2) xy obtain a b where ab: "a \<in> set ws" "staff a = staff x" "b \<in> set ws" "staff b = staff y" by metis
    then have "a = b" using assms(3) xy(3) by (auto simp: distinct_map inj_on_def staff_def)
    then have "wit_id x = wit_id y" using ab by (simp add: staff_def)
    then show "x = y" using assms(1) xy(1,2) by (auto simp: distinct_map inj_on_def)
  qed
  then show ?thesis using assms(1) by (simp add: distinct_map)
qed

lemma distinct_idx: "distinct (map g xs) \<Longrightarrow> distinct (map g (idx_sorted k xs))"
  by (simp add: idx_sorted_def distinct_map)

lemma selection_row:
  assumes "same_staff d e" "selection d ts (db_witnesses e) ys" "z \<in> set ys"
  shows "\<exists>w \<in> set (db_witnesses d). staff w = staff z \<and> \<not> keyless d w"
proof -
  have z: "z \<in> set (db_witnesses e)" "\<not> keyless d z" using assms(2,3) by (auto simp: selection_def)
  from staff_row[OF assms(1) z(1)] obtain w where "w \<in> set (db_witnesses d)" "staff w = staff z" by blast
  then show ?thesis using z(2) keyless_staff[of w z] by blast
qed

lemma selection_top:
  assumes "distinct (map wit_id (db_witnesses d))"
  shows "selection d [] (db_witnesses d) (take m (filter (\<lambda>w. \<not> keyless d w) (idx_sorted k (db_witnesses d))))"
proof -
  have "distinct (map wit_id (filter (\<lambda>w. \<not> keyless d w) (idx_sorted k (db_witnesses d))))"
    by (rule distinct_map_filter[OF distinct_idx[OF assms]])
  then have "distinct (map wit_id (take m (filter (\<lambda>w. \<not> keyless d w) (idx_sorted k (db_witnesses d)))))"
    unfolding take_map[symmetric] by (rule distinct_take)
  then show ?thesis by (auto simp: selection_def dest!: in_set_takeD)
qed

text \<open>Who is active, before the shuffle.\<close>

lemma active_witnesses:
  assumes "update_witness_schedule4 F (hfp, d) = Some (hfp', d')" "distinct (map wit_id (db_witnesses d))"
    "distinct (map wit_owner (db_witnesses d))"
  obtains now zs where "length zs = min MAX_WITNESSES (length (db_witnesses d))" "distinct (map wit_owner zs)"
    "\<forall>z \<in> set zs. \<exists>w \<in> set (db_witnesses d). staff w = staff z \<and> \<not> keyless d w"
    "set (take (wso_max_voted_witnesses (db_wso d)) (filter (\<lambda>w. \<not> keyless d w) (idx_sorted by_vote_name (db_witnesses d)))) \<subseteq> set zs"
    "wso_current_shuffled_witnesses (db_wso d') = shuffle now (num_scheduled (map wit_owner zs)) (schedule_array (map wit_owner zs))"
    "wso_num_scheduled_witnesses (db_wso d') = num_scheduled (map wit_owner zs)" "same_staff d d'"
proof (rule schedule4_cases[OF assms(1)])
  fix top d1 miners d2 runners processed t d3 d5
  assume 1: "elect_voted (wso_max_voted_witnesses (db_wso d)) (idx_sorted by_vote_name (db_witnesses d)) [] d = Some (top, d1)"
    and 2: "elect_miners (wso_max_miner_witnesses (db_wso d)) (map wit_id top) (pow_queue d1) [] d1 = Some (miners, d2)"
    and 3: "elect_runners (map wit_id top @ map wit_id miners) (length top + length miners)
        (idx_sorted by_schedule_time (db_witnesses d2)) [] [] (wso_current_virtual_time (db_wso d2)) d2 = Some (runners, processed, t, d3)"
    and s5: "same_staff d3 d5" and l: "length (top @ miners @ runners) = min MAX_WITNESSES (length (db_witnesses d5))"
    and o: "let names = map wit_owner (top @ miners @ runners); n = num_scheduled names in
     wso_current_shuffled_witnesses (db_wso d') = shuffle (head_block_time d5) n (schedule_array names) \<and>
     wso_num_scheduled_witnesses (db_wso d') = n" and s': "same_staff d5 d'"
  have t: "top = take (wso_max_voted_witnesses (db_wso d)) (filter (\<lambda>w. \<not> keyless d w) (idx_sorted by_vote_name (db_witnesses d)))"
    using voted_eq[OF 1] by simp
  have s1: "same_staff d d1" using keptD[OF staff_voted[OF same_staff_refl] 1] by simp
  have s2: "same_staff d d2" using keptD[OF staff_miners[OF s1] 2] by simp
  have s3: "same_staff d d3" using keptD[OF staff_runners[OF s2] 3] by simp
  have ids: "distinct (map wit_id (db_witnesses e)) \<and> distinct (map wit_owner (db_witnesses e))" if "same_staff d e" for e
    using staff_maps[OF that] assms(2,3) by simp
  have tsel: "selection d [] (db_witnesses d) top"
    unfolding t by (rule selection_top[OF assms(2)])
  have "selection d1 (map wit_id top) (pow_queue d1) miners"
    using miners_selection[OF 2 same_staff_refl] ids[OF s1] distinct_idx[of wit_id "db_witnesses d1" wit_pow_worker]
    by (auto simp: pow_queue_def distinct_map_filter)
  then have msel: "selection d (map wit_id top) (db_witnesses d1) miners"
    using staff_keyless[OF s1] by (auto simp: selection_def pow_queue_def)
  have "selection d2 (map wit_id top @ map wit_id miners) (idx_sorted by_schedule_time (db_witnesses d2)) runners"
    using runners_selection[OF 3 same_staff_refl] ids[OF s2] by (auto intro: distinct_idx)
  then have rsel: "selection d (map wit_id top @ map wit_id miners) (db_witnesses d2) runners"
    using staff_keyless[OF s2] by (auto simp: selection_def)
  let ?zs = "top @ miners @ runners"
  have rows: "\<forall>z \<in> set ?zs. \<exists>w \<in> set (db_witnesses d). staff w = staff z \<and> \<not> keyless d w"
    using selection_row[OF same_staff_refl tsel] selection_row[OF s1 msel] selection_row[OF s2 rsel] by auto
  have "distinct (map wit_id ?zs)" using tsel msel rsel by (auto simp: selection_def)
  then have od: "distinct (map wit_owner ?zs)" by (rule distinct_owners[OF _ _ assms(3)]) (use rows in blast)
  show thesis
  proof (rule that[of ?zs "head_block_time d5", OF _ od rows])
    show "length ?zs = min MAX_WITNESSES (length (db_witnesses d))" using l staff_length[OF same_staff_trans[OF s3 s5]] by simp
    show "same_staff d d'" by (rule same_staff_trans[OF s3 same_staff_trans[OF s5 s']])
    show "set (take (wso_max_voted_witnesses (db_wso d)) (filter (\<lambda>w. \<not> keyless d w) (idx_sorted by_vote_name (db_witnesses d)))) \<subseteq> set ?zs"
      unfolding t[symmetric] by simp
  qed (use o in \<open>simp_all only: Let_def\<close>)
qed

lemma round_permutes:
  assumes "wso_current_shuffled_witnesses (db_wso d') = shuffle now (num_scheduled ns) (schedule_array ns)"
    "wso_num_scheduled_witnesses (db_wso d') = num_scheduled ns" "length ns \<le> MAX_WITNESSES" "ns \<noteq> []"
  shows "mset (round_names d') = mset ns"
proof -
  have n: "num_scheduled ns = length ns" using assms(3,4) by (simp add: num_scheduled_def MAX_WITNESSES_def Suc_le_eq)
  have "mset (take (length ns) (shuffle now (length ns) (schedule_array ns))) = mset (take (length ns) (schedule_array ns))"
    using assms(3) by (intro shuffle_front) (simp_all add: schedule_array_def MAX_WITNESSES_def)
  then show ?thesis using assms(1,2) n by (simp add: round_names_def schedule_array_def)
qed

lemma round_sound:
  assumes "update_witness_schedule4 F (hfp, d) = Some (hfp', d')" "db_witnesses d \<noteq> []"
    and "distinct (map wit_id (db_witnesses d))" "distinct (map wit_owner (db_witnesses d))"
  shows "length (round_names d') = min MAX_WITNESSES (length (db_witnesses d)) \<and> distinct (round_names d')
     \<and> set (round_names d') \<subseteq> wit_owner ` {w \<in> set (db_witnesses d). \<not> keyless d w}
     \<and> wit_owner ` set (take (wso_max_voted_witnesses (db_wso d)) (filter (\<lambda>w. \<not> keyless d w) (idx_sorted by_vote_name (db_witnesses d))))
         \<subseteq> set (round_names d')"
proof (rule active_witnesses[OF assms(1,3,4)])
  fix now zs
  assume z: "length zs = min MAX_WITNESSES (length (db_witnesses d))" "distinct (map wit_owner zs)"
    "\<forall>z \<in> set zs. \<exists>w \<in> set (db_witnesses d). staff w = staff z \<and> \<not> keyless d w"
    "set (take (wso_max_voted_witnesses (db_wso d)) (filter (\<lambda>w. \<not> keyless d w) (idx_sorted by_vote_name (db_witnesses d)))) \<subseteq> set zs"
    "wso_current_shuffled_witnesses (db_wso d') = shuffle now (num_scheduled (map wit_owner zs)) (schedule_array (map wit_owner zs))"
    "wso_num_scheduled_witnesses (db_wso d') = num_scheduled (map wit_owner zs)"
  have ne: "zs \<noteq> []" using z(1) assms(2) by (cases "db_witnesses d") (auto simp: MAX_WITNESSES_def)
  have m: "mset (round_names d') = mset (map wit_owner zs)"
    using z(1) ne by (intro round_permutes[OF z(5,6)]) simp_all
  from mset_eq_setD[OF m] mset_eq_length[OF m] mset_eq_imp_distinct_iff[OF m] z(1-4) show ?thesis
    by (auto simp: staff_def) (metis (mono_tags, lifting) Pair_inject image_eqI mem_Collect_eq)
qed

text \<open>
  C39.  A round is sound: from hardfork 4 on, when \<open>update_witness_schedule4\<close> succeeds on a chain with witnesses, the
  schedule holds as many distinct names as there are witnesses, at most \<open>MAX_WITNESSES\<close>; each is a witness that has a
  signing key (from hardfork 14 on), and the witnesses with the most votes among those with a key are in it.
\<close>

theorem schedule_sound:
  assumes "update_witness_schedule4 F (hfp, d) = Some (hfp', d')" "db_witnesses d \<noteq> []"
    and "distinct (map wit_id (db_witnesses d))" "distinct (map wit_owner (db_witnesses d))"
  shows "length (round_names d') = min MAX_WITNESSES (length (db_witnesses d)) \<and> distinct (round_names d')
     \<and> set (round_names d') \<subseteq> wit_owner ` {w \<in> set (db_witnesses d). \<not> keyless d w}
     \<and> wit_owner ` set (take (wso_max_voted_witnesses (db_wso d)) (filter (\<lambda>w. \<not> keyless d w) (idx_sorted by_vote_name (db_witnesses d))))
         \<subseteq> set (round_names d')"
  using assms by (rule round_sound)

text \<open>
  C40.  Resigned witnesses stop the schedule: from hardfork 14 on, when fewer witnesses have a signing key than a round must
  hold, the assertion on the number of active witnesses fails: at every block number divisible by \<open>MAX_WITNESSES\<close>,
  \<open>update_witness_schedule\<close>, a task of \<open>_apply_block\<close>, throws.  On a chain with exactly fifty witnesses one resignation
  is enough.
\<close>

theorem schedule_needs_keys:
  assumes "head_block_num d mod int MAX_WITNESSES = 0" "has_hardfork 14 d" "db_witnesses d \<noteq> []"
    and "distinct (map wit_id (db_witnesses d))" "distinct (map wit_owner (db_witnesses d))"
    and "length (filter (\<lambda>w. wit_signing_key w \<noteq> 0) (db_witnesses d)) < min MAX_WITNESSES (length (db_witnesses d))"
  shows "update_witness_schedule F (hfp, d) = None"
proof -
  have "update_witness_schedule4 F (hfp, d) = None"
  proof (rule ccontr)
    assume "update_witness_schedule4 F (hfp, d) \<noteq> None"
    then obtain hfp' d' where u: "update_witness_schedule4 F (hfp, d) = Some (hfp', d')" by auto
    note r = round_sound[OF u assms(3-5)]
    have k: "{w \<in> set (db_witnesses d). \<not> keyless d w} = set (filter (\<lambda>w. wit_signing_key w \<noteq> 0) (db_witnesses d))"
      using assms(2) by (auto simp: keyless_def)
    have "length (round_names d') = card (set (round_names d'))" using r by (simp add: distinct_card)
    also have "\<dots> \<le> card (wit_owner ` {w \<in> set (db_witnesses d). \<not> keyless d w})" using r by (intro card_mono) auto
    also have "\<dots> \<le> length (filter (\<lambda>w. wit_signing_key w \<noteq> 0) (db_witnesses d))"
      unfolding k using card_image_le[of "set (filter (\<lambda>w. wit_signing_key w \<noteq> 0) (db_witnesses d))" wit_owner] card_length le_trans by blast
    finally show False using r assms(6) by (metis leD)
  qed
  then show ?thesis using assms(1,2) by (simp add: update_witness_schedule_def has_hardfork_def)
qed

section \<open>The ledger\<close>

lemma staff_schedule4: "same_staff d d1 \<Longrightarrow> staff_pair d (update_witness_schedule4 F (hfp, d1))"
proof -
  assume s: "same_staff d d1"
  have "same_staff d1 d'" if u: "update_witness_schedule4 F (hfp, d1) = Some (h, d')" for h d'
  proof (rule schedule4_cases[OF u])
    fix top e1 miners e2 runners processed t e3 e5
    assume 1: "elect_voted (wso_max_voted_witnesses (db_wso d1)) (idx_sorted by_vote_name (db_witnesses d1)) [] d1 = Some (top, e1)"
      and 2: "elect_miners (wso_max_miner_witnesses (db_wso d1)) (map wit_id top) (pow_queue e1) [] e1 = Some (miners, e2)"
      and 3: "elect_runners (map wit_id top @ map wit_id miners) (length top + length miners)
        (idx_sorted by_schedule_time (db_witnesses e2)) [] [] (wso_current_virtual_time (db_wso e2)) e2 = Some (runners, processed, t, e3)"
      and 4: "same_staff e3 e5" "same_staff e5 d'"
    from keptD[OF staff_voted[OF same_staff_refl] 1] keptD[OF staff_miners[OF same_staff_refl] 2] keptD[OF staff_runners[OF same_staff_refl] 3]
    have "same_staff d1 e1" "same_staff e1 e2" "same_staff e2 e3" by simp_all
    then show ?thesis using 4 by (meson same_staff_trans)
  qed
  then show ?thesis using s by (auto simp: kept_def intro: same_staff_trans)
qed

lemma staff_first: "same_staff d d1 \<Longrightarrow> staff_pair d (elect_first F ws act d1)"
  by (induction ws arbitrary: act d1) (simp_all only: elect_first.simps,
      (rule staff_witness staff_rules | assumption | (auto simp: staff_def; fail) | blast)+)

lemma staff_virtual: "same_staff d d1 \<Longrightarrow> kept (\<lambda>d x. same_staff d (snd (snd x))) d (elect_virtual F act d1)"
  unfolding elect_virtual_def
  by (rule staff_rules staff_witness | assumption | (auto simp: staff_def bind_Some_iff; fail) | (auto simp: kept_def; fail))+

lemma staff_bind_triple:
  "kept (\<lambda>d x. same_staff d (snd (snd x))) d m \<Longrightarrow> (\<And>x y d1. same_staff d d1 \<Longrightarrow> kept R d (f (x, y, d1))) \<Longrightarrow> kept R d (m \<bind> f)"
  by (auto simp: kept_def bind_Some_iff)

lemma staff_schedule0: "same_staff d d1 \<Longrightarrow> staff_res d (update_witness_schedule0 F d1)"
  unfolding update_witness_schedule0_def
  by (rule staff_bind_triple staff_first staff_virtual staff_leave_pow staff_median staff_rules
      | assumption | (auto simp: kept_def; fail))+

lemma schedule_neutral: "update_witness_schedule F s = Some s' \<Longrightarrow> neutral (snd s) (snd s')"
  using keptD[OF staff_schedule4[OF same_staff_refl]] keptD[OF staff_schedule0[OF same_staff_refl]]
  by (cases s) (auto simp: update_witness_schedule_def same_staff_def split: if_splits)

lemma median_feed_neutral: "update_median_feed F d = Some d' \<Longrightarrow> neutral d d'"
  by (auto simp: update_median_feed_def bind_Some_iff neutral_def Let_def split: if_splits)

section \<open>Old feeds\<close>

text \<open>Before hardfork 19 the age of a feed is compared the wrong way round: no feed is ever too old to count.\<close>

lemma old_feeds_count:
  assumes "fc_time F" "\<not> has_hardfork 19 d" "0 \<le> head_block_time d" "head_block_time d + MAX_FEED_AGE_SECONDS < 2 ^ 32"
    and "wit_last_TSD_exchange_update w \<le> head_block_time d"
  shows "fresh_feed F d w \<longleftrightarrow> \<not> price_is_null F (wit_TSD_exchange_rate w)"
  using assms fc_time.secs_add_law[OF assms(1), of "head_block_time d" MAX_FEED_AGE_SECONDS]
  by (simp add: fresh_feed_def MAX_FEED_AGE_SECONDS_def)

section \<open>Examples\<close>

definition example_round :: chain_db where
  "example_round = example_db\<lparr>db_witnesses := [example_witness 0 ''alice'' 30, (example_witness 1 ''bob'' 20)\<lparr>wit_pow_worker := 7\<rparr>,
     example_witness 2 ''carol'' 10], db_wso := example_wso\<lparr>wso_max_voted_witnesses := 1\<rparr>,
     db_gpo := example_gpo\<lparr>gpo_num_pow_witnesses := 1\<rparr>\<rparr>"

definition example_hfp :: hardfork_property_object where
  "example_hfp = \<lparr>hfp_current_hardfork_version = 0, hfp_next_hardfork = 0, hfp_next_hardfork_time = 0\<rparr>"

lemmas example_round_defs = example_round_def example_hfp_def example_defs

lemma example_random:
  "unat (xorshift 1000 0 mod word_of_nat (Suc (Suc (Suc 0)))) = 1" "unat (xorshift 1000 (Suc 0) mod word_of_nat (Suc (Suc 0))) = 1"
  "unat (xorshift 1000 (Suc (Suc 0)) mod word_of_nat (Suc 0)) = 0"
  by code_simp+

lemma example_shuffle: "shuffle 1000 3 (a # b # c # xs) = [b, c, a] @ xs" 
  by (simp add: shuffle_def numeral_3_eq_3 Let_def swap_def example_random del: of_nat_Suc of_nat_0)

lemma example_round_runs: "\<not> Option.is_none (update_witness_schedule4 fc_exact (example_hfp, example_round))"
  by (simp add: update_witness_schedule4_def Let_def idx_sorted_def by_vote_name_def example_round_defs keyless_def has_hardfork_def
    set_schedule_def modify_witness_id_def pow_queue_def leave_pow_queue_def modify_gpo_def get_witness_def find_witness_def
    by_schedule_time_def MAX_WITNESSES_def lap_time_def VIRTUAL_SCHEDULE_LAP_LENGTH2_def wrap64_def
    round_names_def modify_wso_def update_median_witness_props_def count_versions_def votes_on_def num_scheduled_def schedule_array_def
    median_of_def head_block_num_def head_block_time_def example_shuffle hardfork_version_of_def)

theorem schedule_sound_witness:
  "let d' = snd (the (update_witness_schedule4 fc_exact (example_hfp, example_round))) in
   length (round_names d') = 3 \<and> distinct (round_names d') \<and> ''alice'' \<in> set (round_names d')"
proof -
  obtain hfp' d' where u: "update_witness_schedule4 fc_exact (example_hfp, example_round) = Some (hfp', d')"
    using example_round_runs by (auto simp: Option.is_none_def)
  have "length (round_names d') = 3 \<and> distinct (round_names d') \<and> ''alice'' \<in> set (round_names d')"
    using schedule_sound[OF u] by (simp add: example_round_defs MAX_WITNESSES_def keyless_def idx_sorted_def by_vote_name_def has_hardfork_def)
  then show ?thesis using u by simp
qed

theorem schedule_needs_keys_witness:
  "update_witness_schedule fc_exact (example_hfp, example_round\<lparr>db_witnesses := [example_witness 0 ''alice'' 30,
     (example_witness 1 ''bob'' 20)\<lparr>wit_signing_key := 0\<rparr>]\<rparr>) = None"
  by (rule schedule_needs_keys) (simp_all add: example_round_defs head_block_num_def MAX_WITNESSES_def has_hardfork_def)

end
