(* ===== verification/Tasks.thy ===== *)
theory Tasks
  imports Rounds
begin

text \<open>
  The ledger under the operations and the periodic tasks of \<open>database::_apply_block\<close>.  The commands are the operations of
  the type \<open>operation\<close> (all but \<open>pow\<close>, \<open>pow2\<close> and \<open>report_over_production\<close>) and thirteen tasks.  Three tasks are no
  commands: the withdrawals of SCORE, which \<open>Routes\<close> treats with the invariant on stakes they need, the burning of the
  null account's balances, and the hardforks.
\<close>

section \<open>Tasks that move no money\<close>

lemma neutral_gpo:
  "(\<And>g g'. f g = Some g' \<Longrightarrow> supply_view g' = supply_view g) \<Longrightarrow> neutral_res d (modify_gpo f d)"
  by (auto simp: kept_def modify_gpo_def bind_Some_iff neutral_def)

lemma neutral_update_virtual_supply: "neutral_res d (update_virtual_supply F d)"
  unfolding update_virtual_supply_def
  by (rule neutral_gpo, simp only: bind_Some_iff Let_def, elim exE conjE, simp only: split: if_split_asm)
    (auto simp: bind_Some_iff supply_view_def)

lemma neutral_delegation_exps: "neutral d d1 \<Longrightarrow> neutral d (d1\<lparr>db_delegation_exps := xs\<rparr>)"
  by (erule neutral_update) simp_all

lemma neutral_owner_history: "neutral d d1 \<Longrightarrow> neutral d (d1\<lparr>db_owner_history := xs\<rparr>)"
  by (erule neutral_update) simp_all

text \<open>A loop over due rows is neutral when the handling of one row is.\<close>

lemma neutral_delegations: "neutral_res d (clear_expired_delegations F d)"
proof -
  have "neutral_res d (do {
     d1 \<leftarrow> modify_account (dex_delegator x) (\<lambda>a. do {
             s \<leftarrow> asset_sub F (acc_SCOREDelegated a) (dex_SCORE x); Some (a\<lparr>acc_SCOREDelegated := s\<rparr>) }) e;
     Some (d1\<lparr>db_delegation_exps := tbl_remove (\<lambda>y. dex_id y = dex_id x) (db_delegation_exps d1)\<rparr>) })" if "neutral d e" for x e
    by (rule neutral_rules neutral_delegation_exps that | assumption | (auto simp: view_simps bind_Some_iff; fail))+
  then have "neutral d x" if "delegations_loop F (length (db_delegation_exps d)) d = Some x" for x
    by (intro expired_delegations.loop_inv[OF _ that, where I = "neutral d"]) (auto dest: keptD)
  then show ?thesis by (simp add: kept_def clear_expired_delegations_def)
qed

lemma neutral_declines: "neutral_res d (process_decline_voting_rights F d)"
proof -
  have "neutral_res d (do {
     account \<leftarrow> get_account_id (dvr_account r) e;
     delta \<leftarrow> removed_votes F account;
     d1 \<leftarrow> adjust_proxied_witness_votes F (acc_name account) delta 0 e;
     d2 \<leftarrow> clear_witness_votes (acc_name account) d1;
     d3 \<leftarrow> modify_account (acc_name account) (\<lambda>a. Some (a\<lparr>acc_can_vote := False, acc_proxy := []\<rparr>)) d2;
     Some (d3\<lparr>db_declines := tbl_remove (\<lambda>x. dvr_account x = dvr_account r) (db_declines d3)\<rparr>) })" if "neutral d e" for r e
    by (rule neutral_walk neutral_clear_votes neutral_rules that | assumption | (auto simp: view_simps bind_Some_iff; fail))+
  then have "neutral d x" if "declines_loop F (length (db_declines d)) d = Some x" for x
    by (intro decline_queue.loop_inv[OF _ that, where I = "neutral d"]) (auto dest: keptD)
  then show ?thesis by (simp add: kept_def process_decline_voting_rights_def)
qed

lemma neutral_history_loop: "neutral d d1 \<Longrightarrow> neutral_res d (owner_history_loop F n d1)"
  by (induction n arbitrary: d1) (auto simp: kept_Some neutral_owner_history split: option.split)

lemma neutral_recovery_requests: "neutral d d1 \<Longrightarrow> neutral_res d (recovery_requests_loop n d1)"
  using recovery_request_queue.loop_inv[of "neutral d" n d1] neutral_removals(14) unfolding kept_def by blast

lemma neutral_change_loop: "neutral d d1 \<Longrightarrow> neutral_res d (change_recovery_loop n d1)"
proof -
  have "neutral_res d (do {
     e1 \<leftarrow> modify_account (crr_accountToRecover r) (\<lambda>a. Some (a\<lparr>acc_recoveryAccount := crr_recoveryAccount r\<rparr>)) e;
     Some (e1\<lparr>db_change_recovery := tbl_remove (\<lambda>x. crr_id x = crr_id r) (db_change_recovery e1)\<rparr>) })" if "neutral d e" for r e
    by (rule neutral_rules that | assumption | (auto simp: view_simps; fail))+
  then have "neutral d x" if "change_recovery_loop n d1 = Some x" "neutral d d1" for x
    by (intro change_recovery_queue.loop_inv[OF _ that(1), where I = "neutral d"]) (auto dest: keptD intro: that)
  then show "neutral d d1 \<Longrightarrow> neutral_res d (change_recovery_loop n d1)" by (simp add: kept_def)
qed

lemma neutral_recovery_processing: "neutral_res d (account_recovery_processing F d)"
  unfolding account_recovery_processing_def
  by (rule neutral_start) (rule neutral_recovery_requests neutral_history_loop neutral_change_loop neutral_rules | assumption)+

section \<open>Commands\<close>

datatype command = Apply operation | Clear_expired_orders | Clear_expired_delegations
  | Update_witness_schedule hardfork_property_object | Update_median_feed | Update_virtual_supply | Process_funds
  | Process_conversions | Process_comment_cashout | Process_savings_withdraws | Pay_liquidity_reward
  | Account_recovery_processing | Expire_escrow_ratification | Process_decline_voting_rights

fun command_valid :: "fc_lib \<Rightarrow> command \<Rightarrow> bool" where
  "command_valid F (Apply op) \<longleftrightarrow> operation_validate F op = Some ()"
| "command_valid F _ \<longleftrightarrow> True"

fun run_command :: "node_config \<Rightarrow> fc_lib \<Rightarrow> command \<Rightarrow> chain_db \<Rightarrow> chain_db option" where
  "run_command C F (Apply op) d = evaluate C F op d"
| "run_command C F Clear_expired_orders d = clear_expired_orders F d"
| "run_command C F Clear_expired_delegations d = clear_expired_delegations F d"
| "run_command C F (Update_witness_schedule hfp) d = map_option snd (update_witness_schedule F (hfp, d))"
| "run_command C F Update_median_feed d = update_median_feed F d"
| "run_command C F Update_virtual_supply d = update_virtual_supply F d"
| "run_command C F Process_funds d = process_funds F d"
| "run_command C F Process_conversions d = process_conversions F d"
| "run_command C F Process_comment_cashout d = process_comment_cashout F d"
| "run_command C F Process_savings_withdraws d = process_savings_withdraws F d"
| "run_command C F Pay_liquidity_reward d = pay_liquidity_reward F d"
| "run_command C F Account_recovery_processing d = account_recovery_processing F d"
| "run_command C F Expire_escrow_ratification d = expire_escrow_ratification F d"
| "run_command C F Process_decline_voting_rights d = process_decline_voting_rights F d"

lemmas neutral_tasks = neutral_update_virtual_supply neutral_recovery_processing neutral_delegations neutral_declines

context fc_chain
begin

lemma command_keeps:
  assumes v: "command_valid F c" and ok: "ledger_ok d" and r: "run_command C F c d = Some d'"
  shows "keeps d d'"
proof -
  note neutral = neutral_tasks[THEN neutral_resD, THEN neutral_keeps[OF ok]]
  show ?thesis
    using v r
    by (cases c; (simp only: command_valid.simps run_command.simps)?)
      ((rule evaluate_keeps clear_expired_orders_keeps process_funds_keeps process_conversions_keeps process_comment_cashout_keeps
          process_savings_withdraws_keeps pay_liquidity_keeps expire_escrow_ratification_keeps neutral; (rule ok | assumption))
       | (auto dest!: schedule_neutral median_feed_neutral intro: neutral_keeps[OF ok]; fail))+
qed

end

sublocale fc_chain \<subseteq> chain_commands: ledger_operation "command_valid F" "run_command C F"
  by unfold_locales (auto dest: command_keeps simp: keeps_def)

context fc_chain
begin

lemma commands_balanced: "balanced d \<Longrightarrow> balanced (run_steps (command_valid F) (run_command C F) cs d)"
  by (rule chain_commands.run_balanced)

end

section \<open>The supplies\<close>

text \<open>
  C1. Supplies stay balanced: from a state in which the TME, TSD and SCORE in accounts, orders, conversions, escrows,
  savings and funds add up to the recorded supplies, any sequence of the commands above, in whatever order, ends in such
  a state, when operations that fail \<open>validate\<close> are refused and steps that throw are rolled back.  The commands are every
  operation but \<open>pow\<close>, \<open>pow2\<close> and \<open>report_over_production\<close>, and of the periodic tasks of a block the expiry of orders,
  delegations and escrows, the witness schedule, the price feed, the virtual supply, inflation, conversions, payouts of
  comments, savings withdrawals, liquidity rewards, account recovery and declined voting rights; not burning the null
  account, the withdrawals of SCORE (treated in \<open>Routes\<close>) and hardforks.
\<close>

theorem chain_keeps_supplies:
  assumes "fc_chain F" "balanced d"
  shows "balanced (run_steps (command_valid F) (run_command C F) cs d)"
  using assms by (rule fc_chain.commands_balanced)

definition example_commands :: "command list" where
  "example_commands = [Apply example_transfer, Apply (Custom \<lparr>cu_required_auths = [''alice''], cu_id = 1, cu_data = ''x''\<rparr>),
     Apply (Convert \<lparr>cv_owner = ''alice'', cv_requestid = 1, cv_amount = TSD 100\<rparr>),
     Apply (TransferToSavings \<lparr>ts_from = ''bob'', ts_to = ''carol'', ts_amount = TME 5000, ts_memo = []\<rparr>),
     Process_funds, Process_conversions, Process_comment_cashout, Update_virtual_supply]"

lemma example_inflation: "process_funds fc_exact example_db \<noteq> None"
  by (simp add: process_funds_def distribute_inflation_def has_hardfork_def pay_reward_funds_def current_inflation_rate_def head_block_num_def
   INFLATION_RATE_START_PERCENT_def INFLATION_NARROWING_PERIOD_def INFLATION_RATE_STOP_PERCENT_def PERCENT_100_def BLOCKS_PER_YEAR_def BLOCK_INTERVAL_def
   CONTENT_REWARD_PERCENT_def PERCENT_1_def SCORE_fund_PERCENT_def witness_pay_def MAX_WITNESSES_def get_witness_def find_witness_def modify_gpo_def
   int64_def signed_divide_int_def example_defs asset_add_def get_account_def find_account_def createTMEfundForSCORE_def get_SCORE_price_def asset_mul_price_def asset_mul_leg_def modify_account_def
   adjust_proxied_witness_vote.simps adjust_witness_votes_def votes_of_def idx_sorted_def)

theorem chain_keeps_supplies_witness:
  "fc_chain fc_exact \<and> balanced example_db \<and> operation_validate fc_exact example_transfer = Some ()
   \<and> evaluate example_node fc_exact example_transfer example_db \<noteq> None
   \<and> run_command example_node fc_exact Process_funds example_db \<noteq> None
   \<and> balanced (run_steps (command_valid fc_exact) (run_command example_node fc_exact) example_commands example_db)"
proof (intro conjI)
  show "operation_validate fc_exact example_transfer = Some ()"
    by (simp add: example_transfer_def transfer_validate_def validate_account_name_def valid_names MAX_MEMO_SIZE_def)
  show "evaluate example_node fc_exact example_transfer example_db \<noteq> None"
    by (simp add: example_transfer_def transfer_do_apply_def escrow_eval get_balance_def example_defs)
  show "run_command example_node fc_exact Process_funds example_db \<noteq> None"
    using example_inflation by simp
  show "balanced (run_steps (command_valid fc_exact) (run_command example_node fc_exact) example_commands example_db)"
    by (rule chain_keeps_supplies[OF fc_chain_exact.fc_chain_axioms example_balanced])
qed (rule fc_chain_exact.fc_chain_axioms example_balanced)+

end
