(* ===== verification/Spec2Isabelle.thy ===== *)
theory Spec2Isabelle
  imports Asset Chainbase Transaction Escrow Market Replay Tasks
begin

text \<open>
  Verification of the WeYouMe node (\<open>wenode\<close>), a delegated proof of stake blockchain with two liquid assets (TME and
  TSD), a staked one (SCORE), an internal market, escrow, savings, and content that is rewarded by votes.

  \<^bold>\<open>The program.\<close>  \<open>libraries/protocol\<close> defines assets, authorities, operations, transactions and blocks.
  \<open>libraries/chainbase\<close> is the in-memory object database with nested undo sessions.  \<open>libraries/chain\<close> is the state
  machine: \<open>node_evaluator.cpp\<close> applies operations, \<open>database.cpp\<close> holds balances, matches orders, pays rewards, applies
  transactions and blocks and runs the periodic tasks, \<open>witness_schedule.cpp\<close> chooses the producers.  A block is checked
  (header, merkle root, size), its transactions are applied (signatures, expiration, duplicates, then each operation
  through the evaluator registered for it), the head moves, and the periodic tasks run.

  \<^bold>\<open>How the model is built.\<close>
  \<^item> A C++ object is a \<open>record\<close> and a table of the database a list of them in order of ids; an iteration over
    an index visits the rows sorted by the key of the index (\<open>idx_sorted\<close>, \<open>idx_begin\<close>).  The state is \<open>chain_db\<close>
    (\<open>Database\<close>), and \<open>node_state\<close> (\<open>Blocks\<close>) adds what transactions and blocks need.
  \<^item> Operations pass the state explicitly and return an \<open>option\<close>: \<open>None\<close> is an exception, and the enclosing undo
    session then restores the state, which \<open>Chainbase\<close> shows of the real mechanism.
  \<^item> Integers keep their width: \<open>safe<int64_t>\<close> throws on overflow, unsigned arithmetic wraps with \<open>mod\<close>, flags and
    the shuffle use words.
  \<^item> libfc is a git submodule and not part of the sources.  Its operations are the fields of the record \<open>fc_lib\<close>, an
    argument of every definition that uses them; the locales \<open>fc_safe\<close>, \<open>fc_u128\<close>, \<open>fc_time\<close>, \<open>fc_string\<close>, \<open>fc_bits\<close> (\<open>Fc\<close>)
    and \<open>fc_chain\<close> (\<open>Cashout\<close>) state what the node relies on, and \<open>fc_exact\<close> is a library that meets all of it.  Hashes
    and signatures are the parameter \<open>crypto_lib\<close>, plugins' interpreters of custom operations the parameter
    \<open>node_config\<close>.
  \<^item> The build is the default one: full memory (\<open>IS_LOW_MEM\<close> off), main network, votes kept after the payout
    (\<open>CLEAR_VOTES\<close> off).  Virtual operations only notify plugins and are left out.

  \<^bold>\<open>Theories.\<close>
  \<^item> \<open>Prelude\<close>: exceptions as options, machine integers, tables and sums over them.  \<open>Fc\<close>: the interface to libfc.
  \<^item> \<open>Asset\<close> (\<open>asset.hpp\<close>, \<open>asset.cpp\<close>): arithmetic, prices and their order, printing and parsing.  Conversion is exact up
    to rounding down, the order of prices is total, parsing inverts printing; and where the code goes wrong.
  \<^item> \<open>Chainbase\<close> (\<open>chainbase.hpp\<close>): \<open>generic_index\<close> with its undo deltas refines a store of whole snapshots; undo, squash,
    commit and the sessions of the database over all indices.
  \<^item> \<open>Authority\<close> (\<open>authority.cpp\<close>, \<open>sign_state.cpp\<close>) and \<open>Transaction\<close> (\<open>transaction.cpp\<close>): account names, nested authorities and
    signature checks; what is accepted is authorised, and minimised signatures still authorise.
  \<^item> \<open>Operations\<close> (\<open>node_operations.hpp\<close>, \<open>node_operations.cpp\<close>, \<open>impacted.cpp\<close>): all operations but those of
    mining, their validation, the authorities they require and the accounts they concern.
  \<^item> \<open>Objects\<close>, \<open>Database\<close>: the objects, the state, lookups and row operations.  \<open>Example\<close>: a small state for witnesses.
    The locale \<open>due_queue\<close> states the shared loop over due rows once; the clean-ups of orders, conversions, savings,
    delegations, recovery requests, declined votes and known transactions are interpretations of it.
  \<^item> \<open>Ledger\<close>: balances, interest, supplies and \<open>validate_invariants\<close>.  \<open>moves\<close> and \<open>keeps\<close> measure what a step does to the
    gap between recorded supplies and holdings; the locale \<open>ledger_operation\<close> carries it to runs of steps.
  \<^item> \<open>Transfers\<close>, \<open>Escrow\<close>, \<open>Market\<close>: transfers, savings and conversions; the life cycle of an escrow as an abstract
    machine that the evaluators refine; matching of orders, after which the book is not crossed.
  \<^item> \<open>Votes\<close>, \<open>Proxies\<close>, \<open>Score\<close>, \<open>Stake\<close>, \<open>Routes\<close>, \<open>Delegation\<close>: votes for witnesses through chains of proxies always equal
    the stake behind them; staking, weekly withdrawals with their routes, and delegated stake.
  \<^item> \<open>Accounts\<close>, \<open>Recovery\<close>: creating and updating accounts, owner history and recovery.
  \<^item> \<open>Curves\<close>, \<open>Comments\<close>, \<open>CommentVotes\<close>, \<open>Discussions\<close>, \<open>Tally\<close>: reward curves with the error of the square root;
    comments form a forest with exact counters; rewards are the sums of votes and voting power stays in range.
  \<^item> \<open>Neutral\<close>, \<open>Evaluate\<close>, \<open>Clock\<close>: a calculus \<open>kept R d m\<close> for what every result of a computation preserves; the evaluator
    registry with custom operations; every operation keeps the ledger and the clock.
  \<^item> \<open>Blocks\<close>, \<open>Replay\<close>: transactions and blocks up to the new head, slots, irreversibility; no transaction takes effect twice
    along any run of the node.
  \<^item> \<open>Rewards\<close>, \<open>Payouts\<close>, \<open>Cashout\<close>: inflation, producer and liquidity rewards, burning of the null account, payout of
    comments; what is issued is what funds and accounts receive, payouts come from the reward funds, nothing due is left.
  \<^item> \<open>Schedule\<close>, \<open>Rounds\<close>: the witness schedule before and after hardfork 4, the shuffle, median parameters and the
    price feed; a round holds distinct witnesses, from hardfork 14 on with keys, and none exists when too
    many have resigned.
  \<^item> \<open>Tasks\<close>: the modelled operations and thirteen tasks of \<open>_apply_block\<close> together keep the supplies balanced.

  \<^bold>\<open>Loops and fuel.\<close>  Loops over lists are structural recursion.  Loops that take the first due row until none is due
  have as much fuel as there are rows: each round removes one, so \<open>due_queue.loop_done\<close> shows that nothing due is left.
  The walk to the root of a discussion has as many rounds as there are comments (\<open>ancestors_walk_returns\<close>), the walk of
  the withdrawals has the bound of \<open>withdrawals_terminate\<close> (without a result, a withdrawal has
  thrown), nested authorities and proxies recurse to the depth the code allows.  The payout loop returns \<open>None\<close> when its rounds do not suffice, and from hardfork 17 on they do
  (\<open>comment_cashout_done\<close>).

  \<^bold>\<open>Not modelled.\<close>  Proof of work mining and over-production reports: the operations \<open>pow\<close> (refused from hardfork 13 on)
  and \<open>pow2\<close> (refused from hardfork 17 on) verify hashes, create accounts and witnesses and, \<open>pow2\<close> only before hardfork
  16, mint rewards, so nothing here covers a chain before these hardforks that carries them;
  block production, \<open>push_block\<close>, the fork database and the block log, which are I/O around the application of blocks; hardfork migrations, genesis and replay from disk;
  the network, wallet, APIs, plugins, utilities and programs, which do not change the chain state.  The weekly
  withdrawals keep the ledger under the invariant on stakes (\<open>withdrawals_conserve\<close>), so they are not among the commands of
  \<open>Tasks\<close>; burning the null account is defined (\<open>clear_null_account_balance\<close>) without a theorem, because a conversion of
  SCORE whose result turns negative (\<open>asset_mul_price_sign_flip\<close>) would leave the supplies unequal.
\<close>

end
